(* ===== verification/ST_Prelude.thy ===== *)
theory ST_Prelude
  imports Main "HOL-Library.Word"
begin

text \<open>
  Shared vocabulary of the development: the machine integers of the C++ code as words, the
  text formatting helpers the error messages use (\<open>snprintf\<close> with a hexadecimal
  format, \<open>std::to_string\<close>, \<open>std::string_view::find\<close>), the big-endian byte helpers the
  wire codecs share, and generic list lemmas.
\<close>

unbundle bit_operations_syntax

section \<open>Machine integers\<close>

type_synonym u8 = "8 word"
type_synonym u16 = "16 word"
type_synonym u32 = "32 word"
type_synonym u64 = "64 word"
type_synonym bytes = "u8 list"

named_theorems wire_simps "unfolding of request builders and response parsers"
named_theorems client_defs "definitions of the protocol clients"

section \<open>Text formatting\<close>

text \<open>Upper-case digit of a nibble, as \<open>snprintf\<close> prints it for the \<open>X\<close> conversion.\<close>

definition hex_digit_upper :: "nat \<Rightarrow> char" where
  "hex_digit_upper n = (if n < 10 then char_of (48 + n) else char_of (55 + n))"

text \<open>\<open>k\<close> hexadecimal digits, zero padded: the \<open>0kX\<close> conversions of values below \<open>16 ^ k\<close>.\<close>

fun hex_fixed :: "nat \<Rightarrow> nat \<Rightarrow> string" where
  "hex_fixed 0 n = []"
| "hex_fixed (Suc k) n = hex_fixed k (n div 16) @ [hex_digit_upper (n mod 16)]"

text \<open>\<open>std::to_string\<close> of an unsigned value.\<close>

fun dec_string :: "nat \<Rightarrow> string" where
  "dec_string n = (if n < 10 then [char_of (48 + n)]
                   else dec_string (n div 10) @ [char_of (48 + n mod 10)])"

declare dec_string.simps [simp del]

text \<open>The three bytes of an em dash in UTF-8, which some messages contain.\<close>

definition em_dash :: string where
  "em_dash = [CHR 0xE2, CHR 0x80, CHR 0x94]"

definition section_sign :: string where
  "section_sign = [CHR 0xC2, CHR 0xA7]"

text \<open>\<open>std::string_view::find\<close>: position of the first occurrence of \<open>pat\<close>.\<close>

fun is_prefix_of :: "'a list \<Rightarrow> 'a list \<Rightarrow> bool" where
  "is_prefix_of [] ys = True"
| "is_prefix_of (x # xs) [] = False"
| "is_prefix_of (x # xs) (y # ys) = (x = y \<and> is_prefix_of xs ys)"

fun find_sub :: "'a list \<Rightarrow> 'a list \<Rightarrow> nat option" where
  "find_sub pat [] = (if pat = [] then Some 0 else None)"
| "find_sub pat (y # ys) =
     (if is_prefix_of pat (y # ys) then Some 0 else map_option Suc (find_sub pat ys))"

lemma is_prefix_of_append [simp]: "is_prefix_of xs (xs @ ys)"
  by (induction xs) auto

section \<open>Big-endian bytes\<close>

text \<open>\<open>static_cast<std::uint8_t>((v >> s) & 0xFFU)\<close>.\<close>

definition byte_at :: "nat \<Rightarrow> u32 \<Rightarrow> u8" where
  "byte_at s v = ucast (drop_bit s v AND 0xFF)"

definition be32 :: "u32 \<Rightarrow> bytes" where
  "be32 v = [byte_at 24 v, byte_at 16 v, byte_at 8 v, byte_at 0 v]"

definition le32 :: "u32 \<Rightarrow> bytes" where
  "le32 v = [byte_at 0 v, byte_at 8 v, byte_at 16 v, byte_at 24 v]"

lemma length_be32 [simp]: "length (be32 v) = 4"
  by (simp add: be32_def)

lemma length_le32 [simp]: "length (le32 v) = 4"
  by (simp add: le32_def)

lemma unat_u8_less [simp]: "unat (b :: u8) < 256"
proof -
  have "unat b < 2 ^ LENGTH(8)" by (rule unsigned_less)
  then show ?thesis by simp
qed

lemma bit_ucast_u8_u32 [simp]: "bit (ucast (b :: u8) :: u32) n \<longleftrightarrow> n < 8 \<and> bit b n"
  by (auto simp: bit_ucast_iff dest: bit_imp_le_length)

lemma bit_0xFF [simp]: "bit (0xFF :: 'a :: len word) n \<longleftrightarrow> n < 8 \<and> n < LENGTH('a)"
proof -
  have "(0xFF :: 'a word) = mask 8" by (simp add: mask_eq_exp_minus_1)
  then show ?thesis by (simp only: bit_mask_iff) auto
qed

lemma bit_byte_at [simp]: "bit (byte_at s v) n \<longleftrightarrow> n < 8 \<and> bit v (s + n)"
  by (auto simp: byte_at_def bit_ucast_iff bit_and_iff bit_drop_bit_eq simp del: bit_numeral_word_iff)

lemma byte_at_0 [simp]: "byte_at 0 v = ucast v"
  by (rule bit_word_eqI) (simp add: bit_ucast_iff)

section \<open>Lists\<close>

lemma take_append_take_drop: "take m xs @ take n (drop m xs) = take (m + n) xs"
  by (simp add: take_add)

lemma concat_eq_Nil_iff: "concat xss = [] \<longleftrightarrow> (\<forall>xs \<in> set xss. xs = [])"
  by auto

end
