(* ===== verification/Core_Error.thy ===== *)
theory Core_Error
  imports ST_Prelude
begin

text \<open>
  The error type and the result type of the domain code: \<open>st::ErrorCode\<close>, \<open>st::Error\<close> and
  \<open>st::Result\<close> (src/core/include/st/core/error.hpp, result.hpp, src/core/src/error.cpp).
  A \<open>Result<T>\<close> is the sum \<open>error + 'a\<close>, a \<open>Status\<close> is \<open>error + unit\<close>.
\<close>

datatype error_code =
    Ok
  | Unknown
  | InvalidArgument
  | OutOfRange
  | NotImplemented
  | Cancelled
  | IoFailure
  | FileNotFound
  | PermissionDenied
  | UnexpectedEof
  | ParseError
  | BadMagic
  | BadChecksum
  | UnsupportedVersion
  | TransportUnavailable
  | TransportTimeout
  | TransportNack
  | ProtocolError
  | EcuRejected
  | SeedKeyFailed
  | PolicyDenied

primrec error_code_number :: "error_code \<Rightarrow> u16" where
  "error_code_number Ok = 0"
| "error_code_number Unknown = 100"
| "error_code_number InvalidArgument = 101"
| "error_code_number OutOfRange = 102"
| "error_code_number NotImplemented = 103"
| "error_code_number Cancelled = 104"
| "error_code_number IoFailure = 200"
| "error_code_number FileNotFound = 201"
| "error_code_number PermissionDenied = 202"
| "error_code_number UnexpectedEof = 203"
| "error_code_number ParseError = 300"
| "error_code_number BadMagic = 301"
| "error_code_number BadChecksum = 302"
| "error_code_number UnsupportedVersion = 303"
| "error_code_number TransportUnavailable = 400"
| "error_code_number TransportTimeout = 401"
| "error_code_number TransportNack = 402"
| "error_code_number ProtocolError = 403"
| "error_code_number EcuRejected = 500"
| "error_code_number SeedKeyFailed = 501"
| "error_code_number PolicyDenied = 600"

record error =
  err_code :: error_code
  err_message :: string

type_synonym 'a result = "error + 'a"
type_synonym status = "unit result"

text \<open>\<open>to_string(ErrorCode)\<close> and \<open>Error::to_string\<close>.\<close>

primrec error_code_text :: "error_code \<Rightarrow> string" where
  "error_code_text Ok = ''ok''"
| "error_code_text Unknown = ''unknown error''"
| "error_code_text InvalidArgument = ''invalid argument''"
| "error_code_text OutOfRange = ''out of range''"
| "error_code_text NotImplemented = ''not implemented''"
| "error_code_text Cancelled = ''cancelled''"
| "error_code_text IoFailure = ''I/O failure''"
| "error_code_text FileNotFound = ''file not found''"
| "error_code_text PermissionDenied = ''permission denied''"
| "error_code_text UnexpectedEof = ''unexpected end of file''"
| "error_code_text ParseError = ''parse error''"
| "error_code_text BadMagic = ''bad magic / signature''"
| "error_code_text BadChecksum = ''checksum mismatch''"
| "error_code_text UnsupportedVersion = ''unsupported version''"
| "error_code_text TransportUnavailable = ''transport unavailable''"
| "error_code_text TransportTimeout = ''transport timeout''"
| "error_code_text TransportNack = ''transport negative-acknowledged''"
| "error_code_text ProtocolError = ''transport protocol error''"
| "error_code_text EcuRejected = ''ECU rejected request''"
| "error_code_text SeedKeyFailed = ''seed/key authentication failed''"
| "error_code_text PolicyDenied = ''policy denied''"

definition error_to_string :: "error \<Rightarrow> string" where
  "error_to_string e =
     error_code_text (err_code e) @ (if err_message e \<noteq> [] then '': '' @ err_message e else [])"

definition failure :: "error_code \<Rightarrow> string \<Rightarrow> 'a result" where
  "failure c m = Inl \<lparr>err_code = c, err_message = m\<rparr>"

abbreviation ok :: "status" where
  "ok \<equiv> Inr ()"

lemma failure_eq_iff [simp]:
  "failure c m = Inl e \<longleftrightarrow> e = \<lparr>err_code = c, err_message = m\<rparr>"
  "failure c m \<noteq> Inr x"
  "Inr x \<noteq> failure c m"
  by (auto simp: failure_def)

lemma isl_failure [simp]: "isl (failure c m)"
  by (simp add: failure_def)

text \<open>The error of a failed result as a comparable code, \<open>None\<close> for success.\<close>

definition code_of :: "'a result \<Rightarrow> error_code option" where
  "code_of r = (case r of Inl e \<Rightarrow> Some (err_code e) | Inr _ \<Rightarrow> None)"

lemma code_of_simps [simp]:
  "code_of (failure c m) = Some c"
  "code_of (Inr x) = None"
  "code_of (Inl e) = Some (err_code e)"
  by (simp_all add: code_of_def failure_def)

lemma code_of_eq_None_iff: "code_of r = None \<longleftrightarrow> (\<exists>x. r = Inr x)"
  by (cases r) auto

section \<open>Properties\<close>

text \<open>Error codes are told apart both ways the program shows them: no two share a number or a text,
  and an error with a message prints as its code text, a colon and the message.\<close>

theorem error_codes_distinct:
  "inj error_code_number \<and> inj error_code_text \<and>
   error_to_string \<lparr>err_code = c, err_message = m # ms\<rparr> = error_code_text c @ '': '' @ m # ms"
proof (intro conjI injI)
  fix x y show "error_code_number x = error_code_number y \<Longrightarrow> x = y"
    by (cases x; cases y; simp)
next
  fix x y show "error_code_text x = error_code_text y \<Longrightarrow> x = y"
    by (cases x; cases y; simp)
qed (simp add: error_to_string_def)

end
