(* ===== verification/Crc32.thy ===== *)
theory Crc32
  imports ST_Prelude
begin

text \<open>
  The streaming CRC32 of src/core/include/st/core/crc32.hpp: the compile-time table, the
  per-byte table step of \<open>Crc32::update\<close>, the final complement of \<open>value\<close>, and the one-shot
  \<open>st::crc32\<close>. The reference is the bit-serial shift register; the table-driven loop is shown
  equal to it, and a change of one byte is shown to change the checksum.
\<close>

section \<open>The code\<close>

text \<open>One round of the inner loop that fills the table.\<close>

definition crc_bit :: "u32 \<Rightarrow> u32" where
  "crc_bit c = (if c AND 1 \<noteq> 0 then 0xEDB88320 XOR drop_bit 1 c else drop_bit 1 c)"

definition kCrc32Table :: "u32 list" where
  "kCrc32Table = map (\<lambda>i. (crc_bit ^^ 8) (of_nat i)) [0..<256]"

definition crc_table_step :: "u32 \<Rightarrow> u8 \<Rightarrow> u32" where
  "crc_table_step c b =
     kCrc32Table ! unat ((c XOR ucast b) AND 0xFF) XOR drop_bit 8 c"

definition crc32_update :: "u32 \<Rightarrow> bytes \<Rightarrow> u32" where
  "crc32_update c data = foldl crc_table_step c data"

definition crc32_init :: u32 where
  "crc32_init = 0xFFFFFFFF"

definition crc32_value :: "u32 \<Rightarrow> u32" where
  "crc32_value s = s XOR 0xFFFFFFFF"

definition crc32 :: "bytes \<Rightarrow> u32" where
  "crc32 data = crc32_value (crc32_update crc32_init data)"

section \<open>The reference\<close>

text \<open>Bit-serial: xor the byte into the low end of the register and shift eight times.\<close>

definition crc_serial_step :: "u32 \<Rightarrow> u8 \<Rightarrow> u32" where
  "crc_serial_step c b = (crc_bit ^^ 8) (c XOR ucast b)"

definition crc32_serial :: "bytes \<Rightarrow> u32" where
  "crc32_serial data = foldl crc_serial_step 0xFFFFFFFF data XOR 0xFFFFFFFF"

section \<open>Linearity and injectivity of the shift register\<close>

lemma crc_bit_alt: "crc_bit c = (if bit c 0 then 0xEDB88320 XOR drop_bit 1 c else drop_bit 1 c)"
proof -
  have "c AND 1 \<noteq> 0 \<longleftrightarrow> bit c 0"
    by (simp add: and_one_eq bit_0 odd_iff_mod_2_eq_one)
  then show ?thesis by (simp add: crc_bit_def)
qed

lemma xor_swap_cancel:
  "(p XOR x) XOR (p XOR y) = x XOR (y :: u32)"
  "(p XOR x) XOR y = p XOR (x XOR y)"
  "x XOR (p XOR y) = p XOR (x XOR y)"
  by (simp_all add: xor.assoc xor.left_commute)

lemma crc_bit_xor: "crc_bit (a XOR b) = crc_bit a XOR crc_bit b"
  unfolding crc_bit_alt bit_xor_iff drop_bit_xor
  by (cases "bit a 0"; cases "bit b 0")
     (simp_all only: if_True if_False simp_thms xor_swap_cancel(1), simp_all only: xor_swap_cancel(2,3))

lemma xor_eq_0_iff: "a XOR b = 0 \<longleftrightarrow> a = (b :: u32)"
  by (metis xor.assoc xor.right_neutral xor.left_neutral xor_self_eq)

lemma xor_cancel_left: "a XOR b = a XOR c \<longleftrightarrow> b = (c :: u32)"
  by (metis xor.assoc xor.left_neutral xor_self_eq)

lemma xor_cancel_right: "b XOR a = c XOR a \<longleftrightarrow> b = (c :: u32)"
  by (metis xor.assoc xor.right_neutral xor_self_eq)

lemma crc_bits_xor: "(crc_bit ^^ n) (a XOR b) = (crc_bit ^^ n) a XOR (crc_bit ^^ n) b"
  by (induction n) (simp_all add: crc_bit_xor)

lemma crc_bits_shift:
  "(\<And>i. i < n \<Longrightarrow> \<not> bit c i) \<Longrightarrow> (crc_bit ^^ n) c = drop_bit n c"
proof (induction n)
  case 0
  then show ?case by simp
next
  case (Suc n)
  then have IH: "(crc_bit ^^ n) c = drop_bit n c" by simp
  have "\<not> bit (drop_bit n c) 0"
    using Suc.prems [of n] by (simp add: bit_drop_bit_eq)
  then have "crc_bit (drop_bit n c) = drop_bit 1 (drop_bit n c)"
    by (simp only: crc_bit_alt if_False)
  also have "\<dots> = drop_bit (Suc n) c"
    by (simp only: drop_bit_drop_bit plus_1_eq_Suc)
  finally show ?case by (simp add: IH)
qed

lemma top_bit_poly: "bit (0xEDB88320 :: u32) 31"
  by (simp add: bit_iff_odd)

lemma crc_bit_eq_0: "crc_bit c = 0 \<Longrightarrow> c = 0"
proof (cases "bit c 0")
  case True
  assume "crc_bit c = 0"
  with True have "drop_bit 1 c = (0xEDB88320 :: u32)"
    by (simp only: crc_bit_alt if_True xor_eq_0_iff)
  then have "bit (drop_bit 1 c) 31" using top_bit_poly by simp
  then have "bit c 32" by (simp add: bit_drop_bit_eq)
  then show ?thesis by (auto dest: bit_imp_le_length)
next
  case False
  assume "crc_bit c = 0"
  with False have d: "drop_bit 1 c = 0" by (simp add: crc_bit_alt)
  show ?thesis
  proof (rule bit_word_eqI)
    fix n assume "n < LENGTH(32)"
    show "bit c n = bit 0 n"
    proof (cases n)
      case 0
      with False show ?thesis by simp
    next
      case (Suc m)
      from d have "\<not> bit (drop_bit 1 c) m" by simp
      with Suc show ?thesis by (simp add: bit_drop_bit_eq)
    qed
  qed
qed

lemma crc_bits_eq_0: "(crc_bit ^^ n) c = 0 \<Longrightarrow> c = 0"
  by (induction n) (auto dest: crc_bit_eq_0)

lemma crc_bits_inj: "(crc_bit ^^ n) a = (crc_bit ^^ n) b \<Longrightarrow> a = b"
proof -
  assume "(crc_bit ^^ n) a = (crc_bit ^^ n) b"
  then have "(crc_bit ^^ n) (a XOR b) = 0" by (simp add: crc_bits_xor)
  then have "a XOR b = 0" by (rule crc_bits_eq_0)
  then show "a = b" by (simp add: xor_eq_0_iff)
qed

section \<open>The table-driven loop is the shift register\<close>

lemma kCrc32Table_nth: "i < 256 \<Longrightarrow> kCrc32Table ! i = (crc_bit ^^ 8) (of_nat i)"
  by (simp add: kCrc32Table_def)

lemma low_byte_xor_rest: "(x AND 0xFF) XOR push_bit 8 (drop_bit 8 x) = (x :: u32)"
proof (rule bit_word_eqI)
  fix n assume "n < LENGTH(32)"
  have "bit (0xFF :: u32) n \<longleftrightarrow> n < 8"
  proof -
    have "(0xFF :: u32) = mask 8" by (simp add: mask_eq_exp_minus_1)
    then show ?thesis using \<open>n < LENGTH(32)\<close> by (simp only: bit_mask_iff) simp
  qed
  then show "bit ((x AND 0xFF) XOR push_bit 8 (drop_bit 8 x)) n = bit x n"
    using \<open>n < LENGTH(32)\<close>
    by (auto simp: bit_xor_iff bit_and_iff bit_push_bit_iff bit_drop_bit_eq)
qed

lemma drop_bit_8_ucast_u8: "drop_bit 8 (ucast (b :: u8) :: u32) = 0"
  by (rule bit_word_eqI) (simp add: bit_drop_bit_eq)

lemma crc_table_step_eq_serial: "crc_table_step c b = crc_serial_step c b"
proof -
  let ?x = "c XOR ucast b :: u32"
  let ?lo = "?x AND 0xFF"
  have "?lo \<le> 0xFF" by (rule word_and_le1)
  then have lo: "unat ?lo < 256" by (simp add: word_le_nat_alt)
  have hi: "(crc_bit ^^ 8) (push_bit 8 (drop_bit 8 ?x)) = drop_bit 8 (push_bit 8 (drop_bit 8 ?x))"
    by (rule crc_bits_shift) (simp only: bit_push_bit_iff, simp)
  have d: "drop_bit 8 (push_bit 8 (drop_bit 8 ?x)) = drop_bit 8 c"
    by (rule bit_word_eqI)
       (auto simp: bit_drop_bit_eq bit_push_bit_iff bit_xor_iff dest: bit_imp_le_length)
  have "crc_serial_step c b = (crc_bit ^^ 8) (?lo XOR push_bit 8 (drop_bit 8 ?x))"
    by (simp only: crc_serial_step_def low_byte_xor_rest)
  also have "\<dots> = (crc_bit ^^ 8) ?lo XOR drop_bit 8 c"
    by (simp only: crc_bits_xor hi d)
  also have "(crc_bit ^^ 8) ?lo = kCrc32Table ! unat ?lo"
    using lo by (simp only: kCrc32Table_nth of_nat_unat ucast_id)
  finally show ?thesis by (simp only: crc_table_step_def)
qed

lemma crc32_update_append: "crc32_update c (xs @ ys) = crc32_update (crc32_update c xs) ys"
  by (simp add: crc32_update_def)

lemma crc32_update_serial: "crc32_update c xs = foldl crc_serial_step c xs"
  unfolding crc32_update_def by (induction xs arbitrary: c) (simp_all add: crc_table_step_eq_serial)

lemma crc_serial_step_inj_state: "crc_serial_step a b = crc_serial_step c b \<Longrightarrow> a = c"
proof -
  assume "crc_serial_step a b = crc_serial_step c b"
  then have "a XOR ucast b = c XOR ucast b"
    unfolding crc_serial_step_def by (rule crc_bits_inj)
  then show "a = c" by (simp only: xor_cancel_right)
qed

lemma crc_serial_step_inj_byte: "crc_serial_step a b = crc_serial_step a d \<Longrightarrow> b = d"
proof -
  assume "crc_serial_step a b = crc_serial_step a d"
  then have "a XOR ucast b = a XOR ucast d"
    unfolding crc_serial_step_def by (rule crc_bits_inj)
  then have eq: "(ucast b :: u32) = ucast d" by (simp only: xor_cancel_left)
  show "b = d"
  proof (rule bit_word_eqI)
    fix n assume "n < LENGTH(8)"
    moreover from eq have "bit (ucast b :: u32) n = bit (ucast d :: u32) n" by (simp only:)
    ultimately show "bit b n = bit d n" by simp
  qed
qed

lemma crc32_update_inj_state: "crc32_update a xs = crc32_update b xs \<Longrightarrow> a = b"
  unfolding crc32_update_serial
  by (induction xs arbitrary: a b) (auto dest: crc_serial_step_inj_state)

lemma crc32_detects_change:
  assumes "b \<noteq> d"
  shows "crc32 (xs @ b # ys) \<noteq> crc32 (xs @ d # ys)"
proof
  assume "crc32 (xs @ b # ys) = crc32 (xs @ d # ys)"
  then have "crc32_update (crc_serial_step (crc32_update crc32_init xs) b) ys =
             crc32_update (crc_serial_step (crc32_update crc32_init xs) d) ys"
    by (simp add: crc32_def crc32_value_def xor_cancel_right crc32_update_append
        crc32_update_serial [of _ "_ # _"] crc32_update_serial [of _ ys])
  then have "b = d"
    by (blast dest: crc32_update_inj_state crc_serial_step_inj_byte)
  with assms show False by contradiction
qed

section \<open>Properties\<close>

text \<open>C38: \<open>st::crc32\<close>, the table-driven streaming loop, computes the bit-serial CRC-32 with the
  reflected polynomial \<open>0xEDB88320\<close> on every input.\<close>

theorem crc32_eq_serial: "crc32 data = crc32_serial data"
  by (simp add: crc32_def crc32_value_def crc32_init_def crc32_serial_def crc32_update_serial)

text \<open>Changing one byte of a buffer changes its CRC32, whatever surrounds the byte: the check
  that guards backups, journals and manifests catches every single-byte corruption.\<close>

theorem crc32_detects_byte_change:
  assumes "b \<noteq> d"
  shows "crc32 (xs @ b # ys) \<noteq> crc32 (xs @ d # ys)"
  by (rule crc32_detects_change [OF assms])

theorem crc32_detects_byte_change_witness:
  "crc32 [0x31, 0x32, 0x33] \<noteq> crc32 [0x31, 0x33, 0x33]"
  using crc32_detects_byte_change [of "0x32" "0x33" "[0x31]" "[0x33]"] by simp

lemma crc_bits_8:
  "(crc_bit ^^ 8) c =
     crc_bit (crc_bit (crc_bit (crc_bit (crc_bit (crc_bit (crc_bit (crc_bit c)))))))"
  by (simp add: eval_nat_numeral)

text \<open>The canonical test vector the source's comment names: \<open>"123456789"\<close> gives \<open>0xCBF43926\<close>.\<close>

lemma crc32_check_value:
  "crc32 [0x31, 0x32, 0x33, 0x34, 0x35, 0x36, 0x37, 0x38, 0x39] = 0xCBF43926"
  unfolding crc32_eq_serial crc32_serial_def
  by (simp add: crc_serial_step_def crc_bits_8 crc_bit_def)

end
