(* ===== verification/Transport.thy ===== *)
theory Transport
  imports Core_Error
begin

text \<open>
  The wire abstraction: \<open>st::transport::ITransport\<close> (src/transport/include/st/transport.hpp) as a
  record of its exchange operations over an arbitrary device state, and the scripted
  \<open>MockTransport\<close> (src/transport/src/mock.cpp) as an instance. A \<open>Frame\<close> is reduced to its data
  bytes: no modelled client reads the arrival time or the CAN id of a response.
  Timeouts are milliseconds.

  The locale \<open>logged_transport\<close> states what the protocol clients rely on when we reason about what
  reached the bus: a log of requests that only grows, by the request just handed over. It holds
  for the mock with its \<open>send_log_\<close>, and for every transport wrapped by \<open>traced\<close>.
\<close>

section \<open>The interface\<close>

record 's transport =
  tp_send_recv :: "'s \<Rightarrow> bytes \<Rightarrow> nat \<Rightarrow> bytes result \<times> 's"
  tp_send_recv_to :: "'s \<Rightarrow> u32 \<Rightarrow> bytes \<Rightarrow> nat \<Rightarrow> bytes result \<times> 's"

text \<open>\<open>ITransport::send_recv_to\<close> falls back to \<open>send_recv\<close> unless a backend overrides it.\<close>

definition default_send_recv_to ::
    "('s \<Rightarrow> bytes \<Rightarrow> nat \<Rightarrow> bytes result \<times> 's) \<Rightarrow> 's \<Rightarrow> u32 \<Rightarrow> bytes \<Rightarrow> nat \<Rightarrow> bytes result \<times> 's" where
  "default_send_recv_to sr s can_id payload timeout = sr s payload timeout"

section \<open>MockTransport\<close>

record exchange =
  ex_request :: bytes
  ex_response :: bytes
  ex_can_id :: "u32 option"

record mock =
  mk_open :: bool
  mk_expectations :: "exchange list"
  mk_send_log :: "bytes list"
  mk_pending_error :: "error option"
  mk_streaming :: bool

definition mock_init :: mock where
  "mock_init = \<lparr>mk_open = False, mk_expectations = [], mk_send_log = [],
                mk_pending_error = None, mk_streaming = False\<rparr>"

definition expect_send_recv :: "mock \<Rightarrow> bytes \<Rightarrow> bytes \<Rightarrow> mock" where
  "expect_send_recv m request response =
     m\<lparr>mk_expectations := mk_expectations m @
         [\<lparr>ex_request = request, ex_response = response, ex_can_id = None\<rparr>]\<rparr>"

definition expect_send_recv_to :: "mock \<Rightarrow> u32 \<Rightarrow> bytes \<Rightarrow> bytes \<Rightarrow> mock" where
  "expect_send_recv_to m can_id request response =
     m\<lparr>mk_expectations := mk_expectations m @
         [\<lparr>ex_request = request, ex_response = response, ex_can_id = Some can_id\<rparr>]\<rparr>"

definition mock_exhausted :: "mock \<Rightarrow> bool" where
  "mock_exhausted m \<longleftrightarrow> mk_expectations m = []"

definition mock_remaining :: "mock \<Rightarrow> nat" where
  "mock_remaining m = length (mk_expectations m)"

definition inject_error :: "mock \<Rightarrow> error_code \<Rightarrow> string \<Rightarrow> mock" where
  "inject_error m c msg = m\<lparr>mk_pending_error := Some \<lparr>err_code = c, err_message = msg\<rparr>\<rparr>"

definition mock_open :: "mock \<Rightarrow> status \<times> mock" where
  "mock_open m =
     (case mk_pending_error m of
        Some e \<Rightarrow> (Inl e, m\<lparr>mk_pending_error := None\<rparr>)
      | None \<Rightarrow> (ok, m\<lparr>mk_open := True\<rparr>))"

definition mock_close :: "mock \<Rightarrow> status \<times> mock" where
  "mock_close m = (ok, m\<lparr>mk_open := False, mk_streaming := False\<rparr>)"

definition match_expectation :: "exchange \<Rightarrow> bytes \<Rightarrow> u32 option \<Rightarrow> bytes result" where
  "match_expectation ex payload caller_can_id =
     (case ex_can_id ex of
        Some want \<Rightarrow>
          (case caller_can_id of
             None \<Rightarrow> failure InvalidArgument
               (''mock: queued expect_send_recv_to but caller used '' @
                ''plain send_recv (no functional addressing)'')
           | Some got \<Rightarrow>
               if got \<noteq> want then failure InvalidArgument
                 (''mock: send_recv_to can_id did not match queued '' @
                  ''expect_send_recv_to can_id'')
               else if payload \<noteq> ex_request ex then failure InvalidArgument
                 ''send_recv payload did not match next queued expectation''
               else Inr (ex_response ex))
      | None \<Rightarrow>
          if payload \<noteq> ex_request ex then failure InvalidArgument
            ''send_recv payload did not match next queued expectation''
          else Inr (ex_response ex))"

definition mock_send_recv :: "mock \<Rightarrow> bytes \<Rightarrow> nat \<Rightarrow> bytes result \<times> mock" where
  "mock_send_recv m payload timeout =
     (if \<not> mk_open m then (failure TransportUnavailable ''mock is not open'', m)
      else case mk_pending_error m of
        Some e \<Rightarrow> (Inl e, m\<lparr>mk_pending_error := None\<rparr>)
      | None \<Rightarrow>
          let m1 = m\<lparr>mk_send_log := mk_send_log m @ [payload]\<rparr> in
          (case mk_expectations m1 of
             [] \<Rightarrow> (failure Unknown ''no queued expectation for send_recv'', m1)
           | ex # rest \<Rightarrow> (match_expectation ex payload None, m1\<lparr>mk_expectations := rest\<rparr>)))"

definition mock_send_recv_to :: "mock \<Rightarrow> u32 \<Rightarrow> bytes \<Rightarrow> nat \<Rightarrow> bytes result \<times> mock" where
  "mock_send_recv_to m can_id payload timeout =
     (if \<not> mk_open m then (failure TransportUnavailable ''mock is not open'', m)
      else case mk_pending_error m of
        Some e \<Rightarrow> (Inl e, m\<lparr>mk_pending_error := None\<rparr>)
      | None \<Rightarrow>
          let m1 = m\<lparr>mk_send_log := mk_send_log m @ [payload]\<rparr> in
          (case mk_expectations m1 of
             [] \<Rightarrow> (failure Unknown ''no queued expectation for send_recv_to'', m1)
           | ex # rest \<Rightarrow>
               (match_expectation ex payload (Some can_id), m1\<lparr>mk_expectations := rest\<rparr>)))"

definition mock_send :: "mock \<Rightarrow> bytes \<Rightarrow> status \<times> mock" where
  "mock_send m payload =
     (if \<not> mk_open m then (failure TransportUnavailable ''mock is not open'', m)
      else case mk_pending_error m of
        Some e \<Rightarrow> (Inl e, m\<lparr>mk_pending_error := None\<rparr>)
      | None \<Rightarrow> (ok, m\<lparr>mk_send_log := mk_send_log m @ [payload]\<rparr>))"

definition mock_start_streaming :: "mock \<Rightarrow> status \<times> mock" where
  "mock_start_streaming m =
     (if \<not> mk_open m then (failure TransportUnavailable ''mock is not open'', m)
      else (ok, m\<lparr>mk_streaming := True\<rparr>))"

definition mock_stop_streaming :: "mock \<Rightarrow> status \<times> mock" where
  "mock_stop_streaming m = (ok, m\<lparr>mk_streaming := False\<rparr>)"

definition mock_transport :: "mock transport" where
  "mock_transport = \<lparr>tp_send_recv = mock_send_recv, tp_send_recv_to = mock_send_recv_to\<rparr>"

section \<open>A recording wrapper\<close>

text \<open>
  \<open>traced t\<close> is the transport \<open>t\<close> with a ghost log of the requests handed to it. Theorems about
  what a client puts on the bus are stated over it, for every \<open>t\<close>.
\<close>

definition traced :: "'s transport \<Rightarrow> ('s \<times> bytes list) transport" where
  "traced t =
     \<lparr>tp_send_recv = (\<lambda>s p to. case tp_send_recv t (fst s) p to of
                        (r, s') \<Rightarrow> (r, (s', snd s @ [p]))),
      tp_send_recv_to = (\<lambda>s i p to. case tp_send_recv_to t (fst s) i p to of
                        (r, s') \<Rightarrow> (r, (s', snd s @ [p])))\<rparr>"

section \<open>The contract the clients rely on\<close>

locale logged_transport =
  fixes tp :: "'s transport"
    and sent :: "'s \<Rightarrow> bytes list"
  assumes send_recv_log:
      "tp_send_recv tp s p to = (r, s') \<Longrightarrow> sent s' = sent s @ [p] \<or> (sent s' = sent s \<and> isl r)"
    and send_recv_to_log:
      "tp_send_recv_to tp s i p to = (r, s') \<Longrightarrow> sent s' = sent s @ [p] \<or> (sent s' = sent s \<and> isl r)"
begin

text \<open>\<open>adds P s s'\<close>: everything put on the bus between \<open>s\<close> and \<open>s'\<close> satisfies \<open>P\<close>.\<close>

definition adds :: "(bytes \<Rightarrow> bool) \<Rightarrow> 's \<Rightarrow> 's \<Rightarrow> bool" where
  "adds P s s' \<longleftrightarrow> (\<exists>ps. sent s' = sent s @ ps \<and> list_all P ps)"

lemma adds_refl [simp]: "adds P s s"
  by (simp add: adds_def)

lemma adds_trans: "adds P s s' \<Longrightarrow> adds P s' s'' \<Longrightarrow> adds P s s''"
  by (auto simp: adds_def)

lemma adds_mono: "adds P s s' \<Longrightarrow> (\<And>p. P p \<Longrightarrow> Q p) \<Longrightarrow> adds Q s s'"
  by (auto simp: adds_def list_all_iff)

lemma adds_send_recv: "tp_send_recv tp s p to = (r, s') \<Longrightarrow> P p \<Longrightarrow> adds P s s'"
  by (auto simp: adds_def dest!: send_recv_log)

lemma adds_send_recv_to: "tp_send_recv_to tp s i p to = (r, s') \<Longrightarrow> P p \<Longrightarrow> adds P s s'"
  by (auto simp: adds_def dest!: send_recv_to_log)

end

interpretation mock_log: logged_transport mock_transport mk_send_log
  by unfold_locales
     (auto simp: mock_transport_def mock_send_recv_def mock_send_recv_to_def Let_def
           split: if_splits option.splits list.splits)

interpretation trace_log: logged_transport "traced t" snd for t
  by unfold_locales (auto simp: traced_def split: prod.splits)

section \<open>Replaying a script\<close>

text \<open>A client that sends the given payloads one after another.\<close>

fun mock_run :: "mock \<Rightarrow> bytes list \<Rightarrow> bytes result list \<times> mock" where
  "mock_run m [] = ([], m)"
| "mock_run m (p # ps) =
     (case mock_send_recv m p 0 of (r, m1) \<Rightarrow>
        (case mock_run m1 ps of (rs, m2) \<Rightarrow> (r # rs, m2)))"

lemma expect_all:
  "fold (\<lambda>(req, resp) m. expect_send_recv m req resp) script m =
     m\<lparr>mk_expectations := mk_expectations m @
         map (\<lambda>(req, resp). \<lparr>ex_request = req, ex_response = resp, ex_can_id = None\<rparr>) script\<rparr>"
  by (induction script arbitrary: m) (auto simp: expect_send_recv_def)

lemma mock_run_script:
  "mk_open m \<Longrightarrow> mk_pending_error m = None \<Longrightarrow>
   mk_expectations m = map (\<lambda>(req, resp). \<lparr>ex_request = req, ex_response = resp, ex_can_id = None\<rparr>) script \<Longrightarrow>
     mock_run m (map fst script) =
       (map (\<lambda>(req, resp). Inr resp) script,
        m\<lparr>mk_expectations := [], mk_send_log := mk_send_log m @ map fst script\<rparr>)"
  by (induction script arbitrary: m) (auto simp: mock_send_recv_def match_expectation_def)

text \<open>The scripted transport replays its script: after the exchanges of a script were queued on an
  opened mock, sending their requests in order yields their responses in order, uses every
  expectation up and logs exactly the requests.\<close>

theorem mock_replays_script:
  "mock_run (fold (\<lambda>(req, resp) m. expect_send_recv m req resp) script (snd (mock_open mock_init)))
       (map fst script) =
     (map (\<lambda>(req, resp). Inr resp) script,
      \<lparr>mk_open = True, mk_expectations = [], mk_send_log = map fst script,
       mk_pending_error = None, mk_streaming = False\<rparr>)"
  by (subst mock_run_script [of _ script]) (simp_all add: expect_all mock_open_def mock_init_def)

end
