(* ===== verification/Uds_Codec.thy ===== *)
theory Uds_Codec
  imports Core_Error
begin

text \<open>
  The UDS (ISO 14229) message codec of src/ecu/src/uds.cpp: one request builder and one response
  parser per service, with the constants of src/ecu/include/st/ecu/uds.hpp. Every parser keeps
  the order of the source's checks and the text of its errors; the text matters, because the
  flash layer recovers the negative response code from it. A byte read \<open>resp ! i\<close> is always
  behind the length check the source makes.
\<close>

section \<open>Constants\<close>

abbreviation "kSidDiagnosticSessionControl \<equiv> (0x10 :: u8)"
abbreviation "kSidEcuReset \<equiv> (0x11 :: u8)"
abbreviation "kSidReadDataByIdentifier \<equiv> (0x22 :: u8)"
abbreviation "kSidReadMemoryByAddress \<equiv> (0x23 :: u8)"
abbreviation "kSidSecurityAccess \<equiv> (0x27 :: u8)"
abbreviation "kSidCommunicationControl \<equiv> (0x28 :: u8)"
abbreviation "kSidWriteDataByIdentifier \<equiv> (0x2E :: u8)"
abbreviation "kSidRoutineControl \<equiv> (0x31 :: u8)"
abbreviation "kSidRequestDownload \<equiv> (0x34 :: u8)"
abbreviation "kSidTransferData \<equiv> (0x36 :: u8)"
abbreviation "kSidRequestTransferExit \<equiv> (0x37 :: u8)"
abbreviation "kSidSubaruBulkTransfer \<equiv> (0xB6 :: u8)"
abbreviation "kSidTesterPresent \<equiv> (0x3E :: u8)"
abbreviation "kSidWriteMemoryByAddress \<equiv> (0x3D :: u8)"
abbreviation "kSidControlDtcSetting \<equiv> (0x85 :: u8)"
abbreviation "kSidObd2VehicleInfo \<equiv> (0x09 :: u8)"
abbreviation "kPositiveResponseOffset \<equiv> (0x40 :: u8)"
abbreviation "kNegativeResponse \<equiv> (0x7F :: u8)"
abbreviation "kNrcConditionsNotCorrect \<equiv> (0x22 :: u8)"
abbreviation "kNrcSecurityAccessDenied \<equiv> (0x33 :: u8)"
abbreviation "kNrcInvalidKey \<equiv> (0x35 :: u8)"
abbreviation "kNrcExceededNumberOfAttempts \<equiv> (0x36 :: u8)"
abbreviation "kNrcRequiredTimeDelayNotExpired \<equiv> (0x37 :: u8)"
abbreviation "kDscDefault \<equiv> (0x01 :: u8)"
abbreviation "kDscProgramming \<equiv> (0x02 :: u8)"
abbreviation "kDscExtendedDiagnostic \<equiv> (0x03 :: u8)"
abbreviation "kCcEnableRxAndTx \<equiv> (0x00 :: u8)"
abbreviation "kCcDisableRxAndTx \<equiv> (0x03 :: u8)"
abbreviation "kCtNormalAndNetworkManagement \<equiv> (0x03 :: u8)"
abbreviation "kRcStart \<equiv> (0x01 :: u8)"
abbreviation "kRidEraseMemory \<equiv> (0xFF00 :: u16)"
abbreviation "kRidCheckProgrammingDependencies \<equiv> (0xFF01 :: u16)"
abbreviation "kSubaruBulkTransferAddressMax \<equiv> (0xFFFFFF :: u32)"

section \<open>Helpers\<close>

definition hex_byte :: "u8 \<Rightarrow> string" where
  "hex_byte b = ''0x'' @ hex_fixed 2 (unat b)"

definition hex_word :: "u16 \<Rightarrow> string" where
  "hex_word w = ''0x'' @ hex_fixed 4 (unat w)"

definition reject_if_negative :: "bytes \<Rightarrow> u8 \<Rightarrow> status" where
  "reject_if_negative resp expected_sid =
     (if length resp \<ge> 3 \<and> resp ! 0 = kNegativeResponse then
        (if resp ! 1 \<noteq> expected_sid then
           failure ParseError (''UDS negative response for wrong SID: '' @ hex_byte (resp ! 1))
         else failure EcuRejected (''UDS NRC='' @ hex_byte (resp ! 2)))
      else ok)"

definition sa_nrc_text :: "u8 \<Rightarrow> string" where
  "sa_nrc_text nrc =
     (if nrc = kNrcSecurityAccessDenied then
        '' (securityAccessDenied) - this SA level is not permitted '' @
        ''for the current session / target operation''
      else if nrc = kNrcInvalidKey then
        '' (invalidKey) - the seed/key derivation produced a key the '' @
        ''ECU rejected. After ~3 total consecutive invalidKey responses '' @
        ''(per ISO 14229 '' @ section_sign @ ''10.4.2.3) the ECU returns exceededNumberOfAttempts '' @
        ''(NRC 0x36) and locks SA for ~10 minutes; verify the key function '' @
        ''before retrying.''
      else if nrc = kNrcExceededNumberOfAttempts then
        '' (exceededNumberOfAttempts) - ECU has locked SecurityAccess '' @
        ''after too many bad-key attempts. To reset: power-cycle the '' @
        ''ECU (ignition off, wait 10s, ignition on) OR wait ~10 minutes '' @
        ''for automatic unlock.''
      else if nrc = kNrcRequiredTimeDelayNotExpired then
        '' (requiredTimeDelayNotExpired) - wait briefly (~10s) before '' @
        ''retrying SA; the ECU is in a post-failure cooldown.''
      else [])"

definition reject_if_sa_negative :: "bytes \<Rightarrow> status" where
  "reject_if_sa_negative resp =
     (if \<not> (length resp \<ge> 3 \<and> resp ! 0 = kNegativeResponse) then ok
      else if resp ! 1 \<noteq> kSidSecurityAccess then
        failure ParseError (''UDS negative response for wrong SID: '' @ hex_byte (resp ! 1))
      else failure EcuRejected (''UDS NRC='' @ hex_byte (resp ! 2) @ sa_nrc_text (resp ! 2)))"

text \<open>The two bytes \<open>append_be16\<close> pushes.\<close>

definition be16 :: "u16 \<Rightarrow> bytes" where
  "be16 v = [ucast (drop_bit 8 v AND 0xFF), ucast (v AND 0xFF)]"

definition read_be16 :: "u8 \<Rightarrow> u8 \<Rightarrow> u16" where
  "read_be16 hi lo = push_bit 8 (ucast hi) OR ucast lo"

definition bytes_to_encode :: "u32 \<Rightarrow> nat" where
  "bytes_to_encode v =
     (if v \<le> 0xFF then 1 else if v \<le> 0xFFFF then 2 else if v \<le> 0xFFFFFF then 3 else 4)"

text \<open>The bytes \<open>append_big_endian\<close> pushes, most significant first.\<close>

fun big_endian :: "u32 \<Rightarrow> nat \<Rightarrow> bytes" where
  "big_endian v 0 = []"
| "big_endian v (Suc i) = byte_at (8 * i) v # big_endian v i"

lemma big_endian_numeral [simp]:
  "big_endian v 1 = [byte_at 0 v]"
  "big_endian v 2 = [byte_at 8 v, byte_at 0 v]"
  "big_endian v 3 = [byte_at 16 v, byte_at 8 v, byte_at 0 v]"
  "big_endian v 4 = [byte_at 24 v, byte_at 16 v, byte_at 8 v, byte_at 0 v]"
  by (simp_all add: eval_nat_numeral del: byte_at_0)

text \<open>\<open>read_big_endian\<close> on the bytes of the field it reads.\<close>

definition read_big_endian :: "bytes \<Rightarrow> u32" where
  "read_big_endian bs = foldl (\<lambda>v b. push_bit 8 v OR ucast b) 0 bs"

definition encode_alfi :: "nat \<Rightarrow> nat \<Rightarrow> u8" where
  "encode_alfi size_bytes addr_bytes =
     push_bit 4 (of_nat size_bytes AND 0x0F) OR (of_nat addr_bytes AND 0x0F)"

text \<open>\<open>if (auto r = reject(...); !r.has_value()) return failure(r.error());\<close>\<close>

definition unless_rejected :: "status \<Rightarrow> 'a result \<Rightarrow> 'a result" where
  "unless_rejected r k = (case r of Inl e \<Rightarrow> Inl e | Inr _ \<Rightarrow> k)"

lemma unless_rejected_simps [simp]:
  "unless_rejected (Inl e) k = Inl e"
  "unless_rejected (failure c m) k = failure c m"
  "unless_rejected ok k = k"
  by (simp_all add: unless_rejected_def failure_def)

lemma unless_rejected_eq_Inr:
  "unless_rejected r k = Inr x \<longleftrightarrow> r = ok \<and> k = Inr x"
  by (cases r) (auto simp: unless_rejected_def)

section \<open>ReadDataByIdentifier, WriteDataByIdentifier\<close>

definition build_rdbi_request :: "u16 \<Rightarrow> bytes" where
  "build_rdbi_request did = kSidReadDataByIdentifier # be16 did"

definition parse_rdbi_response :: "bytes \<Rightarrow> u16 \<Rightarrow> bytes result" where
  "parse_rdbi_response resp expected_did =
     unless_rejected (reject_if_negative resp kSidReadDataByIdentifier)
      (if length resp < 3 then failure ParseError ''UDS RDBI response too short''
       else if resp ! 0 \<noteq> kSidReadDataByIdentifier + kPositiveResponseOffset then
         failure EcuRejected (''UDS RDBI unexpected SID: '' @ hex_byte (resp ! 0))
       else if read_be16 (resp ! 1) (resp ! 2) \<noteq> expected_did then
         failure ParseError (''UDS RDBI DID mismatch: expected '' @ hex_word expected_did @
           '' got '' @ hex_word (read_be16 (resp ! 1) (resp ! 2)))
       else Inr (drop 3 resp))"

definition build_wdbi_request :: "u16 \<Rightarrow> bytes \<Rightarrow> bytes" where
  "build_wdbi_request did data =
     [kSidWriteDataByIdentifier, ucast (drop_bit 8 did AND 0xFF), ucast (did AND 0xFF)] @ data"

definition parse_wdbi_response :: "bytes \<Rightarrow> u16 \<Rightarrow> status" where
  "parse_wdbi_response resp expected_did =
     unless_rejected (reject_if_negative resp kSidWriteDataByIdentifier)
      (if length resp < 3 then failure ParseError ''UDS WDBI response too short''
       else if resp ! 0 \<noteq> kSidWriteDataByIdentifier + kPositiveResponseOffset then
         failure EcuRejected (''UDS WDBI unexpected SID: '' @ hex_byte (resp ! 0))
       else if read_be16 (resp ! 1) (resp ! 2) \<noteq> expected_did then
         failure ParseError (''UDS WDBI DID mismatch: expected '' @ hex_word expected_did @
           '' got '' @ hex_word (read_be16 (resp ! 1) (resp ! 2)))
       else ok)"

section \<open>SecurityAccess\<close>

definition build_security_access_request_seed :: "u8 \<Rightarrow> bytes" where
  "build_security_access_request_seed sub_function = [kSidSecurityAccess, sub_function]"

definition parse_security_access_seed :: "bytes \<Rightarrow> u8 \<Rightarrow> bytes result" where
  "parse_security_access_seed resp expected_sub_function =
     unless_rejected (reject_if_sa_negative resp)
      (if length resp < 2 then failure ParseError ''UDS SA seed response too short''
       else if resp ! 0 \<noteq> kSidSecurityAccess + kPositiveResponseOffset then
         failure EcuRejected (''UDS SA seed unexpected SID: '' @ hex_byte (resp ! 0) @
           '' (expected '' @ hex_byte (kSidSecurityAccess + kPositiveResponseOffset) @ '')'')
       else if resp ! 1 \<noteq> expected_sub_function then
         failure ParseError (''UDS SA seed sub-function mismatch: expected '' @
           hex_byte expected_sub_function @ '' got '' @ hex_byte (resp ! 1))
       else Inr (drop 2 resp))"

definition build_security_access_send_key :: "u8 \<Rightarrow> bytes \<Rightarrow> bytes" where
  "build_security_access_send_key sub_function key = [kSidSecurityAccess, sub_function] @ key"

definition parse_security_access_key_ack :: "bytes \<Rightarrow> u8 \<Rightarrow> status" where
  "parse_security_access_key_ack resp expected_sub_function =
     unless_rejected (reject_if_sa_negative resp)
      (if length resp < 2 then failure ParseError ''UDS SA key ack too short''
       else if resp ! 0 \<noteq> kSidSecurityAccess + kPositiveResponseOffset then
         failure EcuRejected (''UDS SA key-ack unexpected SID: '' @ hex_byte (resp ! 0) @
           '' (expected '' @ hex_byte (kSidSecurityAccess + kPositiveResponseOffset) @ '')'')
       else if resp ! 1 \<noteq> expected_sub_function then
         failure ParseError (''UDS SA key-ack sub-function mismatch: expected '' @
           hex_byte expected_sub_function @ '' got '' @ hex_byte (resp ! 1))
       else ok)"

section \<open>DiagnosticSessionControl, ECUReset, TesterPresent\<close>

definition build_dsc_request :: "u8 \<Rightarrow> bytes" where
  "build_dsc_request session = [kSidDiagnosticSessionControl, session]"

definition parse_dsc_response :: "bytes \<Rightarrow> u8 \<Rightarrow> status" where
  "parse_dsc_response resp expected_session =
     unless_rejected (reject_if_negative resp kSidDiagnosticSessionControl)
      (if length resp < 2 then failure ParseError ''UDS DSC response too short''
       else if resp ! 0 \<noteq> kSidDiagnosticSessionControl + kPositiveResponseOffset then
         failure EcuRejected ''UDS DSC unexpected SID''
       else if resp ! 1 \<noteq> expected_session then failure ParseError ''UDS DSC session mismatch''
       else ok)"

definition build_ecu_reset_request :: "u8 \<Rightarrow> bytes" where
  "build_ecu_reset_request reset_type = [kSidEcuReset, reset_type]"

definition parse_ecu_reset_response :: "bytes \<Rightarrow> u8 \<Rightarrow> status" where
  "parse_ecu_reset_response resp expected_reset_type =
     unless_rejected (reject_if_negative resp kSidEcuReset)
      (if length resp < 2 then failure ParseError ''UDS ECUReset response too short''
       else if resp ! 0 \<noteq> kSidEcuReset + kPositiveResponseOffset then
         failure EcuRejected ''UDS ECUReset unexpected SID''
       else if resp ! 1 \<noteq> expected_reset_type then failure ParseError ''UDS ECUReset type mismatch''
       else ok)"

definition build_tester_present_request :: "bool \<Rightarrow> bytes" where
  "build_tester_present_request suppress_response =
     [kSidTesterPresent, if suppress_response then 0x80 else 0x00]"

definition parse_tester_present_response :: "bytes \<Rightarrow> status" where
  "parse_tester_present_response resp =
     unless_rejected (reject_if_negative resp kSidTesterPresent)
      (if length resp < 2 then failure ParseError ''UDS TesterPresent response too short''
       else if resp ! 0 \<noteq> kSidTesterPresent + kPositiveResponseOffset then
         failure EcuRejected ''UDS TesterPresent unexpected SID''
       else ok)"

section \<open>RequestDownload, TransferData, SubaruBulkTransfer, RequestTransferExit\<close>

definition build_request_download :: "u8 \<Rightarrow> u32 \<Rightarrow> u32 \<Rightarrow> bytes" where
  "build_request_download data_format memory_address memory_size =
     (let addr_bytes = bytes_to_encode memory_address;
          size_bytes = bytes_to_encode memory_size;
          fmt = push_bit 4 (of_nat size_bytes AND 0x0F) OR (of_nat addr_bytes AND 0x0F)
      in [kSidRequestDownload, data_format, fmt] @
         big_endian memory_address addr_bytes @ big_endian memory_size size_bytes)"

definition parse_request_download_response :: "bytes \<Rightarrow> u32 result" where
  "parse_request_download_response resp =
     unless_rejected (reject_if_negative resp kSidRequestDownload)
      (if length resp < 3 then failure ParseError ''UDS RequestDownload response too short''
       else if resp ! 0 \<noteq> kSidRequestDownload + kPositiveResponseOffset then
         failure EcuRejected ''UDS RequestDownload unexpected SID''
       else let len_bytes = unat (drop_bit 4 (resp ! 1) AND 0x0F) in
         if len_bytes = 0 \<or> len_bytes > 4 then
           failure ParseError ''UDS RequestDownload bad lengthFormatIdentifier''
         else if length resp < 2 + len_bytes then
           failure ParseError ''UDS RequestDownload response truncated''
         else Inr (read_big_endian (take len_bytes (drop 2 resp))))"

definition build_transfer_data :: "u8 \<Rightarrow> bytes \<Rightarrow> bytes" where
  "build_transfer_data block_sequence_counter data =
     [kSidTransferData, block_sequence_counter] @ data"

definition parse_transfer_data_response :: "bytes \<Rightarrow> u8 \<Rightarrow> status" where
  "parse_transfer_data_response resp expected_counter =
     unless_rejected (reject_if_negative resp kSidTransferData)
      (if length resp < 2 then failure ParseError ''UDS TransferData response too short''
       else if resp ! 0 \<noteq> kSidTransferData + kPositiveResponseOffset then
         failure EcuRejected ''UDS TransferData unexpected SID''
       else if resp ! 1 \<noteq> expected_counter then
         failure ParseError ''UDS TransferData block-counter mismatch''
       else ok)"

definition build_subaru_bulk_transfer :: "u32 \<Rightarrow> bytes \<Rightarrow> bytes" where
  "build_subaru_bulk_transfer memory_address data =
     [kSidSubaruBulkTransfer, byte_at 16 memory_address, byte_at 8 memory_address,
      byte_at 0 memory_address] @ data"

definition parse_subaru_bulk_transfer_response :: "bytes \<Rightarrow> status" where
  "parse_subaru_bulk_transfer_response resp =
     unless_rejected (reject_if_negative resp kSidSubaruBulkTransfer)
      (if resp = [] then failure ParseError ''UDS SubaruBulkTransfer response empty''
       else if resp ! 0 \<noteq> kSidSubaruBulkTransfer + kPositiveResponseOffset then
         failure EcuRejected ''UDS SubaruBulkTransfer unexpected SID''
       else ok)"

definition build_request_transfer_exit :: bytes where
  "build_request_transfer_exit = [kSidRequestTransferExit]"

definition parse_request_transfer_exit_response :: "bytes \<Rightarrow> status" where
  "parse_request_transfer_exit_response resp =
     unless_rejected (reject_if_negative resp kSidRequestTransferExit)
      (if resp = [] then failure ParseError ''UDS RequestTransferExit response empty''
       else if resp ! 0 \<noteq> kSidRequestTransferExit + kPositiveResponseOffset then
         failure EcuRejected ''UDS RequestTransferExit unexpected SID''
       else ok)"

section \<open>OBD-II Mode 09\<close>

definition build_obd2_vehicle_info_request :: "u8 \<Rightarrow> bytes" where
  "build_obd2_vehicle_info_request pid = [kSidObd2VehicleInfo, pid]"

definition parse_obd2_vehicle_info_response :: "bytes \<Rightarrow> u8 \<Rightarrow> nat \<Rightarrow> bytes list result" where
  "parse_obd2_vehicle_info_response resp expected_pid message_width =
     unless_rejected (reject_if_negative resp kSidObd2VehicleInfo)
      (if length resp < 3 then failure ParseError ''OBD2 Mode 09 response too short for header''
       else if resp ! 0 \<noteq> kSidObd2VehicleInfo + kPositiveResponseOffset then
         failure EcuRejected ''OBD2 Mode 09 unexpected response SID''
       else if resp ! 1 \<noteq> expected_pid then failure ParseError ''OBD2 Mode 09 PID mismatch''
       else if message_width = 0 then
         failure InvalidArgument ''OBD2 Mode 09 message_width must be > 0''
       else let nodi = unat (resp ! 2) in
         if length resp \<noteq> 3 + nodi * message_width then
           failure ParseError ''OBD2 Mode 09 response length doesn't match NODI * message_width''
         else Inr (map (\<lambda>i. take message_width (drop (3 + i * message_width) resp)) [0..<nodi]))"

section \<open>RoutineControl\<close>

definition build_routine_control :: "u8 \<Rightarrow> u16 \<Rightarrow> bytes \<Rightarrow> bytes" where
  "build_routine_control sub_function routine_id option_record =
     [kSidRoutineControl, sub_function, ucast (drop_bit 8 routine_id AND 0xFF),
      ucast (routine_id AND 0xFF)] @ option_record"

definition parse_routine_control_response :: "bytes \<Rightarrow> u8 \<Rightarrow> u16 \<Rightarrow> bytes result" where
  "parse_routine_control_response resp expected_sub_function expected_routine_id =
     unless_rejected (reject_if_negative resp kSidRoutineControl)
      (if length resp < 4 then failure ParseError ''UDS RoutineControl response too short''
       else if resp ! 0 \<noteq> kSidRoutineControl + kPositiveResponseOffset then
         failure EcuRejected ''UDS RoutineControl unexpected SID''
       else if resp ! 1 \<noteq> expected_sub_function then
         failure ParseError ''UDS RoutineControl sub-function mismatch''
       else if read_be16 (resp ! 2) (resp ! 3) \<noteq> expected_routine_id then
         failure ParseError ''UDS RoutineControl RID mismatch''
       else Inr (drop 4 resp))"

section \<open>ReadMemoryByAddress, WriteMemoryByAddress\<close>

definition build_read_memory_by_address :: "u32 \<Rightarrow> u32 \<Rightarrow> bytes" where
  "build_read_memory_by_address memory_address memory_size =
     (let addr_bytes = 4; size_bytes = (if memory_size > 0xFF then 2 else 1)
      in [kSidReadMemoryByAddress, encode_alfi size_bytes addr_bytes] @
         big_endian memory_address addr_bytes @ big_endian memory_size size_bytes)"

definition parse_read_memory_by_address_response :: "bytes \<Rightarrow> bytes result" where
  "parse_read_memory_by_address_response resp =
     unless_rejected (reject_if_negative resp kSidReadMemoryByAddress)
      (if resp = [] then failure ParseError ''UDS ReadMemoryByAddress response empty''
       else if resp ! 0 \<noteq> kSidReadMemoryByAddress + kPositiveResponseOffset then
         failure EcuRejected ''UDS ReadMemoryByAddress unexpected SID''
       else Inr (drop 1 resp))"

definition build_write_memory_by_address :: "u32 \<Rightarrow> bytes \<Rightarrow> bytes" where
  "build_write_memory_by_address memory_address data =
     (let memory_size = of_nat (length data);
          addr_bytes = bytes_to_encode memory_address;
          size_bytes = bytes_to_encode memory_size
      in [kSidWriteMemoryByAddress, encode_alfi size_bytes addr_bytes] @
         big_endian memory_address addr_bytes @ big_endian memory_size size_bytes @ data)"

definition parse_write_memory_by_address_response :: "bytes \<Rightarrow> u32 \<Rightarrow> u32 \<Rightarrow> status" where
  "parse_write_memory_by_address_response resp expected_address expected_size =
     unless_rejected (reject_if_negative resp kSidWriteMemoryByAddress)
      (if length resp < 2 then failure ParseError ''UDS WriteMemoryByAddress response too short''
       else if resp ! 0 \<noteq> kSidWriteMemoryByAddress + kPositiveResponseOffset then
         failure EcuRejected ''UDS WriteMemoryByAddress unexpected SID''
       else let size_bytes = unat (drop_bit 4 (resp ! 1) AND 0x0F);
                addr_bytes = unat (resp ! 1 AND 0x0F) in
         if size_bytes = 0 \<or> size_bytes > 4 \<or> addr_bytes = 0 \<or> addr_bytes > 4 then
           failure ParseError ''UDS WriteMemoryByAddress bad addressAndLengthFormat''
         else if length resp < 2 + addr_bytes + size_bytes then
           failure ParseError ''UDS WriteMemoryByAddress response truncated''
         else if read_big_endian (take addr_bytes (drop 2 resp)) \<noteq> expected_address then
           failure ParseError ''UDS WriteMemoryByAddress address echo mismatch''
         else if read_big_endian (take size_bytes (drop (2 + addr_bytes) resp)) \<noteq> expected_size then
           failure ParseError ''UDS WriteMemoryByAddress size echo mismatch''
         else ok)"

section \<open>CommunicationControl\<close>

definition build_communication_control :: "u8 \<Rightarrow> u8 \<Rightarrow> bytes" where
  "build_communication_control control_type communication_type =
     [kSidCommunicationControl, control_type, communication_type]"

definition parse_communication_control_response :: "bytes \<Rightarrow> u8 \<Rightarrow> status" where
  "parse_communication_control_response resp expected_control_type =
     unless_rejected (reject_if_negative resp kSidCommunicationControl)
      (if length resp < 2 then failure ParseError ''UDS CommunicationControl response too short''
       else if resp ! 0 \<noteq> kSidCommunicationControl + kPositiveResponseOffset then
         failure EcuRejected ''UDS CommunicationControl unexpected SID''
       else if resp ! 1 \<noteq> expected_control_type then
         failure ParseError ''UDS CommunicationControl controlType mismatch''
       else ok)"

end
