(* ===== verification/Uds_Props.thy ===== *)
theory Uds_Props
  imports Uds_Codec
begin

text \<open>
  What the UDS codec of Uds_Codec promises on the wire: the memory requests decode to their
  address and size under an independent reading of ISO 14229's addressAndLengthFormatIdentifier,
  and every response parser accepts exactly the positive responses to its request.
\<close>

section \<open>An ISO 14229 reading of memory requests\<close>

definition be_value :: "bytes \<Rightarrow> nat" where
  "be_value bs = foldl (\<lambda>v b. 256 * v + unat b) 0 bs"

definition iso_decode_memory :: "bytes \<Rightarrow> (nat \<times> nat \<times> bytes) option" where
  "iso_decode_memory bs =
     (case bs of
        [] \<Rightarrow> None
      | alfi # rest \<Rightarrow>
          let addr_len = unat alfi mod 16; size_len = unat alfi div 16 in
          if length rest < addr_len + size_len then None
          else Some (be_value (take addr_len rest),
                     be_value (take size_len (drop addr_len rest)),
                     drop (addr_len + size_len) rest))"

section \<open>Big-endian fields\<close>

lemma length_big_endian [simp]: "length (big_endian v k) = k"
  by (induction k) auto

lemma foldl_be: "foldl (\<lambda>v b. 256 * v + unat b) a bs = a * 256 ^ length bs + be_value bs"
proof (induction bs arbitrary: a)
  case (Cons b bs)
  show ?case
    unfolding be_value_def foldl_Cons Cons [of "256 * a + unat b"] Cons [of "256 * 0 + unat b"]
    by (simp add: algebra_simps)
qed (simp add: be_value_def)

lemma be_value_Cons: "be_value (b # bs) = unat b * 256 ^ length bs + be_value bs"
  using foldl_be [of "unat b" bs] by (simp add: be_value_def)

lemma unat_byte_at: "unat (byte_at s v) = unat v div 2 ^ s mod 256"
proof -
  have "byte_at s v = ucast (drop_bit s v)"
    by (rule bit_word_eqI) (simp add: bit_ucast_iff bit_drop_bit_eq)
  then have "unat (byte_at s v) = unat (take_bit 8 (drop_bit s v))"
    by (simp add: unsigned_ucast_eq unsigned_take_bit_eq)
  also have "\<dots> = unat v div 2 ^ s mod 256"
    unfolding unsigned_take_bit_eq unat_drop_bit_eq by (simp add: take_bit_eq_mod drop_bit_eq_div)
  finally show ?thesis .
qed

lemma be_value_big_endian: "be_value (big_endian v k) = unat v mod 2 ^ (8 * k)"
proof (induction k)
  case 0
  then show ?case by (simp add: be_value_def)
next
  case (Suc k)
  have "(256 :: nat) ^ k = 2 ^ (8 * k)" by (simp add: power_mult)
  moreover have "unat v mod (2 ^ (8 * k) * 256) =
      2 ^ (8 * k) * (unat v div 2 ^ (8 * k) mod 256) + unat v mod 2 ^ (8 * k)"
    by (rule mod_mult2_eq)
  ultimately show ?case
    by (simp add: be_value_Cons unat_byte_at Suc power_add mult.commute)
qed

lemma bytes_to_encode_bounds:
  "1 \<le> bytes_to_encode v" "bytes_to_encode v \<le> 4" "unat v < 2 ^ (8 * bytes_to_encode v)"
proof -
  have "unat v < 2 ^ 32" using unsigned_less [of v] by simp
  then show "1 \<le> bytes_to_encode v" "bytes_to_encode v \<le> 4" "unat v < 2 ^ (8 * bytes_to_encode v)"
    by (auto simp: bytes_to_encode_def word_le_nat_alt)
qed

lemma be_value_field: "be_value (big_endian v (bytes_to_encode v)) = unat v"
  using bytes_to_encode_bounds(3) [of v] by (simp add: be_value_big_endian)

lemma alfi_lengths:
  assumes "a \<le> 4" "s \<le> 4"
  shows "unat (encode_alfi s a) mod 16 = a" "unat (encode_alfi s a) div 16 = s"
proof -
  have "a \<in> {0, 1, 2, 3, 4}" "s \<in> {0, 1, 2, 3, 4}" using assms by auto
  then show "unat (encode_alfi s a) mod 16 = a" "unat (encode_alfi s a) div 16 = s"
    by (auto simp: encode_alfi_def)
qed

lemma iso_decode_fields:
  assumes "a \<le> 4" "s \<le> 4"
  shows "iso_decode_memory (encode_alfi s a # big_endian addr a @ big_endian n s @ rest) =
           Some (unat addr mod 2 ^ (8 * a), unat n mod 2 ^ (8 * s), rest)"
  by (simp add: iso_decode_memory_def alfi_lengths [OF assms] be_value_big_endian Let_def)

section \<open>Reading fields back\<close>

lemma unat_ucast_u8_u32 [simp]: "unat (ucast (b :: u8) :: u32) = unat b"
proof -
  have "unat b < 2 ^ 32" by (rule less_trans [OF unat_u8_less]) simp
  then show ?thesis by (simp add: unsigned_ucast_eq unsigned_take_bit_eq take_bit_nat_eq_self)
qed

lemma bit_u8_high [simp]: "bit (b :: u8) (8 + n) \<longleftrightarrow> False"
  using bit_imp_le_length [of b "8 + n"] by auto

lemma digit_bound: "a < m \<Longrightarrow> x < 256 \<Longrightarrow> a * 256 + x < 256 * (m :: nat)"
  by (drule Suc_leI, drule mult_le_mono1 [where k = 256]) simp

lemma unat_read_big_endian:
  assumes "length bs \<le> 4"
  shows "unat (read_big_endian bs) = be_value bs"
proof -
  have step: "unat (foldl (\<lambda>v b. push_bit 8 v OR ucast b) a xs :: u32) =
      foldl (\<lambda>v b. 256 * v + unat b) (unat a) xs"
    if "unat a < 256 ^ k" "k + length xs \<le> 4" for a :: u32 and xs :: bytes and k
    using that
  proof (induction xs arbitrary: a k)
    case (Cons x xs)
    have "unat a < 256 ^ 3" using Cons.prems power_increasing [of k 3 "256 :: nat"] by simp
    then have lt: "unat a * 256 < 2 ^ 32" by simp
    have disj: "push_bit 8 a AND ucast x = 0"
      by (rule bit_word_eqI) (auto simp: bit_and_iff bit_push_bit_iff)
    have "push_bit 8 a OR ucast x = push_bit 8 a + ucast x"
      using disj by (rule disjunctive_add_eq_or [symmetric])
    then have "unat (push_bit 8 a OR ucast x) = (unat a * 256 + unat x) mod 2 ^ 32"
      by (simp add: push_bit_eq_mult unat_word_ariths mod_simps mult.commute)
    moreover have "unat a * 256 + unat x < 256 ^ Suc k"
      unfolding power_Suc by (rule digit_bound [OF Cons.prems(1) unat_u8_less])
    moreover have "(256 :: nat) ^ Suc k \<le> 256 ^ 4"
      using Cons.prems(2) by (intro power_increasing) simp_all
    ultimately have eq: "unat (push_bit 8 a OR ucast x) = 256 * unat a + unat x"
      and bound: "unat (push_bit 8 a OR ucast x) < 256 ^ Suc k"
      by simp_all
    from Cons.IH [OF bound] Cons.prems(2) show ?case by (simp add: eq)
  qed simp
  show ?thesis
    using step [of 0 0 bs] assms by (simp add: read_big_endian_def be_value_def)
qed

section \<open>Responses\<close>

lemma reject_if_negative_ok:
  "reject_if_negative resp sid = ok \<longleftrightarrow> \<not> (3 \<le> length resp \<and> resp ! 0 = kNegativeResponse)"
  by (auto simp: reject_if_negative_def)

lemma reject_if_sa_negative_ok:
  "reject_if_sa_negative resp = ok \<longleftrightarrow> \<not> (3 \<le> length resp \<and> resp ! 0 = kNegativeResponse)"
  by (auto simp: reject_if_sa_negative_def)

lemma read_be16_eq_iff: "read_be16 hi lo = v \<longleftrightarrow> [hi, lo] = be16 v"
proof -
  have "be16 (read_be16 hi lo) = [hi, lo]"
    by (auto simp: be16_def read_be16_def intro!: bit_word_eqI
        simp: bit_ucast_iff bit_and_iff bit_or_iff bit_push_bit_iff bit_drop_bit_eq
        simp del: bit_numeral_word_iff dest: bit_imp_le_length)
  moreover have "v = w" if "be16 v = be16 w" for v w :: u16
  proof (rule bit_word_eqI)
    fix n assume "n < LENGTH(16)"
    then have n: "n < 16" by simp
    have bits: "bit v m = bit (ucast (v AND 0xFF) :: u8) m"
      "bit v (8 + m) = bit (ucast (drop_bit 8 v AND 0xFF) :: u8) m" if "m < 8" for m and v :: u16
      using that by (simp_all add: bit_ucast_iff bit_and_iff bit_drop_bit_eq del: bit_numeral_word_iff)
    from that have eq: "ucast (drop_bit 8 v AND 0xFF) = (ucast (drop_bit 8 w AND 0xFF) :: u8)"
      "ucast (v AND 0xFF) = (ucast (w AND 0xFF) :: u8)" by (simp_all add: be16_def)
    show "bit v n = bit w n"
    proof (cases "n < 8")
      case True
      then show ?thesis by (simp only: bits(1) eq)
    next
      case False
      then have "n - 8 < 8" "n = 8 + (n - 8)" using n by simp_all
      then show ?thesis using bits(2) [of "n - 8"] eq(1) by metis
    qed
  qed
  ultimately show ?thesis by metis
qed

lemma resp_cases:
  obtains "resp = []" | a where "resp = [a]" | a b where "resp = [a, b]"
  | a b c where "resp = [a, b, c]" | a b c d rest where "resp = a # b # c # d # rest"
  by (metis list.exhaust)

lemma length_Suc_ge [simp]: "3 \<le> Suc (Suc (Suc n))" "4 \<le> Suc (Suc (Suc (Suc n)))"
  by simp_all

lemmas response_defs =
  parse_rdbi_response_def parse_wdbi_response_def parse_security_access_seed_def
  parse_security_access_key_ack_def parse_dsc_response_def parse_transfer_data_response_def
  parse_request_transfer_exit_response_def parse_routine_control_response_def
  parse_read_memory_by_address_response_def parse_communication_control_response_def
  reject_if_negative_def reject_if_sa_negative_def read_be16_eq_iff

lemma parse_wmba_echo:
  assumes "bytes_to_encode a = ab" "bytes_to_encode n = sb"
  shows "parse_write_memory_by_address_response
           (0x7D # encode_alfi sb ab # big_endian a ab @ big_endian n sb) a n = ok"
proof -
  note ab = bytes_to_encode_bounds [of a, unfolded assms]
  note sb = bytes_to_encode_bounds [of n, unfolded assms]
  have nibbles: "unat (encode_alfi sb ab AND 0x0F) = ab" "unat (drop_bit 4 (encode_alfi sb ab) AND 0x0F) = sb"
  proof -
    have m: "x AND 0x0F = take_bit 4 x" for x :: u8 by (simp add: take_bit_eq_mask mask_eq_exp_minus_1)
    have lo: "unat (x AND 0x0F) = unat x mod 16" for x :: u8
      unfolding m unsigned_take_bit_eq by (simp add: take_bit_eq_mod)
    show "unat (encode_alfi sb ab AND 0x0F) = ab" unfolding lo by (rule alfi_lengths; fact)
    show "unat (drop_bit 4 (encode_alfi sb ab) AND 0x0F) = sb"
      unfolding lo unat_drop_bit_eq using alfi_lengths [OF ab(2) sb(2)] sb(2)
      by (simp add: drop_bit_eq_div)
  qed
  have field: "read_big_endian (big_endian v (bytes_to_encode v)) = v" for v
    using unat_read_big_endian [of "big_endian v (bytes_to_encode v)"] bytes_to_encode_bounds(2)
    by (simp add: be_value_field word_unat_eq_iff)
  show ?thesis
    using ab(1,2) sb(1,2) field [of a] field [of n] assms
    by (simp add: parse_write_memory_by_address_response_def reject_if_negative_def Let_def nibbles)
qed

section \<open>Messages of fixed width\<close>

lemma concat_chunks:
  "length xs = n * w \<Longrightarrow> concat (map (\<lambda>i. take w (drop (i * w) xs)) [0..<n]) = xs"
proof (induction n arbitrary: xs)
  case (Suc n)
  have "map (\<lambda>i. take w (drop (i * w) xs)) [0..<Suc n] =
      take w xs # map (\<lambda>i. take w (drop (i * w) (drop w xs))) [0..<n]"
    by (simp add: upt_conv_Cons map_Suc_upt [symmetric] add.commute del: upt_Suc)
  then show ?case using Suc.IH [of "drop w xs"] Suc.prems by simp
qed simp

lemma chunks_concat:
  "list_all (\<lambda>msg. length msg = w) ms \<Longrightarrow>
     map (\<lambda>i. take w (drop (i * w) (concat ms))) [0..<length ms] = ms"
proof (induction ms)
  case (Cons m ms)
  then have "length m = w" by simp
  then have "map (\<lambda>i. take w (drop (i * w) (concat (m # ms)))) [0..<Suc (length ms)] =
      m # map (\<lambda>i. take w (drop (i * w) (concat ms))) [0..<length ms]"
    by (simp add: upt_conv_Cons map_Suc_upt [symmetric] del: upt_Suc)
  with Cons show ?case by (simp del: upt_Suc)
qed simp

lemma length_concat_width: "list_all (\<lambda>msg. length msg = w) ms \<Longrightarrow> length (concat ms) = length ms * w"
  by (induction ms) auto

section \<open>Properties\<close>

text \<open>C34: The memory requests say what was asked for: read with ISO 14229's addressAndLengthFormatIdentifier,
  RequestDownload carries the address and size given, WriteMemoryByAddress the address, the
  payload's length modulo 2^32 and the payload, and ReadMemoryByAddress the address, but its size
  modulo 2^16 only.\<close>

theorem memory_requests_decode:
  "(\<exists>fields. build_request_download data_format addr n = kSidRequestDownload # data_format # fields \<and>
      iso_decode_memory fields = Some (unat addr, unat n, [])) \<and>
   (\<exists>fields. build_write_memory_by_address addr data = kSidWriteMemoryByAddress # fields \<and>
      iso_decode_memory fields = Some (unat addr, length data mod 2 ^ 32, data)) \<and>
   (\<exists>fields. build_read_memory_by_address addr n = kSidReadMemoryByAddress # fields \<and>
      iso_decode_memory fields = Some (unat addr, unat n mod 2 ^ 16, []))"
proof (intro conjI)
  have small: "unat v mod 2 ^ (8 * bytes_to_encode v) = unat v" for v
    using bytes_to_encode_bounds(3) by simp
  note decode = iso_decode_fields [OF bytes_to_encode_bounds(2) bytes_to_encode_bounds(2), of _ _ addr _]
  show "\<exists>fields. build_request_download data_format addr n = kSidRequestDownload # data_format # fields \<and>
      iso_decode_memory fields = Some (unat addr, unat n, [])"
    using decode [of n addr n "[]"]
    unfolding build_request_download_def Let_def encode_alfi_def [symmetric] by (simp add: small)
  define len :: u32 where "len = of_nat (length data)"
  have "unat len = length data mod 2 ^ 32"
    by (simp add: len_def unat_of_nat take_bit_eq_mod)
  then show "\<exists>fields. build_write_memory_by_address addr data = kSidWriteMemoryByAddress # fields \<and>
      iso_decode_memory fields = Some (unat addr, length data mod 2 ^ 32, data)"
    using decode [of len addr len data]
    unfolding small by (simp add: build_write_memory_by_address_def Let_def flip: len_def)
  have "unat addr < 2 ^ 32" using unsigned_less [of addr] by simp
  moreover have "unat n mod 2 ^ 8 = unat n mod 2 ^ 16" if "\<not> 0xFF < n"
    using that by (simp add: not_less word_le_nat_alt)
  ultimately show "\<exists>fields. build_read_memory_by_address addr n = kSidReadMemoryByAddress # fields \<and>
      iso_decode_memory fields = Some (unat addr, unat n mod 2 ^ 16, [])"
    using iso_decode_fields [of 4 2 addr n "[]"] iso_decode_fields [of 4 1 addr n "[]"]
    by (simp add: build_read_memory_by_address_def Let_def del: big_endian_numeral)
qed

text \<open>The parsers accept exactly the positive responses to their request: the service id plus 0x40 and
  the echoed identifiers, and hand over exactly the bytes after them.\<close>

theorem responses_accepted:
  "(parse_rdbi_response resp did = Inr data \<longleftrightarrow> resp = 0x62 # be16 did @ data) \<and>
   (parse_wdbi_response resp did = ok \<longleftrightarrow> (\<exists>rest. resp = 0x6E # be16 did @ rest)) \<and>
   (parse_security_access_seed resp sub_fn = Inr data \<longleftrightarrow> resp = 0x67 # sub_fn # data) \<and>
   (parse_security_access_key_ack resp sub_fn = ok \<longleftrightarrow> (\<exists>rest. resp = 0x67 # sub_fn # rest)) \<and>
   (parse_dsc_response resp session = ok \<longleftrightarrow> (\<exists>rest. resp = 0x50 # session # rest)) \<and>
   (parse_transfer_data_response resp counter = ok \<longleftrightarrow> (\<exists>rest. resp = 0x76 # counter # rest)) \<and>
   (parse_request_transfer_exit_response resp = ok \<longleftrightarrow> (\<exists>rest. resp = 0x77 # rest)) \<and>
   (parse_routine_control_response resp sub_fn rid = Inr data \<longleftrightarrow> resp = 0x71 # sub_fn # be16 rid @ data) \<and>
   (parse_read_memory_by_address_response resp = Inr data \<longleftrightarrow> resp = 0x63 # data) \<and>
   (parse_communication_control_response resp ctl = ok \<longleftrightarrow> (\<exists>rest. resp = 0x68 # ctl # rest))"
  by (intro conjI; cases resp rule: resp_cases; simp add: response_defs be16_def; fastforce)

text \<open>An ECU that echoes the address and size fields of a WriteMemoryByAddress request after its
  positive service id is accepted, for every address and every payload.\<close>

theorem wmba_echo_accepted:
  "\<exists>fields. build_write_memory_by_address addr data = kSidWriteMemoryByAddress # fields @ data \<and>
     parse_write_memory_by_address_response ((kSidWriteMemoryByAddress + kPositiveResponseOffset) # fields)
       addr (of_nat (length data)) = ok"
  unfolding build_write_memory_by_address_def Let_def
  using parse_wmba_echo [OF refl refl, where a = addr and n = "of_nat (length data)"]
  by auto

text \<open>An OBD-II mode 09 response carries its messages: the parse succeeds with \<open>ms\<close> exactly when the
  response is the positive id, the pid, the message count and the messages one after another, each
  of the given non-zero width.\<close>

theorem obd2_vehicle_info_roundtrip:
  "parse_obd2_vehicle_info_response resp pid w = Inr ms \<longleftrightarrow>
     w \<noteq> 0 \<and> length ms < 256 \<and> list_all (\<lambda>msg. length msg = w) ms \<and>
     resp = 0x49 # pid # of_nat (length ms) # concat ms"
proof -
  have parse: "parse_obd2_vehicle_info_response (a # b # n # body) pid w = Inr ms \<longleftrightarrow>
      a = 0x49 \<and> b = pid \<and> w \<noteq> 0 \<and> length body = unat n * w \<and>
      map (\<lambda>i. take w (drop (i * w) body)) [0..<unat n] = ms" for a b n body
  proof -
    have "drop (3 + k) (a # b # n # body) = drop k body" for k by (simp add: numeral_3_eq_3)
    then show ?thesis
      by (auto simp: parse_obd2_vehicle_info_response_def reject_if_negative_def Let_def)
  qed
  have body: "length body = unat n * w \<and> map (\<lambda>i. take w (drop (i * w) body)) [0..<unat n] = ms \<longleftrightarrow>
      length ms < 256 \<and> list_all (\<lambda>msg. length msg = w) ms \<and> n = of_nat (length ms) \<and> body = concat ms"
    for n :: u8 and body
  proof
    assume l: "length body = unat n * w \<and> map (\<lambda>i. take w (drop (i * w) body)) [0..<unat n] = ms"
    then have "length ms = unat n" by auto
    moreover have "length msg = w" if "msg \<in> set ms" for msg
    proof -
      from that l obtain i where i: "i < unat n" "msg = take w (drop (i * w) body)" by auto
      have "Suc i * w \<le> unat n * w" using i(1) by (intro mult_le_mono1) simp
      with i(2) l show ?thesis by simp
    qed
    moreover have "concat ms = body" using l concat_chunks by blast
    ultimately show "length ms < 256 \<and> list_all (\<lambda>msg. length msg = w) ms \<and>
        n = of_nat (length ms) \<and> body = concat ms"
      by (auto simp: list_all_iff)
  next
    assume r: "length ms < 256 \<and> list_all (\<lambda>msg. length msg = w) ms \<and>
        n = of_nat (length ms) \<and> body = concat ms"
    then have "unat n = length ms" by (simp add: unat_of_nat take_bit_nat_eq_self)
    with r show "length body = unat n * w \<and> map (\<lambda>i. take w (drop (i * w) body)) [0..<unat n] = ms"
      using chunks_concat length_concat_width by metis
  qed
  show ?thesis
  proof (cases resp rule: resp_cases)
    case (4 a b c)
    then show ?thesis using parse [of a b c "[]"] body [of "[]" c] by auto
  next
    case (5 a b c d rest)
    then show ?thesis using parse [of a b c "d # rest"] body [of "d # rest" c] by auto
  qed (auto simp: parse_obd2_vehicle_info_response_def reject_if_negative_def)
qed

end
