(* ===== verification/Uds_Client.thy ===== *)
theory Uds_Client
  imports Uds_Codec Transport
begin

text \<open>
  \<open>UdsClient\<close> (src/ecu/src/uds.cpp): every operation builds its request, exchanges it over the
  transport with its default or given timeout, and parses the response. The transport and its
  state are arguments; the audit log is a list of the calls \<open>AuditLog::log\<close> receives, \<open>None\<close>
  standing for the null pointer that keeps the client quiet.
\<close>

section \<open>Audit entries as the clients emit them\<close>

datatype entry_kind =
    Custom | EcuConnected | EcuDisconnected | SecurityAccessUnlocked | BackupCreated
  | BackupVerified | FlashStarted | FlashSectorWritten | FlashCompleted | FlashFailed
  | FlashCancelled | DatalogStarted | DatalogStopped | ChecksumRecomputed | ProjectOpened
  | ProjectSaved | EditCommitted | AutotuneCommitted | RomReadStarted | RomReadCompleted
  | RomReadFailed | RomReadCancelled

record log_call =
  lc_kind :: entry_kind
  lc_source :: string
  lc_description :: string
  lc_fields :: "(string \<times> string) list"

type_synonym audit_log = "log_call list option"

definition audit_call ::
    "audit_log \<Rightarrow> entry_kind \<Rightarrow> string \<Rightarrow> string \<Rightarrow> (string \<times> string) list \<Rightarrow> audit_log" where
  "audit_call al k src desc flds =
     (case al of None \<Rightarrow> None
      | Some es \<Rightarrow> Some (es @ [\<lparr>lc_kind = k, lc_source = src, lc_description = desc,
                                lc_fields = flds\<rparr>]))"

section \<open>The operations\<close>

definition uds_call ::
    "'s transport \<Rightarrow> 's \<Rightarrow> bytes \<Rightarrow> nat \<Rightarrow> (bytes \<Rightarrow> 'a result) \<Rightarrow> 'a result \<times> 's" where
  "uds_call tp s req timeout parse =
     (case tp_send_recv tp s req timeout of
        (Inl e, s') \<Rightarrow> (Inl e, s')
      | (Inr resp, s') \<Rightarrow> (parse resp, s'))"

definition uds_call_to ::
    "'s transport \<Rightarrow> 's \<Rightarrow> u32 \<Rightarrow> bytes \<Rightarrow> nat \<Rightarrow> (bytes \<Rightarrow> 'a result) \<Rightarrow> 'a result \<times> 's" where
  "uds_call_to tp s can_id req timeout parse =
     (case tp_send_recv_to tp s can_id req timeout of
        (Inl e, s') \<Rightarrow> (Inl e, s')
      | (Inr resp, s') \<Rightarrow> (parse resp, s'))"

definition read_data_by_identifier :: "'s transport \<Rightarrow> 's \<Rightarrow> u16 \<Rightarrow> nat \<Rightarrow> bytes result \<times> 's" where
  "read_data_by_identifier tp s did timeout =
     uds_call tp s (build_rdbi_request did) timeout (\<lambda>resp. parse_rdbi_response resp did)"

definition write_data_by_identifier ::
    "'s transport \<Rightarrow> 's \<Rightarrow> u16 \<Rightarrow> bytes \<Rightarrow> nat \<Rightarrow> status \<times> 's" where
  "write_data_by_identifier tp s did data timeout =
     uds_call tp s (build_wdbi_request did data) timeout (\<lambda>resp. parse_wdbi_response resp did)"

definition security_access_request_seed ::
    "'s transport \<Rightarrow> 's \<Rightarrow> u8 \<Rightarrow> nat \<Rightarrow> bytes result \<times> 's" where
  "security_access_request_seed tp s sub_function timeout =
     uds_call tp s (build_security_access_request_seed sub_function) timeout
       (\<lambda>resp. parse_security_access_seed resp sub_function)"

definition security_access_send_key ::
    "'s transport \<Rightarrow> 's \<Rightarrow> audit_log \<Rightarrow> string \<Rightarrow> u8 \<Rightarrow> bytes \<Rightarrow> nat \<Rightarrow> status \<times> 's \<times> audit_log" where
  "security_access_send_key tp s al audit_source sub_function key timeout =
     (case uds_call tp s (build_security_access_send_key sub_function key) timeout
             (\<lambda>resp. parse_security_access_key_ack resp sub_function) of
        (Inl e, s') \<Rightarrow> (Inl e, s', al)
      | (Inr u, s') \<Rightarrow> (ok, s', audit_call al SecurityAccessUnlocked audit_source
            (''UDS SecurityAccess unlocked at sub-function '' @ hex_byte sub_function)
            [(''sub_function'', hex_byte sub_function),
             (''key_bytes'', dec_string (length key))]))"

definition diagnostic_session_control ::
    "'s transport \<Rightarrow> 's \<Rightarrow> u8 \<Rightarrow> nat \<Rightarrow> status \<times> 's" where
  "diagnostic_session_control tp s session timeout =
     uds_call tp s (build_dsc_request session) timeout (\<lambda>resp. parse_dsc_response resp session)"

definition ecu_reset :: "'s transport \<Rightarrow> 's \<Rightarrow> u8 \<Rightarrow> nat \<Rightarrow> status \<times> 's" where
  "ecu_reset tp s reset_type timeout =
     uds_call tp s (build_ecu_reset_request reset_type) timeout
       (\<lambda>resp. parse_ecu_reset_response resp reset_type)"

definition tester_present :: "'s transport \<Rightarrow> 's \<Rightarrow> nat \<Rightarrow> status \<times> 's" where
  "tester_present tp s timeout =
     uds_call tp s (build_tester_present_request False) timeout parse_tester_present_response"

definition request_download ::
    "'s transport \<Rightarrow> 's \<Rightarrow> u8 \<Rightarrow> u32 \<Rightarrow> u32 \<Rightarrow> nat \<Rightarrow> u32 result \<times> 's" where
  "request_download tp s data_format memory_address memory_size timeout =
     uds_call tp s (build_request_download data_format memory_address memory_size) timeout
       parse_request_download_response"

definition transfer_data :: "'s transport \<Rightarrow> 's \<Rightarrow> u8 \<Rightarrow> bytes \<Rightarrow> nat \<Rightarrow> status \<times> 's" where
  "transfer_data tp s block_sequence_counter data timeout =
     uds_call tp s (build_transfer_data block_sequence_counter data) timeout
       (\<lambda>resp. parse_transfer_data_response resp block_sequence_counter)"

definition subaru_bulk_transfer :: "'s transport \<Rightarrow> 's \<Rightarrow> u32 \<Rightarrow> bytes \<Rightarrow> nat \<Rightarrow> status \<times> 's" where
  "subaru_bulk_transfer tp s memory_address data timeout =
     (if memory_address > kSubaruBulkTransferAddressMax then
        (failure InvalidArgument
           ''UDS SubaruBulkTransfer address exceeds 24-bit ceiling 0xFFFFFF'', s)
      else uds_call tp s (build_subaru_bulk_transfer memory_address data) timeout
             parse_subaru_bulk_transfer_response)"

definition request_transfer_exit :: "'s transport \<Rightarrow> 's \<Rightarrow> nat \<Rightarrow> status \<times> 's" where
  "request_transfer_exit tp s timeout =
     uds_call tp s build_request_transfer_exit timeout parse_request_transfer_exit_response"

definition routine_control ::
    "'s transport \<Rightarrow> 's \<Rightarrow> u8 \<Rightarrow> u16 \<Rightarrow> bytes \<Rightarrow> nat \<Rightarrow> bytes result \<times> 's" where
  "routine_control tp s sub_function routine_id option_record timeout =
     uds_call tp s (build_routine_control sub_function routine_id option_record) timeout
       (\<lambda>resp. parse_routine_control_response resp sub_function routine_id)"

definition read_memory_by_address ::
    "'s transport \<Rightarrow> 's \<Rightarrow> u32 \<Rightarrow> u32 \<Rightarrow> nat \<Rightarrow> bytes result \<times> 's" where
  "read_memory_by_address tp s memory_address memory_size timeout =
     uds_call tp s (build_read_memory_by_address memory_address memory_size) timeout
       parse_read_memory_by_address_response"

definition write_memory_by_address ::
    "'s transport \<Rightarrow> 's \<Rightarrow> u32 \<Rightarrow> bytes \<Rightarrow> nat \<Rightarrow> status \<times> 's" where
  "write_memory_by_address tp s memory_address data timeout =
     uds_call tp s (build_write_memory_by_address memory_address data) timeout
       (\<lambda>resp. parse_write_memory_by_address_response resp memory_address (of_nat (length data)))"

definition obd2_vehicle_info ::
    "'s transport \<Rightarrow> 's \<Rightarrow> u8 \<Rightarrow> nat \<Rightarrow> nat \<Rightarrow> bytes list result \<times> 's" where
  "obd2_vehicle_info tp s pid message_width timeout =
     uds_call tp s (build_obd2_vehicle_info_request pid) timeout
       (\<lambda>resp. parse_obd2_vehicle_info_response resp pid message_width)"

definition communication_control :: "'s transport \<Rightarrow> 's \<Rightarrow> u8 \<Rightarrow> u8 \<Rightarrow> nat \<Rightarrow> status \<times> 's" where
  "communication_control tp s control_type communication_type timeout =
     uds_call tp s (build_communication_control control_type communication_type) timeout
       (\<lambda>resp. parse_communication_control_response resp control_type)"

section \<open>Functional addressing\<close>

definition diagnostic_session_control_functional ::
    "'s transport \<Rightarrow> 's \<Rightarrow> u32 \<Rightarrow> u8 \<Rightarrow> nat \<Rightarrow> status \<times> 's" where
  "diagnostic_session_control_functional tp s can_id session timeout =
     uds_call_to tp s can_id (build_dsc_request session) timeout
       (\<lambda>resp. parse_dsc_response resp session)"

definition control_dtc_setting_functional ::
    "'s transport \<Rightarrow> 's \<Rightarrow> u32 \<Rightarrow> u8 \<Rightarrow> nat \<Rightarrow> status \<times> 's" where
  "control_dtc_setting_functional tp s can_id sub_function timeout =
     uds_call_to tp s can_id [kSidControlDtcSetting, sub_function] timeout
       (\<lambda>r. if length r \<ge> 3 \<and> r ! 0 = kNegativeResponse \<and> r ! 1 = kSidControlDtcSetting then
              failure EcuRejected (''UDS ControlDTCSetting NRC='' @ hex_byte (r ! 2))
            else if length r < 2 \<or> r ! 0 \<noteq> kSidControlDtcSetting + kPositiveResponseOffset then
              failure ParseError ''UDS ControlDTCSetting response malformed or unexpected SID''
            else if r ! 1 \<noteq> sub_function then
              failure ParseError ''UDS ControlDTCSetting sub-function mismatch''
            else ok)"

definition communication_control_functional ::
    "'s transport \<Rightarrow> 's \<Rightarrow> u32 \<Rightarrow> u8 \<Rightarrow> u8 \<Rightarrow> nat \<Rightarrow> status \<times> 's" where
  "communication_control_functional tp s can_id control_type communication_type timeout =
     uds_call_to tp s can_id (build_communication_control control_type communication_type) timeout
       (\<lambda>r. if length r \<ge> 3 \<and> r ! 0 = kNegativeResponse \<and> r ! 1 = kSidCommunicationControl \<and>
               r ! 2 = kNrcConditionsNotCorrect then ok
            else parse_communication_control_response r control_type)"

lemmas [client_defs] =
  read_data_by_identifier_def write_data_by_identifier_def security_access_request_seed_def
  diagnostic_session_control_def ecu_reset_def tester_present_def request_download_def
  transfer_data_def request_transfer_exit_def routine_control_def read_memory_by_address_def
  write_memory_by_address_def obd2_vehicle_info_def communication_control_def

section \<open>What a call puts on the bus\<close>

context logged_transport
begin

lemma adds_uds_call: "uds_call tp s req to parse = (r, s') \<Longrightarrow> P req \<Longrightarrow> adds P s s'"
  by (auto simp: uds_call_def split: prod.splits sum.splits intro: adds_send_recv)

lemma adds_uds_call_to: "uds_call_to tp s i req to parse = (r, s') \<Longrightarrow> P req \<Longrightarrow> adds P s s'"
  by (auto simp: uds_call_to_def split: prod.splits sum.splits intro: adds_send_recv_to)

text \<open>A call that succeeded really sent its request, exactly once.\<close>

lemma sent_uds_call_ok: "uds_call tp s req to parse = (Inr x, s') \<Longrightarrow> sent s' = sent s @ [req]"
  by (auto simp: uds_call_def split: prod.splits sum.splits dest!: send_recv_log)

lemma uds_call_ok_parsed:
  "uds_call tp s req to parse = (Inr x, s') \<Longrightarrow>
     \<exists>resp. tp_send_recv tp s req to = (Inr resp, s') \<and> parse resp = Inr x"
  by (auto simp: uds_call_def split: prod.splits sum.splits)

end

lemma sent_traced_uds_call:
  "uds_call (traced t) s req to parse = (r, s') \<Longrightarrow> snd s' = snd s @ [req]"
  by (auto simp: uds_call_def traced_def split: prod.splits sum.splits)

end
