(* ===== verification/Flash_Read.thy ===== *)
theory Flash_Read
  imports Uds_Client
begin

text \<open>
  The read path of \<open>st::flash::Flasher\<close> (src/flash/src/flash.cpp): the chunk-size probe
  \<open>probe_max_chunk\<close>, the classification of a failed read from its error text, and the dump loop
  of \<open>read_full_rom\<close> with its one retry, its one halving and its graceful end of range.

  The dump loop may spin on a zero chunk size, so it is a \<^theory_text>\<open>partial_function\<close> in the
  option monad; that it returns for every caller \<open>read_full_rom\<close> admits is a theorem. The
  cancel flag is another thread's: its value at the \<open>n\<close>-th poll is \<open>cancel n\<close>, and the null
  pointer is \<open>\<lambda>_. False\<close>. The progress callback is the list of the events it receives.
\<close>

section \<open>Helpers\<close>

definition hex_addr :: "u32 \<Rightarrow> string" where
  "hex_addr v = ''0x'' @ hex_fixed 8 (unat v)"

definition to_string_u32 :: "u32 \<Rightarrow> string" where
  "to_string_u32 v = dec_string (unat v)"

abbreviation "kProbeFloor \<equiv> (0x100 :: u32)"

definition halve_chunk :: "u32 \<Rightarrow> u32" where
  "halve_chunk c = (let h = c div 2 in if h < kProbeFloor then kProbeFloor else h)"

text \<open>\<open>hex_digit\<close> of \<open>extract_nrc\<close>; \<open>-1\<close> is \<open>None\<close>.\<close>

definition hex_digit_value :: "char \<Rightarrow> nat option" where
  "hex_digit_value c =
     (let n = of_char c in
      if 48 \<le> n \<and> n \<le> 57 then Some (n - 48)
      else if 65 \<le> n \<and> n \<le> 70 then Some (10 + n - 65)
      else if 97 \<le> n \<and> n \<le> 102 then Some (10 + n - 97)
      else None)"

definition extract_nrc :: "string \<Rightarrow> u8" where
  "extract_nrc msg =
     (case find_sub ''NRC=0x'' msg of
        None \<Rightarrow> 0
      | Some pos \<Rightarrow>
          if pos + 6 + 1 \<ge> length msg then 0
          else (case (hex_digit_value (msg ! (pos + 6)), hex_digit_value (msg ! (pos + 6 + 1))) of
                  (Some hi, Some lo) \<Rightarrow> push_bit 4 (of_nat hi) OR of_nat lo
                | _ \<Rightarrow> 0))"

datatype chunk_failure_kind = SilentDrop | SizeTooBig | OutOfRangeRead | Unrecoverable

definition classify_chunk_failure :: "error \<Rightarrow> chunk_failure_kind" where
  "classify_chunk_failure e =
     (if err_code e = TransportTimeout then SilentDrop
      else if err_code e \<noteq> EcuRejected then Unrecoverable
      else let nrc = extract_nrc (err_message e) in
        if nrc = 0x13 \<or> nrc = 0x14 then SizeTooBig
        else if nrc = 0x31 then OutOfRangeRead
        else Unrecoverable)"

section \<open>probe_max_chunk\<close>

lemma halve_chunk_decreases: "kProbeFloor < c \<Longrightarrow> halve_chunk c < c"
proof -
  assume c: "kProbeFloor < c"
  then have "256 < unat c" by (simp add: word_less_nat_alt)
  then have "unat (c div 2) < unat c" by (simp add: unat_div)
  then have "c div 2 < c" by (simp add: word_less_nat_alt)
  with c show ?thesis by (simp add: halve_chunk_def Let_def)
qed

lemma halve_chunk_ge: "kProbeFloor \<le> halve_chunk c"
  by (auto simp: halve_chunk_def Let_def not_less)

function probe_loop :: "'s transport \<Rightarrow> u32 \<Rightarrow> nat \<Rightarrow> u32 \<Rightarrow> 's \<Rightarrow> u32 result \<times> 's" where
  "probe_loop tp probe_address timeout candidate s =
     (case read_memory_by_address tp s probe_address candidate timeout of
        (Inr _, s1) \<Rightarrow> (Inr candidate, s1)
      | (Inl e, s1) \<Rightarrow>
          (case classify_chunk_failure e of
             Unrecoverable \<Rightarrow>
               (failure (err_code e) (''flash: probe_max_chunk at '' @ hex_addr probe_address @
                  '': '' @ err_message e), s1)
           | _ \<Rightarrow>
               if candidate \<le> kProbeFloor then
                 (failure (err_code e) (''flash: probe_max_chunk: even '' @
                    to_string_u32 kProbeFloor @ '' B failed at '' @ hex_addr probe_address @
                    '': '' @ err_message e), s1)
               else probe_loop tp probe_address timeout (halve_chunk candidate) s1))"
  by pat_completeness auto
termination
  by (relation "measure (\<lambda>(tp, a, to, c, s). unat c)")
     (auto simp: word_less_nat_alt [symmetric] not_le intro: halve_chunk_decreases)

declare probe_loop.simps [simp del]

definition probe_max_chunk ::
    "'s transport \<Rightarrow> 's \<Rightarrow> u32 \<Rightarrow> u32 \<Rightarrow> nat \<Rightarrow> u32 result \<times> 's" where
  "probe_max_chunk tp s probe_address hint_max timeout =
     (if hint_max = 0 then
        (failure InvalidArgument ''flash: probe_max_chunk hint_max must be > 0'', s)
      else probe_loop tp probe_address timeout
             (if hint_max < kProbeFloor then kProbeFloor else hint_max) s)"

section \<open>The dump loop\<close>

record 's rd =
  rd_wire :: 's
  rd_polls :: nat
  rd_progress :: "(u32 \<times> u32) list"
  rd_audit :: audit_log

record dump =
  d_cursor :: u32
  d_remaining :: u32
  d_chunk :: u32
  d_halved :: bool
  d_out :: bytes

definition report_progress :: "u32 \<Rightarrow> u32 \<Rightarrow> 's rd \<Rightarrow> 's rd" where
  "report_progress done_bytes total_length rd =
     rd\<lparr>rd_progress := rd_progress rd @ [(done_bytes, total_length)]\<rparr>"

text \<open>A chunk arrived: append it, move on and report.\<close>

definition dump_accept :: "u32 \<Rightarrow> u32 \<Rightarrow> bytes \<Rightarrow> dump \<Rightarrow> 's rd \<Rightarrow> dump \<times> 's rd" where
  "dump_accept total_length this_chunk data d rd =
     (let remaining = d_remaining d - this_chunk in
      (d\<lparr>d_out := d_out d @ data, d_cursor := d_cursor d + this_chunk, d_remaining := remaining\<rparr>,
       report_progress (total_length - remaining) total_length rd))"

definition next_chunk :: "dump \<Rightarrow> u32" where
  "next_chunk d = (if d_remaining d < d_chunk d then d_remaining d else d_chunk d)"

text \<open>
  One round of \<open>while (remaining > 0)\<close>: \<open>Inl r\<close> is a \<open>return r\<close>, \<open>Inr d\<close> the end of the round.
\<close>

definition dump_step ::
    "'s transport \<Rightarrow> (nat \<Rightarrow> bool) \<Rightarrow> u32 \<Rightarrow> nat \<Rightarrow> dump \<Rightarrow> 's rd \<Rightarrow> (bytes result + dump) \<times> 's rd" where
  "dump_step tp cancel total_length timeout d rd0 =
     (let cancelled = cancel (rd_polls rd0);
          rd = rd0\<lparr>rd_polls := Suc (rd_polls rd0)\<rparr>;
          cursor = d_cursor d in
      if cancelled then
        (Inl (failure Cancelled (''flash: read_full_rom cancelled at '' @ hex_addr cursor)), rd)
      else
        let this_chunk = next_chunk d in
        (case read_memory_by_address tp (rd_wire rd) cursor this_chunk timeout of
           (Inr chunk, s1) \<Rightarrow>
             let rd1 = rd\<lparr>rd_wire := s1\<rparr> in
             if length chunk \<noteq> unat this_chunk then
               (Inl (failure UnexpectedEof (''flash: short read at '' @ hex_addr cursor @
                  '' (expected '' @ to_string_u32 this_chunk @ '', got '' @
                  dec_string (length chunk) @ '')'')), rd1)
             else apfst Inr (dump_accept total_length this_chunk chunk d rd1)
         | (Inl e, s1) \<Rightarrow>
             let rd1 = rd\<lparr>rd_wire := s1\<rparr>; kind = classify_chunk_failure e in
             if kind = OutOfRangeRead then
               let bytes_done = total_length - d_remaining d in
               if bytes_done > total_length div 2 then
                 (Inl (Inr (d_out d)), report_progress bytes_done bytes_done rd1)
               else
                 (Inl (failure (err_code e) (''flash: read_full_rom: NRC 0x31 too early at '' @
                    hex_addr cursor @ '' (only '' @ to_string_u32 bytes_done @ '' of '' @
                    to_string_u32 total_length @ '' bytes read '' @ em_dash @ '' check base address): '' @
                    err_message e)), rd1)
             else if kind = SilentDrop then
               (case read_memory_by_address tp s1 cursor this_chunk timeout of
                  (Inr retry, s2) \<Rightarrow>
                    let rd2 = rd1\<lparr>rd_wire := s2\<rparr> in
                    if length retry \<noteq> unat this_chunk then
                      (Inl (failure UnexpectedEof (''flash: short read at '' @ hex_addr cursor @
                         '' on retry (expected '' @ to_string_u32 this_chunk @ '', got '' @
                         dec_string (length retry) @ '')'')), rd2)
                    else apfst Inr (dump_accept total_length this_chunk retry d rd2)
                | (Inl e2, s2) \<Rightarrow>
                    let rd2 = rd1\<lparr>rd_wire := s2\<rparr> in
                    if \<not> d_halved d \<and> d_chunk d > kProbeFloor then
                      (Inr (d\<lparr>d_chunk := halve_chunk (d_chunk d), d_halved := True\<rparr>), rd2)
                    else
                      (Inl (failure (err_code e2) (''flash: read_full_rom persistent timeout at '' @
                         hex_addr cursor @ '': '' @ err_message e2)), rd2))
             else if kind = SizeTooBig \<and> \<not> d_halved d \<and> d_chunk d > kProbeFloor then
               (Inr (d\<lparr>d_chunk := halve_chunk (d_chunk d), d_halved := True\<rparr>), rd1)
             else
               (Inl (failure (err_code e) (''flash: read_full_rom failed at '' @
                  hex_addr cursor @ '': '' @ err_message e)), rd1)))"

partial_function (option) dump_loop ::
    "'s transport \<Rightarrow> (nat \<Rightarrow> bool) \<Rightarrow> u32 \<Rightarrow> nat \<Rightarrow> dump \<Rightarrow> 's rd \<Rightarrow> (bytes result \<times> 's rd) option" where
  "dump_loop tp cancel total_length timeout d rd =
     (if d_remaining d > 0 then
        (case dump_step tp cancel total_length timeout d rd of
           (Inl r, rd') \<Rightarrow> Some (r, rd')
         | (Inr d', rd') \<Rightarrow> dump_loop tp cancel total_length timeout d' rd')
      else Some (Inr (d_out d), rd))"

declare dump_loop.simps [code]

section \<open>read_full_rom\<close>

text \<open>The optional SecurityAccess preamble; an empty key function is \<open>None\<close>.\<close>

definition rom_authenticate ::
    "'s transport \<Rightarrow> (bytes \<Rightarrow> bytes result) option \<Rightarrow> u8 \<Rightarrow> nat \<Rightarrow> 's rd \<Rightarrow> status \<times> 's rd" where
  "rom_authenticate tp key_fn security_level timeout rd =
     (case key_fn of
        None \<Rightarrow> (failure InvalidArgument
           (''flash: read_full_rom: authenticate=true but '' @
            ''security_key_fn_ is empty '' @ em_dash @ '' call '' @
            ''Flasher::set_security_key_fn first''), rd)
      | Some kf \<Rightarrow>
          (case security_access_request_seed tp (rd_wire rd) security_level timeout of
             (Inl e, s1) \<Rightarrow>
               (failure (err_code e) (''flash: read_full_rom SecurityAccess requestSeed '' @
                  ''(sub 0x'' @ hex_fixed 2 (unat security_level) @ '') failed: '' @
                  err_message e), rd\<lparr>rd_wire := s1\<rparr>)
           | (Inr seed, s1) \<Rightarrow>
               (case kf seed of
                  Inl e \<Rightarrow>
                    (failure (err_code e) (''flash: read_full_rom SecurityAccess key derivation '' @
                       ''failed: '' @ err_message e), rd\<lparr>rd_wire := s1\<rparr>)
                | Inr key \<Rightarrow>
                    let send_sub = security_level + 1 in
                    (case security_access_send_key tp s1 (rd_audit rd) ''uds'' send_sub key timeout of
                       (Inl e, s2, al) \<Rightarrow>
                         (failure (err_code e) (''flash: read_full_rom SecurityAccess sendKey '' @
                            ''(sub 0x'' @ hex_fixed 2 (unat send_sub) @ '') rejected by ECU: '' @
                            err_message e), rd\<lparr>rd_wire := s2, rd_audit := al\<rparr>)
                     | (Inr u, s2, al) \<Rightarrow> (ok, rd\<lparr>rd_wire := s2, rd_audit := al\<rparr>)))))"

record read_opts =
  ro_max_chunk_size :: u32
  ro_timeout :: nat
  ro_enter_diagnostic_session :: bool
  ro_authenticate :: bool
  ro_security_level :: u8
  ro_auto_probe :: bool

text \<open>The declared default arguments, with the chunk size the caller gives.\<close>

definition default_read_opts :: "u32 \<Rightarrow> read_opts" where
  "default_read_opts chunk =
     \<lparr>ro_max_chunk_size = chunk, ro_timeout = 1000, ro_enter_diagnostic_session = False,
      ro_authenticate = False, ro_security_level = 1, ro_auto_probe = True\<rparr>"

definition rom_enter_session :: "'s transport \<Rightarrow> nat \<Rightarrow> 's rd \<Rightarrow> status \<times> 's rd" where
  "rom_enter_session tp timeout rd =
     (case diagnostic_session_control tp (rd_wire rd) kDscExtendedDiagnostic timeout of
        (Inl e, s1) \<Rightarrow>
          (failure (err_code e) (''flash: read_full_rom session entry failed: '' @ err_message e),
           rd\<lparr>rd_wire := s1\<rparr>)
      | (Inr u, s1) \<Rightarrow> (ok, rd\<lparr>rd_wire := s1\<rparr>))"

definition rom_probe ::
    "'s transport \<Rightarrow> u32 \<Rightarrow> u32 \<Rightarrow> bool \<Rightarrow> u32 \<Rightarrow> nat \<Rightarrow> 's rd \<Rightarrow> u32 result \<times> 's rd" where
  "rom_probe tp base total_length auto_probe max_chunk timeout rd =
     (if auto_probe \<and> total_length > 0 \<and> max_chunk > kProbeFloor then
        (case probe_max_chunk tp (rd_wire rd) base max_chunk timeout of
           (Inl e, s1) \<Rightarrow>
             (failure (err_code e) (''flash: read_full_rom upfront probe failed: '' @ err_message e),
              rd\<lparr>rd_wire := s1\<rparr>)
         | (Inr c, s1) \<Rightarrow> (Inr c, rd\<lparr>rd_wire := s1\<rparr>))
      else (Inr max_chunk, rd))"

definition read_full_rom ::
    "'s transport \<Rightarrow> (bytes \<Rightarrow> bytes result) option \<Rightarrow> (nat \<Rightarrow> bool) \<Rightarrow> read_opts \<Rightarrow>
     u32 \<Rightarrow> u32 \<Rightarrow> 's rd \<Rightarrow> (bytes result \<times> 's rd) option" where
  "read_full_rom tp key_fn cancel opts base total_length rd =
     (if total_length = 0 then Some (Inr [], report_progress 0 0 rd)
      else if ro_max_chunk_size opts = 0 then
        Some (failure InvalidArgument ''flash: read_full_rom max_chunk_size must be > 0'', rd)
      else
        (case (if ro_enter_diagnostic_session opts then rom_enter_session tp (ro_timeout opts) rd
               else (ok, rd)) of
           (Inl e, rd1) \<Rightarrow> Some (Inl e, rd1)
         | (Inr _, rd1) \<Rightarrow>
             (case (if ro_authenticate opts
                    then rom_authenticate tp key_fn (ro_security_level opts) (ro_timeout opts) rd1
                    else (ok, rd1)) of
                (Inl e, rd2) \<Rightarrow> Some (Inl e, rd2)
              | (Inr _, rd2) \<Rightarrow>
                  (case rom_probe tp base total_length (ro_auto_probe opts) (ro_max_chunk_size opts)
                          (ro_timeout opts) rd2 of
                     (Inl e, rd3) \<Rightarrow> Some (Inl e, rd3)
                   | (Inr effective_chunk, rd3) \<Rightarrow>
                       dump_loop tp cancel total_length (ro_timeout opts)
                         \<lparr>d_cursor = base, d_remaining = total_length, d_chunk = effective_chunk,
                          d_halved = False, d_out = []\<rparr>
                         (report_progress 0 total_length rd3)))))"


section \<open>The negative response code survives the error text\<close>

lemma hex_digit_value_upper [simp]: "n < 16 \<Longrightarrow> hex_digit_value (hex_digit_upper n) = Some n"
  by (auto simp: hex_digit_value_def hex_digit_upper_def Let_def)

lemma hex_fixed_2: "hex_fixed 2 n = [hex_digit_upper (n div 16 mod 16), hex_digit_upper (n mod 16)]"
  by (simp add: numeral_2_eq_2)

lemma nibbles_of_u8: "push_bit 4 (of_nat (unat b div 16)) OR of_nat (unat b mod 16) = (b :: u8)"
proof (rule bit_word_eqI)
  fix n assume "n < LENGTH(8)"
  then have n: "n < 8" by simp
  have hi: "unat b div 16 = unat (drop_bit 4 b)" by (simp add: drop_bit_eq_div unat_div)
  have lo: "unat b mod 16 = unat (take_bit 4 b)" by (simp add: take_bit_eq_mod unat_mod)
  show "bit (push_bit 4 (of_nat (unat b div 16)) OR of_nat (unat b mod 16) :: u8) n = bit b n"
    unfolding hi lo using n
    by (auto simp: bit_or_iff bit_push_bit_iff bit_drop_bit_eq bit_take_bit_iff)
qed

lemma extract_nrc_message: "extract_nrc (''UDS NRC='' @ hex_byte b @ rest) = b"
proof -
  have "unat b div 16 < 16" using unat_u8_less [of b] by arith
  then have "extract_nrc (''UDS NRC='' @ hex_byte b @ rest) =
        push_bit 4 (of_nat (unat b div 16)) OR of_nat (unat b mod 16)"
    by (simp add: extract_nrc_def hex_byte_def hex_fixed_2)
  then show ?thesis by (simp only: nibbles_of_u8)
qed


text \<open>A negative response to a memory read reaches the read loop classified by its code: whatever
  the code byte, the error the parser builds carries it in its text, and \<open>0x13\<close>/\<open>0x14\<close> are
  taken as too large a request, \<open>0x31\<close> as out of range, everything else as unrecoverable.\<close>

theorem negative_read_response_classified:
  "parse_read_memory_by_address_response [kNegativeResponse, kSidReadMemoryByAddress, nrc] = Inl e \<and>
   classify_chunk_failure e = kind \<longleftrightarrow>
   e = \<lparr>err_code = EcuRejected, err_message = ''UDS NRC='' @ hex_byte nrc\<rparr> \<and>
   kind = (if nrc = 0x13 \<or> nrc = 0x14 then SizeTooBig
           else if nrc = 0x31 then OutOfRangeRead else Unrecoverable)"
proof -
  have "extract_nrc (''UDS NRC='' @ hex_byte nrc) = nrc"
    using extract_nrc_message [of nrc "[]"] by simp
  then show ?thesis
    by (auto simp: parse_read_memory_by_address_response_def reject_if_negative_def
        classify_chunk_failure_def Let_def)
qed

section \<open>The probe\<close>

lemma probe_loop_result:
  "probe_loop tp a to c s = (Inr c', s') \<Longrightarrow> kProbeFloor \<le> c \<Longrightarrow> kProbeFloor \<le> c' \<and> c' \<le> c"
proof (induction tp a to c s rule: probe_loop.induct)
  case (1 tp a to c s)
  obtain r s1 where rd: "read_memory_by_address tp s a c to = (r, s1)" by fastforce
  show ?case
  proof (cases r)
    case (Inr x)
    with "1.prems" rd show ?thesis by (simp add: probe_loop.simps [of tp a to c s])
  next
    case (Inl e)
    show ?thesis
    proof (cases "classify_chunk_failure e = Unrecoverable \<or> c \<le> kProbeFloor")
      case True
      with "1.prems"(1) rd Inl show ?thesis
        by (auto simp: probe_loop.simps [of tp a to c s] split: chunk_failure_kind.splits if_splits)
    next
      case False
      then have step: "probe_loop tp a to c s = probe_loop tp a to (halve_chunk c) s1"
        using rd Inl
        by (auto simp: probe_loop.simps [of tp a to c s] split: chunk_failure_kind.splits)
      have le: "halve_chunk c < c" using False by (simp add: halve_chunk_decreases not_le)
      have "kProbeFloor \<le> c' \<and> c' \<le> halve_chunk c"
        using "1.IH" rd Inl False step "1.prems"(1) halve_chunk_ge
        by (cases "classify_chunk_failure e") auto
      with le show ?thesis by auto
    qed
  qed
qed

lemma probe_max_chunk_result:
  "probe_max_chunk tp s a hint to = (Inr c, s') \<Longrightarrow>
     hint \<noteq> 0 \<and> kProbeFloor \<le> c \<and> c \<le> max kProbeFloor hint"
  by (auto simp: probe_max_chunk_def max_def not_less split: if_splits dest!: probe_loop_result)

section \<open>Termination of the dump\<close>

text \<open>The measure: bytes still to read, then whether the one halving is still available.\<close>

definition dump_measure :: "dump \<Rightarrow> nat" where
  "dump_measure d = 2 * unat (d_remaining d) + (if d_halved d then 0 else 1)"

text \<open>What a round can do.\<close>

lemma dump_step_cases:
  fixes rd rd' :: "'s rd"
  assumes "dump_step tp cancel t to d rd = (x, rd')"
  obtains
    (accept) s data s' d' and rd1 rd2 :: "'s rd" where
      "read_memory_by_address tp s (d_cursor d) (next_chunk d) to = (Inr data, s')"
      "length data = unat (next_chunk d)" "x = Inr d'"
      "dump_accept t (next_chunk d) data d rd1 = (d', rd2)"
  | (halve) "x = Inr (d\<lparr>d_chunk := halve_chunk (d_chunk d), d_halved := True\<rparr>)" "\<not> d_halved d"
  | (end_of_range) "x = Inl (Inr (d_out d))" "t div 2 < t - d_remaining d"
  | (fail) e where "x = Inl (Inl e)"
proof (cases "read_memory_by_address tp (rd_wire rd) (d_cursor d) (next_chunk d) to")
  case (Pair r s1)
  show ?thesis
  proof (cases r)
    case (Inr data)
    with Pair assms show ?thesis
      by (auto simp: dump_step_def Let_def apfst_def map_prod_def failure_def
          split: if_splits prod.splits intro: accept fail)
  next
    case (Inl e)
    with Pair assms show ?thesis
      by (auto simp: dump_step_def Let_def apfst_def map_prod_def failure_def
          split: if_splits prod.splits sum.splits intro: accept halve end_of_range fail)
  qed
qed

lemma next_chunk_bounds:
  "next_chunk d \<le> d_remaining d"
  "0 < d_chunk d \<Longrightarrow> 0 < d_remaining d \<Longrightarrow> 0 < next_chunk d"
  by (auto simp: next_chunk_def)

lemma unat_pos_iff: "0 < unat (w :: u32) \<longleftrightarrow> 0 < w"
  by (simp add: word_less_nat_alt)

lemma halve_chunk_pos: "0 < halve_chunk c"
  using halve_chunk_ge [of c] by (cases "halve_chunk c = 0") (auto simp: word_gt_0)

lemma dump_accept_remaining:
  assumes "n \<le> d_remaining d"
  shows "unat (d_remaining (fst (dump_accept t n data d rd))) = unat (d_remaining d) - unat n"
  using assms by (simp add: dump_accept_def Let_def unat_sub)

lemma dump_accept_same [simp]:
  "d_chunk (fst (dump_accept t n data d rd)) = d_chunk d"
  "d_halved (fst (dump_accept t n data d rd)) = d_halved d"
  by (simp_all add: dump_accept_def Let_def)

lemma dump_step_decreases:
  assumes "dump_step tp cancel t to d rd = (Inr d', rd')" "0 < d_chunk d" "0 < d_remaining d"
  shows "dump_measure d' < dump_measure d \<and> 0 < d_chunk d'"
  using assms(1)
proof (cases rule: dump_step_cases)
  case (accept s data s' d'' rd1 rd2)
  then have d': "d' = fst (dump_accept t (next_chunk d) data d rd1)" by simp
  have "0 < unat (next_chunk d)" "unat (next_chunk d) \<le> unat (d_remaining d)"
    using next_chunk_bounds [of d] assms(2,3) by (simp_all add: unat_pos_iff word_le_nat_alt)
  moreover have "unat (d_remaining d') = unat (d_remaining d) - unat (next_chunk d)"
    unfolding d' by (rule dump_accept_remaining [OF next_chunk_bounds(1)])
  ultimately show ?thesis using assms(2) by (auto simp: dump_measure_def d')
next
  case halve
  then show ?thesis by (simp add: dump_measure_def halve_chunk_pos)
qed simp_all

lemma dump_loop_returns:
  "0 < d_chunk d \<Longrightarrow> \<exists>r rd'. dump_loop tp cancel t to d rd = Some (r, rd')"
proof (induction "dump_measure d" arbitrary: d rd rule: less_induct)
  case less
  show ?case
  proof (cases "0 < d_remaining d")
    case False
    then show ?thesis by (simp add: dump_loop.simps [of tp cancel t to d rd])
  next
    case rem: True
    obtain x rd1 where st: "dump_step tp cancel t to d rd = (x, rd1)" by fastforce
    show ?thesis
    proof (cases x)
      case (Inl r)
      with st rem show ?thesis by (simp add: dump_loop.simps [of tp cancel t to d rd])
    next
      case (Inr d')
      with st have "dump_measure d' < dump_measure d" "0 < d_chunk d'"
        using dump_step_decreases less.prems rem by blast+
      then obtain r rd' where "dump_loop tp cancel t to d' rd1 = Some (r, rd')"
        using less.hyps by blast
      with st rem Inr show ?thesis by (simp add: dump_loop.simps [of tp cancel t to d rd])
    qed
  qed
qed

lemma rom_probe_chunk_pos:
  "rom_probe tp base t ap mc to rd = (Inr c, rd') \<Longrightarrow> mc \<noteq> 0 \<Longrightarrow> 0 < c"
  by (auto simp: rom_probe_def word_gt_0 split: if_splits prod.splits sum.splits
      dest!: probe_max_chunk_result)

lemma read_full_rom_returns:
  "\<exists>r rd'. read_full_rom tp key_fn cancel opts base t rd = Some (r, rd')"
  by (auto simp: read_full_rom_def split: prod.splits sum.splits
      dest!: rom_probe_chunk_pos intro!: dump_loop_returns)

text \<open>Reading a ROM always ends: for every transport, every cancel flag, every key function and
  every choice of options, \<open>read_full_rom\<close> returns a result (the dump loop cannot spin).\<close>

theorem read_full_rom_terminates:
  "\<exists>r rd'. read_full_rom tp key_fn cancel opts base t rd = Some (r, rd')"
  by (rule read_full_rom_returns)

section \<open>What the dump returns\<close>

definition mem_slice :: "(u32 \<Rightarrow> u8) \<Rightarrow> u32 \<Rightarrow> nat \<Rightarrow> bytes" where
  "mem_slice mem a n = map (\<lambda>i. mem (a + of_nat i)) [0..<n]"

lemma length_mem_slice [simp]: "length (mem_slice mem a n) = n"
  by (simp add: mem_slice_def)

lemma mem_slice_append: "mem_slice mem a m @ mem_slice mem (a + of_nat m) n = mem_slice mem a (m + n)"
proof -
  have "mem_slice mem (a + of_nat m) n = map (\<lambda>i. mem (a + of_nat i)) [m..<m + n]"
    by (rule nth_equalityI) (simp_all add: mem_slice_def add.assoc)
  then show ?thesis
    by (simp add: mem_slice_def upt_add_eq_append [of 0 m n, simplified] flip: map_append)
qed

definition is_slice :: "(u32 \<Rightarrow> u8) \<Rightarrow> u32 \<Rightarrow> bytes \<Rightarrow> bool" where
  "is_slice mem a bs \<longleftrightarrow> bs = mem_slice mem a (length bs)"

lemma is_slice_Nil [simp]: "is_slice mem a []"
  by (simp add: is_slice_def mem_slice_def)

lemma is_slice_append:
  "is_slice mem a xs \<Longrightarrow> is_slice mem (a + of_nat (length xs)) ys \<Longrightarrow> is_slice mem a (xs @ ys)"
  unfolding is_slice_def by (metis length_append mem_slice_append)

text \<open>
  An ECU whose memory does not change while it is read: the bytes of a positive
  ReadMemoryByAddress response are memory from the requested address on.
\<close>

definition serves_memory :: "'s transport \<Rightarrow> (u32 \<Rightarrow> u8) \<Rightarrow> bool" where
  "serves_memory tp mem \<longleftrightarrow>
     (\<forall>s a n to data s'. read_memory_by_address tp s a n to = (Inr data, s') \<longrightarrow>
        is_slice mem a data)"

lemma serves_memoryD:
  "serves_memory tp mem \<Longrightarrow> read_memory_by_address tp s a n to = (Inr data, s') \<Longrightarrow>
     is_slice mem a data"
  unfolding serves_memory_def by blast

definition dump_inv :: "(u32 \<Rightarrow> u8) \<Rightarrow> u32 \<Rightarrow> u32 \<Rightarrow> dump \<Rightarrow> bool" where
  "dump_inv mem base t d \<longleftrightarrow>
     length (d_out d) + unat (d_remaining d) = unat t \<and>
     d_cursor d = base + of_nat (length (d_out d)) \<and>
     is_slice mem base (d_out d)"

text \<open>The shape of a successful result: the whole range, or a prefix past the half.\<close>

definition dump_result_ok :: "(u32 \<Rightarrow> u8) \<Rightarrow> u32 \<Rightarrow> u32 \<Rightarrow> bytes \<Rightarrow> bool" where
  "dump_result_ok mem base t out \<longleftrightarrow>
     is_slice mem base out \<and>
     length out \<le> unat t \<and> (length out = unat t \<or> unat t div 2 < length out)"

lemma dump_accept_inv:
  assumes "dump_inv mem base t d" "n \<le> d_remaining d" "length data = unat n"
    and "is_slice mem (d_cursor d) data"
  shows "dump_inv mem base t (fst (dump_accept t n data d rd))"
proof -
  have "unat n \<le> unat (d_remaining d)" using assms(2) by (simp add: word_le_nat_alt)
  moreover have "is_slice mem base (d_out d @ data)"
    using assms(1,4) by (auto simp: dump_inv_def intro: is_slice_append)
  ultimately show ?thesis
    using assms(1-3) by (simp add: dump_inv_def dump_accept_def Let_def unat_sub)
qed

lemma dump_step_inv:
  assumes "serves_memory tp mem" "dump_inv mem base t d"
    and "dump_step tp cancel t to d rd = (x, rd')"
  shows "case x of Inr d' \<Rightarrow> dump_inv mem base t d'
         | Inl (Inr out) \<Rightarrow> dump_result_ok mem base t out
         | Inl (Inl e) \<Rightarrow> True"
  using assms(3)
proof (cases rule: dump_step_cases)
  case (accept s data s' d' rd1 rd2)
  have "dump_inv mem base t (fst (dump_accept t (next_chunk d) data d rd1))"
    using dump_accept_inv [OF assms(2) next_chunk_bounds(1) accept(2)]
      serves_memoryD [OF assms(1) accept(1)] by blast
  with accept show ?thesis by simp
next
  case halve
  with assms(2) show ?thesis by (simp add: dump_inv_def)
next
  case end_of_range
  have "unat (t - d_remaining d) = length (d_out d)"
    using assms(2) by (auto simp: dump_inv_def unat_sub word_le_nat_alt)
  with end_of_range assms(2) show ?thesis
    by (auto simp: dump_inv_def dump_result_ok_def word_less_nat_alt unat_div)
next
  case (fail e)
  then show ?thesis by simp
qed


lemma dump_loop_result:
  assumes "serves_memory tp mem"
  shows "dump_inv mem base t d \<Longrightarrow> 0 < d_chunk d \<Longrightarrow>
     dump_loop tp cancel t to d rd = Some (Inr out, rd') \<Longrightarrow> dump_result_ok mem base t out"
proof (induction "dump_measure d" arbitrary: d rd rule: less_induct)
  case less
  show ?case
  proof (cases "0 < d_remaining d")
    case False
    then have "unat (d_remaining d) = 0" using unat_pos_iff [of "d_remaining d"] by simp
    with False less.prems(1,3) show ?thesis
      by (auto simp: dump_loop.simps [of tp cancel t to d rd] dump_inv_def dump_result_ok_def)
  next
    case rem: True
    obtain x rd1 where st: "dump_step tp cancel t to d rd = (x, rd1)" by fastforce
    note inv = dump_step_inv [OF assms less.prems(1) st]
    show ?thesis
    proof (cases x)
      case (Inl r)
      with st rem less.prems(3) inv show ?thesis
        by (simp add: dump_loop.simps [of tp cancel t to d rd])
    next
      case (Inr d')
      with st rem less.prems(3) have "dump_loop tp cancel t to d' rd1 = Some (Inr out, rd')"
        by (simp add: dump_loop.simps [of tp cancel t to d rd])
      moreover have "dump_measure d' < dump_measure d" "0 < d_chunk d'"
        using dump_step_decreases st rem less.prems(2) Inr by blast+
      ultimately show ?thesis using less.hyps inv Inr by simp
    qed
  qed
qed

lemma dump_inv_initial:
  "dump_inv mem base t
     \<lparr>d_cursor = base, d_remaining = t, d_chunk = c, d_halved = False, d_out = []\<rparr>"
  by (simp add: dump_inv_def)

lemma read_full_rom_dumps:
  assumes "read_full_rom tp key_fn cancel opts base t rd = Some (Inr out, rd')" "t \<noteq> 0"
  shows "\<exists>c rd1. 0 < c \<and> dump_loop tp cancel t (ro_timeout opts)
           \<lparr>d_cursor = base, d_remaining = t, d_chunk = c, d_halved = False, d_out = []\<rparr> rd1 =
         Some (Inr out, rd')"
proof -
  have mc: "ro_max_chunk_size opts \<noteq> 0"
    using assms by (auto simp: read_full_rom_def split: if_splits)
  define ses where "ses = (if ro_enter_diagnostic_session opts
    then rom_enter_session tp (ro_timeout opts) rd else (ok, rd))"
  obtain r1 rd1 where s1: "ses = (r1, rd1)" by fastforce
  define au where "au = (if ro_authenticate opts
    then rom_authenticate tp key_fn (ro_security_level opts) (ro_timeout opts) rd1 else (ok, rd1))"
  obtain r2 rd2 where s2: "au = (r2, rd2)" by fastforce
  obtain r3 rd3 where s3: "rom_probe tp base t (ro_auto_probe opts) (ro_max_chunk_size opts)
      (ro_timeout opts) rd2 = (r3, rd3)" by fastforce
  note eq = assms(1) [unfolded read_full_rom_def, folded ses_def, unfolded s1, simplified assms(2) mc,
      simplified]
  obtain u1 where "r1 = Inr u1" using eq by (cases r1) auto
  note eq = eq [unfolded this, simplified, folded au_def, unfolded s2, simplified]
  obtain u2 where "r2 = Inr u2" using eq by (cases r2) auto
  note eq = eq [unfolded this, simplified, unfolded s3, simplified]
  obtain c where c: "r3 = Inr c" using eq by (cases r3) auto
  with s3 mc have "0 < c" using rom_probe_chunk_pos by blast
  with eq c show ?thesis by auto
qed

text \<open>C9: What \<open>read_full_rom\<close> returns is the ECU's memory. If positive ReadMemoryByAddress
  responses carry the memory at the requested address, then a successful read of \<open>t\<close> bytes at
  \<open>base\<close> is the memory from \<open>base\<close> on, through every retry, halving and chunk boundary (no byte
  duplicated, skipped or reordered); it is complete unless the ECU ended the range past the half.\<close>

theorem read_full_rom_correct:
  assumes "serves_memory tp mem"
    and "read_full_rom tp key_fn cancel opts base t rd = Some (Inr out, rd')"
  shows "out = map (\<lambda>i. mem (base + of_nat i)) [0..<length out] \<and>
         (length out = unat t \<or> unat t div 2 < length out \<and> length out < unat t)"
proof -
  have "dump_result_ok mem base t out"
  proof (cases "t = 0")
    case True
    with assms(2) show ?thesis by (simp add: read_full_rom_def dump_result_ok_def)
  next
    case False
    from read_full_rom_dumps [OF assms(2) False] show ?thesis
      by (auto intro: dump_loop_result [OF assms(1) dump_inv_initial])
  qed
  then have "is_slice mem base out"
    and len: "length out = unat t \<or> unat t div 2 < length out \<and> length out < unat t"
    by (auto simp: dump_result_ok_def)
  then have "out = map (\<lambda>i. mem (base + of_nat i)) [0..<length out]"
    unfolding is_slice_def mem_slice_def by blast
  with len show ?thesis by blast
qed

text \<open>A concrete ECU for the witness: memory is the low address byte, sizes below 256.\<close>

definition ramp_ecu :: "unit transport" where
  "ramp_ecu = \<lparr>tp_send_recv = (\<lambda>s req to.
       (Inr (0x63 # map (\<lambda>i. req ! 5 + of_nat i) [0..<unat (req ! 6)]), s)),
     tp_send_recv_to = (\<lambda>s i req to. (failure TransportTimeout [], s))\<rparr>"

lemma ramp_ecu_serves: "serves_memory ramp_ecu (\<lambda>a. ucast a)"
proof -
  have idx: "build_read_memory_by_address a n ! 5 = ucast a" for a n
    by (simp add: build_read_memory_by_address_def Let_def nth_Cons')
  have ucast_add: "(ucast a + of_nat i :: u8) = ucast (a + of_nat i :: u32)" for a :: u32 and i
  proof -
    have "(unat a + i) mod 2 ^ 32 mod 2 ^ 8 = (unat a + i) mod 2 ^ 8"
      by (rule mod_mod_cancel) simp
    then have "of_nat (unat a + i) = (of_nat ((unat a + i) mod 2 ^ 32) :: u8)"
      by (simp only: word_of_nat_eq_iff take_bit_eq_mod len_num1 len_bit0) simp
    moreover have "unat (a + of_nat i) = (unat a + i) mod 2 ^ 32"
      by (simp add: unat_word_ariths unat_of_nat take_bit_eq_mod mod_simps)
    moreover have "ucast a + of_nat i = (of_nat (unat a + i) :: u8)" by simp
    ultimately have "ucast a + of_nat i = (of_nat (unat (a + of_nat i)) :: u8)" by (simp only:)
    also have "\<dots> = ucast (a + of_nat i)" by simp
    finally show ?thesis .
  qed
  show ?thesis
    by (auto simp: serves_memory_def read_memory_by_address_def uds_call_def ramp_ecu_def
        parse_read_memory_by_address_response_def reject_if_negative_def idx ucast_add
        is_slice_def mem_slice_def)
qed

lemma ramp_ecu_read:
  "read_full_rom ramp_ecu None (\<lambda>_. False) (default_read_opts 2) 0x10 5
     \<lparr>rd_wire = (), rd_polls = 0, rd_progress = [], rd_audit = None\<rparr> =
   Some (Inr [0x10, 0x11, 0x12, 0x13, 0x14],
     \<lparr>rd_wire = (), rd_polls = 3, rd_progress = [(0, 5), (2, 5), (4, 5), (5, 5)], rd_audit = None\<rparr>)"
  by code_simp

theorem read_full_rom_correct_witness:
  "[0x10, 0x11, 0x12, 0x13, 0x14] = map (\<lambda>i. ucast (0x10 + of_nat i :: u32) :: u8) [0..<5]"
  using read_full_rom_correct [OF ramp_ecu_serves ramp_ecu_read] by (simp add: eval_nat_numeral)

end
