(* ===== verification/Flash_Plan.thy ===== *)
theory Flash_Plan
  imports Uds_Client
begin

text \<open>
  The data of the flash path (src/flash/include/st/flash.hpp): sectors, sector layouts, the
  \<open>FlashPlan\<close>, the per-sector outcomes and the report; and the pure helpers of
  src/flash/src/flash.cpp: the delta computations, the hexadecimal payload text of plan files,
  the erase option record and the block size choice. \<open>size_t\<close> values are naturals.
\<close>

section \<open>Data\<close>

record sector =
  sec_address :: u32
  sec_length :: u32

abbreviation Sector :: "u32 \<Rightarrow> u32 \<Rightarrow> sector" where
  "Sector a l \<equiv> \<lparr>sec_address = a, sec_length = l\<rparr>"

record sector_write =
  sw_sector :: sector
  sw_data :: bytes

definition kFaDitSh2a2Mb :: "sector list" where
  "kFaDitSh2a2Mb =
    [Sector 0x006000 0x002000, Sector 0x008000 0x002000, Sector 0x00A000 0x002000,
     Sector 0x00C000 0x002000, Sector 0x00E000 0x002000,
     Sector 0x010000 0x010000, Sector 0x020000 0x010000, Sector 0x030000 0x010000,
     Sector 0x040000 0x010000, Sector 0x050000 0x010000, Sector 0x060000 0x010000,
     Sector 0x070000 0x010000, Sector 0x080000 0x010000, Sector 0x090000 0x010000,
     Sector 0x0A0000 0x020000, Sector 0x0C0000 0x020000, Sector 0x0E0000 0x020000,
     Sector 0x100000 0x020000, Sector 0x120000 0x020000, Sector 0x140000 0x020000,
     Sector 0x160000 0x020000, Sector 0x180000 0x020000, Sector 0x1A0000 0x020000,
     Sector 0x1C0000 0x020000, Sector 0x1E0000 0x020000]"

record delta_summary =
  ds_sectors :: "sector list"
  ds_gap_bytes_changed :: nat

record flash_plan =
  fp_session :: u8
  fp_data_format :: u8
  fp_dry_run :: bool
  fp_verify_after_write :: bool
  fp_silence_bus :: bool
  fp_block_size_hint :: u32
  fp_verify_chunk_size :: u32
  fp_journal_path :: string
  fp_writes :: "sector_write list"
  fp_integrity_check_offset :: "u32 option"

definition default_plan :: flash_plan where
  "default_plan =
     \<lparr>fp_session = kDscProgramming, fp_data_format = 0x00, fp_dry_run = False,
      fp_verify_after_write = True, fp_silence_bus = True, fp_block_size_hint = 0,
      fp_verify_chunk_size = 0x100, fp_journal_path = [], fp_writes = [],
      fp_integrity_check_offset = None\<rparr>"

abbreviation "kDataFormatSubaruCiphertext \<equiv> (0x04 :: u8)"

record sector_outcome =
  so_sector :: sector
  so_erased :: bool
  so_downloaded :: bool
  so_transferred :: bool
  so_exited :: bool
  so_check_deps_passed :: bool
  so_verified :: bool

text \<open>\<open>SectorOutcome{sector}\<close>: the member initialisers leave \<open>verified\<close> true.\<close>

definition fresh_outcome :: "sector \<Rightarrow> sector_outcome" where
  "fresh_outcome sec =
     \<lparr>so_sector = sec, so_erased = False, so_downloaded = False, so_transferred = False,
      so_exited = False, so_check_deps_passed = False, so_verified = True\<rparr>"

record flash_report =
  fr_entered_session :: bool
  fr_silenced_bus :: bool
  fr_restored_bus :: bool
  fr_sectors :: "sector_outcome list"
  fr_bytes_transferred :: nat

definition empty_report :: flash_report where
  "empty_report = \<lparr>fr_entered_session = False, fr_silenced_bus = False, fr_restored_bus = False,
                   fr_sectors = [], fr_bytes_transferred = 0\<rparr>"

definition outcome_completed :: "sector_outcome \<Rightarrow> bool" where
  "outcome_completed s \<longleftrightarrow>
     \<not> (\<not> so_erased s \<or> \<not> so_downloaded s \<or> \<not> so_transferred s \<or> \<not> so_exited s \<or>
        \<not> so_check_deps_passed s)"

definition all_sectors_completed :: "flash_report \<Rightarrow> bool" where
  "all_sectors_completed r \<longleftrightarrow>
     (if fr_sectors r = [] then False else list_all outcome_completed (fr_sectors r))"

definition all_sectors_verified :: "flash_report \<Rightarrow> bool" where
  "all_sectors_verified r \<longleftrightarrow> list_all so_verified (fr_sectors r)"

section \<open>Request helpers\<close>

definition build_erase_option_record :: "u32 \<Rightarrow> u32 \<Rightarrow> bytes" where
  "build_erase_option_record addr len =
     [0x44, byte_at 24 addr, byte_at 16 addr, byte_at 8 addr, byte_at 0 addr,
      byte_at 24 len, byte_at 16 len, byte_at 8 len, byte_at 0 len]"

definition choose_block_payload :: "u32 \<Rightarrow> u32 \<Rightarrow> u32" where
  "choose_block_payload reported_max hint =
     (let safe_reported = (if reported_max > 2 then reported_max - 2 else 0) in
      if hint = 0 then safe_reported
      else if safe_reported = 0 then hint
      else if safe_reported < hint then safe_reported else hint)"

section \<open>compute_delta\<close>

text \<open>The inner scan of one window, with its \<open>break\<close>.\<close>

definition window_differs :: "bytes \<Rightarrow> bytes \<Rightarrow> nat \<Rightarrow> nat \<Rightarrow> bool" where
  "window_differs current target off end_off =
     list_ex (\<lambda>i. current ! i \<noteq> target ! i) [off ..< end_off]"

function delta_loop ::
    "bytes \<Rightarrow> bytes \<Rightarrow> nat \<Rightarrow> nat \<Rightarrow> u32 \<Rightarrow> nat \<Rightarrow> sector list" where
  "delta_loop current target sector_size n base_address off =
     (if off < n \<and> sector_size \<noteq> 0 then
        let end_off = min (off + sector_size) n;
            rest = delta_loop current target sector_size n base_address (off + sector_size) in
        if window_differs current target off end_off then
          Sector (base_address + of_nat off) (of_nat (end_off - off)) # rest
        else rest
      else [])"
  by pat_completeness auto

termination
  by (relation "measure (\<lambda>(c, t, ss, n, b, off). n - off)") auto

declare delta_loop.simps [simp del]

definition compute_delta :: "bytes \<Rightarrow> bytes \<Rightarrow> u32 \<Rightarrow> u32 \<Rightarrow> sector list" where
  "compute_delta current target sector_size base_address =
     (if sector_size = 0 then []
      else let n = min (length current) (length target) in
        delta_loop current target (unat sector_size) n base_address 0)"

section \<open>compute_delta_layout\<close>

definition sector_covers :: "sector \<Rightarrow> nat \<Rightarrow> bool" where
  "sector_covers sec i \<longleftrightarrow> i \<ge> unat (sec_address sec) \<and> i < unat (sec_address sec) + unat (sec_length sec)"

text \<open>The search for the first layout sector holding offset \<open>i\<close>.\<close>

fun first_covering :: "sector list \<Rightarrow> nat \<Rightarrow> nat option" where
  "first_covering [] i = None"
| "first_covering (sec # layout) i =
     (if sector_covers sec i then Some 0 else map_option Suc (first_covering layout i))"

definition layout_scan_byte ::
    "bytes \<Rightarrow> bytes \<Rightarrow> sector list \<Rightarrow> nat \<Rightarrow> bool list \<times> nat \<Rightarrow> bool list \<times> nat" where
  "layout_scan_byte current target layout i st =
     (case st of (sector_hit, gap) \<Rightarrow>
        if current ! i = target ! i then (sector_hit, gap)
        else case first_covering layout i of
          Some s \<Rightarrow> (sector_hit[s := True], gap)
        | None \<Rightarrow> (sector_hit, gap + 1))"

definition compute_delta_layout :: "bytes \<Rightarrow> bytes \<Rightarrow> sector list \<Rightarrow> delta_summary" where
  "compute_delta_layout current target layout =
     (let n = min (length current) (length target);
          (sector_hit, gap) = fold (layout_scan_byte current target layout) [0..<n]
                                (replicate (length layout) False, 0) in
      \<lparr>ds_sectors = [layout ! s. s \<leftarrow> [0..<length layout], sector_hit ! s],
       ds_gap_bytes_changed = gap\<rparr>)"

section \<open>Hexadecimal payload text\<close>

text \<open>\<open>std::isspace\<close> in the C locale.\<close>

definition is_space :: "char \<Rightarrow> bool" where
  "is_space c = (let n = of_char c :: nat in n = 32 \<or> (9 \<le> n \<and> n \<le> 13))"

definition hex_value :: "char \<Rightarrow> nat option" where
  "hex_value c =
     (let n = of_char c :: nat in
      if 48 \<le> n \<and> n \<le> 57 then Some (n - 48)
      else if 97 \<le> n \<and> n \<le> 102 then Some (n - 87)
      else if 65 \<le> n \<and> n \<le> 70 then Some (n - 55)
      else None)"

text \<open>
  The position \<open>i\<close> and the text from there on. \<open>is_hex\<close> is \<open>hex_value c \<noteq> None\<close>; on two such
  digits \<open>from_chars\<close> in base 16 succeeds with their value.
\<close>

function parse_hex_loop :: "nat \<Rightarrow> string \<Rightarrow> bytes \<Rightarrow> bytes result" where
  "parse_hex_loop i s out =
     (if s = [] then Inr out
      else
        let s1 = dropWhile is_space s;
            i1 = i + length (takeWhile is_space s) in
        if s1 = [] then Inr out
        else
          let prefixed = (case s1 of a # b # _ \<Rightarrow> a = CHR ''0'' \<and> (b = CHR ''x'' \<or> b = CHR ''X'')
                          | _ \<Rightarrow> False);
              s2 = (if prefixed then drop 2 s1 else s1);
              i2 = (if prefixed then i1 + 2 else i1) in
          (case s2 of
             first # second # rest \<Rightarrow>
               (case (hex_value first, hex_value second) of
                  (Some h, Some l) \<Rightarrow> parse_hex_loop (i2 + 2) rest (out @ [of_nat (16 * h + l)])
                | _ \<Rightarrow> failure ParseError (''flash plan: bad hex byte near position '' @ dec_string i2))
           | _ \<Rightarrow> failure ParseError (''flash plan: odd hex digit at position '' @ dec_string i2)))"
  by pat_completeness auto

termination
proof (relation "measure (\<lambda>(i, s, out). length s)", goal_cases)
  case (2 i s out s1 i1 prefixed s2 i2 first xs second rest)
  have "length s1 \<le> length s" unfolding 2(2) by (rule length_dropWhile_le)
  moreover have "length s2 \<le> length s1" by (simp add: 2(6))
  ultimately show ?case using 2(8,9) by simp
qed simp

declare parse_hex_loop.simps [simp del]

definition parse_hex_bytes :: "string \<Rightarrow> bytes result" where
  "parse_hex_bytes s = parse_hex_loop 0 s []"

definition hex_pair :: "u8 \<Rightarrow> string" where
  "hex_pair b = [hex_digit_upper (unat (drop_bit 4 b AND 0xF)), hex_digit_upper (unat (b AND 0xF))]"

text \<open>Bytes from index \<open>i\<close> on: a separator before every byte but the first.\<close>

fun format_hex_from :: "nat \<Rightarrow> bytes \<Rightarrow> string" where
  "format_hex_from i [] = []"
| "format_hex_from i (b # bs) =
     (if i > 0 then [if i mod 32 = 0 then CHR 0x0A else CHR '' ''] else []) @
     hex_pair b @ format_hex_from (Suc i) bs"

definition format_hex_bytes :: "bytes \<Rightarrow> string" where
  "format_hex_bytes bs = format_hex_from 0 bs"

section \<open>The delta, window by window\<close>

text \<open>Offset \<open>i\<close> lies in sector \<open>sec\<close> when the image starts at address \<open>base\<close>.\<close>

definition covers_from :: "u32 \<Rightarrow> sector \<Rightarrow> nat \<Rightarrow> bool" where
  "covers_from base sec i \<longleftrightarrow>
     unat (sec_address sec - base) \<le> i \<and> i < unat (sec_address sec - base) + unat (sec_length sec)"

text \<open>\<open>current\<close> after the bytes of the given sectors were replaced by those of \<open>target\<close>.\<close>

definition rewrite_sectors :: "u32 \<Rightarrow> sector list \<Rightarrow> bytes \<Rightarrow> bytes \<Rightarrow> bytes" where
  "rewrite_sectors base secs current target =
     map (\<lambda>i. if list_ex (\<lambda>sec. covers_from base sec i) secs then target ! i else current ! i)
       [0 ..< min (length current) (length target)]"

lemma length_rewrite_sectors [simp]:
  "length (rewrite_sectors base secs c t) = min (length c) (length t)"
  by (simp add: rewrite_sectors_def)

lemma nth_rewrite_sectors:
  "i < min (length c) (length t) \<Longrightarrow>
     rewrite_sectors base secs c t ! i =
       (if list_ex (\<lambda>sec. covers_from base sec i) secs then t ! i else c ! i)"
  by (simp add: rewrite_sectors_def)

lemma window_differs_iff:
  "window_differs c t lo hi \<longleftrightarrow> (\<exists>i. lo \<le> i \<and> i < hi \<and> c ! i \<noteq> t ! i)"
  by (auto simp: window_differs_def list_ex_iff)

lemma set_delta_loop:
  assumes "0 < ss"
  shows "sec \<in> set (delta_loop c t ss n b off) \<longleftrightarrow>
    (\<exists>j. off + j * ss < n \<and> window_differs c t (off + j * ss) (min (off + j * ss + ss) n) \<and>
         sec = Sector (b + of_nat (off + j * ss)) (of_nat (min (off + j * ss + ss) n - (off + j * ss))))"
  (is "?L off \<longleftrightarrow> (\<exists>j. ?P off j)")
  using assms
proof (induction c t ss n b off rule: delta_loop.induct)
  case (1 c t ss n b off)
  let ?P = "\<lambda>off j. off + j * ss < n \<and> window_differs c t (off + j * ss) (min (off + j * ss + ss) n) \<and>
         sec = Sector (b + of_nat (off + j * ss)) (of_nat (min (off + j * ss + ss) n - (off + j * ss)))"
  show ?case
  proof (cases "off < n")
    case True
    have IH: "sec \<in> set (delta_loop c t ss n b (off + ss)) \<longleftrightarrow> (\<exists>j. ?P (off + ss) j)"
      using 1 True by simp
    have "(\<exists>j. ?P off j) \<longleftrightarrow> ?P off 0 \<or> (\<exists>j. ?P off (Suc j))"
      by (metis not0_implies_Suc)
    moreover have "?P off (Suc j) = ?P (off + ss) j" for j
      by (simp add: algebra_simps)
    ultimately show ?thesis
      using True 1(2) IH by (subst delta_loop.simps) (auto simp: Let_def)
  next
    case False
    then show ?thesis by (subst delta_loop.simps) auto
  qed
qed

lemma unat_of_nat_u32: "k < 2 ^ 32 \<Longrightarrow> unat (of_nat k :: u32) = k"
  by (simp add: unat_of_nat take_bit_nat_eq_self)

lemma covers_from_window:
  assumes "o' < 2 ^ 32" "ss < 2 ^ 32" "o' < n"
  shows "covers_from b (Sector (b + of_nat o') (of_nat (min (o' + ss) n - o'))) i \<longleftrightarrow>
           o' \<le> i \<and> i < min (o' + ss) n"
proof -
  have "min (o' + ss) n - o' < 2 ^ 32" using assms(2) by linarith
  then show ?thesis
    unfolding covers_from_def using assms by (simp add: unat_of_nat_u32 del: of_nat_diff)
qed

text \<open>Every offset below \<open>n\<close> lies in exactly the window of its quotient.\<close>

lemma window_of_offset:
  fixes i ss n :: nat
  assumes "0 < ss" "i < n"
  shows "i div ss * ss < n" "i div ss * ss \<le> i" "i < min (i div ss * ss + ss) n"
proof -
  have "i = i div ss * ss + i mod ss" by simp
  moreover have "i mod ss < ss" using assms by simp
  ultimately show "i div ss * ss \<le> i" "i < min (i div ss * ss + ss) n" using assms by linarith+
  then show "i div ss * ss < n" using assms by linarith
qed

section \<open>The delta against a sector layout\<close>

lemma first_covering_None: "first_covering layout i = None \<longleftrightarrow> \<not> list_ex (\<lambda>sec. sector_covers sec i) layout"
  by (induction layout) auto

lemma first_covering_Some:
  "first_covering layout i = Some s \<Longrightarrow> s < length layout \<and> sector_covers (layout ! s) i"
  by (induction layout arbitrary: s) (auto split: if_splits)

text \<open>What the byte scan has established after the first \<open>m\<close> offsets.\<close>

definition scan_inv :: "bytes \<Rightarrow> bytes \<Rightarrow> sector list \<Rightarrow> nat \<Rightarrow> bool list \<times> nat \<Rightarrow> bool" where
  "scan_inv c t layout m st \<longleftrightarrow>
     length (fst st) = length layout \<and>
     (\<forall>s < length layout. fst st ! s \<longleftrightarrow> (\<exists>i < m. c ! i \<noteq> t ! i \<and> first_covering layout i = Some s)) \<and>
     snd st = length (filter (\<lambda>i. c ! i \<noteq> t ! i \<and> first_covering layout i = None) [0..<m])"

lemma scan_inv_step:
  assumes "scan_inv c t layout m st"
  shows "scan_inv c t layout (Suc m) (layout_scan_byte c t layout m st)"
proof (cases "c ! m = t ! m")
  case True
  with assms show ?thesis
    by (cases st) (auto simp: scan_inv_def layout_scan_byte_def less_Suc_eq)
next
  case False
  show ?thesis
  proof (cases "first_covering layout m")
    case None
    with False assms show ?thesis
      by (cases st) (auto simp: scan_inv_def layout_scan_byte_def less_Suc_eq)
  next
    case (Some x)
    then have "x < length layout" by (auto dest: first_covering_Some)
    with Some False assms show ?thesis
      by (cases st) (auto simp: scan_inv_def layout_scan_byte_def less_Suc_eq nth_list_update)
  qed
qed

lemma scan_inv_fold:
  "scan_inv c t layout m (fold (layout_scan_byte c t layout) [0..<m] (replicate (length layout) False, 0))"
  by (induction m) (simp_all add: scan_inv_def [of _ _ _ 0] scan_inv_step)

lemma compute_delta_layout_eq:
  defines "n \<equiv> \<lambda>c t. min (length c) (length t)"
  shows "ds_gap_bytes_changed (compute_delta_layout c t layout) =
      length (filter (\<lambda>i. c ! i \<noteq> t ! i \<and> \<not> list_ex (\<lambda>sec. sector_covers sec i) layout) [0..<n c t])"
    "ds_sectors (compute_delta_layout c t layout) =
      map ((!) layout) (filter (\<lambda>s. \<exists>i < n c t. c ! i \<noteq> t ! i \<and> first_covering layout i = Some s)
        [0..<length layout])"
proof -
  let ?st = "fold (layout_scan_byte c t layout) [0..<n c t] (replicate (length layout) False, 0)"
  have inv: "scan_inv c t layout (n c t) ?st" by (rule scan_inv_fold)
  have "compute_delta_layout c t layout =
      \<lparr>ds_sectors = [layout ! s. s \<leftarrow> [0..<length layout], fst ?st ! s],
       ds_gap_bytes_changed = snd ?st\<rparr>"
    by (simp add: compute_delta_layout_def n_def Let_def split: prod.splits)
  moreover have "[layout ! s. s \<leftarrow> xs, P s] = map ((!) layout) (filter P xs)" for P xs
    by (induction xs) auto
  ultimately have eqs: "ds_gap_bytes_changed (compute_delta_layout c t layout) = snd ?st"
    "ds_sectors (compute_delta_layout c t layout) =
       map ((!) layout) (filter (\<lambda>s. fst ?st ! s) [0..<length layout])"
    by simp_all
  show "ds_gap_bytes_changed (compute_delta_layout c t layout) =
      length (filter (\<lambda>i. c ! i \<noteq> t ! i \<and> \<not> list_ex (\<lambda>sec. sector_covers sec i) layout) [0..<n c t])"
    using inv by (simp add: eqs(1) scan_inv_def first_covering_None)
  show "ds_sectors (compute_delta_layout c t layout) =
      map ((!) layout) (filter (\<lambda>s. \<exists>i < n c t. c ! i \<noteq> t ! i \<and> first_covering layout i = Some s)
        [0..<length layout])"
    unfolding eqs(2) using inv by (intro arg_cong [where f = "map _"] filter_cong) (auto simp: scan_inv_def)
qed

lemma covers_from_0: "covers_from 0 sec i \<longleftrightarrow> sector_covers sec i"
  by (simp add: covers_from_def sector_covers_def)

text \<open>A differing byte is in a listed sector exactly when the layout has a sector for it.\<close>

lemma layout_delta_covers:
  assumes "i < min (length c) (length t)" "c ! i \<noteq> t ! i"
  shows "list_ex (\<lambda>sec. sector_covers sec i) (ds_sectors (compute_delta_layout c t layout)) \<longleftrightarrow>
         list_ex (\<lambda>sec. sector_covers sec i) layout"
proof
  assume "list_ex (\<lambda>sec. sector_covers sec i) layout"
  then obtain s where s: "first_covering layout i = Some s"
    by (metis first_covering_None not_None_eq)
  then have "s < length layout" "sector_covers (layout ! s) i" by (auto dest: first_covering_Some)
  with s assms show "list_ex (\<lambda>sec. sector_covers sec i) (ds_sectors (compute_delta_layout c t layout))"
    unfolding compute_delta_layout_eq list_ex_iff by auto
qed (auto simp: compute_delta_layout_eq list_ex_iff)

section \<open>Payload text\<close>

lemma of_char_hex_digit_upper:
  "n < 16 \<Longrightarrow> of_char (hex_digit_upper n) = (if n < 10 then 48 + n else 55 + n)"
  by (simp add: hex_digit_upper_def)

lemma hex_digit_upper_facts:
  assumes "n < 16"
  shows "hex_value (hex_digit_upper n) = Some n" "\<not> is_space (hex_digit_upper n)"
    "hex_digit_upper n \<noteq> CHR ''x''" "hex_digit_upper n \<noteq> CHR ''X''"
proof -
  note o = of_char_hex_digit_upper [OF assms]
  show "hex_value (hex_digit_upper n) = Some n" "\<not> is_space (hex_digit_upper n)"
    using assms by (auto simp: hex_value_def is_space_def Let_def o)
  show "hex_digit_upper n \<noteq> CHR ''x''" "hex_digit_upper n \<noteq> CHR ''X''"
    using assms o by (auto dest: arg_cong [where f = "of_char :: char \<Rightarrow> nat"] split: if_splits)
qed

lemma hex_pair_eq: "hex_pair b = [hex_digit_upper (unat b div 16), hex_digit_upper (unat b mod 16)]"
proof -
  have F: "x AND 0xF = take_bit 4 x" for x :: u8
    by (simp add: take_bit_eq_mask mask_eq_exp_minus_1)
  have "unat b div 16 < 16" using unat_u8_less [of b] by arith
  then have "unat (take_bit 4 (drop_bit 4 b)) = unat b div 16"
    by (simp add: take_bit_eq_mod drop_bit_eq_div unat_mod unat_div)
  moreover have "unat (take_bit 4 b) = unat b mod 16"
    by (simp add: take_bit_eq_mod unat_mod)
  ultimately show ?thesis by (simp only: hex_pair_def F)
qed

lemma parse_hex_loop_pair:
  assumes "seps = [] \<or> (\<exists>c. seps = [c] \<and> is_space c)"
  shows "parse_hex_loop i (seps @ hex_pair b @ rest) out
         = parse_hex_loop (i + length seps + 2) rest (out @ [b])"
proof -
  have lt: "unat b div 16 < 16" "unat b mod 16 < 16" using unat_u8_less [of b] by arith+
  note facts = hex_digit_upper_facts [OF lt(1)] hex_digit_upper_facts [OF lt(2)]
  have "of_nat (16 * (unat b div 16) + unat b mod 16) = b" by (simp only: mult_div_mod_eq) simp
  then show ?thesis
    using assms
    by (subst parse_hex_loop.simps) (auto simp: hex_pair_eq facts Let_def simp del: of_nat_add of_nat_mult)
qed

lemma parse_hex_loop_format: "parse_hex_loop i (format_hex_from k bs) out = Inr (out @ bs)"
proof (induction bs arbitrary: i k out)
  case Nil
  then show ?case by (simp add: parse_hex_loop.simps)
next
  case (Cons b bs)
  let ?seps = "if k > 0 then [if k mod 32 = 0 then CHR 0x0A else CHR '' ''] else []"
  have "?seps = [] \<or> (\<exists>c. ?seps = [c] \<and> is_space c)" by (simp add: is_space_def)
  from parse_hex_loop_pair [OF this] show ?case
    by (simp only: format_hex_from.simps Cons) simp
qed

section \<open>The sectors of compute_delta\<close>

lemma compute_delta_rewrites:
  assumes "sector_size \<noteq> 0" and "min (length current) (length target) \<le> 2 ^ 32"
  shows "rewrite_sectors base (compute_delta current target sector_size base) current target
           = take (min (length current) (length target)) target \<and>
         (\<forall>sec \<in> set (compute_delta current target sector_size base).
            \<exists>i < min (length current) (length target).
              covers_from base sec i \<and> current ! i \<noteq> target ! i)"
proof -
  define n where "n = min (length current) (length target)"
  define ss where "ss = unat sector_size"
  let ?d = "compute_delta current target sector_size base"
  have ss: "0 < ss" "ss < 2 ^ 32"
    using assms(1) unsigned_less [of sector_size] by (auto simp: ss_def unat_gt_0)
  have mem: "sec \<in> set ?d \<longleftrightarrow>
      (\<exists>j. j * ss < n \<and> window_differs current target (j * ss) (min (j * ss + ss) n) \<and>
           sec = Sector (base + of_nat (j * ss)) (of_nat (min (j * ss + ss) n - j * ss)))" for sec
    using set_delta_loop [OF ss(1), where off = 0] assms(1)
    by (simp add: compute_delta_def Let_def flip: n_def ss_def)
  have n: "n \<le> 2 ^ 32" using assms(2) by (simp add: n_def)
  have cov: "covers_from base (Sector (base + of_nat (j * ss)) (of_nat (min (j * ss + ss) n - j * ss))) i
      \<longleftrightarrow> j * ss \<le> i \<and> i < min (j * ss + ss) n" if "j * ss < n" for i j
    by (rule covers_from_window) (use that n ss in linarith)+
  have hit: "\<exists>sec \<in> set ?d. covers_from base sec i" if i: "i < n" "current ! i \<noteq> target ! i" for i
  proof -
    note w = window_of_offset [OF ss(1) i(1)]
    have "window_differs current target (i div ss * ss) (min (i div ss * ss + ss) n)"
      unfolding window_differs_iff using w i(2) by (intro exI [of _ i]) simp
    with w cov [OF w(1), of i] show ?thesis unfolding mem Bex_def by blast
  qed
  have "rewrite_sectors base ?d current target = take n target"
  proof (rule nth_equalityI)
    fix i assume "i < length (rewrite_sectors base ?d current target)"
    then have i: "i < n" by (simp add: n_def)
    have "current ! i = target ! i" if "\<not> list_ex (\<lambda>sec. covers_from base sec i) ?d"
      using that hit [OF i] by (auto simp: list_ex_iff)
    with i show "rewrite_sectors base ?d current target ! i = take n target ! i"
      by (auto simp: nth_rewrite_sectors n_def)
  qed (simp add: n_def)
  moreover have "\<exists>i < n. covers_from base sec i \<and> current ! i \<noteq> target ! i" if "sec \<in> set ?d" for sec
    using that cov unfolding mem window_differs_iff by (metis min_less_iff_conj)
  ultimately show ?thesis by (simp add: n_def)
qed

lemma compute_delta_sector:
  assumes "sector_size \<noteq> 0" "min (length current) (length target) < 2 ^ 32"
    and "sec \<in> set (compute_delta current target sector_size base)"
  shows "unat (sec_address sec - base) + unat (sec_length sec) \<le> min (length current) (length target)"
proof -
  define n where "n = min (length current) (length target)"
  define ss where "ss = unat sector_size"
  have ss: "0 < ss" using assms(1) by (auto simp: ss_def unat_gt_0)
  from assms(1,3) obtain j where "j * ss < n"
      "sec = Sector (base + of_nat (j * ss)) (of_nat (min (j * ss + ss) n - j * ss))"
    using set_delta_loop [OF ss, where off = 0]
    by (auto simp: compute_delta_def Let_def simp flip: n_def ss_def)
  moreover from this have "unat (of_nat (j * ss) :: u32) = j * ss"
      "unat (of_nat (min (j * ss + ss) n - j * ss) :: u32) = min (j * ss + ss) n - j * ss"
    using assms(2) by (auto intro!: unat_of_nat_u32 simp: n_def simp del: of_nat_mult of_nat_diff)
  ultimately have "unat (sec_address sec - base) + unat (sec_length sec) \<le> n"
    by (simp del: of_nat_mult of_nat_diff)
  then show ?thesis by (simp only: n_def)
qed

section \<open>Properties\<close>

text \<open>C30: The sectors \<open>compute_delta\<close> lists are enough and none is superfluous: rewriting them turns the
  current image into the target over the common length, and each of them holds a byte that
  differs. The image must fit the 32-bit address space.\<close>

theorem compute_delta_exact:
  assumes "sector_size \<noteq> 0" and "min (length current) (length target) \<le> 2 ^ 32"
  shows "rewrite_sectors base (compute_delta current target sector_size base) current target
           = take (min (length current) (length target)) target \<and>
         (\<forall>sec \<in> set (compute_delta current target sector_size base).
            \<exists>i < min (length current) (length target).
              covers_from base sec i \<and> current ! i \<noteq> target ! i)"
  using assms by (rule compute_delta_rewrites)

theorem compute_delta_exact_witness:
  "rewrite_sectors 0x100 (compute_delta [1, 2, 3, 4, 5] [1, 2, 9, 4, 8] 2 0x100)
     [1, 2, 3, 4, 5] [1, 2, 9, 4, 8] = [1, 2, 9, 4, 8]"
  using compute_delta_exact [where sector_size = 2 and current = "[1, 2, 3, 4, 5]"
      and target = "[1, 2, 9, 4, 8]" and base = "0x100"] by simp

text \<open>Against a sector layout, rewriting the listed sectors leaves exactly as many wrong bytes as the
  gap counter reports, so a zero gap means the listed sectors suffice; the listed sectors are
  layout sectors in layout order and each of them holds a byte that differs.\<close>

theorem compute_delta_layout_gap:
  "length (filter (\<lambda>i. rewrite_sectors 0 (ds_sectors (compute_delta_layout c t layout)) c t ! i \<noteq> t ! i)
       [0 ..< min (length c) (length t)])
     = ds_gap_bytes_changed (compute_delta_layout c t layout) \<and>
   ds_sectors (compute_delta_layout c t layout)
     = map ((!) layout) (filter (\<lambda>s. \<exists>i < min (length c) (length t).
          c ! i \<noteq> t ! i \<and> first_covering layout i = Some s) [0 ..< length layout])"
proof (intro conjI)
  let ?n = "min (length c) (length t)"
  have "filter (\<lambda>i. rewrite_sectors 0 (ds_sectors (compute_delta_layout c t layout)) c t ! i \<noteq> t ! i) [0..<?n]
      = filter (\<lambda>i. c ! i \<noteq> t ! i \<and> \<not> list_ex (\<lambda>sec. sector_covers sec i) layout) [0..<?n]"
  proof (rule filter_cong [OF refl])
    fix i assume "i \<in> set [0..<?n]"
    then have i: "i < ?n" by simp
    show "rewrite_sectors 0 (ds_sectors (compute_delta_layout c t layout)) c t ! i \<noteq> t ! i \<longleftrightarrow>
        c ! i \<noteq> t ! i \<and> \<not> list_ex (\<lambda>sec. sector_covers sec i) layout"
      using layout_delta_covers [OF i] by (auto simp: nth_rewrite_sectors [OF i] covers_from_0)
  qed
  then show "length (filter (\<lambda>i. rewrite_sectors 0 (ds_sectors (compute_delta_layout c t layout)) c t ! i \<noteq> t ! i)
       [0 ..< ?n]) = ds_gap_bytes_changed (compute_delta_layout c t layout)"
    by (simp only: compute_delta_layout_eq)
qed (rule compute_delta_layout_eq)

text \<open>The FA-DIT layout tiles the application flash from 0x6000 to the 2 MB end without overlap and
  leaves the boot block out: an offset has exactly one sector when it is in that range and none
  otherwise, and no delta against the layout lists a sector below 0x6000.\<close>

theorem fa_dit_layout_tiles:
  "length (filter (\<lambda>sec. sector_covers sec i) kFaDitSh2a2Mb)
     = (if 0x6000 \<le> i \<and> i < 0x200000 then 1 else 0) \<and>
   list_all (\<lambda>sec. 0x6000 \<le> sec_address sec)
     (ds_sectors (compute_delta_layout current target kFaDitSh2a2Mb))"
proof
  have "list_all (\<lambda>sec. 0x6000 \<le> sec_address sec) kFaDitSh2a2Mb"
    by (simp add: kFaDitSh2a2Mb_def)
  then show "list_all (\<lambda>sec. 0x6000 \<le> sec_address sec)
     (ds_sectors (compute_delta_layout current target kFaDitSh2a2Mb))"
    unfolding compute_delta_layout_eq by (auto simp: list_all_iff)
qed (simp add: kFaDitSh2a2Mb_def sector_covers_def)

text \<open>The hexadecimal text of a plan's payload reads back as the payload, whatever its length and
  wherever its lines break.\<close>

theorem parse_format_hex_bytes: "parse_hex_bytes (format_hex_bytes bs) = Inr bs"
  by (simp add: parse_hex_bytes_def format_hex_bytes_def parse_hex_loop_format)

end
