(* ===== verification/Flash_Manifest.thy ===== *)
theory Flash_Manifest
  imports Flash_Plan Crc32
begin

text \<open>
  The flash manifest (src/flash/src/flash.cpp, from \<open>build_manifest\<close> on): the snapshot that is
  written as a journal after every sector and the resume plan computed from it. The time stamp is
  the string \<open>current_iso8601_utc\<close> returned. Reading and writing the TOML files is not modelled.
\<close>

section \<open>Data and operations\<close>

record manifest_entry =
  me_sector :: sector
  me_data_crc32 :: u32
  me_transferred :: bool
  me_verified :: bool

record manifest =
  mf_schema_version :: nat
  mf_created_at :: string
  mf_plan_crc32 :: u32
  mf_overall_crc32 :: u32
  mf_policy_profile :: string
  mf_policy_reason :: string
  mf_entries :: "manifest_entry list"

abbreviation "kManifestSchemaVersion \<equiv> (1 :: nat)"

definition crc32_of :: "string \<Rightarrow> u32" where
  "crc32_of txt = crc32 (map of_char txt)"

text \<open>One turn of the loop over the aligned prefix: the running CRC and the entries so far.\<close>

definition manifest_step ::
    "sector_write \<times> sector_outcome \<Rightarrow> u32 \<times> manifest_entry list \<Rightarrow> u32 \<times> manifest_entry list" where
  "manifest_step p st =
     (case (p, st) of ((w, so), (overall, entries)) \<Rightarrow>
        let e = \<lparr>me_sector = sw_sector w, me_data_crc32 = crc32 (sw_data w),
                 me_transferred = so_transferred so, me_verified = so_verified so\<rparr> in
        (if me_transferred e then crc32_update overall (sw_data w) else overall, entries @ [e]))"

definition build_manifest :: "string \<Rightarrow> flash_plan \<Rightarrow> string \<Rightarrow> flash_report \<Rightarrow> manifest" where
  "build_manifest created_at plan plan_text report =
     (let (overall, entries) =
        fold manifest_step (zip (fp_writes plan) (fr_sectors report)) (crc32_init, []) in
      \<lparr>mf_schema_version = kManifestSchemaVersion, mf_created_at = created_at,
       mf_plan_crc32 = crc32_of plan_text, mf_overall_crc32 = crc32_value overall,
       mf_policy_profile = [], mf_policy_reason = [], mf_entries = entries\<rparr>)"

fun resume_loop ::
    "nat \<Rightarrow> sector_write list \<Rightarrow> manifest_entry list \<Rightarrow> sector_write list \<Rightarrow> sector_write list result" where
  "resume_loop i [] es kept = Inr kept"
| "resume_loop i (w # ws) [] kept = resume_loop (Suc i) ws [] (kept @ [w])"
| "resume_loop i (w # ws) (e # es) kept =
     (if me_sector e \<noteq> sw_sector w then
        failure ParseError (''flash resume: journal entry '' @ dec_string i @
          '' sector mismatch (plan address 0x'' @ dec_string (unat (sec_address (sw_sector w))) @
          '', journal address 0x'' @ dec_string (unat (sec_address (me_sector e))) @ '')'')
      else if me_transferred e \<and> me_verified e then
        if me_data_crc32 e \<noteq> crc32 (sw_data w) then
          failure BadChecksum (''flash resume: journal entry '' @ dec_string i @
            '' claims success but data CRC32 mismatches; plan was modified between flashes'')
        else resume_loop (Suc i) ws es kept
      else resume_loop (Suc i) ws es (kept @ [w]))"

definition plan_resume :: "flash_plan \<Rightarrow> manifest \<Rightarrow> flash_plan result" where
  "plan_resume original journal =
     (if length (mf_entries journal) > length (fp_writes original) then
        failure ParseError (''flash resume: journal has '' @ dec_string (length (mf_entries journal)) @
          '' entries but plan has only '' @ dec_string (length (fp_writes original)) @
          '' writes; mismatched plan/journal pair'')
      else case resume_loop 0 (fp_writes original) (mf_entries journal) [] of
             Inl e \<Rightarrow> Inl e
           | Inr ws \<Rightarrow> Inr (original\<lparr>fp_writes := ws\<rparr>))"

section \<open>Manifest entries\<close>

definition entry_of :: "sector_write \<Rightarrow> sector_outcome \<Rightarrow> manifest_entry" where
  "entry_of w so = \<lparr>me_sector = sw_sector w, me_data_crc32 = crc32 (sw_data w),
                    me_transferred = so_transferred so, me_verified = so_verified so\<rparr>"

lemma fold_manifest_step:
  "fold manifest_step ps (c, es) =
     (crc32_update c (concat (map (sw_data \<circ> fst) (filter (so_transferred \<circ> snd) ps))),
      es @ map (\<lambda>(w, so). entry_of w so) ps)"
  by (induction ps arbitrary: c es)
     (auto simp: manifest_step_def entry_of_def crc32_update_append crc32_update_def [of _ "[]"] Let_def)

lemma build_manifest_fields:
  "mf_entries (build_manifest ca plan txt report) =
     map (\<lambda>(w, so). entry_of w so) (zip (fp_writes plan) (fr_sectors report))"
  "mf_overall_crc32 (build_manifest ca plan txt report) =
     crc32 (concat (map (sw_data \<circ> fst)
       (filter (so_transferred \<circ> snd) (zip (fp_writes plan) (fr_sectors report)))))"
  by (simp_all add: build_manifest_def fold_manifest_step crc32_def)

text \<open>The writes a journal leaves to do: those past its end, and those it does not call done.\<close>

fun unfinished :: "sector_write list \<Rightarrow> (bool \<times> bool) list \<Rightarrow> sector_write list" where
  "unfinished ws [] = ws"
| "unfinished [] (f # fs) = []"
| "unfinished (w # ws) ((transferred, verified) # fs) =
     (if transferred \<and> verified then unfinished ws fs else w # unfinished ws fs)"

definition entry_matches :: "sector_write \<Rightarrow> manifest_entry \<Rightarrow> bool" where
  "entry_matches w e \<longleftrightarrow> me_sector e = sw_sector w \<and>
     (me_transferred e \<and> me_verified e \<longrightarrow> me_data_crc32 e = crc32 (sw_data w))"

lemma resume_loop_Nil: "resume_loop i ws [] kept = Inr (kept @ ws)"
  by (induction ws arbitrary: i kept) auto

lemma resume_loop_eq:
  "length es \<le> length ws \<Longrightarrow>
     (\<exists>e. resume_loop i ws es kept = Inl e \<and> \<not> list_all2 entry_matches (take (length es) ws) es) \<or>
     (resume_loop i ws es kept =
        Inr (kept @ unfinished ws (map (\<lambda>e. (me_transferred e, me_verified e)) es)) \<and>
      list_all2 entry_matches (take (length es) ws) es)"
proof (induction i ws es kept rule: resume_loop.induct)
  case (3 i w ws e es kept)
  then show ?case by (auto simp: entry_matches_def failure_def)
qed (simp_all add: resume_loop_Nil)

section \<open>Properties\<close>

text \<open>C31: A resume plan exists exactly when the journal is no longer than the plan, names the same sectors
  in the same order, and carries the CRC of the plan's data wherever it claims success; it is then
  the original plan with just the writes the journal does not claim, in their order.\<close>

theorem plan_resume_spec:
  "plan_resume plan journal = Inr plan' \<longleftrightarrow>
     length (mf_entries journal) \<le> length (fp_writes plan) \<and>
     list_all2 entry_matches (take (length (mf_entries journal)) (fp_writes plan)) (mf_entries journal) \<and>
     plan' = plan\<lparr>fp_writes := unfinished (fp_writes plan)
       (map (\<lambda>e. (me_transferred e, me_verified e)) (mf_entries journal))\<rparr>"
  using resume_loop_eq [of "mf_entries journal" "fp_writes plan" 0 "[]"]
  by (auto simp: plan_resume_def)

lemma entry_matches_entry_of [simp]: "entry_matches w (entry_of w so)"
  by (simp add: entry_matches_def entry_of_def)

text \<open>C32: A manifest built from a report always resumes with its own plan, to the writes whose outcome at
  the same position is not both transferred and verified; and its overall CRC is the CRC of the
  transferred payloads in plan order.\<close>

theorem manifest_resumes:
  "plan_resume plan (build_manifest created_at plan plan_text report) =
     Inr (plan\<lparr>fp_writes := unfinished (fp_writes plan)
       (take (length (fp_writes plan))
         (map (\<lambda>so. (so_transferred so, so_verified so)) (fr_sectors report)))\<rparr>) \<and>
   mf_overall_crc32 (build_manifest created_at plan plan_text report) =
     crc32 (concat (map (sw_data \<circ> fst)
       (filter (so_transferred \<circ> snd) (zip (fp_writes plan) (fr_sectors report)))))"
proof -
  let ?es = "mf_entries (build_manifest created_at plan plan_text report)"
  have es: "?es = map (\<lambda>(w, so). entry_of w so) (zip (fp_writes plan) (fr_sectors report))"
    by (rule build_manifest_fields)
  have "list_all2 entry_matches (take (length ?es) (fp_writes plan)) ?es"
    unfolding es by (auto simp: list_all2_conv_all_nth)
  moreover have "map (\<lambda>e. (me_transferred e, me_verified e)) ?es =
      take (length (fp_writes plan)) (map (\<lambda>so. (so_transferred so, so_verified so)) (fr_sectors report))"
    unfolding es by (rule nth_equalityI) (auto simp: entry_of_def)
  moreover have "length ?es \<le> length (fp_writes plan)" unfolding es by simp
  ultimately show ?thesis
    using plan_resume_spec [of plan "build_manifest created_at plan plan_text report"]
    by (simp add: build_manifest_fields(2))
qed

end
