(* ===== verification/Feistel.thy ===== *)
theory Feistel
  imports ST_Prelude
begin

text \<open>
  What the two Subaru block ciphers share: the 16-bit halves of a 32-bit block, and the algebra of
  a Feistel network over an arbitrary round function. The SecurityAccess derivation
  (Subaru_Security) and the bulk-transfer cipher (Bulk_Cipher) interpret the locale on their own
  round functions.
\<close>

section \<open>Halves of a block\<close>

definition hi16 :: "u32 \<Rightarrow> u16" where
  "hi16 v = ucast (drop_bit 16 v)"

definition lo16 :: "u32 \<Rightarrow> u16" where
  "lo16 v = ucast (v AND 0xFFFF)"

definition join16 :: "u16 \<Rightarrow> u16 \<Rightarrow> u32" where
  "join16 h l = push_bit 16 (ucast h) OR ucast l"

lemma bit_0xFFFF_u32 [simp]: "bit (0xFFFF :: u32) n \<longleftrightarrow> n < 16"
proof -
  have "(0xFFFF :: u32) = mask 16" by (simp add: mask_eq_exp_minus_1)
  then show ?thesis by (simp only: bit_mask_iff) auto
qed

lemma bit_hi16 [simp]: "bit (hi16 v) n \<longleftrightarrow> n < 16 \<and> bit v (16 + n)"
  by (auto simp: hi16_def bit_ucast_iff bit_drop_bit_eq)

lemma bit_lo16 [simp]: "bit (lo16 v) n \<longleftrightarrow> n < 16 \<and> bit v n"
  by (auto simp: lo16_def bit_ucast_iff bit_and_iff simp del: bit_numeral_word_iff)

lemma bit_join16 [simp]:
  "bit (join16 h l) n \<longleftrightarrow> (if n < 16 then bit l n else n < 32 \<and> bit h (n - 16))"
  by (auto simp: join16_def bit_or_iff bit_push_bit_iff bit_ucast_iff dest: bit_imp_le_length)

lemma hi16_join16 [simp]: "hi16 (join16 h l) = h"
  by (rule bit_word_eqI) simp

lemma lo16_join16 [simp]: "lo16 (join16 h l) = l"
  by (rule bit_word_eqI) simp

lemma join16_halves [simp]: "join16 (hi16 v) (lo16 v) = v"
  by (rule bit_word_eqI) auto

text \<open>A block as its pair of halves, high half first.\<close>

definition halves :: "u32 \<Rightarrow> u16 \<times> u16" where
  "halves v = (hi16 v, lo16 v)"

lemma halves_join16 [simp]: "halves (join16 h l) = (h, l)"
  by (simp add: halves_def)

lemma halves_inject [simp]: "halves v = halves w \<longleftrightarrow> v = w"
proof
  assume "halves v = halves w"
  then have "join16 (hi16 v) (lo16 v) = join16 (hi16 w) (lo16 w)"
    by (simp add: halves_def)
  then show "v = w" by simp
qed simp

lemma join16_fst_snd_halves [simp]: "join16 (fst (halves v)) (snd (halves v)) = v"
  by (simp add: halves_def)

section \<open>Bytes of a block\<close>

lemma be32_inject [simp]: "be32 v = be32 w \<longleftrightarrow> v = w"
proof
  assume eq: "be32 v = be32 w"
  show "v = w"
  proof (rule bit_word_eqI)
    fix n assume "n < LENGTH(32)"
    then have n: "n < 32" by simp
    from eq have b: "byte_at 24 v = byte_at 24 w" "byte_at 16 v = byte_at 16 w"
      "byte_at 8 v = byte_at 8 w" "byte_at 0 v = byte_at 0 w"
      by (simp_all add: be32_def)
    have at: "bit v n = bit w n" if "byte_at s v = byte_at s w" "s \<le> n" "n < s + 8" for s
    proof -
      have "bit (byte_at s u) (n - s) = bit u n" for u
        using that(2,3) by (simp add: less_diff_conv2)
      with that(1) show ?thesis by metis
    qed
    consider "n < 8" | "8 \<le> n" "n < 16" | "16 \<le> n" "n < 24" | "24 \<le> n" "n < 32"
      using n by linarith
    then show "bit v n = bit w n"
    proof cases
      case 1
      then show ?thesis using at [OF b(4)] by simp
    next
      case 2
      then show ?thesis using at [OF b(3)] by simp
    next
      case 3
      then show ?thesis using at [OF b(2)] by simp
    next
      case 4
      then show ?thesis using at [OF b(1)] by simp
    qed
  qed
qed simp

section \<open>Feistel networks\<close>

text \<open>
  \<open>round\<close> is one step on the pair of halves; \<open>rounds ks\<close> applies the keys in order. The network
  never inverts the round function \<open>F\<close>.
\<close>

locale feistel_network =
  fixes F :: "u16 \<Rightarrow> u16 \<Rightarrow> u16"
begin

definition round :: "u16 \<Rightarrow> u16 \<times> u16 \<Rightarrow> u16 \<times> u16" where
  "round k p = (snd p, fst p XOR F (snd p) k)"

definition unround :: "u16 \<Rightarrow> u16 \<times> u16 \<Rightarrow> u16 \<times> u16" where
  "unround k p = (snd p XOR F (fst p) k, fst p)"

definition rounds :: "u16 list \<Rightarrow> u16 \<times> u16 \<Rightarrow> u16 \<times> u16" where
  "rounds ks = fold round ks"

definition unrounds :: "u16 list \<Rightarrow> u16 \<times> u16 \<Rightarrow> u16 \<times> u16" where
  "unrounds ks = fold unround (rev ks)"

lemma unround_round [simp]: "unround k (round k p) = p"
  by (simp add: round_def unround_def xor.assoc)

lemma round_unround [simp]: "round k (unround k p) = p"
  by (simp add: round_def unround_def xor.assoc)

lemma unrounds_rounds [simp]: "unrounds ks (rounds ks p) = p"
  by (induction ks arbitrary: p) (simp_all add: rounds_def unrounds_def)

lemma rounds_unrounds [simp]: "rounds ks (unrounds ks p) = p"
proof (induction ks arbitrary: p rule: rev_induct)
  case Nil
  show ?case by (simp add: rounds_def unrounds_def)
next
  case (snoc k ks)
  then show ?case by (simp add: rounds_def unrounds_def)
qed

text \<open>Running a network backwards is running it forwards on swapped halves, keys reversed.\<close>

lemma unround_swap: "unround k (prod.swap p) = prod.swap (round k p)"
  by (simp add: round_def unround_def prod.swap_def)

lemma unrounds_swap: "unrounds ks (prod.swap p) = prod.swap (rounds (rev ks) p)"
proof -
  have "fold unround ks' (prod.swap p) = prod.swap (fold round ks' p)" for ks'
    by (induction ks' arbitrary: p) (simp_all add: unround_swap)
  then show ?thesis by (simp add: unrounds_def rounds_def)
qed

lemma rounds_rev_swap: "rounds (rev ks) (prod.swap (rounds ks p)) = prod.swap p"
proof -
  have "prod.swap (rounds (rev ks) (prod.swap (rounds ks p))) =
        unrounds ks (prod.swap (prod.swap (rounds ks p)))"
    by (simp only: unrounds_swap)
  also have "\<dots> = p" by simp
  finally show ?thesis by (metis swap_swap)
qed

lemma rounds_inject [simp]: "rounds ks p = rounds ks q \<longleftrightarrow> p = q"
  by (metis unrounds_rounds)

end

end
