(* ===== verification/Subaru_Security.thy ===== *)
theory Subaru_Security
  imports Feistel Core_Error
begin

text \<open>
  The SecurityAccess seed-to-key derivations of src/ecu/src/subaru_security.cpp: the Gen-A
  16-round Feistel cipher with its 5-bit S-box, its factory direction (the tester unwinds what the
  ECU ran) and the aftermarket direction, the EcuTek variant with its own S-box, the level-3 byte
  permutations, and the two eras that stay unimplemented.

  A \<open>span<u16 const, 16>\<close> of round keys is a list; \<open>u32\<close> states are split into halves as the
  code splits them. The locale \<open>feistel_network\<close> is interpreted on \<open>feistel_F\<close> and
  \<open>feistel_F_ecutek\<close>; the properties rest on its inversion laws.
\<close>

section \<open>Tables\<close>

definition kSBox :: "u8 list" where
  "kSBox =
  [0x05, 0x06, 0x07, 0x01, 0x09, 0x0c, 0x0d, 0x08,
   0x0a, 0x0d, 0x02, 0x0b, 0x0f, 0x04, 0x00, 0x03,
   0x0b, 0x04, 0x06, 0x00, 0x0f, 0x02, 0x0d, 0x09,
   0x05, 0x0c, 0x01, 0x0a, 0x03, 0x0d, 0x0e, 0x08]"

definition kSBoxEcuTek :: "u8 list" where
  "kSBoxEcuTek =
  [0x04, 0x02, 0x05, 0x01, 0x08, 0x0c, 0x0d, 0x08,
   0x0a, 0x0d, 0x02, 0x0b, 0x0f, 0x04, 0x00, 0x03,
   0x0b, 0x04, 0x06, 0x00, 0x0f, 0x02, 0x0d, 0x09,
   0x05, 0x0c, 0x01, 0x0a, 0x03, 0x0d, 0x0e, 0x08]"

definition kSaTableL1 :: "u16 list" where
  "kSaTableL1 =
  [0x794b, 0x3caf, 0x3019, 0x8b57, 0x52a0, 0xa77c, 0x38c9, 0xb0b5,
   0x6520, 0x3b66, 0xa09d, 0x2877, 0x479f, 0xb685, 0x7568, 0x84d7]"

definition kSaTableL35 :: "u16 list" where
  "kSaTableL35 =
  [0x78b1, 0x4625, 0x201c, 0x9ea5, 0xad6b, 0x35f4, 0xfd21, 0x5e71,
   0xb046, 0x7f4a, 0x4b75, 0x93f9, 0x1895, 0x8961, 0x3ecc, 0x862b]"

definition kSaTableL1Aftermarket :: "u16 list" where
  "kSaTableL1Aftermarket =
  [0x9ec3, 0x9190, 0x095b, 0xbb25, 0xf476, 0xe722, 0xb623, 0xb3b9,
   0xe513, 0x8c80, 0xc3a1, 0x5cb2, 0xe9ac, 0xc45b, 0xc832, 0x415c]"

definition kSaTableL35Aftermarket :: "u16 list" where
  "kSaTableL35Aftermarket =
  [0x8593, 0xc32d, 0x4402, 0x21d3, 0x8496, 0xfb45, 0x477d, 0xce15,
   0x7f48, 0xcc0d, 0xc771, 0x0562, 0x86f0, 0x107e, 0xbf37, 0x60c8]"

definition kFeistelRoundKeysSSMVFactory :: "u16 list" where
  "kFeistelRoundKeysSSMVFactory =
  [0x862b, 0x3ecc, 0x8961, 0x1895, 0x93f9, 0x4b75, 0x7f4a, 0xb046,
   0x5e71, 0xfd21, 0x35f4, 0xad6b, 0x9ea5, 0x201c, 0x4625, 0x78b1]"

definition kSaTableCobbFlash :: "u16 list" where
  "kSaTableCobbFlash =
  [0x5920, 0x4821, 0x14b5, 0xfdeb, 0xce83, 0x5a66, 0x02bc, 0xf90a,
   0x5a7d, 0xbbf7, 0x14ef, 0x9ffa, 0x8f61, 0x19ff, 0x73ee, 0x972d]"

definition kSaTableCobbMafSd :: "u16 list" where
  "kSaTableCobbMafSd =
  [0xaa74, 0xf6d9, 0xecab, 0x8b17, 0x6155, 0xa6d2, 0x496c, 0x75b8,
   0x9f2c, 0x7b27, 0xc6d1, 0xb485, 0x22b0, 0x90d4, 0xa684, 0x60bb]"

section \<open>The cipher\<close>

definition rol16 :: "u16 \<Rightarrow> nat \<Rightarrow> u16" where
  "rol16 v n0 =
     (let n = n0 mod 16 in
      if n = 0 then v
      else ucast (push_bit n (ucast v :: u32) OR drop_bit (16 - n) (ucast v :: u32)))"

definition feistel_F :: "u16 \<Rightarrow> u16 \<Rightarrow> u16" where
  "feistel_F x0 k =
     (let x = ucast (x0 XOR k) :: u32;
          i3 = push_bit 4 (x AND 0x0001) OR drop_bit 12 x;
          i2 = drop_bit 8 x AND 0x1F;
          i1 = drop_bit 4 x AND 0x1F;
          i0 = x AND 0x1F;
          y = push_bit 12 (ucast (kSBox ! unat i3)) OR push_bit 8 (ucast (kSBox ! unat i2)) OR
              push_bit 4 (ucast (kSBox ! unat i1)) OR (ucast (kSBox ! unat i0) :: u32) in
      rol16 (ucast y) 13)"

definition feistel_forward :: "u32 \<Rightarrow> u16 list \<Rightarrow> u32" where
  "feistel_forward state rk =
     fold (\<lambda>k state.
             let L = lo16 state;
                 H = hi16 state;
                 new_L = H XOR feistel_F L k;
                 new_H = L in
             join16 new_H new_L) rk state"

text \<open>The loop runs the index down from the last key.\<close>

definition feistel_inverse :: "u32 \<Rightarrow> u16 list \<Rightarrow> u32" where
  "feistel_inverse state rk =
     fold (\<lambda>k state.
             let L_new = lo16 state;
                 H_new = hi16 state;
                 L_old = H_new;
                 H_old = L_new XOR feistel_F L_old k in
             join16 H_old L_old) (rev rk) state"

definition wordswap32 :: "u32 \<Rightarrow> u32" where
  "wordswap32 v = drop_bit 16 v OR push_bit 16 v"

definition feistel_forward_with_swap :: "u32 \<Rightarrow> u16 list \<Rightarrow> u32" where
  "feistel_forward_with_swap state rk =
     (let (state_hi, state_lo) =
        fold (\<lambda>k (state_hi, state_lo).
                let f_out = feistel_F state_lo k;
                    new_lo = state_hi XOR f_out;
                    new_hi = state_lo in
                (new_hi, new_lo)) rk (hi16 state, lo16 state) in
      join16 state_lo state_hi)"

definition feistel_F_ecutek :: "u16 \<Rightarrow> u16 \<Rightarrow> u16" where
  "feistel_F_ecutek x0 k =
     (let x = ucast (x0 XOR k) :: u32;
          i3 = push_bit 4 (x AND 0x0001) OR drop_bit 12 x;
          i2 = drop_bit 8 x AND 0x1F;
          i1 = drop_bit 4 x AND 0x1F;
          i0 = x AND 0x1F;
          y = push_bit 12 (ucast (kSBoxEcuTek ! unat i3)) OR push_bit 8 (ucast (kSBoxEcuTek ! unat i2)) OR
              push_bit 4 (ucast (kSBoxEcuTek ! unat i1)) OR (ucast (kSBoxEcuTek ! unat i0) :: u32) in
      rol16 (ucast y) 13)"

definition feistel_forward_with_swap_ecutek :: "u32 \<Rightarrow> u16 list \<Rightarrow> u32" where
  "feistel_forward_with_swap_ecutek state rk =
     (let (state_hi, state_lo) =
        fold (\<lambda>k (state_hi, state_lo).
                let f_out = feistel_F_ecutek state_lo k;
                    new_lo = state_hi XOR f_out;
                    new_hi = state_lo in
                (new_hi, new_lo)) rk (hi16 state, lo16 state) in
      join16 state_lo state_hi)"

text \<open>\<open>b[0] .. b[3]\<close>: every caller has checked the length; \<open>write_u32_be\<close> is \<^const>\<open>be32\<close>.\<close>

definition read_u32_be :: "bytes \<Rightarrow> u32" where
  "read_u32_be b = push_bit 24 (ucast (b ! 0)) OR push_bit 16 (ucast (b ! 1)) OR
                   push_bit 8 (ucast (b ! 2)) OR ucast (b ! 3)"

definition kStubMsg :: string where
  "kStubMsg =
     ''subaru security key stub '' @ em_dash @ '' algorithm not provided for this Subaru era. '' @
     ''See src/ecu/include/st/ecu/subaru_security.hpp for which eras are '' @
     ''implemented in-tree and how to plug in others via '' @
     ''Flasher::set_security_key_fn(). Until then SecurityAccess at this level '' @
     ''will fail with this NotImplemented error.''"

definition not_implemented :: "bytes \<Rightarrow> bytes result" where
  "not_implemented seed = failure NotImplemented kStubMsg"

section \<open>The derivations\<close>

definition ssmcan1_l1_compute :: "bytes \<Rightarrow> u16 list \<Rightarrow> string \<Rightarrow> bytes result" where
  "ssmcan1_l1_compute seed rk variant_name =
     (if length seed \<noteq> 4 then
        failure InvalidArgument (''ssmcan1 ('' @ variant_name @
          '' L1): seed must be exactly 4 bytes, got '' @ dec_string (length seed))
      else
        let seed_packed = read_u32_be seed;
            state_post_rounds = wordswap32 seed_packed;
            internal_key = feistel_inverse state_post_rounds rk in
        Inr (be32 internal_key))"

definition ssmcan1_key_stub :: "bytes \<Rightarrow> bytes result" where
  "ssmcan1_key_stub seed = ssmcan1_l1_compute seed kSaTableL1 ''Gen-A L1''"

definition ssmcan1_l1_aftermarket :: "bytes \<Rightarrow> bytes result" where
  "ssmcan1_l1_aftermarket seed =
     (if length seed \<noteq> 4 then
        failure InvalidArgument (''ssmcan1 (Gen-A L1 aftermarket framework): '' @
          ''seed must be exactly 4 bytes, got '' @ dec_string (length seed))
      else Inr (be32 (feistel_forward_with_swap (read_u32_be seed) kSaTableL1Aftermarket)))"

definition apply_seed_perm_l3 :: "u32 \<Rightarrow> u32" where
  "apply_seed_perm_l3 wire_seed =
     (let in0 = byte_at 24 wire_seed; in1 = byte_at 16 wire_seed;
          in2 = byte_at 8 wire_seed; in3 = byte_at 0 wire_seed;
          out0 = in2; out1 = in0; out2 = in1; out3 = in3 in
      push_bit 24 (ucast out0) OR push_bit 16 (ucast out1) OR push_bit 8 (ucast out2) OR ucast out3)"

definition apply_inverse_key_perm_l3 :: "u32 \<Rightarrow> u32" where
  "apply_inverse_key_perm_l3 state =
     (let s0 = byte_at 24 state; s1 = byte_at 16 state;
          s2 = byte_at 8 state; s3 = byte_at 0 state;
          k0 = s3; k1 = s1; k2 = s2; k3 = s0 in
      push_bit 24 (ucast k0) OR push_bit 16 (ucast k1) OR push_bit 8 (ucast k2) OR ucast k3)"

definition ssmcan1_l3_aftermarket :: "bytes \<Rightarrow> bytes result" where
  "ssmcan1_l3_aftermarket seed =
     (if length seed \<noteq> 4 then
        failure InvalidArgument (''ssmcan1 (Gen-A L3 aftermarket framework): '' @
          ''seed must be exactly 4 bytes, got '' @ dec_string (length seed))
      else
        let permuted_seed = apply_seed_perm_l3 (read_u32_be seed);
            cipher_out = feistel_forward_with_swap permuted_seed kSaTableL35Aftermarket;
            wire_key_u32 = apply_inverse_key_perm_l3 cipher_out in
        Inr (be32 wire_key_u32))"

definition ssmcan1_l1_aftermarket_v1_flash :: "bytes \<Rightarrow> bytes result" where
  "ssmcan1_l1_aftermarket_v1_flash seed =
     (if length seed \<noteq> 4 then
        failure InvalidArgument (''ssmcan1 (Gen-A L1 COBB-flash): seed must '' @
          ''be exactly 4 bytes, got '' @ dec_string (length seed))
      else Inr (be32 (feistel_forward_with_swap (read_u32_be seed) kSaTableCobbFlash)))"

definition ssmcan1_l1_ecutek :: "bytes \<Rightarrow> bytes result" where
  "ssmcan1_l1_ecutek seed =
     (if length seed \<noteq> 4 then
        failure InvalidArgument (''ssmcan1 (Gen-A L1 EcuTek): seed must be '' @
          ''exactly 4 bytes, got '' @ dec_string (length seed))
      else Inr (be32 (feistel_forward_with_swap_ecutek (read_u32_be seed) kSaTableL1)))"

definition ssmcan1_l35_ecutek :: "bytes \<Rightarrow> bytes result" where
  "ssmcan1_l35_ecutek seed =
     (if length seed \<noteq> 4 then
        failure InvalidArgument (''ssmcan1 (Gen-A L35 EcuTek): seed must be '' @
          ''exactly 4 bytes, got '' @ dec_string (length seed))
      else
        let permuted_seed = apply_seed_perm_l3 (read_u32_be seed);
            cipher_out = feistel_forward_with_swap_ecutek permuted_seed kSaTableL35;
            wire_key_u32 = apply_inverse_key_perm_l3 cipher_out in
        Inr (be32 wire_key_u32))"

definition ssmcan1_l1_ssmv_factory :: "bytes \<Rightarrow> bytes result" where
  "ssmcan1_l1_ssmv_factory seed =
     (if length seed \<noteq> 4 then
        failure InvalidArgument (''ssmcan1 (Gen-A L1 SSM-V factory): seed '' @
          ''must be exactly 4 bytes, got '' @ dec_string (length seed))
      else Inr (be32 (feistel_forward_with_swap (read_u32_be seed) kFeistelRoundKeysSSMVFactory)))"

definition ssmcan1_l1_aftermarket_v1_maf_sd :: "bytes \<Rightarrow> bytes result" where
  "ssmcan1_l1_aftermarket_v1_maf_sd seed =
     (if length seed \<noteq> 4 then
        failure InvalidArgument (''ssmcan1 (Gen-A L1 COBB-MAF-SD): seed must '' @
          ''be exactly 4 bytes, got '' @ dec_string (length seed))
      else Inr (be32 (feistel_forward_with_swap (read_u32_be seed) kSaTableCobbMafSd)))"

definition ssmk1_key_stub :: "bytes \<Rightarrow> bytes result" where
  "ssmk1_key_stub seed = not_implemented seed"

definition cy1_aes_key_stub :: "bytes \<Rightarrow> bytes result" where
  "cy1_aes_key_stub seed = not_implemented seed"

section \<open>The routines as Feistel networks\<close>

interpretation sa: feistel_network feistel_F .

interpretation ecutek: feistel_network feistel_F_ecutek .

lemma feistel_forward_step:
  "halves (let L = lo16 s; H = hi16 s; new_L = H XOR feistel_F L k; new_H = L in join16 new_H new_L)
   = sa.round k (halves s)"
  by (simp add: halves_def sa.round_def Let_def)

lemma halves_feistel_forward: "halves (feistel_forward s rk) = sa.rounds rk (halves s)"
  by (induction rk arbitrary: s)
     (simp_all add: feistel_forward_def sa.rounds_def feistel_forward_step [unfolded Let_def] Let_def
        del: halves_join16)

lemma feistel_inverse_step:
  "halves (let L_new = lo16 s; H_new = hi16 s; L_old = H_new; H_old = L_new XOR feistel_F L_old k in
           join16 H_old L_old)
   = sa.unround k (halves s)"
  by (simp add: halves_def sa.unround_def Let_def)

lemma halves_feistel_inverse: "halves (feistel_inverse s rk) = sa.unrounds rk (halves s)"
proof -
  have "halves (fold (\<lambda>k state. let L_new = lo16 state; H_new = hi16 state; L_old = H_new;
                 H_old = L_new XOR feistel_F L_old k in join16 H_old L_old) ks s)
        = fold sa.unround ks (halves s)" for ks
    by (induction ks arbitrary: s) 
      (simp_all add: feistel_inverse_step [unfolded Let_def] Let_def del: halves_join16)
  then show ?thesis by (simp add: feistel_inverse_def sa.unrounds_def)
qed

lemma halves_wordswap32: "halves (wordswap32 v) = prod.swap (halves v)"
proof -
  have "hi16 (wordswap32 v) = lo16 v" "lo16 (wordswap32 v) = hi16 v"
    by (rule bit_word_eqI;
        auto simp: wordswap32_def bit_or_iff bit_push_bit_iff bit_drop_bit_eq
          dest: bit_imp_le_length)+
  then show ?thesis by (simp add: halves_def)
qed

lemma halves_forward_with_swap:
  "halves (feistel_forward_with_swap s rk) = prod.swap (sa.rounds rk (halves s))"
proof -
  have "fold (\<lambda>k (state_hi, state_lo). let f_out = feistel_F state_lo k;
                new_lo = state_hi XOR f_out; new_hi = state_lo in (new_hi, new_lo)) ks p
        = fold sa.round ks p" for ks p
    by (induction ks arbitrary: p) (auto simp: sa.round_def Let_def split: prod.splits)
  then show ?thesis
    by (simp add: feistel_forward_with_swap_def sa.rounds_def halves_def prod.swap_def
        split: prod.splits)
qed

lemma halves_forward_with_swap_ecutek:
  "halves (feistel_forward_with_swap_ecutek s rk) = prod.swap (ecutek.rounds rk (halves s))"
proof -
  have "fold (\<lambda>k (state_hi, state_lo). let f_out = feistel_F_ecutek state_lo k;
                new_lo = state_hi XOR f_out; new_hi = state_lo in (new_hi, new_lo)) ks p
        = fold ecutek.round ks p" for ks p
    by (induction ks arbitrary: p) (auto simp: ecutek.round_def Let_def split: prod.splits)
  then show ?thesis
    by (simp add: feistel_forward_with_swap_ecutek_def ecutek.rounds_def halves_def prod.swap_def
        split: prod.splits)
qed

section \<open>Known answers\<close>

text \<open>Captured seed and key pairs the unit tests pin, evaluated in the cipher core.\<close>

lemmas cipher_eval_defs =
  hi16_def lo16_def join16_def feistel_F_def rol16_def kSBox_def feistel_inverse_def
  feistel_forward_with_swap_def

lemma factory_known_answer: "feistel_inverse (wordswap32 0x4BC3CC87) kSaTableL1 = 0xA73FED09"
  by (simp add: cipher_eval_defs wordswap32_def kSaTableL1_def)

lemma aftermarket_known_answer:
  "feistel_forward_with_swap 0xB9A65C23 kSaTableL1Aftermarket = 0x13EF9295"
  by (simp add: cipher_eval_defs kSaTableL1Aftermarket_def)

lemma aftermarket_l3_core: "feistel_forward_with_swap 0xFE4ADF07 kSaTableL35Aftermarket = 0x06243A24"
  by (simp add: cipher_eval_defs kSaTableL35Aftermarket_def)

lemma aftermarket_l3_known_answer:
  "ssmcan1_l3_aftermarket [0x4A, 0xDF, 0xFE, 0x07] = Inr [0x24, 0x24, 0x3A, 0x06]"
proof -
  have "apply_seed_perm_l3 (read_u32_be [0x4A, 0xDF, 0xFE, 0x07]) = 0xFE4ADF07"
    by (simp add: read_u32_be_def apply_seed_perm_l3_def byte_at_def)
  moreover have "be32 (apply_inverse_key_perm_l3 0x06243A24) = [0x24, 0x24, 0x3A, 0x06]"
    by (simp add: be32_def apply_inverse_key_perm_l3_def byte_at_def)
  ultimately show ?thesis
    by (simp add: ssmcan1_l3_aftermarket_def aftermarket_l3_core)
qed

section \<open>Inversion\<close>

lemma bit_read_u32_be:
  assumes "length b = 4"
  shows "byte_at 24 (read_u32_be b) = b ! 0" "byte_at 16 (read_u32_be b) = b ! 1"
    "byte_at 8 (read_u32_be b) = b ! 2" "byte_at 0 (read_u32_be b) = b ! 3"
  by (rule bit_word_eqI;
      auto simp: read_u32_be_def bit_or_iff bit_push_bit_iff simp del: byte_at_0
        dest: bit_imp_le_length)+

lemma be32_read_u32_be [simp]:
  assumes "length b = 4"
  shows "be32 (read_u32_be b) = b"
proof -
  obtain b0 b1 b2 b3 where "b = [b0, b1, b2, b3]"
    using assms by (auto simp: eval_nat_numeral length_Suc_conv)
  then show ?thesis
    unfolding be32_def using bit_read_u32_be [OF assms] by (simp del: byte_at_0)
qed

lemma read_u32_be_be32 [simp]: "read_u32_be (be32 v) = v"
  by (metis be32_inject be32_read_u32_be length_be32)

lemma wordswap32_wordswap32 [simp]: "wordswap32 (wordswap32 v) = v"
  by (simp flip: halves_inject add: halves_wordswap32)

lemma feistel_inverse_forward [simp]: "feistel_inverse (feistel_forward s rk) rk = s"
  by (simp flip: halves_inject add: halves_feistel_forward halves_feistel_inverse)

lemma feistel_forward_inverse [simp]: "feistel_forward (feistel_inverse s rk) rk = s"
  by (simp flip: halves_inject add: halves_feistel_forward halves_feistel_inverse)

text \<open>The baked-in swap: the aftermarket routine is the ECU's forward run and its final swap.\<close>

lemma feistel_forward_with_swap_eq:
  "feistel_forward_with_swap s rk = wordswap32 (feistel_forward s rk)"
  by (simp flip: halves_inject
      add: halves_forward_with_swap halves_wordswap32 halves_feistel_forward)

lemma feistel_forward_with_swap_rev:
  "feistel_forward_with_swap s (rev rk) = feistel_inverse (wordswap32 s) rk"
  by (simp flip: halves_inject
      add: halves_forward_with_swap halves_wordswap32 halves_feistel_inverse sa.unrounds_swap)

lemma feistel_forward_with_swap_inject [simp]:
  "feistel_forward_with_swap s rk = feistel_forward_with_swap s' rk \<longleftrightarrow> s = s'"
  by (simp flip: halves_inject add: halves_forward_with_swap inj_eq [OF inj_swap])

lemma feistel_forward_with_swap_ecutek_inject [simp]:
  "feistel_forward_with_swap_ecutek s rk = feistel_forward_with_swap_ecutek s' rk \<longleftrightarrow> s = s'"
  by (simp flip: halves_inject add: halves_forward_with_swap_ecutek inj_eq [OF inj_swap])

lemma feistel_inverse_inject [simp]: "feistel_inverse s rk = feistel_inverse s' rk \<longleftrightarrow> s = s'"
  by (simp flip: halves_inject add: halves_feistel_inverse) (metis sa.rounds_unrounds)

lemma wordswap32_inject [simp]: "wordswap32 s = wordswap32 s' \<longleftrightarrow> s = s'"
  by (metis wordswap32_wordswap32)

lemma read_u32_be_inject:
  "length s = 4 \<Longrightarrow> length s' = 4 \<Longrightarrow> read_u32_be s = read_u32_be s' \<longleftrightarrow> s = s'"
  by (metis be32_read_u32_be)

lemma bytes_of_perm_l3:
  "byte_at 24 (apply_seed_perm_l3 v) = byte_at 8 v" "byte_at 16 (apply_seed_perm_l3 v) = byte_at 24 v"
  "byte_at 8 (apply_seed_perm_l3 v) = byte_at 16 v" "byte_at 0 (apply_seed_perm_l3 v) = byte_at 0 v"
  "byte_at 24 (apply_inverse_key_perm_l3 v) = byte_at 0 v"
  "byte_at 16 (apply_inverse_key_perm_l3 v) = byte_at 16 v"
  "byte_at 8 (apply_inverse_key_perm_l3 v) = byte_at 8 v"
  "byte_at 0 (apply_inverse_key_perm_l3 v) = byte_at 24 v"
  by (rule bit_word_eqI;
      auto simp: apply_seed_perm_l3_def apply_inverse_key_perm_l3_def Let_def bit_or_iff
        bit_push_bit_iff simp del: byte_at_0 dest: bit_imp_le_length)+

lemma apply_seed_perm_l3_inject [simp]:
  "apply_seed_perm_l3 v = apply_seed_perm_l3 w \<longleftrightarrow> v = w"
  by (metis be32_def be32_inject bytes_of_perm_l3(1-4))

lemma apply_inverse_key_perm_l3_inject [simp]:
  "apply_inverse_key_perm_l3 v = apply_inverse_key_perm_l3 w \<longleftrightarrow> v = w"
  by (metis be32_def be32_inject bytes_of_perm_l3(5-8))

lemmas derivation_defs =
  ssmcan1_key_stub_def ssmcan1_l1_compute_def ssmcan1_l1_aftermarket_def
  ssmcan1_l3_aftermarket_def ssmcan1_l1_aftermarket_v1_flash_def
  ssmcan1_l1_aftermarket_v1_maf_sd_def ssmcan1_l1_ecutek_def ssmcan1_l35_ecutek_def
  ssmcan1_l1_ssmv_factory_def

text \<open>An injective total map of four-byte seeds to four-byte keys is onto.\<close>

lemma bij_seed_to_key:
  fixes f :: "bytes \<Rightarrow> bytes result"
  assumes f: "\<And>s. length s = 4 \<Longrightarrow> f s = Inr (be32 (g (read_u32_be s)))"
    and g: "\<And>v w. g v = g w \<Longrightarrow> v = w"
  shows "bij_betw f {s. length s = 4} (Inr ` {k. length k = 4})"
proof -
  let ?S = "{s :: bytes. length s = 4}"
  let ?h = "\<lambda>s. be32 (g (read_u32_be s))"
  have fin: "finite ?S"
    using finite_lists_length_eq [of "UNIV :: u8 set" 4] by simp
  have inj: "inj_on ?h ?S"
    by (auto simp: inj_on_def read_u32_be_inject dest: g)
  have "?h ` ?S = ?S"
    by (rule endo_inj_surj [OF fin _ inj]) auto
  then have "bij_betw (\<lambda>s. Inr (?h s) :: bytes result) ?S (Inr ` ?S)"
    using inj by (auto simp: bij_betw_def inj_on_def image_image [symmetric] simp flip: image_image)
  then show ?thesis
    by (rule bij_betw_cong [THEN iffD2, rotated]) (simp add: f)
qed

section \<open>Properties\<close>

text \<open>C33: Tester and ECU agree on the factory direction: for every internal key and round-key table,
  the seed the ECU emits (its 16 forward rounds, then the wordswap) makes the tester's derivation
  return exactly that internal key.\<close>

theorem tester_recovers_ecu_key:
  "ssmcan1_l1_compute (be32 (wordswap32 (feistel_forward K rk))) rk name = Inr (be32 K)"
  by (simp add: ssmcan1_l1_compute_def)

text \<open>The SSM-V factory derivation, forward rounds and swap with its own table, is on every
  four-byte seed the Gen-A factory direction (swap and inverse rounds) with the L3/L5 table; any
  other seed length is refused by both with the same code.\<close>

theorem ssmv_factory_is_factory_l35:
  "(if length seed = 4 then ssmcan1_l1_ssmv_factory seed = ssmcan1_l1_compute seed kSaTableL35 name
    else code_of (ssmcan1_l1_ssmv_factory seed) = Some InvalidArgument \<and>
         code_of (ssmcan1_l1_compute seed kSaTableL35 name) = Some InvalidArgument)"
proof -
  have rev: "kFeistelRoundKeysSSMVFactory = rev kSaTableL35"
    by (simp add: kFeistelRoundKeysSSMVFactory_def kSaTableL35_def)
  show ?thesis
    by (simp add: rev ssmcan1_l1_ssmv_factory_def ssmcan1_l1_compute_def
        feistel_forward_with_swap_rev)
qed

text \<open>Each of the eight derivations is a bijection of the four-byte seeds onto the four-byte
  keys, so no two seeds share a key and every key occurs.\<close>

theorem key_derivations_bijective:
  "list_all (\<lambda>f. bij_betw f {s. length s = 4} (Inr ` {k. length k = 4}))
     [ssmcan1_key_stub, ssmcan1_l1_aftermarket, ssmcan1_l3_aftermarket,
      ssmcan1_l1_aftermarket_v1_flash, ssmcan1_l1_aftermarket_v1_maf_sd, ssmcan1_l1_ecutek,
      ssmcan1_l35_ecutek, ssmcan1_l1_ssmv_factory]"
  unfolding list.pred_inject
  apply (intro conjI TrueI)
         apply (rule bij_seed_to_key, simp add: derivation_defs Let_def, simp)+
  apply simp
  done

end
