(* ===== verification/Bulk_Cipher.thy ===== *)
theory Bulk_Cipher
  imports Subaru_Security
begin

text \<open>
  The wire cipher of the \<open>0xB6\<close> bulk transfer (src/ecu/src/bulk_reflash_cipher.cpp and its
  header): four Feistel rounds per big-endian 32-bit block, ECB, a partial last block dropped. Its
  round function is written differently from the SecurityAccess one (an extraction loop with the
  firmware's bit-set trick) and is proved equal to it.

  The process-global arming flag is a boolean the caller of \<open>Flasher::execute\<close> supplies; see
  Flash_Execute.
\<close>

section \<open>The cipher\<close>

definition b6_kSBox :: "u8 list" where
  "b6_kSBox =
  [0x05, 0x06, 0x07, 0x01, 0x09, 0x0c, 0x0d, 0x08,
   0x0a, 0x0d, 0x02, 0x0b, 0x0f, 0x04, 0x00, 0x03,
   0x0b, 0x04, 0x06, 0x00, 0x0f, 0x02, 0x0d, 0x09,
   0x05, 0x0c, 0x01, 0x0a, 0x03, 0x0d, 0x0e, 0x08]"

definition kRoundKeysDecrypt :: "u16 list" where
  "kRoundKeysDecrypt = [0x5FB1, 0xA7CA, 0x42DA, 0xB740]"

definition kRoundKeysEncrypt :: "u16 list" where
  "kRoundKeysEncrypt = [0xB740, 0x42DA, 0xA7CA, 0x5FB1]"

definition ror16 :: "u16 \<Rightarrow> nat \<Rightarrow> u16" where
  "ror16 v n = ucast (drop_bit n (ucast v :: u32) OR push_bit (16 - n) (ucast v :: u32))"

text \<open>One turn of the nibble extraction loop: the walking value and the nibbles so far.\<close>

definition b6_extract :: "u32 \<Rightarrow> nat \<Rightarrow> u32 \<times> u8 list \<Rightarrow> u32 \<times> u8 list" where
  "b6_extract bit0_save i st =
     (case st of (r2, nibbles) \<Rightarrow>
        let r2' = (if i = 3 \<and> bit0_save = 1 then r2 OR 0x10 else r2) in
        (drop_bit 4 (r2' AND 0xFFFF), nibbles @ [ucast (r2' AND 0x1F)]))"

definition f_round :: "u16 \<Rightarrow> u16 \<Rightarrow> u16" where
  "f_round r round_key =
     (let x = ucast (r XOR round_key) :: u32;
          bit0_save = x AND 1;
          nibbles = snd (fold (b6_extract bit0_save) [0..<4] (x, []));
          subs0 = ucast (b6_kSBox ! unat (nibbles ! 0)) :: u32;
          subs1 = ucast (b6_kSBox ! unat (nibbles ! 1)) :: u32;
          subs2 = ucast (b6_kSBox ! unat (nibbles ! 2)) :: u32;
          subs3 = ucast (b6_kSBox ! unat (nibbles ! 3)) :: u32;
          packed = ucast (subs0 OR push_bit 4 subs1 OR push_bit 8 subs2 OR push_bit 12 subs3) in
      ror16 packed 3)"

definition feistel_block :: "u32 \<Rightarrow> u16 list \<Rightarrow> u32" where
  "feistel_block block round_keys =
     (let (L, R) =
        fold (\<lambda>k (L, R).
                let f = f_round R k;
                    new_R = L XOR f in
                (R, new_R)) round_keys (hi16 block, lo16 block) in
      join16 R L)"

fun transform_bytes :: "bytes \<Rightarrow> u16 list \<Rightarrow> bytes" where
  "transform_bytes (b0 # b1 # b2 # b3 # rest) round_keys =
     (let block = push_bit 24 (ucast b0) OR push_bit 16 (ucast b1) OR push_bit 8 (ucast b2) OR
                  ucast b3;
          transformed = feistel_block block round_keys in
      byte_at 24 transformed # byte_at 16 transformed # byte_at 8 transformed #
      byte_at 0 transformed # transform_bytes rest round_keys)"
| "transform_bytes input round_keys = []"

definition encrypt_bytes :: "bytes \<Rightarrow> bytes" where
  "encrypt_bytes plaintext = transform_bytes plaintext kRoundKeysEncrypt"

definition decrypt_bytes :: "bytes \<Rightarrow> bytes" where
  "decrypt_bytes ciphertext = transform_bytes ciphertext kRoundKeysDecrypt"

section \<open>The round function\<close>

interpretation b6: feistel_network f_round .

lemma b6_nibbles:
  "snd (fold (b6_extract bit0) [0..<4] (x, [])) =
     [ucast (x AND 0x1F),
      ucast (drop_bit 4 (x AND 0xFFFF) AND 0x1F),
      ucast (drop_bit 4 (drop_bit 4 (x AND 0xFFFF) AND 0xFFFF) AND 0x1F),
      ucast ((if bit0 = 1 then drop_bit 4 (drop_bit 4 (drop_bit 4 (x AND 0xFFFF) AND 0xFFFF) AND 0xFFFF) OR 0x10
              else drop_bit 4 (drop_bit 4 (drop_bit 4 (x AND 0xFFFF) AND 0xFFFF) AND 0xFFFF)) AND 0x1F)]"
  by (simp add: b6_extract_def upt_rec Let_def)

lemma ror16_3: "ror16 v 3 = rol16 v 13"
  by (simp add: ror16_def rol16_def or.commute)

lemma bit_0x1F [simp]: "bit (0x1F :: u32) n \<longleftrightarrow> n < 5"
proof -
  have "(0x1F :: u32) = mask 5" by (simp add: mask_eq_exp_minus_1)
  then show ?thesis by (simp only: bit_mask_iff) auto
qed

lemma bit_0x10 [simp]: "bit (0x10 :: u32) n \<longleftrightarrow> n = 4"
proof -
  have "(0x10 :: u32) = push_bit 4 1" by simp
  then show ?thesis by (simp only: bit_push_bit_iff) (auto simp: bit_1_iff)
qed

lemma and_1_eq_1_iff: "(x :: u32) AND 1 = 1 \<longleftrightarrow> bit x 0"
  by (simp add: and_one_eq odd_iff_mod_2_eq_one bit_0)

lemma b6_kSBox_eq: "b6_kSBox = kSBox"
  by (simp add: b6_kSBox_def kSBox_def)

lemma numeral_nths:
  "[a, b, c, d] ! 1 = b" "[a, b, c, d] ! 2 = c" "[a, b, c, d] ! 3 = d"
  by simp_all

lemma f_round_index:
  fixes y :: u16
  defines "x \<equiv> ucast y :: u32"
  shows "unat (ucast (x AND 0x1F) :: u8) = unat (x AND 0x1F)"
    "unat (ucast (drop_bit 4 (x AND 0xFFFF) AND 0x1F) :: u8) = unat (drop_bit 4 x AND 0x1F)"
    "unat (ucast (drop_bit 4 (drop_bit 4 (x AND 0xFFFF) AND 0xFFFF) AND 0x1F) :: u8) =
       unat (drop_bit 8 x AND 0x1F)"
    "unat (ucast ((if x AND 1 = 1
             then drop_bit 4 (drop_bit 4 (drop_bit 4 (x AND 0xFFFF) AND 0xFFFF) AND 0xFFFF) OR 0x10
             else drop_bit 4 (drop_bit 4 (drop_bit 4 (x AND 0xFFFF) AND 0xFFFF) AND 0xFFFF)) AND 0x1F) :: u8) =
       unat (push_bit 4 (x AND 0x0001) OR drop_bit 12 x)"
proof -
  have eq: "unat (ucast v :: u8) = unat w" if "ucast (ucast v :: u8) = w" for v w :: u32
  proof -
    have "unat w = unat (ucast (ucast v :: u8) :: u32)" using that by simp
    also have "\<dots> = unat (ucast v :: u8)" by (simp add: unsigned_ucast_eq unsigned_take_bit_eq)
    finally show ?thesis ..
  qed
  show "unat (ucast (x AND 0x1F) :: u8) = unat (x AND 0x1F)"
    "unat (ucast (drop_bit 4 (x AND 0xFFFF) AND 0x1F) :: u8) = unat (drop_bit 4 x AND 0x1F)"
    "unat (ucast (drop_bit 4 (drop_bit 4 (x AND 0xFFFF) AND 0xFFFF) AND 0x1F) :: u8) =
       unat (drop_bit 8 x AND 0x1F)"
    "unat (ucast ((if x AND 1 = 1
             then drop_bit 4 (drop_bit 4 (drop_bit 4 (x AND 0xFFFF) AND 0xFFFF) AND 0xFFFF) OR 0x10
             else drop_bit 4 (drop_bit 4 (drop_bit 4 (x AND 0xFFFF) AND 0xFFFF) AND 0xFFFF)) AND 0x1F) :: u8) =
       unat (push_bit 4 (x AND 0x0001) OR drop_bit 12 x)"
       apply (rule eq, rule bit_word_eqI)
       apply (auto simp: bit_and_iff bit_ucast_iff simp del: bit_numeral_word_iff drop_bit_and)[1]
      apply (rule eq, rule bit_word_eqI)
      apply (auto simp: bit_and_iff bit_ucast_iff bit_drop_bit_eq simp del: bit_numeral_word_iff drop_bit_and)[1]
     apply (rule eq, rule bit_word_eqI)
     apply (auto simp: bit_and_iff bit_ucast_iff bit_drop_bit_eq simp del: bit_numeral_word_iff drop_bit_and)[1]
    apply (rule eq, rule bit_word_eqI)
    apply (auto simp: and_1_eq_1_iff bit_and_iff bit_or_iff bit_ucast_iff bit_drop_bit_eq bit_push_bit_iff bit_1_iff x_def
        simp del: bit_numeral_word_iff drop_bit_and dest: bit_imp_le_length)[1]
    done
qed

section \<open>Blocks and buffers\<close>

lemma halves_feistel_block: "halves (feistel_block v ks) = prod.swap (b6.rounds ks (halves v))"
proof -
  have "fold (\<lambda>k (L, R). let f = f_round R k; new_R = L XOR f in (R, new_R)) ks' p
        = fold b6.round ks' p" for ks' p
    by (induction ks' arbitrary: p) (auto simp: b6.round_def Let_def split: prod.splits)
  then show ?thesis
    by (simp add: feistel_block_def b6.rounds_def halves_def prod.swap_def split: prod.splits)
qed

lemma feistel_block_rev: "feistel_block (feistel_block v ks) (rev ks) = v"
  by (simp flip: halves_inject add: halves_feistel_block b6.rounds_rev_swap)

lemma kRoundKeysEncrypt_rev: "kRoundKeysEncrypt = rev kRoundKeysDecrypt"
  by (simp add: kRoundKeysEncrypt_def kRoundKeysDecrypt_def)

lemma feistel_block_decrypt [simp]:
  "feistel_block (feistel_block v kRoundKeysEncrypt) kRoundKeysDecrypt = v"
  using feistel_block_rev [of v kRoundKeysEncrypt] by (simp add: kRoundKeysEncrypt_rev)

lemma transform_bytes_block:
  "transform_bytes (b0 # b1 # b2 # b3 # rest) ks =
     be32 (feistel_block (read_u32_be [b0, b1, b2, b3]) ks) @ transform_bytes rest ks"
  by (simp add: be32_def read_u32_be_def Let_def)

lemma transform_bytes_be32 [simp]:
  "transform_bytes (be32 v @ rest) ks = be32 (feistel_block v ks) @ transform_bytes rest ks"
proof -
  have "transform_bytes (be32 v @ rest) ks =
        be32 (feistel_block (read_u32_be (be32 v)) ks) @ transform_bytes rest ks"
    unfolding be32_def append_Cons append_Nil transform_bytes_block ..
  then show ?thesis by simp
qed

lemma blocks_induct [case_names short block]:
  assumes short: "\<And>xs. length xs < 4 \<Longrightarrow> P xs"
    and block: "\<And>b0 b1 b2 b3 rest. P rest \<Longrightarrow> P (b0 # b1 # b2 # b3 # rest)"
  shows "P (xs :: 'a list)"
proof (induction xs rule: length_induct)
  case (1 xs)
  show ?case
  proof (cases "length xs < 4")
    case False
    then obtain b0 b1 b2 b3 rest where xs: "xs = b0 # b1 # b2 # b3 # rest"
      by (auto simp: not_less numeral_eq_Suc Suc_le_length_iff)
    with 1 show ?thesis by (auto intro: block)
  qed (rule short)
qed

lemma transform_bytes_short: "length xs < 4 \<Longrightarrow> transform_bytes xs ks = []"
  by (cases "(xs, ks)" rule: transform_bytes.cases) auto

lemma length_transform_bytes: "length (transform_bytes xs ks) = 4 * (length xs div 4)"
proof (induction xs rule: blocks_induct)
  case (block b0 b1 b2 b3 rest)
  have "Suc (Suc (Suc (Suc n))) div 4 = Suc (n div 4)" for n by presburger
  with block show ?case
    by (simp add: transform_bytes_block del: transform_bytes.simps(1))
qed (simp add: transform_bytes_short)

lemma transform_bytes_append:
  "4 dvd length xs \<Longrightarrow> transform_bytes (xs @ ys) ks = transform_bytes xs ks @ transform_bytes ys ks"
proof (induction xs rule: blocks_induct)
  case (short xs)
  then have "xs = []" by (auto dest: dvd_imp_le)
  then show ?case by simp
next
  case (block b0 b1 b2 b3 rest)
  have "4 dvd Suc (Suc (Suc (Suc n))) \<Longrightarrow> 4 dvd n" for n :: nat by presburger
  with block show ?case
    by (simp add: transform_bytes_block del: transform_bytes.simps(1))
qed

lemma transform_bytes_decrypt:
  "transform_bytes (transform_bytes xs kRoundKeysEncrypt) kRoundKeysDecrypt
     = take (4 * (length xs div 4)) xs"
proof (induction xs rule: blocks_induct)
  case (block b0 b1 b2 b3 rest)
  have "be32 (read_u32_be [b0, b1, b2, b3]) = [b0, b1, b2, b3]"
    by (rule be32_read_u32_be) simp
  moreover have "4 * (Suc (Suc (Suc (Suc n))) div 4) = Suc (Suc (Suc (Suc (4 * (n div 4)))))" for n
    by presburger
  ultimately show ?case
    using block by (simp add: transform_bytes_block del: transform_bytes.simps(1))
qed (simp add: transform_bytes_short)

section \<open>Properties\<close>

text \<open>The extraction loop with the bit-set trick computes the same round function as the
  SecurityAccess cipher's direct 5-bit lookups and rotate left by 13.\<close>

theorem f_round_eq_feistel_F: "f_round r k = feistel_F r k"
  by (simp only: f_round_def feistel_F_def Let_def b6_nibbles nth_Cons_0 nth_Cons_Suc numeral_nths
      f_round_index b6_kSBox_eq ror16_3)
     (simp only: ac_simps)

text \<open>C37: Decrypting an encrypted buffer gives back exactly its whole 4-byte blocks: on aligned
  buffers the cipher is invertible, and a partial last block is lost.\<close>

theorem decrypt_encrypt_bytes:
  "decrypt_bytes (encrypt_bytes p) = take (4 * (length p div 4)) p"
  by (simp add: decrypt_bytes_def encrypt_bytes_def transform_bytes_decrypt)

end
