(* ===== verification/Effects.thy ===== *)
theory Effects
  imports Core_Error
begin

text \<open>
  Imperative code with early returns and possibly endless loops, as a function from a state to
  \<open>None\<close> (does not return) or an outcome and a state; the outcome is \<open>Inl\<close> for an early
  \<open>return\<close> of the enclosing function and \<open>Inr\<close> for falling through. \<open>wp m Q R s\<close> says that
  \<open>m\<close> started in \<open>s\<close> does return, in a state satisfying \<open>Q\<close> if it falls through and \<open>R\<close> if it
  returned early. The rules collected in \<open>wp_rules\<close> compute it.
\<close>

named_theorems wp_rules "weakest preconditions of the program combinators"

type_synonym ('s, 'o, 'a) prog = "'s \<Rightarrow> (('o + 'a) \<times> 's) option"

definition skip_with :: "'a \<Rightarrow> ('s, 'o, 'a) prog" where
  "skip_with a = (\<lambda>s. Some (Inr a, s))"

definition return_early :: "'o \<Rightarrow> ('s, 'o, 'a) prog" where
  "return_early out = (\<lambda>s. Some (Inl out, s))"

definition seq :: "('s, 'o, 'a) prog \<Rightarrow> ('a \<Rightarrow> ('s, 'o, 'b) prog) \<Rightarrow> ('s, 'o, 'b) prog" where
  "seq m k = (\<lambda>s. case m s of
       None \<Rightarrow> None
     | Some (Inl out, s') \<Rightarrow> Some (Inl out, s')
     | Some (Inr a, s') \<Rightarrow> k a s')"

definition update_state :: "('s \<Rightarrow> 's) \<Rightarrow> ('s, 'o, unit) prog" where
  "update_state f = (\<lambda>s. Some (Inr (), f s))"

definition perform :: "('s \<Rightarrow> 'a \<times> 's) \<Rightarrow> ('s, 'o, 'a) prog" where
  "perform f = (\<lambda>s. case f s of (a, s') \<Rightarrow> Some (Inr a, s'))"

fun for_each :: "('x \<Rightarrow> ('s, 'o, unit) prog) \<Rightarrow> 'x list \<Rightarrow> ('s, 'o, unit) prog" where
  "for_each body [] = skip_with ()"
| "for_each body (x # xs) = seq (body x) (\<lambda>_. for_each body xs)"

definition wp :: "('s, 'o, 'a) prog \<Rightarrow> ('a \<Rightarrow> 's \<Rightarrow> bool) \<Rightarrow> ('o \<Rightarrow> 's \<Rightarrow> bool) \<Rightarrow> 's \<Rightarrow> bool" where
  "wp m Q R s = (case m s of
       None \<Rightarrow> False
     | Some (Inl out, s') \<Rightarrow> R out s'
     | Some (Inr a, s') \<Rightarrow> Q a s')"

lemma wp_skip_with [wp_rules]: "wp (skip_with a) Q R s \<longleftrightarrow> Q a s"
  by (simp add: wp_def skip_with_def)

lemma wp_return_early [wp_rules]: "wp (return_early out) Q R s \<longleftrightarrow> R out s"
  by (simp add: wp_def return_early_def)

lemma wp_seq [wp_rules]: "wp (seq m k) Q R s \<longleftrightarrow> wp m (\<lambda>a. wp (k a) Q R) R s"
  by (simp add: wp_def seq_def split: option.splits prod.splits sum.splits)

lemma wp_update_state [wp_rules]: "wp (update_state f) Q R s \<longleftrightarrow> Q () (f s)"
  by (simp add: wp_def update_state_def)

lemma wp_perform [wp_rules]: "wp (perform f) Q R s \<longleftrightarrow> (case f s of (a, s') \<Rightarrow> Q a s')"
  by (simp add: wp_def perform_def split: prod.splits)

lemma wp_if [wp_rules]:
  "wp (if b then m else m') Q R s \<longleftrightarrow> (if b then wp m Q R s else wp m' Q R s)"
  by simp

lemma wp_mono:
  "wp m Q R s \<Longrightarrow> (\<And>a s'. Q a s' \<Longrightarrow> Q' a s') \<Longrightarrow> (\<And>out s'. R out s' \<Longrightarrow> R' out s') \<Longrightarrow> wp m Q' R' s"
  by (auto simp: wp_def split: option.splits prod.splits sum.splits)

lemma wp_for_each:
  assumes step: "\<And>x xs s. I (x # xs) s \<Longrightarrow> wp (body x) (\<lambda>_. I xs) R s"
    and "I xs s"
  shows "wp (for_each body xs) (\<lambda>_. I []) R s"
  using assms(2)
proof (induction xs arbitrary: s)
  case Nil
  then show ?case by (simp add: wp_rules)
next
  case (Cons x xs)
  from step [OF Cons.prems] show ?case
    by (simp add: wp_rules) (erule wp_mono, auto intro: Cons.IH)
qed

text \<open>The value a finished program run has.\<close>

lemma wp_Some: "wp m Q R s \<Longrightarrow> \<exists>r s'. m s = Some (r, s') \<and> (case r of Inl out \<Rightarrow> R out s' | Inr a \<Rightarrow> Q a s')"
  by (auto simp: wp_def split: option.splits prod.splits sum.splits)

section \<open>Invariants of programs\<close>

text \<open>
  \<open>runs I R m V\<close>: from a state in \<open>I\<close>, \<open>m\<close> returns; it falls through in a state in \<open>I\<close> with a value
  satisfying \<open>V\<close>, or returns early with \<open>R\<close>. \<open>keeps I m V\<close> has \<open>I\<close> on both ways out.
\<close>

named_theorems keeps_intros "composition of invariants"

definition runs ::
    "('s \<Rightarrow> bool) \<Rightarrow> ('o \<Rightarrow> 's \<Rightarrow> bool) \<Rightarrow> ('s, 'o, 'a) prog \<Rightarrow> ('a \<Rightarrow> bool) \<Rightarrow> bool" where
  "runs I R m V \<longleftrightarrow> (\<forall>s. I s \<longrightarrow> wp m (\<lambda>a s'. I s' \<and> V a) R s)"

abbreviation keeps :: "('s \<Rightarrow> bool) \<Rightarrow> ('s, 'o, 'a) prog \<Rightarrow> ('a \<Rightarrow> bool) \<Rightarrow> bool" where
  "keeps I m V \<equiv> runs I (\<lambda>_. I) m V"

lemma runsI: "(\<And>s. I s \<Longrightarrow> wp m (\<lambda>a s'. I s' \<and> V a) R s) \<Longrightarrow> runs I R m V"
  by (simp add: runs_def)

lemma runsD: "runs I R m V \<Longrightarrow> I s \<Longrightarrow> wp m (\<lambda>a s'. I s' \<and> V a) R s"
  by (simp add: runs_def)

lemma runs_skip_with [keeps_intros]: "V a \<Longrightarrow> runs I R (skip_with a) V"
  by (simp add: runs_def wp_rules)

lemma runs_return_early [keeps_intros]: "(\<And>s. I s \<Longrightarrow> R out s) \<Longrightarrow> runs I R (return_early out) V"
  by (simp add: runs_def wp_rules)

lemma runs_seq:
  assumes "runs I R m V" and "\<And>a. V a \<Longrightarrow> runs I R (k a) W"
  shows "runs I R (seq m k) W"
proof (rule runsI)
  fix s assume "I s"
  then have "wp m (\<lambda>a s'. I s' \<and> V a) R s" by (rule runsD [OF assms(1)])
  then have "wp m (\<lambda>a. wp (k a) (\<lambda>a s'. I s' \<and> W a) R) R s"
    by (rule wp_mono) (use assms(2) in \<open>auto simp: runs_def\<close>)
  then show "wp (seq m k) (\<lambda>a s'. I s' \<and> W a) R s" by (simp add: wp_rules)
qed

lemma runs_seq_any [keeps_intros]:
  "runs I R m (\<lambda>_. True) \<Longrightarrow> (\<And>a. runs I R (k a) W) \<Longrightarrow> runs I R (seq m k) W"
  by (rule runs_seq [where V = "\<lambda>_. True"])

lemma wp_seq_runs:
  assumes "runs I R m V" "I s" and "\<And>a s'. I s' \<Longrightarrow> V a \<Longrightarrow> wp (k a) Q R s'"
  shows "wp (seq m k) Q R s"
  unfolding wp_seq by (rule wp_mono [OF runsD [OF assms(1,2)]]) (use assms(3) in auto)

lemma wp_runs:
  "runs I R m V \<Longrightarrow> I s \<Longrightarrow> (\<And>a s'. I s' \<Longrightarrow> V a \<Longrightarrow> Q a s') \<Longrightarrow> wp m Q R s"
  by (rule wp_mono, erule runsD, assumption) auto

lemma runs_update_state: "(\<And>s. I s \<Longrightarrow> I (f s)) \<Longrightarrow> V () \<Longrightarrow> runs I R (update_state f) V"
  by (simp add: runs_def wp_rules)

lemma runs_perform: "(\<And>s a s'. I s \<Longrightarrow> f s = (a, s') \<Longrightarrow> I s' \<and> V a) \<Longrightarrow> runs I R (perform f) V"
  by (auto simp: runs_def wp_rules split: prod.splits)

lemma runs_if [keeps_intros]:
  "(b \<Longrightarrow> runs I R m V) \<Longrightarrow> (\<not> b \<Longrightarrow> runs I R m' V) \<Longrightarrow> runs I R (if b then m else m') V"
  by simp

lemma runs_case_sum [keeps_intros]:
  "(\<And>e. r = Inl e \<Longrightarrow> runs I R (m e) V) \<Longrightarrow> (\<And>x. r = Inr x \<Longrightarrow> runs I R (m' x) V) \<Longrightarrow>
     runs I R (case r of Inl e \<Rightarrow> m e | Inr x \<Rightarrow> m' x) V"
  by (cases r) auto

lemma runs_case_prod [keeps_intros]:
  "(\<And>x y. p = (x, y) \<Longrightarrow> runs I R (m x y) V) \<Longrightarrow> runs I R (case p of (x, y) \<Rightarrow> m x y) V"
  by (cases p) auto

lemma runs_Let [keeps_intros]: "runs I R (m a) V \<Longrightarrow> runs I R (let x = a in m x) V"
  by simp

lemma runs_weaken:
  "runs I R m V \<Longrightarrow> (\<And>a. V a \<Longrightarrow> W a) \<Longrightarrow> (\<And>out s. R out s \<Longrightarrow> R' out s) \<Longrightarrow> runs I R' m W"
  unfolding runs_def by (blast intro: wp_mono)

lemma runs_for_each [keeps_intros]:
  assumes "\<And>x. x \<in> set xs \<Longrightarrow> runs I R (body x) (\<lambda>_. True)"
  shows "runs I R (for_each body xs) (\<lambda>_. True)"
  using assms
proof (induction xs)
  case Nil
  then show ?case by (simp add: runs_skip_with)
next
  case (Cons x xs)
  then show ?case by (simp add: runs_seq_any)
qed

lemma runs_Some:
  assumes "runs I R m V" "I s"
  shows "\<exists>r s'. m s = Some (r, s') \<and> (case r of Inl out \<Rightarrow> R out s' | Inr a \<Rightarrow> I s' \<and> V a)"
  by (rule wp_Some [OF runsD [OF assms]])

lemma keeps_Some:
  assumes "keeps I m V" "I s"
  shows "\<exists>r s'. m s = Some (r, s') \<and> I s'"
proof -
  from runs_Some [OF assms] obtain r s' where "m s = Some (r, s')"
      "case r of Inl out \<Rightarrow> I s' | Inr a \<Rightarrow> I s' \<and> V a"
    by blast
  then show ?thesis by (cases r) auto
qed

end
