(* ===== verification/Flash_Execute.thy ===== *)
theory Flash_Execute
  imports Flash_Read Flash_Manifest Bulk_Cipher Effects
begin

text \<open>
  \<open>Flasher::execute\<close> (src/flash/src/flash.cpp): the whole write orchestration, with its partial
  report, its audit entries, its journal, its cancellation cleanup and its bus restore. Each stage
  of the sector loop is a definition; \<open>bail\<close> and \<open>cancel_cleanup\<close> are the lambdas of that name.

  The environment holds what \<open>execute\<close> reads and does not change: the transport, the cancel flag
  (its value at the \<open>n\<close>-th poll), the installed key function, the wall clock (the text of its
  \<open>n\<close>-th reading) and the bulk cipher's availability, \<open>None\<close> when it is not built in, otherwise
  whether it is armed. The state holds the wire, the number of polls so far, the audit calls, the
  journal snapshots handed to \<open>write_manifest\<close> (whose result the code ignores) and the report.
\<close>

section \<open>State and environment\<close>

record 's flash_env =
  fe_transport :: "'s transport"
  fe_cancel :: "nat \<Rightarrow> bool"
  fe_key_fn :: "(bytes \<Rightarrow> bytes result) option"
  fe_now :: "nat \<Rightarrow> string"
  fe_b6_armed :: "bool option"

record 's fx =
  fx_wire :: 's
  fx_polls :: nat
  fx_audit :: audit_log
  fx_journal :: "(string \<times> manifest) list"
  fx_report :: flash_report

record execute_outcome =
  eo_report :: flash_report
  eo_error :: "error option"

type_synonym ('s, 'a) fprog = "('s fx, error, 'a) prog"

definition on_wire :: "('s \<Rightarrow> 'a \<times> 's) \<Rightarrow> 's fx \<Rightarrow> 'a \<times> 's fx" where
  "on_wire f fx = (case f (fx_wire fx) of (r, s') \<Rightarrow> (r, fx\<lparr>fx_wire := s'\<rparr>))"

definition bool_text :: "bool \<Rightarrow> string" where
  "bool_text b = (if b then ''true'' else ''false'')"

section \<open>Audit entries\<close>

definition bytes_planned :: "flash_plan \<Rightarrow> nat" where
  "bytes_planned plan = sum_list (map (\<lambda>w. length (sw_data w)) (fp_writes plan))"

definition audit_flash_started :: "flash_plan \<Rightarrow> 's fx \<Rightarrow> 's fx" where
  "audit_flash_started plan fx =
     fx\<lparr>fx_audit := audit_call (fx_audit fx) FlashStarted ''flash'' ''Flash execute() entered''
       [(''sectors'', dec_string (length (fp_writes plan))),
        (''bytes_planned'', dec_string (bytes_planned plan)),
        (''data_format'', dec_string (unat (fp_data_format plan))),
        (''dry_run'', bool_text (fp_dry_run plan)),
        (''verify'', bool_text (fp_verify_after_write plan))]\<rparr>"

definition audit_sector_written :: "sector \<Rightarrow> bool \<Rightarrow> 's fx \<Rightarrow> 's fx" where
  "audit_sector_written sec verified fx =
     fx\<lparr>fx_audit := audit_call (fx_audit fx) FlashSectorWritten ''flash''
       (''Sector '' @ hex_addr (sec_address sec) @ '' written'')
       [(''address'', hex_addr (sec_address sec)),
        (''length'', to_string_u32 (sec_length sec)),
        (''verified'', bool_text verified)]\<rparr>"

definition audit_flash_completed :: "'s fx \<Rightarrow> 's fx" where
  "audit_flash_completed fx =
     fx\<lparr>fx_audit := audit_call (fx_audit fx) FlashCompleted ''flash''
       ''Flash execute() completed successfully''
       [(''sectors'', dec_string (length (fr_sectors (fx_report fx)))),
        (''bytes_transferred'', dec_string (fr_bytes_transferred (fx_report fx))),
        (''verified'', bool_text (all_sectors_verified (fx_report fx)))]\<rparr>"

definition audit_flash_ended :: "entry_kind \<Rightarrow> string \<Rightarrow> 's fx \<Rightarrow> 's fx" where
  "audit_flash_ended kind msg fx =
     fx\<lparr>fx_audit := audit_call (fx_audit fx) kind ''flash'' msg
       [(''sectors_done'', dec_string (length (fr_sectors (fx_report fx)))),
        (''bytes_transferred'', dec_string (fr_bytes_transferred (fx_report fx)))]\<rparr>"

section \<open>Cleanup\<close>

text \<open>The bus restore of \<open>bail\<close> and \<open>cancel_cleanup\<close>.\<close>

definition restore_bus :: "'s flash_env \<Rightarrow> 's fx \<Rightarrow> 's fx" where
  "restore_bus env fx =
     (if fr_silenced_bus (fx_report fx) \<and> \<not> fr_restored_bus (fx_report fx) then
        (case on_wire (\<lambda>s. communication_control (fe_transport env) s kCcEnableRxAndTx
                             kCtNormalAndNetworkManagement 500) fx of
           (Inr _, fx1) \<Rightarrow> fx1\<lparr>fx_report := (fx_report fx1)\<lparr>fr_restored_bus := True\<rparr>\<rparr>
         | (Inl _, fx1) \<Rightarrow> fx1)
      else fx)"

definition bail :: "'s flash_env \<Rightarrow> error_code \<Rightarrow> string \<Rightarrow> ('s, 'a) fprog" where
  "bail env code msg =
     seq (update_state (\<lambda>fx.
            let fx1 = restore_bus env fx in
            audit_flash_ended (if code = Cancelled then FlashCancelled else FlashFailed) msg fx1))
       (\<lambda>_. return_early \<lparr>err_code = code, err_message = msg\<rparr>)"

definition is_cancelled :: "'s flash_env \<Rightarrow> ('s, bool) fprog" where
  "is_cancelled env =
     perform (\<lambda>fx. (fe_cancel env (fx_polls fx), fx\<lparr>fx_polls := Suc (fx_polls fx)\<rparr>))"

definition cancel_cleanup :: "'s flash_env \<Rightarrow> bool \<Rightarrow> ('s, unit) fprog" where
  "cancel_cleanup env mid_sector_download =
     update_state (\<lambda>fx.
       let fx1 = (if mid_sector_download
                  then snd (on_wire (\<lambda>s. Uds_Client.request_transfer_exit (fe_transport env) s 2000) fx)
                  else fx);
           fx2 = restore_bus env fx1 in
       snd (on_wire (\<lambda>s. diagnostic_session_control (fe_transport env) s kDscDefault 500) fx2))"

section \<open>Plan validation and sector order\<close>

fun validate_writes :: "'s flash_env \<Rightarrow> sector_write list \<Rightarrow> ('s, unit) fprog" where
  "validate_writes env [] = skip_with ()"
| "validate_writes env (w # ws) =
     (if length (sw_data w) \<noteq> unat (sec_length (sw_sector w)) then
        bail env InvalidArgument (''flash: SectorWrite.data.size() ('' @ dec_string (length (sw_data w)) @
          '') != sector.length ('' @ to_string_u32 (sec_length (sw_sector w)) @ '')'')
      else if sec_length (sw_sector w) = 0 then
        bail env InvalidArgument ''flash: SectorWrite.sector.length must be > 0''
      else validate_writes env ws)"

definition holds_offset :: "u32 \<Rightarrow> sector_write \<Rightarrow> bool" where
  "holds_offset off w \<longleftrightarrow> sec_address (sw_sector w) \<le> off \<and>
     off < sec_address (sw_sector w) + sec_length (sw_sector w)"

text \<open>\<open>std::find_if\<close>, then \<open>std::rotate\<close> of the found sector to the end.\<close>

definition order_writes :: "flash_plan \<Rightarrow> sector_write list" where
  "order_writes plan =
     (case fp_integrity_check_offset plan of
        None \<Rightarrow> fp_writes plan
      | Some off \<Rightarrow>
          (case dropWhile (\<lambda>w. \<not> holds_offset off w) (fp_writes plan) of
             [] \<Rightarrow> fp_writes plan
           | it # rest \<Rightarrow> takeWhile (\<lambda>w. \<not> holds_offset off w) (fp_writes plan) @ rest @ [it]))"

section \<open>The sector loop\<close>

definition commit_outcome :: "'s flash_env \<Rightarrow> flash_plan \<Rightarrow> sector_outcome \<Rightarrow> ('s, unit) fprog" where
  "commit_outcome env plan so =
     update_state (\<lambda>fx.
       let report = (fx_report fx)\<lparr>fr_sectors := fr_sectors (fx_report fx) @ [so]\<rparr>;
           fx1 = fx\<lparr>fx_report := report\<rparr> in
       if fp_journal_path plan \<noteq> [] then
         fx1\<lparr>fx_journal := fx_journal fx @
           [(fp_journal_path plan,
             build_manifest (fe_now env (length (fx_journal fx))) plan [] report)]\<rparr>
       else fx1)"

definition commit_and_bail ::
    "'s flash_env \<Rightarrow> flash_plan \<Rightarrow> sector_outcome \<Rightarrow> error_code \<Rightarrow> string \<Rightarrow> ('s, 'a) fprog" where
  "commit_and_bail env plan so code msg = seq (commit_outcome env plan so) (\<lambda>_. bail env code msg)"

definition add_bytes_transferred :: "nat \<Rightarrow> ('s, unit) fprog" where
  "add_bytes_transferred n =
     update_state (\<lambda>fx. fx\<lparr>fx_report := (fx_report fx)\<lparr>fr_bytes_transferred :=
       fr_bytes_transferred (fx_report fx) + n\<rparr>\<rparr>)"

text \<open>3a. eraseMemory.\<close>

definition stage_erase :: "'s flash_env \<Rightarrow> flash_plan \<Rightarrow> sector_write \<Rightarrow> sector_outcome \<Rightarrow>
    ('s, sector_outcome) fprog" where
  "stage_erase env plan w outcome =
     seq (perform (on_wire (\<lambda>s. routine_control (fe_transport env) s kRcStart kRidEraseMemory
            (build_erase_option_record (sec_address (sw_sector w)) (sec_length (sw_sector w))) 5000)))
       (\<lambda>r. case r of
          Inl e \<Rightarrow> commit_and_bail env plan outcome (err_code e)
            (''flash: eraseMemory failed at '' @ hex_addr (sec_address (sw_sector w)) @ '': '' @
             err_message e)
        | Inr _ \<Rightarrow> skip_with (outcome\<lparr>so_erased := True\<rparr>))"

text \<open>3b. RequestDownload and the block size.\<close>

definition stage_download :: "'s flash_env \<Rightarrow> flash_plan \<Rightarrow> sector_write \<Rightarrow> sector_outcome \<Rightarrow>
    ('s, sector_outcome \<times> u32) fprog" where
  "stage_download env plan w outcome =
     seq (perform (on_wire (\<lambda>s. Uds_Client.request_download (fe_transport env) s (fp_data_format plan)
            (sec_address (sw_sector w)) (sec_length (sw_sector w)) 2000)))
       (\<lambda>r. case r of
          Inl e \<Rightarrow> commit_and_bail env plan outcome (err_code e)
            (''flash: request_download failed at '' @ hex_addr (sec_address (sw_sector w)) @ '': '' @
             err_message e)
        | Inr reported \<Rightarrow>
            let outcome = outcome\<lparr>so_downloaded := True\<rparr>;
                block_payload = choose_block_payload reported (fp_block_size_hint plan) in
            if block_payload = 0 then
              commit_and_bail env plan outcome EcuRejected
                (''flash: ECU reported unusable maxNumberOfBlockLength='' @ to_string_u32 reported)
            else skip_with (outcome, block_payload))"

text \<open>3c. One turn of the transfer loop: the counter and the offset before and after.\<close>

definition previous_counter_text :: "u8 \<Rightarrow> string" where
  "previous_counter_text counter =
     (if counter = 0 then ''-1'' else dec_string (unat counter - 1))"

definition transfer_step :: "'s flash_env \<Rightarrow> flash_plan \<Rightarrow> bool \<Rightarrow> sector_write \<Rightarrow> sector_outcome \<Rightarrow>
    u32 \<Rightarrow> u8 \<times> nat \<Rightarrow> ('s, u8 \<times> nat) fprog" where
  "transfer_step env plan use_b6 w outcome block_payload st =
     (case st of (counter, offset) \<Rightarrow>
        seq (is_cancelled env) (\<lambda>cancelled.
          if cancelled then
            seq (add_bytes_transferred offset) (\<lambda>_.
            seq (commit_outcome env plan outcome) (\<lambda>_.
            seq (cancel_cleanup env True) (\<lambda>_.
            bail env Cancelled (''flash: cancelled mid-sector at '' @
              hex_addr (sec_address (sw_sector w)) @
              (if use_b6 then '' at chunk offset 0x'' @ hex_addr (of_nat offset)
               else '' after block counter='' @ previous_counter_text counter)))))
          else
            let remaining = length (sw_data w) - offset;
                this_block = (if remaining < unat block_payload then remaining else unat block_payload);
                chunk = take this_block (drop offset (sw_data w)) in
            if use_b6 then
              let chunk_addr = sec_address (sw_sector w) + of_nat offset in
              (case fe_b6_armed env of
                 None \<Rightarrow> commit_and_bail env plan outcome PolicyDenied
                   (''flash: data_format=0x04 not built in; see docs/26-bulk-reflash-cipher.md'')
               | Some False \<Rightarrow> commit_and_bail env plan outcome PolicyDenied
                   (''flash: data_format=0x04 not armed; see docs/26-bulk-reflash-cipher.md'')
               | Some True \<Rightarrow>
                   seq (perform (on_wire (\<lambda>s. subaru_bulk_transfer (fe_transport env) s chunk_addr
                          (encrypt_bytes chunk) 10000)))
                     (\<lambda>r. case r of
                        Inl e \<Rightarrow> seq (add_bytes_transferred offset) (\<lambda>_.
                          commit_and_bail env plan outcome (err_code e)
                            (''flash: subaru_bulk_transfer at '' @ hex_addr chunk_addr @
                             '' failed: '' @ err_message e))
                      | Inr _ \<Rightarrow> skip_with (counter, offset + this_block)))
            else
              seq (perform (on_wire (\<lambda>s. transfer_data (fe_transport env) s counter chunk 2000)))
                (\<lambda>r. case r of
                   Inl e \<Rightarrow> seq (add_bytes_transferred offset) (\<lambda>_.
                     commit_and_bail env plan outcome (err_code e)
                       (''flash: transfer_data failed at '' @ hex_addr (sec_address (sw_sector w)) @
                        '' (counter='' @ dec_string (unat counter) @ '', offset='' @
                        dec_string offset @ ''): '' @ err_message e))
                 | Inr _ \<Rightarrow> skip_with (counter + 1, offset + this_block))))"

text \<open>The loop spins for ever on a zero block size, which the caller has excluded.\<close>

partial_function (option) transfer_loop :: "'s flash_env \<Rightarrow> flash_plan \<Rightarrow> bool \<Rightarrow> sector_write \<Rightarrow>
    sector_outcome \<Rightarrow> u32 \<Rightarrow> u8 \<times> nat \<Rightarrow> 's fx \<Rightarrow> ((error + nat) \<times> 's fx) option" where
  "transfer_loop env plan use_b6 w outcome block_payload st fx =
     (if snd st < length (sw_data w) then
        (case transfer_step env plan use_b6 w outcome block_payload st fx of
           None \<Rightarrow> None
         | Some (r, fx') \<Rightarrow>
             (case r of
                Inl e \<Rightarrow> Some (Inl e, fx')
              | Inr st' \<Rightarrow> transfer_loop env plan use_b6 w outcome block_payload st' fx'))
      else Some (Inr (snd st), fx))"

declare transfer_loop.simps [code]

lemma transfer_loop_unfold:
  "transfer_loop env plan use_b6 w outcome block_payload st =
     (if snd st < length (sw_data w)
      then seq (transfer_step env plan use_b6 w outcome block_payload st)
             (transfer_loop env plan use_b6 w outcome block_payload)
      else skip_with (snd st))"
  by (rule ext)
     (auto simp: transfer_loop.simps [of env plan use_b6 w outcome block_payload st]
        seq_def skip_with_def split: option.splits sum.splits)

text \<open>3d. RequestTransferExit.\<close>

definition stage_exit :: "'s flash_env \<Rightarrow> flash_plan \<Rightarrow> sector_write \<Rightarrow> sector_outcome \<Rightarrow>
    ('s, sector_outcome) fprog" where
  "stage_exit env plan w outcome =
     seq (perform (on_wire (\<lambda>s. Uds_Client.request_transfer_exit (fe_transport env) s 2000)))
       (\<lambda>r. case r of
          Inl e \<Rightarrow> commit_and_bail env plan outcome (err_code e)
            (''flash: request_transfer_exit failed at '' @ hex_addr (sec_address (sw_sector w)) @
             '': '' @ err_message e)
        | Inr _ \<Rightarrow> skip_with (outcome\<lparr>so_exited := True\<rparr>))"

text \<open>3e. checkProgrammingDependencies.\<close>

definition stage_check :: "'s flash_env \<Rightarrow> flash_plan \<Rightarrow> sector_write \<Rightarrow> sector_outcome \<Rightarrow>
    ('s, sector_outcome) fprog" where
  "stage_check env plan w outcome =
     seq (perform (on_wire (\<lambda>s. routine_control (fe_transport env) s kRcStart
            kRidCheckProgrammingDependencies [] 5000)))
       (\<lambda>r. case r of
          Inl e \<Rightarrow> commit_and_bail env plan outcome (err_code e)
            (''flash: checkProgrammingDependencies failed at '' @
             hex_addr (sec_address (sw_sector w)) @ '': '' @ err_message e)
        | Inr _ \<Rightarrow> skip_with (outcome\<lparr>so_check_deps_passed := True\<rparr>))"

text \<open>3f. The verify pass: \<open>read_full_rom\<close> with its default arguments.\<close>

definition read_back :: "'s flash_env \<Rightarrow> flash_plan \<Rightarrow> sector_write \<Rightarrow> ('s, bytes result) fprog" where
  "read_back env plan w fx =
     (case read_full_rom (fe_transport env) (fe_key_fn env) (\<lambda>_. False)
            (default_read_opts (fp_verify_chunk_size plan))
            (sec_address (sw_sector w)) (sec_length (sw_sector w))
            \<lparr>rd_wire = fx_wire fx, rd_polls = 0, rd_progress = [], rd_audit = fx_audit fx\<rparr> of
        None \<Rightarrow> None
      | Some (r, rd) \<Rightarrow> Some (Inr r, fx\<lparr>fx_wire := rd_wire rd, fx_audit := rd_audit rd\<rparr>))"

definition stage_verify :: "'s flash_env \<Rightarrow> flash_plan \<Rightarrow> sector_write \<Rightarrow> sector_outcome \<Rightarrow>
    ('s, sector_outcome) fprog" where
  "stage_verify env plan w outcome =
     (if fp_verify_after_write plan then
        seq (read_back env plan w)
          (\<lambda>r. case r of
             Inl e \<Rightarrow> commit_and_bail env plan (outcome\<lparr>so_verified := False\<rparr>) (err_code e)
               (''flash: verify read-back failed at '' @ hex_addr (sec_address (sw_sector w)) @
                '' (length='' @ to_string_u32 (sec_length (sw_sector w)) @ ''): '' @ err_message e)
           | Inr readback \<Rightarrow> skip_with (outcome\<lparr>so_verified := (readback = sw_data w)\<rparr>))
      else skip_with outcome)"

definition flash_sector :: "'s flash_env \<Rightarrow> flash_plan \<Rightarrow> bool \<Rightarrow> sector_write \<Rightarrow> ('s, unit) fprog" where
  "flash_sector env plan use_b6 w =
     seq (is_cancelled env) (\<lambda>cancelled.
       if cancelled then
         seq (cancel_cleanup env False) (\<lambda>_.
           bail env Cancelled (''flash: cancelled between sectors at '' @
             hex_addr (sec_address (sw_sector w))))
       else
         seq (stage_erase env plan w (fresh_outcome (sw_sector w))) (\<lambda>o1.
         seq (stage_download env plan w o1) (\<lambda>(o2, block_payload).
         seq (transfer_loop env plan use_b6 w o2 block_payload (1, 0)) (\<lambda>offset.
         seq (add_bytes_transferred offset) (\<lambda>_.
         let o3 = o2\<lparr>so_transferred := True\<rparr> in
         seq (stage_exit env plan w o3) (\<lambda>o4.
         seq (stage_check env plan w o4) (\<lambda>o5.
         seq (stage_verify env plan w o5) (\<lambda>o6.
         seq (commit_outcome env plan o6) (\<lambda>_.
         update_state (audit_sector_written (so_sector o6) (so_verified o6)))))))))))"

section \<open>execute\<close>

definition enter_session :: "'s flash_env \<Rightarrow> flash_plan \<Rightarrow> ('s, unit) fprog" where
  "enter_session env plan =
     seq (perform (on_wire (\<lambda>s. diagnostic_session_control (fe_transport env) s (fp_session plan) 500)))
       (\<lambda>r. case r of
          Inl e \<Rightarrow> bail env (err_code e)
            (''flash: diagnostic_session_control failed: '' @ err_message e)
        | Inr _ \<Rightarrow> update_state (\<lambda>fx. fx\<lparr>fx_report := (fx_report fx)\<lparr>fr_entered_session := True\<rparr>\<rparr>))"

definition silence_bus :: "'s flash_env \<Rightarrow> flash_plan \<Rightarrow> ('s, unit) fprog" where
  "silence_bus env plan =
     (if fp_silence_bus plan then
        seq (perform (on_wire (\<lambda>s. communication_control (fe_transport env) s kCcDisableRxAndTx
               kCtNormalAndNetworkManagement 500)))
          (\<lambda>r. case r of
             Inl e \<Rightarrow> bail env (err_code e)
               (''flash: communication_control(off) failed: '' @ err_message e)
           | Inr _ \<Rightarrow> update_state (\<lambda>fx. fx\<lparr>fx_report := (fx_report fx)\<lparr>fr_silenced_bus := True\<rparr>\<rparr>))
      else skip_with ())"

definition restore_bus_finally :: "'s flash_env \<Rightarrow> flash_plan \<Rightarrow> ('s, unit) fprog" where
  "restore_bus_finally env plan =
     (if fp_silence_bus plan then
        seq (perform (on_wire (\<lambda>s. communication_control (fe_transport env) s kCcEnableRxAndTx
               kCtNormalAndNetworkManagement 500)))
          (\<lambda>r. case r of
             Inl e \<Rightarrow> skip_with ()
           | Inr _ \<Rightarrow> update_state (\<lambda>fx. fx\<lparr>fx_report := (fx_report fx)\<lparr>fr_restored_bus := True\<rparr>\<rparr>))
      else skip_with ())"

definition write_sectors :: "'s flash_env \<Rightarrow> flash_plan \<Rightarrow> ('s, unit) fprog" where
  "write_sectors env plan =
     (let writes_ordered = order_writes plan;
          use_b6 = (fp_data_format plan = kDataFormatSubaruCiphertext) in
      if fp_dry_run plan then
        for_each (\<lambda>w. commit_outcome env plan (fresh_outcome (sw_sector w))) writes_ordered
      else for_each (flash_sector env plan use_b6) writes_ordered)"

definition execute_body :: "'s flash_env \<Rightarrow> flash_plan \<Rightarrow> ('s, unit) fprog" where
  "execute_body env plan =
     seq (update_state (audit_flash_started plan)) (\<lambda>_.
     seq (validate_writes env (fp_writes plan)) (\<lambda>_.
     seq (enter_session env plan) (\<lambda>_.
     seq (silence_bus env plan) (\<lambda>_.
     seq (write_sectors env plan) (\<lambda>_.
     seq (restore_bus_finally env plan) (\<lambda>_.
     update_state audit_flash_completed))))))"

definition execute :: "'s flash_env \<Rightarrow> flash_plan \<Rightarrow> 's \<Rightarrow> audit_log \<Rightarrow>
    (execute_outcome \<times> 's fx) option" where
  "execute env plan wire al =
     (case execute_body env plan
             \<lparr>fx_wire = wire, fx_polls = 0, fx_audit = al, fx_journal = [], fx_report = empty_report\<rparr> of
        None \<Rightarrow> None
      | Some (Inl e, fx) \<Rightarrow> Some (\<lparr>eo_report = fx_report fx, eo_error = Some e\<rparr>, fx)
      | Some (Inr _, fx) \<Rightarrow> Some (\<lparr>eo_report = fx_report fx, eo_error = None\<rparr>, fx))"

end
