(* ===== verification/Flash_Safety.thy ===== *)
theory Flash_Safety
  imports Flash_Execute "HOL-Library.Multiset"
begin

text \<open>
  What \<open>Flasher::execute\<close> can put on the bus, and that it always returns. The lemmas are proved in
  the locale \<open>bus_invariant\<close>: a predicate on the device state that every allowed request keeps. It
  holds trivially of every transport, which gives termination, and of every logged transport with
  "everything sent so far was allowed", which gives safety.
\<close>

section \<open>The interface\<close>

locale bus_invariant =
  fixes tp :: "'s transport"
    and allowed :: "bytes \<Rightarrow> bool"
    and Inv :: "'s \<Rightarrow> bool"
  assumes preserved:
    "tp_send_recv tp s req to = (r, s') \<Longrightarrow> allowed req \<Longrightarrow> Inv s \<Longrightarrow> Inv s'"
begin

lemma preserved_call: "uds_call tp s req to parse = (r, s') \<Longrightarrow> allowed req \<Longrightarrow> Inv s \<Longrightarrow> Inv s'"
  by (auto simp: uds_call_def split: prod.splits sum.splits intro: preserved)

end

interpretation any_bus: bus_invariant t "\<lambda>_. True" "\<lambda>_. True" for t
  by unfold_locales

sublocale logged_transport \<subseteq> bus: bus_invariant tp P "adds P s0" for P s0
  by unfold_locales (blast intro: adds_trans adds_send_recv)

section \<open>Reads\<close>

definition admits_reads :: "(bytes \<Rightarrow> bool) \<Rightarrow> bool" where
  "admits_reads P \<longleftrightarrow> (\<forall>a n. P (build_read_memory_by_address a n))"

lemma dump_accept_wire: "dump_accept t n data d rd = (d', rd') \<Longrightarrow> rd_wire rd' = rd_wire rd"
  by (auto simp: dump_accept_def report_progress_def Let_def)

context bus_invariant
begin

lemma keeps_rmba:
  "read_memory_by_address tp s a n to = (r, s') \<Longrightarrow> admits_reads allowed \<Longrightarrow> Inv s \<Longrightarrow> Inv s'"
  by (auto simp: read_memory_by_address_def admits_reads_def intro: preserved_call)

lemma keeps_probe_loop:
  "admits_reads allowed \<Longrightarrow> probe_loop tp a to c s = (r, s') \<Longrightarrow> Inv s \<Longrightarrow> Inv s'"
proof (induction "unat c" arbitrary: c s rule: less_induct)
  case less
  obtain x s1 where rd: "read_memory_by_address tp s a c to = (x, s1)" by fastforce
  then have s1: "Inv s1" using less.prems by (blast intro: keeps_rmba)
  have rec: "Inv s'" if "kProbeFloor < c" "probe_loop tp a to (halve_chunk c) s1 = (r, s')"
  proof -
    have "unat (halve_chunk c) < unat c"
      using halve_chunk_decreases [OF that(1)] by (simp add: word_less_nat_alt)
    from less.hyps [OF this less.prems(1) that(2) s1] show ?thesis .
  qed
  from less.prems(2) rd s1 rec show ?case
    by (subst (asm) probe_loop.simps)
       (auto simp: not_le split: sum.splits chunk_failure_kind.splits if_splits)
qed

lemma keeps_rom_probe:
  "admits_reads allowed \<Longrightarrow> rom_probe tp base t ap mc to rd = (r, rd') \<Longrightarrow> Inv (rd_wire rd) \<Longrightarrow>
     Inv (rd_wire rd')"
  by (auto simp: rom_probe_def probe_max_chunk_def split: if_splits prod.splits sum.splits
      dest!: keeps_probe_loop)

lemma keeps_dump_step:
  assumes "admits_reads allowed" "dump_step tp cancel t to d rd = (x, rd')" "Inv (rd_wire rd)"
  shows "Inv (rd_wire rd')"
  using assms
  by (auto simp: dump_step_def Let_def apfst_def map_prod_def report_progress_def
      split: if_splits prod.splits sum.splits dest!: dump_accept_wire
      intro: keeps_rmba keeps_rmba [OF _ _ keeps_rmba])

lemma keeps_dump_loop:
  assumes "admits_reads allowed"
  shows "0 < d_chunk d \<Longrightarrow> dump_loop tp cancel t to d rd = Some (r, rd') \<Longrightarrow>
    Inv (rd_wire rd) \<Longrightarrow> Inv (rd_wire rd')"
proof (induction "dump_measure d" arbitrary: d rd rule: less_induct)
  case less
  obtain x rd1 where st: "dump_step tp cancel t to d rd = (x, rd1)" by fastforce
  note step = keeps_dump_step [OF assms st less.prems(3)]
  show ?case
  proof (cases x)
    case (Inl out)
    with st step less.prems show ?thesis
      by (subst (asm) dump_loop.simps) (auto split: if_splits)
  next
    case (Inr d')
    have rec: "Inv (rd_wire rd')"
      if "0 < d_remaining d" "dump_loop tp cancel t to d' rd1 = Some (r, rd')"
      using dump_step_decreases [of tp cancel t to d rd d' rd1] st Inr less.prems(1) that step
      by (blast intro: less.hyps)
    with st step Inr less.prems show ?thesis
      by (subst (asm) dump_loop.simps) (auto split: if_splits)
  qed
qed

text \<open>A read without session entry and authentication sends nothing but reads.\<close>

lemma keeps_read_full_rom:
  assumes "admits_reads allowed"
    and "read_full_rom tp key_fn cancel opts base t rd = Some (r, rd')"
    and "\<not> ro_enter_diagnostic_session opts" "\<not> ro_authenticate opts" "Inv (rd_wire rd)"
  shows "Inv (rd_wire rd')"
proof (cases "t = 0 \<or> ro_max_chunk_size opts = 0")
  case True
  with assms(2-5) show ?thesis
    by (auto simp: read_full_rom_def report_progress_def split: if_splits)
next
  case False
  obtain x rd1 where probe: "rom_probe tp base t (ro_auto_probe opts) (ro_max_chunk_size opts)
      (ro_timeout opts) rd = (x, rd1)" by fastforce
  note step = keeps_rom_probe [OF assms(1) probe assms(5)]
  show ?thesis
  proof (cases x)
    case (Inl e)
    with False assms(2-4) probe step show ?thesis by (simp add: read_full_rom_def)
  next
    case (Inr c)
    with False assms(2-4) probe have "dump_loop tp cancel t (ro_timeout opts)
        \<lparr>d_cursor = base, d_remaining = t, d_chunk = c, d_halved = False, d_out = []\<rparr>
        (report_progress 0 t rd1) = Some (r, rd')"
      by (simp add: read_full_rom_def)
    moreover have "0 < c" using rom_probe_chunk_pos probe Inr False by blast
    moreover have "Inv (rd_wire (report_progress 0 t rd1))" using step by (simp add: report_progress_def)
    ultimately show ?thesis by (auto intro: keeps_dump_loop [OF assms(1), rotated])
  qed
qed

end

section \<open>The requests a plan allows\<close>

definition write_valid :: "sector_write \<Rightarrow> bool" where
  "write_valid w \<longleftrightarrow> length (sw_data w) = unat (sec_length (sw_sector w)) \<and> sec_length (sw_sector w) \<noteq> 0"

definition sector_request :: "'s flash_env \<Rightarrow> flash_plan \<Rightarrow> sector_write \<Rightarrow> bytes \<Rightarrow> bool" where
  "sector_request env plan w req \<longleftrightarrow>
     (let a = sec_address (sw_sector w); n = sec_length (sw_sector w) in
      req = build_routine_control kRcStart kRidEraseMemory (build_erase_option_record a n) \<or>
      req = build_request_download (fp_data_format plan) a n \<or>
      (\<exists>counter off k. fp_data_format plan \<noteq> kDataFormatSubaruCiphertext \<and>
         req = build_transfer_data counter (take k (drop off (sw_data w)))) \<or>
      (\<exists>off k. fp_data_format plan = kDataFormatSubaruCiphertext \<and> fe_b6_armed env = Some True \<and>
         off < length (sw_data w) \<and>
         req = build_subaru_bulk_transfer (a + of_nat off) (encrypt_bytes (take k (drop off (sw_data w))))))"

definition allowed_request :: "'s flash_env \<Rightarrow> flash_plan \<Rightarrow> bytes \<Rightarrow> bool" where
  "allowed_request env plan req \<longleftrightarrow>
     list_all write_valid (fp_writes plan) \<and>
     (req \<in> {build_dsc_request (fp_session plan), build_dsc_request kDscDefault,
             build_communication_control kCcDisableRxAndTx kCtNormalAndNetworkManagement,
             build_communication_control kCcEnableRxAndTx kCtNormalAndNetworkManagement} \<or>
      \<not> fp_dry_run plan \<and>
      (req = build_request_transfer_exit \<or>
       req = build_routine_control kRcStart kRidCheckProgrammingDependencies [] \<or>
       (\<exists>a n. fp_verify_after_write plan \<and> req = build_read_memory_by_address a n) \<or>
       (\<exists>w \<in> set (fp_writes plan). sector_request env plan w req)))"

lemma allowed_request_intros:
  assumes "list_all write_valid (fp_writes plan)"
  shows "allowed_request env plan (build_dsc_request (fp_session plan))"
    "allowed_request env plan (build_dsc_request kDscDefault)"
    "allowed_request env plan (build_communication_control kCcDisableRxAndTx kCtNormalAndNetworkManagement)"
    "allowed_request env plan (build_communication_control kCcEnableRxAndTx kCtNormalAndNetworkManagement)"
    "\<not> fp_dry_run plan \<Longrightarrow> allowed_request env plan build_request_transfer_exit"
    "\<not> fp_dry_run plan \<Longrightarrow>
       allowed_request env plan (build_routine_control kRcStart kRidCheckProgrammingDependencies [])"
    "\<not> fp_dry_run plan \<Longrightarrow> fp_verify_after_write plan \<Longrightarrow> admits_reads (allowed_request env plan)"
    "\<not> fp_dry_run plan \<Longrightarrow> w \<in> set (fp_writes plan) \<Longrightarrow> sector_request env plan w req \<Longrightarrow>
       allowed_request env plan req"
  using assms by (auto simp: allowed_request_def admits_reads_def)

lemma choose_block_payload_cases:
  "choose_block_payload reported hint = 0 \<longleftrightarrow> reported \<le> 2 \<and> hint = 0"
proof -
  have "reported > 2 \<Longrightarrow> reported - 2 \<noteq> 0" by (metis diff_add_cancel add_0 order_less_irrefl)
  then show ?thesis by (auto simp: choose_block_payload_def Let_def not_less)
qed

lemma order_writes_cases:
  obtains (same) "order_writes plan = fp_writes plan"
      "fp_integrity_check_offset plan = None \<or>
       (\<exists>off. fp_integrity_check_offset plan = Some off \<and> (\<forall>w \<in> set (fp_writes plan). \<not> holds_offset off w))"
  | (moved) off pre w post where "fp_integrity_check_offset plan = Some off"
      "fp_writes plan = pre @ w # post" "order_writes plan = pre @ post @ [w]"
      "holds_offset off w" "\<forall>x \<in> set pre. \<not> holds_offset off x"
proof (cases "fp_integrity_check_offset plan")
  case None
  then show ?thesis by (auto simp: order_writes_def intro: same)
next
  case (Some off)
  let ?P = "\<lambda>w. \<not> holds_offset off w"
  show ?thesis
  proof (cases "dropWhile ?P (fp_writes plan)")
    case Nil
    have "order_writes plan = fp_writes plan"
      unfolding order_writes_def Some option.case Nil list.case ..
    with Some Nil show ?thesis by (intro same) simp_all
  next
    case (Cons w post)
    show ?thesis
    proof (rule moved [OF Some])
      show "fp_writes plan = takeWhile ?P (fp_writes plan) @ w # post"
        by (metis Cons takeWhile_dropWhile_id)
      show "order_writes plan = takeWhile ?P (fp_writes plan) @ post @ [w]"
        using Some Cons by (simp add: order_writes_def)
      show "holds_offset off w" using Cons by (simp add: dropWhile_eq_Cons_conv)
      show "\<forall>x \<in> set (takeWhile ?P (fp_writes plan)). \<not> holds_offset off x"
        using set_takeWhileD by fastforce
    qed
  qed
qed

lemma mset_order_writes: "mset (order_writes plan) = mset (fp_writes plan)"
  by (cases plan rule: order_writes_cases) simp_all

lemma set_order_writes [simp]: "set (order_writes plan) = set (fp_writes plan)"
  by (metis mset_order_writes set_mset_mset)

lemma length_order_writes [simp]: "length (order_writes plan) = length (fp_writes plan)"
  by (metis mset_order_writes size_mset)

section \<open>execute under a bus invariant\<close>

context bus_invariant
begin

definition wire_inv :: "'s fx \<Rightarrow> bool" where
  "wire_inv fx \<longleftrightarrow> Inv (fx_wire fx)"

definition admits :: "'s flash_env \<Rightarrow> flash_plan \<Rightarrow> bool" where
  "admits env plan \<longleftrightarrow> fe_transport env = tp \<and> list_all write_valid (fp_writes plan) \<and>
     (\<forall>req. allowed_request env plan req \<longrightarrow> allowed req)"

lemma admits_transport: "admits env plan \<Longrightarrow> fe_transport env = tp"
  by (simp add: admits_def)

definition restorable :: "'s flash_env \<Rightarrow> bool" where
  "restorable env \<longleftrightarrow> fe_transport env = tp \<and>
     allowed (build_communication_control kCcEnableRxAndTx kCtNormalAndNetworkManagement)"

lemma admits_restorable: "admits env plan \<Longrightarrow> restorable env"
  by (simp add: admits_def restorable_def allowed_request_intros)

lemma admits_allowed:
  assumes "admits env plan"
  shows "allowed (build_dsc_request (fp_session plan))"
    "allowed (build_dsc_request kDscDefault)"
    "allowed (build_communication_control kCcDisableRxAndTx kCtNormalAndNetworkManagement)"
    "allowed (build_communication_control kCcEnableRxAndTx kCtNormalAndNetworkManagement)"
    "\<not> fp_dry_run plan \<Longrightarrow> allowed build_request_transfer_exit"
    "\<not> fp_dry_run plan \<Longrightarrow> allowed (build_routine_control kRcStart kRidCheckProgrammingDependencies [])"
    "\<not> fp_dry_run plan \<Longrightarrow> fp_verify_after_write plan \<Longrightarrow> admits_reads allowed"
    "\<not> fp_dry_run plan \<Longrightarrow> w \<in> set (fp_writes plan) \<Longrightarrow> sector_request env plan w req \<Longrightarrow> allowed req"
  using assms allowed_request_intros [where plan = plan and env = env]
  by (auto simp: admits_def admits_reads_def)

lemma keeps_call [keeps_intros]:
  "allowed req \<Longrightarrow> V = (\<lambda>_. True) \<Longrightarrow>
     keeps wire_inv (perform (on_wire (\<lambda>s. uds_call tp s req to parse))) V"
  by (rule runs_perform)
     (auto simp: wire_inv_def on_wire_def split: prod.splits intro: preserved_call)

lemma keeps_bulk [keeps_intros]:
  "allowed (build_subaru_bulk_transfer a data) \<Longrightarrow> V = (\<lambda>_. True) \<Longrightarrow>
     keeps wire_inv (perform (on_wire (\<lambda>s. subaru_bulk_transfer tp s a data to))) V"
  by (rule runs_perform)
     (auto simp: wire_inv_def on_wire_def subaru_bulk_transfer_def split: prod.splits if_splits
       intro: preserved_call)

lemma wire_inv_restore_bus:
  assumes "restorable env" "wire_inv fx"
  shows "wire_inv (restore_bus env fx)"
proof -
  have env: "fe_transport env = tp"
    and cc: "allowed (build_communication_control kCcEnableRxAndTx kCtNormalAndNetworkManagement)"
    using assms(1) by (simp_all add: restorable_def)
  show ?thesis
    unfolding restore_bus_def env communication_control_def
    using assms(2) cc
    by (auto simp: on_wire_def wire_inv_def split: prod.splits sum.splits intro: preserved_call)
qed

lemma wire_inv_audit [simp]: "wire_inv (audit_flash_ended kind msg fx) = wire_inv fx"
  by (simp add: wire_inv_def audit_flash_ended_def)

lemma keeps_bail [keeps_intros]: "restorable env \<Longrightarrow> keeps wire_inv (bail env code msg) V"
  unfolding bail_def Let_def
  by (intro keeps_intros runs_update_state) (simp_all add: wire_inv_restore_bus)

lemma keeps_commit_outcome [keeps_intros]:
  "V = (\<lambda>_. True) \<Longrightarrow> keeps wire_inv (commit_outcome env plan so) V"
  unfolding commit_outcome_def by (rule runs_update_state) (auto simp: wire_inv_def Let_def)

lemma keeps_add_bytes [keeps_intros]:
  "V = (\<lambda>_. True) \<Longrightarrow> keeps wire_inv (add_bytes_transferred n) V"
  unfolding add_bytes_transferred_def by (rule runs_update_state) (auto simp: wire_inv_def)

lemma keeps_is_cancelled [keeps_intros]:
  "V = (\<lambda>_. True) \<Longrightarrow> keeps wire_inv (is_cancelled env) V"
  unfolding is_cancelled_def by (rule runs_perform) (auto simp: wire_inv_def)

lemma keeps_commit_and_bail [keeps_intros]:
  assumes "restorable env"
  shows "keeps wire_inv (commit_and_bail env plan so code msg) V"
  unfolding commit_and_bail_def by (intro keeps_intros assms refl)

lemma wire_inv_call:
  "fe_transport env = tp \<Longrightarrow> allowed req \<Longrightarrow> wire_inv fx \<Longrightarrow>
     wire_inv (snd (on_wire (\<lambda>s. uds_call (fe_transport env) s req to parse) fx))"
  by (auto simp: on_wire_def wire_inv_def split: prod.splits intro: preserved_call)

lemma keeps_cancel_cleanup [keeps_intros]:
  assumes env: "restorable env" and dsc: "allowed (build_dsc_request kDscDefault)"
    and rte: "mid \<Longrightarrow> allowed build_request_transfer_exit" and V: "V = (\<lambda>_. True)"
  shows "keeps wire_inv (cancel_cleanup env mid) V"
  unfolding cancel_cleanup_def Let_def client_defs
proof (rule runs_update_state)
  fix fx assume inv: "wire_inv fx"
  have tp: "fe_transport env = tp" using env by (simp add: restorable_def)
  let ?fx1 = "if mid then snd (on_wire (\<lambda>s. uds_call (fe_transport env) s
      build_request_transfer_exit 2000 parse_request_transfer_exit_response) fx) else fx"
  have "wire_inv ?fx1"
    using inv wire_inv_call [OF tp rte inv] by (cases mid) simp_all
  from wire_inv_call [OF tp dsc wire_inv_restore_bus [OF env this]]
  show "wire_inv (snd (on_wire (\<lambda>s. uds_call (fe_transport env) s (build_dsc_request kDscDefault) 500
      (\<lambda>resp. parse_dsc_response resp kDscDefault)) (restore_bus env ?fx1)))" .
qed (simp add: V)

lemma keeps_read_back [keeps_intros]:
  assumes env: "fe_transport env = tp" and "admits_reads allowed" and V: "V = (\<lambda>_. True)"
  shows "keeps wire_inv (read_back env plan w) V"
proof (rule runsI)
  fix fx assume inv: "wire_inv fx"
  let ?rd = "\<lparr>rd_wire = fx_wire fx, rd_polls = 0, rd_progress = [], rd_audit = fx_audit fx\<rparr>"
  obtain r rd where read: "read_full_rom (fe_transport env) (fe_key_fn env) (\<lambda>_. False)
      (default_read_opts (fp_verify_chunk_size plan)) (sec_address (sw_sector w))
      (sec_length (sw_sector w)) ?rd = Some (r, rd)"
    using read_full_rom_returns by blast
  have "Inv (rd_wire rd)"
    using keeps_read_full_rom [OF assms(2) read [unfolded env]] inv
    by (simp add: default_read_opts_def wire_inv_def)
  with inv read show "wp (read_back env plan w) (\<lambda>a s'. wire_inv s' \<and> V a) (\<lambda>_. wire_inv) fx"
    by (auto simp: wp_def read_back_def wire_inv_def V)
qed

text \<open>The sector loop: every stage keeps the bus log within the plan.\<close>

lemma keeps_transfer_step:
  assumes adm: "admits env plan"
    and dry: "\<not> fp_dry_run plan" and w: "w \<in> set (fp_writes plan)"
    and b6: "use_b6 = (fp_data_format plan = kDataFormatSubaruCiphertext)"
    and bp: "block_payload \<noteq> 0" and st: "snd st < length (sw_data w)"
  shows "keeps wire_inv
           (transfer_step env plan use_b6 w outcome block_payload st) (\<lambda>st'. snd st < snd st')"
proof -
  obtain counter offset where st_eq: "st = (counter, offset)" by fastforce
  note req = admits_allowed(8) [OF adm dry w]
  have pos: "0 < unat block_payload" using bp by (simp add: unat_gt_0)
  have td: "allowed (build_transfer_data counter (take k (drop offset (sw_data w))))"
    if "\<not> use_b6" for k
    using that b6 by (intro req) (auto simp: sector_request_def Let_def)
  have bulk: "allowed (build_subaru_bulk_transfer
      (sec_address (sw_sector w) + of_nat offset) (encrypt_bytes (take k (drop offset (sw_data w)))))"
    if "use_b6" "fe_b6_armed env = Some True" for k
    using that b6 st by (intro req) (auto simp: sector_request_def Let_def st_eq)
  note facts = admits_transport [OF adm] admits_restorable [OF adm] admits_allowed(2) [OF adm]
    admits_allowed(5) [OF adm] dry refl td bulk
  consider "fe_b6_armed env = None" | "fe_b6_armed env = Some False" | "fe_b6_armed env = Some True"
    by (cases "fe_b6_armed env") auto
  then show ?thesis
  proof cases
    case 1
    show ?thesis
      unfolding transfer_step_def st_eq prod.case 1 option.case transfer_data_def admits_transport [OF adm] Let_def
      by (intro keeps_intros facts; use pos st st_eq in simp)
  next
    case 2
    show ?thesis
      unfolding transfer_step_def st_eq prod.case 2 option.case bool.case transfer_data_def admits_transport [OF adm] Let_def
      by (intro keeps_intros facts; use pos st st_eq in simp)
  next
    case 3
    show ?thesis
      unfolding transfer_step_def st_eq prod.case 3 option.case bool.case transfer_data_def admits_transport [OF adm] Let_def
      by (intro keeps_intros facts 3; use pos st st_eq in simp)
  qed
qed

lemma keeps_transfer_loop:
  assumes adm: "admits env plan"
    and dry: "\<not> fp_dry_run plan" and w: "w \<in> set (fp_writes plan)"
    and b6: "use_b6 = (fp_data_format plan = kDataFormatSubaruCiphertext)" and bp: "block_payload \<noteq> 0"
  shows "keeps wire_inv
           (transfer_loop env plan use_b6 w outcome block_payload st) (\<lambda>_. True)"
proof (induction "length (sw_data w) - snd st" arbitrary: st rule: less_induct)
  case less
  show ?case
  proof (cases "snd st < length (sw_data w)")
    case True
    then show ?thesis
      unfolding transfer_loop_unfold [of env plan use_b6 w outcome block_payload st]
      by (simp only: if_True)
         (rule runs_seq [OF keeps_transfer_step [OF assms True]], rule less, simp)
  next
    case False
    then show ?thesis
      unfolding transfer_loop_unfold [of env plan use_b6 w outcome block_payload st]
      by (simp add: runs_skip_with)
  qed
qed

lemma keeps_flash_sector:
  assumes adm: "admits env plan"
    and dry: "\<not> fp_dry_run plan" and w: "w \<in> set (fp_writes plan)"
    and b6: "use_b6 = (fp_data_format plan = kDataFormatSubaruCiphertext)"
  shows "keeps wire_inv (flash_sector env plan use_b6 w) (\<lambda>_. True)"
proof -
  note req = admits_allowed(5,6) [OF adm dry] admits_allowed(8) [OF adm dry w]
  note facts = admits_transport [OF adm] admits_restorable [OF adm] admits_allowed(2) [OF adm]
    admits_allowed(5) [OF adm] dry refl
  have erase: "keeps wire_inv (stage_erase env plan w so) (\<lambda>_. True)" for so
    unfolding stage_erase_def routine_control_def admits_transport [OF adm]
    by (intro keeps_intros facts req) (simp_all add: sector_request_def Let_def)
  have download: "keeps wire_inv (stage_download env plan w so)
      (\<lambda>(_, bp). bp \<noteq> 0)" for so
    unfolding stage_download_def Uds_Client.request_download_def admits_transport [OF adm] Let_def
    by (intro keeps_intros facts req) (simp_all add: sector_request_def Let_def)
  have exit: "keeps wire_inv (stage_exit env plan w so) (\<lambda>_. True)" for so
    unfolding stage_exit_def Uds_Client.request_transfer_exit_def admits_transport [OF adm]
    by (intro keeps_intros facts req) simp_all
  have check: "keeps wire_inv (stage_check env plan w so) (\<lambda>_. True)" for so
    unfolding stage_check_def routine_control_def admits_transport [OF adm]
    by (intro keeps_intros facts req) simp_all
  have verify: "keeps wire_inv (stage_verify env plan w so) (\<lambda>_. True)" for so
    unfolding stage_verify_def
    by (intro keeps_intros facts admits_allowed(7) [OF adm dry]) simp_all
  have audit: "keeps wire_inv (update_state (audit_sector_written sec v)) (\<lambda>_. True)" for sec v
    by (rule runs_update_state) (auto simp: wire_inv_def audit_sector_written_def)
  show ?thesis
    unfolding flash_sector_def
    apply (rule runs_seq_any [OF keeps_is_cancelled [OF refl]], rule runs_if)
     apply (intro keeps_intros facts, simp)
    apply (rule runs_seq_any [OF erase])
    apply (rule runs_seq [OF download])
    apply (rule runs_case_prod)
    apply (rule runs_seq_any [OF keeps_transfer_loop [OF adm dry w b6]], simp)
    apply (intro keeps_intros facts exit check verify audit)
    done
qed

lemma keeps_execute_body:
  assumes adm: "admits env plan"
  shows "keeps wire_inv (execute_body env plan) (\<lambda>_. True)"
proof -
  note facts = admits_transport [OF adm] admits_restorable [OF adm] refl
  have audit: "keeps wire_inv (update_state (audit_flash_started plan)) (\<lambda>_. True)"
    "keeps wire_inv (update_state audit_flash_completed) (\<lambda>_. True)"
    by (rule runs_update_state; simp add: wire_inv_def audit_flash_started_def audit_flash_completed_def)+
  have report: "keeps wire_inv (update_state (\<lambda>fx. fx\<lparr>fx_report := f (fx_report fx)\<rparr>)) (\<lambda>_. True)" for f
    by (rule runs_update_state; simp add: wire_inv_def)
  have validate: "keeps wire_inv (validate_writes env ws) (\<lambda>_. True)" for ws
    by (induction ws) (simp_all only: validate_writes.simps runs_if keeps_bail runs_skip_with facts)
  have session: "keeps wire_inv (enter_session env plan) (\<lambda>_. True)"
    unfolding enter_session_def diagnostic_session_control_def admits_transport [OF adm]
    by (intro keeps_intros facts admits_allowed(1) [OF adm] report [of "fr_entered_session_update (\<lambda>_. True)"])
  have silence: "keeps wire_inv (Flash_Execute.silence_bus env plan) (\<lambda>_. True)"
    unfolding Flash_Execute.silence_bus_def communication_control_def admits_transport [OF adm]
    by (intro keeps_intros facts admits_allowed(3) [OF adm] report [of "fr_silenced_bus_update (\<lambda>_. True)"] TrueI)
  have restore: "keeps wire_inv (restore_bus_finally env plan) (\<lambda>_. True)"
    unfolding restore_bus_finally_def communication_control_def admits_transport [OF adm]
    by (intro keeps_intros facts admits_allowed(4) [OF adm] report [of "fr_restored_bus_update (\<lambda>_. True)"] TrueI)
  have sectors: "keeps wire_inv (write_sectors env plan) (\<lambda>_. True)"
    unfolding write_sectors_def Let_def
    by (intro keeps_intros facts keeps_flash_sector [OF adm]) simp_all
  show ?thesis
    unfolding execute_body_def
    by (intro runs_seq_any audit validate session silence sectors restore)
qed

end

section \<open>Rejected plans\<close>

lemma validate_writes_cases:
  obtains "list_all write_valid ws" "validate_writes env ws = skip_with ()"
  | msg where "\<not> list_all write_valid ws" "validate_writes env ws = bail env InvalidArgument msg"
proof (induction ws arbitrary: thesis)
  case Nil
  then show ?case by simp
next
  case (Cons w ws)
  show ?case
  proof (cases "write_valid w")
    case True
    then have "validate_writes env (w # ws) = validate_writes env ws" by (auto simp: write_valid_def)
    with True show ?thesis using Cons.prems by (cases rule: Cons.IH) simp_all
  next
    case False
    then have "\<exists>msg. validate_writes env (w # ws) = bail env InvalidArgument msg"
      unfolding write_valid_def validate_writes.simps by (cases "sec_length (sw_sector w) = 0") auto
    with False show ?thesis using Cons.prems(2) by auto
  qed
qed

lemma bail_unsilenced:
  "\<not> fr_silenced_bus (fx_report fx) \<Longrightarrow> bail env code msg fx =
     Some (Inl \<lparr>err_code = code, err_message = msg\<rparr>,
       audit_flash_ended (if code = Cancelled then FlashCancelled else FlashFailed) msg fx)"
  by (simp add: bail_def seq_def update_state_def return_early_def restore_bus_def)

text \<open>A rejected plan: nothing is sent, nothing is reported but the error.\<close>

lemma execute_invalid:
  assumes "\<not> list_all write_valid (fp_writes plan)"
  obtains msg fx where
    "execute env plan wire al =
       Some (\<lparr>eo_report = empty_report, eo_error = Some \<lparr>err_code = InvalidArgument, err_message = msg\<rparr>\<rparr>, fx)"
    "fx_wire fx = wire" "fx_journal fx = []" "fx_report fx = empty_report"
proof (cases rule: validate_writes_cases [of "fp_writes plan" env])
  case 1
  with assms show ?thesis by simp
next
  case (2 msg)
  show ?thesis
    by (rule that [of msg "audit_flash_ended FlashFailed msg (audit_flash_started plan
          \<lparr>fx_wire = wire, fx_polls = 0, fx_audit = al, fx_journal = [], fx_report = empty_report\<rparr>)"])
       (simp_all add: execute_def execute_body_def seq_def 2 update_state_def bail_unsilenced
          audit_flash_started_def audit_flash_ended_def empty_report_def)
qed

context bus_invariant
begin

lemma execute_keeps:
  assumes "fe_transport env = tp" "\<And>req. allowed_request env plan req \<Longrightarrow> allowed req" "Inv wire"
  shows "\<exists>out fx. execute env plan wire al = Some (out, fx) \<and> Inv (fx_wire fx)"
proof (cases "list_all write_valid (fp_writes plan)")
  case True
  let ?fx = "\<lparr>fx_wire = wire, fx_polls = 0, fx_audit = al, fx_journal = [], fx_report = empty_report\<rparr>"
  have "admits env plan" using assms True by (simp add: admits_def)
  moreover have "wire_inv ?fx" using assms(3) by (simp add: wire_inv_def)
  ultimately obtain r fx where "execute_body env plan ?fx = Some (r, fx)" "wire_inv fx"
    using keeps_Some [OF keeps_execute_body] by blast
  then show ?thesis by (cases r) (auto simp: execute_def wire_inv_def)
next
  case False
  then show ?thesis using assms(3) by (auto elim: execute_invalid [of plan env wire al])
qed

end

section \<open>Properties\<close>

text \<open>C11: \<open>execute\<close> always returns an outcome, for every plan (block size hints and verify chunk sizes
  included), every transport, every cancellation and every clock.\<close>

theorem execute_terminates: "\<exists>out fx. execute env plan wire al = Some (out, fx)"
proof -
  have "\<exists>out fx. execute env plan wire al = Some (out, fx) \<and> True"
    by (rule any_bus.execute_keeps [OF refl]) simp_all
  then show ?thesis by simp
qed

text \<open>C2: \<open>execute\<close> stays within its plan: whatever the ECU answers and wherever it is cancelled, every
  request it puts on the bus is a session or bus control request, or, when the plan is valid and
  not a dry run, a transfer exit, a dependency check, a read-back (if verifying), or an erase,
  download or data transfer of one of the plan's own sectors, encrypted transfers only with the
  cipher built in and armed. An invalid plan sends nothing; a dry run nothing that touches flash.\<close>

theorem execute_stays_in_plan:
  "\<exists>out fx sent.
     execute \<lparr>fe_transport = traced t, fe_cancel = cancel, fe_key_fn = kf, fe_now = now, fe_b6_armed = b6\<rparr>
       plan (wire, log) al = Some (out, fx) \<and>
     snd (fx_wire fx) = log @ sent \<and>
     list_all (allowed_request
       \<lparr>fe_transport = traced t, fe_cancel = cancel, fe_key_fn = kf, fe_now = now, fe_b6_armed = b6\<rparr> plan) sent"
  (is "\<exists>out fx sent. execute ?env plan _ al = _ \<and> _ \<and> _")
proof -
  have "\<exists>out fx. execute ?env plan (wire, log) al = Some (out, fx) \<and>
      trace_log.adds (allowed_request ?env plan) (wire, log) (fx_wire fx)"
    by (rule trace_log.bus.execute_keeps) simp_all
  then show ?thesis by (auto simp: trace_log.adds_def)
qed

end
