(* ===== verification/Flash_Trace.thy ===== *)
theory Flash_Trace
  imports Flash_Safety
begin

text \<open>
  What a flash looks like from the bus. \<open>heard\<close> records every exchange with its answer; \<open>told\<close> says
  of one sector's exchanges which outcome they amount to: what the ECU acknowledged, how many bytes it
  took, and what the read-back returned. The weakest preconditions below run the building blocks of
  \<open>Flasher::execute\<close> on a recorded transport.
\<close>

section \<open>Recorded exchanges\<close>

type_synonym exchange_log = "(bytes \<times> bytes result) list"

definition heard :: "'s transport \<Rightarrow> ('s \<times> exchange_log) transport" where
  "heard t =
     \<lparr>tp_send_recv = (\<lambda>s p to. case tp_send_recv t (fst s) p to of
                        (r, s') \<Rightarrow> (r, (s', snd s @ [(p, r)]))),
      tp_send_recv_to = (\<lambda>s i p to. case tp_send_recv_to t (fst s) i p to of
                        (r, s') \<Rightarrow> (r, (s', snd s @ [(p, r)])))\<rparr>"

text \<open>What a client makes of the answer to a request, and whether a request was acknowledged.\<close>

definition answer :: "bytes result \<Rightarrow> (bytes \<Rightarrow> 'a result) \<Rightarrow> 'a result" where
  "answer a parse = (case a of Inl e \<Rightarrow> Inl e | Inr resp \<Rightarrow> parse resp)"

definition acked :: "exchange_log \<Rightarrow> bytes \<Rightarrow> (bytes \<Rightarrow> 'a result) \<Rightarrow> bool" where
  "acked xs req parse \<longleftrightarrow> list_ex (\<lambda>(q, a). q = req \<and> \<not> isl (answer a parse)) xs"

lemma acked_simps [simp]:
  "\<not> acked [] req parse"
  "acked ((q, a) # xs) req parse \<longleftrightarrow> q = req \<and> \<not> isl (answer a parse) \<or> acked xs req parse"
  "acked (xs @ ys) req parse \<longleftrightarrow> acked xs req parse \<or> acked ys req parse"
  by (simp_all add: acked_def)

lemma acked_other: "list_all P (map fst xs) \<Longrightarrow> \<not> P req \<Longrightarrow> \<not> acked xs req parse"
  by (auto simp: acked_def list_all_iff list_ex_iff)

lemma uds_call_heard:
  "uds_call (heard t) s req to parse = (r, s') \<Longrightarrow> \<exists>a. snd s' = snd s @ [(req, a)] \<and> r = answer a parse"
  by (cases "tp_send_recv t (fst s) req to"; cases "fst (tp_send_recv t (fst s) req to)")
    (auto simp: uds_call_def heard_def answer_def)

section \<open>The requests of a sector\<close>

definition erase_request :: "sector_write \<Rightarrow> bytes" where
  "erase_request w = build_routine_control kRcStart kRidEraseMemory
     (build_erase_option_record (sec_address (sw_sector w)) (sec_length (sw_sector w)))"

definition erase_ack :: "bytes \<Rightarrow> bytes result" where
  "erase_ack resp = parse_routine_control_response resp kRcStart kRidEraseMemory"

definition download_request :: "flash_plan \<Rightarrow> sector_write \<Rightarrow> bytes" where
  "download_request plan w =
     build_request_download (fp_data_format plan) (sec_address (sw_sector w)) (sec_length (sw_sector w))"

definition check_request :: bytes where
  "check_request = build_routine_control kRcStart kRidCheckProgrammingDependencies []"

definition check_ack :: "bytes \<Rightarrow> bytes result" where
  "check_ack resp = parse_routine_control_response resp kRcStart kRidCheckProgrammingDependencies"

definition bus_on_request :: bytes where
  "bus_on_request = build_communication_control kCcEnableRxAndTx kCtNormalAndNetworkManagement"

definition bus_on_ack :: "bytes \<Rightarrow> status" where
  "bus_on_ack resp = parse_communication_control_response resp kCcEnableRxAndTx"

definition bus_off_request :: bytes where
  "bus_off_request = build_communication_control kCcDisableRxAndTx kCtNormalAndNetworkManagement"

definition bus_off_ack :: "bytes \<Rightarrow> status" where
  "bus_off_ack resp = parse_communication_control_response resp kCcDisableRxAndTx"

lemmas request_defs = erase_request_def download_request_def check_request_def bus_on_request_def bus_off_request_def

definition is_transfer :: "bytes \<Rightarrow> bool" where
  "is_transfer req \<longleftrightarrow> req \<noteq> [] \<and> hd req \<in> {kSidTransferData, kSidSubaruBulkTransfer}"

definition is_read :: "bytes \<Rightarrow> bool" where
  "is_read req \<longleftrightarrow> req \<noteq> [] \<and> hd req = kSidReadMemoryByAddress"

text \<open>What may precede the first sector and follow the last.\<close>

definition opens_bus :: "flash_plan \<Rightarrow> bytes \<Rightarrow> bool" where
  "opens_bus plan req \<longleftrightarrow> req \<in> {build_dsc_request (fp_session plan), bus_off_request}"

definition closes_bus :: "bytes \<Rightarrow> bool" where
  "closes_bus req \<longleftrightarrow> req \<in> {bus_on_request, build_request_transfer_exit, build_dsc_request kDscDefault}"

lemma request_hd:
  "hd (erase_request w) = kSidRoutineControl" "hd check_request = kSidRoutineControl"
  "hd (download_request plan w) = kSidRequestDownload" "hd build_request_transfer_exit = kSidRequestTransferExit"
  "hd bus_on_request = kSidCommunicationControl" "hd bus_off_request = kSidCommunicationControl"
  "hd (build_dsc_request s) = kSidDiagnosticSessionControl"
  "hd (build_transfer_data c data) = kSidTransferData" "hd (build_subaru_bulk_transfer a data) = kSidSubaruBulkTransfer"
  "hd (build_read_memory_by_address a n) = kSidReadMemoryByAddress"
  by (simp_all add: request_defs build_routine_control_def build_request_download_def build_request_transfer_exit_def
      build_communication_control_def build_dsc_request_def build_transfer_data_def build_subaru_bulk_transfer_def
      build_read_memory_by_address_def Let_def)

lemma request_nonempty [simp]:
  "build_transfer_data c data \<noteq> []" "build_subaru_bulk_transfer a data \<noteq> []" "build_read_memory_by_address a n \<noteq> []"
  by (simp_all add: build_transfer_data_def build_subaru_bulk_transfer_def build_read_memory_by_address_def Let_def)

lemma request_kinds [simp]:
  "is_transfer (build_transfer_data c data)" "is_transfer (build_subaru_bulk_transfer a data)"
  "\<not> is_transfer (erase_request w)" "\<not> is_transfer (download_request plan w)" "\<not> is_transfer check_request"
  "\<not> is_transfer build_request_transfer_exit"
  "is_read (build_read_memory_by_address a n)"
  "\<not> is_read (erase_request w)" "\<not> is_read (download_request plan w)" "\<not> is_read check_request"
  "\<not> is_read build_request_transfer_exit"
  by (simp_all add: is_transfer_def is_read_def request_hd)

lemma transfer_not_read: "is_transfer req \<Longrightarrow> \<not> is_read req"
  by (auto simp: is_transfer_def is_read_def)

lemma requests_differ [simp]:
  "erase_request w \<noteq> download_request plan w'" "download_request plan w' \<noteq> erase_request w"
  "erase_request w \<noteq> check_request" "check_request \<noteq> erase_request w"
  "erase_request w \<noteq> build_request_transfer_exit" "build_request_transfer_exit \<noteq> erase_request w"
  "download_request plan w \<noteq> check_request" "check_request \<noteq> download_request plan w"
  "download_request plan w \<noteq> build_request_transfer_exit" "build_request_transfer_exit \<noteq> download_request plan w"
  "check_request \<noteq> build_request_transfer_exit" "build_request_transfer_exit \<noteq> check_request"
  "bus_on_request \<noteq> build_request_transfer_exit" "build_request_transfer_exit \<noteq> bus_on_request"
  "bus_on_request \<noteq> build_dsc_request s" "build_dsc_request s \<noteq> bus_on_request"
  "bus_off_request \<noteq> build_dsc_request s" "build_dsc_request s \<noteq> bus_off_request"
  using request_hd by (auto dest: arg_cong [of _ _ hd]) (auto simp: erase_request_def check_request_def build_routine_control_def)

section \<open>What a sector's exchanges amount to\<close>

text \<open>The block size agreed in the answer to RequestDownload.\<close>

definition agreed_block :: "flash_plan \<Rightarrow> sector_write \<Rightarrow> exchange_log \<Rightarrow> u32" where
  "agreed_block plan w xs =
     (case find (\<lambda>(q, _). q = download_request plan w) xs of
        None \<Rightarrow> 0
      | Some (_, a) \<Rightarrow>
          (case answer a parse_request_download_response of
             Inl _ \<Rightarrow> 0
           | Inr reported \<Rightarrow> choose_block_payload reported (fp_block_size_hint plan)))"

text \<open>
  \<open>delivers plan w bp c off xs k\<close>: the transfers \<open>xs\<close> carry the data of \<open>w\<close> from \<open>off\<close> on in blocks of
  \<open>bp\<close> bytes, numbered from \<open>c\<close>, and the ECU acknowledged those up to \<open>k\<close>; one that it did not acknowledge
  is the last.
\<close>

fun delivers :: "flash_plan \<Rightarrow> sector_write \<Rightarrow> u32 \<Rightarrow> u8 \<Rightarrow> nat \<Rightarrow> exchange_log \<Rightarrow> nat \<Rightarrow> bool" where
  "delivers plan w bp c off [] k \<longleftrightarrow> k = off"
| "delivers plan w bp c off ((req, a) # xs) k \<longleftrightarrow>
     (let n = min (unat bp) (length (sw_data w) - off);
          block = take n (drop off (sw_data w));
          cipher = (fp_data_format plan = kDataFormatSubaruCiphertext);
          sent = (if cipher then build_subaru_bulk_transfer (sec_address (sw_sector w) + of_nat off) (encrypt_bytes block)
                  else build_transfer_data c block);
          ack = (if cipher then \<not> isl (answer a parse_subaru_bulk_transfer_response)
                 else \<not> isl (answer a (\<lambda>resp. parse_transfer_data_response resp c))) in
      off < length (sw_data w) \<and> req = sent \<and>
      (if ack then delivers plan w bp (if cipher then c else c + 1) (off + n) xs k else xs = [] \<and> k = off))"

text \<open>A sector's part of the log, the bytes counted for it, and the result of its read-back if it was made.\<close>

record sector_log =
  sl_exchanges :: exchange_log
  sl_bytes :: nat
  sl_read :: "bytes result option"

text \<open>
  The exchanges end with a read-back that returned \<open>r\<close>: its reads are the last of them, and the read
  loop, which depends on the answers only, makes exactly these and returns \<open>r\<close>.
\<close>

definition read_back_heard ::
  "'s transport \<Rightarrow> (bytes \<Rightarrow> bytes result) option \<Rightarrow> flash_plan \<Rightarrow> sector_write \<Rightarrow> exchange_log \<Rightarrow> exchange_log \<Rightarrow> bytes result \<Rightarrow> bool" where
  "read_back_heard t kf plan w L xs r \<longleftrightarrow>
     (\<exists>ys zs s al rd. xs = ys @ zs \<and> list_all (\<lambda>q. \<not> is_read q) (map fst ys) \<and> list_all is_read (map fst zs) \<and>
        read_full_rom (heard t) kf (\<lambda>_. False) (default_read_opts (fp_verify_chunk_size plan))
          (sec_address (sw_sector w)) (sec_length (sw_sector w))
          \<lparr>rd_wire = (s, L @ ys), rd_polls = 0, rd_progress = [], rd_audit = al\<rparr> = Some (r, rd) \<and>
        snd (rd_wire rd) = L @ ys @ zs)"

text \<open>The outcome of a sector is what its exchanges say.\<close>

definition told ::
  "'s transport \<Rightarrow> (bytes \<Rightarrow> bytes result) option \<Rightarrow> flash_plan \<Rightarrow> sector_write \<Rightarrow> exchange_log \<Rightarrow> sector_log \<Rightarrow> sector_outcome \<Rightarrow> bool" where
  "told t kf plan w L g so \<longleftrightarrow>
     (let xs = sl_exchanges g in
      so_sector so = sw_sector w \<and>
      so_erased so = acked xs (erase_request w) erase_ack \<and>
      so_downloaded so = acked xs (download_request plan w) parse_request_download_response \<and>
      delivers plan w (agreed_block plan w xs) 1 0 (filter (is_transfer \<circ> fst) xs) (sl_bytes g) \<and>
      so_transferred so = (sl_bytes g = length (sw_data w)) \<and>
      so_exited so = acked xs build_request_transfer_exit parse_request_transfer_exit_response \<and>
      so_check_deps_passed so = acked xs check_request check_ack \<and>
      (sl_read g \<noteq> None) = (so_check_deps_passed so \<and> fp_verify_after_write plan) \<and>
      (case sl_read g of
         None \<Rightarrow> so_verified so \<and> \<not> list_ex is_read (map fst xs)
       | Some r \<Rightarrow> so_verified so = (r = Inr (sw_data w)) \<and> read_back_heard t kf plan w L xs r))"

text \<open>The sector ran through: all stages acknowledged, and the read-back, if any, returned.\<close>

definition complete_sector :: "sector_outcome \<Rightarrow> sector_log \<Rightarrow> bool" where
  "complete_sector so g \<longleftrightarrow> outcome_completed so \<and> (case sl_read g of Some (Inl _) \<Rightarrow> False | _ \<Rightarrow> True)"

fun told_all ::
  "'s transport \<Rightarrow> (bytes \<Rightarrow> bytes result) option \<Rightarrow> flash_plan \<Rightarrow> exchange_log \<Rightarrow> sector_write list \<Rightarrow> sector_log list \<Rightarrow> sector_outcome list \<Rightarrow> bool" where
  "told_all t kf plan L ws [] [] \<longleftrightarrow> True"
| "told_all t kf plan L (w # ws) (g # gs) (so # sos) \<longleftrightarrow>
     told t kf plan w L g so \<and> told_all t kf plan (L @ sl_exchanges g) ws gs sos"
| "told_all t kf plan L ws gs sos \<longleftrightarrow> False"

section \<open>Programs on a recorded transport\<close>

type_synonym 's tfx = "('s \<times> exchange_log) fx"

definition shown :: "'s tfx \<Rightarrow> exchange_log \<times> flash_report" where
  "shown fx = (snd (fx_wire fx), fx_report fx)"

definition tidied :: "exchange_log \<Rightarrow> flash_report \<Rightarrow> flash_report" where
  "tidied post rep = rep\<lparr>fr_restored_bus := fr_restored_bus rep \<or> acked post bus_on_request bus_on_ack\<rparr>"

lemma tidied_simps [simp]:
  "tidied [] rep = rep" "tidied ys (tidied xs rep) = tidied (xs @ ys) rep"
  "fr_sectors (tidied xs rep) = fr_sectors rep" "fr_bytes_transferred (tidied xs rep) = fr_bytes_transferred rep"
  "fr_entered_session (tidied xs rep) = fr_entered_session rep" "fr_silenced_bus (tidied xs rep) = fr_silenced_bus rep"
  by (auto simp: tidied_def)

abbreviation all_closing :: "exchange_log \<Rightarrow> bool" where
  "all_closing post \<equiv> list_all closes_bus (map fst post)"

lemma closes_bus_simps [simp]:
  "closes_bus bus_on_request" "closes_bus build_request_transfer_exit" "closes_bus (build_dsc_request kDscDefault)"
  by (simp_all add: closes_bus_def)

lemma shown_audit [simp]:
  "shown (audit_flash_ended kind msg fx) = shown fx" "shown (audit_sector_written sec v fx) = shown fx"
  "shown (audit_flash_started plan fx) = shown fx" "shown (audit_flash_completed fx) = shown fx"
  by (simp_all add: shown_def audit_flash_ended_def audit_sector_written_def audit_flash_started_def audit_flash_completed_def)

lemma on_wire_call:
  assumes "on_wire (\<lambda>s. uds_call (heard t) s req to parse) fx = (r, fx')" "shown fx = (L, rep)"
  shows "\<exists>a. shown fx' = (L @ [(req, a)], rep) \<and> r = answer a parse"
  using assms by (auto simp: on_wire_def shown_def split: prod.splits dest!: uds_call_heard)

lemma wp_call:
  assumes "shown fx = (L, rep)" "\<And>a fx'. shown fx' = (L @ [(req, a)], rep) \<Longrightarrow> Q (answer a parse) fx'"
  shows "wp (perform (on_wire (\<lambda>s. uds_call (heard t) s req to parse))) Q R fx"
  using assms by (auto simp: wp_rules split: prod.splits dest!: on_wire_call)

lemma wp_is_cancelled:
  assumes "\<And>c fx'. shown fx' = shown fx \<Longrightarrow> Q c fx'"
  shows "wp (is_cancelled env) Q R fx"
  using assms by (simp add: is_cancelled_def wp_rules shown_def)

lemma wp_commit:
  assumes "shown fx = (L, rep)" "\<And>fx'. shown fx' = (L, rep\<lparr>fr_sectors := fr_sectors rep @ [so]\<rparr>) \<Longrightarrow> Q () fx'"
  shows "wp (commit_outcome env plan so) Q R fx"
  using assms by (simp add: commit_outcome_def wp_rules shown_def Let_def)

lemma wp_add_bytes:
  assumes "shown fx = (L, rep)" "\<And>fx'. shown fx' = (L, rep\<lparr>fr_bytes_transferred := fr_bytes_transferred rep + n\<rparr>) \<Longrightarrow> Q () fx'"
  shows "wp (add_bytes_transferred n) Q R fx"
  using assms by (simp add: add_bytes_transferred_def wp_rules shown_def)

lemma restore_bus_heard:
  assumes "fe_transport env = heard t" "shown fx = (L, rep)"
  shows "\<exists>post. all_closing post \<and> shown (restore_bus env fx) = (L @ post, tidied post rep)"
proof (cases "fr_silenced_bus rep \<and> \<not> fr_restored_bus rep")
  case True
  let ?call = "\<lambda>s. uds_call (heard t) s bus_on_request 500 bus_on_ack"
  obtain r fx1 where c: "on_wire ?call fx = (r, fx1)" by fastforce
  then obtain a where a: "shown fx1 = (L @ [(bus_on_request, a)], rep)" "r = answer a bus_on_ack"
    using on_wire_call [OF _ assms(2)] by blast
  have "restore_bus env fx = (case r of Inr _ \<Rightarrow> fx1\<lparr>fx_report := (fx_report fx1)\<lparr>fr_restored_bus := True\<rparr>\<rparr> | Inl _ \<Rightarrow> fx1)"
    using True assms c
    by (auto simp: restore_bus_def shown_def communication_control_def bus_on_request_def bus_on_ack_def [abs_def] split: sum.splits)
  then have "shown (restore_bus env fx) = (L @ [(bus_on_request, a)], tidied [(bus_on_request, a)] rep)"
    using a True by (auto simp: shown_def tidied_def split: sum.splits)
  then show ?thesis by (intro exI [of _ "[(bus_on_request, a)]"]) simp
next
  case False
  with assms(2) show ?thesis by (intro exI [of _ "[]"]) (auto simp: restore_bus_def shown_def)
qed

lemma wp_bail:
  assumes "fe_transport env = heard t" "shown fx = (L, rep)"
    and "\<And>e fx' post. err_code e = code \<Longrightarrow> all_closing post \<Longrightarrow> shown fx' = (L @ post, tidied post rep) \<Longrightarrow> R e fx'"
  shows "wp (bail env code msg) Q R fx"
proof -
  obtain post where "all_closing post" "shown (restore_bus env fx) = (L @ post, tidied post rep)"
    using restore_bus_heard [OF assms(1,2)] by blast
  then show ?thesis by (auto simp: bail_def wp_rules Let_def intro: assms(3))
qed

lemma wp_commit_and_bail:
  assumes "fe_transport env = heard t" "shown fx = (L, rep)"
    and "\<And>e fx' post. all_closing post \<Longrightarrow>
      shown fx' = (L @ post, tidied post (rep\<lparr>fr_sectors := fr_sectors rep @ [so]\<rparr>)) \<Longrightarrow> R e fx'"
  shows "wp (commit_and_bail env plan so code msg) Q R fx"
  unfolding commit_and_bail_def wp_seq
  by (rule wp_commit [OF assms(2)], rule wp_bail [OF assms(1)], assumption) (rule assms(3))

lemma wp_cancel_cleanup:
  assumes env: "fe_transport env = heard t" and fx: "shown fx = (L, rep)"
    and Q: "\<And>fx' post. all_closing post \<Longrightarrow> shown fx' = (L @ post, tidied post rep) \<Longrightarrow> Q () fx'"
  shows "wp (cancel_cleanup env mid) Q R fx"
proof -
  define fx1 where "fx1 = (if mid then snd (on_wire (\<lambda>s. Uds_Client.request_transfer_exit (fe_transport env) s 2000) fx) else fx)"
  have "\<exists>post. all_closing post \<and> shown fx1 = (L @ post, tidied post rep)"
  proof (cases mid)
    case True
    obtain r fx2 where c: "on_wire (\<lambda>s. Uds_Client.request_transfer_exit (heard t) s 2000) fx = (r, fx2)" by fastforce
    then obtain a where "shown fx2 = (L @ [(build_request_transfer_exit, a)], rep)"
      using on_wire_call [OF _ fx] unfolding Uds_Client.request_transfer_exit_def by blast
    with c True show ?thesis
      by (intro exI [of _ "[(build_request_transfer_exit, a)]"]) (simp add: fx1_def env tidied_def)
  next
    case False
    with fx show ?thesis by (intro exI [of _ "[]"]) (simp add: fx1_def)
  qed
  then obtain p1 where p1: "all_closing p1" "shown fx1 = (L @ p1, tidied p1 rep)" by blast
  obtain p2 where p2: "all_closing p2" "shown (restore_bus env fx1) = ((L @ p1) @ p2, tidied p2 (tidied p1 rep))"
    using restore_bus_heard [OF env p1(2)] by blast
  let ?dsc = "\<lambda>s. uds_call (heard t) s (build_dsc_request kDscDefault) 500 (\<lambda>resp. parse_dsc_response resp kDscDefault)"
  obtain r fx3 where c: "on_wire ?dsc (restore_bus env fx1) = (r, fx3)" by fastforce
  then obtain a where "shown fx3 = (((L @ p1) @ p2) @ [(build_dsc_request kDscDefault, a)], tidied p2 (tidied p1 rep))"
    using on_wire_call [OF _ p2(2)] by blast
  then have "shown fx3 = (L @ (p1 @ p2 @ [(build_dsc_request kDscDefault, a)]), tidied (p1 @ p2 @ [(build_dsc_request kDscDefault, a)]) rep)"
    by (simp add: tidied_def)
  then have "Q () fx3" by (rule Q [rotated]) (use p1(1) p2(1) in simp)
  with c show ?thesis
    unfolding cancel_cleanup_def wp_update_state Let_def fx1_def [symmetric]
    by (simp add: env diagnostic_session_control_def)
qed

text \<open>A stage that is one call: acknowledged it goes on, otherwise the outcome so far is committed.\<close>

lemma wp_stage:
  assumes env: "fe_transport env = heard t" and fx: "shown fx = (L, rep)"
    and ok: "\<And>a x fx'. answer a parse = Inr x \<Longrightarrow> shown fx' = (L @ [(req, a)], rep) \<Longrightarrow> wp (k x) Q R fx'"
    and bad: "\<And>a e fx' post. isl (answer a parse) \<Longrightarrow> all_closing post \<Longrightarrow>
      shown fx' = (L @ [(req, a)] @ post, tidied post (rep\<lparr>fr_sectors := fr_sectors rep @ [so]\<rparr>)) \<Longrightarrow> R e fx'"
  shows "wp (seq (perform (on_wire (\<lambda>s. uds_call (heard t) s req to parse)))
    (\<lambda>r. case r of Inl e \<Rightarrow> commit_and_bail env plan so (err_code e) (msg e) | Inr x \<Rightarrow> k x)) Q R fx"
  unfolding wp_seq
proof (rule wp_call [OF fx])
  fix a and fx' :: "('a \<times> exchange_log) fx" assume fx': "shown fx' = (L @ [(req, a)], rep)"
  show "wp (case answer a parse of Inl e \<Rightarrow> commit_and_bail env plan so (err_code e) (msg e) | Inr x \<Rightarrow> k x) Q R fx'"
  proof (cases "answer a parse")
    case (Inl e)
    then show ?thesis by (auto intro!: wp_commit_and_bail [OF env fx'] bad)
  next
    case (Inr x)
    then show ?thesis using ok fx' by simp
  qed
qed

lemma wp_ack_stage:
  fixes fx :: "'s tfx"
  assumes env: "fe_transport env = heard t" and fx: "shown fx = (L, rep)"
    and ok: "\<And>a fx'. \<not> isl (answer a parse) \<Longrightarrow> shown fx' = (L @ [(req, a)], rep) \<Longrightarrow> Q y fx'"
    and bad: "\<And>a e fx' post. isl (answer a parse) \<Longrightarrow> all_closing post \<Longrightarrow>
      shown fx' = (L @ [(req, a)] @ post, tidied post (rep\<lparr>fr_sectors := fr_sectors rep @ [so]\<rparr>)) \<Longrightarrow> R e fx'"
  shows "wp (seq (perform (on_wire (\<lambda>s. uds_call (heard t) s req to parse)))
    (\<lambda>r. case r of Inl e \<Rightarrow> commit_and_bail env plan so (err_code e) (msg e) | Inr x \<Rightarrow> skip_with y)) Q R fx"
proof (rule wp_stage [OF env fx _ bad])
  fix a x and fx' :: "'s tfx" assume "answer a parse = Inr x" "shown fx' = (L @ [(req, a)], rep)"
  then show "wp (skip_with y) Q R fx'" unfolding wp_skip_with by (intro ok [of a]) simp_all
qed

text \<open>The read-back sends nothing but reads.\<close>

interpretation heard_bus: bus_invariant "heard t" P "\<lambda>s. \<exists>zs. snd s = L @ zs \<and> list_all P (map fst zs)" for t P L
proof
  fix s req to r s'
  assume "tp_send_recv (heard t) s req to = (r, s')" "P req" "\<exists>zs. snd s = L @ zs \<and> list_all P (map fst zs)"
  then show "\<exists>zs. snd s' = L @ zs \<and> list_all P (map fst zs)"
    by (auto simp: heard_def split: prod.splits intro!: exI [of _ "_ @ [_]"])
qed

lemma wp_read_back:
  assumes env: "fe_transport env = heard t" "fe_key_fn env = kf" and fx: "shown fx = (L, rep)"
    and Q: "\<And>r fx' zs s al rd. list_all is_read (map fst zs) \<Longrightarrow> shown fx' = (L @ zs, rep) \<Longrightarrow>
      read_full_rom (heard t) kf (\<lambda>_. False) (default_read_opts (fp_verify_chunk_size plan))
        (sec_address (sw_sector w)) (sec_length (sw_sector w))
        \<lparr>rd_wire = (s, L), rd_polls = 0, rd_progress = [], rd_audit = al\<rparr> = Some (r, rd) \<Longrightarrow>
      snd (rd_wire rd) = L @ zs \<Longrightarrow> Q r fx'"
  shows "wp (read_back env plan w) Q R fx"
proof -
  let ?rd = "\<lparr>rd_wire = fx_wire fx, rd_polls = 0, rd_progress = [], rd_audit = fx_audit fx\<rparr>"
  obtain r rd where read: "read_full_rom (heard t) kf (\<lambda>_. False) (default_read_opts (fp_verify_chunk_size plan))
      (sec_address (sw_sector w)) (sec_length (sw_sector w)) ?rd = Some (r, rd)"
    using read_full_rom_returns by blast
  obtain s where wire: "fx_wire fx = (s, L)" using fx by (cases "fx_wire fx") (simp add: shown_def)
  have "\<exists>zs. snd (rd_wire rd) = L @ zs \<and> list_all is_read (map fst zs)"
    using heard_bus.keeps_read_full_rom [of is_read, OF _ read, of L] wire
    by (simp add: admits_reads_def default_read_opts_def)
  then obtain zs where zs: "snd (rd_wire rd) = L @ zs" "list_all is_read (map fst zs)" by blast
  have "Q r (fx\<lparr>fx_wire := rd_wire rd, fx_audit := rd_audit rd\<rparr>)"
  proof (rule Q [OF zs(2) _ _ zs(1)])
    show "shown (fx\<lparr>fx_wire := rd_wire rd, fx_audit := rd_audit rd\<rparr>) = (L @ zs, rep)"
      using fx zs(1) by (simp add: shown_def)
  qed (rule read [unfolded wire])
  then show ?thesis by (simp add: wp_def read_back_def env read)
qed

end
