(* ===== verification/Flash_Report.thy ===== *)
theory Flash_Report
  imports Flash_Trace
begin

text \<open>
  The report of \<open>Flasher::execute\<close> is what happened on the bus: which sectors it lists, how far each of
  them got, what was verified, how many bytes were transferred and the state of the session, on success
  and on every early return.
\<close>

section \<open>The transfer loop\<close>

lemma wp_bulk:
  assumes fx: "shown fx = (L, rep)"
    and sent: "\<And>a fx'. shown fx' = (L @ [(build_subaru_bulk_transfer addr data, a)], rep) \<Longrightarrow> Q (answer a parse_subaru_bulk_transfer_response) fx'"
    and refused: "\<And>e. Q (Inl e) fx"
  shows "wp (perform (on_wire (\<lambda>s. subaru_bulk_transfer (heard t) s addr data to))) Q R fx"
proof (cases "addr > kSubaruBulkTransferAddressMax")
  case True
  then show ?thesis using refused by (simp add: wp_rules subaru_bulk_transfer_def on_wire_def failure_def)
next
  case False
  then show ?thesis unfolding subaru_bulk_transfer_def if_not_P [OF False] by (intro wp_call [OF fx] sent)
qed

lemma wp_count_and_bail:
  assumes "fe_transport env = heard t" "shown fx = (L, rep)"
    and "\<And>e fx' post. all_closing post \<Longrightarrow> shown fx' = (L @ post, tidied post
      (rep\<lparr>fr_bytes_transferred := fr_bytes_transferred rep + k, fr_sectors := fr_sectors rep @ [so]\<rparr>)) \<Longrightarrow> R e fx'"
  shows "wp (seq (add_bytes_transferred k) (\<lambda>_. commit_and_bail env plan so code msg)) Q R fx"
  unfolding wp_seq by (rule wp_add_bytes [OF assms(2)], rule wp_commit_and_bail [OF assms(1)]) (auto intro: assms(3))

lemma wp_count_and_cancel:
  fixes fx :: "'s tfx"
  assumes env: "fe_transport env = heard t" and fx: "shown fx = (L, rep)"
    and R: "\<And>e fx' post. all_closing post \<Longrightarrow> shown fx' = (L @ post, tidied post
      (rep\<lparr>fr_bytes_transferred := fr_bytes_transferred rep + k, fr_sectors := fr_sectors rep @ [so]\<rparr>)) \<Longrightarrow> R e fx'"
  shows "wp (seq (add_bytes_transferred k) (\<lambda>_. seq (commit_outcome env plan so) (\<lambda>_. seq (cancel_cleanup env True) (\<lambda>_.
    bail env Cancelled msg)))) Q R fx"
  unfolding wp_seq
proof (rule wp_add_bytes [OF fx], rule wp_commit, assumption, rule wp_cancel_cleanup [OF env], assumption, rule wp_bail [OF env], assumption)
  fix e p1 p2 and fx' :: "'s tfx"
  assume "all_closing p1" "all_closing p2"
    "shown fx' = ((L @ p1) @ p2, tidied p2 (tidied p1 (rep\<lparr>fr_bytes_transferred := fr_bytes_transferred rep + k,
       fr_sectors := fr_sectors (rep\<lparr>fr_bytes_transferred := fr_bytes_transferred rep + k\<rparr>) @ [so]\<rparr>)))"
  then show "R e fx'" by (intro R [of "p1 @ p2"]) simp_all
qed

text \<open>One block: it goes out and is acknowledged, or the sector stops here.\<close>

lemma wp_transfer_step:
  fixes Q :: "u8 \<times> nat \<Rightarrow> 's tfx \<Rightarrow> bool"
  assumes env: "fe_transport env = heard t" and b6: "use_b6 = (fp_data_format plan = kDataFormatSubaruCiphertext)"
    and off: "off < length (sw_data w)" "off = 0 \<or> \<not> use_b6 \<or> fe_b6_armed env = Some True"
    and n: "n = min (unat bp) (length (sw_data w) - off)" and fx: "shown fx = (L, rep)"
    and go: "\<And>fx' req a c'. is_transfer req \<Longrightarrow> shown fx' = (L @ [(req, a)], rep) \<Longrightarrow> \<not> use_b6 \<or> fe_b6_armed env = Some True \<Longrightarrow>
      (\<And>ts k. delivers plan w bp c' (off + n) ts k \<Longrightarrow> delivers plan w bp c off ((req, a) # ts) k) \<Longrightarrow> Q (c', off + n) fx'"
    and stop: "\<And>e fx' xs post. delivers plan w bp c off xs off \<Longrightarrow> list_all is_transfer (map fst xs) \<Longrightarrow> all_closing post \<Longrightarrow>
      shown fx' = (L @ xs @ post, tidied post
        (rep\<lparr>fr_bytes_transferred := fr_bytes_transferred rep + off, fr_sectors := fr_sectors rep @ [so]\<rparr>)) \<Longrightarrow> R e fx'"
  shows "wp (transfer_step env plan use_b6 w so bp (c, off)) Q R fx"
proof -
  let ?len = "length (sw_data w)" and ?block = "take n (drop off (sw_data w))"
  let ?cipher = "fp_data_format plan = kDataFormatSubaruCiphertext"
  have block: "(if ?len - off < unat bp then ?len - off else unat bp) = n" by (simp add: n min_def)
  have cancel: "wp (seq (add_bytes_transferred off) (\<lambda>_. seq (commit_outcome env plan so) (\<lambda>_. seq (cancel_cleanup env True) (\<lambda>_.
      bail env Cancelled msg)))) Q R fx1" if "shown fx1 = shown fx" for msg and fx1 :: "'s tfx"
    by (rule wp_count_and_cancel [OF env that [unfolded fx]]) (rule stop [of "[]"], simp_all)
  have early: "wp (commit_and_bail env plan so code msg) Q R fx1"
    if "shown fx1 = shown fx" "off = 0" for code msg and fx1 :: "'s tfx"
    by (rule wp_commit_and_bail [OF env that(1) [unfolded fx]]) (rule stop [of "[]"], simp_all add: that(2))
  have plain: "wp (seq (perform (on_wire (\<lambda>s. transfer_data (fe_transport env) s c ?block 2000)))
      (\<lambda>r. case r of Inl e \<Rightarrow> seq (add_bytes_transferred off) (\<lambda>_. commit_and_bail env plan so (err_code e) (msg e))
         | Inr _ \<Rightarrow> skip_with (c + 1, off + n))) Q R fx1" if "shown fx1 = shown fx" "\<not> ?cipher" for msg and fx1 :: "'s tfx"
    unfolding transfer_data_def env wp_seq [of "perform _"]
  proof (rule wp_call [OF that(1) [unfolded fx]])
    fix a and fx2 :: "'s tfx" assume fx2: "shown fx2 = (L @ [(build_transfer_data c ?block, a)], rep)"
    show "wp (case answer a (\<lambda>resp. parse_transfer_data_response resp c) of
        Inl e \<Rightarrow> seq (add_bytes_transferred off) (\<lambda>_. commit_and_bail env plan so (err_code e) (msg e))
      | Inr _ \<Rightarrow> skip_with (c + 1, off + n)) Q R fx2"
    proof (cases "answer a (\<lambda>resp. parse_transfer_data_response resp c)")
      case (Inl e)
      show ?thesis
        unfolding Inl sum.case
        by (rule wp_count_and_bail [OF env fx2], rule stop [of "[(build_transfer_data c ?block, a)]"])
          (use off(1) that(2) Inl n in \<open>simp_all add: Let_def\<close>)
    next
      case (Inr x)
      show ?thesis
        unfolding Inr sum.case wp_skip_with
        by (rule go [OF _ fx2]) (use off(1) that(2) Inr n b6 in \<open>simp_all add: Let_def\<close>)
    qed
  qed
  have bulk: "wp (seq (perform (on_wire (\<lambda>s. subaru_bulk_transfer (fe_transport env) s (sec_address (sw_sector w) + of_nat off)
         (encrypt_bytes ?block) 10000)))
      (\<lambda>r. case r of Inl e \<Rightarrow> seq (add_bytes_transferred off) (\<lambda>_. commit_and_bail env plan so (err_code e) (msg e))
         | Inr _ \<Rightarrow> skip_with (c, off + n))) Q R fx1"
    if "shown fx1 = shown fx" "?cipher" "fe_b6_armed env = Some True" for msg and fx1 :: "'s tfx"
    unfolding env wp_seq [of "perform _"]
  proof (rule wp_bulk [OF that(1) [unfolded fx]])
    let ?req = "build_subaru_bulk_transfer (sec_address (sw_sector w) + of_nat off) (encrypt_bytes ?block)"
    fix a and fx2 :: "'s tfx" assume fx2: "shown fx2 = (L @ [(?req, a)], rep)"
    show "wp (case answer a parse_subaru_bulk_transfer_response of
        Inl e \<Rightarrow> seq (add_bytes_transferred off) (\<lambda>_. commit_and_bail env plan so (err_code e) (msg e))
      | Inr _ \<Rightarrow> skip_with (c, off + n)) Q R fx2"
    proof (cases "answer a parse_subaru_bulk_transfer_response")
      case (Inl e)
      show ?thesis
        unfolding Inl sum.case
        by (rule wp_count_and_bail [OF env fx2], rule stop [of "[(?req, a)]"])
          (use off(1) that(2) Inl n in \<open>simp_all add: Let_def\<close>)
    next
      case (Inr x)
      show ?thesis
        unfolding Inr sum.case wp_skip_with
        by (rule go [OF _ fx2]) (use off(1) that(2,3) Inr n b6 in \<open>simp_all add: Let_def\<close>)
    qed
  next
    fix e show "wp (case Inl e of
        Inl e \<Rightarrow> seq (add_bytes_transferred off) (\<lambda>_. commit_and_bail env plan so (err_code e) (msg e))
      | Inr _ \<Rightarrow> skip_with (c, off + n)) Q R fx1"
      unfolding sum.case by (rule wp_count_and_bail [OF env that(1) [unfolded fx]], rule stop [of "[]"]) simp_all
  qed
  consider "\<not> ?cipher" | "?cipher" "fe_b6_armed env = Some True" | "?cipher" "fe_b6_armed env = None \<or> fe_b6_armed env = Some False" "off = 0"
    using off(2) b6 by (cases "fe_b6_armed env") auto
  then show ?thesis
  proof cases
    case 1
    show ?thesis
      unfolding transfer_step_def prod.case Let_def block wp_seq [of "is_cancelled env"]
      by (rule wp_is_cancelled) (simp add: cancel plain 1 b6)
  next
    case 2
    show ?thesis
      unfolding transfer_step_def prod.case Let_def block wp_seq [of "is_cancelled env"]
      by (rule wp_is_cancelled) (simp add: cancel bulk 2 b6)
  next
    case 3
    show ?thesis
      unfolding transfer_step_def prod.case Let_def block wp_seq [of "is_cancelled env"]
      using 3(2) by (elim disjE; intro wp_is_cancelled) (simp_all add: cancel early [OF _ 3(3)] 3(1) b6)
  qed
qed

lemma wp_transfer_loop:
  fixes Q :: "nat \<Rightarrow> 's tfx \<Rightarrow> bool"
  assumes env: "fe_transport env = heard t" and bp: "bp \<noteq> 0"
    and b6: "use_b6 = (fp_data_format plan = kDataFormatSubaruCiphertext)"
    and ok: "\<And>fx' ts. delivers plan w bp c off ts (length (sw_data w)) \<Longrightarrow> list_all is_transfer (map fst ts) \<Longrightarrow>
      shown fx' = (L @ ts, rep) \<Longrightarrow> Q (length (sw_data w)) fx'"
    and bad: "\<And>e fx' ts k post. delivers plan w bp c off ts k \<Longrightarrow> list_all is_transfer (map fst ts) \<Longrightarrow>
      k < length (sw_data w) \<Longrightarrow> all_closing post \<Longrightarrow> shown fx' = (L @ ts @ post, tidied post
        (rep\<lparr>fr_bytes_transferred := fr_bytes_transferred rep + k, fr_sectors := fr_sectors rep @ [so]\<rparr>)) \<Longrightarrow> R e fx'"
    and off: "off \<le> length (sw_data w)" "off = 0 \<or> \<not> use_b6 \<or> fe_b6_armed env = Some True"
    and fx: "shown fx = (L, rep)"
  shows "wp (transfer_loop env plan use_b6 w so bp (c, off)) Q R fx"
  using ok bad off fx
proof (induction "length (sw_data w) - off" arbitrary: c off L fx rule: less_induct)
  case less
  note unfold = transfer_loop_unfold [of env plan use_b6 w so bp "(c, off)", unfolded snd_conv]
  let ?len = "length (sw_data w)"
  show ?case
  proof (cases "off < ?len")
    case False
    then have "off = ?len" using less.prems(3) by simp
    then show ?thesis unfolding unfold using less.prems(1) [of "[]" fx] less.prems(5) by (simp add: wp_rules)
  next
    case True
    define n where "n = min (unat bp) (?len - off)"
    have n: "0 < n" "off + n \<le> ?len" using True bp by (auto simp: n_def unat_gt_0)
    show ?thesis
      unfolding unfold if_P [OF True] wp_seq
    proof (rule wp_transfer_step [OF env b6 True less.prems(4) n_def less.prems(5)])
      fix fx' :: "'s tfx" and req a c'
      assume req: "is_transfer req" and fx': "shown fx' = (L @ [(req, a)], rep)" and armed: "\<not> use_b6 \<or> fe_b6_armed env = Some True"
        and step: "\<And>ts k. delivers plan w bp c' (off + n) ts k \<Longrightarrow> delivers plan w bp c off ((req, a) # ts) k"
      show "wp (transfer_loop env plan use_b6 w so bp (c', off + n)) Q R fx'"
      proof (rule less.hyps [OF _ _ _ _ _ fx'])
        fix fx'' :: "'s tfx" and ts assume "delivers plan w bp c' (off + n) ts ?len" "list_all is_transfer (map fst ts)"
          "shown fx'' = ((L @ [(req, a)]) @ ts, rep)"
        then show "Q ?len fx''" using less.prems(1) [of "(req, a) # ts" fx''] step req by simp
      next
        fix e and fx'' :: "'s tfx" and ts k post
        assume "delivers plan w bp c' (off + n) ts k" "list_all is_transfer (map fst ts)" "k < ?len" "all_closing post"
          "shown fx'' = ((L @ [(req, a)]) @ ts @ post, tidied post
             (rep\<lparr>fr_bytes_transferred := fr_bytes_transferred rep + k, fr_sectors := fr_sectors rep @ [so]\<rparr>))"
        then show "R e fx''" using less.prems(2) [of "(req, a) # ts" k post fx'' e] step req by simp
      qed (use n armed in auto)
    next
      fix e and fx' :: "'s tfx" and xs post
      assume "delivers plan w bp c off xs off" "list_all is_transfer (map fst xs)" "all_closing post"
        "shown fx' = (L @ xs @ post, tidied post
          (rep\<lparr>fr_bytes_transferred := fr_bytes_transferred rep + off, fr_sectors := fr_sectors rep @ [so]\<rparr>))"
      then show "R e fx'" using less.prems(2) [of xs off post fx' e] True by simp
    qed
  qed
qed

section \<open>The stages of one sector\<close>

lemma wp_stage_erase:
  assumes env: "fe_transport env = heard t" and fx: "shown fx = (L, rep)"
    and ok: "\<And>a fx'. \<not> isl (answer a erase_ack) \<Longrightarrow> shown fx' = (L @ [(erase_request w, a)], rep) \<Longrightarrow>
      Q (so\<lparr>so_erased := True\<rparr>) fx'"
    and bad: "\<And>a e fx' post. isl (answer a erase_ack) \<Longrightarrow> all_closing post \<Longrightarrow> shown fx' =
      (L @ [(erase_request w, a)] @ post, tidied post (rep\<lparr>fr_sectors := fr_sectors rep @ [so]\<rparr>)) \<Longrightarrow> R e fx'"
  shows "wp (stage_erase env plan w so) Q R fx"
proof -
  have eq: "stage_erase env plan w so = seq (perform (on_wire (\<lambda>s. uds_call (heard t) s (erase_request w) 5000 erase_ack)))
      (\<lambda>r. case r of
         Inl e \<Rightarrow> commit_and_bail env plan so (err_code e)
           (''flash: eraseMemory failed at '' @ hex_addr (sec_address (sw_sector w)) @ '': '' @ err_message e)
       | Inr _ \<Rightarrow> skip_with (so\<lparr>so_erased := True\<rparr>))"
    by (simp add: stage_erase_def env routine_control_def erase_request_def erase_ack_def [abs_def])
  show ?thesis unfolding eq by (rule wp_ack_stage [OF env fx]) (erule (1) ok, erule (2) bad)
qed

lemma wp_stage_download:
  assumes env: "fe_transport env = heard t" and fx: "shown fx = (L, rep)"
    and ok: "\<And>a reported fx'. answer a parse_request_download_response = Inr reported \<Longrightarrow>
      choose_block_payload reported (fp_block_size_hint plan) \<noteq> 0 \<Longrightarrow> shown fx' = (L @ [(download_request plan w, a)], rep) \<Longrightarrow>
      Q (so\<lparr>so_downloaded := True\<rparr>, choose_block_payload reported (fp_block_size_hint plan)) fx'"
    and bad: "\<And>a e fx' post so'. so' = so\<lparr>so_downloaded := so_downloaded so \<or> \<not> isl (answer a parse_request_download_response)\<rparr> \<Longrightarrow>
      all_closing post \<Longrightarrow> shown fx' = (L @ [(download_request plan w, a)] @ post, tidied post (rep\<lparr>fr_sectors := fr_sectors rep @ [so']\<rparr>)) \<Longrightarrow> R e fx'"
  shows "wp (stage_download env plan w so) Q R fx"
proof -
  let ?k = "\<lambda>reported. let so = so\<lparr>so_downloaded := True\<rparr>; bp = choose_block_payload reported (fp_block_size_hint plan) in
     if bp = 0 then commit_and_bail env plan so EcuRejected
       (''flash: ECU reported unusable maxNumberOfBlockLength='' @ to_string_u32 reported)
     else skip_with (so, bp)"
  have eq: "stage_download env plan w so = seq (perform (on_wire (\<lambda>s. uds_call (heard t) s (download_request plan w) 2000
      parse_request_download_response)))
      (\<lambda>r. case r of
         Inl e \<Rightarrow> commit_and_bail env plan so (err_code e)
           (''flash: request_download failed at '' @ hex_addr (sec_address (sw_sector w)) @ '': '' @ err_message e)
       | Inr reported \<Rightarrow> ?k reported)"
    by (simp add: stage_download_def env Uds_Client.request_download_def download_request_def)
  show ?thesis
    unfolding eq
  proof (rule wp_stage [OF env fx])
    fix a reported and fx' :: "'a tfx"
    assume a: "answer a parse_request_download_response = Inr reported" and fx': "shown fx' = (L @ [(download_request plan w, a)], rep)"
    have "wp (commit_and_bail env plan (so\<lparr>so_downloaded := True\<rparr>) EcuRejected msg) Q R fx'" for msg
      by (rule wp_commit_and_bail [OF env fx'], rule bad [of _ a]) (simp_all add: a)
    then show "wp (?k reported) Q R fx'" using ok [OF a _ fx'] by (simp add: Let_def wp_skip_with)
  next
    fix a e post and fx' :: "'a tfx"
    assume "isl (answer a parse_request_download_response)" "all_closing post"
      "shown fx' = (L @ [(download_request plan w, a)] @ post, tidied post (rep\<lparr>fr_sectors := fr_sectors rep @ [so]\<rparr>))"
    then show "R e fx'" by (intro bad [of so a post fx' e]) simp_all
  qed
qed

lemma wp_stage_exit:
  assumes env: "fe_transport env = heard t" and fx: "shown fx = (L, rep)"
    and ok: "\<And>a fx'. \<not> isl (answer a parse_request_transfer_exit_response) \<Longrightarrow>
      shown fx' = (L @ [(build_request_transfer_exit, a)], rep) \<Longrightarrow> Q (so\<lparr>so_exited := True\<rparr>) fx'"
    and bad: "\<And>a e fx' post. isl (answer a parse_request_transfer_exit_response) \<Longrightarrow> all_closing post \<Longrightarrow> shown fx' =
      (L @ [(build_request_transfer_exit, a)] @ post, tidied post (rep\<lparr>fr_sectors := fr_sectors rep @ [so]\<rparr>)) \<Longrightarrow> R e fx'"
  shows "wp (stage_exit env plan w so) Q R fx"
  unfolding stage_exit_def env Uds_Client.request_transfer_exit_def
  by (rule wp_ack_stage [OF env fx]) (erule (1) ok, erule (2) bad)

lemma wp_stage_check:
  assumes env: "fe_transport env = heard t" and fx: "shown fx = (L, rep)"
    and ok: "\<And>a fx'. \<not> isl (answer a check_ack) \<Longrightarrow> shown fx' = (L @ [(check_request, a)], rep) \<Longrightarrow>
      Q (so\<lparr>so_check_deps_passed := True\<rparr>) fx'"
    and bad: "\<And>a e fx' post. isl (answer a check_ack) \<Longrightarrow> all_closing post \<Longrightarrow> shown fx' =
      (L @ [(check_request, a)] @ post, tidied post (rep\<lparr>fr_sectors := fr_sectors rep @ [so]\<rparr>)) \<Longrightarrow> R e fx'"
  shows "wp (stage_check env plan w so) Q R fx"
proof -
  have eq: "stage_check env plan w so = seq (perform (on_wire (\<lambda>s. uds_call (heard t) s check_request 5000 check_ack)))
      (\<lambda>r. case r of
         Inl e \<Rightarrow> commit_and_bail env plan so (err_code e)
           (''flash: checkProgrammingDependencies failed at '' @ hex_addr (sec_address (sw_sector w)) @ '': '' @ err_message e)
       | Inr _ \<Rightarrow> skip_with (so\<lparr>so_check_deps_passed := True\<rparr>))"
    by (simp add: stage_check_def env routine_control_def check_request_def check_ack_def [abs_def])
  show ?thesis unfolding eq by (rule wp_ack_stage [OF env fx]) (erule (1) ok, erule (2) bad)
qed

text \<open>The exchanges before the read-back contain no read.\<close>

lemma wp_stage_verify:
  assumes env: "fe_transport env = heard t" "fe_key_fn env = kf" and fx: "shown fx = (L0 @ ys, rep)"
    and ys: "list_all (\<lambda>q. \<not> is_read q) (map fst ys)"
    and off: "\<not> fp_verify_after_write plan \<Longrightarrow> Q so fx"
    and ok: "\<And>data fx' zs. fp_verify_after_write plan \<Longrightarrow> read_back_heard t kf plan w L0 (ys @ zs) (Inr data) \<Longrightarrow>
      list_all is_read (map fst zs) \<Longrightarrow> shown fx' = (L0 @ ys @ zs, rep) \<Longrightarrow> Q (so\<lparr>so_verified := (data = sw_data w)\<rparr>) fx'"
    and bad: "\<And>e0 e fx' zs post. fp_verify_after_write plan \<Longrightarrow> read_back_heard t kf plan w L0 (ys @ zs) (Inl e0) \<Longrightarrow>
      list_all is_read (map fst zs) \<Longrightarrow> all_closing post \<Longrightarrow> shown fx' = (L0 @ (ys @ zs) @ post, tidied post
        (rep\<lparr>fr_sectors := fr_sectors rep @ [so\<lparr>so_verified := False\<rparr>]\<rparr>)) \<Longrightarrow> R e fx'"
  shows "wp (stage_verify env plan w so) Q R fx"
proof (cases "fp_verify_after_write plan")
  case False
  then show ?thesis using off by (simp add: stage_verify_def wp_skip_with)
next
  case True
  show ?thesis
    unfolding stage_verify_def if_P [OF True] wp_seq
  proof (rule wp_read_back [OF env fx])
    fix r zs s al rd and fx' :: "'a tfx"
    assume zs: "list_all is_read (map fst zs)" and fx': "shown fx' = ((L0 @ ys) @ zs, rep)"
      and read: "read_full_rom (heard t) kf (\<lambda>_. False) (default_read_opts (fp_verify_chunk_size plan))
        (sec_address (sw_sector w)) (sec_length (sw_sector w))
        \<lparr>rd_wire = (s, L0 @ ys), rd_polls = 0, rd_progress = [], rd_audit = al\<rparr> = Some (r, rd)"
      and wire: "snd (rd_wire rd) = (L0 @ ys) @ zs"
    have heard: "read_back_heard t kf plan w L0 (ys @ zs) r"
      unfolding read_back_heard_def
      by (rule exI [of _ ys], rule exI [of _ zs], rule exI [of _ s], rule exI [of _ al], rule exI [of _ rd])
        (use zs ys read wire in simp)
    show "wp (case r of
         Inl e \<Rightarrow> commit_and_bail env plan (so\<lparr>so_verified := False\<rparr>) (err_code e)
           (''flash: verify read-back failed at '' @ hex_addr (sec_address (sw_sector w)) @
            '' (length='' @ to_string_u32 (sec_length (sw_sector w)) @ ''): '' @ err_message e)
       | Inr readback \<Rightarrow> skip_with (so\<lparr>so_verified := readback = sw_data w\<rparr>)) Q R fx'"
    proof (cases r)
      case (Inl e0)
      show ?thesis
        unfolding Inl sum.case
        by (rule wp_commit_and_bail [OF env(1) fx'], rule bad [OF True heard [unfolded Inl] zs]) simp_all
    next
      case (Inr data)
      then show ?thesis using ok [OF True heard [unfolded Inr] zs] fx' by (simp add: wp_skip_with)
    qed
  qed
qed

section \<open>One sector\<close>

text \<open>The flags of a sector whose download was accepted, from the transfers and what follows them.\<close>

lemma told_after_download:
  assumes "\<not> isl (answer a1 erase_ack)" "answer a2 parse_request_download_response = Inr reported"
    and "delivers plan w (choose_block_payload reported (fp_block_size_hint plan)) 1 0 ts k" "list_all is_transfer (map fst ts)"
    and us: "list_all (\<lambda>q. \<not> is_transfer q \<and> q \<noteq> erase_request w \<and> q \<noteq> download_request plan w) (map fst us)"
  defines "xs \<equiv> [(erase_request w, a1), (download_request plan w, a2)] @ ts @ us"
  shows "told t kf plan w L \<lparr>sl_exchanges = xs, sl_bytes = k, sl_read = v\<rparr> so \<longleftrightarrow>
    so_sector so = sw_sector w \<and> so_erased so \<and> so_downloaded so \<and> so_transferred so = (k = length (sw_data w)) \<and>
    so_exited so = acked us build_request_transfer_exit parse_request_transfer_exit_response \<and>
    so_check_deps_passed so = acked us check_request check_ack \<and>
    (v \<noteq> None) = (so_check_deps_passed so \<and> fp_verify_after_write plan) \<and>
    (case v of
       None \<Rightarrow> so_verified so \<and> \<not> list_ex is_read (map fst us)
     | Some r \<Rightarrow> so_verified so = (r = Inr (sw_data w)) \<and> read_back_heard t kf plan w L xs r)"
proof -
  have ts: "filter (is_transfer \<circ> fst) ts = ts" "filter (is_transfer \<circ> fst) us = []"
    using assms(4) us by (auto simp: filter_id_conv filter_empty_conv list_all_iff)
  have acks_status: "\<not> acked ts q parse" if "\<not> is_transfer q" for q and parse :: "bytes \<Rightarrow> status"
    by (rule acked_other [OF assms(4) that])
  have acks_bytes: "\<not> acked ts q parse" if "\<not> is_transfer q" for q and parse :: "bytes \<Rightarrow> bytes result"
    by (rule acked_other [OF assms(4) that])
  have block: "agreed_block plan w xs = choose_block_payload reported (fp_block_size_hint plan)"
    by (simp add: agreed_block_def xs_def assms(2))
  have reads: "\<not> list_ex is_read (map fst ts)"
    using assms(4) by (auto simp: list_all_iff list_ex_iff dest: transfer_not_read)
  show ?thesis
    unfolding told_def Let_def block sector_log.simps
    using assms(1-3) ts reads
    by (auto simp: xs_def acks_status acks_bytes comp_def split: option.splits)
qed

definition added :: "flash_report \<Rightarrow> sector_log \<Rightarrow> sector_outcome \<Rightarrow> flash_report" where
  "added rep g so = rep\<lparr>fr_bytes_transferred := fr_bytes_transferred rep + sl_bytes g, fr_sectors := fr_sectors rep @ [so]\<rparr>"

text \<open>A sector's run ends before its first request, in a reported outcome that is not complete, or complete.\<close>

definition sector_stopped ::
  "'s transport \<Rightarrow> (bytes \<Rightarrow> bytes result) option \<Rightarrow> flash_plan \<Rightarrow> sector_write \<Rightarrow> exchange_log \<Rightarrow> flash_report \<Rightarrow> error \<Rightarrow> 's tfx \<Rightarrow> bool" where
  "sector_stopped t kf plan w L rep e fx \<longleftrightarrow> (\<exists>post. all_closing post \<and>
     (err_code e = Cancelled \<and> shown fx = (L @ post, tidied post rep) \<or>
      (\<exists>g so. told t kf plan w L g so \<and> \<not> complete_sector so g \<and>
         shown fx = (L @ sl_exchanges g @ post, tidied post (added rep g so)))))"

definition sector_done ::
  "'s transport \<Rightarrow> (bytes \<Rightarrow> bytes result) option \<Rightarrow> flash_plan \<Rightarrow> sector_write \<Rightarrow> exchange_log \<Rightarrow> flash_report \<Rightarrow> 's tfx \<Rightarrow> bool" where
  "sector_done t kf plan w L rep fx \<longleftrightarrow> (\<exists>g so. told t kf plan w L g so \<and> complete_sector so g \<and>
     shown fx = (L @ sl_exchanges g, added rep g so))"

lemma sector_stoppedI:
  assumes "told t kf plan w L \<lparr>sl_exchanges = xs, sl_bytes = k, sl_read = v\<rparr> so"
    and "\<not> complete_sector so \<lparr>sl_exchanges = xs, sl_bytes = k, sl_read = v\<rparr>" "all_closing post"
    and "shown fx = (L @ xs @ post, tidied post (rep\<lparr>fr_bytes_transferred := fr_bytes_transferred rep + k, fr_sectors := fr_sectors rep @ [so]\<rparr>))"
  shows "sector_stopped t kf plan w L rep e fx"
  unfolding sector_stopped_def
  by (rule exI [of _ post], rule conjI [OF assms(3)], rule disjI2, rule exI [of _ "\<lparr>sl_exchanges = xs, sl_bytes = k, sl_read = v\<rparr>"], rule exI [of _ so])
    (use assms in \<open>simp add: added_def\<close>)

text \<open>From the end of the transfer to the commit.\<close>

lemma wp_sector_tail:
  fixes fx :: "'s tfx"
  assumes env: "fe_transport env = heard t" "fe_key_fn env = kf"
    and head: "\<not> isl (answer a1 erase_ack)" "answer a2 parse_request_download_response = Inr reported"
      "delivers plan w (choose_block_payload reported (fp_block_size_hint plan)) 1 0 ts (length (sw_data w))" "list_all is_transfer (map fst ts)"
    and so: "so = (fresh_outcome (sw_sector w))\<lparr>so_erased := True, so_downloaded := True, so_transferred := True\<rparr>"
    and fx: "shown fx = (L @ [(erase_request w, a1), (download_request plan w, a2)] @ ts,
      rep\<lparr>fr_bytes_transferred := fr_bytes_transferred rep + length (sw_data w)\<rparr>)"
  shows "wp (seq (stage_exit env plan w so) (\<lambda>o4.
          seq (stage_check env plan w o4) (\<lambda>o5.
          seq (stage_verify env plan w o5) (\<lambda>o6.
          seq (commit_outcome env plan o6) (\<lambda>_.
          update_state (audit_sector_written (so_sector o6) (so_verified o6)))))))
    (\<lambda>_. sector_done t kf plan w L rep) (sector_stopped t kf plan w L rep) fx"
proof -
  let ?xs = "[(erase_request w, a1), (download_request plan w, a2)] @ ts" and ?n = "length (sw_data w)"
  let ?rep = "rep\<lparr>fr_bytes_transferred := fr_bytes_transferred rep + ?n\<rparr>"
  let ?R = "sector_stopped t kf plan w L rep"
  note told_iff = told_after_download [OF head, unfolded append_Cons append_Nil]
  have flags: "so_sector so = sw_sector w" "so_erased so" "so_downloaded so" "so_transferred so" "\<not> so_exited so"
      "\<not> so_check_deps_passed so" "so_verified so"
    by (simp_all add: so fresh_outcome_def)
  have no_reads: "list_all (\<lambda>q. \<not> is_read q) (map fst ts)"
    using head(4) by (auto simp: list_all_iff dest: transfer_not_read)
  have reads_ok: "list_all (\<lambda>q. \<not> is_transfer q \<and> q \<noteq> erase_request w \<and> q \<noteq> download_request plan w) (map fst zs) \<and>
      \<not> acked zs build_request_transfer_exit parse_request_transfer_exit_response \<and> \<not> acked zs check_request check_ack"
    if "list_all is_read (map fst zs)" for zs :: exchange_log
    using that acked_other [OF that, of build_request_transfer_exit] acked_other [OF that, of check_request] transfer_not_read
    by (auto simp: list_all_iff)
  show ?thesis
    unfolding wp_seq
  proof (rule wp_stage_exit [OF env(1) fx])
    fix a e post and fx' :: "'s tfx"
    assume "isl (answer a parse_request_transfer_exit_response)" "all_closing post" "shown fx' =
      ((L @ ?xs) @ [(build_request_transfer_exit, a)] @ post, tidied post (?rep\<lparr>fr_sectors := fr_sectors ?rep @ [so]\<rparr>))"
    then show "?R e fx'"
      by (intro sector_stoppedI [of t kf plan w L "?xs @ [(build_request_transfer_exit, a)]" ?n None so post])
        (simp_all add: told_iff flags complete_sector_def outcome_completed_def)
  next
    fix a4 and fx4 :: "'s tfx"
    assume a4: "\<not> isl (answer a4 parse_request_transfer_exit_response)"
      and fx4: "shown fx4 = ((L @ ?xs) @ [(build_request_transfer_exit, a4)], ?rep)"
    let ?xs4 = "?xs @ [(build_request_transfer_exit, a4)]" and ?o4 = "so\<lparr>so_exited := True\<rparr>"
    show "wp (stage_check env plan w ?o4) (\<lambda>a. wp (stage_verify env plan w a) (\<lambda>a. wp (commit_outcome env plan a)
        (\<lambda>_. wp (update_state (audit_sector_written (so_sector a) (so_verified a))) (\<lambda>_. sector_done t kf plan w L rep) ?R) ?R) ?R) ?R fx4"
    proof (rule wp_stage_check [OF env(1) fx4])
      fix a e post and fx' :: "'s tfx"
      assume "isl (answer a check_ack)" "all_closing post" "shown fx' =
        (((L @ ?xs) @ [(build_request_transfer_exit, a4)]) @ [(check_request, a)] @ post, tidied post (?rep\<lparr>fr_sectors := fr_sectors ?rep @ [?o4]\<rparr>))"
      then show "?R e fx'"
        by (intro sector_stoppedI [of t kf plan w L "?xs4 @ [(check_request, a)]" ?n None ?o4 post])
          (simp_all add: told_iff flags a4 complete_sector_def outcome_completed_def)
    next
      fix a5 and fx5 :: "'s tfx"
      assume a5: "\<not> isl (answer a5 check_ack)"
        and fx5: "shown fx5 = (((L @ ?xs) @ [(build_request_transfer_exit, a4)]) @ [(check_request, a5)], ?rep)"
      let ?us = "[(build_request_transfer_exit, a4), (check_request, a5)]" and ?o5 = "?o4\<lparr>so_check_deps_passed := True\<rparr>"
      have finish: "wp (commit_outcome env plan o6) (\<lambda>_. wp (update_state (audit_sector_written (so_sector o6) (so_verified o6)))
          (\<lambda>_. sector_done t kf plan w L rep) ?R) ?R fx6"
        if "told t kf plan w L \<lparr>sl_exchanges = ?xs @ ?us @ zs, sl_bytes = ?n, sl_read = v\<rparr> o6" "outcome_completed o6" "\<nexists>e. v = Some (Inl e)"
          "shown fx6 = (L @ ?xs @ ?us @ zs, ?rep)" for o6 v zs and fx6 :: "'s tfx"
      proof (rule wp_commit [OF that(4)])
        fix fx7 :: "'s tfx" assume "shown fx7 = (L @ ?xs @ ?us @ zs, ?rep\<lparr>fr_sectors := fr_sectors ?rep @ [o6]\<rparr>)"
        then show "wp (update_state (audit_sector_written (so_sector o6) (so_verified o6))) (\<lambda>_. sector_done t kf plan w L rep) ?R fx7"
          unfolding wp_update_state sector_done_def
          by (intro exI [of _ "\<lparr>sl_exchanges = ?xs @ ?us @ zs, sl_bytes = ?n, sl_read = v\<rparr>"] exI [of _ o6])
            (use that in \<open>auto simp: added_def complete_sector_def split: option.split sum.split\<close>)
      qed
      show "wp (stage_verify env plan w ?o5) (\<lambda>a. wp (commit_outcome env plan a)
        (\<lambda>_. wp (update_state (audit_sector_written (so_sector a) (so_verified a))) (\<lambda>_. sector_done t kf plan w L rep) ?R) ?R) ?R fx5"
      proof (rule wp_stage_verify [OF env, of fx5 L "?xs @ ?us" ?rep])
        show "shown fx5 = (L @ ?xs @ ?us, ?rep)" using fx5 by simp
        show "list_all (\<lambda>q. \<not> is_read q) (map fst (?xs @ ?us))" using no_reads by simp
      next
        assume "\<not> fp_verify_after_write plan"
        then show "wp (commit_outcome env plan ?o5) (\<lambda>_. wp (update_state (audit_sector_written (so_sector ?o5) (so_verified ?o5)))
            (\<lambda>_. sector_done t kf plan w L rep) ?R) ?R fx5"
          by (intro finish [of "[]" None ?o5])
            (use fx5 in \<open>simp_all add: told_iff flags a4 a5 outcome_completed_def\<close>)
      next
        fix data zs and fx6 :: "'s tfx"
        assume v: "fp_verify_after_write plan" and rb: "read_back_heard t kf plan w L ((?xs @ ?us) @ zs) (Inr data)"
          and zs: "list_all is_read (map fst zs)" and fx6: "shown fx6 = (L @ (?xs @ ?us) @ zs, ?rep)"
        let ?o6 = "?o5\<lparr>so_verified := (data = sw_data w)\<rparr>"
        show "wp (commit_outcome env plan ?o6) (\<lambda>_. wp (update_state (audit_sector_written (so_sector ?o6) (so_verified ?o6)))
            (\<lambda>_. sector_done t kf plan w L rep) ?R) ?R fx6"
          by (intro finish [of zs "Some (Inr data)" ?o6])
            (use fx6 rb v reads_ok [OF zs] in \<open>simp_all add: told_iff flags a4 a5 outcome_completed_def\<close>)
      next
        fix e0 e zs post and fx6 :: "'s tfx"
        assume v: "fp_verify_after_write plan" and rb: "read_back_heard t kf plan w L ((?xs @ ?us) @ zs) (Inl e0)"
          and zs: "list_all is_read (map fst zs)" and post: "all_closing post"
          and fx6: "shown fx6 = (L @ ((?xs @ ?us) @ zs) @ post, tidied post (?rep\<lparr>fr_sectors := fr_sectors ?rep @ [?o5\<lparr>so_verified := False\<rparr>]\<rparr>))"
        show "?R e fx6"
          by (intro sector_stoppedI [of t kf plan w L "?xs @ ?us @ zs" ?n "Some (Inl e0)" "?o5\<lparr>so_verified := False\<rparr>" post] post)
            (use fx6 rb v reads_ok [OF zs] in \<open>simp_all add: told_iff flags a4 a5 complete_sector_def\<close>)
      qed
    qed
  qed
qed

text \<open>The stops before the transfer ran to its end.\<close>

lemma told_head:
  "isl (answer a1 erase_ack) \<Longrightarrow> sw_data w \<noteq> [] \<Longrightarrow>
     told t kf plan w L \<lparr>sl_exchanges = [(erase_request w, a1)], sl_bytes = 0, sl_read = None\<rparr> (fresh_outcome (sw_sector w))"
  "\<not> isl (answer a1 erase_ack) \<Longrightarrow> sw_data w \<noteq> [] \<Longrightarrow>
     so = (fresh_outcome (sw_sector w))\<lparr>so_erased := True, so_downloaded := \<not> isl (answer a2 parse_request_download_response)\<rparr> \<Longrightarrow>
     told t kf plan w L \<lparr>sl_exchanges = [(erase_request w, a1), (download_request plan w, a2)], sl_bytes = 0, sl_read = None\<rparr> so"
  by (auto simp: told_def fresh_outcome_def)

lemma wp_flash_sector:
  fixes fx :: "'s tfx"
  assumes env: "fe_transport env = heard t" "fe_key_fn env = kf" and w: "sw_data w \<noteq> []"
    and b6: "use_b6 = (fp_data_format plan = kDataFormatSubaruCiphertext)" and fx: "shown fx = (L, rep)"
  shows "wp (flash_sector env plan use_b6 w) (\<lambda>_. sector_done t kf plan w L rep) (sector_stopped t kf plan w L rep) fx"
proof -
  let ?R = "sector_stopped t kf plan w L rep" and ?Q = "\<lambda>_ :: unit. sector_done t kf plan w L rep"
  let ?o0 = "fresh_outcome (sw_sector w)"
  let ?o2 = "?o0\<lparr>so_erased := True, so_downloaded := True\<rparr>"
  let ?tail = "\<lambda>o2. let o3 = o2\<lparr>so_transferred := True\<rparr> in
         seq (stage_exit env plan w o3) (\<lambda>o4.
         seq (stage_check env plan w o4) (\<lambda>o5.
         seq (stage_verify env plan w o5) (\<lambda>o6.
         seq (commit_outcome env plan o6) (\<lambda>_.
         update_state (audit_sector_written (so_sector o6) (so_verified o6))))))"
  let ?send = "\<lambda>o2 bp. seq (transfer_loop env plan use_b6 w o2 bp (1, 0)) (\<lambda>offset.
     seq (add_bytes_transferred offset) (\<lambda>_. ?tail o2))"
  have send: "wp (?send ?o2 (choose_block_payload reported (fp_block_size_hint plan))) ?Q ?R fx3"
    if a: "\<not> isl (answer a1 erase_ack)" "answer a2 parse_request_download_response = Inr reported"
      and bp: "choose_block_payload reported (fp_block_size_hint plan) \<noteq> 0"
      and fx3: "shown fx3 = (L @ [(erase_request w, a1), (download_request plan w, a2)], rep)" for a1 a2 reported and fx3 :: "'s tfx"
    unfolding wp_seq [of "transfer_loop env plan use_b6 w ?o2 _ _"]
  proof (rule wp_transfer_loop [OF env(1) bp b6 _ _ _ _ fx3])
    fix ts and fx4 :: "'s tfx"
    assume ts: "delivers plan w (choose_block_payload reported (fp_block_size_hint plan)) 1 0 ts (length (sw_data w))"
        "list_all is_transfer (map fst ts)"
      and fx4: "shown fx4 = ((L @ [(erase_request w, a1), (download_request plan w, a2)]) @ ts, rep)"
    show "wp (seq (add_bytes_transferred (length (sw_data w))) (\<lambda>_. ?tail ?o2)) ?Q ?R fx4"
      unfolding wp_seq [of "add_bytes_transferred _"] Let_def
      by (rule wp_add_bytes [OF fx4], rule wp_sector_tail [OF env a ts]) simp_all
  next
    fix e ts k post and fx4 :: "'s tfx"
    assume ts: "delivers plan w (choose_block_payload reported (fp_block_size_hint plan)) 1 0 ts k" "list_all is_transfer (map fst ts)"
      and k: "k < length (sw_data w)" "all_closing post"
      and fx4: "shown fx4 = ((L @ [(erase_request w, a1), (download_request plan w, a2)]) @ ts @ post,
        tidied post (rep\<lparr>fr_bytes_transferred := fr_bytes_transferred rep + k, fr_sectors := fr_sectors rep @ [?o2]\<rparr>))"
    have "told t kf plan w L \<lparr>sl_exchanges = [(erase_request w, a1), (download_request plan w, a2)] @ ts, sl_bytes = k, sl_read = None\<rparr> ?o2"
      using told_after_download [OF a ts, of "[]" t kf L None ?o2] k(1) by (simp add: fresh_outcome_def)
    then show "?R e fx4"
      by (rule sector_stoppedI [OF _ _ k(2)]) (use fx4 in \<open>simp_all add: complete_sector_def outcome_completed_def fresh_outcome_def\<close>)
  qed simp_all
  have started: "wp (seq (stage_erase env plan w ?o0) (\<lambda>o1. seq (stage_download env plan w o1) (\<lambda>(o2, bp). ?send o2 bp))) ?Q ?R fx1"
    if fx1: "shown fx1 = (L, rep)" for fx1 :: "'s tfx"
    unfolding wp_seq [of "stage_erase env plan w ?o0"]
  proof (rule wp_stage_erase [OF env(1) fx1])
    fix a1 e post and fx2 :: "'s tfx"
    assume "isl (answer a1 erase_ack)" "all_closing post" "shown fx2 = (L @ [(erase_request w, a1)] @ post,
      tidied post (rep\<lparr>fr_sectors := fr_sectors rep @ [?o0]\<rparr>))"
    then show "?R e fx2"
      by (intro sector_stoppedI [OF told_head(1) [OF _ w]]) (simp_all add: complete_sector_def outcome_completed_def fresh_outcome_def)
  next
    fix a1 and fx2 :: "'s tfx"
    assume a1: "\<not> isl (answer a1 erase_ack)" and fx2: "shown fx2 = (L @ [(erase_request w, a1)], rep)"
    show "wp (seq (stage_download env plan w (?o0\<lparr>so_erased := True\<rparr>)) (\<lambda>(o2, bp). ?send o2 bp)) ?Q ?R fx2"
      unfolding wp_seq [of "stage_download env plan w (?o0\<lparr>so_erased := True\<rparr>)"]
    proof (rule wp_stage_download [OF env(1) fx2])
      fix a2 reported and fx3 :: "'s tfx"
      assume "answer a2 parse_request_download_response = Inr reported" "choose_block_payload reported (fp_block_size_hint plan) \<noteq> 0"
        "shown fx3 = ((L @ [(erase_request w, a1)]) @ [(download_request plan w, a2)], rep)"
      then show "wp (case (?o0\<lparr>so_erased := True, so_downloaded := True\<rparr>, choose_block_payload reported (fp_block_size_hint plan)) of
          (o2, bp) \<Rightarrow> ?send o2 bp) ?Q ?R fx3"
        unfolding prod.case by (intro send) (simp_all add: a1)
    next
      fix a2 e post so' and fx3 :: "'s tfx"
      assume so': "so' = ?o0\<lparr>so_erased := True, so_downloaded := so_downloaded (?o0\<lparr>so_erased := True\<rparr>) \<or> \<not> isl (answer a2 parse_request_download_response)\<rparr>"
        and post: "all_closing post" and fx3: "shown fx3 = ((L @ [(erase_request w, a1)]) @ [(download_request plan w, a2)] @ post,
          tidied post (rep\<lparr>fr_sectors := fr_sectors rep @ [so']\<rparr>))"
      show "?R e fx3"
        by (rule sector_stoppedI [OF told_head(2) [OF a1 w] _ post])
          (use so' fx3 in \<open>auto simp: complete_sector_def outcome_completed_def fresh_outcome_def\<close>)
    qed
  qed
  show ?thesis
    unfolding flash_sector_def wp_seq [of "is_cancelled env"]
  proof (rule wp_is_cancelled)
    fix cancelled and fx1 :: "'s tfx" assume "shown fx1 = shown fx"
    then have fx1: "shown fx1 = (L, rep)" using fx by simp
    have "wp (seq (cancel_cleanup env False) (\<lambda>_. bail env Cancelled msg)) ?Q ?R fx1" for msg
      unfolding wp_seq
    proof (rule wp_cancel_cleanup [OF env(1) fx1], rule wp_bail [OF env(1)], assumption)
      fix e :: error and p1 p2 and fx2 :: "'s tfx"
      assume "err_code e = Cancelled" "all_closing p1" "all_closing p2" "shown fx2 = ((L @ p1) @ p2, tidied p2 (tidied p1 rep))"
      then show "?R e fx2" unfolding sector_stopped_def by (intro exI [of _ "p1 @ p2"]) simp
    qed
    with started [OF fx1] show "wp (if cancelled then
         seq (cancel_cleanup env False) (\<lambda>_.
           bail env Cancelled (''flash: cancelled between sectors at '' @ hex_addr (sec_address (sw_sector w))))
       else
         seq (stage_erase env plan w ?o0) (\<lambda>o1. seq (stage_download env plan w o1) (\<lambda>(o2, bp). ?send o2 bp))) ?Q ?R fx1"
      by (cases cancelled) (simp_all only: if_True if_False)
  qed
qed

section \<open>The whole run\<close>

text \<open>A run that stopped with sectors reported: all of them complete and cancelled before the next, or the last one not complete.\<close>

definition stopped_at :: "error \<Rightarrow> sector_outcome list \<Rightarrow> sector_log list \<Rightarrow> bool" where
  "stopped_at e sos gs \<longleftrightarrow>
     list_all2 complete_sector sos gs \<and> err_code e = Cancelled \<or>
     gs \<noteq> [] \<and> sos \<noteq> [] \<and> list_all2 complete_sector (butlast sos) (butlast gs) \<and> \<not> complete_sector (last sos) (last gs)"

lemma stopped_at_Cons: "complete_sector so g \<Longrightarrow> stopped_at e sos gs \<Longrightarrow> stopped_at e (so # sos) (g # gs)"
  by (auto simp: stopped_at_def)

definition added_all :: "flash_report \<Rightarrow> sector_log list \<Rightarrow> sector_outcome list \<Rightarrow> flash_report" where
  "added_all rep gs sos = rep\<lparr>fr_bytes_transferred := fr_bytes_transferred rep + sum_list (map sl_bytes gs),
     fr_sectors := fr_sectors rep @ sos\<rparr>"

lemma added_all_simps [simp]:
  "added_all rep [] [] = rep" "added_all (added rep g so) gs sos = added_all rep (g # gs) (so # sos)"
  by (simp_all add: added_all_def added_def)

lemma wp_all_sectors:
  fixes fx :: "'s tfx"
  assumes env: "fe_transport env = heard t" "fe_key_fn env = kf"
    and b6: "use_b6 = (fp_data_format plan = kDataFormatSubaruCiphertext)"
    and ws: "\<forall>w \<in> set ws. sw_data w \<noteq> []" and fx: "shown fx = (L, rep)"
  shows "wp (for_each (flash_sector env plan use_b6) ws)
    (\<lambda>_ fx'. \<exists>gs sos. told_all t kf plan L ws gs sos \<and> length gs = length ws \<and> list_all2 complete_sector sos gs \<and>
       shown fx' = (L @ concat (map sl_exchanges gs), added_all rep gs sos))
    (\<lambda>e fx'. \<exists>gs sos post. told_all t kf plan L ws gs sos \<and> all_closing post \<and> stopped_at e sos gs \<and>
       shown fx' = (L @ concat (map sl_exchanges gs) @ post, tidied post (added_all rep gs sos))) fx"
    (is "wp _ (?Q L rep ws) (?R L rep ws) fx")
  using ws fx
proof (induction ws arbitrary: L rep fx)
  case Nil
  then show ?case
    unfolding for_each.simps wp_skip_with by (intro exI [of _ "[]"]) simp
next
  case (Cons w ws)
  have rest: "wp (for_each (flash_sector env plan use_b6) ws) (?Q L rep (w # ws)) (?R L rep (w # ws)) fx'"
    if done_w: "told t kf plan w L g so" "complete_sector so g" "shown fx' = (L @ sl_exchanges g, added rep g so)" for g so and fx' :: "'s tfx"
  proof (rule wp_mono [OF Cons.IH [OF _ done_w(3)]])
    fix x fx'' assume "?Q (L @ sl_exchanges g) (added rep g so) ws x fx''"
    then obtain gs sos where "told_all t kf plan (L @ sl_exchanges g) ws gs sos" "length gs = length ws" "list_all2 complete_sector sos gs"
      "shown fx'' = ((L @ sl_exchanges g) @ concat (map sl_exchanges gs), added_all (added rep g so) gs sos)" by blast
    then show "?Q L rep (w # ws) x fx''" using done_w by (intro exI [of _ "g # gs"] exI [of _ "so # sos"]) simp
  next
    fix e fx'' assume "?R (L @ sl_exchanges g) (added rep g so) ws e fx''"
    then obtain gs sos post where "told_all t kf plan (L @ sl_exchanges g) ws gs sos" "all_closing post" "stopped_at e sos gs"
      "shown fx'' = ((L @ sl_exchanges g) @ concat (map sl_exchanges gs) @ post, tidied post (added_all (added rep g so) gs sos))" by blast
    then show "?R L rep (w # ws) e fx''"
      using done_w by (intro exI [of _ "g # gs"] exI [of _ "so # sos"] exI [of _ post]) (simp add: stopped_at_Cons)
  qed (use Cons.prems in simp)
  have stop: "?R L rep (w # ws) e fx'" if stopped: "sector_stopped t kf plan w L rep e fx'" for e and fx' :: "'s tfx"
  proof -
    obtain post where post: "all_closing post" and cases: "err_code e = Cancelled \<and> shown fx' = (L @ post, tidied post rep) \<or>
        (\<exists>g so. told t kf plan w L g so \<and> \<not> complete_sector so g \<and>
           shown fx' = (L @ sl_exchanges g @ post, tidied post (added rep g so)))"
      using stopped by (auto simp: sector_stopped_def)
    from cases show ?thesis
    proof (elim disjE exE conjE)
      assume "err_code e = Cancelled" "shown fx' = (L @ post, tidied post rep)"
      then show ?thesis using post by (intro exI [of _ "[]"] exI [of _ post]) (simp add: stopped_at_def)
    next
      fix g so assume "told t kf plan w L g so" "\<not> complete_sector so g" "shown fx' = (L @ sl_exchanges g @ post, tidied post (added rep g so))"
      then show ?thesis using post
        by (intro exI [of _ "[g]"] exI [of _ "[so]"] exI [of _ post]) (simp add: stopped_at_def added_all_def added_def)
    qed
  qed
  show ?case
    unfolding for_each.simps wp_seq
  proof (rule wp_mono [OF wp_flash_sector [OF env _ b6 Cons.prems(2)]])
    fix x and fx' :: "'s tfx" assume "sector_done t kf plan w L rep fx'"
    then obtain g so where "told t kf plan w L g so" "complete_sector so g" "shown fx' = (L @ sl_exchanges g, added rep g so)"
      unfolding sector_done_def by blast
    then show "wp (for_each (flash_sector env plan use_b6) ws) (?Q L rep (w # ws)) (?R L rep (w # ws)) fx'" by (rule rest)
  next
    fix e and fx' :: "'s tfx" assume "sector_stopped t kf plan w L rep e fx'"
    then show "?R L rep (w # ws) e fx'" by (rule stop)
  qed (use Cons.prems(1) in simp)
qed

text \<open>The session around the sectors: \<open>pre\<close> opens it, \<open>post\<close> closes it, and the three flags say what of that the ECU accepted.\<close>

abbreviation session_ack :: "flash_plan \<Rightarrow> bytes \<Rightarrow> status" where
  "session_ack plan resp \<equiv> parse_dsc_response resp (fp_session plan)"

definition session_told :: "flash_plan \<Rightarrow> exchange_log \<Rightarrow> exchange_log \<Rightarrow> flash_report \<Rightarrow> bool" where
  "session_told plan pre post rep \<longleftrightarrow>
     list_all (opens_bus plan) (map fst pre) \<and> list_all closes_bus (map fst post) \<and>
     fr_entered_session rep = acked pre (build_dsc_request (fp_session plan)) (session_ack plan) \<and>
     fr_silenced_bus rep = acked pre bus_off_request bus_off_ack \<and>
     fr_restored_bus rep = acked post bus_on_request bus_on_ack"

text \<open>The sectors of the report, one for each part of the log from \<open>L\<close> on; a dry run has no such part.\<close>

definition sectors_told ::
  "'s transport \<Rightarrow> (bytes \<Rightarrow> bytes result) option \<Rightarrow> flash_plan \<Rightarrow> exchange_log \<Rightarrow> error option \<Rightarrow> sector_log list \<Rightarrow> flash_report \<Rightarrow> bool" where
  "sectors_told t kf plan L err gs rep \<longleftrightarrow>
     (if fp_dry_run plan then
        gs = [] \<and> fr_bytes_transferred rep = 0 \<and>
        fr_sectors rep = (if err = None then map (fresh_outcome \<circ> sw_sector) (order_writes plan) else [])
      else told_all t kf plan L (order_writes plan) gs (fr_sectors rep) \<and>
        fr_bytes_transferred rep = sum_list (map sl_bytes gs))"

text \<open>How far the run got: to the end without an error; with one, not through its opening, or to a sector.\<close>

definition outcome_told :: "flash_plan \<Rightarrow> error option \<Rightarrow> sector_log list \<Rightarrow> flash_report \<Rightarrow> bool" where
  "outcome_told plan err gs rep \<longleftrightarrow>
     (case err of
        None \<Rightarrow> fr_entered_session rep \<and> fr_silenced_bus rep = fp_silence_bus plan \<and>
          (fp_dry_run plan \<or> list_all2 complete_sector (fr_sectors rep) gs \<and> length gs = length (fp_writes plan) \<and>
             fr_bytes_transferred rep = bytes_planned plan)
      | Some e \<Rightarrow>
          (if fr_entered_session rep \<and> fr_silenced_bus rep = fp_silence_bus plan then
             \<not> fp_dry_run plan \<and> stopped_at e (fr_sectors rep) gs
           else gs = []))"

text \<open>A run that sent nothing more than its opening.\<close>

definition unopened :: "flash_plan \<Rightarrow> exchange_log \<Rightarrow> 's tfx \<Rightarrow> bool" where
  "unopened plan L fx \<longleftrightarrow> (\<exists>pre post rep. shown fx = (L @ pre @ post, rep) \<and> session_told plan pre post rep \<and>
     fr_sectors rep = [] \<and> fr_bytes_transferred rep = 0 \<and> \<not> (fr_entered_session rep \<and> fr_silenced_bus rep = fp_silence_bus plan))"

lemma opens_bus_simps [simp]:
  "opens_bus plan (build_dsc_request (fp_session plan))" "opens_bus plan bus_off_request"
  by (simp_all add: opens_bus_def)

lemma empty_report_simps [simp]:
  "fr_sectors empty_report = []" "fr_bytes_transferred empty_report = 0" "fr_entered_session empty_report = False"
  "fr_silenced_bus empty_report = False" "fr_restored_bus empty_report = False"
  by (simp_all add: empty_report_def)

definition opened_report :: "flash_plan \<Rightarrow> exchange_log \<Rightarrow> flash_report" where
  "opened_report plan pre = empty_report\<lparr>
     fr_entered_session := acked pre (build_dsc_request (fp_session plan)) (session_ack plan),
     fr_silenced_bus := acked pre bus_off_request bus_off_ack\<rparr>"

lemma opened_report_simps [simp]:
  "fr_sectors (opened_report plan pre) = []" "fr_bytes_transferred (opened_report plan pre) = 0"
  "fr_entered_session (opened_report plan pre) = acked pre (build_dsc_request (fp_session plan)) (session_ack plan)"
  "fr_silenced_bus (opened_report plan pre) = acked pre bus_off_request bus_off_ack"
  "fr_restored_bus (opened_report plan pre) = False"
  "opened_report plan [] = empty_report"
  by (simp_all add: opened_report_def empty_report_def)

lemma unopenedI:
  assumes "list_all (opens_bus plan) (map fst pre)" "all_closing post" "shown fx = (L @ pre @ post, tidied post (opened_report plan pre))"
    and "\<not> (acked pre (build_dsc_request (fp_session plan)) (session_ack plan) \<and> acked pre bus_off_request bus_off_ack = fp_silence_bus plan)"
  shows "unopened plan L fx"
  unfolding unopened_def
  by (rule exI [of _ pre], rule exI [of _ post], rule exI [of _ "tidied post (opened_report plan pre)"])
    (use assms in \<open>simp add: session_told_def tidied_def\<close>)

lemma wp_enter_session:
  fixes fx :: "'s tfx"
  assumes env: "fe_transport env = heard t" and fx: "shown fx = (L, empty_report)"
    and ok: "\<And>fx' pre. acked pre (build_dsc_request (fp_session plan)) (session_ack plan) \<Longrightarrow> \<not> acked pre bus_off_request bus_off_ack \<Longrightarrow>
      list_all (opens_bus plan) (map fst pre) \<Longrightarrow> shown fx' = (L @ pre, opened_report plan pre) \<Longrightarrow> Q () fx'"
    and bad: "\<And>e fx'. unopened plan L fx' \<Longrightarrow> R e fx'"
  shows "wp (enter_session env plan) Q R fx"
proof -
  let ?req = "build_dsc_request (fp_session plan)"
  show ?thesis
    unfolding enter_session_def env diagnostic_session_control_def wp_seq
  proof (rule wp_call [OF fx])
    fix a and fx1 :: "'s tfx" assume fx1: "shown fx1 = (L @ [(?req, a)], empty_report)"
    show "wp (case answer a (session_ack plan) of
        Inl e \<Rightarrow> bail env (err_code e) (''flash: diagnostic_session_control failed: '' @ err_message e)
      | Inr _ \<Rightarrow> update_state (\<lambda>fx. fx\<lparr>fx_report := (fx_report fx)\<lparr>fr_entered_session := True\<rparr>\<rparr>)) Q R fx1"
    proof (cases "answer a (session_ack plan)")
      case (Inl e)
      have rep: "opened_report plan [(?req, a)] = empty_report"
        by (simp add: opened_report_def Inl empty_report_def)
      show ?thesis
        unfolding Inl sum.case
        by (rule wp_bail [OF env fx1], rule bad, rule unopenedI [of plan "[(?req, a)]"]) (simp_all add: rep Inl)
    next
      case (Inr x)
      show ?thesis
        unfolding Inr sum.case wp_update_state
        by (rule ok [of "[(?req, a)]"]) (use fx1 in \<open>simp_all add: Inr shown_def opened_report_def empty_report_def\<close>)
    qed
  qed
qed

lemma wp_silence_bus:
  fixes fx :: "'s tfx"
  assumes env: "fe_transport env = heard t"
    and pre: "acked pre (build_dsc_request (fp_session plan)) (session_ack plan)" "\<not> acked pre bus_off_request bus_off_ack"
      "list_all (opens_bus plan) (map fst pre)"
    and fx: "shown fx = (L @ pre, opened_report plan pre)"
    and ok: "\<And>fx' pre. acked pre (build_dsc_request (fp_session plan)) (session_ack plan) \<Longrightarrow>
      acked pre bus_off_request bus_off_ack = fp_silence_bus plan \<Longrightarrow>
      list_all (opens_bus plan) (map fst pre) \<Longrightarrow> shown fx' = (L @ pre, opened_report plan pre) \<Longrightarrow> Q () fx'"
    and bad: "\<And>e fx'. unopened plan L fx' \<Longrightarrow> R e fx'"
  shows "wp (silence_bus env plan) Q R fx"
proof (cases "fp_silence_bus plan")
  case False
  then show ?thesis unfolding silence_bus_def by (simp add: wp_skip_with) (rule ok [OF pre(1) _ pre(3) fx], simp add: pre(2))
next
  case True
  show ?thesis
    unfolding silence_bus_def if_P [OF True] env communication_control_def wp_seq
      bus_off_request_def [symmetric] bus_off_ack_def [symmetric, abs_def]
  proof (rule wp_call [OF fx])
    fix a and fx1 :: "'s tfx" assume fx1: "shown fx1 = ((L @ pre) @ [(bus_off_request, a)], opened_report plan pre)"
    show "wp (case answer a bus_off_ack of
        Inl e \<Rightarrow> bail env (err_code e) (''flash: communication_control(off) failed: '' @ err_message e)
      | Inr _ \<Rightarrow> update_state (\<lambda>fx. fx\<lparr>fx_report := (fx_report fx)\<lparr>fr_silenced_bus := True\<rparr>\<rparr>)) Q R fx1"
    proof (cases "answer a bus_off_ack")
      case (Inl e)
      have rep: "opened_report plan (pre @ [(bus_off_request, a)]) = opened_report plan pre"
        by (simp add: opened_report_def Inl)
      show ?thesis
        unfolding Inl sum.case
        by (rule wp_bail [OF env fx1], rule bad, rule unopenedI [of plan "pre @ [(bus_off_request, a)]"])
          (simp_all add: rep Inl pre True)
    next
      case (Inr x)
      show ?thesis
        unfolding Inr sum.case wp_update_state
        by (rule ok [of "pre @ [(bus_off_request, a)]"]) (use fx1 pre in \<open>simp_all add: Inr True shown_def opened_report_def\<close>)
    qed
  qed
qed

lemma wp_commit_fresh:
  fixes fx :: "'s tfx"
  assumes "shown fx = (L, rep)"
    and "\<And>fx'. shown fx' = (L, rep\<lparr>fr_sectors := fr_sectors rep @ map (fresh_outcome \<circ> sw_sector) ws\<rparr>) \<Longrightarrow> Q () fx'"
  shows "wp (for_each (\<lambda>w. commit_outcome env plan (fresh_outcome (sw_sector w))) ws) Q R fx"
  using assms
proof (induction ws arbitrary: rep fx)
  case (Cons w ws)
  show ?case
    unfolding for_each.simps wp_seq
    by (rule wp_commit [OF Cons.prems(1)], rule Cons.IH, assumption, rule Cons.prems(2)) simp
qed (simp add: wp_skip_with)

lemma wp_restore_bus_finally:
  fixes fx :: "'s tfx"
  assumes env: "fe_transport env = heard t" and fx: "shown fx = (L, rep)"
    and Q: "\<And>fx' post. all_closing post \<Longrightarrow> shown fx' = (L @ post, tidied post rep) \<Longrightarrow> Q () fx'"
  shows "wp (restore_bus_finally env plan) Q R fx"
proof (cases "fp_silence_bus plan")
  case False
  then show ?thesis using Q [of "[]" fx] fx by (simp add: restore_bus_finally_def wp_skip_with)
next
  case True
  show ?thesis
    unfolding restore_bus_finally_def if_P [OF True] env communication_control_def wp_seq
      bus_on_request_def [symmetric] bus_on_ack_def [symmetric, abs_def]
  proof (rule wp_call [OF fx])
    fix a and fx1 :: "'s tfx" assume fx1: "shown fx1 = (L @ [(bus_on_request, a)], rep)"
    show "wp (case answer a bus_on_ack of
        Inl e \<Rightarrow> skip_with ()
      | Inr _ \<Rightarrow> update_state (\<lambda>fx. fx\<lparr>fx_report := (fx_report fx)\<lparr>fr_restored_bus := True\<rparr>\<rparr>)) Q R fx1"
      by (cases "answer a bus_on_ack") (use fx1 in \<open>auto simp: wp_rules shown_def tidied_def intro!: Q [of "[(bus_on_request, a)]"]\<close>)
  qed
qed

lemma complete_bytes: "told t kf plan w L g so \<Longrightarrow> complete_sector so g \<Longrightarrow> sl_bytes g = length (sw_data w)"
  by (auto simp: told_def complete_sector_def outcome_completed_def Let_def)

lemma told_all_bytes:
  "told_all t kf plan L ws gs sos \<Longrightarrow> list_all2 complete_sector sos gs \<Longrightarrow> length gs = length ws \<Longrightarrow>
     sum_list (map sl_bytes gs) = sum_list (map (\<lambda>w. length (sw_data w)) ws)"
  by (induction t kf plan L ws gs sos rule: told_all.induct) (auto dest: complete_bytes)

lemma bytes_planned_order: "sum_list (map (\<lambda>w. length (sw_data w)) (order_writes plan)) = bytes_planned plan"
  using arg_cong [OF mset_order_writes, of "\<lambda>M. sum_mset (image_mset (\<lambda>w. length (sw_data w)) M)" plan]
  by (simp add: bytes_planned_def flip: mset_map sum_mset_sum_list)

definition run_told ::
  "'s transport \<Rightarrow> (bytes \<Rightarrow> bytes result) option \<Rightarrow> flash_plan \<Rightarrow> exchange_log \<Rightarrow> error option \<Rightarrow> 's tfx \<Rightarrow> bool" where
  "run_told t kf plan L err fx \<longleftrightarrow> (\<exists>pre gs post.
     snd (fx_wire fx) = L @ pre @ concat (map sl_exchanges gs) @ post \<and>
     session_told plan pre post (fx_report fx) \<and>
     sectors_told t kf plan (L @ pre) err gs (fx_report fx) \<and>
     outcome_told plan err gs (fx_report fx))"

lemma run_toldI:
  assumes "shown fx = (L @ pre @ concat (map sl_exchanges gs) @ post, tidied post (added_all (opened_report plan pre) gs sos))"
    and "list_all (opens_bus plan) (map fst pre)" "all_closing post"
    and "sectors_told t kf plan (L @ pre) err gs (added_all (opened_report plan pre) gs sos)"
    and "outcome_told plan err gs (added_all (opened_report plan pre) gs sos)"
  shows "run_told t kf plan L err fx"
proof -
  let ?rep = "tidied post (added_all (opened_report plan pre) gs sos)"
  have "session_told plan pre post ?rep"
    using assms(2,3) by (simp add: session_told_def tidied_def added_all_def)
  moreover have "sectors_told t kf plan (L @ pre) err gs ?rep" using assms(4) by (simp only: sectors_told_def tidied_simps)
  moreover have "outcome_told plan err gs ?rep" using assms(5) by (simp only: outcome_told_def tidied_simps)
  moreover have "snd (fx_wire fx) = L @ pre @ concat (map sl_exchanges gs) @ post" "fx_report fx = ?rep"
    using assms(1) by (simp_all add: shown_def)
  ultimately show ?thesis unfolding run_told_def by metis
qed

lemma unopened_told:
  assumes "unopened plan L fx"
  shows "run_told t kf plan L (Some e) fx"
proof -
  obtain pre post rep where r: "shown fx = (L @ pre @ post, rep)" "session_told plan pre post rep" "fr_sectors rep = []"
      "fr_bytes_transferred rep = 0" "\<not> (fr_entered_session rep \<and> fr_silenced_bus rep = fp_silence_bus plan)"
    using assms unfolding unopened_def by blast
  have "outcome_told plan (Some e) [] rep" by (simp only: outcome_told_def option.case r(5) if_False)
  moreover have "sectors_told t kf plan (L @ pre) (Some e) [] rep" using r by (simp add: sectors_told_def)
  ultimately show ?thesis
    unfolding run_told_def
    by (intro exI [of _ pre] exI [of _ "[]"] exI [of _ post]) (use r in \<open>simp add: shown_def\<close>)
qed

lemma wp_write_sectors:
  fixes fx :: "'s tfx"
  assumes env: "fe_transport env = heard t" "fe_key_fn env = kf" and valid: "list_all write_valid (fp_writes plan)"
    and pre: "acked pre (build_dsc_request (fp_session plan)) (session_ack plan)"
      "acked pre bus_off_request bus_off_ack = fp_silence_bus plan" "list_all (opens_bus plan) (map fst pre)"
    and fx: "shown fx = (L @ pre, opened_report plan pre)"
    and ok: "\<And>fx' rep gs sos. rep = added_all (opened_report plan pre) gs sos \<Longrightarrow> sectors_told t kf plan (L @ pre) None gs rep \<Longrightarrow>
      outcome_told plan None gs rep \<Longrightarrow> shown fx' = (L @ pre @ concat (map sl_exchanges gs), rep) \<Longrightarrow> Q () fx'"
    and bad: "\<And>e fx'. run_told t kf plan L (Some e) fx' \<Longrightarrow> R e fx'"
  shows "wp (write_sectors env plan) Q R fx"
proof (cases "fp_dry_run plan")
  case True
  show ?thesis
    unfolding write_sectors_def Let_def if_P [OF True]
  proof (rule wp_commit_fresh [OF fx])
    let ?sos = "map (fresh_outcome \<circ> sw_sector) (order_writes plan)"
    fix fx' :: "'s tfx"
    assume fx': "shown fx' = (L @ pre, opened_report plan pre\<lparr>fr_sectors := fr_sectors (opened_report plan pre) @ ?sos\<rparr>)"
    show "Q () fx'"
      by (rule ok [OF refl, of "[]" ?sos]) (use fx' pre True in \<open>simp_all add: sectors_told_def outcome_told_def added_all_def\<close>)
  qed
next
  case False
  have data: "\<forall>w \<in> set (order_writes plan). sw_data w \<noteq> []"
  proof
    fix w assume "w \<in> set (order_writes plan)"
    then have "write_valid w" using valid by (simp add: list_all_iff)
    then show "sw_data w \<noteq> []" by (auto simp: write_valid_def unat_eq_0)
  qed
  show ?thesis
    unfolding write_sectors_def Let_def if_not_P [OF False]
  proof (rule wp_mono [OF wp_all_sectors [OF env refl data fx]])
    fix x and fx' :: "'s tfx"
    assume "\<exists>gs sos. told_all t kf plan (L @ pre) (order_writes plan) gs sos \<and> length gs = length (order_writes plan) \<and>
      list_all2 complete_sector sos gs \<and> shown fx' = ((L @ pre) @ concat (map sl_exchanges gs), added_all (opened_report plan pre) gs sos)"
    then obtain gs sos where g: "told_all t kf plan (L @ pre) (order_writes plan) gs sos" "length gs = length (order_writes plan)"
      "list_all2 complete_sector sos gs" "shown fx' = ((L @ pre) @ concat (map sl_exchanges gs), added_all (opened_report plan pre) gs sos)"
      by blast
    have "Q () fx'"
      by (rule ok [OF refl, of gs sos]) (use g pre False told_all_bytes [OF g(1,3,2)] in
        \<open>simp_all add: sectors_told_def outcome_told_def added_all_def bytes_planned_order\<close>)
    then show "Q x fx'" by simp
  next
    fix e and fx' :: "'s tfx"
    assume "\<exists>gs sos post. told_all t kf plan (L @ pre) (order_writes plan) gs sos \<and> all_closing post \<and> stopped_at e sos gs \<and>
      shown fx' = ((L @ pre) @ concat (map sl_exchanges gs) @ post, tidied post (added_all (opened_report plan pre) gs sos))"
    then obtain gs sos post where "told_all t kf plan (L @ pre) (order_writes plan) gs sos" "all_closing post" "stopped_at e sos gs"
      "shown fx' = ((L @ pre) @ concat (map sl_exchanges gs) @ post, tidied post (added_all (opened_report plan pre) gs sos))"
      by blast
    then show "R e fx'"
      using pre False by (intro bad run_toldI [of _ L pre gs post plan sos])
        (simp_all add: sectors_told_def outcome_told_def added_all_def)
  qed
qed

lemma wp_execute_body:
  fixes fx :: "'s tfx"
  assumes env: "fe_transport env = heard t" "fe_key_fn env = kf" and valid: "list_all write_valid (fp_writes plan)"
    and fx: "shown fx = (L, empty_report)"
  shows "wp (execute_body env plan) (\<lambda>_. run_told t kf plan L None) (\<lambda>e. run_told t kf plan L (Some e)) fx"
proof -
  have start: "shown (audit_flash_started plan fx) = (L, empty_report)" using fx by simp
  have writes: "validate_writes env (fp_writes plan) = skip_with ()"
    using valid by (cases rule: validate_writes_cases [of "fp_writes plan" env]) auto
  show ?thesis
    unfolding execute_body_def wp_seq wp_update_state writes wp_skip_with
  proof (rule wp_enter_session [OF env(1) start], rule wp_silence_bus [OF env(1)], assumption+)
    fix fx1 fx2 fx3 :: "'s tfx" and pre pre' rep gs sos
    assume a: "acked pre' (build_dsc_request (fp_session plan)) (session_ack plan)" "acked pre' bus_off_request bus_off_ack = fp_silence_bus plan"
      "list_all (opens_bus plan) (map fst pre')" "shown fx2 = (L @ pre', opened_report plan pre')"
    show "wp (write_sectors env plan) (\<lambda>a. wp (restore_bus_finally env plan)
        (\<lambda>a s. run_told t kf plan L None (audit_flash_completed s)) (\<lambda>e. run_told t kf plan L (Some e)))
        (\<lambda>e. run_told t kf plan L (Some e)) fx2"
    proof (rule wp_write_sectors [OF env valid a], rule wp_restore_bus_finally [OF env(1)], assumption)
      fix fx4 fx5 :: "'s tfx" and rep gs sos post
      assume "rep = added_all (opened_report plan pre') gs sos" "sectors_told t kf plan (L @ pre') None gs rep"
        "outcome_told plan None gs rep" "all_closing post" "shown fx5 = ((L @ pre' @ concat (map sl_exchanges gs)) @ post, tidied post rep)"
      then show "run_told t kf plan L None (audit_flash_completed fx5)"
        using a by (intro run_toldI [of _ L pre' gs post plan sos]) simp_all
    qed
  qed (rule unopened_told, assumption)+
qed

section \<open>Properties\<close>

text \<open>C3: The report of \<open>execute\<close> is exact, whatever the ECU answers and wherever the run is cancelled. The log
  of exchanges splits into an opening, one part per reported sector in the order written (integrity
  check sector last), and a closing. Session and bus flags are set exactly when
  their request was acknowledged there; the erased, downloaded, exited and checked flags of a sector exactly
  when that stage's request was acknowledged in its part. Its transfers carry the sector's
  data block by block, the acknowledged bytes are those counted, and transferred means all. A read-back is made
  when the check passed and verifying is on; verified then means that it returned the data written (a mismatch
  does not stop the run). Without an error every planned sector is complete and every planned byte counted. An error stops
  the run in its opening, with no sector reported, in its last reported sector, or by cancellation
  between two. A dry run has no sector part and lists the sectors with no stage done.\<close>

theorem execute_report:
  "\<exists>out fx pre gs post.
     execute \<lparr>fe_transport = heard t, fe_cancel = cancel, fe_key_fn = kf, fe_now = now, fe_b6_armed = b6\<rparr>
       plan (wire, log) al = Some (out, fx) \<and>
     snd (fx_wire fx) = log @ pre @ concat (map sl_exchanges gs) @ post \<and>
     session_told plan pre post (eo_report out) \<and>
     sectors_told t kf plan (log @ pre) (eo_error out) gs (eo_report out) \<and>
     outcome_told plan (eo_error out) gs (eo_report out)"
  (is "\<exists>out fx pre gs post. execute ?env plan _ al = _ \<and> _")
proof -
  let ?fx = "\<lparr>fx_wire = (wire, log), fx_polls = 0, fx_audit = al, fx_journal = [], fx_report = empty_report\<rparr>"
  have "\<exists>out fx. execute ?env plan (wire, log) al = Some (out, fx) \<and> eo_report out = fx_report fx \<and> run_told t kf plan log (eo_error out) fx"
  proof (cases "list_all write_valid (fp_writes plan)")
    case True
    have "wp (execute_body ?env plan) (\<lambda>_. run_told t kf plan log None) (\<lambda>e. run_told t kf plan log (Some e)) ?fx"
      by (rule wp_execute_body [OF _ _ True]) (simp_all add: shown_def)
    from wp_Some [OF this] obtain r fx where "execute_body ?env plan ?fx = Some (r, fx)"
      "case r of Inl e \<Rightarrow> run_told t kf plan log (Some e) fx | Inr _ \<Rightarrow> run_told t kf plan log None fx" by blast
    then show ?thesis by (cases r) (auto simp: execute_def)
  next
    case False
    then obtain msg fx where x: "execute ?env plan (wire, log) al =
        Some (\<lparr>eo_report = empty_report, eo_error = Some \<lparr>err_code = InvalidArgument, err_message = msg\<rparr>\<rparr>, fx)"
      "fx_wire fx = (wire, log)" "fx_report fx = empty_report"
      by (elim execute_invalid [of plan ?env "(wire, log)" al])
    then have "unopened plan log fx"
      unfolding unopened_def by (intro exI [of _ "[]"] exI [of _ empty_report]) (simp add: shown_def session_told_def)
    then show ?thesis using x by (auto intro: unopened_told)
  qed
  then show ?thesis unfolding run_told_def by metis
qed

end
