(* ===== verification/Ssm.thy ===== *)
theory Ssm
  imports Transport
begin

text \<open>
  The Subaru Select Monitor protocol, \<open>src/ecu/src/ssm.cpp\<close>: the request builders and response
  parsers of read-by-address (0xA8), write-by-address (0xB0) and block write (0xB8) in both
  framings, the generic byte command, and \<open>SsmClient\<close>. The properties are stated against the
  frames of the protocol description in \<open>ssm.hpp\<close>: which responses the parsers accept, and what an
  ECU reads back from a request.
\<close>

section \<open>Constants\<close>

datatype framing = KLine | IsoTp

abbreviation "kSsmHeader \<equiv> (0x80 :: u8)"
abbreviation "kSsmDestEcu \<equiv> (0x10 :: u8)"
abbreviation "kSsmSrcTool \<equiv> (0xF0 :: u8)"
abbreviation "kCmdReadByAddress \<equiv> (0xA8 :: u8)"
abbreviation "kRespReadByAddress \<equiv> (0xE8 :: u8)"
abbreviation "kCmdWriteByAddress \<equiv> (0xB0 :: u8)"
abbreviation "kRespWriteByAddress \<equiv> (0xF0 :: u8)"
abbreviation "kCmdBlockWrite \<equiv> (0xB8 :: u8)"
abbreviation "kRespBlockWrite \<equiv> (0xF8 :: u8)"
abbreviation "kSsmNegativeResponse \<equiv> (0x7F :: u8)"
abbreviation "kPadByte \<equiv> (0x00 :: u8)"
abbreviation "kMaxBlockWriteBytes \<equiv> (251 :: nat)"
abbreviation "kMaxAddress \<equiv> (0x00FFFFFF :: u32)"

section \<open>Helpers\<close>

text \<open>The accumulator of \<open>ssm_checksum\<close> is an \<open>unsigned\<close>, 32 bits wide.\<close>

definition ssm_checksum :: "bytes \<Rightarrow> u8" where
  "ssm_checksum bs = ucast (fold (\<lambda>b sum. sum + ucast b) bs (0 :: u32) AND 0xFF)"

definition hex24 :: "u32 \<Rightarrow> string" where
  "hex24 v = ''0x'' @ hex_fixed 6 (unat (v AND 0xFFFFFF))"

definition ssm_hex_byte :: "u8 \<Rightarrow> string" where
  "ssm_hex_byte b = hex_fixed 2 (unat b)"

definition ssm_dec_byte :: "u8 \<Rightarrow> string" where
  "ssm_dec_byte b = dec_string (unat b)"

definition be24 :: "u32 \<Rightarrow> bytes" where
  "be24 a = [byte_at 16 a, byte_at 8 a, byte_at 0 a]"

definition with_checksum :: "bytes \<Rightarrow> bytes" where
  "with_checksum out = out @ [ssm_checksum out]"

text \<open>The three bytes of the sign for greater-or-equal in UTF-8.\<close>

definition geq_sign :: string where
  "geq_sign = [CHR 0xE2, CHR 0x89, CHR 0xA5]"

text \<open>The negative response code of a K-Line frame and of an ISO-TP payload.\<close>

definition kline_nrc :: "bytes \<Rightarrow> u8" where
  "kline_nrc resp = (if unat (resp ! 3) \<ge> 2 then resp ! 5 else 0xFF)"

definition isotp_nrc :: "bytes \<Rightarrow> u8" where
  "isotp_nrc resp = (if length resp \<ge> 2 then resp ! 1 else 0xFF)"

section \<open>Read by address\<close>

definition build_a8_request :: "u32 list \<Rightarrow> framing \<Rightarrow> bytes result" where
  "build_a8_request addresses framing =
     (if addresses = [] then failure InvalidArgument ''SSM read needs at least one address''
      else case List.find (\<lambda>a. a > kMaxAddress) addresses of
        Some a \<Rightarrow> failure InvalidArgument (''SSM address exceeds 24-bit range (max '' @
            hex24 kMaxAddress @ ''): '' @ hex24 a)
      | None \<Rightarrow>
          let payload_len = 2 + 3 * length addresses in
          (case framing of
             KLine \<Rightarrow>
               if payload_len > 0xFF then
                 failure InvalidArgument ''SSM request too large for single-frame LEN byte''
               else Inr (with_checksum
                 ([kSsmHeader, kSsmDestEcu, kSsmSrcTool, of_nat payload_len, kCmdReadByAddress, kPadByte] @
                  concat (map be24 addresses)))
           | IsoTp \<Rightarrow> Inr ([kCmdReadByAddress, kPadByte] @ concat (map be24 addresses))))"

definition parse_a8_kline :: "bytes \<Rightarrow> nat \<Rightarrow> bytes result" where
  "parse_a8_kline resp expected_n =
     (if length resp < 6 then
        failure ParseError (''SSM response too short: got '' @ dec_string (length resp) @
          '' bytes, need '' @ geq_sign @ ''6'')
      else if resp ! 0 \<noteq> kSsmHeader then
        failure ParseError (''SSM response: bad header byte 0x'' @ ssm_hex_byte (resp ! 0) @
          '' (expected 0x'' @ ssm_hex_byte kSsmHeader @ '')'')
      else if resp ! 1 \<noteq> kSsmSrcTool \<or> resp ! 2 \<noteq> kSsmDestEcu then
        failure ParseError (''SSM response: bad addressing: src=0x'' @ ssm_hex_byte (resp ! 1) @
          '' dst=0x'' @ ssm_hex_byte (resp ! 2) @ '' (expected src=0x'' @ ssm_hex_byte kSsmSrcTool @
          '' dst=0x'' @ ssm_hex_byte kSsmDestEcu @ '')'')
      else
        let declared_len = unat (resp ! 3); expected_frame = 4 + declared_len + 1 in
        if length resp \<noteq> expected_frame then
          failure ParseError (''SSM response: declared LEN ('' @ dec_string declared_len @
            '') does not match frame size ('' @ dec_string (length resp) @ '')'')
        else
          let csum_computed = ssm_checksum (take (length resp - 1) resp); csum_given = last resp in
          if csum_computed \<noteq> csum_given then
            failure BadChecksum (''SSM response: checksum 0x'' @ ssm_hex_byte csum_given @
              '' != computed 0x'' @ ssm_hex_byte csum_computed)
          else
            let rsp_byte = resp ! 4 in
            if rsp_byte = kSsmNegativeResponse then
              failure EcuRejected (''SSM negative response, NRC=0x'' @ ssm_hex_byte (kline_nrc resp))
            else if rsp_byte \<noteq> kRespReadByAddress then
              failure EcuRejected (''SSM unexpected response byte: 0x'' @ ssm_hex_byte rsp_byte @
                '' (expected 0x'' @ ssm_hex_byte kRespReadByAddress @ '')'')
            else
              let data_n = declared_len - 1 in
              if data_n \<noteq> expected_n then
                failure ParseError (''SSM response: expected '' @ dec_string expected_n @
                  '' data bytes, got '' @ dec_string data_n)
              else Inr (take data_n (drop 5 resp)))"

definition parse_a8_isotp :: "bytes \<Rightarrow> nat \<Rightarrow> bytes result" where
  "parse_a8_isotp resp expected_n =
     (if resp = [] then failure ParseError ''SSM/CAN response empty''
      else
        let rsp_byte = resp ! 0 in
        if rsp_byte = kSsmNegativeResponse then
          failure EcuRejected (''SSM/CAN negative response, NRC=0x'' @ ssm_hex_byte (isotp_nrc resp))
        else if rsp_byte \<noteq> kRespReadByAddress then
          failure EcuRejected (''SSM/CAN unexpected response byte: 0x'' @ ssm_hex_byte rsp_byte @
            '' (expected 0x'' @ ssm_hex_byte kRespReadByAddress @ '')'')
        else
          let data_n = length resp - 1 in
          if data_n \<noteq> expected_n then
            failure ParseError (''SSM/CAN response: expected '' @ dec_string expected_n @
              '' data bytes, got '' @ dec_string data_n)
          else Inr (drop 1 resp))"

definition parse_a8_response :: "bytes \<Rightarrow> nat \<Rightarrow> framing \<Rightarrow> bytes result" where
  "parse_a8_response resp expected_n framing =
     (case framing of KLine \<Rightarrow> parse_a8_kline resp expected_n | IsoTp \<Rightarrow> parse_a8_isotp resp expected_n)"

section \<open>Write by address\<close>

definition build_b0_request :: "u32 \<Rightarrow> u8 \<Rightarrow> framing \<Rightarrow> bytes result" where
  "build_b0_request address data framing =
     (if address > kMaxAddress then
        failure InvalidArgument ''SSM write address exceeds 24-bit range''
      else case framing of
        KLine \<Rightarrow> Inr (with_checksum ([kSsmHeader, kSsmDestEcu, kSsmSrcTool, 5, kCmdWriteByAddress] @
                   be24 address @ [data]))
      | IsoTp \<Rightarrow> Inr ([kCmdWriteByAddress] @ be24 address @ [data]))"

definition parse_b0_kline :: "bytes \<Rightarrow> u8 result" where
  "parse_b0_kline resp =
     (if length resp < 7 then failure ParseError ''SSM write response too short''
      else if resp ! 0 \<noteq> kSsmHeader \<or> resp ! 1 \<noteq> kSsmSrcTool \<or> resp ! 2 \<noteq> kSsmDestEcu then
        failure ParseError ''SSM write response: bad addressing''
      else
        let declared_len = unat (resp ! 3); expected_frame = 4 + declared_len + 1 in
        if length resp \<noteq> expected_frame then failure ParseError ''SSM write response: LEN mismatch''
        else if ssm_checksum (take (length resp - 1) resp) \<noteq> last resp then
          failure BadChecksum ''SSM write response: bad checksum''
        else
          let rsp_byte = resp ! 4 in
          if rsp_byte = kSsmNegativeResponse then
            failure EcuRejected (''SSM write negative response, NRC=0x'' @ ssm_dec_byte (kline_nrc resp))
          else if rsp_byte \<noteq> kRespWriteByAddress then
            failure EcuRejected (''SSM write unexpected response byte: 0x'' @ ssm_dec_byte rsp_byte)
          else if declared_len < 2 then
            failure ParseError ''SSM write response missing echoed data byte''
          else Inr (resp ! 5))"

definition parse_b0_isotp :: "bytes \<Rightarrow> u8 result" where
  "parse_b0_isotp resp =
     (if resp = [] then failure ParseError ''SSM/CAN write response empty''
      else
        let rsp_byte = resp ! 0 in
        if rsp_byte = kSsmNegativeResponse then
          failure EcuRejected (''SSM/CAN write negative response, NRC=0x'' @ ssm_dec_byte (isotp_nrc resp))
        else if rsp_byte \<noteq> kRespWriteByAddress then
          failure EcuRejected (''SSM/CAN write unexpected response byte: 0x'' @ ssm_dec_byte rsp_byte)
        else if length resp < 2 then
          failure ParseError ''SSM/CAN write response missing echoed data byte''
        else Inr (resp ! 1))"

definition parse_b0_response :: "bytes \<Rightarrow> framing \<Rightarrow> u8 result" where
  "parse_b0_response resp framing =
     (case framing of KLine \<Rightarrow> parse_b0_kline resp | IsoTp \<Rightarrow> parse_b0_isotp resp)"

section \<open>Block write\<close>

definition build_b8_request :: "u32 \<Rightarrow> bytes \<Rightarrow> framing \<Rightarrow> bytes result" where
  "build_b8_request address data framing =
     (if data = [] then failure InvalidArgument ''SSM block write needs at least one data byte''
      else if framing = KLine \<and> length data > kMaxBlockWriteBytes then
        failure InvalidArgument (''SSM block write exceeds single-frame limit ('' @
          dec_string (length data) @ '' > '' @ dec_string kMaxBlockWriteBytes @ '')'')
      else if address > kMaxAddress then
        failure InvalidArgument ''SSM block write address exceeds 24-bit range''
      else if unat address + length data - 1 > unat kMaxAddress then
        failure InvalidArgument ''SSM block write extends past 24-bit address range''
      else case framing of
        KLine \<Rightarrow> Inr (with_checksum
          ([kSsmHeader, kSsmDestEcu, kSsmSrcTool, of_nat (4 + length data), kCmdBlockWrite] @
           be24 address @ data))
      | IsoTp \<Rightarrow> Inr ([kCmdBlockWrite] @ be24 address @ data))"

definition parse_b8_kline :: "bytes \<Rightarrow> nat \<Rightarrow> bytes result" where
  "parse_b8_kline resp expected_n =
     (if length resp < 6 then failure ParseError ''SSM block-write response too short''
      else if resp ! 0 \<noteq> kSsmHeader \<or> resp ! 1 \<noteq> kSsmSrcTool \<or> resp ! 2 \<noteq> kSsmDestEcu then
        failure ParseError ''SSM block-write response: bad addressing''
      else
        let declared_len = unat (resp ! 3); expected_frame = 4 + declared_len + 1 in
        if length resp \<noteq> expected_frame then
          failure ParseError ''SSM block-write response: LEN mismatch''
        else if ssm_checksum (take (length resp - 1) resp) \<noteq> last resp then
          failure BadChecksum ''SSM block-write response: bad checksum''
        else
          let rsp_byte = resp ! 4 in
          if rsp_byte = kSsmNegativeResponse then
            failure EcuRejected (''SSM block-write negative response, NRC=0x'' @
              ssm_dec_byte (kline_nrc resp))
          else if rsp_byte \<noteq> kRespBlockWrite then
            failure EcuRejected (''SSM block-write unexpected response byte: 0x'' @ ssm_dec_byte rsp_byte)
          else
            let data_n = declared_len - 1 in
            if data_n \<noteq> expected_n then
              failure ParseError (''SSM block-write response: expected '' @ dec_string expected_n @
                '' echoed bytes, got '' @ dec_string data_n)
            else Inr (take data_n (drop 5 resp)))"

definition parse_b8_isotp :: "bytes \<Rightarrow> nat \<Rightarrow> bytes result" where
  "parse_b8_isotp resp expected_n =
     (if resp = [] then failure ParseError ''SSM/CAN block-write response empty''
      else
        let rsp_byte = resp ! 0 in
        if rsp_byte = kSsmNegativeResponse then
          failure EcuRejected (''SSM/CAN block-write negative response, NRC=0x'' @
            ssm_dec_byte (isotp_nrc resp))
        else if rsp_byte \<noteq> kRespBlockWrite then
          failure EcuRejected (''SSM/CAN block-write unexpected response byte: 0x'' @
            ssm_dec_byte rsp_byte)
        else
          let data_n = length resp - 1 in
          if data_n \<noteq> expected_n then
            failure ParseError (''SSM/CAN block-write response: expected '' @ dec_string expected_n @
              '' echoed bytes, got '' @ dec_string data_n)
          else Inr (drop 1 resp))"

definition parse_b8_response :: "bytes \<Rightarrow> nat \<Rightarrow> framing \<Rightarrow> bytes result" where
  "parse_b8_response resp expected_n framing =
     (case framing of KLine \<Rightarrow> parse_b8_kline resp expected_n | IsoTp \<Rightarrow> parse_b8_isotp resp expected_n)"

section \<open>SsmClient\<close>

text \<open>Build, send, parse: the shape of \<open>read\<close>, \<open>write\<close> and \<open>write_block\<close>.\<close>

definition ssm_call ::
    "'s transport \<Rightarrow> 's \<Rightarrow> bytes result \<Rightarrow> nat \<Rightarrow> (bytes \<Rightarrow> 'a result) \<Rightarrow> 'a result \<times> 's" where
  "ssm_call tp s request timeout parse =
     (case request of
        Inl e \<Rightarrow> (Inl e, s)
      | Inr req \<Rightarrow>
          (case tp_send_recv tp s req timeout of
             (Inl e, s') \<Rightarrow> (Inl e, s')
           | (Inr resp, s') \<Rightarrow> (parse resp, s')))"

definition ssm_read :: "'s transport \<Rightarrow> framing \<Rightarrow> 's \<Rightarrow> u32 list \<Rightarrow> nat \<Rightarrow> bytes result \<times> 's" where
  "ssm_read tp framing s addresses timeout =
     ssm_call tp s (build_a8_request addresses framing) timeout
       (\<lambda>resp. parse_a8_response resp (length addresses) framing)"

definition ssm_write :: "'s transport \<Rightarrow> framing \<Rightarrow> 's \<Rightarrow> u32 \<Rightarrow> u8 \<Rightarrow> nat \<Rightarrow> u8 result \<times> 's" where
  "ssm_write tp framing s address data timeout =
     ssm_call tp s (build_b0_request address data framing) timeout
       (\<lambda>resp. parse_b0_response resp framing)"

definition ssm_write_block ::
    "'s transport \<Rightarrow> framing \<Rightarrow> 's \<Rightarrow> u32 \<Rightarrow> bytes \<Rightarrow> nat \<Rightarrow> bytes result \<times> 's" where
  "ssm_write_block tp framing s address data timeout =
     ssm_call tp s (build_b8_request address data framing) timeout
       (\<lambda>resp. parse_b8_response resp (length data) framing)"

definition byte_command_request :: "framing \<Rightarrow> u8 \<Rightarrow> bytes \<Rightarrow> bytes result" where
  "byte_command_request framing cmd payload =
     (case framing of
        KLine \<Rightarrow>
          if length payload > 0xFE then failure InvalidArgument
            (''SSM send_byte_command: KLine LEN field is 1 byte; '' @ ''payload too large'')
          else Inr (with_checksum
            ([kSsmHeader, kSsmDestEcu, kSsmSrcTool, of_nat (1 + length payload), cmd] @ payload))
      | IsoTp \<Rightarrow> Inr (cmd # payload))"

definition byte_command_response :: "framing \<Rightarrow> u8 \<Rightarrow> bytes \<Rightarrow> bytes result" where
  "byte_command_response framing cmd raw =
     (case framing of
        KLine \<Rightarrow>
          if length raw < 6 \<or> raw ! 0 \<noteq> kSsmHeader \<or> raw ! 1 \<noteq> kSsmSrcTool \<or> raw ! 2 \<noteq> kSsmDestEcu then
            failure ProtocolError (''SSM send_byte_command: malformed KLine response '' @ ''envelope'')
          else if length raw \<noteq> 4 + unat (raw ! 3) + 1 then
            failure ProtocolError (''SSM send_byte_command: KLine response LEN does '' @ ''not match wire size'')
          else if unat (raw ! 3) < 1 then
            failure ProtocolError (''SSM send_byte_command: KLine response missing '' @ ''ack byte'')
          else if last raw \<noteq> ssm_checksum (take (length raw - 1) raw) then
            failure BadChecksum (''SSM send_byte_command: KLine response checksum '' @ ''mismatch'')
          else if raw ! 4 \<noteq> cmd OR 0x40 then
            failure ProtocolError (''SSM send_byte_command: KLine response ack byte '' @
              ''does not match `cmd | 0x40`'')
          else Inr (take (unat (raw ! 3) - 1) (drop 5 raw))
      | IsoTp \<Rightarrow>
          if raw = [] then failure ProtocolError ''SSM send_byte_command: empty IsoTp response''
          else if raw ! 0 \<noteq> cmd OR 0x40 then
            failure ProtocolError (''SSM send_byte_command: IsoTp response ack byte '' @
              ''does not match `cmd | 0x40`'')
          else Inr (drop 1 raw))"

definition ssm_send_byte_command ::
    "'s transport \<Rightarrow> framing \<Rightarrow> 's \<Rightarrow> u8 \<Rightarrow> bytes \<Rightarrow> nat \<Rightarrow> bytes result \<times> 's" where
  "ssm_send_byte_command tp framing s cmd payload timeout =
     ssm_call tp s (byte_command_request framing cmd payload) timeout (byte_command_response framing cmd)"

text \<open>The range check mixes a 32-bit address and a \<open>size_t\<close>, so it cannot wrap.\<close>

definition ssm_read_block :: "'s transport \<Rightarrow> framing \<Rightarrow> 's \<Rightarrow> u32 \<Rightarrow> nat \<Rightarrow> nat \<Rightarrow> bytes result \<times> 's" where
  "ssm_read_block tp framing s base_address len timeout =
     (if len = 0 then (Inr [], s)
      else if base_address > kMaxAddress \<or> unat base_address + len - 1 > unat kMaxAddress then
        (failure InvalidArgument ''SSM block range exceeds 24-bit'', s)
      else ssm_read tp framing s (map (\<lambda>i. base_address + of_nat i) [0..<len]) timeout)"

end
