(* ===== verification/Ssm_Props.thy ===== *)
theory Ssm_Props
  imports Ssm
begin

text \<open>
  Correctness of the SSM codec of theory \<open>Ssm\<close>: the frames of the protocol description, the
  responses the parsers accept, the corruption the checksum detects, and the requests as the
  ECU decodes them.
\<close>

section \<open>Frames\<close>

text \<open>A K-Line frame to the tool, as drawn in \<open>ssm.hpp\<close>.\<close>

definition ecu_frame :: "bytes \<Rightarrow> bytes" where
  "ecu_frame payload =
     with_checksum ([kSsmHeader, kSsmSrcTool, kSsmDestEcu, of_nat (length payload)] @ payload)"

definition kline_envelope :: "bytes \<Rightarrow> bool" where
  "kline_envelope resp \<longleftrightarrow>
     6 \<le> length resp \<and> resp ! 0 = kSsmHeader \<and> resp ! 1 = kSsmSrcTool \<and> resp ! 2 = kSsmDestEcu \<and>
     length resp = 4 + unat (resp ! 3) + 1 \<and> ssm_checksum (take (length resp - 1) resp) = last resp"

lemma unat_of_nat_u8: "n < 256 \<Longrightarrow> unat (of_nat n :: u8) = n"
  by (simp add: unat_of_nat take_bit_eq_mod)

lemma unat_Suc_of_nat_u8: "n < 255 \<Longrightarrow> unat (1 + of_nat n :: u8) = Suc n"
  using unat_of_nat_u8 [of "Suc n"] by simp

lemma ecu_frame_envelope: "payload \<noteq> [] \<Longrightarrow> length payload < 256 \<Longrightarrow> kline_envelope (ecu_frame payload)"
  by (cases payload) (auto simp: kline_envelope_def ecu_frame_def with_checksum_def unat_Suc_of_nat_u8)

lemma envelope_frame:
  assumes "kline_envelope resp"
  obtains payload where "payload \<noteq> []" "length payload < 256" "resp = ecu_frame payload"
proof -
  define payload where "payload = take (unat (resp ! 3)) (drop 4 resp)"
  have len: "length resp = 5 + unat (resp ! 3)" and "6 \<le> length resp"
    using assms by (auto simp: kline_envelope_def)
  then have lp: "length payload = unat (resp ! 3)" and ne: "payload \<noteq> []"
    by (auto simp: payload_def)
  obtain h0 h1 h2 h3 rest where resp: "resp = h0 # h1 # h2 # h3 # rest"
    using \<open>6 \<le> length resp\<close> by (auto simp: Suc_le_length_iff eval_nat_numeral)
  have rest: "rest \<noteq> []" "length rest = Suc (unat h3)" using len by (auto simp: resp)
  then have take_rest: "take (unat h3) rest = butlast rest" by (simp add: butlast_conv_take)
  have payload: "payload = butlast rest" by (simp add: payload_def resp take_rest)
  have "take (length resp - 1) resp = [h0, h1, h2, h3] @ butlast rest"
    using rest by (simp add: resp butlast_conv_take take_Cons')
  then have "[h0, h1, h2, h3] = [kSsmHeader, kSsmSrcTool, kSsmDestEcu, of_nat (length payload)]"
      "last rest = ssm_checksum ([h0, h1, h2, h3] @ payload)"
    using assms rest lp by (auto simp: kline_envelope_def resp payload)
  moreover have "resp = [h0, h1, h2, h3] @ butlast rest @ [last rest]"
    using rest(1) by (simp add: resp)
  ultimately have "resp = ecu_frame payload"
    by (simp only: ecu_frame_def with_checksum_def payload append_assoc)
  moreover have "length payload < 256" using unat_u8_less [of "resp ! 3"] lp by arith
  ultimately show ?thesis using that ne by blast
qed

lemma envelope_iff: "kline_envelope resp \<longleftrightarrow> (\<exists>payload. payload \<noteq> [] \<and> length payload < 256 \<and> resp = ecu_frame payload)"
  by (metis ecu_frame_envelope envelope_frame)

section \<open>The parsers on a frame\<close>

lemma parse_a8_kline_iff:
  "parse_a8_kline resp n = Inr data \<longleftrightarrow>
     kline_envelope resp \<and> resp ! 4 = kRespReadByAddress \<and> unat (resp ! 3) - 1 = n \<and> data = take n (drop 5 resp)"
  by (auto simp: parse_a8_kline_def kline_envelope_def failure_def Let_def)

lemma parse_b0_kline_iff:
  "parse_b0_kline resp = Inr d \<longleftrightarrow>
     kline_envelope resp \<and> resp ! 4 = kRespWriteByAddress \<and> 2 \<le> unat (resp ! 3) \<and> d = resp ! 5"
  by (auto simp: parse_b0_kline_def kline_envelope_def failure_def Let_def)

lemma parse_b8_kline_iff:
  "parse_b8_kline resp n = Inr data \<longleftrightarrow>
     kline_envelope resp \<and> resp ! 4 = kRespBlockWrite \<and> unat (resp ! 3) - 1 = n \<and> data = take n (drop 5 resp)"
  by (auto simp: parse_b8_kline_def kline_envelope_def failure_def Let_def)

lemma byte_command_kline_iff:
  "byte_command_response KLine cmd resp = Inr data \<longleftrightarrow>
     kline_envelope resp \<and> resp ! 4 = cmd OR 0x40 \<and> data = take (unat (resp ! 3) - 1) (drop 5 resp)"
  by (auto simp: byte_command_response_def kline_envelope_def failure_def)

text \<open>Reading the payload back out of a frame.\<close>

lemma frame_body:
  "(kline_envelope resp \<and> resp ! 4 = a \<and> unat (resp ! 3) - 1 = n \<and> data = take n (drop 5 resp)) \<longleftrightarrow>
   (length data = n \<and> n < 255 \<and> resp = ecu_frame (a # data))" (is "?l \<longleftrightarrow> ?r")
proof
  assume l: ?l
  then obtain p where p: "p \<noteq> []" "length p < 256" "resp = ecu_frame p" by (auto simp: envelope_iff)
  then obtain b bs where bs: "p = b # bs" by (cases p) auto
  have "resp ! 4 = b" "drop 5 resp = bs @ [last resp]" "unat (resp ! 3) = Suc (length bs)"
    using p by (simp_all add: bs ecu_frame_def with_checksum_def unat_Suc_of_nat_u8)
  with l p bs show ?r by auto
next
  assume r: ?r
  then have "kline_envelope resp" by (simp add: ecu_frame_envelope)
  moreover from r have "resp ! 4 = a" "drop 5 resp = data @ [last resp]" "unat (resp ! 3) = Suc (length data)"
    by (simp_all add: ecu_frame_def with_checksum_def unat_Suc_of_nat_u8)
  ultimately show ?l using r by simp
qed

lemma parse_a8_kline_frame:
  "parse_a8_kline resp n = Inr data \<longleftrightarrow>
     length data = n \<and> n < 255 \<and> resp = ecu_frame (kRespReadByAddress # data)"
  unfolding parse_a8_kline_iff by (rule frame_body)

lemma parse_b8_kline_frame:
  "parse_b8_kline resp n = Inr data \<longleftrightarrow>
     length data = n \<and> n < 255 \<and> resp = ecu_frame (kRespBlockWrite # data)"
  unfolding parse_b8_kline_iff by (rule frame_body)

lemma byte_command_kline_frame:
  "byte_command_response KLine cmd resp = Inr data \<longleftrightarrow>
     length data < 255 \<and> resp = ecu_frame ((cmd OR 0x40) # data)"
  unfolding byte_command_kline_iff
  using frame_body [of resp "cmd OR 0x40" "unat (resp ! 3) - 1" data] frame_body [of resp "cmd OR 0x40" "length data" data]
  by auto

lemma parse_b0_kline_frame:
  "parse_b0_kline resp = Inr d \<longleftrightarrow>
     (\<exists>rest. length rest < 254 \<and> resp = ecu_frame (kRespWriteByAddress # d # rest))" (is "?l \<longleftrightarrow> ?r")
proof
  assume ?l
  then have l: "kline_envelope resp" "resp ! 4 = kRespWriteByAddress" "2 \<le> unat (resp ! 3)" "d = resp ! 5"
    by (simp_all add: parse_b0_kline_iff)
  define data where "data = take (unat (resp ! 3) - 1) (drop 5 resp)"
  have data: "length data = unat (resp ! 3) - 1" "length data < 255"
      "resp = ecu_frame (kRespWriteByAddress # data)"
    using frame_body [of resp kRespWriteByAddress "unat (resp ! 3) - 1" data] l(1,2) by (auto simp: data_def)
  then obtain e rest where rest: "data = e # rest" using l(3) by (cases data) auto
  have "e = d" using l(4) by (simp add: data(3) rest ecu_frame_def with_checksum_def)
  moreover have "length rest < 254" using data(2) rest by simp
  ultimately show ?r using data(3) rest by blast
next
  assume ?r
  then obtain rest where rest: "length rest < 254" "resp = ecu_frame (kRespWriteByAddress # d # rest)" by blast
  with frame_body [of resp kRespWriteByAddress "Suc (length rest)" "d # rest"]
  have "kline_envelope resp" "resp ! 4 = kRespWriteByAddress" "unat (resp ! 3) - 1 = Suc (length rest)"
    by simp_all
  moreover have "resp ! 5 = d" by (simp add: rest(2) ecu_frame_def with_checksum_def)
  ultimately show ?l by (simp add: parse_b0_kline_iff)
qed

lemma parse_isotp_iff:
  "parse_a8_isotp resp n = Inr data \<longleftrightarrow> length data = n \<and> resp = kRespReadByAddress # data"
  "parse_b8_isotp resp n = Inr data \<longleftrightarrow> length data = n \<and> resp = kRespBlockWrite # data"
  "parse_b0_isotp resp = Inr d \<longleftrightarrow> (\<exists>rest. resp = kRespWriteByAddress # d # rest)"
  "byte_command_response IsoTp cmd resp = Inr data \<longleftrightarrow> resp = (cmd OR 0x40) # data"
     apply (cases resp; auto simp: parse_a8_isotp_def failure_def Let_def)
    apply (cases resp; auto simp: parse_b8_isotp_def failure_def Let_def)
   apply (cases resp; cases "tl resp"; auto simp: parse_b0_isotp_def failure_def Let_def)
  apply (cases resp; auto simp: byte_command_response_def failure_def)
  done

section \<open>The checksum\<close>

lemma ucast_add_u8: "(ucast (a + b :: u32) :: u8) = ucast a + ucast b"
proof -
  have "(of_nat ((unat a + unat b) mod 2 ^ 32) :: u8) = of_nat (unat a + unat b)"
    by (simp only: word_of_nat_eq_iff take_bit_eq_mod len_num1 len_bit0) (simp add: mod_mod_cancel)
  moreover have "unat (a + b) = (unat a + unat b) mod 2 ^ 32"
    by (simp add: unat_word_ariths)
  ultimately have "(of_nat (unat (a + b)) :: u8) = of_nat (unat a) + of_nat (unat b)" by simp
  then show ?thesis by simp
qed

lemma ssm_checksum_sum_list: "ssm_checksum bs = sum_list bs"
proof -
  have low: "(ucast (x AND 0xFF) :: u8) = ucast x" for x :: u32
    by (rule bit_word_eqI) (auto simp: bit_ucast_iff bit_and_iff simp del: bit_numeral_word_iff)
  have round_trip: "(ucast (ucast a :: u32) :: u8) = a" for a :: u8
    by (rule bit_word_eqI) (auto simp: bit_ucast_iff)
  have "(ucast (fold (\<lambda>b sum. sum + ucast b) bs c) :: u8) = ucast c + sum_list bs" for c :: u32
    by (induction bs arbitrary: c) (simp_all add: ucast_add_u8 round_trip add.assoc)
  from this [of 0] show ?thesis by (simp add: ssm_checksum_def low)
qed

lemma sum_list_update_u8: "i < length xs \<Longrightarrow> sum_list (xs[i := b]) + xs ! i = sum_list xs + (b :: u8)"
  by (induction xs arbitrary: i) (auto simp: algebra_simps split: nat.split)

lemma envelope_sum: "kline_envelope resp \<Longrightarrow> sum_list (butlast resp) = last resp"
  unfolding kline_envelope_def ssm_checksum_sum_list butlast_conv_take by blast

lemma corrupted_envelope:
  assumes "kline_envelope f" "i < length f" "b \<noteq> f ! i"
  shows "\<not> kline_envelope (f[i := b])"
proof
  assume g: "kline_envelope (f[i := b])"
  have ne: "f \<noteq> []" using assms(2) by auto
  show False
  proof (cases "i = length f - 1")
    case True
    then have "butlast (f[i := b]) = butlast f" "last (f[i := b]) = b"
      using ne by (simp_all add: butlast_list_update last_list_update)
    with envelope_sum [OF g] envelope_sum [OF assms(1)] assms(3) True ne show False
      by (simp add: last_conv_nth)
  next
    case False
    then have i: "i < length (butlast f)" using assms(2) by simp
    from False have "butlast (f[i := b]) = (butlast f)[i := b]" "last (f[i := b]) = last f"
      using ne by (simp_all add: butlast_list_update last_list_update)
    with envelope_sum [OF g] envelope_sum [OF assms(1)] sum_list_update_u8 [OF i, of b]
    have "butlast f ! i = b" by simp
    with i assms(3) show False by (simp add: nth_butlast)
  qed
qed

section \<open>Requests as the ECU reads them\<close>

text \<open>The ECU's side of the protocol: unwrap the frame, then decode the command.\<close>

datatype ssm_command = ReadBytes "u32 list" | WriteByte u32 u8 | WriteBlock u32 bytes

definition tool_payload :: "framing \<Rightarrow> bytes \<Rightarrow> bytes option" where
  "tool_payload framing req =
     (case framing of
        IsoTp \<Rightarrow> Some req
      | KLine \<Rightarrow>
          if 5 \<le> length req \<and> take 3 req = [kSsmHeader, kSsmDestEcu, kSsmSrcTool] \<and>
             length req = 5 + unat (req ! 3) \<and> sum_list (butlast req) = last req
          then Some (butlast (drop 4 req)) else None)"

definition address24 :: "u8 \<Rightarrow> u8 \<Rightarrow> u8 \<Rightarrow> u32" where
  "address24 a b c = push_bit 16 (ucast a) OR push_bit 8 (ucast b) OR ucast c"

fun addresses24 :: "bytes \<Rightarrow> u32 list option" where
  "addresses24 [] = Some []"
| "addresses24 (a # b # c # rest) = map_option ((#) (address24 a b c)) (addresses24 rest)"
| "addresses24 _ = None"

definition ecu_command :: "framing \<Rightarrow> bytes \<Rightarrow> ssm_command option" where
  "ecu_command framing req =
     (case tool_payload framing req of
        Some (cmd # a # b # c # rest) \<Rightarrow>
          if cmd = kCmdReadByAddress then map_option ReadBytes (addresses24 (b # c # rest))
          else if cmd = kCmdWriteByAddress \<and> length rest = 1 then
            Some (WriteByte (address24 a b c) (hd rest))
          else if cmd = kCmdBlockWrite \<and> rest \<noteq> [] then Some (WriteBlock (address24 a b c) rest)
          else None
      | _ \<Rightarrow> None)"

lemma be24_decode: "a \<le> kMaxAddress \<Longrightarrow> address24 (byte_at 16 a) (byte_at 8 a) (byte_at 0 a) = a"
proof -
  assume "a \<le> kMaxAddress"
  then have "unat a < 2 ^ 24" by (simp add: word_le_nat_alt)
  then have "a = take_bit 24 a"
    by (simp add: word_unat_eq_iff unsigned_take_bit_eq take_bit_nat_eq_self)
  then have high: "n < 24" if "bit a n" for n
    using that by (metis bit_take_bit_iff)
  show ?thesis
  proof (rule bit_word_eqI)
    fix n :: nat
    consider "n < 8" | "8 \<le> n" "n < 16" | "16 \<le> n" "n < 24" | "24 \<le> n" by linarith
    then show "bit (address24 (byte_at 16 a) (byte_at 8 a) (byte_at 0 a)) n \<longleftrightarrow> bit a n"
      by cases
         (use high [of n] in \<open>auto simp: address24_def bit_or_iff bit_push_bit_iff bit_ucast_iff
            simp del: byte_at_0 dest: bit_imp_le_length\<close>)
  qed
qed

lemma addresses24_concat:
  "list_all (\<lambda>a. a \<le> kMaxAddress) as \<Longrightarrow> addresses24 (concat (map be24 as)) = Some as"
  by (induction as) (simp_all add: be24_def be24_decode del: byte_at_0)

lemma tool_payload_frame:
  assumes "payload \<noteq> []" "length payload < 256" "len = of_nat (length payload)"
  shows "tool_payload KLine (with_checksum ([kSsmHeader, kSsmDestEcu, kSsmSrcTool, len] @ payload)) =
    Some payload"
  using assms by (simp add: tool_payload_def with_checksum_def ssm_checksum_sum_list unat_of_nat_u8 butlast_append)

lemma length_concat_be24 [simp]: "length (concat (map be24 as)) = 3 * length as"
  by (induction as) (simp_all add: be24_def)

lemma find_none_all: "List.find P xs = None \<longleftrightarrow> list_all (\<lambda>x. \<not> P x) xs"
  by (auto simp: find_None_iff list_all_iff)

lemma build_a8_decodes:
  "build_a8_request as framing = Inr req \<Longrightarrow> ecu_command framing req = Some (ReadBytes as)"
proof -
  assume req: "build_a8_request as framing = Inr req"
  then obtain ne: "as \<noteq> []" and none: "List.find (\<lambda>a. a > kMaxAddress) as = None"
    by (auto simp: build_a8_request_def failure_def split: if_splits option.splits)
  from none have ok: "list_all (\<lambda>a. a \<le> kMaxAddress) as" by (simp add: find_none_all not_less)
  obtain a as' where as: "as = a # as'" using ne by (cases as) auto
  let ?p = "kCmdReadByAddress # kPadByte # concat (map be24 as)"
  have "tool_payload framing req = Some ?p"
  proof (cases framing)
    case IsoTp
    with req ne none show ?thesis
      by (simp add: build_a8_request_def tool_payload_def failure_def)
  next
    case KLine
    with req ne none have len: "2 + 3 * length as \<le> 255"
        and r: "req = with_checksum ([kSsmHeader, kSsmDestEcu, kSsmSrcTool, of_nat (2 + 3 * length as)] @ ?p)"
      by (auto simp: build_a8_request_def failure_def Let_def split: if_splits)
    show ?thesis
      unfolding KLine r by (rule tool_payload_frame) (use len in simp_all)
  qed
  moreover have "concat (map be24 as) = byte_at 16 a # byte_at 8 a # byte_at 0 a # concat (map be24 as')"
    by (simp add: as be24_def)
  ultimately show ?thesis using addresses24_concat [OF ok]
    by (simp add: ecu_command_def del: byte_at_0 addresses24.simps(2))
qed

lemma build_b0_decodes:
  "build_b0_request a d framing = Inr req \<Longrightarrow> ecu_command framing req = Some (WriteByte a d)"
proof -
  assume req: "build_b0_request a d framing = Inr req"
  then have ok: "a \<le> kMaxAddress" by (auto simp: build_b0_request_def failure_def not_less split: if_splits)
  let ?p = "[kCmdWriteByAddress, byte_at 16 a, byte_at 8 a, byte_at 0 a, d]"
  have "tool_payload framing req = Some ?p"
  proof (cases framing)
    case IsoTp
    with req show ?thesis
      by (auto simp: build_b0_request_def tool_payload_def be24_def failure_def split: if_splits)
  next
    case KLine
    with req have "req = with_checksum ([kSsmHeader, kSsmDestEcu, kSsmSrcTool, 5] @ ?p)"
      by (auto simp: build_b0_request_def be24_def failure_def split: if_splits)
    then show ?thesis unfolding KLine by (simp only:) (rule tool_payload_frame, simp_all)
  qed
  then show ?thesis using be24_decode [OF ok] by (simp add: ecu_command_def del: byte_at_0)
qed

lemma build_b8_decodes:
  "build_b8_request a data framing = Inr req \<Longrightarrow> ecu_command framing req = Some (WriteBlock a data)"
proof -
  assume req: "build_b8_request a data framing = Inr req"
  then have ok: "a \<le> kMaxAddress" and ne: "data \<noteq> []"
    by (auto simp: build_b8_request_def failure_def not_less split: if_splits)
  let ?p = "[kCmdBlockWrite, byte_at 16 a, byte_at 8 a, byte_at 0 a] @ data"
  have "tool_payload framing req = Some ?p"
  proof (cases framing)
    case IsoTp
    with req show ?thesis
      by (auto simp: build_b8_request_def tool_payload_def be24_def failure_def split: if_splits)
  next
    case KLine
    with req have len: "length data \<le> 251"
      and r: "req = with_checksum ([kSsmHeader, kSsmDestEcu, kSsmSrcTool, of_nat (4 + length data)] @ ?p)"
      by (auto simp: build_b8_request_def be24_def failure_def not_less split: if_splits)
    show ?thesis unfolding KLine r by (rule tool_payload_frame) (use len in simp_all)
  qed
  then show ?thesis using be24_decode [OF ok] ne by (simp add: ecu_command_def del: byte_at_0)
qed

section \<open>Properties\<close>

text \<open>An SSM request says what was asked for: whatever frame the builders of read, write and block
  write emit, in either framing, the ECU (which checks header, length and checksum) decodes it to
  exactly the requested command, and they refuse, with InvalidArgument, only requests that have no
  encoding: no bytes, an address past 24 bits, or more than the K-Line length byte can count.\<close>

theorem ssm_requests_decode:
  "(case build_a8_request as framing of
      Inr req \<Rightarrow> ecu_command framing req = Some (ReadBytes as)
    | Inl e \<Rightarrow> err_code e = InvalidArgument \<and>
        (as = [] \<or> (\<exists>a. a \<in> set as \<and> kMaxAddress < a) \<or> framing = KLine \<and> 84 < length as)) \<and>
   (case build_b0_request a d framing of
      Inr req \<Rightarrow> ecu_command framing req = Some (WriteByte a d)
    | Inl e \<Rightarrow> err_code e = InvalidArgument \<and> kMaxAddress < a) \<and>
   (case build_b8_request a data framing of
      Inr req \<Rightarrow> ecu_command framing req = Some (WriteBlock a data)
    | Inl e \<Rightarrow> err_code e = InvalidArgument \<and>
        (data = [] \<or> unat kMaxAddress < unat a + length data - 1 \<or> framing = KLine \<and> 251 < length data))"
proof (intro conjI)
  show "case build_a8_request as framing of
      Inr req \<Rightarrow> ecu_command framing req = Some (ReadBytes as)
    | Inl e \<Rightarrow> err_code e = InvalidArgument \<and>
        (as = [] \<or> (\<exists>a. a \<in> set as \<and> kMaxAddress < a) \<or> framing = KLine \<and> 84 < length as)"
    by (cases "build_a8_request as framing")
       (auto simp: build_a8_decodes,
        auto simp: build_a8_request_def failure_def find_Some_iff Let_def
          split: if_splits option.splits framing.splits)
  show "case build_b0_request a d framing of
      Inr req \<Rightarrow> ecu_command framing req = Some (WriteByte a d)
    | Inl e \<Rightarrow> err_code e = InvalidArgument \<and> kMaxAddress < a"
    by (cases "build_b0_request a d framing")
       (auto simp: build_b0_decodes,
        auto simp: build_b0_request_def failure_def split: if_splits framing.splits)
  show "case build_b8_request a data framing of
      Inr req \<Rightarrow> ecu_command framing req = Some (WriteBlock a data)
    | Inl e \<Rightarrow> err_code e = InvalidArgument \<and>
        (data = [] \<or> unat kMaxAddress < unat a + length data - 1 \<or> framing = KLine \<and> 251 < length data)"
    by (cases "build_b8_request a data framing"; cases data)
       (auto simp: build_b8_decodes,
        auto simp: build_b8_request_def failure_def word_less_nat_alt split: if_splits framing.splits)
qed

text \<open>The SSM response parsers accept exactly the positive responses of the protocol: in K-Line
  framing a frame to the tool with the right length, checksum and response byte, in ISO-TP
  framing the bare payload, with as many data bytes as were asked for (a write echoes at least
  one), and they return those data bytes.\<close>

theorem ssm_responses_accepted:
  "(parse_a8_response resp n framing = Inr data \<longleftrightarrow> length data = n \<and>
      (case framing of KLine \<Rightarrow> n < 255 \<and> resp = ecu_frame (kRespReadByAddress # data)
       | IsoTp \<Rightarrow> resp = kRespReadByAddress # data)) \<and>
   (parse_b0_response resp framing = Inr d \<longleftrightarrow>
      (\<exists>rest. case framing of KLine \<Rightarrow> length rest < 254 \<and> resp = ecu_frame (kRespWriteByAddress # d # rest)
       | IsoTp \<Rightarrow> resp = kRespWriteByAddress # d # rest)) \<and>
   (parse_b8_response resp n framing = Inr data \<longleftrightarrow> length data = n \<and>
      (case framing of KLine \<Rightarrow> n < 255 \<and> resp = ecu_frame (kRespBlockWrite # data)
       | IsoTp \<Rightarrow> resp = kRespBlockWrite # data)) \<and>
   (byte_command_response framing cmd resp = Inr data \<longleftrightarrow>
      (case framing of KLine \<Rightarrow> length data < 255 \<and> resp = ecu_frame ((cmd OR 0x40) # data)
       | IsoTp \<Rightarrow> resp = (cmd OR 0x40) # data))"
  by (cases framing)
     (simp_all add: parse_a8_response_def parse_b0_response_def parse_b8_response_def
        parse_a8_kline_frame parse_b0_kline_frame parse_b8_kline_frame byte_command_kline_frame
        parse_isotp_iff conj_ac)

text \<open>The K-Line checksum protects every byte: changing any one byte of a frame with a non-empty
  payload (header, addresses, length, data or the checksum itself) makes every parser reject it.\<close>

theorem kline_corruption_detected:
  assumes "payload \<noteq> []" "length payload < 256"
    and "i < length (ecu_frame payload)" "b \<noteq> ecu_frame payload ! i"
  shows "isl (parse_a8_response ((ecu_frame payload)[i := b]) n KLine) \<and>
    isl (parse_b0_response ((ecu_frame payload)[i := b]) KLine) \<and>
    isl (parse_b8_response ((ecu_frame payload)[i := b]) n KLine) \<and>
    isl (byte_command_response KLine cmd ((ecu_frame payload)[i := b]))"
proof -
  have reject: "isl r" if "\<And>x. r \<noteq> Inr x" for r :: "error + 'b"
    using that by (cases r) auto
  have "\<not> kline_envelope ((ecu_frame payload)[i := b])"
    by (rule corrupted_envelope [OF ecu_frame_envelope [OF assms(1,2)] assms(3,4)])
  then show ?thesis
    by (auto simp: parse_a8_response_def parse_b0_response_def parse_b8_response_def
        parse_a8_kline_iff parse_b0_kline_iff parse_b8_kline_iff byte_command_kline_iff intro!: reject)
qed

theorem kline_corruption_detected_witness:
  "parse_a8_response (ecu_frame [0xE8, 0x12, 0x34]) 2 KLine = Inr [0x12, 0x34] \<and>
   isl (parse_a8_response ((ecu_frame [0xE8, 0x12, 0x34])[6 := 0x35]) 2 KLine)"
  using kline_corruption_detected [of "[0xE8, 0x12, 0x34]" 6 "0x35" 2]
  by (simp add: parse_a8_response_def parse_a8_kline_frame) (simp add: ecu_frame_def with_checksum_def)

end
