(* ===== verification/Ssm_Read.thy ===== *)
theory Ssm_Read
  imports Ssm_Props Flash_Read
begin

text \<open>
  \<open>Flasher::read_full_rom_ssm\<close> of \<open>src/flash/src/flash.cpp\<close>, the chunked dump over SSM, on top of
  \<open>SsmClient\<close>, and both run against an ECU that decodes the requests and serves its memory.
\<close>

section \<open>The dump loop\<close>

abbreviation "kSsmMaxChunkBytes \<equiv> (80 :: u32)"

text \<open>One round of \<open>while (remaining > 0)\<close>, with the dump state of theory \<open>Flash_Read\<close>.\<close>

definition ssm_dump_step ::
    "'s transport \<Rightarrow> framing \<Rightarrow> (nat \<Rightarrow> bool) \<Rightarrow> u32 \<Rightarrow> nat \<Rightarrow> dump \<Rightarrow> 's rd \<Rightarrow> (bytes result + dump) \<times> 's rd" where
  "ssm_dump_step tp framing cancel total_length timeout d rd0 =
     (let cancelled = cancel (rd_polls rd0);
          rd = rd0\<lparr>rd_polls := Suc (rd_polls rd0)\<rparr>;
          cursor = d_cursor d in
      if cancelled then
        (Inl (failure Cancelled (''flash: read_full_rom_ssm cancelled at '' @ hex_addr cursor)), rd)
      else
        let this_chunk = next_chunk d in
        (case ssm_read_block tp framing (rd_wire rd) cursor (unat this_chunk) timeout of
           (Inl e, s1) \<Rightarrow>
             (Inl (failure (err_code e) (''flash: read_full_rom_ssm failed at '' @ hex_addr cursor @
                '': '' @ err_message e)), rd\<lparr>rd_wire := s1\<rparr>)
         | (Inr chunk, s1) \<Rightarrow>
             let rd1 = rd\<lparr>rd_wire := s1\<rparr> in
             if length chunk \<noteq> unat this_chunk then
               (Inl (failure UnexpectedEof (''flash: short SSM read at '' @ hex_addr cursor @
                  '' (expected '' @ to_string_u32 this_chunk @ '', got '' @
                  dec_string (length chunk) @ '')'')), rd1)
             else apfst Inr (dump_accept total_length this_chunk chunk d rd1)))"

partial_function (option) ssm_dump_loop ::
    "'s transport \<Rightarrow> framing \<Rightarrow> (nat \<Rightarrow> bool) \<Rightarrow> u32 \<Rightarrow> nat \<Rightarrow> dump \<Rightarrow> 's rd \<Rightarrow> (bytes result \<times> 's rd) option" where
  "ssm_dump_loop tp framing cancel total_length timeout d rd =
     (if d_remaining d > 0 then
        (case ssm_dump_step tp framing cancel total_length timeout d rd of
           (Inl r, rd') \<Rightarrow> Some (r, rd')
         | (Inr d', rd') \<Rightarrow> ssm_dump_loop tp framing cancel total_length timeout d' rd')
      else Some (Inr (d_out d), rd))"

declare ssm_dump_loop.simps [code]

definition read_full_rom_ssm ::
    "'s transport \<Rightarrow> framing \<Rightarrow> (nat \<Rightarrow> bool) \<Rightarrow> u32 \<Rightarrow> u32 \<Rightarrow> u32 \<Rightarrow> nat \<Rightarrow> 's rd \<Rightarrow>
     (bytes result \<times> 's rd) option" where
  "read_full_rom_ssm tp framing cancel base_address total_length max_chunk_size timeout rd =
     (if total_length = 0 then Some (Inr [], report_progress 0 0 rd)
      else if max_chunk_size = 0 then
        Some (failure InvalidArgument ''flash: read_full_rom_ssm max_chunk_size must be > 0'', rd)
      else if base_address > kMaxAddress \<or>
              unat base_address + unat total_length - 1 > unat kMaxAddress then
        Some (failure InvalidArgument
          (''flash: read_full_rom_ssm: address range exceeds SSM 24-bit limit '' @
           ''(base '' @ hex_addr base_address @ '', len '' @ to_string_u32 total_length @ '')''), rd)
      else
        let effective_chunk = (if max_chunk_size < kSsmMaxChunkBytes then max_chunk_size else kSsmMaxChunkBytes) in
        ssm_dump_loop tp framing cancel total_length timeout
          \<lparr>d_cursor = base_address, d_remaining = total_length, d_chunk = effective_chunk,
           d_halved = False, d_out = []\<rparr>
          (report_progress 0 total_length rd))"

section \<open>Termination\<close>

lemma ssm_dump_step_Inr:
  assumes "ssm_dump_step tp fr cancel t to d rd = (Inr d', rd')"
  obtains data s s' rd1 where
    "ssm_read_block tp fr s (d_cursor d) (unat (next_chunk d)) to = (Inr data, s')"
    "length data = unat (next_chunk d)" "dump_accept t (next_chunk d) data d rd1 = (d', rd')"
  using assms
  by (auto simp: ssm_dump_step_def Let_def apfst_def map_prod_def split: if_splits prod.splits sum.splits)

lemma ssm_dump_step_decreases:
  assumes "ssm_dump_step tp fr cancel t to d rd = (Inr d', rd')" "0 < d_chunk d" "0 < d_remaining d"
  shows "unat (d_remaining d') < unat (d_remaining d) \<and> d_chunk d' = d_chunk d \<and>
    length (d_out d') + unat (d_remaining d') = length (d_out d) + unat (d_remaining d)"
proof -
  from assms(1) obtain data rd1 where data: "length data = unat (next_chunk d)"
    and "dump_accept t (next_chunk d) data d rd1 = (d', rd')" by (rule ssm_dump_step_Inr)
  then have d': "d' = fst (dump_accept t (next_chunk d) data d rd1)" by simp
  have "0 < unat (next_chunk d)" "unat (next_chunk d) \<le> unat (d_remaining d)"
    using next_chunk_bounds [of d] assms(2,3) by (simp_all add: unat_pos_iff word_le_nat_alt)
  moreover have "unat (d_remaining d') = unat (d_remaining d) - unat (next_chunk d)"
    unfolding d' by (rule dump_accept_remaining [OF next_chunk_bounds(1)])
  moreover have "d_out d' = d_out d @ data" by (simp add: d' dump_accept_def Let_def)
  ultimately show ?thesis using data by (simp add: d')
qed

lemma ssm_dump_step_Inl: "ssm_dump_step tp fr cancel t to d rd = (Inl (Inr out), rd') \<Longrightarrow> False"
  by (auto simp: ssm_dump_step_def Let_def apfst_def map_prod_def failure_def
      split: if_splits prod.splits sum.splits)

lemma ssm_dump_loop_returns:
  "0 < d_chunk d \<Longrightarrow> \<exists>r rd'. ssm_dump_loop tp fr cancel t to d rd = Some (r, rd') \<and>
     (case r of Inl _ \<Rightarrow> True | Inr out \<Rightarrow> length out = length (d_out d) + unat (d_remaining d))"
proof (induction "unat (d_remaining d)" arbitrary: d rd rule: less_induct)
  case less
  note unfold = ssm_dump_loop.simps [of tp fr cancel t to d rd]
  show ?case
  proof (cases "0 < d_remaining d")
    case False
    then have "unat (d_remaining d) = 0" using unat_pos_iff [of "d_remaining d"] by simp
    with False show ?thesis by (simp add: unfold)
  next
    case rem: True
    obtain x rd1 where st: "ssm_dump_step tp fr cancel t to d rd = (x, rd1)" by fastforce
    show ?thesis
    proof (cases x)
      case (Inl r)
      with st rem show ?thesis
        by (cases r) (auto simp: unfold dest: ssm_dump_step_Inl)
    next
      case (Inr d')
      note dec = ssm_dump_step_decreases [OF st [unfolded Inr] less.prems rem]
      from less.hyps [of d' rd1] dec less.prems st rem Inr show ?thesis
        by (auto simp: unfold split: sum.splits)
    qed
  qed
qed

section \<open>An ECU with a memory\<close>

text \<open>
  The reply of an ECU whose state is its memory: it decodes the request as in theory
  \<open>Ssm_Props\<close>, reads or writes, and echoes what it wrote.
\<close>

definition reply :: "framing \<Rightarrow> bytes \<Rightarrow> bytes" where
  "reply framing payload = (case framing of KLine \<Rightarrow> ecu_frame payload | IsoTp \<Rightarrow> payload)"

definition write_memory :: "(u32 \<Rightarrow> u8) \<Rightarrow> u32 \<Rightarrow> bytes \<Rightarrow> u32 \<Rightarrow> u8" where
  "write_memory mem a data =
     (\<lambda>x. if a \<le> x \<and> unat (x - a) < length data then data ! unat (x - a) else mem x)"

definition ssm_ecu :: "framing \<Rightarrow> (u32 \<Rightarrow> u8) transport" where
  "ssm_ecu framing =
     \<lparr>tp_send_recv = (\<lambda>mem req to.
        case ecu_command framing req of
          Some (ReadBytes as) \<Rightarrow> (Inr (reply framing (kRespReadByAddress # map mem as)), mem)
        | Some (WriteByte a d) \<Rightarrow> (Inr (reply framing [kRespWriteByAddress, d]), mem(a := d))
        | Some (WriteBlock a data) \<Rightarrow>
            (Inr (reply framing (kRespBlockWrite # data)), write_memory mem a data)
        | None \<Rightarrow> (failure TransportTimeout [], mem)),
      tp_send_recv_to = (\<lambda>mem i req to. (failure TransportTimeout [], mem))\<rparr>"

lemma parse_a8_reply:
  "length data \<le> 251 \<or> framing = IsoTp \<Longrightarrow>
     parse_a8_response (reply framing (kRespReadByAddress # data)) (length data) framing = Inr data"
  by (cases framing) (auto simp: parse_a8_response_def reply_def parse_a8_kline_frame parse_isotp_iff)

lemma parse_b8_reply:
  "length data \<le> 251 \<or> framing = IsoTp \<Longrightarrow>
     parse_b8_response (reply framing (kRespBlockWrite # data)) (length data) framing = Inr data"
  by (cases framing) (auto simp: parse_b8_response_def reply_def parse_b8_kline_frame parse_isotp_iff)

lemma parse_b0_reply: "parse_b0_response (reply framing [kRespWriteByAddress, d]) framing = Inr d"
  by (cases framing) (auto simp: parse_b0_response_def reply_def parse_b0_kline_frame parse_isotp_iff intro: exI [of _ "[]"])

lemma build_a8_length: "build_a8_request as KLine = Inr req \<Longrightarrow> length as \<le> 84"
  by (auto simp: build_a8_request_def failure_def Let_def split: if_splits option.splits)

lemma build_b8_length: "build_b8_request a data KLine = Inr req \<Longrightarrow> length data \<le> 251"
  by (auto simp: build_b8_request_def failure_def split: if_splits)

lemma ssm_read_ecu:
  "ssm_read (ssm_ecu framing) framing mem as to =
     (case build_a8_request as framing of Inl e \<Rightarrow> (Inl e, mem) | Inr _ \<Rightarrow> (Inr (map mem as), mem))"
proof (cases "build_a8_request as framing")
  case (Inr req)
  then have "length as \<le> 251 \<or> framing = IsoTp"
    using build_a8_length [of as] by (cases framing) force+
  with parse_a8_reply [of "map mem as" framing] Inr show ?thesis
    by (simp add: ssm_read_def ssm_call_def ssm_ecu_def build_a8_decodes)
qed (simp add: ssm_read_def ssm_call_def)

lemma ssm_write_ecu:
  "ssm_write (ssm_ecu framing) framing mem a d to =
     (case build_b0_request a d framing of Inl e \<Rightarrow> (Inl e, mem) | Inr _ \<Rightarrow> (Inr d, mem(a := d)))"
  by (cases "build_b0_request a d framing")
     (simp_all add: ssm_write_def ssm_call_def ssm_ecu_def build_b0_decodes parse_b0_reply)

lemma ssm_write_block_ecu:
  "ssm_write_block (ssm_ecu framing) framing mem a data to =
     (case build_b8_request a data framing of Inl e \<Rightarrow> (Inl e, mem) | Inr _ \<Rightarrow> (Inr data, write_memory mem a data))"
proof (cases "build_b8_request a data framing")
  case (Inr req)
  then have "length data \<le> 251 \<or> framing = IsoTp"
    using build_b8_length [of a data] by (cases framing) force+
  with parse_b8_reply [of data framing] Inr show ?thesis
    by (simp add: ssm_write_block_def ssm_call_def ssm_ecu_def build_b8_decodes)
qed (simp add: ssm_write_block_def ssm_call_def)

lemma ssm_read_block_ecu:
  assumes "0 < n" "n \<le> 84" "unat a + n - 1 \<le> unat kMaxAddress"
  shows "ssm_read_block (ssm_ecu framing) framing mem a n to = (Inr (mem_slice mem a n), mem)"
proof -
  let ?as = "map (\<lambda>i. a + of_nat i) [0..<n]"
  have "a + of_nat i \<le> kMaxAddress" if "i < n" for i
  proof -
    have "unat a + i < 2 ^ 32" using assms(3) that by simp
    then have "unat (a + of_nat i) = unat a + i" by (simp add: unat_word_ariths unat_of_nat take_bit_eq_mod mod_simps)
    then show ?thesis using assms(3) that by (simp add: word_le_nat_alt)
  qed
  then have "List.find (\<lambda>a. a > kMaxAddress) ?as = None"
    by (simp add: find_none_all list_all_iff not_less)
  then obtain req where "build_a8_request ?as framing = Inr req"
    using assms(1,2) by (cases framing) (auto simp: build_a8_request_def)
  moreover have "a \<le> kMaxAddress" using assms(1,3) by (simp add: word_le_nat_alt)
  ultimately show ?thesis
    using assms(1,3) by (simp add: ssm_read_block_def ssm_read_ecu mem_slice_def comp_def not_less)
qed

lemma ssm_dump_step_ecu:
  assumes "dump_inv mem base t d" "0 < d_remaining d" "0 < d_chunk d" "d_chunk d \<le> 80"
    and "unat base + unat t - 1 \<le> unat kMaxAddress" "rd_wire rd = mem"
  obtains d' rd' where
    "ssm_dump_step (ssm_ecu framing) framing (\<lambda>_. False) t to d rd = (Inr d', rd')"
    "dump_inv mem base t d'" "rd_wire rd' = mem"
proof -
  let ?n = "unat (next_chunk d)" and ?done = "length (d_out d)"
  have inv: "?done + unat (d_remaining d) = unat t" "d_cursor d = base + of_nat ?done"
    using assms(1) by (auto simp: dump_inv_def)
  have n: "0 < ?n" "?n \<le> unat (d_remaining d)"
    using next_chunk_bounds [of d] assms(2,3) by (auto simp: unat_pos_iff word_le_nat_alt)
  have "next_chunk d \<le> d_chunk d" by (auto simp: next_chunk_def)
  then have n80: "?n \<le> 80" using assms(4) by (auto simp: word_le_nat_alt)
  have "unat base + ?done < 2 ^ 32" using inv(1) n assms(5) by simp
  then have cursor: "unat (d_cursor d) = unat base + ?done"
    by (simp add: inv(2) unat_word_ariths unat_of_nat take_bit_eq_mod mod_simps)
  have "ssm_read_block (ssm_ecu framing) framing mem (d_cursor d) ?n to = (Inr (mem_slice mem (d_cursor d) ?n), mem)"
    by (rule ssm_read_block_ecu) (use n n80 inv(1) cursor assms(5) in simp_all)
  moreover obtain d' rd' where d': "dump_accept t (next_chunk d) (mem_slice mem (d_cursor d) ?n) d
      (rd\<lparr>rd_polls := Suc (rd_polls rd), rd_wire := mem\<rparr>) = (d', rd')" by fastforce
  ultimately have "ssm_dump_step (ssm_ecu framing) framing (\<lambda>_. False) t to d rd = (Inr d', rd')"
    using assms(6) by (simp add: ssm_dump_step_def Let_def)
  moreover have "dump_inv mem base t d'"
    using dump_accept_inv [OF assms(1) next_chunk_bounds(1), of "mem_slice mem (d_cursor d) ?n"] d'
    by (metis fst_conv is_slice_def length_mem_slice)
  moreover have "rd_wire rd' = mem"
    using d' by (auto simp: dump_accept_def report_progress_def Let_def)
  ultimately show ?thesis by (rule that)
qed

lemma ssm_dump_loop_ecu:
  assumes "dump_inv mem base t d" "0 < d_chunk d" "d_chunk d \<le> 80"
    and "unat base + unat t - 1 \<le> unat kMaxAddress" "rd_wire rd = mem"
  shows "\<exists>rd'. ssm_dump_loop (ssm_ecu framing) framing (\<lambda>_. False) t to d rd =
     Some (Inr (mem_slice mem base (unat t)), rd') \<and> rd_wire rd' = mem"
  using assms
proof (induction "unat (d_remaining d)" arbitrary: d rd rule: less_induct)
  case less
  note unfold = ssm_dump_loop.simps [of "ssm_ecu framing" framing "\<lambda>_. False" t to d rd]
  show ?case
  proof (cases "0 < d_remaining d")
    case False
    then have "unat (d_remaining d) = 0" using unat_pos_iff [of "d_remaining d"] by simp
    with False less.prems show ?thesis by (auto simp: unfold dump_inv_def is_slice_def)
  next
    case rem: True
    obtain d' rd1 where step:
        "ssm_dump_step (ssm_ecu framing) framing (\<lambda>_. False) t to d rd = (Inr d', rd1)"
        "dump_inv mem base t d'" "rd_wire rd1 = mem"
      by (rule ssm_dump_step_ecu [OF less.prems(1) rem less.prems(2-5)])
    note dec = ssm_dump_step_decreases [OF step(1) less.prems(2) rem]
    from less.hyps [of d' rd1] dec step(2,3) less.prems(2-4)
    show ?thesis by (simp add: unfold rem step(1))
  qed
qed

section \<open>Properties\<close>

text \<open>The SSM client reads and writes memory: against an ECU that decodes the requests and serves its
  memory, over either framing, a read returns the addressed bytes, a write stores its byte and a
  block write its bytes at the addresses from the start on, each echoed; a request that cannot
  be encoded is refused without touching the bus.\<close>

theorem ssm_client_reads_and_writes:
  "ssm_read (ssm_ecu framing) framing mem as to =
     (case build_a8_request as framing of Inl e \<Rightarrow> (Inl e, mem) | Inr _ \<Rightarrow> (Inr (map mem as), mem)) \<and>
   ssm_write (ssm_ecu framing) framing mem a d to =
     (case build_b0_request a d framing of Inl e \<Rightarrow> (Inl e, mem) | Inr _ \<Rightarrow> (Inr d, mem(a := d))) \<and>
   ssm_write_block (ssm_ecu framing) framing mem a data to =
     (case build_b8_request a data framing of
        Inl e \<Rightarrow> (Inl e, mem) | Inr _ \<Rightarrow> (Inr data, write_memory mem a data))"
  by (simp only: ssm_read_ecu ssm_write_ecu ssm_write_block_ecu)

text \<open>C28: A dump over SSM returns for every transport, and a successful one has the requested length.
  Against an ECU serving its memory it succeeds for every range within 24 bits and every
  non-zero chunk size, in either framing, with exactly the memory of the range.\<close>

theorem read_full_rom_ssm_correct:
  "(\<exists>r rd'. read_full_rom_ssm tp fr cancel base n chunk to rd = Some (r, rd') \<and>
     (case r of Inl e \<Rightarrow> True | Inr out \<Rightarrow> length out = unat n)) \<and>
   (\<exists>r rd'. read_full_rom_ssm (ssm_ecu framing) framing (\<lambda>_. False) base n chunk to (rd0\<lparr>rd_wire := mem\<rparr>) =
       Some (r, rd') \<and> rd_wire rd' = mem \<and>
     (if n = 0 \<or> (chunk \<noteq> 0 \<and> unat base + unat n - 1 \<le> 0xFFFFFF) then r = Inr (mem_slice mem base (unat n))
      else code_of r = Some InvalidArgument))"
proof (intro conjI)
  let ?d = "\<lparr>d_cursor = base, d_remaining = n,
    d_chunk = if chunk < kSsmMaxChunkBytes then chunk else kSsmMaxChunkBytes, d_halved = False, d_out = []\<rparr>"
  have pos: "0 < d_chunk ?d" if "chunk \<noteq> 0" using that by (simp add: word_gt_0)
  show "\<exists>r rd'. read_full_rom_ssm tp fr cancel base n chunk to rd = Some (r, rd') \<and>
     (case r of Inl e \<Rightarrow> True | Inr out \<Rightarrow> length out = unat n)"
    using ssm_dump_loop_returns [OF pos, of tp fr cancel n to "report_progress 0 n rd"]
    by (cases "chunk = 0") (auto simp: read_full_rom_ssm_def failure_def Let_def split: sum.splits)
  let ?rd = "report_progress 0 n (rd0\<lparr>rd_wire := mem\<rparr>)"
  have loop: "\<exists>rd'. ssm_dump_loop (ssm_ecu framing) framing (\<lambda>_. False) n to ?d ?rd =
      Some (Inr (mem_slice mem base (unat n)), rd') \<and> rd_wire rd' = mem"
    if "chunk \<noteq> 0" "unat base + unat n - 1 \<le> unat kMaxAddress"
    by (rule ssm_dump_loop_ecu [OF dump_inv_initial pos [OF that(1)]])
       (use that in \<open>auto simp: report_progress_def not_less intro: less_imp_le\<close>)
  have base: "\<not> kMaxAddress < base" if "n \<noteq> 0" "unat base + unat n - 1 \<le> 0xFFFFFF"
    using that by (cases "unat n") (auto simp: word_less_nat_alt unat_eq_0)
  show "\<exists>r rd'. read_full_rom_ssm (ssm_ecu framing) framing (\<lambda>_. False) base n chunk to (rd0\<lparr>rd_wire := mem\<rparr>) =
       Some (r, rd') \<and> rd_wire rd' = mem \<and>
     (if n = 0 \<or> (chunk \<noteq> 0 \<and> unat base + unat n - 1 \<le> 0xFFFFFF) then r = Inr (mem_slice mem base (unat n))
      else code_of r = Some InvalidArgument)"
    using loop base
    by (auto simp: read_full_rom_ssm_def Let_def failure_def code_of_def mem_slice_def report_progress_def)
qed

end
