(* ===== verification/Audit_Codec.thy ===== *)
theory Audit_Codec
  imports Uds_Client Crc32
begin

text \<open>
  The line format of the audit log: \<open>src/audit/src/audit.cpp\<close> and \<open>json_escape\<close> of
  \<open>src/core/src/json_util.cpp\<close>. An entry is written as one line of JSON ending in a CRC32 of the
  rest; the hand-written parser reads it back. Where the parser gives up, the entry keeps what
  was read so far, so a failure carries that entry. Timestamps are 64 bits, with the overflow of
  \<open>parse_int64\<close> (undefined behaviour in C++) as wrap-around.
\<close>

section \<open>Entries and their kinds\<close>

record entry =
  en_kind :: entry_kind
  en_timestamp_ns :: u64
  en_source :: string
  en_description :: string
  en_cid :: string
  en_vin :: string
  en_fields :: "(string \<times> string) list"
  en_checksum_valid :: bool
  en_checksum_on_disk :: u32

definition blank_entry :: entry where
  "blank_entry = \<lparr>en_kind = Custom, en_timestamp_ns = 0, en_source = [], en_description = [],
     en_cid = [], en_vin = [], en_fields = [], en_checksum_valid = True, en_checksum_on_disk = 0\<rparr>"

definition kKindNames :: "(entry_kind \<times> string) list" where
  "kKindNames =
     [(Custom, ''custom''), (EcuConnected, ''ecu.connected''), (EcuDisconnected, ''ecu.disconnected''),
      (SecurityAccessUnlocked, ''ecu.security_access_unlocked''), (BackupCreated, ''backup.created''),
      (BackupVerified, ''backup.verified''), (FlashStarted, ''flash.started''),
      (FlashSectorWritten, ''flash.sector_written''), (FlashCompleted, ''flash.completed''),
      (FlashFailed, ''flash.failed''), (FlashCancelled, ''flash.cancelled''),
      (DatalogStarted, ''log.started''), (DatalogStopped, ''log.stopped''),
      (ChecksumRecomputed, ''checksum.recomputed''), (ProjectOpened, ''project.opened''),
      (ProjectSaved, ''project.saved''), (EditCommitted, ''project.edit_committed''),
      (AutotuneCommitted, ''project.autotune_committed''), (RomReadStarted, ''rom.read_started''),
      (RomReadCompleted, ''rom.read_completed''), (RomReadFailed, ''rom.read_failed''),
      (RomReadCancelled, ''rom.read_cancelled'')]"

definition kind_name :: "entry_kind \<Rightarrow> string" where
  "kind_name k = (case List.find (\<lambda>p. fst p = k) kKindNames of Some p \<Rightarrow> snd p | None \<Rightarrow> ''unknown'')"

definition kind_from_name :: "string \<Rightarrow> entry_kind" where
  "kind_from_name name =
     (case List.find (\<lambda>p. snd p = name) kKindNames of Some p \<Rightarrow> fst p | None \<Rightarrow> Custom)"

section \<open>Writing\<close>

abbreviation DQ :: char where "DQ \<equiv> CHR 0x22"
abbreviation BS :: char where "BS \<equiv> CHR 0x5C"
abbreviation TAB :: char where "TAB \<equiv> CHR 0x09"

definition escape_char :: "char \<Rightarrow> string" where
  "escape_char ch =
     (if ch = DQ then [BS, DQ]
      else if ch = BS then [BS, BS]
      else if ch = CHR 0x0A then [BS, CHR ''n'']
      else if ch = CHR 0x0D then [BS, CHR ''r'']
      else if ch = TAB then [BS, CHR ''t'']
      else if (of_char ch :: nat) < 0x20 then [BS, CHR ''u''] @ hex_fixed 4 (of_char ch)
      else [ch])"

definition json_escape :: "string \<Rightarrow> string" where
  "json_escape s = DQ # concat (map escape_char s) @ [DQ]"

text \<open>\<open>std::to_string\<close> of a signed 64-bit value.\<close>

definition to_string_i64 :: "u64 \<Rightarrow> string" where
  "to_string_i64 v = (if sint v < 0 then CHR ''-'' # dec_string (nat (- sint v)) else dec_string (nat (sint v)))"

definition json_key :: "string \<Rightarrow> string" where
  "json_key k = DQ # k @ [DQ, CHR '':'']"

fun serialize_fields :: "(string \<times> string) list \<Rightarrow> string" where
  "serialize_fields [] = []"
| "serialize_fields [(k, v)] = ''['' @ json_escape k @ '','' @ json_escape v @ '']''"
| "serialize_fields ((k, v) # f # fs) =
     ''['' @ json_escape k @ '','' @ json_escape v @ '']'' @ '','' @ serialize_fields (f # fs)"

definition serialize_for_checksum :: "entry \<Rightarrow> string" where
  "serialize_for_checksum e =
     ''{'' @ json_key ''kind'' @ json_escape (kind_name (en_kind e)) @
     '','' @ json_key ''ts'' @ to_string_i64 (en_timestamp_ns e) @
     '','' @ json_key ''source'' @ json_escape (en_source e) @
     '','' @ json_key ''desc'' @ json_escape (en_description e) @
     (if en_cid e \<noteq> [] then '','' @ json_key ''cid'' @ json_escape (en_cid e) else []) @
     (if en_vin e \<noteq> [] then '','' @ json_key ''vin'' @ json_escape (en_vin e) else []) @
     '','' @ json_key ''fields'' @ ''['' @ serialize_fields (en_fields e) @ '']''"

definition entry_checksum :: "entry \<Rightarrow> u32" where
  "entry_checksum e = crc32 (map of_char (serialize_for_checksum e))"

definition serialize_entry :: "entry \<Rightarrow> string" where
  "serialize_entry e =
     serialize_for_checksum e @ '','' @ json_key ''checksum'' @
     dec_string (unat (entry_checksum e)) @ ''}''"

section \<open>Reading\<close>

definition skip_ws :: "string \<Rightarrow> string" where
  "skip_ws s = dropWhile (\<lambda>c. c = CHR '' '' \<or> c = TAB) s"

definition consume :: "char \<Rightarrow> string \<Rightarrow> string option" where
  "consume c s = (case s of [] \<Rightarrow> None | d # rest \<Rightarrow> if d = c then Some rest else None)"

definition hex_nibble :: "char \<Rightarrow> nat option" where
  "hex_nibble hex =
     (let n = of_char hex in
      if 48 \<le> n \<and> n \<le> 57 then Some (n - 48)
      else if 97 \<le> n \<and> n \<le> 102 then Some (n - 97 + 10)
      else if 65 \<le> n \<and> n \<le> 70 then Some (n - 65 + 10)
      else None)"

fun hex_code :: "string \<Rightarrow> nat \<Rightarrow> nat option" where
  "hex_code [] code = Some code"
| "hex_code (h # hs) code = (case hex_nibble h of None \<Rightarrow> None | Some d \<Rightarrow> hex_code hs (16 * code + d))"

text \<open>The characters up to the closing quote: \<open>Inl\<close> what was read before giving up, or \<open>Inr\<close> the
  text and the rest of the line.\<close>

function quoted_body :: "string \<Rightarrow> string \<Rightarrow> string + string \<times> string" where
  "quoted_body s out =
     (case s of
        [] \<Rightarrow> Inl out
      | c # s1 \<Rightarrow>
          if c = DQ then Inr (out, s1)
          else if c = BS \<and> s1 \<noteq> [] then
            (let esc = hd s1; s2 = tl s1 in
             if esc = DQ then quoted_body s2 (out @ [DQ])
             else if esc = BS then quoted_body s2 (out @ [BS])
             else if esc = CHR ''n'' then quoted_body s2 (out @ [CHR 0x0A])
             else if esc = CHR ''r'' then quoted_body s2 (out @ [CHR 0x0D])
             else if esc = CHR ''t'' then quoted_body s2 (out @ [TAB])
             else if esc = CHR ''u'' then
               (if length s2 < 4 then Inl out
                else case hex_code (take 4 s2) 0 of
                  None \<Rightarrow> Inl out
                | Some code \<Rightarrow> quoted_body (drop 4 s2) (out @ [if code < 0x80 then char_of code else CHR ''?'']))
             else Inl out)
          else quoted_body s1 (out @ [c]))"
  by pat_completeness auto
termination by (relation "measure (\<lambda>(s, out). length s)") auto

declare quoted_body.simps [simp del]

definition parse_quoted_string :: "string \<Rightarrow> string \<Rightarrow> string + string \<times> string" where
  "parse_quoted_string s out =
     (case consume DQ s of None \<Rightarrow> Inl out | Some s1 \<Rightarrow> quoted_body s1 [])"

definition is_decimal :: "char \<Rightarrow> bool" where
  "is_decimal c \<longleftrightarrow> (48 :: nat) \<le> of_char c \<and> (of_char c :: nat) \<le> 57"

fun int64_digits :: "string \<Rightarrow> u64 \<Rightarrow> u64 \<times> string" where
  "int64_digits [] v = (v, [])"
| "int64_digits (c # s) v =
     (if is_decimal c then int64_digits s (v * 10 + of_nat (of_char c - 48)) else (v, c # s))"

definition parse_int64 :: "string \<Rightarrow> (u64 \<times> string) option" where
  "parse_int64 s =
     (let (negative, s1) = (case consume CHR ''-'' s of None \<Rightarrow> (False, s) | Some r \<Rightarrow> (True, r)) in
      if s1 = [] \<or> \<not> is_decimal (hd s1) then None
      else let (v, rest) = int64_digits s1 0 in Some (if negative then - v else v, rest))"

definition parse_uint32 :: "string \<Rightarrow> (u32 \<times> string) option" where
  "parse_uint32 s =
     (case parse_int64 s of
        None \<Rightarrow> None
      | Some (v, rest) \<Rightarrow> if sint v < 0 then None else Some (ucast v, rest))"

lemma quoted_body_Nil [simp]: "quoted_body [] out = Inl out"
  by (simp add: quoted_body.simps)

lemma quoted_body_shorter: "quoted_body s out = Inr (v, rest) \<Longrightarrow> length rest < length s"
proof (induction "length s" arbitrary: s out rule: less_induct)
  case less
  show ?case
  proof (cases s)
    case Nil
    with less.prems show ?thesis by (simp add: quoted_body.simps)
  next
    case (Cons c s1)
    have IH: "length rest < Suc (length s1)" if "quoted_body s' out' = Inr (v, rest)" "length s' \<le> length s1"
      for s' out'
      using less.hyps [of s' out'] that Cons by simp
    have "length rest < Suc (length s1)"
      if "quoted_body s1 out' = Inr (v, rest) \<or> quoted_body (tl s1) out' = Inr (v, rest) \<or>
        quoted_body (drop 4 (tl s1)) out' = Inr (v, rest)" for out'
      using that IH [of s1] IH [of "tl s1"] IH [of "drop 4 (tl s1)"] by auto
    with less.prems show ?thesis unfolding Cons
      by (simp add: quoted_body.simps [of "c # s1" out] Let_def split: if_splits option.splits) blast+
  qed
qed

lemma parse_quoted_string_shorter: "parse_quoted_string s out = Inr (v, rest) \<Longrightarrow> length rest < length s"
  by (auto simp: parse_quoted_string_def consume_def split: option.splits list.splits if_splits
      dest: quoted_body_shorter)

lemma skip_ws_shorter: "length (skip_ws s) \<le> length s"
  by (simp add: skip_ws_def length_dropWhile_le)

lemma consume_Some: "consume c s = Some rest \<longleftrightarrow> s = c # rest"
  by (auto simp: consume_def split: list.splits if_splits)

text \<open>The \<open>fields\<close> array after its opening bracket: pairs of strings, and the separator optional.
  \<open>Inl\<close> and \<open>Inr\<close> both carry the fields read so far.\<close>

definition parse_field :: "string \<Rightarrow> (string \<times> string) list \<Rightarrow>
    (string \<times> string) list + (string \<times> string) list \<times> string" where
  "parse_field line flds =
     (case consume CHR ''['' line of
        None \<Rightarrow> Inl flds
      | Some l1 \<Rightarrow>
          (case parse_quoted_string l1 [] of
             Inl _ \<Rightarrow> Inl flds
           | Inr (fk, l2) \<Rightarrow>
               (case consume CHR '','' (skip_ws l2) of
                  None \<Rightarrow> Inl flds
                | Some l3 \<Rightarrow>
                    (case parse_quoted_string (skip_ws l3) [] of
                       Inl _ \<Rightarrow> Inl flds
                     | Inr (fv, l4) \<Rightarrow>
                         (case consume CHR '']'' l4 of
                            None \<Rightarrow> Inl flds
                          | Some l5 \<Rightarrow>
                              (case consume CHR '','' (skip_ws l5) of
                                 None \<Rightarrow> Inr (flds @ [(fk, fv)], skip_ws l5)
                               | Some l6 \<Rightarrow> Inr (flds @ [(fk, fv)], skip_ws l6)))))))"

lemma parse_field_shorter:
  assumes "parse_field line flds = Inr (fs, rest)"
  shows "length rest < length line"
proof -
  from assms obtain l1 fk l2 l3 fv l4 l5 where steps: "line = CHR ''['' # l1"
      "parse_quoted_string l1 [] = Inr (fk, l2)" "skip_ws l2 = CHR '','' # l3"
      "parse_quoted_string (skip_ws l3) [] = Inr (fv, l4)" "l4 = CHR '']'' # l5"
      "rest = skip_ws l5 \<or> (\<exists>l6. skip_ws l5 = CHR '','' # l6 \<and> rest = skip_ws l6)"
    by (auto simp: parse_field_def consume_Some split: option.splits sum.splits prod.splits)
  have "length rest \<le> length l5"
    using steps(6)
  proof (elim disjE exE conjE)
    fix l6 assume "skip_ws l5 = CHR '','' # l6" "rest = skip_ws l6"
    then show ?thesis using skip_ws_shorter [of l5] skip_ws_shorter [of l6] by simp
  qed (simp add: skip_ws_shorter)
  then show ?thesis
    using parse_quoted_string_shorter [OF steps(2)] parse_quoted_string_shorter [OF steps(4)]
      skip_ws_shorter [of l2] skip_ws_shorter [of l3] steps(1,3,5) by simp
qed

function parse_fields :: "string \<Rightarrow> (string \<times> string) list \<Rightarrow>
    (string \<times> string) list + (string \<times> string) list \<times> string" where
  "parse_fields line flds =
     (case consume CHR '']'' line of
        Some rest \<Rightarrow> Inr (flds, rest)
      | None \<Rightarrow>
          (case parse_field line flds of
             Inl fs \<Rightarrow> Inl fs
           | Inr (fs, rest) \<Rightarrow> parse_fields rest fs))"
  by pat_completeness auto
termination by (relation "measure (\<lambda>(line, flds). length line)") (auto dest: parse_field_shorter)

declare parse_fields.simps [simp del]

lemma parse_fields_shorter: "parse_fields line flds = Inr (fs, rest) \<Longrightarrow> length rest < length line"
proof (induction "length line" arbitrary: line flds rule: less_induct)
  case less
  show ?case
  proof (cases "consume CHR '']'' line")
    case None
    with less.prems obtain fs1 rest1 where "parse_field line flds = Inr (fs1, rest1)"
        "parse_fields rest1 fs1 = Inr (fs, rest)"
      by (auto simp: parse_fields.simps [of line flds] split: sum.splits)
    with less.hyps [of rest1 fs1] parse_field_shorter [of line flds fs1 rest1] show ?thesis by simp
  next
    case (Some r)
    with less.prems show ?thesis by (simp add: parse_fields.simps [of line flds] consume_Some)
  qed
qed

text \<open>The value of an unknown key: up to the next comma or closing bracket outside nested brackets.\<close>

function skip_value :: "string \<Rightarrow> nat \<Rightarrow> string option" where
  "skip_value line depth =
     (case line of
        [] \<Rightarrow> Some []
      | c # s \<Rightarrow>
          if c = DQ then
            (case parse_quoted_string line [] of Inl _ \<Rightarrow> None | Inr (ignore, rest) \<Rightarrow> skip_value rest depth)
          else
            let depth1 = (if c = CHR ''['' \<or> c = CHR ''{'' then Suc depth else depth) in
            if c = CHR '']'' \<or> c = CHR ''}'' then
              (if depth1 = 0 then Some line else skip_value s (depth1 - 1))
            else if c = CHR '','' \<and> depth1 = 0 then Some line
            else skip_value s depth1)"
  by pat_completeness auto
termination
  by (relation "measure (\<lambda>(line, depth). length line)") (auto dest: parse_quoted_string_shorter)

declare skip_value.simps [simp del]

lemma skip_value_Nil [simp]: "skip_value [] depth = Some []"
  by (simp add: skip_value.simps)

lemma skip_value_shorter: "skip_value line depth = Some rest \<Longrightarrow> length rest \<le> length line"
proof (induction "length line" arbitrary: line depth rule: less_induct)
  case less
  show ?case
  proof (cases line)
    case Nil
    with less.prems show ?thesis by (simp add: skip_value.simps)
  next
    case (Cons c s)
    have IH: "length rest \<le> Suc (length s)" if "skip_value l d = Some rest" "length l \<le> length s" for l d
      using less.hyps [of l d] that Cons by simp
    have quoted: "length r \<le> length s" if "parse_quoted_string (c # s) [] = Inr (v, r)" for v r
      using parse_quoted_string_shorter [OF that] by simp
    show ?thesis
      using less.prems IH [of s] IH quoted unfolding Cons
      by (simp add: skip_value.simps [of "c # s" depth] Let_def split: if_splits sum.splits prod.splits)
         (blast | (hypsubst, simp))+
  qed
qed

text \<open>The value of the member \<open>key\<close>: one branch per key the writer emits. \<open>Inl\<close> is \<open>return false\<close>
  with the entry as filled so far.\<close>

definition parse_text_member ::
    "(string \<Rightarrow> entry \<Rightarrow> entry) \<Rightarrow> string \<Rightarrow> string \<Rightarrow> entry \<Rightarrow> entry + string \<times> entry" where
  "parse_text_member set_text old line e =
     (case parse_quoted_string line old of
        Inl v \<Rightarrow> Inl (set_text v e)
      | Inr (v, rest) \<Rightarrow> Inr (rest, set_text v e))"

definition parse_value :: "string \<Rightarrow> string \<Rightarrow> entry \<Rightarrow> entry + string \<times> entry" where
  "parse_value key line e =
     (if key = ''kind'' then
        (case parse_quoted_string line [] of
           Inl _ \<Rightarrow> Inl e
         | Inr (v, rest) \<Rightarrow> Inr (rest, e\<lparr>en_kind := kind_from_name v\<rparr>))
      else if key = ''ts'' then
        (case parse_int64 line of
           None \<Rightarrow> Inl e
         | Some (v, rest) \<Rightarrow> Inr (rest, e\<lparr>en_timestamp_ns := v\<rparr>))
      else if key = ''source'' then parse_text_member (\<lambda>v. en_source_update (\<lambda>_. v)) (en_source e) line e
      else if key = ''desc'' then
        parse_text_member (\<lambda>v. en_description_update (\<lambda>_. v)) (en_description e) line e
      else if key = ''cid'' then parse_text_member (\<lambda>v. en_cid_update (\<lambda>_. v)) (en_cid e) line e
      else if key = ''vin'' then parse_text_member (\<lambda>v. en_vin_update (\<lambda>_. v)) (en_vin e) line e
      else if key = ''fields'' then
        (case consume CHR ''['' line of
           None \<Rightarrow> Inl e
         | Some l1 \<Rightarrow>
             (case parse_fields (skip_ws l1) (en_fields e) of
                Inl fs \<Rightarrow> Inl (e\<lparr>en_fields := fs\<rparr>)
              | Inr (fs, rest) \<Rightarrow> Inr (rest, e\<lparr>en_fields := fs\<rparr>)))
      else if key = ''checksum'' then
        (case parse_uint32 line of
           None \<Rightarrow> Inl e
         | Some (v, rest) \<Rightarrow> Inr (rest, e\<lparr>en_checksum_on_disk := v\<rparr>))
      else
        (case skip_value line 0 of
           None \<Rightarrow> Inl e
         | Some rest \<Rightarrow> Inr (rest, e)))"

definition parse_member :: "string \<Rightarrow> entry \<Rightarrow> entry + string \<times> entry" where
  "parse_member line e =
     (case parse_quoted_string line [] of
        Inl _ \<Rightarrow> Inl e
      | Inr (key, l1) \<Rightarrow>
          (case consume CHR '':'' (skip_ws l1) of
             None \<Rightarrow> Inl e
           | Some l2 \<Rightarrow>
               (case parse_value key (skip_ws l2) e of
                  Inl e1 \<Rightarrow> Inl e1
                | Inr (l3, e1) \<Rightarrow>
                    (case consume CHR '','' (skip_ws l3) of
                       None \<Rightarrow> Inr (skip_ws l3, e1)
                     | Some l4 \<Rightarrow> Inr (l4, e1)))))"

lemma int64_digits_shorter: "length (snd (int64_digits s v)) \<le> length s"
  by (induction s v rule: int64_digits.induct) auto

lemma parse_int64_shorter: "parse_int64 s = Some (v, rest) \<Longrightarrow> length rest \<le> length s"
  using int64_digits_shorter [of s 0] int64_digits_shorter [of "tl s" 0]
  by (auto simp: parse_int64_def consume_def Let_def split: list.splits if_splits prod.splits)

lemma below_skip_ws: "n < length (skip_ws s) \<Longrightarrow> n \<le> Suc (length s)"
  using skip_ws_shorter [of s] by simp

lemma parse_value_shorter: "parse_value key line e = Inr (rest, e') \<Longrightarrow> length rest \<le> length line"
  by (auto simp: parse_value_def parse_text_member_def parse_uint32_def consume_Some
      split: if_splits sum.splits option.splits prod.splits
      dest!: parse_quoted_string_shorter parse_fields_shorter parse_int64_shorter skip_value_shorter
      dest: below_skip_ws intro: order_trans [OF _ skip_ws_shorter] less_imp_le)

lemma parse_member_shorter:
  assumes "parse_member line e = Inr (rest, e')"
  shows "length rest < length line"
proof -
  from assms obtain key l1 l2 l3 where steps: "parse_quoted_string line [] = Inr (key, l1)"
      "skip_ws l1 = CHR '':'' # l2" "parse_value key (skip_ws l2) e = Inr (l3, e')"
      "rest = skip_ws l3 \<or> skip_ws l3 = CHR '','' # rest"
    by (auto simp: parse_member_def consume_Some split: sum.splits option.splits prod.splits)
  have "length rest \<le> length l3" using steps(4) skip_ws_shorter [of l3] by auto
  also have "\<dots> \<le> length l2"
    using parse_value_shorter [OF steps(3)] skip_ws_shorter [of l2] by simp
  also have "\<dots> < length line"
    using parse_quoted_string_shorter [OF steps(1)] skip_ws_shorter [of l1] steps(2) by simp
  finally show ?thesis .
qed

text \<open>The \<open>while (true)\<close> over the members, until the closing brace; what follows it is ignored.\<close>

function parse_members :: "string \<Rightarrow> entry \<Rightarrow> bool \<times> entry" where
  "parse_members line e =
     (case consume CHR ''}'' (skip_ws line) of
        Some rest \<Rightarrow> (True, e)
      | None \<Rightarrow>
          (case parse_member (skip_ws line) e of
             Inl e' \<Rightarrow> (False, e')
           | Inr (rest, e') \<Rightarrow> parse_members rest e'))"
  by pat_completeness auto
termination
  by (relation "measure (\<lambda>(line, e). length line)")
     (auto dest!: parse_member_shorter intro: less_le_trans [OF _ skip_ws_shorter])

declare parse_members.simps [simp del]

definition parse_entry_line :: "string \<Rightarrow> entry \<Rightarrow> bool \<times> entry" where
  "parse_entry_line line e =
     (case consume CHR ''{'' line of None \<Rightarrow> (False, e) | Some l1 \<Rightarrow> parse_members l1 e)"

end
