(* ===== verification/Audit_Props.thy ===== *)
theory Audit_Props
  imports Audit_Codec
begin

text \<open>
  The audit line format of theory \<open>Audit_Codec\<close> round trips: escaping, numbers, fields, and whole
  entries; and what the checksum notices.
\<close>

section \<open>Quoted text\<close>

lemma hex_nibble_upper: "n < 16 \<Longrightarrow> hex_nibble (hex_digit_upper n) = Some n"
  by (auto simp: hex_nibble_def hex_digit_upper_def Let_def)

lemma hex_code_fixed: "n < 16 ^ k \<Longrightarrow> hex_code (hex_fixed k n @ rest) c = hex_code rest (c * 16 ^ k + n)"
proof (induction k arbitrary: n c rest)
  case (Suc k)
  have "n div 16 < 16 ^ k" using Suc.prems by (simp add: less_mult_imp_div_less)
  then show ?case by (simp add: Suc.IH hex_nibble_upper algebra_simps)
qed simp

lemma length_hex_fixed [simp]: "length (hex_fixed k n) = k"
  by (induction k arbitrary: n) auto

lemma quoted_body_escape:
  "quoted_body (concat (map escape_char s) @ DQ # rest) out = Inr (out @ s, rest)"
proof (induction s arbitrary: out)
  case Nil
  then show ?case by (simp add: quoted_body.simps [of "DQ # rest"])
next
  case (Cons ch s)
  let ?rest = "concat (map escape_char s) @ DQ # rest"
  have IH: "quoted_body ?rest (out @ [ch]) = Inr (out @ ch # s, rest)" by (simp add: Cons.IH)
  have ne: "?rest \<noteq> []" by simp
  consider "ch \<in> {DQ, BS, CHR 0x0A, CHR 0x0D, TAB}" | "ch \<notin> {DQ, BS, CHR 0x0A, CHR 0x0D, TAB}" "(of_char ch :: nat) < 0x20"
    | "ch \<notin> {DQ, BS, CHR 0x0A, CHR 0x0D, TAB}" "\<not> (of_char ch :: nat) < 0x20" by blast
  then show ?case
  proof cases
    case 1
    then obtain e where "escape_char ch = [BS, e]"
      "quoted_body (BS # e # ?rest) out = quoted_body ?rest (out @ [ch])"
      by (auto simp: escape_char_def quoted_body.simps [of "BS # _ # ?rest"])
    with IH show ?thesis by simp
  next
    case 2
    then have "(of_char ch :: nat) < 16 ^ 4" by simp
    then have "hex_code (hex_fixed 4 (of_char ch)) 0 = Some (of_char ch)"
      using hex_code_fixed [of "of_char ch" 4 "[]" 0] by simp
    with 2 have "quoted_body ([BS, CHR ''u''] @ hex_fixed 4 (of_char ch) @ ?rest) out = quoted_body ?rest (out @ [ch])"
      by (simp add: quoted_body.simps [of "BS # _ # _ @ ?rest"] Let_def)
    with IH 2 show ?thesis by (simp add: escape_char_def [of ch])
  next
    case 3
    then have "quoted_body (ch # ?rest) out = quoted_body ?rest (out @ [ch])"
      by (simp add: quoted_body.simps [of "ch # ?rest"])
    with IH 3 show ?thesis by (simp add: escape_char_def [of ch])
  qed
qed

lemma parse_quoted_escape [simp]: "parse_quoted_string (json_escape s @ rest) out = Inr (s, rest)"
  by (simp add: parse_quoted_string_def json_escape_def consume_def quoted_body_escape)

section \<open>Numbers\<close>

lemma dec_string_digits: "list_all is_decimal (dec_string n) \<and> dec_string n \<noteq> []"
proof (induction n rule: dec_string.induct)
  case (1 n)
  have digit: "is_decimal (char_of (48 + d))" if "d < 10" for d :: nat
    using that by (simp add: is_decimal_def)
  show ?case
  proof (cases "n < 10")
    case True
    then show ?thesis by (simp add: dec_string.simps [of n] digit)
  next
    case False
    with 1 show ?thesis by (simp add: dec_string.simps [of n] digit)
  qed
qed

definition add_digit :: "u64 \<Rightarrow> char \<Rightarrow> u64" where
  "add_digit v c = v * 10 + of_nat (of_char c - 48)"

lemma int64_digits_run:
  "list_all is_decimal ds \<Longrightarrow> (case rest of [] \<Rightarrow> True | c # _ \<Rightarrow> \<not> is_decimal c) \<Longrightarrow>
     int64_digits (ds @ rest) v = (foldl add_digit v ds, rest)"
  by (induction ds arbitrary: v) (auto simp: add_digit_def split: list.splits)

lemma foldl_dec_string: "foldl add_digit 0 (dec_string n) = of_nat n"
proof (induction n rule: dec_string.induct)
  case (1 n)
  have digit: "add_digit v (char_of (48 + d)) = v * 10 + of_nat d" if "d < 10" for v and d :: nat
    using that by (simp add: add_digit_def)
  show ?case
  proof (cases "n < 10")
    case True
    then show ?thesis by (simp add: dec_string.simps [of n] digit)
  next
    case False
    have "(of_nat (n div 10 * 10 + n mod 10) :: u64) = of_nat (n div 10) * 10 + of_nat (n mod 10)"
      by (simp only: of_nat_add of_nat_mult of_nat_numeral)
    with 1 [OF False] False show ?thesis
      by (simp add: dec_string.simps [of n] digit)
  qed
qed

definition not_number :: "string \<Rightarrow> bool" where
  "not_number rest = (case rest of [] \<Rightarrow> True | c # _ \<Rightarrow> \<not> is_decimal c)"

lemma int64_digits_dec_string: "not_number rest \<Longrightarrow> int64_digits (dec_string n @ rest) 0 = (of_nat n, rest)"
  using dec_string_digits [of n] by (simp add: int64_digits_run not_number_def foldl_dec_string)

lemma dec_string_hd: "\<exists>d ds. dec_string n = d # ds \<and> is_decimal d"
  using dec_string_digits [of n] by (cases "dec_string n") auto

lemma not_decimal [simp]: "\<not> is_decimal CHR ''-''" "\<not> is_decimal CHR '',''" "\<not> is_decimal CHR ''}''"
  by (simp_all add: is_decimal_def)

lemma parse_int64_dec_string: "not_number rest \<Longrightarrow> parse_int64 (dec_string n @ rest) = Some (of_nat n, rest)"
proof -
  assume rest: "not_number rest"
  obtain d ds where d: "dec_string n = d # ds" "is_decimal d" using dec_string_hd by blast
  then have "d \<noteq> CHR ''-''" by auto
  with d int64_digits_dec_string [OF rest, of n] show ?thesis
    by (simp add: parse_int64_def consume_def)
qed

lemma parse_int64_to_string: "not_number rest \<Longrightarrow> parse_int64 (to_string_i64 v @ rest) = Some (v, rest)"
proof (cases "sint v < 0")
  case True
  assume rest: "not_number rest"
  obtain d ds where d: "dec_string (nat (- sint v)) = d # ds" "is_decimal d" using dec_string_hd by blast
  have "(of_nat (nat (- sint v)) :: u64) = of_int (- sint v)" using True by simp
  also have "\<dots> = - v" by simp
  finally show ?thesis
    using True d int64_digits_dec_string [OF rest, of "nat (- sint v)"]
    by (simp add: to_string_i64_def parse_int64_def consume_def)
next
  case False
  assume rest: "not_number rest"
  from False have "(of_nat (nat (sint v)) :: u64) = v" by simp
  with False parse_int64_dec_string [OF rest, of "nat (sint v)"] show ?thesis
    by (simp add: to_string_i64_def)
qed

lemma parse_uint32_dec_string:
  assumes "not_number rest"
  shows "parse_uint32 (dec_string (unat (c :: u32)) @ rest) = Some (c, rest)"
proof -
  have small: "unat c < 2 ^ 32" using unsigned_less [of c] by simp
  then have "(of_nat (unat c) :: u64) = ucast c" by simp
  moreover have "0 \<le> sint (ucast c :: u64)"
    by (auto simp: sint_uint signed_take_bit_nonnegative_iff bit_uint_iff bit_ucast_iff dest: bit_imp_le_length)
  moreover have "(ucast (ucast c :: u64) :: u32) = c"
    by (rule bit_word_eqI) (auto simp: bit_ucast_iff)
  ultimately show ?thesis
    by (simp add: parse_uint32_def parse_int64_dec_string [OF assms])
qed

section \<open>Members and entries\<close>

lemma json_escape_Cons: "json_escape s = DQ # concat (map escape_char s) @ [DQ]"
  by (simp add: json_escape_def)

lemma skip_ws_Cons [simp]: "c \<noteq> CHR '' '' \<Longrightarrow> c \<noteq> TAB \<Longrightarrow> skip_ws (c # s) = c # s"
  by (simp add: skip_ws_def)

lemma consume_Cons [simp]: "consume c (d # s) = (if d = c then Some s else None)"
  by (simp add: consume_def)

lemma skip_ws_escape [simp]: "skip_ws (json_escape s @ rest) = json_escape s @ rest"
  by (simp add: json_escape_Cons)

lemma parse_field_serialized:
  "parse_field (''['' @ json_escape k @ '','' @ json_escape v @ '']'' @ rest) flds =
     Inr (flds @ [(k, v)],
       case skip_ws rest of [] \<Rightarrow> [] | c # s \<Rightarrow> if c = CHR '','' then skip_ws s else c # s)"
  by (simp add: parse_field_def consume_def split: list.splits)

lemma parse_fields_serialized:
  "parse_fields (serialize_fields fs @ '']'' @ rest) flds = Inr (flds @ fs, rest)"
proof (induction fs arbitrary: flds rule: serialize_fields.induct)
  case 1
  then show ?case by (simp add: parse_fields.simps)
next
  case (2 k v)
  have "parse_fields (serialize_fields [(k, v)] @ '']'' @ rest) flds = parse_fields ('']'' @ rest) (flds @ [(k, v)])"
    using parse_field_serialized [of k v "'']'' @ rest" flds]
    by (subst parse_fields.simps) simp
  then show ?case by (simp add: parse_fields.simps)
next
  case (3 k v f fs)
  have start: "\<exists>s. serialize_fields (f # fs) = CHR ''['' # s"
    by (cases "f # fs" rule: serialize_fields.cases) auto
  then have "skip_ws (serialize_fields (f # fs) @ '']'' @ rest) = serialize_fields (f # fs) @ '']'' @ rest"
    by auto
  then have "parse_fields (serialize_fields ((k, v) # f # fs) @ '']'' @ rest) flds =
      parse_fields (serialize_fields (f # fs) @ '']'' @ rest) (flds @ [(k, v)])"
    using parse_field_serialized [of k v "'','' @ serialize_fields (f # fs) @ '']'' @ rest" flds]
    by (subst parse_fields.simps) simp
  with 3 show ?case by simp
qed

lemma serialized_not_ws: "skip_ws (serialize_fields fs @ '']'' @ rest) = serialize_fields fs @ '']'' @ rest"
  by (cases fs rule: serialize_fields.cases) auto

text \<open>A key none of whose characters needs escaping, its value, and what follows.\<close>

definition plain_key :: "string \<Rightarrow> bool" where
  "plain_key k \<longleftrightarrow> concat (map escape_char k) = k"

lemma parse_members_member:
  assumes "plain_key k" "skip_ws (val @ rest) = val @ rest"
    and "parse_value k (val @ rest) e = Inr (rest, e')"
  shows "parse_members (json_key k @ val @ rest) e =
    parse_members (case skip_ws rest of [] \<Rightarrow> [] | c # s \<Rightarrow> if c = CHR '','' then s else c # s) e'"
proof -
  have key: "json_key k @ val @ rest = json_escape k @ CHR '':'' # val @ rest"
    using assms(1) by (simp add: json_key_def json_escape_def plain_key_def)
  have "parse_member (json_key k @ val @ rest) e =
      Inr (case skip_ws rest of [] \<Rightarrow> [] | c # s \<Rightarrow> if c = CHR '','' then s else c # s, e')"
    unfolding key using assms(2,3)
    by (simp add: parse_member_def consume_def split: list.splits)
  then show ?thesis
    by (subst parse_members.simps) (simp add: json_key_def)
qed

lemmas parse_members_comma = parse_members_member [where rest = "CHR '','' # rest" for rest, simplified]
lemmas parse_members_last = parse_members_member [where rest = "''}''", simplified]

lemma parse_members_end [simp]: "parse_members (CHR ''}'' # rest) e = (True, e)"
  by (simp add: parse_members.simps)

lemma plain_keys [simp]:
  "plain_key ''kind''" "plain_key ''ts''" "plain_key ''source''" "plain_key ''desc''" "plain_key ''cid''"
  "plain_key ''vin''" "plain_key ''fields''" "plain_key ''checksum''"
  by (simp_all add: plain_key_def escape_char_def)

lemma kind_from_name_kind_name [simp]: "kind_from_name (kind_name k) = k"
  by (cases k) (simp_all add: kind_from_name_def kind_name_def kKindNames_def)

lemma not_number_separators [simp]: "not_number (CHR '','' # rest)" "not_number (CHR ''}'' # rest)"
  by (simp_all add: not_number_def)

lemma decimal_not_ws: "is_decimal d \<Longrightarrow> skip_ws (d # s) = d # s"
  by (rule skip_ws_Cons) (auto simp: is_decimal_def)

lemma dec_string_not_ws: "skip_ws (dec_string n @ rest) = dec_string n @ rest"
  using dec_string_hd [of n] by (auto simp: decimal_not_ws)

lemma to_string_i64_not_ws: "skip_ws (to_string_i64 v @ rest) = to_string_i64 v @ rest"
  by (simp add: to_string_i64_def dec_string_not_ws)

lemma parse_members_text:
  "parse_members (json_key ''source'' @ json_escape v @ CHR '','' # rest) e = parse_members rest (e\<lparr>en_source := v\<rparr>)"
  "parse_members (json_key ''desc'' @ json_escape v @ CHR '','' # rest) e = parse_members rest (e\<lparr>en_description := v\<rparr>)"
  "parse_members (json_key ''cid'' @ json_escape v @ CHR '','' # rest) e = parse_members rest (e\<lparr>en_cid := v\<rparr>)"
  "parse_members (json_key ''vin'' @ json_escape v @ CHR '','' # rest) e = parse_members rest (e\<lparr>en_vin := v\<rparr>)"
  "parse_members (json_key ''kind'' @ json_escape v @ CHR '','' # rest) e =
     parse_members rest (e\<lparr>en_kind := kind_from_name v\<rparr>)"
  by (rule parse_members_comma; simp add: parse_value_def parse_text_member_def)+

lemma parse_members_ts:
  "parse_members (json_key ''ts'' @ to_string_i64 v @ CHR '','' # rest) e = parse_members rest (e\<lparr>en_timestamp_ns := v\<rparr>)"
  by (rule parse_members_comma)
     (simp_all add: parse_value_def parse_int64_to_string to_string_i64_not_ws)

lemma parse_members_fields:
  "parse_members (json_key ''fields'' @ CHR ''['' # serialize_fields fs @ CHR '']'' # CHR '','' # rest) e =
     parse_members rest (e\<lparr>en_fields := en_fields e @ fs\<rparr>)"
  using parse_members_comma [of "''fields''" "CHR ''['' # serialize_fields fs @ '']''" rest e
      "e\<lparr>en_fields := en_fields e @ fs\<rparr>"]
    parse_fields_serialized [of fs "CHR '','' # rest" "en_fields e"] serialized_not_ws [of fs "CHR '','' # rest"]
  by (simp add: parse_value_def)

lemma parse_members_checksum:
  "parse_members (json_key ''checksum'' @ dec_string (unat c) @ ''}'') e = (True, e\<lparr>en_checksum_on_disk := c\<rparr>)"
  using parse_members_last [of "''checksum''" "dec_string (unat c)" e "e\<lparr>en_checksum_on_disk := c\<rparr>"]
  by (simp add: parse_value_def parse_uint32_dec_string dec_string_not_ws)

text \<open>A line as the writer lays it out, with any number in the place of the checksum.\<close>

definition line_with :: "entry \<Rightarrow> u32 \<Rightarrow> string" where
  "line_with e c = serialize_for_checksum e @ '','' @ json_key ''checksum'' @ dec_string (unat c) @ ''}''"

lemma serialize_entry_line: "serialize_entry e = line_with e (entry_checksum e)"
  by (simp add: serialize_entry_def line_with_def)

lemma parse_line_with:
  "parse_entry_line (line_with e c) blank_entry =
     (True, e\<lparr>en_checksum_valid := True, en_checksum_on_disk := c\<rparr>)"
  unfolding line_with_def serialize_for_checksum_def parse_entry_line_def
  by (cases "en_cid e = []"; cases "en_vin e = []")
     (simp_all add: parse_members_text parse_members_ts parse_members_fields parse_members_checksum
        blank_entry_def)

end
