(* ===== verification/Audit_Log.thy ===== *)
theory Audit_Log
  imports Audit_Props
begin

text \<open>
  \<open>AuditLog\<close> of \<open>src/audit/src/audit.cpp\<close>: open, append (with default identities and the tee into a
  per-vehicle file) and the readers. The disk is a map from paths to contents with, per path,
  whether it can be opened for appending and how many bytes still fit; the clock is an argument.
\<close>

section \<open>The disk\<close>

record disk =
  dk_files :: "string \<Rightarrow> string option"
  dk_openable :: "string \<Rightarrow> bool"
  dk_mkdir_ok :: "string \<Rightarrow> bool"
  dk_room :: "string \<Rightarrow> nat"

definition contents :: "disk \<Rightarrow> string \<Rightarrow> string" where
  "contents d p = (case dk_files d p of None \<Rightarrow> [] | Some s \<Rightarrow> s)"

text \<open>Opening in append mode creates a missing file.\<close>

definition disk_open :: "disk \<Rightarrow> string \<Rightarrow> disk option" where
  "disk_open d p = (if dk_openable d p then Some (d\<lparr>dk_files := (dk_files d)(p \<mapsto> contents d p)\<rparr>) else None)"

text \<open>A write that does not fit leaves the bytes that did, and fails.\<close>

definition disk_write :: "disk \<Rightarrow> string \<Rightarrow> string \<Rightarrow> bool \<times> disk" where
  "disk_write d p txt =
     (length txt \<le> dk_room d p,
      d\<lparr>dk_files := (dk_files d)(p \<mapsto> contents d p @ take (dk_room d p) txt),
        dk_room := (dk_room d)(p := dk_room d p - length txt)\<rparr>)"

section \<open>The log\<close>

record log_handle =
  lh_path :: string
  lh_good :: bool
  lh_default_cid :: string
  lh_default_vin :: string
  lh_per_cid_dir :: string

abbreviation newline :: char where "newline \<equiv> CHR 0x0A"

definition path_join :: "string \<Rightarrow> string \<Rightarrow> string" where
  "path_join dir name = (if dir = [] \<or> last dir = CHR ''/'' then dir @ name else dir @ ''/'' @ name)"

definition cid_char_ok :: "char \<Rightarrow> bool" where
  "cid_char_ok ch =
     (let c = of_char ch :: nat in
      (65 \<le> c \<and> c \<le> 90) \<or> (97 \<le> c \<and> c \<le> 122) \<or> (48 \<le> c \<and> c \<le> 57) \<or>
      ch = CHR ''.'' \<or> ch = CHR ''_'' \<or> ch = CHR ''-'')"

definition sanitize_cid :: "string \<Rightarrow> string" where
  "sanitize_cid cid = map (\<lambda>c. if cid_char_ok c then c else CHR ''_'') cid"

definition per_cid_log_path :: "string \<Rightarrow> string \<Rightarrow> string" where
  "per_cid_log_path dir cid = (if cid = [] then [] else path_join dir (sanitize_cid cid @ ''.log''))"

definition audit_open :: "disk \<Rightarrow> string \<Rightarrow> log_handle result \<times> disk" where
  "audit_open d path =
     (case disk_open d path of
        None \<Rightarrow> (failure IoFailure (''AuditLog::open: cannot open '' @ path), d)
      | Some d' \<Rightarrow> (Inr \<lparr>lh_path = path, lh_good = True, lh_default_cid = [], lh_default_vin = [],
                       lh_per_cid_dir = []\<rparr>, d'))"

text \<open>What \<open>append\<close> fills in: the time, and the identities an entry leaves open.\<close>

definition stamp :: "log_handle \<Rightarrow> u64 \<Rightarrow> entry \<Rightarrow> entry" where
  "stamp h now e =
     (let e1 = (if en_timestamp_ns e = 0 then e\<lparr>en_timestamp_ns := now\<rparr> else e);
          e2 = (if en_cid e1 = [] then e1\<lparr>en_cid := lh_default_cid h\<rparr> else e1) in
      if en_vin e2 = [] then e2\<lparr>en_vin := lh_default_vin h\<rparr> else e2)"

definition tee_per_cid :: "log_handle \<Rightarrow> disk \<Rightarrow> entry \<Rightarrow> string \<Rightarrow> status \<times> disk" where
  "tee_per_cid h d e line =
     (if lh_per_cid_dir h \<noteq> [] \<and> en_cid e \<noteq> [] then
        if \<not> dk_mkdir_ok d (lh_per_cid_dir h) then
          (failure IoFailure (''AuditLog::append: cannot create per-CID dir '' @ lh_per_cid_dir h), d)
        else
          let sink_path = per_cid_log_path (lh_per_cid_dir h) (en_cid e) in
          (case disk_open d sink_path of
             None \<Rightarrow> (failure IoFailure (''AuditLog::append: cannot open per-CID sink '' @ sink_path), d)
           | Some d1 \<Rightarrow>
               (case disk_write d1 sink_path (line @ [newline]) of
                  (good, d2) \<Rightarrow>
                    (if good then ok else failure IoFailure (''AuditLog::append: per-CID sink write failed''), d2)))
      else (ok, d))"

definition audit_append :: "log_handle \<Rightarrow> disk \<Rightarrow> u64 \<Rightarrow> entry \<Rightarrow> status \<times> log_handle \<times> disk" where
  "audit_append h d now e0 =
     (let e = stamp h now e0;
          line = serialize_entry e;
          (good, d1) = (if lh_good h then disk_write d (lh_path h) (line @ [newline]) else (False, d));
          h1 = h\<lparr>lh_good := good\<rparr> in
      if \<not> good then (failure IoFailure ''AuditLog::append: write failed'', h1, d1)
      else (case tee_per_cid h d1 e line of (r, d2) \<Rightarrow> (r, h1, d2)))"

definition audit_log :: "log_handle \<Rightarrow> disk \<Rightarrow> u64 \<Rightarrow> entry_kind \<Rightarrow> string \<Rightarrow> string \<Rightarrow>
    (string \<times> string) list \<Rightarrow> status \<times> log_handle \<times> disk" where
  "audit_log h d now kind source description flds =
     audit_append h d now
       (blank_entry\<lparr>en_kind := kind, en_source := source, en_description := description, en_fields := flds\<rparr>)"

definition append_with_per_cid :: "log_handle \<Rightarrow> disk \<Rightarrow> u64 \<Rightarrow> string \<Rightarrow> entry \<Rightarrow> status \<times> log_handle \<times> disk" where
  "append_with_per_cid h d now per_cid_dir e =
     (case audit_append (h\<lparr>lh_per_cid_dir := per_cid_dir\<rparr>) d now e of
        (r, h', d') \<Rightarrow> (r, h'\<lparr>lh_per_cid_dir := lh_per_cid_dir h\<rparr>, d'))"

section \<open>Reading\<close>

text \<open>The lines \<open>std::getline\<close> delivers: a last line without a newline counts if it is not empty.\<close>

function getlines :: "string \<Rightarrow> string list" where
  "getlines s =
     (if s = [] then []
      else takeWhile (\<lambda>c. c \<noteq> newline) s # getlines (drop (Suc (length (takeWhile (\<lambda>c. c \<noteq> newline) s))) s))"
  by pat_completeness auto
termination by (relation "measure length") auto

declare getlines.simps [simp del]

definition strip_cr :: "string \<Rightarrow> string" where
  "strip_cr line = (if line \<noteq> [] \<and> last line = CHR 0x0D then butlast line else line)"

definition read_entry :: "string \<Rightarrow> entry" where
  "read_entry line =
     (case parse_entry_line line blank_entry of
        (False, e) \<Rightarrow> e\<lparr>en_kind := Custom,
                        en_description := ''<<unparseable: '' @ line @ ''>>'',
                        en_checksum_valid := False\<rparr>
      | (True, e) \<Rightarrow> e\<lparr>en_checksum_valid := (entry_checksum e = en_checksum_on_disk e)\<rparr>)"

definition read_entries :: "string \<Rightarrow> entry list" where
  "read_entries content =
     map read_entry (filter (\<lambda>line. line \<noteq> []) (map strip_cr (getlines content)))"

definition audit_read_all :: "disk \<Rightarrow> string \<Rightarrow> entry list result" where
  "audit_read_all d path =
     (case dk_files d path of
        None \<Rightarrow> failure IoFailure (''audit::read_all: cannot open '' @ path)
      | Some content \<Rightarrow> Inr (read_entries content))"

definition read_per_cid :: "disk \<Rightarrow> string \<Rightarrow> string \<Rightarrow> entry list result" where
  "read_per_cid d per_cid_dir cid =
     (if cid = [] then Inr []
      else let path = per_cid_log_path per_cid_dir cid in
        if dk_files d path = None then Inr [] else audit_read_all d path)"

section \<open>Lines\<close>

lemma escape_char_no_newline: "newline \<notin> set (escape_char ch)"
proof -
  have "list_all (\<lambda>d. newline \<noteq> hex_digit_upper d) [0..<16]" by code_simp
  then have "newline \<noteq> hex_digit_upper (n mod 16)" for n by (simp add: list_all_iff)
  then have hex: "newline \<notin> set (hex_fixed k n)" for k n
    by (induction k arbitrary: n) simp_all
  show ?thesis by (auto simp: escape_char_def hex)
qed

lemma json_escape_no_newline: "newline \<notin> set (json_escape s)"
  using escape_char_no_newline by (auto simp: json_escape_def)

lemma dec_string_no_newline: "newline \<notin> set (dec_string n)"
  using dec_string_digits [of n] by (auto simp: list_all_iff is_decimal_def)

lemma serialize_fields_no_newline: "newline \<notin> set (serialize_fields fs)"
  by (induction fs rule: serialize_fields.induct) (auto simp: json_escape_no_newline)

lemma line_with_no_newline: "newline \<notin> set (line_with e c)"
  by (simp add: line_with_def serialize_for_checksum_def json_key_def to_string_i64_def
      json_escape_no_newline dec_string_no_newline serialize_fields_no_newline)

lemma getlines_Nil [simp]: "getlines [] = []"
  by (simp add: getlines.simps)

lemma getlines_line: "newline \<notin> set l \<Longrightarrow> getlines (l @ newline # s) = l # getlines s"
proof -
  assume "newline \<notin> set l"
  then have "takeWhile (\<lambda>c. c \<noteq> newline) (l @ newline # s) = l"
    by (auto simp: takeWhile_append)
  then show ?thesis by (simp add: getlines.simps [of "l @ newline # s"])
qed

lemma getlines_last: "newline \<notin> set l \<Longrightarrow> l \<noteq> [] \<Longrightarrow> getlines l = [l]"
proof -
  assume "newline \<notin> set l" "l \<noteq> []"
  moreover from this have tw: "takeWhile (\<lambda>c. c \<noteq> newline) l = l" by (auto simp: takeWhile_eq_all_conv)
  ultimately show ?thesis by (subst getlines.simps, simp only: tw) simp
qed

text \<open>A content splits at any newline.\<close>

lemma first_newline:
  assumes "newline \<in> set s"
  obtains l r where "s = l @ newline # r" "newline \<notin> set l"
  using assms by (metis split_list_first)

lemma getlines_append: "getlines ((s @ [newline]) @ t) = getlines (s @ [newline]) @ getlines t"
proof (induction "length s" arbitrary: s rule: less_induct)
  case less
  show ?case
  proof (cases "newline \<in> set s")
    case True
    then obtain l r where s: "s = l @ newline # r" "newline \<notin> set l" by (rule first_newline)
    then have "getlines ((r @ [newline]) @ t) = getlines (r @ [newline]) @ getlines t"
      by (intro less) simp
    then show ?thesis using s by (simp add: getlines_line)
  next
    case False
    then show ?thesis using getlines_line [of s t] getlines_line [of s "[]"] by simp
  qed
qed

text \<open>A content every line of which is ended.\<close>

definition complete :: "string \<Rightarrow> bool" where
  "complete s \<longleftrightarrow> s = [] \<or> last s = newline"

lemma getlines_complete: "complete s \<Longrightarrow> getlines (s @ t) = getlines s @ getlines t"
  using getlines_append [of "butlast s" t]
  by (cases "s = []") (simp, metis complete_def append_butlast_last_id)

definition stored :: "entry \<Rightarrow> entry" where
  "stored e = e\<lparr>en_checksum_valid := True, en_checksum_on_disk := entry_checksum e\<rparr>"

lemma entry_checksum_reader_fields [simp]:
  "entry_checksum (e\<lparr>en_checksum_valid := b, en_checksum_on_disk := c\<rparr>) = entry_checksum e"
  "entry_checksum (e\<lparr>en_checksum_valid := b\<rparr>) = entry_checksum e"
  by (simp_all add: entry_checksum_def serialize_for_checksum_def)

lemma read_line_with:
  "read_entry (line_with e c) = e\<lparr>en_checksum_valid := (entry_checksum e = c), en_checksum_on_disk := c\<rparr>"
  by (simp add: read_entry_def parse_line_with)

lemma strip_line_with [simp]: "strip_cr (line_with e c) = line_with e c"
  by (simp add: strip_cr_def line_with_def)

lemma line_with_not_Nil [simp]: "line_with e c \<noteq> []"
  by (simp add: line_with_def)

lemma read_entries_line:
  "complete s \<Longrightarrow> read_entries (s @ line_with e c @ [newline]) = read_entries s @ [read_entry (line_with e c)]"
  using getlines_line [OF line_with_no_newline, of e c "[]"]
  by (simp add: read_entries_def getlines_complete)

lemma complete_line [simp]: "complete (s @ [newline])" "complete (s @ t @ [newline])"
  by (simp_all add: complete_def)

lemma read_entries_Nil [simp]: "read_entries [] = []"
  by (simp add: read_entries_def)

text \<open>An unended content: the next line becomes part of its last one.\<close>

lemma getlines_torn:
  assumes "s \<noteq> []" "last s \<noteq> newline" "newline \<notin> set l"
  shows "\<exists>ls p. getlines s = ls @ [p] \<and> getlines (s @ l @ [newline]) = ls @ [p @ l] \<and> p \<noteq> [] \<and> last p = last s"
  using assms(1,2)
proof (induction "length s" arbitrary: s rule: less_induct)
  case less
  show ?case
  proof (cases "newline \<in> set s")
    case True
    then obtain k r where s: "s = k @ newline # r" "newline \<notin> set k" by (rule first_newline)
    with less.prems have r: "r \<noteq> []" "last r \<noteq> newline" "last r = last s" by (auto split: if_splits)
    have "length r < length s" by (simp add: s(1))
    from less.hyps [OF this r(1,2)] obtain ls p where
        "getlines r = ls @ [p]" "getlines (r @ l @ [newline]) = ls @ [p @ l]" "p \<noteq> []" "last p = last r"
      by blast
    then show ?thesis
      using getlines_line [OF s(2), of r] getlines_line [OF s(2), of "r @ l @ [newline]"] r(3)
      by (intro exI [of _ "k # ls"] exI [of _ p]) (simp add: s(1))
  next
    case False
    with less.prems assms(3) have "getlines s = [s]" "getlines ((s @ l) @ newline # []) = [s @ l]"
      by (simp_all add: getlines_last getlines_line del: append_assoc)
    with less.prems show ?thesis
      by (intro exI [of _ "[]"] exI [of _ s]) simp
  qed
qed

section \<open>Appending\<close>

lemma contents_disk_write [simp]:
  "contents (snd (disk_write d p txt)) q = (if q = p then contents d p @ take (dk_room d p) txt else contents d q)"
  by (simp add: disk_write_def contents_def)

lemma disk_write_fits: "fst (disk_write d p txt) \<Longrightarrow> contents (snd (disk_write d p txt)) p = contents d p @ txt"
  by (simp add: disk_write_def contents_def)

lemma contents_disk_open: "disk_open d p = Some d' \<Longrightarrow> contents d' q = contents d q"
  by (auto simp: disk_open_def contents_def split: if_splits)

lemma disk_open_other: "disk_open d p = Some d' \<Longrightarrow> q \<noteq> p \<Longrightarrow> dk_files d' q = dk_files d q"
  by (auto simp: disk_open_def split: if_splits)

lemma disk_write_other: "q \<noteq> p \<Longrightarrow> dk_files (snd (disk_write d p txt)) q = dk_files d q"
  by (simp add: disk_write_def)

lemma audit_read_all_written:
  assumes "dk_files d p \<noteq> None" "complete s" "contents d p = s @ serialize_entry e @ [newline]"
  shows "audit_read_all d p = Inr (read_entries s @ [stored e])"
proof -
  have "dk_files d p = Some (s @ serialize_entry e @ [newline])"
    using assms(1,3) by (cases "dk_files d p") (auto simp: contents_def)
  then show ?thesis
    using read_entries_line [OF assms(2), of e "entry_checksum e"]
    by (simp add: audit_read_all_def serialize_entry_line read_line_with stored_def)
qed

text \<open>The tee leaves every other file alone and, when it succeeds, adds the line to its own.\<close>

lemma tee_per_cid_other:
  assumes "tee_per_cid h d e line = (r, d')" "q \<noteq> per_cid_log_path (lh_per_cid_dir h) (en_cid e)"
  shows "dk_files d' q = dk_files d q"
proof -
  let ?sink = "per_cid_log_path (lh_per_cid_dir h) (en_cid e)"
  consider "d' = d" | d1 where "disk_open d ?sink = Some d1" "d' = snd (disk_write d1 ?sink (line @ [newline]))"
  proof (cases "disk_open d ?sink")
    case None
    with assms(1) that(1) show ?thesis by (simp add: tee_per_cid_def Let_def split: if_splits)
  next
    case (Some d1)
    obtain good d2 where "disk_write d1 ?sink (line @ [newline]) = (good, d2)" by fastforce
    with assms(1) Some that show ?thesis by (simp add: tee_per_cid_def Let_def split: if_splits)
  qed
  then show ?thesis
  proof cases
    case 2
    then show ?thesis using disk_open_other [OF 2(1) assms(2)] disk_write_other [OF assms(2)] by simp
  qed simp
qed

lemma tee_per_cid_sink:
  assumes "tee_per_cid h d e line = (ok, d')" "lh_per_cid_dir h \<noteq> []" "en_cid e \<noteq> []"
  shows "dk_files d' (per_cid_log_path (lh_per_cid_dir h) (en_cid e)) =
    Some (contents d (per_cid_log_path (lh_per_cid_dir h) (en_cid e)) @ line @ [newline])"
proof -
  let ?sink = "per_cid_log_path (lh_per_cid_dir h) (en_cid e)"
  obtain d1 where opened: "disk_open d ?sink = Some d1"
    using assms by (cases "disk_open d ?sink") (simp_all add: tee_per_cid_def Let_def failure_def split: if_splits)
  obtain good d2 where w: "disk_write d1 ?sink (line @ [newline]) = (good, d2)" by fastforce
  have "good" "d' = d2"
    using assms w opened by (simp_all add: tee_per_cid_def Let_def failure_def split: if_splits)
  then have good: "fst (disk_write d1 ?sink (line @ [newline]))"
    and d': "d' = snd (disk_write d1 ?sink (line @ [newline]))"
    by (simp_all only: w fst_conv snd_conv)
  have "contents d' ?sink = contents d ?sink @ line @ [newline]"
    unfolding d' disk_write_fits [OF good] contents_disk_open [OF opened] ..
  moreover have "dk_files d' ?sink \<noteq> None" by (simp add: d' disk_write_def)
  ultimately show ?thesis by (cases "dk_files d' ?sink") (simp_all add: contents_def)
qed

lemma of_char_u8_inj: "(of_char a :: u8) = of_char b \<Longrightarrow> a = b"
proof -
  assume "(of_char a :: u8) = of_char b"
  then have "(of_nat (of_char a) :: u8) = of_nat (of_char b)" by (simp only: of_nat_of_char)
  then have "take_bit 8 (of_char a :: nat) = take_bit 8 (of_char b)" by (simp only: word_of_nat_eq_iff) simp
  then show ?thesis by (simp add: take_bit_eq_mod)
qed

section \<open>Properties\<close>

text \<open>C29: The audit log round trips: whatever the entries hold (quotes, control characters, any
  timestamp, empty or missing identities, any fields), the file written for them reads back as
  the same entries in order, each with its checksum found valid.\<close>

theorem audit_log_roundtrip:
  "read_entries (concat (map (\<lambda>e. serialize_entry e @ [newline]) es)) = map stored es"
proof -
  let ?file = "\<lambda>es. concat (map (\<lambda>e. serialize_entry e @ [newline]) es)"
  have "complete (?file es)" for es
    by (cases es rule: rev_cases) (simp_all add: complete_def)
  then show ?thesis
    by (induction es rule: rev_induct)
       (simp_all add: serialize_entry_line read_entries_line read_line_with stored_def)
qed

text \<open>C35: \<open>append\<close> is durable and the tee does not endanger it, as long as no earlier write was torn: the log
  is empty or ends with a newline, and the sink of the entry's calibration is another file than the log. If then the project
  log's write went through, then (even when the per-vehicle tee failed) the log reads back as before plus the
  entry with its time and identities filled in, and ends with a newline again; if moreover the append reports success, a sink
  is configured, the entry names a calibration and the sink's file was empty or ended with a newline too, that sink reads back
  as before plus the entry. A file whose last line is torn is excluded: there the next entry
  is joined to the torn line and lost, see \<open>audit_append_after_torn_line\<close>.\<close>

theorem audit_append_durable:
  assumes "audit_append h d now e = (r, h', d')" "lh_good h'"
    and "complete (contents d (lh_path h))"
    and "per_cid_log_path (lh_per_cid_dir h) (en_cid (stamp h now e)) \<noteq> lh_path h"
  shows "audit_read_all d' (lh_path h) =
      Inr (read_entries (contents d (lh_path h)) @ [stored (stamp h now e)]) \<and>
    complete (contents d' (lh_path h)) \<and>
    (r = ok \<and> lh_per_cid_dir h \<noteq> [] \<and> en_cid (stamp h now e) \<noteq> [] \<and>
       complete (contents d (per_cid_log_path (lh_per_cid_dir h) (en_cid (stamp h now e)))) \<longrightarrow>
     read_per_cid d' (lh_per_cid_dir h) (en_cid (stamp h now e)) =
       Inr (read_entries (contents d (per_cid_log_path (lh_per_cid_dir h) (en_cid (stamp h now e)))) @
            [stored (stamp h now e)]))"
proof -
  let ?e = "stamp h now e" and ?p = "lh_path h"
  let ?line = "serialize_entry ?e" and ?sink = "per_cid_log_path (lh_per_cid_dir h) (en_cid ?e)"
  obtain good d1 where w: "disk_write d ?p (?line @ [newline]) = (good, d1)" by fastforce
  have good: "lh_good h" "good" and tee': "tee_per_cid h d1 ?e ?line = (r, d')"
    using assms(1,2) w by (auto simp: audit_append_def Let_def failure_def split: if_splits prod.splits)
  have d1: "contents d1 ?p = contents d ?p @ ?line @ [newline]" "dk_files d1 ?p \<noteq> None"
      "contents d1 ?sink = contents d ?sink"
    using disk_write_fits [of d ?p "?line @ [newline]"] w good(2) assms(4)
    by (auto simp: disk_write_def contents_def)
  have same: "dk_files d' ?p = dk_files d1 ?p"
    by (rule tee_per_cid_other [OF tee']) (use assms(4) in simp)
  then have contents: "contents d' ?p = contents d ?p @ ?line @ [newline]"
    using d1(1) by (simp add: contents_def)
  have "audit_read_all d' ?p = Inr (read_entries (contents d ?p) @ [stored ?e])"
    by (rule audit_read_all_written [OF _ assms(3) contents]) (use same d1(2) in simp)
  moreover have "read_per_cid d' (lh_per_cid_dir h) (en_cid ?e) = Inr (read_entries (contents d ?sink) @ [stored ?e])"
    if "r = ok" "lh_per_cid_dir h \<noteq> []" "en_cid ?e \<noteq> []" "complete (contents d ?sink)"
  proof -
    have files: "dk_files d' ?sink = Some (contents d ?sink @ ?line @ [newline])"
      using tee_per_cid_sink [OF tee' [unfolded that(1)] that(2,3)] by (simp add: d1(3))
    then have "audit_read_all d' ?sink = Inr (read_entries (contents d ?sink) @ [stored ?e])"
      by (intro audit_read_all_written that(4)) (simp_all add: contents_def)
    with files that(3) show ?thesis by (simp add: read_per_cid_def Let_def)
  qed
  ultimately show ?thesis using contents by auto
qed

text \<open>A fresh log on a disk with room, for the witnesses.\<close>

definition roomy_disk :: disk where
  "roomy_disk = \<lparr>dk_files = (\<lambda>p. None), dk_openable = (\<lambda>p. True), dk_mkdir_ok = (\<lambda>p. True),
     dk_room = (\<lambda>p. 4 * length (serialize_entry (blank_entry\<lparr>en_timestamp_ns := 7, en_cid := ''LF79''\<rparr>)) + 4)\<rparr>"

definition demo_log :: log_handle where
  "demo_log = \<lparr>lh_path = ''audit.log'', lh_good = True, lh_default_cid = ''LF79'', lh_default_vin = [],
     lh_per_cid_dir = ''by-cid''\<rparr>"

lemma stamp_demo: "stamp demo_log 7 blank_entry = blank_entry\<lparr>en_timestamp_ns := 7, en_cid := ''LF79''\<rparr>"
  by (simp add: stamp_def demo_log_def blank_entry_def)

lemma per_cid_demo: "per_cid_log_path (lh_per_cid_dir demo_log) ''LF79'' = ''by-cid/LF79.log''"
  by (simp add: per_cid_log_path_def path_join_def sanitize_cid_def cid_char_ok_def demo_log_def)

theorem audit_append_durable_witness:
  "\<exists>h' d'. audit_append demo_log roomy_disk 7 blank_entry = (ok, h', d') \<and>
     audit_read_all d' ''audit.log'' = Inr [stored (blank_entry\<lparr>en_timestamp_ns := 7, en_cid := ''LF79''\<rparr>)]"
proof -
  let ?e = "blank_entry\<lparr>en_timestamp_ns := 7, en_cid := ''LF79''\<rparr>"
  let ?line = "serialize_entry ?e @ [newline]"
  define d1 where "d1 = snd (disk_write roomy_disk ''audit.log'' ?line)"
  have first: "disk_write roomy_disk (lh_path demo_log) ?line = (True, d1)"
    by (simp add: d1_def disk_write_def roomy_disk_def demo_log_def)
  have mkdir: "dk_mkdir_ok d1 p" and openable: "dk_openable d1 p" for p
    by (simp_all add: d1_def disk_write_def roomy_disk_def)
  define d2 where "d2 = the (disk_open d1 ''by-cid/LF79.log'')"
  have opened: "disk_open d1 ''by-cid/LF79.log'' = Some d2"
    by (simp add: d2_def disk_open_def openable)
  have "dk_room d2 ''by-cid/LF79.log'' = dk_room roomy_disk ''by-cid/LF79.log''"
    by (simp add: d2_def disk_open_def openable) (simp add: d1_def disk_write_def)
  then obtain d' where second: "disk_write d2 ''by-cid/LF79.log'' ?line = (True, d')"
    by (simp add: disk_write_def roomy_disk_def)
  have fields: "lh_good demo_log" "lh_per_cid_dir demo_log = ''by-cid''" "demo_log\<lparr>lh_good := True\<rparr> = demo_log"
    by (simp_all add: demo_log_def)
  have run: "audit_append demo_log roomy_disk 7 blank_entry = (ok, demo_log, d')"
    using per_cid_demo second
    by (simp add: audit_append_def tee_per_cid_def stamp_demo first mkdir opened fields Let_def)
  have "complete (contents roomy_disk (lh_path demo_log))"
    by (simp add: complete_def contents_def roomy_disk_def)
  moreover have "per_cid_log_path (lh_per_cid_dir demo_log) (en_cid (stamp demo_log 7 blank_entry)) \<noteq> lh_path demo_log"
    by (simp add: stamp_demo per_cid_demo) (simp add: demo_log_def)
  ultimately have "audit_read_all d' (lh_path demo_log) =
      Inr (read_entries (contents roomy_disk (lh_path demo_log)) @ [stored (stamp demo_log 7 blank_entry)])"
    using audit_append_durable [OF run] by (simp add: demo_log_def)
  then show ?thesis
    using run by (simp add: stamp_demo contents_def roomy_disk_def) (simp add: demo_log_def)
qed

text \<open>A torn line takes the next entry with it. If an earlier crash or full disk left a log without
  a final newline (and not ending in a carriage return), the next successful append joins the
  torn line: the log reads back with as many entries as before, so the new entry has no line of
  its own.\<close>

theorem audit_append_after_torn_line:
  assumes "contents d p \<noteq> []" "last (contents d p) \<noteq> newline" "last (contents d p) \<noteq> CHR 0x0D"
    and "fst (disk_write d p (serialize_entry e @ [newline]))"
  shows "length (read_entries (contents (snd (disk_write d p (serialize_entry e @ [newline]))) p)) =
    length (read_entries (contents d p))"
proof -
  let ?s = "contents d p" and ?l = "serialize_entry e"
  have nl: "newline \<notin> set ?l" by (simp add: serialize_entry_line line_with_no_newline)
  obtain ls q where lines: "getlines ?s = ls @ [q]" "getlines (?s @ ?l @ [newline]) = ls @ [q @ ?l]"
      "q \<noteq> []" "last q = last ?s"
    using getlines_torn [OF assms(1,2) nl] by blast
  have "strip_cr q = q" using lines(3,4) assms(3) by (simp add: strip_cr_def)
  moreover have "strip_cr (q @ ?l) = q @ ?l"
    by (simp add: strip_cr_def serialize_entry_line line_with_def)
  ultimately have "length (read_entries (?s @ ?l @ [newline])) = length (read_entries ?s)"
    using lines by (simp add: read_entries_def)
  with disk_write_fits [OF assms(4)] show ?thesis by simp
qed

theorem audit_append_after_torn_line_witness:
  "length (read_entries (contents (snd (disk_write (roomy_disk\<lparr>dk_files := [''log'' \<mapsto> ''{'']\<rparr>) ''log''
     (serialize_entry (blank_entry\<lparr>en_timestamp_ns := 7, en_cid := ''LF79''\<rparr>) @ [newline]))) ''log'')) = 1"
proof -
  have "read_entries ''{'' = [read_entry ''{'']"
    by (simp add: read_entries_def getlines_last strip_cr_def)
  then show ?thesis
    by (subst audit_append_after_torn_line) (simp_all add: contents_def disk_write_def roomy_disk_def)
qed

text \<open>C36: Changing one character of what an entry says is noticed: if the checksummed texts of two
  entries differ in exactly one character, a line saying one with the checksum of the other
  reads back with its checksum invalid.\<close>

theorem audit_tamper_detected:
  assumes "serialize_for_checksum e = xs @ b # ys" "serialize_for_checksum e' = xs @ b' # ys" "b \<noteq> b'"
  shows "read_entry (line_with e' (entry_checksum e)) =
    e'\<lparr>en_checksum_valid := False, en_checksum_on_disk := entry_checksum e\<rparr>"
proof -
  have "(of_char b :: u8) \<noteq> of_char b'" using assms(3) of_char_u8_inj by blast
  then have "entry_checksum e \<noteq> entry_checksum e'"
    unfolding entry_checksum_def assms(1,2) map_append list.map by (rule crc32_detects_change)
  then show ?thesis by (simp add: read_line_with)
qed

theorem audit_tamper_detected_witness:
  "\<not> en_checksum_valid (read_entry (line_with (blank_entry\<lparr>en_source := ''fLash''\<rparr>)
     (entry_checksum (blank_entry\<lparr>en_source := ''flash''\<rparr>))))"
proof -
  define xs where "xs = ''{'' @ json_key ''kind'' @ json_escape ''custom'' @ '','' @ json_key ''ts'' @ to_string_i64 0 @
    '','' @ json_key ''source'' @ [DQ, CHR ''f'']"
  define ys where "ys = ''ash'' @ [DQ] @ '','' @ json_key ''desc'' @ json_escape [] @ '','' @ json_key ''fields'' @ ''[]''"
  have "serialize_for_checksum (blank_entry\<lparr>en_source := [CHR ''f'', l] @ ''ash''\<rparr>) = xs @ l # ys"
    if "escape_char l = [l]" for l
    using that
    by (simp add: serialize_for_checksum_def xs_def ys_def blank_entry_def kind_name_def kKindNames_def json_escape_def)
       (simp add: escape_char_def)
  from this [of "CHR ''l''"] this [of "CHR ''L''"] show ?thesis
    using audit_tamper_detected [of "blank_entry\<lparr>en_source := ''flash''\<rparr>" xs "CHR ''l''" ys
        "blank_entry\<lparr>en_source := ''fLash''\<rparr>" "CHR ''L''"]
    by (simp add: escape_char_def)
qed

text \<open>The kind of a custom entry is not protected: rewriting it in the file to any text that is no
  known kind reads back as the same entry with a valid checksum, because unknown kinds are read
  as custom before the checksum is recomputed.\<close>

theorem audit_custom_kind_not_protected:
  assumes "en_kind e = Custom" "kind_from_name name = Custom"
  shows "\<exists>rest. serialize_entry e = ''{'' @ json_key ''kind'' @ json_escape ''custom'' @ rest \<and>
    read_entry (''{'' @ json_key ''kind'' @ json_escape name @ rest) = stored e"
proof -
  have custom: "kind_name Custom = ''custom''" by (simp add: kind_name_def kKindNames_def)
  obtain rest where rest: "serialize_entry e = ''{'' @ json_key ''kind'' @ json_escape ''custom'' @ CHR '','' # rest"
    by (simp add: serialize_entry_def serialize_for_checksum_def assms(1) custom)
  have "parse_entry_line (''{'' @ json_key ''kind'' @ json_escape k @ CHR '','' # rest) blank_entry =
      parse_members rest (blank_entry\<lparr>en_kind := kind_from_name k\<rparr>)" for k
    using parse_members_text(5) [of k rest blank_entry] by (simp add: parse_entry_line_def)
  from this [of name] this [of "''custom''"] rest
  have "parse_entry_line (''{'' @ json_key ''kind'' @ json_escape name @ CHR '','' # rest) blank_entry =
      parse_entry_line (serialize_entry e) blank_entry"
    using assms(2) kind_from_name_kind_name [of Custom] by (simp add: custom)
  then have "read_entry (''{'' @ json_key ''kind'' @ json_escape name @ CHR '','' # rest) = stored e"
    by (simp add: serialize_entry_line parse_line_with read_entry_def stored_def)
  with rest show ?thesis by blast
qed

theorem audit_custom_kind_not_protected_witness:
  "\<exists>rest. serialize_entry blank_entry = ''{'' @ json_key ''kind'' @ json_escape ''custom'' @ rest \<and>
    read_entry (''{'' @ json_key ''kind'' @ json_escape ''flash.comple'' @ rest) = stored blank_entry"
  by (rule audit_custom_kind_not_protected) (simp_all add: blank_entry_def kind_from_name_def kKindNames_def)

end
