(* ===== verification/Sh2a.thy ===== *)
theory Sh2a
  imports ST_Prelude
begin

text \<open>
  The SH-2A instructions the code generator and the patch inserter emit: their encoders
  (src/feature_codegen/src/sh2a.hpp) and, as the reference they are proved against, the machine
  that the comments of that header describe: sixteen general and sixteen single-precision registers,
  \<open>MACL\<close>, \<open>FPUL\<close>, the \<open>T\<close> bit, \<open>PC\<close>, \<open>PR\<close> and a big-endian byte memory. The arithmetic of the
  floating-point unit is a parameter, the record \<open>fpu\<close>.
\<close>

section \<open>Encoders\<close>

type_synonym reg = "4 word"

definition rn_field :: "reg \<Rightarrow> u16" where "rn_field r = push_bit 8 (ucast r)"
definition rm_field :: "reg \<Rightarrow> u16" where "rm_field r = push_bit 4 (ucast r)"

definition enc_mov_l_disp_pc :: "reg \<Rightarrow> u8 \<Rightarrow> u16" where
  "enc_mov_l_disp_pc rn d = 0xD000 OR rn_field rn OR ucast d"
definition enc_mov_l_reg_at_reg :: "reg \<Rightarrow> reg \<Rightarrow> u16" where
  "enc_mov_l_reg_at_reg rm rn = 0x2002 OR rn_field rn OR rm_field rm"
definition enc_mov_l_at_reg_reg :: "reg \<Rightarrow> reg \<Rightarrow> u16" where
  "enc_mov_l_at_reg_reg rm rn = 0x6002 OR rn_field rn OR rm_field rm"
definition enc_add :: "reg \<Rightarrow> reg \<Rightarrow> u16" where
  "enc_add rm rn = 0x300C OR rn_field rn OR rm_field rm"
definition enc_sub :: "reg \<Rightarrow> reg \<Rightarrow> u16" where
  "enc_sub rm rn = 0x3008 OR rn_field rn OR rm_field rm"
definition enc_mul_l :: "reg \<Rightarrow> reg \<Rightarrow> u16" where
  "enc_mul_l rm rn = 0x0007 OR rn_field rn OR rm_field rm"
definition enc_sts_macl :: "reg \<Rightarrow> u16" where
  "enc_sts_macl rn = 0x001A OR rn_field rn"
definition enc_cmp_eq :: "reg \<Rightarrow> reg \<Rightarrow> u16" where
  "enc_cmp_eq rm rn = 0x3000 OR rn_field rn OR rm_field rm"
definition enc_cmp_gt :: "reg \<Rightarrow> reg \<Rightarrow> u16" where
  "enc_cmp_gt rm rn = 0x3007 OR rn_field rn OR rm_field rm"
definition enc_movt :: "reg \<Rightarrow> u16" where
  "enc_movt rn = 0x0029 OR rn_field rn"
definition enc_and :: "reg \<Rightarrow> reg \<Rightarrow> u16" where
  "enc_and rm rn = 0x2009 OR rn_field rn OR rm_field rm"
definition enc_or :: "reg \<Rightarrow> reg \<Rightarrow> u16" where
  "enc_or rm rn = 0x200B OR rn_field rn OR rm_field rm"
definition enc_tst :: "reg \<Rightarrow> reg \<Rightarrow> u16" where
  "enc_tst rm rn = 0x2008 OR rn_field rn OR rm_field rm"
definition enc_bt :: "u8 \<Rightarrow> u16" where
  "enc_bt d = 0x8900 OR ucast d"
definition enc_bra :: "u16 \<Rightarrow> u16" where
  "enc_bra d = 0xA000 OR (d AND 0x0FFF)"
definition enc_fadd :: "reg \<Rightarrow> reg \<Rightarrow> u16" where
  "enc_fadd frm frn = 0xF000 OR rn_field frn OR rm_field frm"
definition enc_fsub :: "reg \<Rightarrow> reg \<Rightarrow> u16" where
  "enc_fsub frm frn = 0xF001 OR rn_field frn OR rm_field frm"
definition enc_fmul :: "reg \<Rightarrow> reg \<Rightarrow> u16" where
  "enc_fmul frm frn = 0xF002 OR rn_field frn OR rm_field frm"
definition enc_fdiv :: "reg \<Rightarrow> reg \<Rightarrow> u16" where
  "enc_fdiv frm frn = 0xF003 OR rn_field frn OR rm_field frm"
definition enc_fsqrt :: "reg \<Rightarrow> u16" where
  "enc_fsqrt frn = 0xF06D OR rn_field frn"
definition enc_lds_r_fpul :: "reg \<Rightarrow> u16" where
  "enc_lds_r_fpul rm = 0x405A OR rn_field rm"
definition enc_sts_fpul_r :: "reg \<Rightarrow> u16" where
  "enc_sts_fpul_r rn = 0x005A OR rn_field rn"
definition enc_fsts_fpul_freg :: "reg \<Rightarrow> u16" where
  "enc_fsts_fpul_freg frn = 0xF00D OR rn_field frn"
definition enc_flds_freg_fpul :: "reg \<Rightarrow> u16" where
  "enc_flds_freg_fpul frm = 0xF01D OR rn_field frm"
definition enc_float_fpul_freg :: "reg \<Rightarrow> u16" where
  "enc_float_fpul_freg frn = 0xF02D OR rn_field frn"
definition enc_ftrc_freg_fpul :: "reg \<Rightarrow> u16" where
  "enc_ftrc_freg_fpul frm = 0xF03D OR rn_field frm"
definition enc_fcmp_eq :: "reg \<Rightarrow> reg \<Rightarrow> u16" where
  "enc_fcmp_eq frm frn = 0xF004 OR rn_field frn OR rm_field frm"
definition enc_fcmp_gt :: "reg \<Rightarrow> reg \<Rightarrow> u16" where
  "enc_fcmp_gt frm frn = 0xF005 OR rn_field frn OR rm_field frm"
definition enc_rts :: u16 where "enc_rts = 0x000B"
definition enc_nop :: u16 where "enc_nop = 0x0009"

text \<open>The two the patch inserter adds (src/feature_patch/src/splice_sh2a.cpp).\<close>

definition enc_mov_l_at_pc_r0 :: "u8 \<Rightarrow> u16" where
  "enc_mov_l_at_pc_r0 d = 0xD000 OR ucast d"
definition enc_jmp_at_reg :: "u8 \<Rightarrow> u16" where
  "enc_jmp_at_reg r = 0x402B OR push_bit 8 (ucast r)"

section \<open>Instructions\<close>

datatype instr =
    MovLitPC reg u8
  | MovStore reg reg
  | MovLoad reg reg
  | Add reg reg
  | Sub reg reg
  | MulL reg reg
  | StsMacl reg
  | CmpEq reg reg
  | CmpGt reg reg
  | Movt reg
  | And reg reg
  | Or reg reg
  | Tst reg reg
  | Bt u8
  | Bra u16
  | Fadd reg reg
  | Fsub reg reg
  | Fmul reg reg
  | Fdiv reg reg
  | Fsqrt reg
  | LdsFpul reg
  | StsFpul reg
  | Fsts reg
  | Flds reg
  | Float reg
  | Ftrc reg
  | FcmpEq reg reg
  | FcmpGt reg reg
  | Jmp reg
  | Rts
  | Nop

definition nibble :: "nat \<Rightarrow> u16 \<Rightarrow> reg" where
  "nibble k w = ucast (drop_bit k w)"

text \<open>The opcode map of these instructions: the operation from the outer nibbles.\<close>

definition decode_instr :: "u16 \<Rightarrow> instr option" where
  "decode_instr w =
     (let op = nibble 12 w; n = nibble 8 w; m = nibble 4 w; l = nibble 0 w; d = (ucast w :: u8) in
      if op = 0xD then Some (MovLitPC n d)
      else if op = 0xA then Some (Bra (w AND 0x0FFF))
      else if op = 0x8 then (if n = 9 then Some (Bt d) else None)
      else if op = 0x0 then
        (if l = 7 then Some (MulL m n)
         else if d = 0x1A then Some (StsMacl n)
         else if d = 0x29 then Some (Movt n)
         else if d = 0x5A then Some (StsFpul n)
         else if w = 0x0009 then Some Nop
         else if w = 0x000B then Some Rts else None)
      else if op = 0x2 then
        (if l = 2 then Some (MovStore m n)
         else if l = 8 then Some (Tst m n)
         else if l = 9 then Some (And m n)
         else if l = 0xB then Some (Or m n) else None)
      else if op = 0x3 then
        (if l = 0 then Some (CmpEq m n)
         else if l = 7 then Some (CmpGt m n)
         else if l = 8 then Some (Sub m n)
         else if l = 0xC then Some (Add m n) else None)
      else if op = 0x4 then
        (if d = 0x5A then Some (LdsFpul n) else if d = 0x2B then Some (Jmp n) else None)
      else if op = 0x6 then (if l = 2 then Some (MovLoad m n) else None)
      else if op = 0xF then
        (if l = 0 then Some (Fadd m n)
         else if l = 1 then Some (Fsub m n)
         else if l = 2 then Some (Fmul m n)
         else if l = 3 then Some (Fdiv m n)
         else if l = 4 then Some (FcmpEq m n)
         else if l = 5 then Some (FcmpGt m n)
         else if d = 0x6D then Some (Fsqrt n)
         else if d = 0x0D then Some (Fsts n)
         else if d = 0x1D then Some (Flds n)
         else if d = 0x2D then Some (Float n)
         else if d = 0x3D then Some (Ftrc n) else None)
      else None)"

lemma nibble_fields:
  "nibble 12 (c OR rn_field n OR rm_field m) = nibble 12 c"
  "nibble 8 (c OR rn_field n OR rm_field m) = nibble 8 c OR n"
  "nibble 4 (c OR rn_field n OR rm_field m) = nibble 4 c OR m"
  "nibble 0 (c OR rn_field n OR rm_field m) = nibble 0 c"
  "nibble 12 (c OR rn_field n) = nibble 12 c"
  "nibble 8 (c OR rn_field n) = nibble 8 c OR n"
  "nibble 4 (c OR rn_field n) = nibble 4 c"
  "nibble 0 (c OR rn_field n) = nibble 0 c"
  "(ucast (c OR rn_field n) :: u8) = ucast c"
  "nibble 12 (c OR rn_field n OR ucast (d :: u8)) = nibble 12 c"
  "nibble 8 (c OR rn_field n OR ucast d) = nibble 8 c OR n"
  "(ucast (c OR rn_field n OR ucast d) :: u8) = ucast c OR d"
  "nibble 12 (c OR ucast d) = nibble 12 c"
  "nibble 8 (c OR ucast d) = nibble 8 c"
  "(ucast (c OR ucast d) :: u8) = ucast c OR d"
  by (rule bit_word_eqI,
      force simp: nibble_def rn_field_def rm_field_def bit_ucast_iff bit_or_iff bit_drop_bit_eq bit_push_bit_iff
        simp del: bit_numeral_word_iff dest: bit_imp_le_length)+

lemma bra_field:
  "nibble 12 (0xA000 OR (d AND 0x0FFF)) = 0xA"
  "(0xA000 OR (d AND 0x0FFF)) AND 0x0FFF = d AND (0x0FFF :: u16)"
proof -
  have m: "(0x0FFF :: u16) = mask 12" by (simp add: mask_eq_exp_minus_1)
  have "nibble 12 (c OR (d AND mask 12)) = nibble 12 c" for c
    by (rule bit_word_eqI)
      (simp add: nibble_def bit_ucast_iff bit_or_iff bit_and_iff bit_drop_bit_eq bit_mask_iff)
  then have "nibble 12 (0xA000 OR (d AND 0x0FFF)) = nibble 12 0xA000" unfolding m by blast
  then show "nibble 12 (0xA000 OR (d AND 0x0FFF)) = 0xA" by (simp only:) (simp add: nibble_def)
  show "(0xA000 OR (d AND 0x0FFF)) AND 0x0FFF = d AND (0x0FFF :: u16)"
    by (simp add: bit.conj_disj_distrib2 and.assoc)
qed

lemma nibble_opcodes:
  "nibble 8 0x2002 = 0" "nibble 8 0x6002 = 0" "nibble 8 0x300C = 0" "nibble 8 0x3008 = 0"
  "nibble 8 0x0007 = 0" "nibble 8 0x3000 = 0" "nibble 8 0x3007 = 0" "nibble 8 0x2009 = 0"
  "nibble 8 0x200B = 0" "nibble 8 0x2008 = 0" "nibble 8 0xF000 = 0" "nibble 8 0xF001 = 0"
  "nibble 8 0xF002 = 0" "nibble 8 0xF003 = 0" "nibble 8 0xF004 = 0" "nibble 8 0xF005 = 0"
  "nibble 8 0x001A = 0" "nibble 8 0x0029 = 0" "nibble 8 0xF06D = 0" "nibble 8 0x405A = 0"
  "nibble 8 0x005A = 0" "nibble 8 0xF00D = 0" "nibble 8 0xF01D = 0" "nibble 8 0xF02D = 0"
  "nibble 8 0xF03D = 0" "nibble 8 0xD000 = 0" "nibble 4 0x2002 = 0" "nibble 4 0x6002 = 0"
  "nibble 4 0x300C = 0" "nibble 4 0x3008 = 0" "nibble 4 0x0007 = 0" "nibble 4 0x3000 = 0"
  "nibble 4 0x3007 = 0" "nibble 4 0x2009 = 0" "nibble 4 0x200B = 0" "nibble 4 0x2008 = 0"
  "nibble 4 0xF000 = 0" "nibble 4 0xF001 = 0" "nibble 4 0xF002 = 0" "nibble 4 0xF003 = 0"
  "nibble 4 0xF004 = 0" "nibble 4 0xF005 = 0" "(ucast (0xD000 :: u16) :: u8) = 0" "(ucast (0x8900 :: u16) :: u8) = 0"
  by (simp_all add: nibble_def)

lemma decode_enc [simp]:
  "decode_instr (enc_mov_l_disp_pc r d) = Some (MovLitPC r d)"
  "decode_instr (enc_mov_l_reg_at_reg m n) = Some (MovStore m n)"
  "decode_instr (enc_mov_l_at_reg_reg m n) = Some (MovLoad m n)"
  "decode_instr (enc_add m n) = Some (Add m n)"
  "decode_instr (enc_sub m n) = Some (Sub m n)"
  "decode_instr (enc_mul_l m n) = Some (MulL m n)"
  "decode_instr (enc_sts_macl n) = Some (StsMacl n)"
  "decode_instr (enc_cmp_eq m n) = Some (CmpEq m n)"
  "decode_instr (enc_cmp_gt m n) = Some (CmpGt m n)"
  "decode_instr (enc_movt n) = Some (Movt n)"
  "decode_instr (enc_and m n) = Some (And m n)"
  "decode_instr (enc_or m n) = Some (Or m n)"
  "decode_instr (enc_tst m n) = Some (Tst m n)"
  "decode_instr (enc_bt d) = Some (Bt d)"
  "decode_instr (enc_bra b) = Some (Bra (b AND 0x0FFF))"
  "decode_instr (enc_fadd m n) = Some (Fadd m n)"
  "decode_instr (enc_fsub m n) = Some (Fsub m n)"
  "decode_instr (enc_fmul m n) = Some (Fmul m n)"
  "decode_instr (enc_fdiv m n) = Some (Fdiv m n)"
  "decode_instr (enc_fsqrt n) = Some (Fsqrt n)"
  "decode_instr (enc_lds_r_fpul n) = Some (LdsFpul n)"
  "decode_instr (enc_sts_fpul_r n) = Some (StsFpul n)"
  "decode_instr (enc_fsts_fpul_freg n) = Some (Fsts n)"
  "decode_instr (enc_flds_freg_fpul n) = Some (Flds n)"
  "decode_instr (enc_float_fpul_freg n) = Some (Float n)"
  "decode_instr (enc_ftrc_freg_fpul n) = Some (Ftrc n)"
  "decode_instr (enc_fcmp_eq m n) = Some (FcmpEq m n)"
  "decode_instr (enc_fcmp_gt m n) = Some (FcmpGt m n)"
  "decode_instr enc_rts = Some Rts"
  "decode_instr enc_nop = Some Nop"
  "decode_instr (enc_mov_l_at_pc_r0 d) = Some (MovLitPC 0 d)"
  "decode_instr (enc_jmp_at_reg 0) = Some (Jmp 0)"
  unfolding decode_instr_def Let_def enc_mov_l_disp_pc_def enc_mov_l_reg_at_reg_def enc_mov_l_at_reg_reg_def
    enc_add_def enc_sub_def enc_mul_l_def enc_sts_macl_def enc_cmp_eq_def enc_cmp_gt_def enc_movt_def
    enc_and_def enc_or_def enc_tst_def enc_bt_def enc_bra_def enc_fadd_def enc_fsub_def enc_fmul_def
    enc_fdiv_def enc_fsqrt_def enc_lds_r_fpul_def enc_sts_fpul_r_def enc_fsts_fpul_freg_def
    enc_flds_freg_fpul_def enc_float_fpul_freg_def enc_ftrc_freg_fpul_def enc_fcmp_eq_def enc_fcmp_gt_def
    enc_rts_def enc_nop_def enc_mov_l_at_pc_r0_def enc_jmp_at_reg_def nibble_fields bra_field nibble_opcodes
  by (simp_all add: nibble_def)

section \<open>The machine\<close>

record fpu =
  fp_add :: "u32 \<Rightarrow> u32 \<Rightarrow> u32"
  fp_sub :: "u32 \<Rightarrow> u32 \<Rightarrow> u32"
  fp_mul :: "u32 \<Rightarrow> u32 \<Rightarrow> u32"
  fp_div :: "u32 \<Rightarrow> u32 \<Rightarrow> u32"
  fp_sqrt :: "u32 \<Rightarrow> u32"
  fp_of_int :: "u32 \<Rightarrow> u32"
  fp_trunc :: "u32 \<Rightarrow> u32"
  fp_eq :: "u32 \<Rightarrow> u32 \<Rightarrow> bool"
  fp_gt :: "u32 \<Rightarrow> u32 \<Rightarrow> bool"

type_synonym memory = "u32 \<Rightarrow> u8"

record sh2a =
  sh_r :: "reg \<Rightarrow> u32"
  sh_fr :: "reg \<Rightarrow> u32"
  sh_t :: bool
  sh_macl :: u32
  sh_fpul :: u32
  sh_pc :: u32
  sh_pr :: u32
  sh_mem :: memory

definition load16 :: "memory \<Rightarrow> u32 \<Rightarrow> u16" where
  "load16 mem a = push_bit 8 (ucast (mem a)) OR ucast (mem (a + 1))"

definition load32 :: "memory \<Rightarrow> u32 \<Rightarrow> u32" where
  "load32 mem a = push_bit 24 (ucast (mem a)) OR push_bit 16 (ucast (mem (a + 1))) OR
     push_bit 8 (ucast (mem (a + 2))) OR ucast (mem (a + 3))"

definition store32 :: "memory \<Rightarrow> u32 \<Rightarrow> u32 \<Rightarrow> memory" where
  "store32 mem a v = mem(a := byte_at 24 v, a + 1 := byte_at 16 v, a + 2 := byte_at 8 v, a + 3 := byte_at 0 v)"

definition set_r :: "reg \<Rightarrow> u32 \<Rightarrow> sh2a \<Rightarrow> sh2a" where
  "set_r n v s = s\<lparr>sh_r := (sh_r s)(n := v)\<rparr>"

definition set_fr :: "reg \<Rightarrow> u32 \<Rightarrow> sh2a \<Rightarrow> sh2a" where
  "set_fr n v s = s\<lparr>sh_fr := (sh_fr s)(n := v)\<rparr>"

definition set_t :: "bool \<Rightarrow> sh2a \<Rightarrow> sh2a" where
  "set_t b s = s\<lparr>sh_t := b\<rparr>"

text \<open>A longword access to an address that is no multiple of four is an address error, \<open>None\<close>.\<close>

definition aligned4 :: "u32 \<Rightarrow> bool" where
  "aligned4 a \<longleftrightarrow> a AND 3 = 0"

text \<open>What an instruction that does not branch does, the program counter apart.\<close>

fun effect :: "fpu \<Rightarrow> instr \<Rightarrow> sh2a \<Rightarrow> sh2a option" where
  "effect f (MovLitPC n d) s =
     Some (set_r n (load32 (sh_mem s) (((sh_pc s + 4) AND NOT 3) + ucast d * 4)) s)"
| "effect f (MovStore m n) s =
     (if aligned4 (sh_r s n) then Some (s\<lparr>sh_mem := store32 (sh_mem s) (sh_r s n) (sh_r s m)\<rparr>) else None)"
| "effect f (MovLoad m n) s =
     (if aligned4 (sh_r s m) then Some (set_r n (load32 (sh_mem s) (sh_r s m)) s) else None)"
| "effect f (Add m n) s = Some (set_r n (sh_r s n + sh_r s m) s)"
| "effect f (Sub m n) s = Some (set_r n (sh_r s n - sh_r s m) s)"
| "effect f (MulL m n) s = Some (s\<lparr>sh_macl := sh_r s n * sh_r s m\<rparr>)"
| "effect f (StsMacl n) s = Some (set_r n (sh_macl s) s)"
| "effect f (CmpEq m n) s = Some (set_t (sh_r s n = sh_r s m) s)"
| "effect f (CmpGt m n) s = Some (set_t (sh_r s m <s sh_r s n) s)"
| "effect f (Movt n) s = Some (set_r n (of_bool (sh_t s)) s)"
| "effect f (And m n) s = Some (set_r n (sh_r s n AND sh_r s m) s)"
| "effect f (Or m n) s = Some (set_r n (sh_r s n OR sh_r s m) s)"
| "effect f (Tst m n) s = Some (set_t (sh_r s n AND sh_r s m = 0) s)"
| "effect f (Fadd m n) s = Some (set_fr n (fp_add f (sh_fr s n) (sh_fr s m)) s)"
| "effect f (Fsub m n) s = Some (set_fr n (fp_sub f (sh_fr s n) (sh_fr s m)) s)"
| "effect f (Fmul m n) s = Some (set_fr n (fp_mul f (sh_fr s n) (sh_fr s m)) s)"
| "effect f (Fdiv m n) s = Some (set_fr n (fp_div f (sh_fr s n) (sh_fr s m)) s)"
| "effect f (Fsqrt n) s = Some (set_fr n (fp_sqrt f (sh_fr s n)) s)"
| "effect f (LdsFpul m) s = Some (s\<lparr>sh_fpul := sh_r s m\<rparr>)"
| "effect f (StsFpul n) s = Some (set_r n (sh_fpul s) s)"
| "effect f (Fsts n) s = Some (set_fr n (sh_fpul s) s)"
| "effect f (Flds m) s = Some (s\<lparr>sh_fpul := sh_fr s m\<rparr>)"
| "effect f (Float n) s = Some (set_fr n (fp_of_int f (sh_fpul s)) s)"
| "effect f (Ftrc m) s = Some (s\<lparr>sh_fpul := fp_trunc f (sh_fr s m)\<rparr>)"
| "effect f (FcmpEq m n) s = Some (set_t (fp_eq f (sh_fr s n) (sh_fr s m)) s)"
| "effect f (FcmpGt m n) s = Some (set_t (fp_gt f (sh_fr s n) (sh_fr s m)) s)"
| "effect f Nop s = Some s"
| "effect f _ s = None"

definition fetch :: "memory \<Rightarrow> u32 \<Rightarrow> instr option" where
  "fetch mem a = decode_instr (load16 mem a)"

text \<open>Displacements count halfwords from the instruction after the delay slot.\<close>

definition bt_target :: "u32 \<Rightarrow> u8 \<Rightarrow> u32" where
  "bt_target pc d = pc + 4 + 2 * scast d"

definition bra_target :: "u32 \<Rightarrow> u16 \<Rightarrow> u32" where
  "bra_target pc d = pc + 4 + 2 * scast (ucast d :: 12 word)"

text \<open>\<open>BRA\<close>, \<open>JMP\<close> and \<open>RTS\<close> execute the instruction after them first; a branch there is illegal.\<close>

definition branch_delayed :: "fpu \<Rightarrow> u32 \<Rightarrow> sh2a \<Rightarrow> sh2a option" where
  "branch_delayed f target s =
     (case fetch (sh_mem s) (sh_pc s + 2) of
        None \<Rightarrow> None
      | Some i \<Rightarrow> map_option (\<lambda>s'. s'\<lparr>sh_pc := target\<rparr>) (effect f i (s\<lparr>sh_pc := sh_pc s + 2\<rparr>)))"

definition step :: "fpu \<Rightarrow> sh2a \<Rightarrow> sh2a option" where
  "step f s =
     (case fetch (sh_mem s) (sh_pc s) of
        None \<Rightarrow> None
      | Some (Bt d) \<Rightarrow> Some (s\<lparr>sh_pc := (if sh_t s then bt_target (sh_pc s) d else sh_pc s + 2)\<rparr>)
      | Some (Bra d) \<Rightarrow> branch_delayed f (bra_target (sh_pc s) d) s
      | Some (Jmp n) \<Rightarrow> branch_delayed f (sh_r s n) s
      | Some Rts \<Rightarrow> branch_delayed f (sh_pr s) s
      | Some i \<Rightarrow> map_option (\<lambda>s'. s'\<lparr>sh_pc := sh_pc s + 2\<rparr>) (effect f i s))"

fun run :: "fpu \<Rightarrow> nat \<Rightarrow> sh2a \<Rightarrow> sh2a option" where
  "run f 0 s = Some s"
| "run f (Suc k) s = (case step f s of None \<Rightarrow> None | Some s' \<Rightarrow> run f k s')"

definition reaches :: "fpu \<Rightarrow> sh2a \<Rightarrow> sh2a \<Rightarrow> bool" where
  "reaches f s s' \<longleftrightarrow> (\<exists>k. run f k s = Some s')"

lemma run_add: "run f (j + k) s = (case run f j s of None \<Rightarrow> None | Some s' \<Rightarrow> run f k s')"
  by (induction j arbitrary: s) (auto split: option.splits)

lemma reaches_refl [simp, intro]: "reaches f s s"
  unfolding reaches_def by (rule exI [of _ 0]) simp

lemma reaches_step: "step f s = Some s1 \<Longrightarrow> reaches f s1 s' \<Longrightarrow> reaches f s s'"
  unfolding reaches_def by (metis option.simps(5) run.simps(2))

lemma reaches_trans: "reaches f s s1 \<Longrightarrow> reaches f s1 s2 \<Longrightarrow> reaches f s s2"
  unfolding reaches_def by (metis option.simps(5) run_add)

end
