(* ===== verification/Codegen_Emit.thy ===== *)
theory Codegen_Emit
  imports Sh2a "HOL-Library.While_Combinator" "HOL-Library.Signed_Division"
begin

text \<open>
  \<open>FragmentEmitter\<close> (src/feature_codegen/src/feature_codegen.cpp): the incremental builder of SH-2A
  code. Literals go into a pool behind the code and branches to labels; \<open>finalize\<close> fills in their
  displacements. \<open>std::size_t\<close> offsets are natural numbers here.

  For the proofs an emitter is read as a list of symbolic instructions (\<open>sym\<close>): every operation
  appends one, and \<open>finalize\<close> turns the list into the halfwords \<open>final_word\<close> followed by the pool.
\<close>

section \<open>The emitter\<close>

datatype branch_kind = KBt | KBra

record emitter =
  fe_body :: bytes
  fe_pool :: "u32 list"
  fe_backpatches :: "(nat \<times> nat) list"
  fe_labels :: "nat option list"
  fe_branches :: "(nat \<times> nat \<times> branch_kind) list"

definition empty_emitter :: emitter where
  "empty_emitter = \<lparr>fe_body = [], fe_pool = [], fe_backpatches = [], fe_labels = [], fe_branches = []\<rparr>"

definition emit_be16 :: "bytes \<Rightarrow> u16 \<Rightarrow> bytes" where
  "emit_be16 code v = code @ [ucast (drop_bit 8 v AND 0xFF), ucast (v AND 0xFF)]"

definition emit_be32 :: "bytes \<Rightarrow> u32 \<Rightarrow> bytes" where
  "emit_be32 code v = code @ [byte_at 24 v, byte_at 16 v, byte_at 8 v, byte_at 0 v]"

definition create_label :: "emitter \<Rightarrow> nat \<times> emitter" where
  "create_label fe = (length (fe_labels fe), fe\<lparr>fe_labels := fe_labels fe @ [None]\<rparr>)"

definition place_label :: "nat \<Rightarrow> emitter \<Rightarrow> emitter" where
  "place_label l fe = fe\<lparr>fe_labels := (fe_labels fe)[l := Some (length (fe_body fe))]\<rparr>"

definition fe_mov_l_disp_pc :: "reg \<Rightarrow> u32 \<Rightarrow> emitter \<Rightarrow> emitter" where
  "fe_mov_l_disp_pc rn pool_literal fe =
     fe\<lparr>fe_backpatches := fe_backpatches fe @ [(length (fe_body fe), length (fe_pool fe))],
        fe_pool := fe_pool fe @ [pool_literal],
        fe_body := emit_be16 (fe_body fe) (enc_mov_l_disp_pc rn 0)\<rparr>"

text \<open>The operations that append one fixed halfword: \<open>add\<close>, \<open>sub\<close>, \<open>tst\<close>, \<open>fadd\<close> and the others.\<close>

definition fe_emit :: "u16 \<Rightarrow> emitter \<Rightarrow> emitter" where
  "fe_emit w fe = fe\<lparr>fe_body := emit_be16 (fe_body fe) w\<rparr>"

definition fe_bt :: "nat \<Rightarrow> emitter \<Rightarrow> emitter" where
  "fe_bt target fe =
     fe\<lparr>fe_branches := fe_branches fe @ [(length (fe_body fe), target, KBt)],
        fe_body := emit_be16 (fe_body fe) (enc_bt 0)\<rparr>"

definition fe_bra :: "nat \<Rightarrow> emitter \<Rightarrow> emitter" where
  "fe_bra target fe =
     fe\<lparr>fe_branches := fe_branches fe @ [(length (fe_body fe), target, KBra)],
        fe_body := emit_be16 (fe_body fe) (enc_bra 0)\<rparr>"

text \<open>The branch displacement is computed in 32-bit signed arithmetic and narrowed by the encoder call.\<close>

definition branch_word :: "branch_kind \<Rightarrow> nat \<Rightarrow> nat \<Rightarrow> u16" where
  "branch_word kind target off =
     (let disp_words = sint (of_nat target - of_nat off - 4 :: u32) sdiv 2 in
      case kind of KBt \<Rightarrow> enc_bt (word_of_int disp_words) | KBra \<Rightarrow> enc_bra (word_of_int disp_words))"

text \<open>An unplaced label throws (\<open>std::optional::value\<close>), \<open>None\<close>.\<close>

fun patch_branches :: "nat option list \<Rightarrow> (nat \<times> nat \<times> branch_kind) list \<Rightarrow> bytes \<Rightarrow> bytes option" where
  "patch_branches labels [] body = Some body"
| "patch_branches labels ((off, l, kind) # bps) body =
     (case labels ! l of
        None \<Rightarrow> None
      | Some target \<Rightarrow>
          let enc = branch_word kind target off in
          patch_branches labels bps (body[off := ucast (drop_bit 8 enc), off + 1 := ucast (enc AND 0xFF)]))"

definition literal_disp :: "nat \<Rightarrow> nat \<times> nat \<Rightarrow> nat" where
  "literal_disp pool_start bp =
     (let literal_offset = pool_start + snd bp * 4;
          aligned = (fst bp + 4) - (fst bp + 4) mod 4 in
      (literal_offset - aligned) div 4)"

definition patch_literals :: "nat \<Rightarrow> (nat \<times> nat) list \<Rightarrow> bytes \<Rightarrow> bytes" where
  "patch_literals pool_start bps body =
     fold (\<lambda>bp body. body[fst bp + 1 := of_nat (literal_disp pool_start bp)]) bps body"

definition finalize :: "emitter \<Rightarrow> bytes option" where
  "finalize fe =
     (case patch_branches (fe_labels fe) (fe_branches fe) (fe_body fe) of
        None \<Rightarrow> None
      | Some body \<Rightarrow>
          (case while_option (\<lambda>b. length b mod 4 \<noteq> 0) (\<lambda>b. emit_be16 b enc_nop)
                  (emit_be16 (emit_be16 body enc_rts) enc_nop) of
             None \<Rightarrow> None
           | Some body \<Rightarrow>
               let pool_start = length body;
                   body = patch_literals pool_start (fe_backpatches fe) body in
               Some (fold (\<lambda>v b. emit_be32 b v) (fe_pool fe) body)))"

section \<open>Symbolic instructions\<close>

datatype sym = SInstr u16 | SLit reg u32 | SBt nat | SBra nat

fun emit_sym :: "sym \<Rightarrow> emitter \<Rightarrow> emitter" where
  "emit_sym (SInstr w) = fe_emit w"
| "emit_sym (SLit r v) = fe_mov_l_disp_pc r v"
| "emit_sym (SBt l) = fe_bt l"
| "emit_sym (SBra l) = fe_bra l"

fun placeholder :: "sym \<Rightarrow> u16" where
  "placeholder (SInstr w) = w"
| "placeholder (SLit r v) = enc_mov_l_disp_pc r 0"
| "placeholder (SBt l) = enc_bt 0"
| "placeholder (SBra l) = enc_bra 0"

definition be16w :: "u16 \<Rightarrow> bytes" where
  "be16w w = emit_be16 [] w"

lemma emit_be16_append: "emit_be16 code w = code @ be16w w"
  by (simp add: be16w_def emit_be16_def)

lemma emit_be32_append: "emit_be32 code v = code @ be32 v"
  by (simp add: emit_be32_def be32_def)

lemma length_be16w [simp]: "length (be16w w) = 2"
  by (simp add: be16w_def emit_be16_def)

fun literals :: "sym list \<Rightarrow> u32 list" where
  "literals [] = []"
| "literals (SLit r v # ss) = v # literals ss"
| "literals (_ # ss) = literals ss"

lemma literals_append [simp]: "literals (xs @ ys) = literals xs @ literals ys"
  by (induction xs rule: literals.induct) auto

text \<open>The backpatch entries, from code offset \<open>off\<close> and pool index \<open>k\<close>.\<close>

fun literal_sites :: "nat \<Rightarrow> nat \<Rightarrow> sym list \<Rightarrow> (nat \<times> nat) list" where
  "literal_sites off k [] = []"
| "literal_sites off k (SLit r v # ss) = (off, k) # literal_sites (off + 2) (Suc k) ss"
| "literal_sites off k (_ # ss) = literal_sites (off + 2) k ss"

fun branch_sites :: "nat \<Rightarrow> sym list \<Rightarrow> (nat \<times> nat \<times> branch_kind) list" where
  "branch_sites off [] = []"
| "branch_sites off (SBt l # ss) = (off, l, KBt) # branch_sites (off + 2) ss"
| "branch_sites off (SBra l # ss) = (off, l, KBra) # branch_sites (off + 2) ss"
| "branch_sites off (_ # ss) = branch_sites (off + 2) ss"

lemma literal_sites_append [simp]:
  "literal_sites off k (xs @ ys) =
     literal_sites off k xs @ literal_sites (off + 2 * length xs) (k + length (literals xs)) ys"
  by (induction off k xs rule: literal_sites.induct) (auto simp: algebra_simps)

lemma branch_sites_append [simp]:
  "branch_sites off (xs @ ys) = branch_sites off xs @ branch_sites (off + 2 * length xs) ys"
  by (induction off xs rule: branch_sites.induct) (auto simp: algebra_simps)

text \<open>An emitter that was built by appending \<open>ss\<close> (labels apart).\<close>

definition reads :: "emitter \<Rightarrow> sym list \<Rightarrow> bool" where
  "reads fe ss \<longleftrightarrow>
     fe_body fe = concat (map (be16w \<circ> placeholder) ss) \<and> fe_pool fe = literals ss \<and>
     fe_backpatches fe = literal_sites 0 0 ss \<and> fe_branches fe = branch_sites 0 ss"

lemma length_code [simp]: "length (concat (map (be16w \<circ> f) ss)) = 2 * length ss"
  by (induction ss) auto

lemma reads_empty [simp]: "reads empty_emitter []"
  by (simp add: reads_def empty_emitter_def)

lemma reads_length: "reads fe ss \<Longrightarrow> length (fe_body fe) = 2 * length ss"
  by (simp add: reads_def)

lemma reads_emit: "reads fe ss \<Longrightarrow> reads (emit_sym x fe) (ss @ [x])"
  by (cases x) (simp_all add: reads_def fe_emit_def fe_mov_l_disp_pc_def fe_bt_def fe_bra_def emit_be16_append)

lemma reads_labels: "reads (fe\<lparr>fe_labels := ls\<rparr>) ss = reads fe ss"
  by (simp add: reads_def)

section \<open>What finalize makes of them\<close>

text \<open>The halfword of a symbolic instruction at code offset \<open>off\<close> with the next free pool index \<open>k\<close>.\<close>

fun final_word :: "nat option list \<Rightarrow> nat \<Rightarrow> nat \<Rightarrow> nat \<Rightarrow> sym \<Rightarrow> u16" where
  "final_word labels ps off k (SInstr w) = w"
| "final_word labels ps off k (SLit r v) = enc_mov_l_disp_pc r (of_nat (literal_disp ps (off, k)))"
| "final_word labels ps off k (SBt l) = branch_word KBt (the (labels ! l)) off"
| "final_word labels ps off k (SBra l) = branch_word KBra (the (labels ! l)) off"

fun final_words :: "nat option list \<Rightarrow> nat \<Rightarrow> nat \<Rightarrow> nat \<Rightarrow> sym list \<Rightarrow> u16 list" where
  "final_words labels ps off k [] = []"
| "final_words labels ps off k (x # ss) =
     final_word labels ps off k x #
       final_words labels ps (off + 2) (k + length (literals [x])) ss"

lemma length_final_words [simp]: "length (final_words labels ps off k ss) = length ss"
  by (induction labels ps off k ss rule: final_words.induct) auto

lemma final_words_nth:
  "i < length ss \<Longrightarrow> final_words labels ps off k ss ! i =
     final_word labels ps (off + 2 * i) (k + length (literals (take i ss))) (ss ! i)"
proof (induction ss arbitrary: off k i)
  case (Cons x ss)
  have lit: "length (literals (x # ys)) = length (literals [x]) + length (literals ys)" for ys
    by (cases x) auto
  show ?case
  proof (cases i)
    case (Suc j)
    with Cons.IH [of j] Cons.prems lit [of "take j ss"] show ?thesis by (simp add: algebra_simps)
  qed simp
qed simp

text \<open>The padding puts the pool on a multiple of four.\<close>

definition pad_words :: "nat \<Rightarrow> u16 list" where
  "pad_words n = (if even n then [] else [enc_nop])"

definition pool_offset :: "nat \<Rightarrow> nat" where
  "pool_offset n = 2 * n + 4 + 2 * length (pad_words n)"

lemma pool_offset_mod [simp]: "pool_offset n mod 4 = 0"
  by (cases "even n") (auto simp: pool_offset_def pad_words_def elim!: evenE oddE)

lemma pad_loop:
  assumes "length b = 2 * n + 4"
  shows "while_option (\<lambda>b. length b mod 4 \<noteq> 0) (\<lambda>b. emit_be16 b enc_nop) b =
    Some (b @ concat (map be16w (pad_words n)))"
proof (cases "even n")
  case True
  then have "length b mod 4 = 0" using assms by (auto elim!: evenE)
  with True show ?thesis by (simp add: while_option_unfold pad_words_def)
next
  case False
  then have "length b mod 4 \<noteq> 0" "length (emit_be16 b enc_nop) mod 4 = 0"
    using assms by (auto simp: emit_be16_append elim!: oddE) presburger
  moreover from this have "while_option (\<lambda>b. length b mod 4 \<noteq> 0) (\<lambda>b. emit_be16 b enc_nop) (emit_be16 b enc_nop) =
      Some (emit_be16 b enc_nop)"
    by (subst while_option_unfold) simp
  ultimately show ?thesis using False
    by (subst while_option_unfold) (simp add: pad_words_def, simp add: emit_be16_append)
qed

lemma mask_low_byte: "(ucast (w AND 0xFF) :: u8) = ucast (w :: u16)"
  by (rule bit_word_eqI) (auto simp: bit_ucast_iff bit_and_iff simp del: bit_numeral_word_iff)

lemma mask_high_byte: "(ucast (drop_bit 8 w AND 0xFF) :: u8) = ucast (drop_bit 8 (w :: u16))"
  by (rule bit_word_eqI) (auto simp: bit_ucast_iff bit_and_iff simp del: bit_numeral_word_iff)

lemma be16w_bytes: "be16w w = [ucast (drop_bit 8 w), ucast w]"
  by (simp add: be16w_def emit_be16_def mask_low_byte mask_high_byte)

text \<open>Patching touches only the halfwords of the sites.\<close>

fun branch_final :: "nat option list \<Rightarrow> nat \<Rightarrow> sym list \<Rightarrow> u16 list" where
  "branch_final labels off [] = []"
| "branch_final labels off (SBt l # ss) = branch_word KBt (the (labels ! l)) off # branch_final labels (off + 2) ss"
| "branch_final labels off (SBra l # ss) = branch_word KBra (the (labels ! l)) off # branch_final labels (off + 2) ss"
| "branch_final labels off (x # ss) = placeholder x # branch_final labels (off + 2) ss"

lemma length_branch_final [simp]: "length (branch_final labels off ss) = length ss"
  by (induction labels off ss rule: branch_final.induct) auto

definition labels_placed :: "nat option list \<Rightarrow> sym list \<Rightarrow> bool" where
  "labels_placed labels ss \<longleftrightarrow> (\<forall>l. SBt l \<in> set ss \<or> SBra l \<in> set ss \<longrightarrow> labels ! l \<noteq> None)"

lemma update_halfword:
  "(pre @ be16w w @ post)[length pre := ucast (drop_bit 8 v), Suc (length pre) := ucast v] = pre @ be16w v @ post"
  by (simp add: be16w_bytes list_update_append)

lemma patch_branches_final:
  assumes "labels_placed labels ss"
  shows "patch_branches labels (branch_sites (length pre) ss) (pre @ concat (map (be16w \<circ> placeholder) ss) @ post) =
    Some (pre @ concat (map be16w (branch_final labels (length pre) ss)) @ post)"
  using assms
proof (induction ss arbitrary: pre)
  case (Cons x ss)
  have placed: "labels_placed labels ss" using Cons.prems(1) by (auto simp: labels_placed_def)
  note IH = Cons.IH [OF placed, of "pre @ be16w w" for w]
  show ?case
  proof (cases x)
    case (SBt l)
    then obtain t where t: "labels ! l = Some t" using Cons.prems(1) by (auto simp: labels_placed_def)
    show ?thesis using IH [of "branch_word KBt t (length pre)"] SBt t
      by (simp add: Let_def mask_low_byte update_halfword)
  next
    case (SBra l)
    then obtain t where t: "labels ! l = Some t" using Cons.prems(1) by (auto simp: labels_placed_def)
    show ?thesis using IH [of "branch_word KBra t (length pre)"] SBra t
      by (simp add: Let_def mask_low_byte update_halfword)
  qed (use IH in simp_all)
qed simp

lemma patch_literals_Cons:
  "patch_literals ps ((o1, k) # bps) body =
     patch_literals ps bps (body[Suc o1 := of_nat (literal_disp ps (o1, k))])"
  by (simp add: patch_literals_def)

lemma enc_mov_l_low: "(ucast (enc_mov_l_disp_pc r d) :: u8) = d"
  unfolding enc_mov_l_disp_pc_def nibble_fields nibble_opcodes by simp

lemma enc_mov_l_high: "(ucast (drop_bit 8 (enc_mov_l_disp_pc r d)) :: u8) = ucast (drop_bit 8 (enc_mov_l_disp_pc r 0))"
  by (rule bit_word_eqI)
    (auto simp: enc_mov_l_disp_pc_def bit_ucast_iff bit_drop_bit_eq bit_or_iff simp del: bit_numeral_word_iff
      dest: bit_imp_le_length)

lemma update_literal:
  "(pre @ be16w (enc_mov_l_disp_pc r 0) @ post)[Suc (length pre) := d] = pre @ be16w (enc_mov_l_disp_pc r d) @ post"
  using enc_mov_l_high [of r d] by (simp add: be16w_bytes list_update_append enc_mov_l_low)

lemma patch_literals_final:
  "patch_literals ps (literal_sites (length pre) k ss) (pre @ concat (map be16w (branch_final labels (length pre) ss)) @ post) =
    pre @ concat (map be16w (final_words labels ps (length pre) k ss)) @ post"
proof (induction ss arbitrary: pre k)
  case Nil
  then show ?case by (simp add: patch_literals_def)
next
  case (Cons x ss)
  note IH = Cons.IH [of "pre @ be16w w" for w]
  show ?case
  proof (cases x)
    case (SLit r v)
    then show ?thesis using IH [of "enc_mov_l_disp_pc r (of_nat (literal_disp ps (length pre, k)))" "Suc k"]
      by (simp add: patch_literals_Cons update_literal)
  qed (use IH in simp_all)
qed

lemma fold_emit_be32: "fold (\<lambda>v b. emit_be32 b v) vs body = body @ concat (map be32 vs)"
  by (induction vs arbitrary: body) (auto simp: emit_be32_append)

lemma finalize_reads:
  assumes "reads fe ss" "labels_placed (fe_labels fe) ss"
  shows "finalize fe = Some (concat (map be16w
      (final_words (fe_labels fe) (pool_offset (length ss)) 0 0 ss @ [enc_rts, enc_nop] @ pad_words (length ss))) @
    concat (map be32 (literals ss)))"
proof -
  let ?b = "concat (map be16w (branch_final (fe_labels fe) 0 ss))"
  have lb: "length ?b = 2 * length ss" using length_code [of id "branch_final (fe_labels fe) 0 ss"] by simp
  have "patch_branches (fe_labels fe) (fe_branches fe) (fe_body fe) = Some ?b"
    using patch_branches_final [OF assms(2), of "[]" "[]"] assms(1) by (simp add: reads_def)
  moreover have "while_option (\<lambda>b. length b mod 4 \<noteq> 0) (\<lambda>b. emit_be16 b enc_nop)
      (emit_be16 (emit_be16 ?b enc_rts) enc_nop) =
      Some (?b @ be16w enc_rts @ be16w enc_nop @ concat (map be16w (pad_words (length ss))))"
    using pad_loop [of "?b @ be16w enc_rts @ be16w enc_nop" "length ss"] lb by (simp add: emit_be16_append)
  moreover have "length (?b @ be16w enc_rts @ be16w enc_nop @ concat (map be16w (pad_words (length ss)))) =
      pool_offset (length ss)"
    using lb by (simp add: pool_offset_def pad_words_def)
  ultimately show ?thesis
    using patch_literals_final [of "pool_offset (length ss)" "[]" 0 ss "fe_labels fe"] assms(1)
    by (simp add: finalize_def fold_emit_be32 reads_def)
qed

end
