(* ===== verification/Codegen_Run.thy ===== *)
theory Codegen_Run
  imports Codegen_Emit
begin

text \<open>
  Running finalised code: what the SH-2A machine does at every symbolic instruction of an emitted
  program that is loaded at a 4-aligned address. The code is at most 1028 bytes long, so that every
  literal is in reach of its 8-bit displacement, and the stores stay clear of it.
\<close>

section \<open>Loaded code\<close>

definition loaded :: "memory \<Rightarrow> u32 \<Rightarrow> bytes \<Rightarrow> bool" where
  "loaded mem base code \<longleftrightarrow> (\<forall>i < length code. mem (base + of_nat i) = code ! i)"

definition code_words :: "nat option list \<Rightarrow> sym list \<Rightarrow> u16 list" where
  "code_words labels ss =
     final_words labels (pool_offset (length ss)) 0 0 ss @ [enc_rts, enc_nop] @ pad_words (length ss)"

definition code_bytes :: "nat option list \<Rightarrow> sym list \<Rightarrow> bytes" where
  "code_bytes labels ss = concat (map be16w (code_words labels ss)) @ concat (map be32 (literals ss))"

text \<open>A longword access at \<open>a\<close> does not meet \<open>n\<close> bytes at \<open>base\<close>.\<close>

definition clear_of :: "u32 \<Rightarrow> u32 \<Rightarrow> nat \<Rightarrow> bool" where
  "clear_of a base n \<longleftrightarrow> (\<forall>i < n. base + of_nat i \<notin> {a, a + 1, a + 2, a + 3})"

definition placed :: "nat option list \<Rightarrow> sym list \<Rightarrow> u32 \<Rightarrow> (u32 \<Rightarrow> bool) \<Rightarrow> memory \<Rightarrow> bool" where
  "placed labels ss base writable mem \<longleftrightarrow>
     aligned4 base \<and> loaded mem base (code_bytes labels ss) \<and> length (code_bytes labels ss) < 1032 \<and>
     (\<forall>a. writable a \<longrightarrow> aligned4 a \<and> clear_of a base (length (code_bytes labels ss)))"

lemma loaded_append:
  "loaded mem base (xs @ ys) \<longleftrightarrow> loaded mem base xs \<and> loaded mem (base + of_nat (length xs)) ys"
  (is "?l \<longleftrightarrow> ?r")
proof
  assume ?l
  show ?r
  proof
    show "loaded mem base xs" using \<open>?l\<close> by (auto simp: loaded_def nth_append)
    show "loaded mem (base + of_nat (length xs)) ys" unfolding loaded_def
    proof (intro allI impI)
      fix i assume "i < length ys"
      with \<open>?l\<close> have "mem (base + of_nat (length xs + i)) = ys ! i"
        unfolding loaded_def by (metis add_diff_cancel_left' length_append nat_add_left_cancel_less not_add_less1 nth_append)
      then show "mem (base + of_nat (length xs) + of_nat i) = ys ! i" by (simp add: add.assoc)
    qed
  qed
next
  assume r: ?r
  show ?l unfolding loaded_def
  proof (intro allI impI)
    fix i assume i: "i < length (xs @ ys)"
    show "mem (base + of_nat i) = (xs @ ys) ! i"
    proof (cases "i < length xs")
      case True
      with r show ?thesis by (simp add: loaded_def nth_append)
    next
      case False
      then have "i - length xs < length ys" using i by simp
      with r have "mem (base + of_nat (length xs) + of_nat (i - length xs)) = ys ! (i - length xs)"
        unfolding loaded_def by blast
      moreover have "base + of_nat (length xs) + of_nat (i - length xs) = base + of_nat i"
        using False by (simp add: add.assoc flip: of_nat_add)
      ultimately show ?thesis using False by (simp add: nth_append)
    qed
  qed
qed

lemma loaded_cons: "loaded mem base (x # xs) \<longleftrightarrow> mem base = x \<and> loaded mem (base + 1) xs"
  using loaded_append [of mem base "[x]" xs] by (simp add: loaded_def)

lemma load16_be16w: "loaded mem a (be16w w) \<Longrightarrow> load16 mem a = w"
proof -
  assume "loaded mem a (be16w w)"
  then have "load16 mem a = push_bit 8 (ucast (ucast (drop_bit 8 w) :: u8)) OR ucast (ucast w :: u8)"
    by (simp add: load16_def be16w_bytes loaded_cons)
  also have "\<dots> = w"
    by (rule bit_word_eqI) (auto simp: bit_or_iff bit_push_bit_iff bit_ucast_iff bit_drop_bit_eq)
  finally show ?thesis .
qed

lemma load32_be32: "loaded mem a (be32 v) \<Longrightarrow> load32 mem a = v"
proof -
  assume "loaded mem a (be32 v)"
  then have "load32 mem a = push_bit 24 (ucast (byte_at 24 v)) OR push_bit 16 (ucast (byte_at 16 v)) OR
      push_bit 8 (ucast (byte_at 8 v)) OR (ucast (byte_at 0 v) :: u32)"
    by (simp add: load32_def be32_def loaded_cons add.assoc del: byte_at_0)
  also have "\<dots> = v"
  proof (rule bit_word_eqI)
    fix n :: nat
    assume "n < LENGTH(32)"
    then consider "n < 8" | "8 \<le> n" "n < 16" | "16 \<le> n" "n < 24" | "24 \<le> n" "n < 32" by fastforce
    then show "bit (push_bit 24 (ucast (byte_at 24 v)) OR push_bit 16 (ucast (byte_at 16 v)) OR
        push_bit 8 (ucast (byte_at 8 v)) OR (ucast (byte_at 0 v) :: u32)) n = bit v n"
      by cases (auto simp: bit_or_iff bit_push_bit_iff simp del: byte_at_0)
  qed
  finally show ?thesis .
qed

lemma loaded_chunk:
  assumes "loaded mem base (concat (map f xs))" "i < length xs" "\<And>x. length (f x) = n"
  shows "loaded mem (base + of_nat (n * i)) (f (xs ! i))"
proof -
  have "xs = take i xs @ xs ! i # drop (Suc i) xs" using assms(2) by (rule id_take_nth_drop)
  then have "concat (map f xs) = concat (map f (take i xs)) @ f (xs ! i) @ concat (map f (drop (Suc i) xs))"
    by (metis concat.simps(2) concat_append list.simps(9) map_append)
  moreover have "length (concat (map f (take i xs))) = n * i"
    using assms(2,3) by (simp add: length_concat o_def sum_list_triv)
  ultimately show ?thesis using assms(1) by (simp add: loaded_append)
qed

section \<open>Fetching instructions and literals\<close>

lemma length_code_words: "length (code_words labels ss) = length ss + 2 + length (pad_words (length ss))"
  by (simp add: code_words_def)

lemma pool_offset_words: "pool_offset (length ss) = 2 * length (code_words labels ss)"
  by (simp add: pool_offset_def code_words_def)

lemma length_words [simp]: "length (concat (map be16w ws)) = 2 * length ws"
  by (induction ws) auto

lemma length_words32 [simp]: "length (concat (map be32 vs)) = 4 * length vs"
  by (induction vs) auto

lemma length_code_bytes:
  "length (code_bytes labels ss) = pool_offset (length ss) + 4 * length (literals ss)"
  by (simp add: code_bytes_def pool_offset_words [of ss labels])

lemma fetch_word:
  assumes "loaded mem base (code_bytes labels ss)" "i < length (code_words labels ss)"
  shows "fetch mem (base + of_nat (2 * i)) = decode_instr (code_words labels ss ! i)"
proof -
  have "loaded mem base (concat (map be16w (code_words labels ss)))"
    using assms(1) by (simp add: code_bytes_def loaded_append)
  from loaded_chunk [OF this assms(2)] show ?thesis by (simp add: fetch_def load16_be16w)
qed

lemma load_literal:
  assumes "loaded mem base (code_bytes labels ss)" "k < length (literals ss)"
  shows "load32 mem (base + of_nat (pool_offset (length ss) + 4 * k)) = literals ss ! k"
proof -
  have "loaded mem (base + of_nat (pool_offset (length ss))) (concat (map be32 (literals ss)))"
    using assms(1) by (simp add: code_bytes_def loaded_append pool_offset_words [of ss labels])
  from loaded_chunk [OF this assms(2)] show ?thesis by (simp add: load32_be32 add.assoc)
qed

lemma and_not_3: "(w AND NOT 3 :: u32) = w - take_bit 2 w"
proof -
  have m: "(3 :: u32) = mask 2" by (simp add: mask_eq_exp_minus_1)
  have "(w AND NOT (mask 2)) OR take_bit 2 w = w" "(w AND NOT (mask 2)) AND take_bit 2 w = 0"
    by (rule bit_word_eqI, auto simp: bit_or_iff bit_and_iff bit_not_iff bit_mask_iff bit_take_bit_iff)+
  then have "(w AND NOT (mask 2)) + take_bit 2 w = w" by (metis disjunctive_add_eq_or)
  then show ?thesis unfolding m by (metis add_diff_cancel_right')
qed

lemma aligned_offset:
  assumes "aligned4 base"
  shows "(base + of_nat x) AND NOT 3 = base + of_nat (x - x mod 4)"
proof -
  have m: "(3 :: u32) = mask 2" by (simp add: mask_eq_exp_minus_1)
  have "take_bit 2 base = 0" using assms by (simp add: aligned4_def m take_bit_eq_mask)
  then have b: "unat base mod 4 = 0"
    by (metis take_bit_eq_mod unsigned_0 unsigned_take_bit_eq power2_eq_square mult_2 numeral_Bit0 one_add_one)
  have "unat (base + of_nat x) mod 4 = (unat base + x) mod 4"
  proof -
    have "unat (base + of_nat x) = (unat base + x) mod 2 ^ 32"
      by (simp add: unat_word_ariths unat_of_nat mod_simps)
    moreover have "(4 :: nat) dvd 2 ^ 32" by (simp add: dvd_def)
    ultimately show ?thesis by (simp only: mod_mod_cancel)
  qed
  also have "\<dots> = x mod 4" using b by (metis add.commute mod_add_right_eq add_0_right)
  finally have "unat (take_bit 2 (base + of_nat x)) = x mod 4"
    by (simp only: unsigned_take_bit_eq) (simp add: take_bit_eq_mod)
  then have "take_bit 2 (base + of_nat x) = of_nat (x mod 4)" by (simp add: word_unat_eq_iff unat_of_nat take_bit_eq_mod)
  moreover have "of_nat x - of_nat (x mod 4) = (of_nat (x - x mod 4) :: u32)"
    by (simp add: of_nat_diff)
  ultimately show ?thesis unfolding and_not_3 by (simp add: add_diff_eq)
qed

section \<open>One step of the machine\<close>

text \<open>The code address of the \<open>i\<close>-th symbolic instruction.\<close>

definition at_index :: "u32 \<Rightarrow> nat \<Rightarrow> u32" where
  "at_index base i = base + of_nat (2 * i)"

lemma at_index_Suc: "at_index base i + 2 = at_index base (Suc i)"
  by (simp add: at_index_def algebra_simps)

lemma placed_length: "placed labels ss base writable mem \<Longrightarrow> 2 * length ss + 4 + 4 * length (literals ss) < 1032"
  by (simp add: placed_def length_code_bytes pool_offset_def)

lemma placed_fetch:
  assumes "placed labels ss base writable mem" "i < length ss"
  shows "fetch mem (at_index base i) = decode_instr (final_word labels (pool_offset (length ss)) (2 * i)
    (length (literals (take i ss))) (ss ! i))"
proof -
  have "code_words labels ss ! i = final_word labels (pool_offset (length ss)) (2 * i)
      (length (literals (take i ss))) (ss ! i)"
    using assms(2) by (simp add: code_words_def nth_append final_words_nth)
  with fetch_word [of mem base labels ss i] assms show ?thesis
    by (simp add: placed_def at_index_def length_code_words)
qed

lemma placed_fetch_end:
  assumes "placed labels ss base writable mem"
  shows "fetch mem (at_index base (length ss)) = Some Rts"
    "fetch mem (at_index base (length ss) + 2) = Some Nop"
  using assms fetch_word [of mem base labels ss "length ss"] fetch_word [of mem base labels ss "Suc (length ss)"]
  unfolding at_index_Suc by (simp_all add: placed_def code_words_def nth_append at_index_def)

lemmas set_defs = set_r_def set_fr_def set_t_def

text \<open>What a symbolic instruction does when it is no branch. A store must go to a writable address.\<close>

fun sym_effect :: "fpu \<Rightarrow> (u32 \<Rightarrow> bool) \<Rightarrow> sym \<Rightarrow> sh2a \<Rightarrow> sh2a option" where
  "sym_effect f writable (SLit r v) s = Some (set_r r v s)"
| "sym_effect f writable (SInstr w) s =
     (case decode_instr w of
        None \<Rightarrow> None
      | Some (MovLitPC r d) \<Rightarrow> None
      | Some (MovStore m n) \<Rightarrow>
          if writable (sh_r s n) then effect f (MovStore m n) s else None
      | Some i \<Rightarrow> effect f i s)"
| "sym_effect f writable _ s = None"

lemma literal_take:
  assumes "i < length ss" "ss ! i = SLit r v"
  shows "length (literals (take i ss)) < length (literals ss)"
    "literals ss ! length (literals (take i ss)) = v"
proof -
  have "ss = take i ss @ ss ! i # drop (Suc i) ss" using assms(1) by (rule id_take_nth_drop)
  then have "literals ss = literals (take i ss) @ v # literals (drop (Suc i) ss)"
    using assms(2) by (metis literals.simps(2) literals_append)
  then show "length (literals (take i ss)) < length (literals ss)"
    "literals ss ! length (literals (take i ss)) = v" by simp_all
qed

lemma ucast_of_nat_u8:
  assumes "n < 256"
  shows "ucast (of_nat n :: u8) = (of_nat n :: u32)"
proof -
  have "unat (of_nat n :: u8) = n" using assms by (simp add: unat_of_nat take_bit_eq_mod)
  then show ?thesis by (metis of_nat_unat)
qed

lemma literal_load:
  assumes "placed labels ss base writable mem" "i < length ss" "ss ! i = SLit r v"
  shows "load32 mem (((at_index base i + 4) AND NOT 3) +
    ucast (of_nat (literal_disp (pool_offset (length ss)) (2 * i, length (literals (take i ss)))) :: u8) * 4) = v"
proof -
  let ?k = "length (literals (take i ss))" and ?ps = "pool_offset (length ss)"
  let ?al = "(2 * i + 4) - (2 * i + 4) mod 4" and ?d = "literal_disp ?ps (2 * i, ?k)"
  note lit = literal_take [OF assms(2,3)]
  have al: "?al mod 4 = 0" "4 \<le> ?al" "?al \<le> ?ps"
  proof -
    have "(x - x mod 4) mod 4 = 0" for x :: nat by (simp add: minus_mod_eq_mult_div)
    then show "?al mod 4 = 0" .
    show "4 \<le> ?al" by presburger
    show "?al \<le> ?ps" using assms(2) by (simp add: pool_offset_def)
  qed
  have "4 dvd ?ps" "4 dvd ?al" using pool_offset_mod [of "length ss"] al(1) mod_0_imp_dvd by blast+
  then have "4 dvd ?ps + ?k * 4 - ?al" by (metis dvd_add dvd_diff_nat dvd_triv_right)
  then have d: "?d * 4 = ?ps + ?k * 4 - ?al"
    unfolding literal_disp_def Let_def fst_conv snd_conv by (rule dvd_div_mult_self)
  have "length (code_bytes labels ss) < 1032" using assms(1) by (simp add: placed_def)
  then have "?d < 256" using d al(2) lit(1) by (simp add: length_code_bytes)
  then have "ucast (of_nat ?d :: u8) = (of_nat ?d :: u32)" by (rule ucast_of_nat_u8)
  then have "((at_index base i + 4) AND NOT 3) + ucast (of_nat ?d :: u8) * 4 =
      ((base + of_nat (2 * i + 4)) AND NOT 3) + of_nat (?d * 4)"
    by (simp add: at_index_def algebra_simps)
  also have "\<dots> = base + of_nat ?al + of_nat (?d * 4)"
    using aligned_offset [of base "2 * i + 4"] assms(1) by (simp add: placed_def)
  also have "\<dots> = base + of_nat (?al + ?d * 4)" by (simp add: algebra_simps)
  also have "?al + ?d * 4 = ?ps + 4 * ?k" using d al(3) by simp
  finally show ?thesis
    using load_literal [of mem base labels ss ?k] assms(1) lit by (simp add: placed_def)
qed

lemma effect_pc: "effect f i s = Some s' \<Longrightarrow> sh_pc s' = sh_pc s \<and> sh_pr s' = sh_pr s"
  by (cases i) (auto simp: set_defs split: if_splits)

lemma sym_effect_pc: "sym_effect f writable x s = Some s' \<Longrightarrow> sh_pc s' = sh_pc s \<and> sh_pr s' = sh_pr s"
  by (cases x) (auto simp: set_defs effect_pc split: option.splits instr.splits if_splits dest: effect_pc)

lemma step_sym:
  assumes "placed labels ss base writable (sh_mem s)" "i < length ss" "sh_pc s = at_index base i"
    and "sym_effect f writable (ss ! i) s = Some s'"
  shows "step f s = Some (s'\<lparr>sh_pc := at_index base (Suc i)\<rparr>)"
proof (cases "ss ! i")
  case (SLit r v)
  then show ?thesis
    using placed_fetch [OF assms(1,2)] literal_load [OF assms(1,2) SLit] assms(3,4)
    by (simp add: step_def at_index_Suc)
next
  case (SInstr w)
  with assms(4) obtain ins where ins: "decode_instr w = Some ins" by (auto split: option.splits)
  then show ?thesis
    using placed_fetch [OF assms(1,2)] assms(3,4) SInstr
    by (cases ins) (auto simp: step_def at_index_Suc split: if_splits)
qed (use assms(4) in auto)

section \<open>Stores keep the code\<close>

lemma placed_store:
  assumes "placed labels ss base writable mem" "writable a"
  shows "placed labels ss base writable (store32 mem a v)"
proof -
  have "clear_of a base (length (code_bytes labels ss))" using assms by (simp add: placed_def)
  then have "store32 mem a v (base + of_nat i) = mem (base + of_nat i)" if "i < length (code_bytes labels ss)" for i
    using that by (auto simp: clear_of_def store32_def)
  then show ?thesis using assms by (simp add: placed_def loaded_def)
qed

lemma sym_effect_placed:
  assumes "sym_effect f writable x s = Some s'" "placed labels ss base writable (sh_mem s)"
  shows "placed labels ss base writable (sh_mem s')"
proof (cases x)
  case (SInstr w)
  then obtain ins where "decode_instr w = Some ins" using assms(1) by (auto split: option.splits)
  then show ?thesis using SInstr assms
    by (cases ins) (auto simp: set_defs split: if_splits intro: placed_store)
qed (use assms in \<open>auto simp: set_r_def\<close>)

section \<open>Runs of symbolic instructions\<close>

fun sym_run :: "fpu \<Rightarrow> (u32 \<Rightarrow> bool) \<Rightarrow> sym list \<Rightarrow> sh2a \<Rightarrow> sh2a option" where
  "sym_run f writable [] s = Some s"
| "sym_run f writable (x # xs) s =
     (case sym_effect f writable x s of None \<Rightarrow> None | Some s' \<Rightarrow> sym_run f writable xs s')"

lemma sym_effect_update_pc:
  assumes "sym_effect f writable x s = Some s'"
  shows "sym_effect f writable x (s\<lparr>sh_pc := p\<rparr>) = Some (s'\<lparr>sh_pc := p\<rparr>)"
proof (cases x)
  case (SInstr w)
  then obtain ins where "decode_instr w = Some ins" using assms by (auto split: option.splits)
  then show ?thesis using SInstr assms
    by (cases ins) (auto simp: set_defs split: if_splits)
qed (use assms in \<open>auto simp: set_r_def\<close>)

lemma sym_run_update_pc:
  "sym_run f writable xs s = Some s' \<Longrightarrow> sym_run f writable xs (s\<lparr>sh_pc := p\<rparr>) = Some (s'\<lparr>sh_pc := p\<rparr>)"
  by (induction xs arbitrary: s) (auto split: option.splits simp: sym_effect_update_pc)

lemma sym_run_placed:
  "sym_run f writable xs s = Some s' \<Longrightarrow> placed labels ss base writable (sh_mem s) \<Longrightarrow>
   placed labels ss base writable (sh_mem s')"
  by (induction xs arbitrary: s) (auto split: option.splits dest: sym_effect_placed)

lemma reaches_run:
  assumes "placed labels ss base writable (sh_mem s)" "sh_pc s = at_index base i"
    and "ss = pre @ xs @ post" "length pre = i" "sym_run f writable xs s = Some s'"
  shows "reaches f s (s'\<lparr>sh_pc := at_index base (i + length xs)\<rparr>)"
  using assms
proof (induction xs arbitrary: pre i s s')
  case Nil
  then have "s\<lparr>sh_pc := at_index base (i + length ([] :: sym list))\<rparr> = s" "s' = s" by simp_all
  then show ?case by (simp only: reaches_refl)
next
  case (Cons x xs)
  from Cons.prems(5) obtain s1 where s1: "sym_effect f writable x s = Some s1" "sym_run f writable xs s1 = Some s'"
    by (auto split: option.splits)
  let ?s1 = "s1\<lparr>sh_pc := at_index base (Suc i)\<rparr>"
  have "i < length ss" "ss ! i = x" using Cons.prems(3,4) by auto
  then have "step f s = Some ?s1" using step_sym [OF Cons.prems(1) _ Cons.prems(2)] s1(1) by simp
  moreover have "reaches f ?s1 (s'\<lparr>sh_pc := at_index base (Suc i)\<rparr>\<lparr>sh_pc := at_index base (Suc i + length xs)\<rparr>)"
  proof (rule Cons.IH)
    show "placed labels ss base writable (sh_mem ?s1)" using sym_effect_placed [OF s1(1) Cons.prems(1)] by simp
    show "sh_pc ?s1 = at_index base (Suc i)" by simp
    show "ss = (pre @ [x]) @ xs @ post" "length (pre @ [x]) = Suc i" using Cons.prems(3,4) by simp_all
    show "sym_run f writable xs ?s1 = Some (s'\<lparr>sh_pc := at_index base (Suc i)\<rparr>)"
      using s1(2) by (rule sym_run_update_pc)
  qed
  ultimately show ?case by (auto intro: reaches_step)
qed

text \<open>The end of the code returns to the caller.\<close>

lemma reaches_return:
  assumes "placed labels ss base writable (sh_mem s)" "sh_pc s = at_index base (length ss)"
  shows "reaches f s (s\<lparr>sh_pc := sh_pr s\<rparr>)"
proof -
  have "step f s = Some (s\<lparr>sh_pc := sh_pr s\<rparr>)"
    using placed_fetch_end [OF assms(1)] assms(2) by (simp add: step_def branch_delayed_def)
  then show ?thesis by (auto intro: reaches_step)
qed

section \<open>Branches\<close>

lemma sint_word_of_int:
  "- (2 ^ 31) \<le> k \<Longrightarrow> k < 2 ^ 31 \<Longrightarrow> sint (word_of_int k :: u32) = k"
  by (simp add: signed_of_int signed_take_bit_int_eq_self)

lemma branch_distance:
  assumes "i < 1000" "j < 1000"
  shows "sint (of_nat (2 * j) - of_nat (2 * i) - 4 :: u32) sdiv 2 = int j - int i - 2"
proof -
  have "(of_nat (2 * j) - of_nat (2 * i) - 4 :: u32) = word_of_int (2 * (int j - int i - 2))" by simp
  moreover have "- (2 ^ 31) \<le> 2 * (int j - int i - 2)" "2 * (int j - int i - 2) < 2 ^ 31" using assms by auto
  then have "sint (word_of_int (2 * (int j - int i - 2)) :: u32) = 2 * (int j - int i - 2)"
    by (rule sint_word_of_int)
  moreover have "2 * x sdiv 2 = x" for x :: int by (simp add: signed_divide_int_def sgn_mult abs_mult sgn_mult_abs)
  ultimately show ?thesis by metis
qed

lemma scast_word_of_int_u8:
  assumes "- 128 \<le> k" "k < 128"
  shows "scast (word_of_int k :: u8) = (word_of_int k :: u32)"
proof -
  have "sint (word_of_int k :: u8) = k" using assms by (simp add: signed_of_int signed_take_bit_int_eq_self)
  then show ?thesis by (metis of_int_sint)
qed

lemma scast_word_of_int_12:
  assumes "- 2048 \<le> k" "k < 2048"
  shows "scast (ucast ((word_of_int k :: u16) AND 0x0FFF) :: 12 word) = (word_of_int k :: u32)"
proof -
  have m: "(0x0FFF :: u16) = mask 12" by (simp add: mask_eq_exp_minus_1)
  have "(ucast ((word_of_int k :: u16) AND 0x0FFF) :: 12 word) = word_of_int k"
    unfolding m by (rule bit_word_eqI) (simp add: bit_ucast_iff bit_and_iff bit_mask_iff bit_word_of_int_iff)
  moreover have "sint (word_of_int k :: 12 word) = k"
    using assms by (simp add: signed_of_int signed_take_bit_int_eq_self)
  ultimately show ?thesis by (metis of_int_sint)
qed

lemma index_distance: "at_index base i + 4 + 2 * word_of_int (int j - int i - 2) = at_index base j"
  by (simp add: at_index_def algebra_simps)

text \<open>The targets of the branches the code generator emits are at most 60 instructions away.\<close>

definition near :: "nat \<Rightarrow> nat \<Rightarrow> bool" where
  "near i j \<longleftrightarrow> \<bar>int j - int i\<bar> \<le> 60"

lemma placed_index: "placed labels ss base writable mem \<Longrightarrow> length ss < 1000"
  using placed_length [of labels ss base writable mem] by simp

lemma step_bt:
  assumes "placed labels ss base writable (sh_mem s)" "i < length ss" "sh_pc s = at_index base i"
    and "ss ! i = SBt l" "labels ! l = Some (2 * j)" "j \<le> length ss" "near i j"
  shows "step f s = Some (s\<lparr>sh_pc := at_index base (if sh_t s then j else Suc i)\<rparr>)"
proof -
  note len = placed_index [OF assms(1)]
  have "sint (of_nat (2 * j) - of_nat (2 * i) - 4 :: u32) sdiv 2 = int j - int i - 2"
    using assms(2,6) len by (intro branch_distance) auto
  moreover have "scast (word_of_int (int j - int i - 2) :: u8) = (word_of_int (int j - int i - 2) :: u32)"
    using assms(7) by (intro scast_word_of_int_u8) (auto simp: near_def)
  ultimately show ?thesis
    using placed_fetch [OF assms(1,2)] assms(3-5) index_distance [of base i j]
    by (simp add: step_def at_index_Suc branch_word_def Let_def bt_target_def)
qed

lemma step_bra_nop:
  assumes "placed labels ss base writable (sh_mem s)" "Suc i < length ss" "sh_pc s = at_index base i"
    and "ss ! i = SBra l" "ss ! Suc i = SInstr enc_nop" "labels ! l = Some (2 * j)" "j \<le> length ss" "near i j"
  shows "step f s = Some (s\<lparr>sh_pc := at_index base j\<rparr>)"
proof -
  note len = placed_index [OF assms(1)]
  have "sint (of_nat (2 * j) - of_nat (2 * i) - 4 :: u32) sdiv 2 = int j - int i - 2"
    using assms(2,7) len by (intro branch_distance) auto
  moreover have "scast (ucast ((word_of_int (int j - int i - 2) :: u16) AND 0x0FFF) :: 12 word) =
      (word_of_int (int j - int i - 2) :: u32)"
    using assms(8) by (intro scast_word_of_int_12) (auto simp: near_def)
  ultimately show ?thesis
    using placed_fetch [OF assms(1), of i] placed_fetch [OF assms(1), of "Suc i"] assms(2-6)
      index_distance [of base i j]
    by (simp add: step_def at_index_Suc branch_word_def Let_def bra_target_def branch_delayed_def)
qed

end
