(* ===== verification/Codegen_Prims.thy ===== *)
theory Codegen_Prims
  imports Codegen_Run Core_Error
begin

text \<open>
  The body fragments of the SH-2A backend (src/feature_codegen/src/feature_codegen.cpp, from
  \<open>load_operand_into\<close> to \<open>emit_primitive_fragment\<close>): one per primitive, each loads its operands,
  computes and stores the result to a RAM address. \<open>primitive_result\<close> is what each primitive means;
  the theorems run the emitted code and find that value in memory.
\<close>

section \<open>Operands\<close>

datatype operand_kind = Constant | HookInputPointer

record primitive_operand =
  po_kind :: operand_kind
  po_value :: u32

definition load_operand_into :: "primitive_operand \<Rightarrow> reg \<Rightarrow> emitter \<Rightarrow> emitter" where
  "load_operand_into op r fe =
     (let fe = fe_mov_l_disp_pc r (po_value op) fe in
      if po_kind op = HookInputPointer then fe_emit (enc_mov_l_at_reg_reg r r) fe else fe)"

definition emit_store_r1_to :: "u32 \<Rightarrow> emitter \<Rightarrow> emitter" where
  "emit_store_r1_to dst fe =
     (let fe = fe_mov_l_disp_pc 2 dst fe in fe_emit (enc_mov_l_reg_at_reg 1 2) fe)"

definition load_operand_into_fr :: "primitive_operand \<Rightarrow> reg \<Rightarrow> emitter \<Rightarrow> emitter" where
  "load_operand_into_fr op frn fe =
     (let fe = fe_mov_l_disp_pc 0 (po_value op) fe;
          fe = (if po_kind op = HookInputPointer then fe_emit (enc_mov_l_at_reg_reg 0 0) fe else fe);
          fe = fe_emit (enc_lds_r_fpul 0) fe in
      fe_emit (enc_fsts_fpul_freg frn) fe)"

definition emit_store_fr_to :: "reg \<Rightarrow> u32 \<Rightarrow> emitter \<Rightarrow> emitter" where
  "emit_store_fr_to frm dst fe =
     (let fe = fe_emit (enc_flds_freg_fpul frm) fe; fe = fe_emit (enc_sts_fpul_r 1) fe in
      emit_store_r1_to dst fe)"

definition load_int_operand_into_fr_via_float :: "primitive_operand \<Rightarrow> reg \<Rightarrow> emitter \<Rightarrow> emitter" where
  "load_int_operand_into_fr_via_float op frn fe =
     (let fe = fe_mov_l_disp_pc 0 (po_value op) fe;
          fe = (if po_kind op = HookInputPointer then fe_emit (enc_mov_l_at_reg_reg 0 0) fe else fe);
          fe = fe_emit (enc_lds_r_fpul 0) fe in
      fe_emit (enc_float_fpul_freg frn) fe)"

definition emit_store_fr_truncated_to_int :: "reg \<Rightarrow> u32 \<Rightarrow> emitter \<Rightarrow> emitter" where
  "emit_store_fr_truncated_to_int frm dst fe =
     (let fe = fe_emit (enc_ftrc_freg_fpul frm) fe; fe = fe_emit (enc_sts_fpul_r 1) fe in
      emit_store_r1_to dst fe)"

section \<open>Fragments\<close>

definition emit_add_fragment :: "primitive_operand \<Rightarrow> primitive_operand \<Rightarrow> u32 \<Rightarrow> emitter \<Rightarrow> emitter" where
  "emit_add_fragment op1 op2 dst fe =
     (let fe = load_operand_into op1 0 fe; fe = load_operand_into op2 1 fe; fe = fe_emit (enc_add 0 1) fe in
      emit_store_r1_to dst fe)"

definition emit_sub_fragment :: "primitive_operand \<Rightarrow> primitive_operand \<Rightarrow> u32 \<Rightarrow> emitter \<Rightarrow> emitter" where
  "emit_sub_fragment op1 op2 dst fe =
     (let fe = load_operand_into op2 0 fe; fe = load_operand_into op1 1 fe; fe = fe_emit (enc_sub 0 1) fe in
      emit_store_r1_to dst fe)"

definition emit_mul_fragment :: "primitive_operand \<Rightarrow> primitive_operand \<Rightarrow> u32 \<Rightarrow> emitter \<Rightarrow> emitter" where
  "emit_mul_fragment op1 op2 dst fe =
     (let fe = load_operand_into op1 0 fe; fe = load_operand_into op2 1 fe;
          fe = fe_emit (enc_mul_l 0 1) fe; fe = fe_emit (enc_sts_macl 1) fe in
      emit_store_r1_to dst fe)"

definition emit_and_fragment :: "primitive_operand \<Rightarrow> primitive_operand \<Rightarrow> u32 \<Rightarrow> emitter \<Rightarrow> emitter" where
  "emit_and_fragment op1 op2 dst fe =
     (let fe = load_operand_into op1 0 fe; fe = load_operand_into op2 1 fe; fe = fe_emit (enc_and 0 1) fe in
      emit_store_r1_to dst fe)"

definition emit_or_fragment :: "primitive_operand \<Rightarrow> primitive_operand \<Rightarrow> u32 \<Rightarrow> emitter \<Rightarrow> emitter" where
  "emit_or_fragment op1 op2 dst fe =
     (let fe = load_operand_into op1 0 fe; fe = load_operand_into op2 1 fe; fe = fe_emit (enc_or 0 1) fe in
      emit_store_r1_to dst fe)"

definition emit_not_fragment :: "primitive_operand \<Rightarrow> u32 \<Rightarrow> emitter \<Rightarrow> emitter" where
  "emit_not_fragment op dst fe =
     (let fe = load_operand_into op 0 fe; fe = fe_emit (enc_tst 0 0) fe; fe = fe_emit (enc_movt 1) fe in
      emit_store_r1_to dst fe)"

definition emit_select_fragment ::
    "primitive_operand \<Rightarrow> primitive_operand \<Rightarrow> primitive_operand \<Rightarrow> u32 \<Rightarrow> emitter \<Rightarrow> emitter" where
  "emit_select_fragment cond true_val false_val dst fe =
     (let (use_false, fe) = create_label fe;
          (done_label, fe) = create_label fe;
          fe = load_operand_into cond 0 fe;
          fe = fe_emit (enc_tst 0 0) fe;
          fe = fe_bt use_false fe;
          fe = load_operand_into true_val 1 fe;
          fe = fe_bra done_label fe;
          fe = fe_emit enc_nop fe;
          fe = place_label use_false fe;
          fe = load_operand_into false_val 1 fe;
          fe = place_label done_label fe in
      emit_store_r1_to dst fe)"

definition emit_cmp_lt_fragment :: "primitive_operand \<Rightarrow> primitive_operand \<Rightarrow> u32 \<Rightarrow> emitter \<Rightarrow> emitter" where
  "emit_cmp_lt_fragment op1 op2 dst fe =
     (let fe = load_operand_into op1 0 fe; fe = load_operand_into op2 1 fe;
          fe = fe_emit (enc_cmp_gt 0 1) fe; fe = fe_emit (enc_movt 1) fe in
      emit_store_r1_to dst fe)"

definition emit_cmp_gt_fragment :: "primitive_operand \<Rightarrow> primitive_operand \<Rightarrow> u32 \<Rightarrow> emitter \<Rightarrow> emitter" where
  "emit_cmp_gt_fragment op1 op2 dst fe =
     (let fe = load_operand_into op1 0 fe; fe = load_operand_into op2 1 fe;
          fe = fe_emit (enc_cmp_gt 1 0) fe; fe = fe_emit (enc_movt 1) fe in
      emit_store_r1_to dst fe)"

definition emit_cmp_eq_fragment :: "primitive_operand \<Rightarrow> primitive_operand \<Rightarrow> u32 \<Rightarrow> emitter \<Rightarrow> emitter" where
  "emit_cmp_eq_fragment op1 op2 dst fe =
     (let fe = load_operand_into op1 0 fe; fe = load_operand_into op2 1 fe;
          fe = fe_emit (enc_cmp_eq 0 1) fe; fe = fe_emit (enc_movt 1) fe in
      emit_store_r1_to dst fe)"

definition emit_add_float_fragment :: "primitive_operand \<Rightarrow> primitive_operand \<Rightarrow> u32 \<Rightarrow> emitter \<Rightarrow> emitter" where
  "emit_add_float_fragment op1 op2 dst fe =
     (let fe = load_operand_into_fr op1 0 fe; fe = load_operand_into_fr op2 1 fe; fe = fe_emit (enc_fadd 0 1) fe in
      emit_store_fr_to 1 dst fe)"

definition emit_sub_float_fragment :: "primitive_operand \<Rightarrow> primitive_operand \<Rightarrow> u32 \<Rightarrow> emitter \<Rightarrow> emitter" where
  "emit_sub_float_fragment op1 op2 dst fe =
     (let fe = load_operand_into_fr op2 0 fe; fe = load_operand_into_fr op1 1 fe; fe = fe_emit (enc_fsub 0 1) fe in
      emit_store_fr_to 1 dst fe)"

definition emit_mul_float_fragment :: "primitive_operand \<Rightarrow> primitive_operand \<Rightarrow> u32 \<Rightarrow> emitter \<Rightarrow> emitter" where
  "emit_mul_float_fragment op1 op2 dst fe =
     (let fe = load_operand_into_fr op1 0 fe; fe = load_operand_into_fr op2 1 fe; fe = fe_emit (enc_fmul 0 1) fe in
      emit_store_fr_to 1 dst fe)"

definition emit_div_float_fragment :: "primitive_operand \<Rightarrow> primitive_operand \<Rightarrow> u32 \<Rightarrow> emitter \<Rightarrow> emitter" where
  "emit_div_float_fragment op1 op2 dst fe =
     (let fe = load_operand_into_fr op2 0 fe; fe = load_operand_into_fr op1 1 fe; fe = fe_emit (enc_fdiv 0 1) fe in
      emit_store_fr_to 1 dst fe)"

definition emit_sqrt_float_fragment :: "primitive_operand \<Rightarrow> u32 \<Rightarrow> emitter \<Rightarrow> emitter" where
  "emit_sqrt_float_fragment op dst fe =
     (let fe = load_operand_into_fr op 0 fe; fe = fe_emit (enc_fsqrt 0) fe in
      emit_store_fr_to 0 dst fe)"

text \<open>The bit patterns of \<open>0.28F / 85.0F\<close> and \<open>1.0F\<close>.\<close>

definition slope_bits :: u32 where "slope_bits = 0x3B57E220"
definition intercept_bits :: u32 where "intercept_bits = 0x3F800000"

definition emit_flex_fuel_scale_fragment :: "primitive_operand \<Rightarrow> u32 \<Rightarrow> emitter \<Rightarrow> emitter" where
  "emit_flex_fuel_scale_fragment op dst fe =
     (let slope_op = \<lparr>po_kind = Constant, po_value = slope_bits\<rparr>;
          intercept_op = \<lparr>po_kind = Constant, po_value = intercept_bits\<rparr>;
          fe = load_operand_into_fr op 0 fe;
          fe = load_operand_into_fr slope_op 1 fe;
          fe = fe_emit (enc_fmul 0 1) fe;
          fe = load_operand_into_fr intercept_op 0 fe;
          fe = fe_emit (enc_fadd 0 1) fe in
      emit_store_fr_to 1 dst fe)"

definition emit_div_int_fragment :: "primitive_operand \<Rightarrow> primitive_operand \<Rightarrow> u32 \<Rightarrow> emitter \<Rightarrow> emitter" where
  "emit_div_int_fragment op1 op2 dst fe =
     (let fe = load_int_operand_into_fr_via_float op2 0 fe;
          fe = load_int_operand_into_fr_via_float op1 1 fe;
          fe = fe_emit (enc_fdiv 0 1) fe in
      emit_store_fr_truncated_to_int 1 dst fe)"

definition emit_cmp_lt_float_fragment :: "primitive_operand \<Rightarrow> primitive_operand \<Rightarrow> u32 \<Rightarrow> emitter \<Rightarrow> emitter" where
  "emit_cmp_lt_float_fragment op1 op2 dst fe =
     (let fe = load_operand_into_fr op1 0 fe; fe = load_operand_into_fr op2 1 fe;
          fe = fe_emit (enc_fcmp_gt 0 1) fe; fe = fe_emit (enc_movt 1) fe in
      emit_store_r1_to dst fe)"

definition emit_cmp_gt_float_fragment :: "primitive_operand \<Rightarrow> primitive_operand \<Rightarrow> u32 \<Rightarrow> emitter \<Rightarrow> emitter" where
  "emit_cmp_gt_float_fragment op1 op2 dst fe =
     (let fe = load_operand_into_fr op1 0 fe; fe = load_operand_into_fr op2 1 fe;
          fe = fe_emit (enc_fcmp_gt 1 0) fe; fe = fe_emit (enc_movt 1) fe in
      emit_store_r1_to dst fe)"

definition emit_cmp_eq_float_fragment :: "primitive_operand \<Rightarrow> primitive_operand \<Rightarrow> u32 \<Rightarrow> emitter \<Rightarrow> emitter" where
  "emit_cmp_eq_float_fragment op1 op2 dst fe =
     (let fe = load_operand_into_fr op1 0 fe; fe = load_operand_into_fr op2 1 fe;
          fe = fe_emit (enc_fcmp_eq 0 1) fe; fe = fe_emit (enc_movt 1) fe in
      emit_store_r1_to dst fe)"

definition supported_primitives_text :: string where
  "supported_primitives_text =
     ''(slice supports add_int, subtract_int, multiply_int, divide_int, compare_lt_int, compare_gt_int, '' @
     ''compare_eq_int, and_bool, or_bool, not_bool, select_int, select_bool, select_float, add_float, '' @
     ''subtract_float, multiply_float, divide_float, sqrt_float, compare_lt_float, compare_gt_float, '' @
     ''compare_eq_float, flex_fuel_scale)''"

definition emit_primitive_fragment ::
    "string \<Rightarrow> primitive_operand list \<Rightarrow> u32 \<Rightarrow> emitter \<Rightarrow> emitter result" where
  "emit_primitive_fragment prim ops dst fe =
     (if prim = ''add_int'' then Inr (emit_add_fragment (ops ! 0) (ops ! 1) dst fe)
      else if prim = ''subtract_int'' then Inr (emit_sub_fragment (ops ! 0) (ops ! 1) dst fe)
      else if prim = ''multiply_int'' then Inr (emit_mul_fragment (ops ! 0) (ops ! 1) dst fe)
      else if prim = ''divide_int'' then Inr (emit_div_int_fragment (ops ! 0) (ops ! 1) dst fe)
      else if prim = ''compare_lt_int'' then Inr (emit_cmp_lt_fragment (ops ! 0) (ops ! 1) dst fe)
      else if prim = ''compare_gt_int'' then Inr (emit_cmp_gt_fragment (ops ! 0) (ops ! 1) dst fe)
      else if prim = ''compare_eq_int'' then Inr (emit_cmp_eq_fragment (ops ! 0) (ops ! 1) dst fe)
      else if prim = ''and_bool'' then Inr (emit_and_fragment (ops ! 0) (ops ! 1) dst fe)
      else if prim = ''or_bool'' then Inr (emit_or_fragment (ops ! 0) (ops ! 1) dst fe)
      else if prim = ''not_bool'' then Inr (emit_not_fragment (ops ! 0) dst fe)
      else if prim = ''select_int'' \<or> prim = ''select_bool'' \<or> prim = ''select_float'' then
        Inr (emit_select_fragment (ops ! 0) (ops ! 1) (ops ! 2) dst fe)
      else if prim = ''add_float'' then Inr (emit_add_float_fragment (ops ! 0) (ops ! 1) dst fe)
      else if prim = ''subtract_float'' then Inr (emit_sub_float_fragment (ops ! 0) (ops ! 1) dst fe)
      else if prim = ''multiply_float'' then Inr (emit_mul_float_fragment (ops ! 0) (ops ! 1) dst fe)
      else if prim = ''divide_float'' then Inr (emit_div_float_fragment (ops ! 0) (ops ! 1) dst fe)
      else if prim = ''sqrt_float'' then Inr (emit_sqrt_float_fragment (ops ! 0) dst fe)
      else if prim = ''flex_fuel_scale'' then Inr (emit_flex_fuel_scale_fragment (ops ! 0) dst fe)
      else if prim = ''compare_lt_float'' then Inr (emit_cmp_lt_float_fragment (ops ! 0) (ops ! 1) dst fe)
      else if prim = ''compare_gt_float'' then Inr (emit_cmp_gt_float_fragment (ops ! 0) (ops ! 1) dst fe)
      else if prim = ''compare_eq_float'' then Inr (emit_cmp_eq_float_fragment (ops ! 0) (ops ! 1) dst fe)
      else failure NotImplemented (''SH-2A backend: CallPrimitive '' @ [CHR 0x27] @ prim @ [CHR 0x27] @
        '' not yet implemented '' @ supported_primitives_text))"

section \<open>What the primitives mean\<close>

text \<open>Machine words in, machine word out; the float primitives through the \<open>fpu\<close> parameter.\<close>

definition primitive_result :: "fpu \<Rightarrow> string \<Rightarrow> u32 list \<Rightarrow> u32 option" where
  "primitive_result f prim vs =
     (case vs of
        [a] \<Rightarrow>
          if prim = ''not_bool'' then Some (of_bool (a = 0))
          else if prim = ''sqrt_float'' then Some (fp_sqrt f a)
          else if prim = ''flex_fuel_scale'' then Some (fp_add f (fp_mul f slope_bits a) intercept_bits)
          else None
      | [a, b] \<Rightarrow>
          if prim = ''add_int'' then Some (a + b)
          else if prim = ''subtract_int'' then Some (a - b)
          else if prim = ''multiply_int'' then Some (a * b)
          else if prim = ''divide_int'' then Some (fp_trunc f (fp_div f (fp_of_int f a) (fp_of_int f b)))
          else if prim = ''compare_lt_int'' then Some (of_bool (a <s b))
          else if prim = ''compare_gt_int'' then Some (of_bool (b <s a))
          else if prim = ''compare_eq_int'' then Some (of_bool (a = b))
          else if prim = ''and_bool'' then Some (a AND b)
          else if prim = ''or_bool'' then Some (a OR b)
          else if prim = ''add_float'' then Some (fp_add f b a)
          else if prim = ''subtract_float'' then Some (fp_sub f a b)
          else if prim = ''multiply_float'' then Some (fp_mul f b a)
          else if prim = ''divide_float'' then Some (fp_div f a b)
          else if prim = ''compare_lt_float'' then Some (of_bool (fp_gt f b a))
          else if prim = ''compare_gt_float'' then Some (of_bool (fp_gt f a b))
          else if prim = ''compare_eq_float'' then Some (of_bool (fp_eq f b a))
          else None
      | [c, a, b] \<Rightarrow>
          if prim = ''select_int'' \<or> prim = ''select_bool'' \<or> prim = ''select_float''
          then Some (if c \<noteq> 0 then a else b) else None
      | _ \<Rightarrow> None)"

section \<open>Fragments as symbolic code\<close>

definition load_syms :: "primitive_operand \<Rightarrow> reg \<Rightarrow> sym list" where
  "load_syms op r = SLit r (po_value op) #
     (if po_kind op = HookInputPointer then [SInstr (enc_mov_l_at_reg_reg r r)] else [])"

definition store_syms :: "u32 \<Rightarrow> sym list" where
  "store_syms dst = [SLit 2 dst, SInstr (enc_mov_l_reg_at_reg 1 2)]"

definition load_fr_syms :: "primitive_operand \<Rightarrow> reg \<Rightarrow> sym list" where
  "load_fr_syms op fr = load_syms op 0 @ [SInstr (enc_lds_r_fpul 0), SInstr (enc_fsts_fpul_freg fr)]"

definition load_float_syms :: "primitive_operand \<Rightarrow> reg \<Rightarrow> sym list" where
  "load_float_syms op fr = load_syms op 0 @ [SInstr (enc_lds_r_fpul 0), SInstr (enc_float_fpul_freg fr)]"

definition store_fr_syms :: "reg \<Rightarrow> u32 \<Rightarrow> sym list" where
  "store_fr_syms fr dst = [SInstr (enc_flds_freg_fpul fr), SInstr (enc_sts_fpul_r 1)] @ store_syms dst"

definition store_trunc_syms :: "reg \<Rightarrow> u32 \<Rightarrow> sym list" where
  "store_trunc_syms fr dst = [SInstr (enc_ftrc_freg_fpul fr), SInstr (enc_sts_fpul_r 1)] @ store_syms dst"

text \<open>\<open>emits fe xs fe'\<close>: \<open>fe'\<close> is \<open>fe\<close> with \<open>xs\<close> appended, and its labels only grew.\<close>

definition emits :: "emitter \<Rightarrow> sym list \<Rightarrow> emitter \<Rightarrow> bool" where
  "emits fe xs fe' \<longleftrightarrow> (\<forall>ss. reads fe ss \<longrightarrow> reads fe' (ss @ xs)) \<and>
     (\<exists>more. fe_labels fe' = fe_labels fe @ more)"

lemma emits_trans: "emits fe xs fe1 \<Longrightarrow> emits fe1 ys fe2 \<Longrightarrow> emits fe (xs @ ys) fe2"
  by (auto simp: emits_def)

lemma emits_sym: "emits fe [x] (emit_sym x fe)"
  by (cases x) (auto simp: emits_def fe_emit_def fe_mov_l_disp_pc_def fe_bt_def fe_bra_def reads_def
    emit_be16_append)

lemmas emits_steps =
  emits_sym [of _ "SInstr w" for w, simplified]
  emits_sym [of _ "SLit r v" for r v, simplified]
  emits_sym [of _ "SBt l" for l, simplified]
  emits_sym [of _ "SBra l" for l, simplified]

lemma emits_load: "emits fe (load_syms op r) (load_operand_into op r fe)"
  using emits_trans [OF emits_steps(2) emits_steps(1)] emits_steps(2)
  by (auto simp: load_operand_into_def load_syms_def Let_def)

lemma emits_store: "emits fe (store_syms dst) (emit_store_r1_to dst fe)"
  using emits_trans [OF emits_steps(2) emits_steps(1)]
  by (auto simp: emit_store_r1_to_def store_syms_def Let_def)

lemma emits_load_fr: "emits fe (load_fr_syms op fr) (load_operand_into_fr op fr fe)"
proof -
  have "load_operand_into_fr op fr fe =
      fe_emit (enc_fsts_fpul_freg fr) (fe_emit (enc_lds_r_fpul 0) (load_operand_into op 0 fe))"
    by (simp add: load_operand_into_fr_def load_operand_into_def Let_def)
  then show ?thesis
    using emits_trans [OF emits_load emits_trans [OF emits_steps(1) emits_steps(1)]]
    by (simp add: load_fr_syms_def)
qed

lemma emits_load_float: "emits fe (load_float_syms op fr) (load_int_operand_into_fr_via_float op fr fe)"
proof -
  have "load_int_operand_into_fr_via_float op fr fe =
      fe_emit (enc_float_fpul_freg fr) (fe_emit (enc_lds_r_fpul 0) (load_operand_into op 0 fe))"
    by (simp add: load_int_operand_into_fr_via_float_def load_operand_into_def Let_def)
  then show ?thesis
    using emits_trans [OF emits_load emits_trans [OF emits_steps(1) emits_steps(1)]]
    by (simp add: load_float_syms_def)
qed

lemma emits_store_fr: "emits fe (store_fr_syms fr dst) (emit_store_fr_to fr dst fe)"
  using emits_trans [OF emits_trans [OF emits_steps(1) emits_steps(1)] emits_store]
  by (simp add: emit_store_fr_to_def store_fr_syms_def Let_def)

lemma emits_store_trunc: "emits fe (store_trunc_syms fr dst) (emit_store_fr_truncated_to_int fr dst fe)"
  using emits_trans [OF emits_trans [OF emits_steps(1) emits_steps(1)] emits_store]
  by (simp add: emit_store_fr_truncated_to_int_def store_trunc_syms_def Let_def)

lemmas emits_intros = emits_load emits_store emits_load_fr emits_load_float emits_store_fr emits_store_trunc
  emits_steps

section \<open>Running the pieces\<close>

definition operand_value :: "memory \<Rightarrow> primitive_operand \<Rightarrow> u32" where
  "operand_value mem op =
     (case po_kind op of Constant \<Rightarrow> po_value op | HookInputPointer \<Rightarrow> load32 mem (po_value op))"

definition operand_aligned :: "primitive_operand \<Rightarrow> bool" where
  "operand_aligned op \<longleftrightarrow> (po_kind op = HookInputPointer \<longrightarrow> aligned4 (po_value op))"

lemma sym_run_append:
  "sym_run f writable (xs @ ys) s =
     (case sym_run f writable xs s of None \<Rightarrow> None | Some s' \<Rightarrow> sym_run f writable ys s')"
  by (induction xs arbitrary: s) (auto split: option.splits)

lemma run_load:
  assumes "operand_aligned op"
  shows "sym_run f writable (load_syms op r) s = Some (set_r r (operand_value (sh_mem s) op) s)"
  using assms
  by (cases "po_kind op") (simp_all add: load_syms_def operand_value_def operand_aligned_def set_r_def)

lemma run_load_fr:
  assumes "operand_aligned op"
  shows "sym_run f writable (load_fr_syms op fr) s =
    (let v = operand_value (sh_mem s) op in Some (set_fr fr v (set_r 0 v s\<lparr>sh_fpul := v\<rparr>)))"
  using run_load [OF assms] by (simp add: load_fr_syms_def sym_run_append set_defs Let_def)

lemma run_load_float:
  assumes "operand_aligned op"
  shows "sym_run f writable (load_float_syms op fr) s =
    (let v = operand_value (sh_mem s) op in Some (set_fr fr (fp_of_int f v) (set_r 0 v s\<lparr>sh_fpul := v\<rparr>)))"
  using run_load [OF assms] by (simp add: load_float_syms_def sym_run_append set_defs Let_def)

text \<open>The code keeps every register but \<open>R0\<close>, \<open>R1\<close>, \<open>R2\<close>, \<open>FR0\<close>, \<open>FR1\<close> and the transfer registers.\<close>

definition keeps :: "sh2a \<Rightarrow> sh2a \<Rightarrow> bool" where
  "keeps s s' \<longleftrightarrow> sh_pr s' = sh_pr s \<and> (\<forall>r. r \<notin> {0, 1, 2} \<longrightarrow> sh_r s' r = sh_r s r) \<and>
     (\<forall>r. r \<notin> {0, 1} \<longrightarrow> sh_fr s' r = sh_fr s r)"

lemma keeps_refl [simp]: "keeps s s"
  by (simp add: keeps_def)

lemma keeps_trans: "keeps s s1 \<Longrightarrow> keeps s1 s2 \<Longrightarrow> keeps s s2"
  by (simp add: keeps_def)

lemma run_store:
  assumes "writable dst" "aligned4 dst"
  shows "sym_run f writable (store_syms dst) s =
    Some (set_r 2 dst s\<lparr>sh_mem := store32 (sh_mem s) dst (sh_r s 1)\<rparr>)"
  using assms by (simp add: store_syms_def set_defs)

text \<open>\<open>computes f writable xs dst v s\<close>: \<open>xs\<close> stores \<open>v\<close> at \<open>dst\<close>, and nothing else in memory changes.\<close>

definition computes :: "fpu \<Rightarrow> (u32 \<Rightarrow> bool) \<Rightarrow> sym list \<Rightarrow> u32 \<Rightarrow> u32 \<Rightarrow> sh2a \<Rightarrow> bool" where
  "computes f writable xs dst v s \<longleftrightarrow>
     (\<exists>s'. sym_run f writable xs s = Some s' \<and> sh_mem s' = store32 (sh_mem s) dst v \<and> keeps s s')"

lemmas run_simps = computes_def sym_run_append run_load run_load_fr run_load_float run_store
  store_fr_syms_def store_trunc_syms_def set_defs Let_def keeps_def

lemmas emits_shapes =
  emits_trans [OF emits_load emits_trans [OF emits_load emits_trans [OF emits_steps(1) emits_store]]]
  emits_trans [OF emits_load emits_trans [OF emits_load emits_trans [OF emits_steps(1)
    emits_trans [OF emits_steps(1) emits_store]]]]
  emits_trans [OF emits_load emits_trans [OF emits_steps(1) emits_trans [OF emits_steps(1) emits_store]]]
  emits_trans [OF emits_load_fr emits_trans [OF emits_load_fr emits_trans [OF emits_steps(1) emits_store_fr]]]
  emits_trans [OF emits_load_fr emits_trans [OF emits_load_fr emits_trans [OF emits_steps(1)
    emits_trans [OF emits_steps(1) emits_store]]]]
  emits_trans [OF emits_load_fr emits_trans [OF emits_steps(1) emits_store_fr]]
  emits_trans [OF emits_load_float emits_trans [OF emits_load_float emits_trans [OF emits_steps(1) emits_store_trunc]]]
  emits_trans [OF emits_load_fr emits_trans [OF emits_load_fr emits_trans [OF emits_steps(1)
    emits_trans [OF emits_load_fr emits_trans [OF emits_steps(1) emits_store_fr]]]]]

text \<open>\<open>implements\<close>: the emitted code is some \<open>xs\<close> that computes the value from the operands in memory.\<close>

fun plain :: "sym \<Rightarrow> bool" where
  "plain (SBt l) = False"
| "plain (SBra l) = False"
| "plain _ = True"

lemma plain_pieces [simp]:
  "list_all plain (load_syms op r)" "list_all plain (store_syms dst)" "list_all plain (load_fr_syms op r)"
  "list_all plain (load_float_syms op r)" "list_all plain (store_fr_syms r dst)"
  "list_all plain (store_trunc_syms r dst)"
  by (simp_all add: load_syms_def store_syms_def load_fr_syms_def load_float_syms_def store_fr_syms_def
      store_trunc_syms_def)

definition implements ::
    "(fpu \<Rightarrow> memory \<Rightarrow> u32) \<Rightarrow> u32 \<Rightarrow> primitive_operand list \<Rightarrow> emitter \<Rightarrow> emitter \<Rightarrow> bool" where
  "implements val dst ops fe fe' \<longleftrightarrow> (\<exists>xs. emits fe xs fe' \<and> list_all plain xs \<and>
     (\<forall>f writable s. writable dst \<longrightarrow> aligned4 dst \<longrightarrow> list_all operand_aligned ops \<longrightarrow>
        computes f writable xs dst (val f (sh_mem s)) s))"

lemma implementsI:
  assumes "emits fe xs fe'" "list_all plain xs"
    and "\<And>f writable s. writable dst \<Longrightarrow> aligned4 dst \<Longrightarrow> list_all operand_aligned ops \<Longrightarrow>
      computes f writable xs dst (val f (sh_mem s)) s"
  shows "implements val dst ops fe fe'"
  using assms by (auto simp: implements_def)

lemma implements_int:
  "implements (\<lambda>f m. operand_value m a + operand_value m b) dst [a, b] fe (emit_add_fragment a b dst fe)"
  "implements (\<lambda>f m. operand_value m a - operand_value m b) dst [a, b] fe (emit_sub_fragment a b dst fe)"
  "implements (\<lambda>f m. operand_value m a AND operand_value m b) dst [a, b] fe (emit_and_fragment a b dst fe)"
  "implements (\<lambda>f m. operand_value m a OR operand_value m b) dst [a, b] fe (emit_or_fragment a b dst fe)"
  unfolding emit_add_fragment_def emit_sub_fragment_def emit_and_fragment_def emit_or_fragment_def Let_def
  by (rule implementsI, rule emits_shapes(1), simp, simp add: run_simps and.commute or.commute add.commute)+

lemma implements_int2:
  "implements (\<lambda>f m. operand_value m a * operand_value m b) dst [a, b] fe (emit_mul_fragment a b dst fe)"
  "implements (\<lambda>f m. of_bool (operand_value m a <s operand_value m b)) dst [a, b] fe (emit_cmp_lt_fragment a b dst fe)"
  "implements (\<lambda>f m. of_bool (operand_value m b <s operand_value m a)) dst [a, b] fe (emit_cmp_gt_fragment a b dst fe)"
  "implements (\<lambda>f m. of_bool (operand_value m a = operand_value m b)) dst [a, b] fe (emit_cmp_eq_fragment a b dst fe)"
  unfolding emit_mul_fragment_def emit_cmp_lt_fragment_def emit_cmp_gt_fragment_def emit_cmp_eq_fragment_def Let_def
  by (rule implementsI, rule emits_shapes(2), simp, simp add: run_simps mult.commute eq_commute)+

lemma implements_not:
  "implements (\<lambda>f m. of_bool (operand_value m a = 0)) dst [a] fe (emit_not_fragment a dst fe)"
  unfolding emit_not_fragment_def Let_def
  by (rule implementsI, rule emits_shapes(3), simp, simp add: run_simps)

lemma implements_float:
  "implements (\<lambda>f m. fp_add f (operand_value m b) (operand_value m a)) dst [a, b] fe (emit_add_float_fragment a b dst fe)"
  "implements (\<lambda>f m. fp_sub f (operand_value m a) (operand_value m b)) dst [a, b] fe (emit_sub_float_fragment a b dst fe)"
  "implements (\<lambda>f m. fp_mul f (operand_value m b) (operand_value m a)) dst [a, b] fe (emit_mul_float_fragment a b dst fe)"
  "implements (\<lambda>f m. fp_div f (operand_value m a) (operand_value m b)) dst [a, b] fe (emit_div_float_fragment a b dst fe)"
  unfolding emit_add_float_fragment_def emit_sub_float_fragment_def emit_mul_float_fragment_def
    emit_div_float_fragment_def Let_def
  by (rule implementsI, rule emits_shapes(4), simp, simp add: run_simps)+

lemma implements_float_compare:
  "implements (\<lambda>f m. of_bool (fp_gt f (operand_value m b) (operand_value m a))) dst [a, b] fe
     (emit_cmp_lt_float_fragment a b dst fe)"
  "implements (\<lambda>f m. of_bool (fp_gt f (operand_value m a) (operand_value m b))) dst [a, b] fe
     (emit_cmp_gt_float_fragment a b dst fe)"
  "implements (\<lambda>f m. of_bool (fp_eq f (operand_value m b) (operand_value m a))) dst [a, b] fe
     (emit_cmp_eq_float_fragment a b dst fe)"
  unfolding emit_cmp_lt_float_fragment_def emit_cmp_gt_float_fragment_def emit_cmp_eq_float_fragment_def Let_def
  by (rule implementsI, rule emits_shapes(5), simp, simp add: run_simps)+

lemma implements_rest:
  "implements (\<lambda>f m. fp_sqrt f (operand_value m a)) dst [a] fe (emit_sqrt_float_fragment a dst fe)"
  "implements (\<lambda>f m. fp_trunc f (fp_div f (fp_of_int f (operand_value m a)) (fp_of_int f (operand_value m b))))
     dst [a, b] fe (emit_div_int_fragment a b dst fe)"
  "implements (\<lambda>f m. fp_add f (fp_mul f slope_bits (operand_value m a)) intercept_bits) dst [a] fe
     (emit_flex_fuel_scale_fragment a dst fe)"
  unfolding emit_sqrt_float_fragment_def emit_div_int_fragment_def emit_flex_fuel_scale_fragment_def Let_def
  by (rule implementsI, rule emits_shapes(6), simp, simp add: run_simps)
     (rule implementsI, rule emits_shapes(7), simp, simp add: run_simps,
      rule implementsI, rule emits_shapes(8), simp, simp add: run_simps operand_aligned_def operand_value_def)

section \<open>Fragments in a program\<close>

text \<open>
  \<open>realizes val dst ops fe fe'\<close>: what is appended to \<open>fe\<close>, once the whole program is finalised and
  loaded, takes the machine from its first to past its last instruction, stores \<open>val\<close> at \<open>dst\<close> and
  keeps the rest of memory and the registers of the caller.
\<close>

definition runs_at ::
    "nat option list \<Rightarrow> sym list \<Rightarrow> nat \<Rightarrow> nat \<Rightarrow> (fpu \<Rightarrow> memory \<Rightarrow> u32) \<Rightarrow> u32 \<Rightarrow> bool" where
  "runs_at labels ss i n val dst \<longleftrightarrow>
     (\<forall>f base writable s. placed labels ss base writable (sh_mem s) \<longrightarrow> sh_pc s = at_index base i \<longrightarrow> writable dst \<longrightarrow>
       (\<exists>s'. reaches f s s' \<and> sh_pc s' = at_index base (i + n) \<and>
          sh_mem s' = store32 (sh_mem s) dst (val f (sh_mem s)) \<and> keeps s s'))"

definition realizes ::
    "(fpu \<Rightarrow> memory \<Rightarrow> u32) \<Rightarrow> u32 \<Rightarrow> primitive_operand list \<Rightarrow> emitter \<Rightarrow> emitter \<Rightarrow> bool" where
  "realizes val dst ops fe fe' \<longleftrightarrow>
     (\<forall>pre. reads fe pre \<longrightarrow> (\<exists>xs. reads fe' (pre @ xs) \<and>
        (\<forall>l. SBt l \<in> set xs \<or> SBra l \<in> set xs \<longrightarrow> l < length (fe_labels fe') \<and> fe_labels fe' ! l \<noteq> None) \<and>
        (list_all operand_aligned ops \<longrightarrow>
          (\<forall>more post. runs_at (fe_labels fe' @ more) (pre @ xs @ post) (length pre) (length xs) val dst)))) \<and>
     (\<exists>more. fe_labels fe' = fe_labels fe @ more)"

lemma implements_realizes:
  assumes "implements val dst ops fe fe'"
  shows "realizes val dst ops fe fe'"
proof -
  obtain xs where xs: "emits fe xs fe'" "list_all plain xs" "\<And>f writable s. writable dst \<Longrightarrow> aligned4 dst \<Longrightarrow>
      list_all operand_aligned ops \<Longrightarrow> computes f writable xs dst (val f (sh_mem s)) s"
    using assms by (auto simp: implements_def)
  have plain: "SBt l \<notin> set xs" "SBra l \<notin> set xs" for l
    using xs(2) by (auto simp: list_all_iff)
  have "runs_at (fe_labels fe' @ more) (pre @ xs @ post) (length pre) (length xs) val dst"
    if ops: "list_all operand_aligned ops" for pre more post
    unfolding runs_at_def
  proof (intro allI impI)
    fix f base writable and s :: sh2a
    assume s: "placed (fe_labels fe' @ more) (pre @ xs @ post) base writable (sh_mem s)"
      "sh_pc s = at_index base (length pre)" "writable dst"
    then have "aligned4 dst" by (simp add: placed_def)
    from xs(3) [of writable f s, OF s(3) this ops] obtain s' where s': "sym_run f writable xs s = Some s'"
        "sh_mem s' = store32 (sh_mem s) dst (val f (sh_mem s))" "keeps s s'"
      by (auto simp: computes_def)
    have "reaches f s (s'\<lparr>sh_pc := at_index base (length pre + length xs)\<rparr>)"
      by (rule reaches_run [OF s(1,2) refl refl s'(1)])
    with s'(2,3) show "\<exists>s'. reaches f s s' \<and> sh_pc s' = at_index base (length pre + length xs) \<and>
        sh_mem s' = store32 (sh_mem s) dst (val f (sh_mem s)) \<and> keeps s s'"
      by (intro exI [of _ "s'\<lparr>sh_pc := at_index base (length pre + length xs)\<rparr>"]) (simp add: keeps_def)
  qed
  with xs(1) plain show ?thesis by (auto simp: realizes_def emits_def)
qed

lemma nth_append_Suc_length: "(xs @ y # z # ys) ! Suc (length xs) = z"
  by (simp add: nth_append)

lemma length_load_syms: "length (load_syms op r) \<le> 2"
  by (simp add: load_syms_def)

definition select_head :: "primitive_operand \<Rightarrow> sym list" where
  "select_head c = load_syms c 0 @ [SInstr (enc_tst 0 0)]"

definition select_syms ::
    "primitive_operand \<Rightarrow> primitive_operand \<Rightarrow> primitive_operand \<Rightarrow> u32 \<Rightarrow> nat \<Rightarrow> sym list" where
  "select_syms c a b dst l = select_head c @ SBt l # load_syms a 1 @ SBra (Suc l) # SInstr enc_nop #
     load_syms b 1 @ store_syms dst"

definition select_else :: "primitive_operand \<Rightarrow> primitive_operand \<Rightarrow> nat" where
  "select_else c a = Suc (Suc (Suc (length (select_head c) + length (load_syms a 1))))"

lemma select_runs:
  assumes "operand_aligned c" "operand_aligned a" "operand_aligned b"
    and "labels ! l = Some (2 * (length pre + select_else c a))"
    and "labels ! Suc l = Some (2 * (length pre + select_else c a + length (load_syms b 1)))"
  shows "runs_at labels (pre @ select_syms c a b dst l @ post) (length pre) (length (select_syms c a b dst l))
    (\<lambda>f m. if operand_value m c \<noteq> 0 then operand_value m a else operand_value m b) dst"
  unfolding runs_at_def
proof (intro allI impI)
  let ?ss = "pre @ select_syms c a b dst l @ post" and ?n = "length pre"
  let ?h = "length (select_head c)" and ?la = "length (load_syms a 1)" and ?lb = "length (load_syms b 1)"
  let ?else = "?n + select_else c a"
  let ?then = "select_head c @ SBt l # load_syms a 1 @ [SBra (Suc l), SInstr enc_nop]"
  fix f base writable and s :: sh2a
  assume s: "placed labels ?ss base writable (sh_mem s)" "sh_pc s = at_index base ?n" "writable dst"
  define cv where "cv = operand_value (sh_mem s) c"
  define v where "v = (if cv \<noteq> 0 then operand_value (sh_mem s) a else operand_value (sh_mem s) b)"
  have dst: "aligned4 dst" using s(1,3) by (simp add: placed_def)
  have sub: "?la \<le> 2" "?lb \<le> 2" by (rule length_load_syms)+
  define s1 where "s1 = set_t (cv = 0) (set_r 0 cv s)\<lparr>sh_pc := at_index base (?n + ?h)\<rparr>"
  have "sym_run f writable (select_head c) s = Some (set_t (cv = 0) (set_r 0 cv s))"
    using run_load [OF assms(1)] by (simp add: select_head_def sym_run_append set_defs cv_def)
  from reaches_run [OF s(1,2) _ refl this, of "drop ?h (select_syms c a b dst l) @ post"]
  have r1: "reaches f s s1" by (simp add: select_syms_def s1_def)
  have mem1: "sh_mem s1 = sh_mem s" "sh_t s1 = (cv = 0)" "keeps s s1" by (simp_all add: s1_def set_defs keeps_def)
  have bt: "step f s1 = Some (s1\<lparr>sh_pc := at_index base (if cv = 0 then ?else else Suc (?n + ?h))\<rparr>)"
    using step_bt [of labels ?ss base writable s1 "?n + ?h" l ?else f] s(1) mem1 assms(4) sub
    by (simp add: select_syms_def nth_append s1_def near_def select_else_def)
  define s3 where "s3 = s1\<lparr>sh_r := (sh_r s1)(1 := v), sh_pc := at_index base (?else + ?lb)\<rparr>"
  have r2: "reaches f s1 s3"
  proof (cases "cv = 0")
    case True
    let ?s2 = "s1\<lparr>sh_pc := at_index base ?else\<rparr>"
    have run: "sym_run f writable (load_syms b 1) ?s2 = Some (set_r 1 v ?s2)"
      using run_load [OF assms(3)] True mem1 by (simp add: v_def)
    have split: "?ss = (pre @ ?then) @ load_syms b 1 @ store_syms dst @ post"
      by (simp add: select_syms_def)
    have "placed labels ?ss base writable (sh_mem ?s2)" "sh_pc ?s2 = at_index base ?else"
      using s(1) mem1 by simp_all
    from reaches_run [OF this split _ run]
    have "reaches f ?s2 ((set_r 1 v ?s2)\<lparr>sh_pc := at_index base (?else + ?lb)\<rparr>)"
      by (simp add: select_else_def)
    moreover have "(set_r 1 v ?s2)\<lparr>sh_pc := at_index base (?else + ?lb)\<rparr> = s3"
      by (simp add: s3_def set_r_def)
    ultimately show ?thesis using bt True by (auto intro: reaches_step)
  next
    case False
    let ?s2 = "s1\<lparr>sh_pc := at_index base (Suc (?n + ?h))\<rparr>"
    let ?i = "Suc (?n + ?h) + ?la"
    let ?s2' = "(set_r 1 v ?s2)\<lparr>sh_pc := at_index base ?i\<rparr>"
    have run: "sym_run f writable (load_syms a 1) ?s2 = Some (set_r 1 v ?s2)"
      using run_load [OF assms(2)] False mem1 by (simp add: v_def)
    have split: "?ss = (pre @ select_head c @ [SBt l]) @ load_syms a 1 @
        (SBra (Suc l) # SInstr enc_nop # load_syms b 1 @ store_syms dst @ post)"
      by (simp add: select_syms_def)
    have "placed labels ?ss base writable (sh_mem ?s2)" "sh_pc ?s2 = at_index base (Suc (?n + ?h))"
      using s(1) mem1 by simp_all
    from reaches_run [OF this split _ run] have a: "reaches f ?s2 ?s2'" by simp
    let ?p = "pre @ select_head c @ SBt l # load_syms a 1"
    have p: "?ss = ?p @ SBra (Suc l) # SInstr enc_nop # load_syms b 1 @ store_syms dst @ post" "length ?p = ?i"
      by (simp_all add: select_syms_def)
    have bra: "Suc ?i < length ?ss" "?ss ! ?i = SBra (Suc l)" "?ss ! Suc ?i = SInstr enc_nop" "?else + ?lb \<le> length ?ss"
      unfolding p(1) p(2) [symmetric] nth_append_length nth_append_Suc_length
      by (simp_all add: select_else_def)
    have "near ?i (?else + ?lb)" using sub by (simp add: near_def select_else_def)
    moreover have "placed labels ?ss base writable (sh_mem ?s2')" "sh_pc ?s2' = at_index base ?i"
      using s(1) mem1 by (simp_all add: set_r_def)
    ultimately have "step f ?s2' = Some (?s2'\<lparr>sh_pc := at_index base (?else + ?lb)\<rparr>)"
      using step_bra_nop [OF _ bra(1) _ bra(2,3) assms(5) bra(4)] by blast
    moreover have "?s2'\<lparr>sh_pc := at_index base (?else + ?lb)\<rparr> = s3" by (simp add: s3_def set_r_def)
    ultimately have "reaches f ?s2' s3" by (auto intro: reaches_step)
    with a bt False show ?thesis by (auto intro: reaches_step reaches_trans)
  qed
  have run: "sym_run f writable (store_syms dst) s3 = Some (set_r 2 dst s3\<lparr>sh_mem := store32 (sh_mem s) dst v\<rparr>)"
    using run_store [of writable dst f s3] s(3) dst mem1 by (simp add: s3_def)
  have split: "?ss = (pre @ ?then @ load_syms b 1) @ store_syms dst @ post"
    by (simp add: select_syms_def)
  have "placed labels ?ss base writable (sh_mem s3)" "sh_pc s3 = at_index base (?else + ?lb)"
    using s(1) mem1 by (simp_all add: s3_def)
  from reaches_run [OF this split _ run]
  have r3: "reaches f s3 (set_r 2 dst s3\<lparr>sh_mem := store32 (sh_mem s) dst v\<rparr>
      \<lparr>sh_pc := at_index base (?else + ?lb + length (store_syms dst))\<rparr>)"
    by (simp add: select_else_def)
  have len: "?else + ?lb + length (store_syms dst) = ?n + length (select_syms c a b dst l)"
    by (simp add: select_syms_def select_else_def)
  show "\<exists>s'. reaches f s s' \<and> sh_pc s' = at_index base (?n + length (select_syms c a b dst l)) \<and>
      sh_mem s' = store32 (sh_mem s) dst (if operand_value (sh_mem s) c \<noteq> 0 then operand_value (sh_mem s) a
        else operand_value (sh_mem s) b) \<and> keeps s s'"
    using reaches_trans [OF r1 reaches_trans [OF r2 r3]] mem1(3) unfolding len
    by (intro exI [of _ "set_r 2 dst s3\<lparr>sh_mem := store32 (sh_mem s) dst v\<rparr>
        \<lparr>sh_pc := at_index base (?n + length (select_syms c a b dst l))\<rparr>"])
      (auto simp: set_r_def s3_def keeps_def v_def cv_def)
qed

lemma realizes_select:
  "realizes (\<lambda>f m. if operand_value m c \<noteq> 0 then operand_value m a else operand_value m b) dst [c, a, b]
     fe (emit_select_fragment c a b dst fe)"
proof -
  let ?l = "length (fe_labels fe)"
  let ?fe' = "emit_select_fragment c a b dst fe"
  define fe0 where "fe0 = fe\<lparr>fe_labels := fe_labels fe @ [None, None]\<rparr>"
  define fe1 where "fe1 = fe_bt ?l (fe_emit (enc_tst 0 0) (load_operand_into c 0 fe0))"
  define fe2 where "fe2 = fe_emit enc_nop (fe_bra (Suc ?l) (load_operand_into a 1 fe1))"
  define fe3 where "fe3 = load_operand_into b 1 (place_label ?l fe2)"
  have fe': "?fe' = emit_store_r1_to dst (place_label (Suc ?l) fe3)"
    by (simp add: emit_select_fragment_def create_label_def Let_def fe0_def fe1_def fe2_def fe3_def)
  have e1: "emits fe0 (select_head c @ [SBt ?l]) fe1"
    unfolding fe1_def select_head_def using emits_trans [OF emits_load emits_trans [OF emits_steps(1) emits_steps(3)]]
    by simp
  have e2: "emits fe1 (load_syms a 1 @ [SBra (Suc ?l), SInstr enc_nop]) fe2"
    unfolding fe2_def using emits_trans [OF emits_load emits_trans [OF emits_steps(4) emits_steps(1)]] by simp
  have e3: "emits (place_label ?l fe2) (load_syms b 1) fe3"
    unfolding fe3_def by (rule emits_load)
  note e4 = emits_store [of "place_label (Suc ?l) fe3" dst]
  have lab: "fe_labels (emit_sym x e) = fe_labels e" for x e
    by (cases x) (simp_all add: fe_emit_def fe_mov_l_disp_pc_def fe_bt_def fe_bra_def)
  note labs = lab [of "SInstr w" for w, simplified] lab [of "SLit q v" for q v, simplified]
    lab [of "SBt k" for k, simplified] lab [of "SBra k" for k, simplified]
  have labels2: "fe_labels fe2 = fe_labels fe @ [None, None]"
    by (simp add: fe2_def fe1_def fe0_def load_operand_into_def Let_def labs)
  have labels3: "fe_labels fe3 = fe_labels fe @ [Some (length (fe_body fe2)), None]"
    by (simp add: fe3_def load_operand_into_def Let_def labs place_label_def labels2 list_update_append)
  have labels': "fe_labels ?fe' = fe_labels fe @ [Some (length (fe_body fe2)), Some (length (fe_body fe3))]"
    by (simp add: fe' emit_store_r1_to_def Let_def labs place_label_def labels3 list_update_append)
  show ?thesis unfolding realizes_def
  proof (intro conjI allI impI)
    fix pre assume pre: "reads fe pre"
    have "reads fe0 pre" using pre by (simp add: fe0_def reads_labels)
    with e1 have "reads fe1 (pre @ select_head c @ [SBt ?l])" unfolding emits_def by blast
    with e2 have "reads fe2 ((pre @ select_head c @ [SBt ?l]) @ load_syms a 1 @ [SBra (Suc ?l), SInstr enc_nop])"
      unfolding emits_def by blast
    then have r2: "reads fe2 (pre @ select_head c @ SBt ?l # load_syms a 1 @ [SBra (Suc ?l), SInstr enc_nop])"
      by simp
    have r3: "reads fe3 (pre @ select_head c @ SBt ?l # load_syms a 1 @ SBra (Suc ?l) # SInstr enc_nop # load_syms b 1)"
      using e3 r2 by (auto simp: emits_def place_label_def reads_labels)
    have r': "reads ?fe' (pre @ select_syms c a b dst ?l)"
      using e4 r3 unfolding fe' by (auto simp: emits_def place_label_def reads_labels select_syms_def)
    have body: "length (fe_body fe2) = 2 * (length pre + select_else c a)"
        "length (fe_body fe3) = 2 * (length pre + select_else c a + length (load_syms b 1))"
      using reads_length [OF r2] reads_length [OF r3] by (simp_all add: select_else_def)
    have run: "runs_at (fe_labels ?fe' @ more) (pre @ select_syms c a b dst ?l @ post) (length pre)
        (length (select_syms c a b dst ?l))
        (\<lambda>f m. if operand_value m c \<noteq> 0 then operand_value m a else operand_value m b) dst"
      if "list_all operand_aligned [c, a, b]" for more post
      using that by (intro select_runs) (simp_all add: labels' nth_append body)
    have "l = ?l \<or> l = Suc ?l" if "SBt l \<in> set (select_syms c a b dst ?l) \<or> SBra l \<in> set (select_syms c a b dst ?l)" for l
      using that by (auto simp: select_syms_def select_head_def load_syms_def store_syms_def split: if_splits)
    then have "l < length (fe_labels ?fe') \<and> fe_labels ?fe' ! l \<noteq> None"
      if "SBt l \<in> set (select_syms c a b dst ?l) \<or> SBra l \<in> set (select_syms c a b dst ?l)" for l
      using that by (fastforce simp: labels' nth_append)
    with r' run show "\<exists>xs. reads ?fe' (pre @ xs) \<and>
        (\<forall>l. SBt l \<in> set xs \<or> SBra l \<in> set xs \<longrightarrow> l < length (fe_labels ?fe') \<and> fe_labels ?fe' ! l \<noteq> None) \<and>
        (list_all operand_aligned [c, a, b] \<longrightarrow>
          (\<forall>more post. runs_at (fe_labels ?fe' @ more) (pre @ xs @ post) (length pre) (length xs)
             (\<lambda>f m. if operand_value m c \<noteq> 0 then operand_value m a else operand_value m b) dst))"
      by (intro exI [of _ "select_syms c a b dst ?l"]) blast
  qed (use labels' in blast)
qed

text \<open>Every primitive the dispatcher accepts, at its arity.\<close>

definition prim_value :: "string \<Rightarrow> primitive_operand list \<Rightarrow> fpu \<Rightarrow> memory \<Rightarrow> u32" where
  "prim_value prim ops f m = the (primitive_result f prim (map (operand_value m) ops))"

definition primitive_arity :: "string \<Rightarrow> nat option" where
  "primitive_arity prim =
     (if prim \<in> {''add_int'', ''subtract_int'', ''multiply_int'', ''divide_int'', ''compare_lt_int'',
        ''compare_gt_int'', ''compare_eq_int'', ''and_bool'', ''or_bool'', ''add_float'', ''subtract_float'',
        ''multiply_float'', ''divide_float'', ''compare_lt_float'', ''compare_gt_float'', ''compare_eq_float''} then Some 2
      else if prim \<in> {''not_bool'', ''sqrt_float'', ''flex_fuel_scale''} then Some 1
      else if prim \<in> {''select_int'', ''select_bool'', ''select_float''} then Some 3
      else None)"

lemma prim_values:
  "prim_value ''add_int'' [a, b] = (\<lambda>f m. operand_value m a + operand_value m b)"
  "prim_value ''subtract_int'' [a, b] = (\<lambda>f m. operand_value m a - operand_value m b)"
  "prim_value ''multiply_int'' [a, b] = (\<lambda>f m. operand_value m a * operand_value m b)"
  "prim_value ''divide_int'' [a, b] =
     (\<lambda>f m. fp_trunc f (fp_div f (fp_of_int f (operand_value m a)) (fp_of_int f (operand_value m b))))"
  "prim_value ''compare_lt_int'' [a, b] = (\<lambda>f m. of_bool (operand_value m a <s operand_value m b))"
  "prim_value ''compare_gt_int'' [a, b] = (\<lambda>f m. of_bool (operand_value m b <s operand_value m a))"
  "prim_value ''compare_eq_int'' [a, b] = (\<lambda>f m. of_bool (operand_value m a = operand_value m b))"
  "prim_value ''and_bool'' [a, b] = (\<lambda>f m. operand_value m a AND operand_value m b)"
  "prim_value ''or_bool'' [a, b] = (\<lambda>f m. operand_value m a OR operand_value m b)"
  "prim_value ''add_float'' [a, b] = (\<lambda>f m. fp_add f (operand_value m b) (operand_value m a))"
  "prim_value ''subtract_float'' [a, b] = (\<lambda>f m. fp_sub f (operand_value m a) (operand_value m b))"
  "prim_value ''multiply_float'' [a, b] = (\<lambda>f m. fp_mul f (operand_value m b) (operand_value m a))"
  "prim_value ''divide_float'' [a, b] = (\<lambda>f m. fp_div f (operand_value m a) (operand_value m b))"
  "prim_value ''compare_lt_float'' [a, b] = (\<lambda>f m. of_bool (fp_gt f (operand_value m b) (operand_value m a)))"
  "prim_value ''compare_gt_float'' [a, b] = (\<lambda>f m. of_bool (fp_gt f (operand_value m a) (operand_value m b)))"
  "prim_value ''compare_eq_float'' [a, b] = (\<lambda>f m. of_bool (fp_eq f (operand_value m b) (operand_value m a)))"
  "prim_value ''not_bool'' [a] = (\<lambda>f m. of_bool (operand_value m a = 0))"
  "prim_value ''sqrt_float'' [a] = (\<lambda>f m. fp_sqrt f (operand_value m a))"
  "prim_value ''flex_fuel_scale'' [a] = (\<lambda>f m. fp_add f (fp_mul f slope_bits (operand_value m a)) intercept_bits)"
  "prim \<in> {''select_int'', ''select_bool'', ''select_float''} \<Longrightarrow> prim_value prim [c, a, b] =
     (\<lambda>f m. if operand_value m c \<noteq> 0 then operand_value m a else operand_value m b)"
  by (rule ext, rule ext, auto simp: prim_value_def primitive_result_def)+

lemma emit_primitive_realizes:
  assumes "emit_primitive_fragment prim ops dst fe = Inr fe'" "primitive_arity prim = Some (length ops)"
  shows "realizes (prim_value prim ops) dst ops fe fe'"
proof -
  consider (one) a where "ops = [a]" | (two) a b where "ops = [a, b]" | (three) a b c where "ops = [a, b, c]"
    using assms(2)
    by (cases ops; cases "tl ops"; cases "tl (tl ops)"; cases "tl (tl (tl ops))")
       (auto simp: primitive_arity_def split: if_splits)
  then show ?thesis
  proof cases
    case one
    then have "prim = ''not_bool'' \<or> prim = ''sqrt_float'' \<or> prim = ''flex_fuel_scale''"
      using assms(2) by (auto simp: primitive_arity_def split: if_splits)
    then show ?thesis using assms(1) one
      by (auto simp: emit_primitive_fragment_def prim_values
          intro!: implements_realizes implements_not implements_rest)
  next
    case two
    then have "prim \<in> {''add_int'', ''subtract_int'', ''multiply_int'', ''divide_int'', ''compare_lt_int'',
        ''compare_gt_int'', ''compare_eq_int'', ''and_bool'', ''or_bool'', ''add_float'', ''subtract_float'',
        ''multiply_float'', ''divide_float'', ''compare_lt_float'', ''compare_gt_float'', ''compare_eq_float''}"
      using assms(2) by (auto simp: primitive_arity_def split: if_splits)
    then show ?thesis using assms(1) two
      by (auto simp: emit_primitive_fragment_def prim_values
          intro!: implements_realizes implements_int implements_int2 implements_float implements_float_compare
            implements_rest)
  next
    case three
    then have "prim \<in> {''select_int'', ''select_bool'', ''select_float''}"
      using assms(2) by (auto simp: primitive_arity_def split: if_splits)
    then show ?thesis using assms(1) three
      by (auto simp: emit_primitive_fragment_def prim_values realizes_select)
  qed
qed

end
