(* ===== verification/Feature_Ir.thy ===== *)
theory Feature_Ir
  imports Core_Error
begin

text \<open>
  What the code generator reads: the dataflow IR of custom features
  (src/feature/include/st/feature_ir.hpp) and the part of a loaded definition pack that declares
  hooks and writable regions (src/defs/include/st/defs.hpp).

  A module is a flat list of instructions that name their operands by value id. Constants are
  \<open>double\<close>s in the code; here they are values of a type variable, and the conversions the code
  applies to them are the record \<open>doubles\<close>. A reader may take a reference semantics of a module from
  \<open>Codegen_Exec\<close>.
\<close>

section \<open>Instructions\<close>

datatype ir_op = LoadConstant | LoadHookInput | CallPrimitive | StoreHookOutput

datatype pin_type = PinFloat | PinInt | PinBool

primrec pin_type_name :: "pin_type \<Rightarrow> string" where
  "pin_type_name PinFloat = ''float''"
| "pin_type_name PinInt = ''int''"
| "pin_type_name PinBool = ''bool''"

type_synonym value_id = u32

record 'd instruction =
  ins_op :: ir_op
  ins_type :: pin_type
  ins_id :: value_id
  ins_symbol :: string
  ins_pin :: string
  ins_operands :: "value_id list"
  ins_operand_pins :: "string list"
  ins_constant :: "'d option"

type_synonym 'd ir_module = "'d instruction list"

text \<open>\<open>op_name\<close>, \<open>estimate_cost\<close> (src/feature/src/feature_ir.cpp).\<close>

primrec op_name :: "ir_op \<Rightarrow> string" where
  "op_name LoadConstant = ''LoadConstant''"
| "op_name LoadHookInput = ''LoadHookInput''"
| "op_name CallPrimitive = ''CallPrimitive''"
| "op_name StoreHookOutput = ''StoreHookOutput''"

text \<open>
  The conversions of a \<open>double\<close>: the range test against \<open>int32\<close>, \<open>static_cast<int32_t>\<close> as a word, the
  bits of \<open>static_cast<float>\<close>, the comparison with one half, \<open>std::to_string\<close>.
\<close>

record 'd doubles =
  dbl_out_of_int32 :: "'d \<Rightarrow> bool"
  dbl_int32 :: "'d \<Rightarrow> u32"
  dbl_float_bits :: "'d \<Rightarrow> u32"
  dbl_above_half :: "'d \<Rightarrow> bool"
  dbl_text :: "'d \<Rightarrow> string"

section \<open>The definition pack\<close>

record hook_signal =
  sg_name :: string
  sg_label :: string
  sg_type :: string
  sg_unit :: string
  sg_address :: "u64 option"

record hook =
  hk_id :: string
  hk_display_name :: string
  hk_description :: string
  hk_inputs :: "hook_signal list"
  hk_outputs :: "hook_signal list"
  hk_ecu_address :: "u64 option"
  hk_free_ram_base :: "u64 option"
  hk_free_ram_length :: "u64 option"

record writable_region =
  wr_name :: string
  wr_kind :: string
  wr_address :: u64
  wr_length :: u64
  wr_bank :: string
  wr_description :: string

text \<open>The accessors of \<open>Definition\<close> that the pipeline calls: \<open>pack().platform\<close>, \<open>hooks()\<close>, \<open>writable_regions()\<close>.\<close>

record pack_view =
  pv_platform :: string
  pv_hooks :: "hook list"
  pv_writable_regions :: "writable_region list"

section \<open>Results\<close>

text \<open>Collecting the results of a list, the first error wins.\<close>

fun traverse :: "('a \<Rightarrow> 'b result) \<Rightarrow> 'a list \<Rightarrow> 'b list result" where
  "traverse g [] = Inr []"
| "traverse g (x # xs) =
     (case g x of
        Inl e \<Rightarrow> Inl e
      | Inr y \<Rightarrow> (case traverse g xs of Inl e \<Rightarrow> Inl e | Inr ys \<Rightarrow> Inr (y # ys)))"

lemma traverse_Inr_iff: "traverse g xs = Inr ys \<longleftrightarrow> list_all2 (\<lambda>x y. g x = Inr y) xs ys"
proof (induction xs arbitrary: ys)
  case (Cons x xs)
  note IH = Cons.IH
  show ?case
  proof (cases "traverse g xs")
    case (Inr zs)
    then have "list_all2 (\<lambda>x y. g x = Inr y) xs us \<longleftrightarrow> us = zs" for us using IH [of us] by auto
    with Inr show ?thesis by (cases ys) (auto split: sum.splits)
  next
    case (Inl e)
    then have "\<not> list_all2 (\<lambda>x y. g x = Inr y) xs us" for us using IH [of us] by auto
    with Inl show ?thesis by (cases ys) (auto split: sum.splits)
  qed
qed auto

section \<open>Values\<close>

definition find_producer :: "'d ir_module \<Rightarrow> value_id \<Rightarrow> 'd instruction option" where
  "find_producer m v = find (\<lambda>ins. ins_id ins = v) m"

lemma find_producer_SomeD:
  assumes "find_producer m v = Some ins"
  shows "ins \<in> set m" "ins_id ins = v"
  using assms by (auto simp: find_producer_def find_Some_iff)

definition find_hook :: "pack_view \<Rightarrow> string \<Rightarrow> hook option" where
  "find_hook def hook_id = find (\<lambda>h. hk_id h = hook_id) (pv_hooks def)"

lemma find_hook_id: "find_hook def x = Some h \<Longrightarrow> hk_id h = x"
  by (auto simp: find_hook_def find_Some_iff)

definition find_hook_input :: "hook \<Rightarrow> string \<Rightarrow> hook_signal option" where
  "find_hook_input h name = find (\<lambda>s. sg_name s = name) (hk_inputs h)"

definition quoted :: "string \<Rightarrow> string" where
  "quoted s = [CHR 0x27] @ s @ [CHR 0x27]"

definition resolve_hook_input_address :: "pack_view \<Rightarrow> 'd instruction \<Rightarrow> u32 result" where
  "resolve_hook_input_address def load_ins =
     (case find_hook def (ins_symbol load_ins) of
        None \<Rightarrow> failure InvalidArgument (''codegen: LoadHookInput hook '' @ quoted (ins_symbol load_ins) @
          '' not declared in the loaded definition pack'')
      | Some src_hook \<Rightarrow>
          (case find_hook_input src_hook (ins_pin load_ins) of
             None \<Rightarrow> failure InvalidArgument (''codegen: hook '' @ quoted (hk_id src_hook) @
               '' does not declare input pin '' @ quoted (ins_pin load_ins))
           | Some pin \<Rightarrow>
               (case sg_address pin of
                  None \<Rightarrow> failure InvalidArgument (''codegen: hook input '' @
                    quoted (hk_id src_hook @ ''.'' @ sg_name pin) @ '' has no address '' @ em_dash @
                    '' pack must declare the firmware address backing this signal for codegen'')
                | Some a \<Rightarrow> Inr (ucast a))))"

definition coerce_constant_to_u32 :: "'d doubles \<Rightarrow> 'd instruction \<Rightarrow> u32 result" where
  "coerce_constant_to_u32 dbl load_ins =
     (case ins_constant load_ins of
        None \<Rightarrow> failure ParseError ''codegen: LoadConstant has no constant_value (lower() invariant violation)''
      | Some v \<Rightarrow>
          (case ins_type load_ins of
             PinInt \<Rightarrow>
               if dbl_out_of_int32 dbl v then
                 failure ParseError (''codegen: LoadConstant value '' @ dbl_text dbl v @ '' out of int32 range'')
               else Inr (dbl_int32 dbl v)
           | PinFloat \<Rightarrow> Inr (dbl_float_bits dbl v)
           | PinBool \<Rightarrow> Inr (if dbl_above_half dbl v then 1 else 0)))"

end
