(* ===== verification/Allocators.thy ===== *)
theory Allocators
  imports Core_Error
begin

text \<open>
  The two bump allocators of the custom-feature pipeline. \<open>RomAllocator\<close>
  (src/feature_patch/src/rom_allocator.cpp) hands out flash addresses from the pack's writable
  regions, \<open>RamAllocator\<close> (src/feature_codegen/src/feature_codegen.cpp) hands out scratch RAM of one
  hook. \<open>std::size_t\<close> is a 64-bit word, addresses of \<open>RomAllocator\<close> are 32-bit words, and every
  sum wraps as it does in the code.

  The locale \<open>allocator\<close> is the contract their callers rely on: a claim lies in the room of the
  allocator, shares no address with any earlier claim, and a refused claim changes nothing.
\<close>

section \<open>RomAllocator\<close>

record rom_region =
  rg_name :: string
  rg_base :: u32
  rg_length :: u32

record rom_claim =
  cl_address :: u32
  cl_size :: u32
  cl_alignment :: u32
  cl_region_name :: string

record rom_allocator =
  ra_regions :: "rom_region list"
  ra_cursors :: "u32 list"

definition is_power_of_two :: "u64 \<Rightarrow> bool" where
  "is_power_of_two n \<longleftrightarrow> n \<noteq> 0 \<and> n AND (n - 1) = 0"

definition round_up :: "u32 \<Rightarrow> u32 \<Rightarrow> u32" where
  "round_up v align = (v + (align - 1)) AND NOT (align - 1)"

definition rom_allocator :: "rom_region list \<Rightarrow> rom_allocator" where
  "rom_allocator rs = \<lparr>ra_regions = rs, ra_cursors = map rg_base rs\<rparr>"

text \<open>The body of the loop over the regions: \<open>None\<close> for its four \<open>continue\<close>s.\<close>

definition region_fit :: "u32 \<Rightarrow> u32 \<Rightarrow> rom_region \<Rightarrow> u32 \<Rightarrow> u32 option" where
  "region_fit sz align r cursor =
     (if cursor + (align - 1) < cursor then None
      else let aligned = round_up cursor align in
        if aligned < cursor then None
        else if aligned + sz < aligned then None
        else if aligned + sz > rg_base r + rg_length r then None
        else Some aligned)"

fun claim_scan :: "u32 \<Rightarrow> u32 \<Rightarrow> rom_region list \<Rightarrow> u32 list \<Rightarrow> (rom_claim \<times> u32 list) option" where
  "claim_scan sz align (r # rs) (c # cs) =
     (case region_fit sz align r c of
        Some aligned \<Rightarrow>
          Some (\<lparr>cl_address = aligned, cl_size = sz, cl_alignment = align, cl_region_name = rg_name r\<rparr>,
                (aligned + sz) # cs)
      | None \<Rightarrow> map_option (apsnd ((#) c)) (claim_scan sz align rs cs))"
| "claim_scan sz align _ _ = None"

definition rom_alloc_claim :: "rom_allocator \<Rightarrow> u64 \<Rightarrow> u64 \<Rightarrow> rom_claim result \<times> rom_allocator" where
  "rom_alloc_claim a sz alignment =
     (if sz = 0 then (failure InvalidArgument ''RomAllocator::claim: size must be > 0'', a)
      else
        let align = (if alignment < 2 then 1 else alignment) in
        if align \<noteq> 1 \<and> \<not> is_power_of_two align then
          (failure InvalidArgument ''RomAllocator::claim: alignment must be a power of two'', a)
        else if ra_regions a = [] then
          (failure OutOfRange (''RomAllocator::claim: no writable regions declared '' @
             ''(pack needs at least one [[writable_region]] of '' @
             ''kind = '' @ [CHR 0x22] @ ''code'' @ [CHR 0x22] @ '' for patch insertion)''), a)
        else
          (case claim_scan (ucast sz) (ucast align) (ra_regions a) (ra_cursors a) of
             Some (c, cursors) \<Rightarrow> (Inr c, a\<lparr>ra_cursors := cursors\<rparr>)
           | None \<Rightarrow>
               (failure OutOfRange (''RomAllocator::claim: no region has '' @ dec_string (unat sz) @
                  '' bytes free (with alignment '' @ dec_string (unat align) @ '') '' @ em_dash @
                  '' tried '' @ dec_string (length (ra_regions a)) @ '' region(s)''), a)))"

definition rom_alloc_reset :: "rom_allocator \<Rightarrow> rom_allocator" where
  "rom_alloc_reset a = a\<lparr>ra_cursors := map rg_base (ra_regions a)\<rparr>"

definition total_used :: "rom_allocator \<Rightarrow> u32" where
  "total_used a = sum_list (map2 (\<lambda>r c. c - rg_base r) (ra_regions a) (ra_cursors a))"

definition total_remaining :: "rom_allocator \<Rightarrow> u32" where
  "total_remaining a = sum_list (map2 (\<lambda>r c. rg_base r + rg_length r - c) (ra_regions a) (ra_cursors a))"

section \<open>RamAllocator\<close>

record ram_claim =
  rc_address :: u64
  rc_size :: u64
  rc_alignment :: u64

record ram_allocator =
  ram_base :: u64
  ram_length :: u64
  ram_cursor :: u64

definition ram_allocator :: "u64 \<Rightarrow> u64 \<Rightarrow> ram_allocator" where
  "ram_allocator base len = \<lparr>ram_base = base, ram_length = len, ram_cursor = base\<rparr>"

definition ram_alloc_claim :: "ram_allocator \<Rightarrow> u64 \<Rightarrow> u64 \<Rightarrow> ram_claim result \<times> ram_allocator" where
  "ram_alloc_claim a sz alignment =
     (if sz = 0 then (failure InvalidArgument ''RamAllocator::claim: size must be > 0'', a)
      else
        let align = (if alignment < 2 then 1 else alignment) in
        if align \<noteq> 1 \<and> \<not> is_power_of_two align then
          (failure InvalidArgument ''RamAllocator::claim: alignment must be a power of two'', a)
        else
          let m = align - 1;
              slack = (align - (ram_cursor a AND m)) AND m in
          if slack > ram_length a \<or> ram_cursor a + slack < ram_cursor a then
            (failure OutOfRange ''RamAllocator::claim: alignment overflow'', a)
          else
            let aligned = ram_cursor a + slack in
            if aligned + sz < aligned then
              (failure OutOfRange ''RamAllocator::claim: size overflow'', a)
            else if aligned + sz > ram_base a + ram_length a then
              (failure OutOfRange ''RamAllocator::claim: region exhausted'', a)
            else
              (Inr \<lparr>rc_address = aligned, rc_size = sz, rc_alignment = align\<rparr>,
               a\<lparr>ram_cursor := aligned + sz\<rparr>))"

definition ram_alloc_reset :: "ram_allocator \<Rightarrow> ram_allocator" where
  "ram_alloc_reset a = a\<lparr>ram_cursor := ram_base a\<rparr>"

section \<open>The contract\<close>

text \<open>A run of claims: the requests that were granted, with their claims.\<close>

fun grants :: "('a \<Rightarrow> u64 \<Rightarrow> u64 \<Rightarrow> 'c result \<times> 'a) \<Rightarrow> 'a \<Rightarrow> (u64 \<times> u64) list \<Rightarrow> ((u64 \<times> u64) \<times> 'c) list" where
  "grants claim a [] = []"
| "grants claim a ((n, al) # reqs) =
     (case claim a n al of
        (Inr c, a') \<Rightarrow> ((n, al), c) # grants claim a' reqs
      | (Inl _, a') \<Rightarrow> grants claim a' reqs)"

locale allocator =
  fixes claim :: "'a \<Rightarrow> u64 \<Rightarrow> u64 \<Rightarrow> 'c result \<times> 'a"
    and span :: "'c \<Rightarrow> nat set"
    and fits :: "u64 \<Rightarrow> u64 \<Rightarrow> 'c \<Rightarrow> bool"
    and taken :: "'a \<Rightarrow> nat set"
    and rooms :: "'a \<Rightarrow> nat set set"
    and inv :: "'a \<Rightarrow> bool"
  assumes claimed: "inv a \<Longrightarrow> claim a n al = (Inr c, a') \<Longrightarrow>
      inv a' \<and> rooms a' = rooms a \<and> fits n al c \<and> (\<exists>r \<in> rooms a. span c \<subseteq> r) \<and>
      span c \<inter> taken a = {} \<and> taken a \<union> span c \<subseteq> taken a'"
    and refused: "claim a n al = (Inl e, a') \<Longrightarrow> a' = a"
begin

lemma grants_apart:
  assumes "inv a"
  shows "(\<forall>((n, al), c) \<in> set (grants claim a reqs).
            fits n al c \<and> (\<exists>r \<in> rooms a. span c \<subseteq> r) \<and> span c \<inter> taken a = {}) \<and>
         sorted_wrt (\<lambda>(_, c) (_, d). span c \<inter> span d = {}) (grants claim a reqs)"
  using assms
proof (induction reqs arbitrary: a)
  case (Cons req reqs)
  obtain n al where req: "req = (n, al)" by force
  obtain r a' where r: "claim a n al = (r, a')" by force
  show ?case
  proof (cases r)
    case (Inl e)
    then have "a' = a" using refused r by blast
    with Inl r req Cons show ?thesis by simp
  next
    case (Inr c)
    then have c: "inv a'" "rooms a' = rooms a" "fits n al c" "\<exists>r \<in> rooms a. span c \<subseteq> r"
        "span c \<inter> taken a = {}" "taken a \<union> span c \<subseteq> taken a'"
      using claimed [OF Cons.prems, of n al c a'] r by simp_all
    have "\<forall>((n, al), d) \<in> set (grants claim a' reqs). fits n al d \<and> (\<exists>r \<in> rooms a. span d \<subseteq> r) \<and>
        span d \<inter> taken a = {} \<and> span c \<inter> span d = {}"
      using Cons.IH [OF c(1)] c(2,6) by blast
    with Cons.IH [OF c(1)] c Inr r req show ?thesis by auto
  qed
qed simp

end

section \<open>Alignment\<close>

lemma round_up_aligned:
  assumes "align = 2 ^ k"
  shows "take_bit k (round_up v align) = 0"
proof (rule bit_word_eqI)
  have m: "align - 1 = mask k" by (simp add: assms mask_eq_exp_minus_1)
  fix n show "bit (take_bit k (round_up v align)) n = bit (0 :: u32) n"
    by (auto simp: round_up_def m bit_take_bit_iff bit_and_iff bit_not_iff bit_mask_iff)
qed

lemma slack_aligned:
  fixes cursor align :: u64
  assumes "align = 2 ^ k" "k < 64"
  shows "take_bit k (cursor + ((align - (cursor AND (align - 1))) AND (align - 1))) = 0"
proof -
  have m: "align - 1 = mask k" by (simp add: assms mask_eq_exp_minus_1)
  let ?c = "uint cursor"
  have "(2 :: int) ^ k dvd 2 ^ 64" using assms(2) by (intro le_imp_power_dvd) simp
  then have cancel: "x mod 2 ^ 64 mod 2 ^ k = x mod 2 ^ k" for x :: int by (rule mod_mod_cancel)
  have "take_bit k (2 ^ k :: u64) = 0" by (rule bit_word_eqI) (auto simp: bit_take_bit_iff bit_exp_iff)
  then have al: "uint (2 ^ k :: u64) mod 2 ^ k = 0"
    by (metis take_bit_eq_mod unsigned_0 unsigned_take_bit_eq)
  have "uint (take_bit k (cursor + take_bit k (align - take_bit k cursor))) =
      (?c + (uint align - ?c mod 2 ^ k) mod 2 ^ k) mod 2 ^ k"
  proof -
    have len: "LENGTH(64) = 64" by simp
    show ?thesis
      by (simp only: unsigned_take_bit_eq uint_word_ariths len) (simp only: take_bit_eq_mod cancel)
  qed
  also have "\<dots> = uint align mod 2 ^ k" by (simp add: mod_simps)
  finally have "uint (take_bit k (cursor + take_bit k (align - take_bit k cursor))) = 0"
    using al assms(1) by simp
  then show ?thesis by (simp add: m take_bit_eq_mask [symmetric] uint_0_iff)
qed

lemma effective_alignment:
  fixes al :: u64
  assumes "al = 2 ^ k" "k < 64"
  shows "(if al < 2 then 1 else al) = 2 ^ k"
proof (cases k)
  case (Suc j)
  have "bit al k" using assms by (simp add: bit_exp_iff)
  moreover have "\<not> bit al k" if "al < 2"
  proof -
    have "unat al < 2" using that by (simp add: word_less_nat_alt)
    then have "unat al = 0 \<or> unat al = 1" by arith
    then have "al = 0 \<or> al = 1" by (metis unat_eq_zero word_unat_eq_iff unsigned_1)
    then show ?thesis using Suc by (auto simp: bit_1_iff)
  qed
  ultimately have "\<not> al < 2" by blast
  with assms show ?thesis by simp
qed (use assms in simp)

lemma ucast_power_u32: "k < 32 \<Longrightarrow> (ucast (2 ^ k :: u64) :: u32) = 2 ^ k"
  by (rule bit_word_eqI) (auto simp: bit_ucast_iff bit_exp_iff)

lemma take_bit_eq_0_iff_dvd: "take_bit k (w :: 'a :: len word) = 0 \<longleftrightarrow> 2 ^ k dvd unat w"
  by (metis take_bit_eq_0_iff unat_eq_zero unsigned_take_bit_eq)

section \<open>RomAllocator meets the contract\<close>

definition rom_span :: "rom_claim \<Rightarrow> nat set" where
  "rom_span c = {unat (cl_address c) ..< unat (cl_address c) + unat (cl_size c)}"

definition region_span :: "rom_region \<Rightarrow> nat set" where
  "region_span r = {unat (rg_base r) ..< unat (rg_base r) + unat (rg_length r)}"

definition rom_rooms :: "rom_allocator \<Rightarrow> nat set set" where
  "rom_rooms a = region_span ` set (ra_regions a)"

definition rom_fits :: "u64 \<Rightarrow> u64 \<Rightarrow> rom_claim \<Rightarrow> bool" where
  "rom_fits n al c \<longleftrightarrow> cl_size c = ucast n \<and>
     (\<forall>k < 32. al = 2 ^ k \<longrightarrow> 2 ^ k dvd unat (cl_address c))"

definition rom_taken :: "rom_allocator \<Rightarrow> nat set" where
  "rom_taken a = (\<Union>i \<in> {..< length (ra_regions a)}.
     {unat (rg_base (ra_regions a ! i)) ..< unat (ra_cursors a ! i)})"

definition rom_inv :: "rom_allocator \<Rightarrow> bool" where
  "rom_inv a \<longleftrightarrow> length (ra_cursors a) = length (ra_regions a) \<and>
     sorted_wrt (\<lambda>r s. region_span r \<inter> region_span s = {}) (ra_regions a) \<and>
     (\<forall>i < length (ra_regions a).
        unat (rg_base (ra_regions a ! i)) \<le> unat (ra_cursors a ! i) \<and>
        unat (ra_cursors a ! i) \<le> unat (rg_base (ra_regions a ! i)) + unat (rg_length (ra_regions a ! i)))"

lemma unat_plus_no_wrap:
  fixes x y :: "'a :: len word"
  assumes "\<not> x + y < x"
  shows "unat (x + y) = unat x + unat y"
proof -
  from assms have "x \<le> x + y" by (simp add: not_less)
  then show ?thesis by (simp only: unat_plus_simple)
qed

lemma region_fit_SomeD:
  assumes "region_fit sz align r c = Some aligned" "unat (rg_base r) \<le> unat c"
  shows "unat c \<le> unat aligned" "unat (aligned + sz) = unat aligned + unat sz"
    "unat aligned + unat sz \<le> unat (rg_base r) + unat (rg_length r)" "aligned = round_up c align"
proof -
  let ?e = "rg_base r + rg_length r"
  from assms(1) have f: "\<not> aligned < c" "\<not> aligned + sz < aligned" "\<not> aligned + sz > ?e"
    "aligned = round_up c align"
    by (auto simp: region_fit_def Let_def split: if_splits)
  show 1: "unat c \<le> unat aligned" using f(1) by (simp add: word_le_nat_alt not_less)
  show 2: "unat (aligned + sz) = unat aligned + unat sz" by (rule unat_plus_no_wrap [OF f(2)])
  have "\<not> ?e < rg_base r" using f(3) 1 2 assms(2) by (simp add: word_le_nat_alt word_less_nat_alt)
  then have "unat ?e = unat (rg_base r) + unat (rg_length r)" by (rule unat_plus_no_wrap)
  with f(3) 2 show "unat aligned + unat sz \<le> unat (rg_base r) + unat (rg_length r)"
    by (simp add: word_less_nat_alt)
  show "aligned = round_up c align" by (rule f(4))
qed

lemma claim_scan_SomeD:
  assumes "claim_scan sz align rs cs = Some (c, cs')" "length cs = length rs"
  obtains i where "i < length rs" "region_fit sz align (rs ! i) (cs ! i) = Some (cl_address c)"
    "cl_size c = sz" "cl_alignment c = align" "cl_region_name c = rg_name (rs ! i)"
    "cs' = cs[i := cl_address c + sz]"
  using assms
proof (induction sz align rs cs arbitrary: cs' thesis rule: claim_scan.induct)
  case (1 sz align r rs x cs)
  show ?case
  proof (cases "region_fit sz align r x")
    case (Some aligned)
    with "1.prems" show ?thesis by (intro "1.prems"(1) [of 0]) auto
  next
    case None
    then obtain cs'' where cs'': "claim_scan sz align rs cs = Some (c, cs'')" "cs' = x # cs''"
      using "1.prems"(2) by auto
    obtain i where i: "i < length rs" "region_fit sz align (rs ! i) (cs ! i) = Some (cl_address c)"
        "cl_size c = sz" "cl_alignment c = align" "cl_region_name c = rg_name (rs ! i)"
        "cs'' = cs[i := cl_address c + sz]"
      using "1.IH" [OF None _ cs''(1)] "1.prems"(3) by auto
    then show ?thesis using cs''(2) by (intro "1.prems"(1) [of "Suc i"]) auto
  qed
qed auto

lemma rom_taken_iff:
  "x \<in> rom_taken a \<longleftrightarrow> (\<exists>i. i < length (ra_regions a) \<and>
     unat (rg_base (ra_regions a ! i)) \<le> x \<and> x < unat (ra_cursors a ! i))"
  by (auto simp: rom_taken_def)

lemma rom_alloc_InrD:
  assumes "rom_alloc_claim a n al = (Inr c, a')" "rom_inv a"
  obtains i where "i < length (ra_regions a)"
    "region_fit (ucast n) (ucast (if al < 2 then 1 else al)) (ra_regions a ! i) (ra_cursors a ! i) =
       Some (cl_address c)"
    "cl_size c = ucast n" "n \<noteq> 0" "cl_region_name c = rg_name (ra_regions a ! i)"
    "(if al < 2 then 1 else al) = 1 \<or> is_power_of_two (if al < 2 then 1 else al)"
    "a' = a\<lparr>ra_cursors := (ra_cursors a)[i := cl_address c + ucast n]\<rparr>"
proof -
  let ?al = "if al < 2 then 1 else al"
  from assms(1) obtain cs' where cs': "claim_scan (ucast n) (ucast ?al) (ra_regions a) (ra_cursors a) = Some (c, cs')"
      "a' = a\<lparr>ra_cursors := cs'\<rparr>" "n \<noteq> 0" "?al = 1 \<or> is_power_of_two ?al"
    unfolding rom_alloc_claim_def Let_def
    by (auto split: if_splits option.splits simp: failure_def)
  have "length (ra_cursors a) = length (ra_regions a)" using assms(2) by (simp add: rom_inv_def)
  from claim_scan_SomeD [OF cs'(1) this] cs'(2-4) that show thesis by metis
qed

lemma rom_inv_at:
  assumes "rom_inv a" "i < length (ra_regions a)"
  shows "i < length (ra_cursors a)"
    "unat (rg_base (ra_regions a ! i)) \<le> unat (ra_cursors a ! i)"
    "unat (ra_cursors a ! i) \<le> unat (rg_base (ra_regions a ! i)) + unat (rg_length (ra_regions a ! i))"
  using assms by (auto simp: rom_inv_def)

lemma rom_regions_apart:
  assumes "rom_inv a" "i < length (ra_regions a)" "j < length (ra_regions a)" "i \<noteq> j"
  shows "region_span (ra_regions a ! i) \<inter> region_span (ra_regions a ! j) = {}"
proof -
  have "i < j \<or> j < i" using assms(4) by arith
  then show ?thesis using assms by (auto simp: rom_inv_def sorted_wrt_iff_nth_less)
qed

lemma rom_alloc_fits:
  assumes "rom_inv a" "rom_alloc_claim a n al = (Inr c, a')"
  shows "rom_fits n al c"
proof -
  let ?al = "if al < 2 then 1 else al"
  obtain i where i: "i < length (ra_regions a)" "cl_size c = ucast n"
      "region_fit (ucast n) (ucast ?al) (ra_regions a ! i) (ra_cursors a ! i) = Some (cl_address c)"
    using rom_alloc_InrD [OF assms(2,1)] by metis
  have "2 ^ k dvd unat (cl_address c)" if k: "k < 32" "al = 2 ^ k" for k
  proof -
    have "?al = 2 ^ k" using effective_alignment [of al k] k by simp
    then have "cl_address c = round_up (ra_cursors a ! i) (2 ^ k)"
      using region_fit_SomeD(4) [OF i(3) rom_inv_at(2) [OF assms(1) i(1)]] ucast_power_u32 [OF k(1)] by simp
    then show ?thesis using round_up_aligned [of "2 ^ k" k] take_bit_eq_0_iff_dvd by metis
  qed
  with i(2) show ?thesis by (simp add: rom_fits_def)
qed

lemma rom_alloc_claimed:
  assumes "rom_inv a" "rom_alloc_claim a n al = (Inr c, a')"
  shows "rom_inv a' \<and> rom_rooms a' = rom_rooms a \<and> rom_fits n al c \<and> (\<exists>r \<in> rom_rooms a. rom_span c \<subseteq> r) \<and>
    rom_span c \<inter> rom_taken a = {} \<and> rom_taken a \<union> rom_span c \<subseteq> rom_taken a'"
proof -
  obtain i where i: "i < length (ra_regions a)"
      "region_fit (ucast n) (ucast (if al < 2 then 1 else al)) (ra_regions a ! i) (ra_cursors a ! i) =
         Some (cl_address c)"
      "cl_size c = ucast n" "a' = a\<lparr>ra_cursors := (ra_cursors a)[i := cl_address c + ucast n]\<rparr>"
    using rom_alloc_InrD [OF assms(2,1)] by metis
  let ?r = "ra_regions a ! i" and ?c = "ra_cursors a ! i"
  note at = rom_inv_at [OF assms(1) i(1)]
  note fit = region_fit_SomeD [OF i(2) at(2)]
  have len: "length (ra_cursors a) = length (ra_regions a)" using assms(1) by (simp add: rom_inv_def)
  have in_region: "rom_span c \<subseteq> region_span ?r"
    using fit at i(3) by (auto simp: rom_span_def region_span_def)
  have inv: "rom_inv a'"
    using assms(1) i at fit len
    by (auto simp: rom_inv_def nth_list_update)
  have apart: "x \<notin> rom_taken a" if "x \<in> rom_span c" for x
  proof
    assume "x \<in> rom_taken a"
    then obtain j where j: "j < length (ra_regions a)" "unat (rg_base (ra_regions a ! j)) \<le> x"
        "x < unat (ra_cursors a ! j)"
      by (auto simp: rom_taken_iff)
    have "j \<noteq> i" using j(3) that fit(1) by (auto simp: rom_span_def)
    moreover have "x \<in> region_span (ra_regions a ! j)"
      using j rom_inv_at [OF assms(1) j(1)] by (auto simp: region_span_def)
    ultimately show False
      using rom_regions_apart [OF assms(1) j(1) i(1)] in_region that by blast
  qed
  have grows: "rom_taken a \<union> rom_span c \<subseteq> rom_taken a'"
  proof
    fix x assume x: "x \<in> rom_taken a \<union> rom_span c"
    then consider j where "j < length (ra_regions a)" "unat (rg_base (ra_regions a ! j)) \<le> x"
        "x < unat (ra_cursors a ! j)" | "x \<in> rom_span c"
      by (auto simp: rom_taken_iff)
    then show "x \<in> rom_taken a'"
    proof cases
      case 1
      then have "x < unat ((ra_cursors a)[i := cl_address c + ucast n] ! j)"
        using i(1) len fit(1,2) by (cases "i = j") auto
      with 1 show ?thesis using i(4) by (auto simp: rom_taken_iff)
    next
      case 2
      then show ?thesis using i len fit at
        by (auto simp: rom_taken_iff rom_span_def intro!: exI [of _ i])
    qed
  qed
  show ?thesis
  proof (intro conjI)
    show "rom_rooms a' = rom_rooms a" using i(4) by (simp add: rom_rooms_def)
    show "\<exists>r \<in> rom_rooms a. rom_span c \<subseteq> r"
      using in_region nth_mem [OF i(1)] by (auto simp: rom_rooms_def)
    show "rom_span c \<inter> rom_taken a = {}" using apart by blast
  qed (fact inv grows rom_alloc_fits [OF assms])+
qed

lemma rom_alloc_refused:
  assumes "rom_alloc_claim a n al = (Inl e, a')"
  shows "a' = a"
  using assms unfolding rom_alloc_claim_def Let_def
  by (auto split: if_splits option.splits)

interpretation rom: allocator rom_alloc_claim rom_span rom_fits rom_taken rom_rooms rom_inv
  by unfold_locales (rule rom_alloc_claimed rom_alloc_refused; assumption)+

section \<open>RamAllocator meets the contract\<close>

definition ram_span :: "ram_claim \<Rightarrow> nat set" where
  "ram_span c = {unat (rc_address c) ..< unat (rc_address c) + unat (rc_size c)}"

definition ram_taken :: "ram_allocator \<Rightarrow> nat set" where
  "ram_taken a = {unat (ram_base a) ..< unat (ram_cursor a)}"

definition ram_rooms :: "ram_allocator \<Rightarrow> nat set set" where
  "ram_rooms a = {{unat (ram_base a) ..< unat (ram_base a) + unat (ram_length a)}}"

definition ram_fits :: "u64 \<Rightarrow> u64 \<Rightarrow> ram_claim \<Rightarrow> bool" where
  "ram_fits n al c \<longleftrightarrow> rc_size c = n \<and> (\<forall>k < 64. al = 2 ^ k \<longrightarrow> 2 ^ k dvd unat (rc_address c))"

definition ram_inv :: "ram_allocator \<Rightarrow> bool" where
  "ram_inv a \<longleftrightarrow> unat (ram_base a) \<le> unat (ram_cursor a) \<and>
     unat (ram_cursor a) \<le> unat (ram_base a) + unat (ram_length a)"

lemma ram_alloc_InrD:
  assumes "ram_alloc_claim a n al = (Inr c, a')" "ram_inv a"
  shows "unat (ram_cursor a) \<le> unat (rc_address c)"
    "unat (rc_address c + n) = unat (rc_address c) + unat n"
    "unat (rc_address c) + unat n \<le> unat (ram_base a) + unat (ram_length a)"
    "rc_size c = n" "n \<noteq> 0" "a' = a\<lparr>ram_cursor := rc_address c + n\<rparr>" "ram_fits n al c"
proof -
  let ?m = "(if al < 2 then 1 else al) - 1" and ?e = "ram_base a + ram_length a"
  let ?s = "((if al < 2 then 1 else al) - (ram_cursor a AND ?m)) AND ?m"
  from assms(1) have f: "\<not> ram_cursor a + ?s < ram_cursor a" "\<not> rc_address c + n < rc_address c"
      "\<not> rc_address c + n > ?e" "rc_address c = ram_cursor a + ?s" "rc_size c = n" "n \<noteq> 0"
      "a' = a\<lparr>ram_cursor := rc_address c + n\<rparr>"
    unfolding ram_alloc_claim_def Let_def by (auto split: if_splits)
  show 1: "unat (ram_cursor a) \<le> unat (rc_address c)"
    using unat_plus_no_wrap [OF f(1)] f(4) by simp
  show 2: "unat (rc_address c + n) = unat (rc_address c) + unat n" by (rule unat_plus_no_wrap [OF f(2)])
  have "\<not> ?e < ram_base a"
    using f(3) 1 2 assms(2) by (simp add: word_le_nat_alt word_less_nat_alt ram_inv_def)
  then have "unat ?e = unat (ram_base a) + unat (ram_length a)" by (rule unat_plus_no_wrap)
  with f(3) 2 show "unat (rc_address c) + unat n \<le> unat (ram_base a) + unat (ram_length a)"
    by (simp add: word_less_nat_alt)
  show "rc_size c = n" "n \<noteq> 0" "a' = a\<lparr>ram_cursor := rc_address c + n\<rparr>" using f by simp_all
  have "2 ^ k dvd unat (rc_address c)" if k: "k < 64" "al = 2 ^ k" for k
  proof -
    have "(if al < 2 then 1 else al) = 2 ^ k" using effective_alignment [of al k] k by simp
    then have "take_bit k (rc_address c) = 0" unfolding f(4) using k(1) by (rule slack_aligned)
    then show ?thesis by (simp add: take_bit_eq_0_iff_dvd)
  qed
  with f(5) show "ram_fits n al c" by (simp add: ram_fits_def)
qed

lemma ram_alloc_claimed:
  assumes "ram_inv a" "ram_alloc_claim a n al = (Inr c, a')"
  shows "ram_inv a' \<and> ram_rooms a' = ram_rooms a \<and> ram_fits n al c \<and> (\<exists>r \<in> ram_rooms a. ram_span c \<subseteq> r) \<and>
    ram_span c \<inter> ram_taken a = {} \<and> ram_taken a \<union> ram_span c \<subseteq> ram_taken a'"
  using ram_alloc_InrD [OF assms(2,1)] assms(1)
  unfolding ram_inv_def ram_rooms_def ram_taken_def ram_span_def by auto

lemma ram_alloc_refused:
  assumes "ram_alloc_claim a n al = (Inl e, a')"
  shows "a' = a"
  using assms unfolding ram_alloc_claim_def Let_def by (auto split: if_splits)

interpretation ram: allocator ram_alloc_claim ram_span ram_fits ram_taken ram_rooms ram_inv
  by unfold_locales (rule ram_alloc_claimed ram_alloc_refused; assumption)+

lemma ram_inv_start [simp]:
  "ram_inv (ram_allocator base len)" "ram_taken (ram_allocator base len) = {}"
  by (auto simp: ram_inv_def ram_taken_def ram_allocator_def)

section \<open>Properties\<close>

lemma rom_inv_start:
  "rom_inv (rom_allocator rs) \<longleftrightarrow> sorted_wrt (\<lambda>r s. region_span r \<inter> region_span s = {}) rs"
  "rom_taken (rom_allocator rs) = {}"
  "rom_rooms (rom_allocator rs) = region_span ` set rs"
  by (auto simp: rom_inv_def rom_taken_def rom_rooms_def rom_allocator_def)

text \<open>Both allocators of the custom-feature pipeline hand out disjoint memory. Whatever sequence of
  claims a caller makes, and however many of them are refused, every granted claim lies inside one
  declared region, no two granted claims share an address, a claim has the requested size (for flash
  the size narrowed to 32 bits, as the code narrows it), and it is aligned to the requested power of two.
  For the flash allocator the declared regions must not overlap each other, which it does not check; no
  region may be assumed not to wrap around the address space, since the overflow guards refuse such claims.\<close>

theorem allocator_claims_apart:
  assumes "sorted_wrt (\<lambda>r s. region_span r \<inter> region_span s = {}) rs"
  shows "(\<forall>((n, al), c) \<in> set (grants rom_alloc_claim (rom_allocator rs) reqs).
            rom_fits n al c \<and> (\<exists>r \<in> set rs. rom_span c \<subseteq> region_span r)) \<and>
         sorted_wrt (\<lambda>(_, c) (_, d). rom_span c \<inter> rom_span d = {})
           (grants rom_alloc_claim (rom_allocator rs) reqs) \<and>
         (\<forall>((n, al), c) \<in> set (grants ram_alloc_claim (ram_allocator base len) reqs).
            ram_fits n al c \<and> ram_span c \<subseteq> {unat base ..< unat base + unat len}) \<and>
         sorted_wrt (\<lambda>(_, c) (_, d). ram_span c \<inter> ram_span d = {})
           (grants ram_alloc_claim (ram_allocator base len) reqs)"
proof -
  have "rom_inv (rom_allocator rs)" using assms by (simp add: rom_inv_start)
  from rom.grants_apart [OF this, of reqs] ram.grants_apart [OF ram_inv_start(1), of base len reqs]
  show ?thesis by (auto simp: rom_inv_start ram_rooms_def ram_allocator_def split_beta)
qed

lemma allocator_claims_apart_witness:
  "length (grants rom_alloc_claim (rom_allocator [\<lparr>rg_name = ''code'', rg_base = 0x1002, rg_length = 0x20\<rparr>,
      \<lparr>rg_name = ''data'', rg_base = 0x2000, rg_length = 0x40\<rparr>]) [(20, 4), (40, 4), (0, 4), (8, 4)]) = 3 \<and>
   sorted_wrt (\<lambda>(_, c) (_, d). rom_span c \<inter> rom_span d = {})
     (grants rom_alloc_claim (rom_allocator [\<lparr>rg_name = ''code'', rg_base = 0x1002, rg_length = 0x20\<rparr>,
      \<lparr>rg_name = ''data'', rg_base = 0x2000, rg_length = 0x40\<rparr>]) [(20, 4), (40, 4), (0, 4), (8, 4)])"
proof -
  let ?rs = "[\<lparr>rg_name = ''code'', rg_base = 0x1002, rg_length = 0x20\<rparr>,
      \<lparr>rg_name = ''data'', rg_base = 0x2000, rg_length = 0x40\<rparr>]"
  have "sorted_wrt (\<lambda>r s. region_span r \<inter> region_span s = {}) ?rs" by (simp add: region_span_def)
  note apart = allocator_claims_apart [OF this, THEN conjunct2, THEN conjunct1]
  have "length (grants rom_alloc_claim (rom_allocator ?rs) [(20, 4), (40, 4), (0, 4), (8, 4)]) = 3"
    by (simp add: rom_alloc_claim_def rom_allocator_def region_fit_def round_up_def is_power_of_two_def
        failure_def)
  then show ?thesis using apart by (rule conjI)
qed

end
