(* ===== verification/Codegen_Sh2a.thy ===== *)
theory Codegen_Sh2a
  imports Codegen_Prims Feature_Ir Allocators
begin

text \<open>
  The SH-2A backend (src/feature_codegen/src/feature_codegen.cpp, \<open>Sh2aBackend::compile\<close>) and the address
  gate at its exit. A call has three outcomes: \<open>Some (Inr obj)\<close>, \<open>Some (Inl e)\<close> for an error, and
  \<open>None\<close> when it does not return: the recursion of the operand walk has no cycle check. The fuel of
  the walk is the depth of the recursion; \<open>compile\<close> gives it one more than the module has
  instructions, and a deeper recursion has met an instruction twice.
\<close>

section \<open>Operands and shapes\<close>

definition operand_from_producer ::
    "'d doubles \<Rightarrow> pack_view \<Rightarrow> 'd ir_module \<Rightarrow> value_id \<Rightarrow> pin_type \<Rightarrow> (value_id \<rightharpoonup> u32) \<Rightarrow> primitive_operand result" where
  "operand_from_producer dbl def m v expected slots =
     (case find_producer m v of
        None \<Rightarrow> failure ParseError (''SH-2A backend: primitive operand does not '' @
          ''resolve to any producing instruction'')
      | Some pr \<Rightarrow>
          if ins_type pr \<noteq> expected then
            failure NotImplemented (''SH-2A backend: primitive operand of type '' @ pin_type_name (ins_type pr) @
              '' does not match expected operand type '' @ pin_type_name expected)
          else (case ins_op pr of
              LoadConstant \<Rightarrow>
                (case coerce_constant_to_u32 dbl pr of
                   Inl e \<Rightarrow> Inl e
                 | Inr r \<Rightarrow> Inr \<lparr>po_kind = Constant, po_value = r\<rparr>)
            | LoadHookInput \<Rightarrow>
                (case resolve_hook_input_address def pr of
                   Inl e \<Rightarrow> Inl e
                 | Inr a \<Rightarrow> Inr \<lparr>po_kind = HookInputPointer, po_value = a\<rparr>)
            | CallPrimitive \<Rightarrow>
                (case slots v of
                   None \<Rightarrow> failure ParseError (''SH-2A backend: nested primitive operand has '' @
                     ''no RAM slot (walk should have allocated one)'')
                 | Some a \<Rightarrow> Inr \<lparr>po_kind = HookInputPointer, po_value = a\<rparr>)
            | StoreHookOutput \<Rightarrow>
                failure NotImplemented ''SH-2A backend: primitive operand has unsupported producer op''))"

record primitive_shape =
  ps_arity :: nat
  ps_operand_types :: "pin_type list"
  ps_result_type :: pin_type

definition shape :: "nat \<Rightarrow> pin_type \<Rightarrow> pin_type \<Rightarrow> pin_type \<Rightarrow> pin_type \<Rightarrow> primitive_shape" where
  "shape n a b c r = \<lparr>ps_arity = n, ps_operand_types = [a, b, c], ps_result_type = r\<rparr>"

definition primitive_shapes :: "(string \<times> primitive_shape) list" where
  "primitive_shapes =
     [(''add_int'', shape 2 PinInt PinInt PinInt PinInt),
      (''subtract_int'', shape 2 PinInt PinInt PinInt PinInt),
      (''multiply_int'', shape 2 PinInt PinInt PinInt PinInt),
      (''divide_int'', shape 2 PinInt PinInt PinInt PinInt),
      (''compare_lt_int'', shape 2 PinInt PinInt PinInt PinBool),
      (''compare_gt_int'', shape 2 PinInt PinInt PinInt PinBool),
      (''compare_eq_int'', shape 2 PinInt PinInt PinInt PinBool),
      (''and_bool'', shape 2 PinBool PinBool PinBool PinBool),
      (''or_bool'', shape 2 PinBool PinBool PinBool PinBool),
      (''not_bool'', shape 1 PinBool PinBool PinBool PinBool),
      (''select_int'', shape 3 PinBool PinInt PinInt PinInt),
      (''select_bool'', shape 3 PinBool PinBool PinBool PinBool),
      (''add_float'', shape 2 PinFloat PinFloat PinFloat PinFloat),
      (''subtract_float'', shape 2 PinFloat PinFloat PinFloat PinFloat),
      (''multiply_float'', shape 2 PinFloat PinFloat PinFloat PinFloat),
      (''divide_float'', shape 2 PinFloat PinFloat PinFloat PinFloat),
      (''sqrt_float'', shape 1 PinFloat PinFloat PinFloat PinFloat),
      (''flex_fuel_scale'', shape 1 PinFloat PinFloat PinFloat PinFloat),
      (''compare_lt_float'', shape 2 PinFloat PinFloat PinFloat PinBool),
      (''compare_gt_float'', shape 2 PinFloat PinFloat PinFloat PinBool),
      (''compare_eq_float'', shape 2 PinFloat PinFloat PinFloat PinBool),
      (''select_float'', shape 3 PinBool PinFloat PinFloat PinFloat)]"

definition primitive_shape :: "string \<Rightarrow> primitive_shape option" where
  "primitive_shape x = map_of primitive_shapes x"

definition validate_call_primitive :: "'d instruction \<Rightarrow> status" where
  "validate_call_primitive prim =
     (case primitive_shape (ins_symbol prim) of
        None \<Rightarrow> failure NotImplemented (''SH-2A backend: CallPrimitive '' @ quoted (ins_symbol prim) @
          '' not yet implemented '' @ supported_primitives_text)
      | Some sh \<Rightarrow>
          if length (ins_operands prim) \<noteq> ps_arity sh then
            failure ParseError (''SH-2A backend: '' @ ins_symbol prim @ '' requires exactly '' @
              dec_string (ps_arity sh) @ '' operands, got '' @ dec_string (length (ins_operands prim)))
          else if ins_type prim \<noteq> ps_result_type sh then
            failure ParseError (''SH-2A backend: '' @ ins_symbol prim @ '' expects result type '' @
              pin_type_name (ps_result_type sh) @ '', got '' @ pin_type_name (ins_type prim))
          else ok)"

section \<open>The operand walk\<close>

record 'd walk_state =
  wk_slots :: "value_id \<rightharpoonup> u32"
  wk_visited :: "value_id set"
  wk_order :: "'d instruction list"
  wk_ram :: ram_allocator
  wk_claims :: "ram_claim list"

text \<open>The loop over the operands; \<open>self\<close> is the recursive call on a primitive operand.\<close>

primrec walk_operands ::
    "('d instruction \<Rightarrow> 'd walk_state \<Rightarrow> 'd walk_state result option) \<Rightarrow> 'd ir_module \<Rightarrow> value_id list \<Rightarrow>
     'd walk_state \<Rightarrow> 'd walk_state result option" where
  "walk_operands self m [] st = Some (Inr st)"
| "walk_operands self m (v # vs) st =
     (case find_producer m v of
        None \<Rightarrow> Some (failure ParseError (''SH-2A backend: nested operand does not '' @
          ''resolve to any producing instruction''))
      | Some pr \<Rightarrow>
          if ins_op pr = CallPrimitive then
            (case self pr st of
               None \<Rightarrow> None
             | Some (Inl e) \<Rightarrow> Some (Inl e)
             | Some (Inr st') \<Rightarrow> walk_operands self m vs st')
          else walk_operands self m vs st)"

text \<open>What follows the operands: a slot for an inner primitive, and its place in the order.\<close>

definition walk_finish :: "hook \<Rightarrow> 'd instruction \<Rightarrow> bool \<Rightarrow> 'd walk_state \<Rightarrow> 'd walk_state result" where
  "walk_finish hook prim is_root st =
     (if is_root then Inr (st\<lparr>wk_order := wk_order st @ [prim]\<rparr>)
      else (case ram_alloc_claim (wk_ram st) 4 4 of
          (Inl _, _) \<Rightarrow> failure OutOfRange (''SH-2A backend: hook '' @ quoted (hk_id hook) @
            '' free_ram exhausted while allocating slot for nested primitive result'')
        | (Inr c, ram) \<Rightarrow>
            Inr (st\<lparr>wk_ram := ram,
                wk_slots := (wk_slots st)(ins_id prim \<mapsto> ucast (rc_address c)),
                wk_claims := wk_claims st @ [c],
                wk_visited := insert (ins_id prim) (wk_visited st),
                wk_order := wk_order st @ [prim]\<rparr>)))"

primrec walk :: "nat \<Rightarrow> 'd ir_module \<Rightarrow> hook \<Rightarrow> 'd instruction \<Rightarrow> bool \<Rightarrow> 'd walk_state \<Rightarrow> 'd walk_state result option" where
  "walk 0 m hook prim is_root st = None"
| "walk (Suc n) m hook prim is_root st =
     (if \<not> is_root \<and> ins_id prim \<in> wk_visited st then Some (Inr st)
      else (case validate_call_primitive prim of
          Inl e \<Rightarrow> Some (Inl e)
        | Inr _ \<Rightarrow>
            (case walk_operands (\<lambda>p. walk n m hook p False) m (ins_operands prim) st of
               None \<Rightarrow> None
             | Some (Inl e) \<Rightarrow> Some (Inl e)
             | Some (Inr st') \<Rightarrow> Some (walk_finish hook prim is_root st'))))"

section \<open>Emission\<close>

definition emit_prim ::
    "'d doubles \<Rightarrow> pack_view \<Rightarrow> 'd ir_module \<Rightarrow> (value_id \<rightharpoonup> u32) \<Rightarrow> 'd instruction \<Rightarrow> u32 \<Rightarrow>
     emitter \<Rightarrow> emitter result" where
  "emit_prim dbl def m slots prim dst fe =
     (case primitive_shape (ins_symbol prim) of
        None \<Rightarrow> failure ParseError ''SH-2A backend: primitive symbol lookup regressed after validation''
      | Some sh \<Rightarrow>
          (case traverse (\<lambda>i. operand_from_producer dbl def m (ins_operands prim ! i) (ps_operand_types sh ! i) slots)
                  [0..<ps_arity sh] of
             Inl e \<Rightarrow> Inl e
           | Inr operands \<Rightarrow> emit_primitive_fragment (ins_symbol prim) operands dst fe))"

text \<open>
  The loop over the emission order. The pointer comparison with the root is a comparison of ids:
  both sides come from \<open>find_producer\<close>, which returns the first instruction of an id. \<open>slots.at\<close>
  cannot throw for a walked primitive.
\<close>

fun emit_order ::
    "'d doubles \<Rightarrow> pack_view \<Rightarrow> 'd ir_module \<Rightarrow> (value_id \<rightharpoonup> u32) \<Rightarrow> value_id \<Rightarrow> u32 \<Rightarrow>
     'd instruction list \<Rightarrow> emitter \<Rightarrow> emitter result" where
  "emit_order dbl def m slots root dst [] fe = Inr fe"
| "emit_order dbl def m slots root dst (prim # ps) fe =
     (case emit_prim dbl def m slots prim (if ins_id prim = root then dst else the (slots (ins_id prim))) fe of
        Inl e \<Rightarrow> Inl e
      | Inr fe' \<Rightarrow> emit_order dbl def m slots root dst ps fe')"

record hook_work =
  hw_hook :: hook
  hw_ram :: ram_allocator
  hw_code :: bytes
  hw_claims :: "ram_claim list"
  hw_pin_slots :: "string \<rightharpoonup> u32"

text \<open>\<open>finalize\<close> and the append to the hook's code; \<open>None\<close> when \<open>finalize\<close> throws.\<close>

definition append_finalized :: "emitter \<Rightarrow> hook_work \<Rightarrow> hook_work result option" where
  "append_finalized fe w = map_option (\<lambda>c. Inr (w\<lparr>hw_code := hw_code w @ c\<rparr>)) (finalize fe)"

definition emit_load_const_store_sequence :: "u32 \<Rightarrow> u32 \<Rightarrow> hook_work \<Rightarrow> hook_work result option" where
  "emit_load_const_store_sequence v dst =
     append_finalized
       (fe_emit (enc_mov_l_reg_at_reg 0 1) (fe_mov_l_disp_pc 1 dst (fe_mov_l_disp_pc 0 v empty_emitter)))"

definition emit_load_hook_store_sequence :: "u32 \<Rightarrow> u32 \<Rightarrow> hook_work \<Rightarrow> hook_work result option" where
  "emit_load_hook_store_sequence src dst =
     append_finalized
       (fe_emit (enc_mov_l_reg_at_reg 0 1) (fe_mov_l_disp_pc 1 dst
         (fe_emit (enc_mov_l_at_reg_reg 0 0) (fe_mov_l_disp_pc 0 src empty_emitter))))"

definition emit_nested_call_primitive ::
    "'d doubles \<Rightarrow> pack_view \<Rightarrow> 'd ir_module \<Rightarrow> 'd instruction \<Rightarrow> u32 \<Rightarrow> hook_work \<Rightarrow> hook_work result option" where
  "emit_nested_call_primitive dbl def m root dst w =
     (case walk (Suc (length m)) m (hw_hook w) root True
             \<lparr>wk_slots = Map.empty, wk_visited = {}, wk_order = [], wk_ram = hw_ram w, wk_claims = hw_claims w\<rparr> of
        None \<Rightarrow> None
      | Some (Inl e) \<Rightarrow> Some (Inl e)
      | Some (Inr st) \<Rightarrow>
          (case emit_order dbl def m (wk_slots st) (ins_id root) dst (wk_order st) empty_emitter of
             Inl e \<Rightarrow> Some (Inl e)
           | Inr fe \<Rightarrow> append_finalized fe (w\<lparr>hw_ram := wk_ram st, hw_claims := wk_claims st\<rparr>)))"

definition emit_single_call_primitive ::
    "'d doubles \<Rightarrow> pack_view \<Rightarrow> 'd ir_module \<Rightarrow> 'd instruction \<Rightarrow> u32 \<Rightarrow> hook_work \<Rightarrow> hook_work result option" where
  "emit_single_call_primitive dbl def m src dst w =
     (case emit_prim dbl def m Map.empty src dst empty_emitter of
        Inl e \<Rightarrow> Some (Inl e)
      | Inr fe \<Rightarrow> append_finalized fe w)"

definition producer_is_primitive :: "'d ir_module \<Rightarrow> value_id \<Rightarrow> bool" where
  "producer_is_primitive m v =
     (case find_producer m v of None \<Rightarrow> False | Some pr \<Rightarrow> ins_op pr = CallPrimitive)"

definition emit_store_source ::
    "'d doubles \<Rightarrow> pack_view \<Rightarrow> 'd ir_module \<Rightarrow> 'd instruction \<Rightarrow> u32 \<Rightarrow> hook_work \<Rightarrow> hook_work result option" where
  "emit_store_source dbl def m src dst w =
     (case ins_op src of
        LoadConstant \<Rightarrow>
          (case coerce_constant_to_u32 dbl src of
             Inl e \<Rightarrow> Some (Inl e)
           | Inr v \<Rightarrow> emit_load_const_store_sequence v dst w)
      | LoadHookInput \<Rightarrow>
          (case resolve_hook_input_address def src of
             Inl e \<Rightarrow> Some (Inl e)
           | Inr a \<Rightarrow> emit_load_hook_store_sequence a dst w)
      | _ \<Rightarrow>
          (case validate_call_primitive src of
             Inl e \<Rightarrow> Some (Inl e)
           | Inr _ \<Rightarrow>
               if list_ex (producer_is_primitive m) (ins_operands src)
               then emit_nested_call_primitive dbl def m src dst w
               else emit_single_call_primitive dbl def m src dst w))"

section \<open>One store\<close>

record compile_state =
  cs_works :: "string \<rightharpoonup> hook_work"
  cs_ordered :: "string list"

definition start_work :: "hook \<Rightarrow> hook_work" where
  "start_work hook =
     \<lparr>hw_hook = hook, hw_ram = ram_allocator (the (hk_free_ram_base hook)) (the (hk_free_ram_length hook)),
      hw_code = [], hw_claims = [], hw_pin_slots = Map.empty\<rparr>"

text \<open>The checks of a store, up to its hook and the producer of its operand.\<close>

definition check_store :: "pack_view \<Rightarrow> 'd ir_module \<Rightarrow> 'd instruction \<Rightarrow> ('d instruction \<times> hook) result" where
  "check_store def m ins =
     (if length (ins_operands ins) \<noteq> 1 then
        failure ParseError ''SH-2A backend: StoreHookOutput must have exactly one operand''
      else (case find_producer m (ins_operands ins ! 0) of
          None \<Rightarrow> failure ParseError (''SH-2A backend: StoreHookOutput operand does not resolve to any '' @
            ''producing instruction (invariant: lower() should assign result_id to every value-producing op)'')
        | Some src \<Rightarrow>
            if ins_op src \<noteq> LoadConstant \<and> ins_op src \<noteq> LoadHookInput \<and> ins_op src \<noteq> CallPrimitive then
              failure NotImplemented (''SH-2A backend: StoreHookOutput source must be a LoadConstant, '' @
                ''LoadHookInput, or CallPrimitive in this slice'')
            else if ins_op src = LoadConstant \<and> ins_constant src = None then
              failure ParseError ''SH-2A backend: LoadConstant has no constant_value (lower() invariant violation)''
            else (case find_hook def (ins_symbol ins) of
                None \<Rightarrow> failure InvalidArgument (''SH-2A backend: hook '' @ quoted (ins_symbol ins) @
                  '' not declared in the loaded definition pack'')
              | Some hook \<Rightarrow>
                  if hk_ecu_address hook = None then
                    failure InvalidArgument (''SH-2A backend: hook '' @ quoted (ins_symbol ins) @
                      '' has no ecu_address '' @ em_dash @ '' pack must declare the splice point for codegen'')
                  else if hk_free_ram_base hook = None \<or> hk_free_ram_length hook = None \<or>
                      hk_free_ram_length hook = Some 0 then
                    failure InvalidArgument (''SH-2A backend: hook '' @ quoted (ins_symbol ins) @
                      '' has no free_ram region '' @ em_dash @ '' pack must declare scratch RAM for codegen'')
                  else Inr (src, hook))))"

text \<open>The slot of an output pin: the one it has, or a new longword of the hook's free RAM.\<close>

definition pin_slot :: "string \<Rightarrow> hook_work \<Rightarrow> (u32 \<times> hook_work) result" where
  "pin_slot pin w =
     (case hw_pin_slots w pin of
        Some a \<Rightarrow> Inr (a, w)
      | None \<Rightarrow>
          (case ram_alloc_claim (hw_ram w) 4 4 of
             (Inl _, _) \<Rightarrow> failure OutOfRange (''SH-2A backend: hook '' @ quoted (hk_id (hw_hook w)) @
               '' free_ram exhausted while allocating output slot for pin '' @ quoted pin)
           | (Inr c, ram) \<Rightarrow>
               Inr (ucast (rc_address c),
                 w\<lparr>hw_ram := ram, hw_claims := hw_claims w @ [c],
                   hw_pin_slots := (hw_pin_slots w)(pin \<mapsto> ucast (rc_address c))\<rparr>)))"

definition compile_store ::
    "'d doubles \<Rightarrow> pack_view \<Rightarrow> 'd ir_module \<Rightarrow> 'd instruction \<Rightarrow> compile_state \<Rightarrow> compile_state result option" where
  "compile_store dbl def m ins st =
     (case check_store def m ins of
        Inl e \<Rightarrow> Some (Inl e)
      | Inr (src, hook) \<Rightarrow>
          let known = cs_works st (hk_id hook);
              w = (case known of None \<Rightarrow> start_work hook | Some w \<Rightarrow> w);
              ordered = (if known = None then cs_ordered st @ [hk_id hook] else cs_ordered st) in
          (case pin_slot (ins_pin ins) w of
             Inl e \<Rightarrow> Some (Inl e)
           | Inr (dst, w) \<Rightarrow>
               map_option (map_sum id (\<lambda>w. \<lparr>cs_works = (cs_works st)(hk_id hook \<mapsto> w), cs_ordered = ordered\<rparr>))
                 (emit_store_source dbl def m src dst w)))"

fun compile_stores ::
    "'d doubles \<Rightarrow> pack_view \<Rightarrow> 'd ir_module \<Rightarrow> 'd instruction list \<Rightarrow> compile_state \<Rightarrow>
     compile_state result option" where
  "compile_stores dbl def m [] st = Some (Inr st)"
| "compile_stores dbl def m (ins # rest) st =
     (if ins_op ins \<noteq> StoreHookOutput then compile_stores dbl def m rest st
      else (case compile_store dbl def m ins st of
          None \<Rightarrow> None
        | Some (Inl e) \<Rightarrow> Some (Inl e)
        | Some (Inr st') \<Rightarrow> compile_stores dbl def m rest st'))"

section \<open>Patch objects and the address gate\<close>

datatype arch = ArchUnknown | ArchSh2a | ArchRh850

primrec arch_name :: "arch \<Rightarrow> string" where
  "arch_name ArchSh2a = ''sh2a''"
| "arch_name ArchRh850 = ''rh850''"
| "arch_name ArchUnknown = ''unknown''"

record hook_patch =
  hp_symbol :: string
  hp_splice_address :: u64
  hp_code :: bytes
  hp_ram_claims :: "ram_claim list"

record patch_object =
  po_arch :: arch
  po_hooks :: "hook_patch list"

fun hex_length :: "nat \<Rightarrow> nat" where
  "hex_length n = (if n < 16 then 1 else Suc (hex_length (n div 16)))"

declare hex_length.simps [simp del]

definition hex_min8 :: "nat \<Rightarrow> string" where
  "hex_min8 n = hex_fixed (max 8 (hex_length n)) n"

definition format_range :: "u64 \<Rightarrow> u64 \<Rightarrow> string" where
  "format_range address len =
     ''0x'' @ hex_min8 (unat address) @ ''..0x'' @ hex_min8 (unat (address + len)) @
     '' ('' @ dec_string (unat len) @ '' bytes)''"

definition hook_fits :: "writable_region list \<Rightarrow> hook_patch \<Rightarrow> bool" where
  "hook_fits regions hp =
     list_ex (\<lambda>r. hp_splice_address hp \<ge> wr_address r \<and>
       hp_splice_address hp + of_nat (length (hp_code hp)) \<le> wr_address r + wr_length r) regions"

definition gate_violations :: "writable_region list \<Rightarrow> hook_patch list \<Rightarrow> hook_patch list" where
  "gate_violations regions hps = filter (\<lambda>hp. hp_code hp \<noteq> [] \<and> \<not> hook_fits regions hp) hps"

definition violation_line :: "hook_patch \<Rightarrow> string" where
  "violation_line hp = ''  - hook '' @ quoted (hp_symbol hp) @ '' writes '' @
     format_range (hp_splice_address hp) (of_nat (length (hp_code hp))) @
     '' which is not contained in any single [[writable_region]]''"

definition region_line :: "writable_region \<Rightarrow> string" where
  "region_line r = [CHR 0x0A] @ ''  - '' @ quoted (wr_name r) @ '' ('' @ wr_kind r @ '') '' @
     format_range (wr_address r) (wr_length r)"

fun join_lines :: "string list \<Rightarrow> string" where
  "join_lines [] = []"
| "join_lines [x] = x"
| "join_lines (x # xs) = x @ [CHR 0x0A] @ join_lines xs"

definition gate_patch :: "patch_object \<Rightarrow> pack_view \<Rightarrow> status" where
  "gate_patch p def =
     (let regions = pv_writable_regions def in
      if regions = [] then
        (if po_hooks p = [] then ok
         else failure InvalidArgument (''codegen address gate: pack has no [[writable_region]] '' @
           ''declared but the patch carries '' @ dec_string (length (po_hooks p)) @
           '' hook(s). Codegen fails closed when no writable regions '' @
           ''are declared '' @ em_dash @ '' declare them in the pack TOML (see '' @
           ''docs/11-definition-format.md '' @ section_sign @ ''writable_region) or the '' @
           ''patch cannot be safely emitted.''))
      else
        let bad = gate_violations regions (po_hooks p) in
        if bad \<noteq> [] then
          failure InvalidArgument (''codegen address gate: '' @ dec_string (length bad) @
            '' hook(s) target addresses outside the pack'' @ [CHR 0x27] @ ''s declared writable regions:'' @
            [CHR 0x0A] @ join_lines (map violation_line bad) @ [CHR 0x0A] @ ''  Available regions:'' @
            concat (map region_line regions))
        else ok)"

definition hook_patch_of :: "hook_work \<Rightarrow> hook_patch" where
  "hook_patch_of w = \<lparr>hp_symbol = hk_id (hw_hook w), hp_splice_address = the (hk_ecu_address (hw_hook w)),
     hp_code = hw_code w, hp_ram_claims = hw_claims w\<rparr>"

definition compile :: "'d doubles \<Rightarrow> 'd ir_module \<Rightarrow> pack_view \<Rightarrow> patch_object result option" where
  "compile dbl m def =
     (case compile_stores dbl def m m \<lparr>cs_works = Map.empty, cs_ordered = []\<rparr> of
        None \<Rightarrow> None
      | Some (Inl e) \<Rightarrow> Some (Inl e)
      | Some (Inr st) \<Rightarrow>
          let obj = \<lparr>po_arch = ArchSh2a,
                po_hooks = map (\<lambda>h. hook_patch_of (the (cs_works st h))) (cs_ordered st)\<rparr> in
          (case gate_patch obj def of Inl e \<Rightarrow> Some (Inl e) | Inr _ \<Rightarrow> Some (Inr obj)))"

section \<open>Backend selection\<close>

definition ieq_char :: "char \<Rightarrow> char" where
  "ieq_char c = (if of_char c \<ge> (97 :: nat) \<and> of_char c \<le> (122 :: nat) then char_of (of_char c - 32 :: nat) else c)"

definition ieq :: "string \<Rightarrow> string \<Rightarrow> bool" where
  "ieq a b \<longleftrightarrow> length a = length b \<and> map ieq_char a = map ieq_char b"

text \<open>The tokens of the platform name, split at the dots.\<close>

fun platform_tokens :: "string \<Rightarrow> string list" where
  "platform_tokens [] = [[]]"
| "platform_tokens (c # cs) =
     (if c = CHR 0x2E then [] # platform_tokens cs
      else case platform_tokens cs of [] \<Rightarrow> [[c]] | t # ts \<Rightarrow> (c # t) # ts)"

definition has_platform_token :: "string \<Rightarrow> string \<Rightarrow> bool" where
  "has_platform_token platform wanted = list_ex (\<lambda>t. ieq t wanted) (platform_tokens platform)"

definition right_arrow :: string where
  "right_arrow = [CHR 0xE2, CHR 0x86, CHR 0x92]"

definition select_backend :: "string \<Rightarrow> arch result" where
  "select_backend platform =
     (if has_platform_token platform ''VA'' then Inr ArchSh2a
      else if has_platform_token platform ''VB'' then Inr ArchRh850
      else failure UnsupportedVersion (''select_backend: no codegen backend for platform '' @ quoted platform @
        '' (recognized tokens: VA '' @ right_arrow @ '' sh2a, VB '' @ right_arrow @ '' rh850)''))"

end
