(* ===== verification/Codegen_Exec.thy ===== *)
theory Codegen_Exec
  imports Codegen_Sh2a
begin

text \<open>
  Running what the backend emits for one store. A \<open>segment\<close> is a stretch of emitted code with the
  memory update it performs; segments compose, and a finalised emitter is a program that performs
  the update and returns to its caller.
\<close>

section \<open>Programs\<close>

definition runnable :: "bytes \<Rightarrow> (u32 \<Rightarrow> bool) \<Rightarrow> sh2a \<Rightarrow> bool" where
  "runnable c writable s \<longleftrightarrow> aligned4 (sh_pc s) \<and> loaded (sh_mem s) (sh_pc s) c \<and> length c < 1032 \<and>
     (\<forall>a. writable a \<longrightarrow> aligned4 a \<and> clear_of a (sh_pc s) (length c))"

definition program_does :: "bytes \<Rightarrow> u32 set \<Rightarrow> (fpu \<Rightarrow> memory \<Rightarrow> memory) \<Rightarrow> bool" where
  "program_does c D E \<longleftrightarrow> (\<forall>f writable s. runnable c writable s \<longrightarrow> (\<forall>d \<in> D. writable d) \<longrightarrow>
     (\<exists>s'. reaches f s s' \<and> sh_pc s' = sh_pr s \<and> sh_mem s' = E f (sh_mem s) \<and> keeps s s'))"

lemma runnable_placed:
  "runnable (code_bytes labels ss) writable s \<Longrightarrow> placed labels ss (sh_pc s) writable (sh_mem s)"
  by (simp add: runnable_def placed_def)

lemma at_index_0 [simp]: "at_index base 0 = base"
  by (simp add: at_index_def)

section \<open>Segments\<close>

definition runs_mem ::
    "nat option list \<Rightarrow> sym list \<Rightarrow> nat \<Rightarrow> nat \<Rightarrow> u32 set \<Rightarrow> (fpu \<Rightarrow> memory \<Rightarrow> memory) \<Rightarrow> bool" where
  "runs_mem labels ss i n D E \<longleftrightarrow>
     (\<forall>f base writable s. placed labels ss base writable (sh_mem s) \<longrightarrow> sh_pc s = at_index base i \<longrightarrow>
       (\<forall>d \<in> D. writable d) \<longrightarrow>
       (\<exists>s'. reaches f s s' \<and> sh_pc s' = at_index base (i + n) \<and> sh_mem s' = E f (sh_mem s) \<and> keeps s s' \<and>
          placed labels ss base writable (sh_mem s')))"

definition jumps_placed :: "sym list \<Rightarrow> nat option list \<Rightarrow> bool" where
  "jumps_placed xs labels \<longleftrightarrow>
     (\<forall>l. SBt l \<in> set xs \<or> SBra l \<in> set xs \<longrightarrow> l < length labels \<and> labels ! l \<noteq> None)"

definition segment :: "emitter \<Rightarrow> emitter \<Rightarrow> bool \<Rightarrow> u32 set \<Rightarrow> (fpu \<Rightarrow> memory \<Rightarrow> memory) \<Rightarrow> bool" where
  "segment fe fe' A D E \<longleftrightarrow>
     (\<forall>pre. reads fe pre \<longrightarrow> (\<exists>xs. reads fe' (pre @ xs) \<and> jumps_placed xs (fe_labels fe') \<and>
        (A \<longrightarrow> (\<forall>ext_ls post. runs_mem (fe_labels fe' @ ext_ls) (pre @ xs @ post) (length pre) (length xs) D E)))) \<and>
     (\<exists>ext_ls. fe_labels fe' = fe_labels fe @ ext_ls)"

lemma jumps_placed_mono: "jumps_placed xs labels \<Longrightarrow> jumps_placed xs (labels @ ext_ls)"
  by (auto simp: jumps_placed_def nth_append)

lemma jumps_placed_append: "jumps_placed (xs @ ys) labels \<longleftrightarrow> jumps_placed xs labels \<and> jumps_placed ys labels"
  by (auto simp: jumps_placed_def)

lemma runs_mem_trans:
  assumes "runs_mem labels ss i n1 D1 E1" "runs_mem labels ss (i + n1) n2 D2 E2"
  shows "runs_mem labels ss i (n1 + n2) (D1 \<union> D2) (\<lambda>f mem. E2 f (E1 f mem))"
  unfolding runs_mem_def
proof (intro allI impI)
  fix f base writable and s :: sh2a
  assume s: "placed labels ss base writable (sh_mem s)" "sh_pc s = at_index base i" "\<forall>d \<in> D1 \<union> D2. writable d"
  then obtain s1 where s1: "reaches f s s1" "sh_pc s1 = at_index base (i + n1)" "sh_mem s1 = E1 f (sh_mem s)"
      "keeps s s1" "placed labels ss base writable (sh_mem s1)"
    using assms(1) unfolding runs_mem_def by blast
  then obtain s2 where s2: "reaches f s1 s2" "sh_pc s2 = at_index base (i + n1 + n2)" "sh_mem s2 = E2 f (sh_mem s1)"
      "keeps s1 s2" "placed labels ss base writable (sh_mem s2)"
    using assms(2) s(3) unfolding runs_mem_def by blast
  with s1 show "\<exists>s'. reaches f s s' \<and> sh_pc s' = at_index base (i + (n1 + n2)) \<and>
      sh_mem s' = E2 f (E1 f (sh_mem s)) \<and> keeps s s' \<and> placed labels ss base writable (sh_mem s')"
    by (intro exI [of _ s2]) (auto intro: reaches_trans keeps_trans simp: add.assoc)
qed

lemma segment_trans:
  assumes "segment fe fe1 A1 D1 E1" "segment fe1 fe2 A2 D2 E2"
  shows "segment fe fe2 (A1 \<and> A2) (D1 \<union> D2) (\<lambda>f mem. E2 f (E1 f mem))"
  unfolding segment_def
proof (intro conjI allI impI)
  obtain m1 m2 where labels: "fe_labels fe1 = fe_labels fe @ m1" "fe_labels fe2 = fe_labels fe1 @ m2"
    using assms by (auto simp: segment_def)
  then show "\<exists>ext_ls. fe_labels fe2 = fe_labels fe @ ext_ls" by simp
  fix pre assume "reads fe pre"
  then obtain xs where xs: "reads fe1 (pre @ xs)" "jumps_placed xs (fe_labels fe1)"
      "A1 \<Longrightarrow> runs_mem (fe_labels fe1 @ ext_ls) (pre @ xs @ post) (length pre) (length xs) D1 E1" for ext_ls post
    using assms(1) unfolding segment_def by blast
  obtain ys where ys: "reads fe2 ((pre @ xs) @ ys)" "jumps_placed ys (fe_labels fe2)"
      "A2 \<Longrightarrow> runs_mem (fe_labels fe2 @ ext_ls) ((pre @ xs) @ ys @ post) (length (pre @ xs)) (length ys) D2 E2"
      for ext_ls post
    using assms(2) xs(1) unfolding segment_def by blast
  have "runs_mem (fe_labels fe2 @ ext_ls) (pre @ (xs @ ys) @ post) (length pre) (length (xs @ ys)) (D1 \<union> D2)
      (\<lambda>f mem. E2 f (E1 f mem))" if "A1 \<and> A2" for ext_ls post
  proof -
    have "runs_mem (fe_labels fe2 @ ext_ls) (pre @ xs @ ys @ post) (length pre) (length xs) D1 E1"
      using xs(3) [of "m2 @ ext_ls" "ys @ post"] that labels by simp
    moreover have "runs_mem (fe_labels fe2 @ ext_ls) (pre @ xs @ ys @ post) (length pre + length xs) (length ys) D2 E2"
      using ys(3) [of ext_ls post] that by simp
    ultimately show ?thesis using runs_mem_trans by fastforce
  qed
  moreover have "jumps_placed xs (fe_labels fe2)"
    using jumps_placed_mono [OF xs(2)] unfolding labels(2) .
  ultimately show "\<exists>xs. reads fe2 (pre @ xs) \<and> jumps_placed xs (fe_labels fe2) \<and>
      (A1 \<and> A2 \<longrightarrow> (\<forall>ext_ls post. runs_mem (fe_labels fe2 @ ext_ls) (pre @ xs @ post) (length pre) (length xs) (D1 \<union> D2)
         (\<lambda>f mem. E2 f (E1 f mem))))"
    using ys(1,2) by (intro exI [of _ "xs @ ys"]) (simp add: jumps_placed_append)
qed

lemma segment_refl [simp]: "segment fe fe A {} (\<lambda>f mem. mem)"
  unfolding segment_def runs_mem_def jumps_placed_def
  by (auto intro!: exI [of _ "[]"] reaches_refl)

lemma realizes_segment:
  assumes "realizes val dst ops fe fe'"
  shows "segment fe fe' (list_all operand_aligned ops) {dst} (\<lambda>f mem. store32 mem dst (val f mem))"
proof -
  have "runs_mem labels ss i n {dst} (\<lambda>f mem. store32 mem dst (val f mem))" if "runs_at labels ss i n val dst"
    for labels ss i n
    using that unfolding runs_mem_def runs_at_def by (fastforce intro: placed_store)
  with assms show ?thesis unfolding segment_def realizes_def jumps_placed_def by blast
qed

text \<open>Straight-line code: the two sequences that store a constant or a hook input.\<close>

lemma emits_segment:
  assumes "emits fe xs fe'" "list_all plain xs"
    and "\<And>f writable s. writable dst \<Longrightarrow> aligned4 dst \<Longrightarrow> A \<Longrightarrow> computes f writable xs dst (val f (sh_mem s)) s"
  shows "segment fe fe' A {dst} (\<lambda>f mem. store32 mem dst (val f mem))"
proof -
  let ?ops = "if A then [] else [\<lparr>po_kind = HookInputPointer, po_value = 1\<rparr>]"
  have al: "list_all operand_aligned ?ops = A" by (simp add: operand_aligned_def aligned4_def)
  have "implements val dst ?ops fe fe'"
    using assms al by (intro implementsI [of _ xs]) auto
  from realizes_segment [OF implements_realizes [OF this]] show ?thesis unfolding al .
qed

lemma finalize_segment:
  assumes "segment empty_emitter fe A D E"
  obtains c where "finalize fe = Some c" "c \<noteq> []" "A \<longrightarrow> program_does c D E"
proof -
  obtain xs where xs: "reads fe xs" "jumps_placed xs (fe_labels fe)"
      "A \<Longrightarrow> runs_mem (fe_labels fe @ ext_ls) (xs @ post) 0 (length xs) D E" for ext_ls post
    using assms reads_empty unfolding segment_def by (metis append_Nil list.size(3))
  have "labels_placed (fe_labels fe) xs" using xs(2) by (simp add: jumps_placed_def labels_placed_def)
  from finalize_reads [OF xs(1) this] have fin: "finalize fe = Some (code_bytes (fe_labels fe) xs)"
    by (simp add: code_bytes_def code_words_def)
  have "program_does (code_bytes (fe_labels fe) xs) D E" if al: A
    unfolding program_does_def
  proof (intro allI impI)
    fix f writable and s :: sh2a
    assume s: "runnable (code_bytes (fe_labels fe) xs) writable s" "\<forall>d \<in> D. writable d"
    have p: "placed (fe_labels fe) xs (sh_pc s) writable (sh_mem s)" using s(1) by (rule runnable_placed)
    obtain s1 where s1: "reaches f s s1" "sh_pc s1 = at_index (sh_pc s) (length xs)" "sh_mem s1 = E f (sh_mem s)"
        "keeps s s1" "placed (fe_labels fe) xs (sh_pc s) writable (sh_mem s1)"
    proof -
      have "runs_mem (fe_labels fe) xs 0 (length xs) D E" using xs(3) [of "[]" "[]"] al by simp
      then show ?thesis using p s(2) that unfolding runs_mem_def at_index_0 add_0 by blast
    qed
    from reaches_trans [OF s1(1) reaches_return [OF s1(5,2)]]
    show "\<exists>s'. reaches f s s' \<and> sh_pc s' = sh_pr s \<and> sh_mem s' = E f (sh_mem s) \<and> keeps s s'"
      using s1(3,4) by (intro exI [of _ "s1\<lparr>sh_pc := sh_pr s1\<rparr>"]) (simp add: keeps_def)
  qed
  moreover have "code_bytes (fe_labels fe) xs \<noteq> []"
    using length_code_bytes [of "fe_labels fe" xs] by (auto simp: pool_offset_def)
  ultimately show ?thesis using fin that by blast
qed

section \<open>Primitives in emission order\<close>

lemma primitive_shape_arity:
  "primitive_shape x = Some sh \<Longrightarrow> primitive_arity x = Some (ps_arity sh)"
  by (auto simp: primitive_shape_def primitive_shapes_def shape_def primitive_arity_def split: if_splits)

definition prim_operands ::
    "'d doubles \<Rightarrow> pack_view \<Rightarrow> 'd ir_module \<Rightarrow> (value_id \<rightharpoonup> u32) \<Rightarrow> 'd instruction \<Rightarrow> primitive_operand list \<Rightarrow> bool" where
  "prim_operands dbl def m slots prim ops \<longleftrightarrow>
     (\<exists>sh. primitive_shape (ins_symbol prim) = Some sh \<and> length ops = ps_arity sh \<and>
        (\<forall>i < ps_arity sh. operand_from_producer dbl def m (ins_operands prim ! i) (ps_operand_types sh ! i) slots =
           Inr (ops ! i)))"

definition prim_update :: "'d instruction \<Rightarrow> primitive_operand list \<Rightarrow> u32 \<Rightarrow> fpu \<Rightarrow> memory \<Rightarrow> memory" where
  "prim_update prim ops dst f mem = store32 mem dst (prim_value (ins_symbol prim) ops f mem)"

lemma emit_prim_segment:
  assumes "emit_prim dbl def m slots prim dst fe = Inr fe'"
  obtains ops where "prim_operands dbl def m slots prim ops"
    "segment fe fe' (list_all operand_aligned ops) {dst} (prim_update prim ops dst)"
proof -
  from assms obtain sh ops where sh: "primitive_shape (ins_symbol prim) = Some sh"
      "traverse (\<lambda>i. operand_from_producer dbl def m (ins_operands prim ! i) (ps_operand_types sh ! i) slots)
         [0..<ps_arity sh] = Inr ops"
      "emit_primitive_fragment (ins_symbol prim) ops dst fe = Inr fe'"
    by (auto simp: emit_prim_def split: option.splits sum.splits)
  from sh(2) have ops: "length ops = ps_arity sh"
      "\<forall>i < ps_arity sh. operand_from_producer dbl def m (ins_operands prim ! i) (ps_operand_types sh ! i) slots =
         Inr (ops ! i)"
    by (auto simp: traverse_Inr_iff list_all2_conv_all_nth)
  have "realizes (prim_value (ins_symbol prim) ops) dst ops fe fe'"
    using emit_primitive_realizes [OF sh(3)] primitive_shape_arity [OF sh(1)] ops(1) by simp
  from realizes_segment [OF this] sh(1) ops show thesis
    by (intro that [of ops]) (auto simp: prim_operands_def prim_update_def [abs_def])
qed

definition dest_of :: "(value_id \<rightharpoonup> u32) \<Rightarrow> value_id \<Rightarrow> u32 \<Rightarrow> 'd instruction \<Rightarrow> u32" where
  "dest_of slots root dst prim = (if ins_id prim = root then dst else the (slots (ins_id prim)))"

fun run_order :: "(value_id \<rightharpoonup> u32) \<Rightarrow> value_id \<Rightarrow> u32 \<Rightarrow> 'd instruction list \<Rightarrow> primitive_operand list list \<Rightarrow>
    fpu \<Rightarrow> memory \<Rightarrow> memory" where
  "run_order slots root dst (p # ps) (ops # opss) f mem =
     run_order slots root dst ps opss f (prim_update p ops (dest_of slots root dst p) f mem)"
| "run_order slots root dst _ _ f mem = mem"

lemma emit_order_segment:
  assumes "emit_order dbl def m slots root dst ps fe = Inr fe'"
  obtains opss where "list_all2 (prim_operands dbl def m slots) ps opss"
    "segment fe fe' (list_all (list_all operand_aligned) opss) (dest_of slots root dst ` set ps)
       (run_order slots root dst ps opss)"
proof -
  have "\<exists>opss. list_all2 (prim_operands dbl def m slots) ps opss \<and>
      segment fe fe' (list_all (list_all operand_aligned) opss) (dest_of slots root dst ` set ps)
       (run_order slots root dst ps opss)"
    using assms
  proof (induction ps arbitrary: fe)
    case Nil
    then show ?case by (intro exI [of _ "[]"]) simp
  next
    case (Cons p ps)
    let ?d = "dest_of slots root dst p"
    obtain fe1 where fe1: "emit_prim dbl def m slots p ?d fe = Inr fe1"
        "emit_order dbl def m slots root dst ps fe1 = Inr fe'"
      using Cons.prems by (auto simp: dest_of_def split: sum.splits)
    obtain ops where ops: "prim_operands dbl def m slots p ops"
        "segment fe fe1 (list_all operand_aligned ops) {?d} (prim_update p ops ?d)"
      using emit_prim_segment [OF fe1(1)] .
    obtain opss where opss: "list_all2 (prim_operands dbl def m slots) ps opss"
        "segment fe1 fe' (list_all (list_all operand_aligned) opss) (dest_of slots root dst ` set ps)
           (run_order slots root dst ps opss)"
      using Cons.IH [OF fe1(2)] by blast
    have "run_order slots root dst (p # ps) (ops # opss) =
        (\<lambda>f mem. run_order slots root dst ps opss f (prim_update p ops ?d f mem))"
      by (intro ext) simp
    with ops opss segment_trans [OF ops(2) opss(2)] show ?case
      by (intro exI [of _ "ops # opss"]) simp
  qed
  then show thesis using that by blast
qed

end
