(* ===== verification/Codegen_Walk.thy ===== *)
theory Codegen_Walk
  imports Codegen_Exec
begin

text \<open>
  The operand walk of the SH-2A backend: the order it produces is topological, every inner primitive
  has a slot of its own in the hook's free RAM, and the walk of a module in SSA order returns.
\<close>

section \<open>Longwords of RAM\<close>

definition longword :: "u32 \<Rightarrow> u32 set" where
  "longword a = {a, a + 1, a + 2, a + 3}"

lemma aligned4_iff_dvd: "aligned4 a \<longleftrightarrow> 4 dvd unat a"
proof -
  have m: "(3 :: u32) = mask 2" by (simp add: mask_eq_exp_minus_1)
  have "aligned4 a \<longleftrightarrow> take_bit 2 a = 0" by (simp add: aligned4_def m take_bit_eq_mask)
  also have "\<dots> \<longleftrightarrow> unat (take_bit 2 a) = 0" by (simp add: unat_eq_0)
  also have "unat (take_bit 2 a) = unat a mod 4" by (simp only: unsigned_take_bit_eq) (simp add: take_bit_eq_mod)
  finally show ?thesis by (simp add: dvd_eq_mod_eq_0)
qed

lemma longword_unat:
  assumes "aligned4 a"
  shows "longword a = {x. unat a \<le> unat x \<and> unat x < unat a + 4}"
proof -
  obtain k where "unat a = 4 * k" using assms by (auto simp: aligned4_iff_dvd)
  moreover from this have "k < 1073741824" using unsigned_less [of a, where ?'a = nat] by simp
  ultimately have le: "unat a + 3 < 2 ^ 32" by simp
  have add: "unat (a + of_nat k) = unat a + k" if "k \<le> 3" for k
  proof -
    have "unat (a + of_nat k) = (unat a + k) mod 2 ^ 32"
      by (simp add: unat_word_ariths unat_of_nat mod_simps)
    then show ?thesis using le that by simp
  qed
  have lw: "longword a = (\<lambda>k. a + of_nat k) ` {0, 1, 2, 3}" by (simp add: longword_def)
  show ?thesis
  proof (intro set_eqI iffI)
    fix x assume "x \<in> longword a"
    then obtain k where k': "x = a + of_nat k" "k \<in> {0, 1, 2, 3 :: nat}" unfolding lw by blast
    then have k: "x = a + of_nat k" "k \<le> 3" by auto
    then have "unat x = unat a + k" using add by simp
    with k show "x \<in> {x. unat a \<le> unat x \<and> unat x < unat a + 4}" by simp
  next
    fix x :: u32 assume x: "x \<in> {x. unat a \<le> unat x \<and> unat x < unat a + 4}"
    then obtain k where k: "unat x = unat a + k" using le_Suc_ex [of "unat a" "unat x"] by blast
    with x have k: "unat x = unat a + k" "k \<le> 3" by simp_all
    then have "x = a + of_nat k" using add [of k] by (simp add: word_unat_eq_iff)
    moreover have "k \<in> {0, 1, 2, 3}" using k(2) by auto
    ultimately show "x \<in> longword a" unfolding lw by blast
  qed
qed

lemma load32_store32_same: "load32 (store32 mem a v) a = v"
proof (rule load32_be32)
  show "loaded (store32 mem a v) a (be32 v)"
    by (simp add: be32_def loaded_cons store32_def add.assoc del: byte_at_0) (simp add: loaded_def)
qed

lemma load32_store32_other: "longword a \<inter> longword b = {} \<Longrightarrow> load32 (store32 mem a v) b = load32 mem b"
  by (auto simp: load32_def store32_def longword_def)

lemma store32_other: "x \<notin> longword a \<Longrightarrow> store32 mem a v x = mem x"
  by (simp add: store32_def longword_def)

text \<open>What a granted claim of four bytes is, read as a 32-bit address.\<close>

definition ram_bytes :: "nat set \<Rightarrow> u32 set" where
  "ram_bytes T = {x. unat x \<in> T}"

definition ram_end :: "ram_allocator \<Rightarrow> nat" where
  "ram_end a = unat (ram_base a) + unat (ram_length a)"

lemma ram_claim_longword:
  assumes "ram_alloc_claim a 4 4 = (Inr c, a')" "ram_inv a" "ram_end a \<le> 2 ^ 32"
  defines "x \<equiv> ucast (rc_address c) :: u32"
  shows "aligned4 x" "longword x \<subseteq> ram_bytes (ram_taken a')" "longword x \<inter> ram_bytes (ram_taken a) = {}"
    "ram_taken a \<subseteq> ram_taken a'" "ram_inv a'" "ram_base a' = ram_base a" "ram_length a' = ram_length a"
proof -
  note D = ram_alloc_InrD [OF assms(1,2)]
  note C = ram_alloc_claimed [OF assms(2,1)]
  have fits: "unat (rc_address c) + 4 \<le> 2 ^ 32" using D(3) assms(3) by (simp add: ram_end_def)
  then have ux: "unat x = unat (rc_address c)"
    unfolding x_def by (simp only: unsigned_ucast_eq) (simp add: take_bit_eq_mod)
  have "2 ^ 2 dvd unat (rc_address c)" using D(7) unfolding ram_fits_def by (auto dest!: spec [of _ 2])
  then show al: "aligned4 x" by (simp add: aligned4_iff_dvd ux)
  have span: "longword x = ram_bytes (ram_span c)"
    using D(4) unfolding longword_unat [OF al] ram_bytes_def ram_span_def by (auto simp: ux)
  show "longword x \<subseteq> ram_bytes (ram_taken a')" "longword x \<inter> ram_bytes (ram_taken a) = {}"
    using C unfolding span ram_bytes_def by auto
  show "ram_taken a \<subseteq> ram_taken a'" "ram_inv a'" using C by blast+
  show "ram_base a' = ram_base a" "ram_length a' = ram_length a" using D(6) by simp_all
qed

section \<open>Topological orders\<close>

definition prim_edges :: "'d ir_module \<Rightarrow> ('d instruction \<times> 'd instruction) set" where
  "prim_edges m =
     {(p, q). \<exists>v \<in> set (ins_operands p). find_producer m v = Some q \<and> ins_op q = CallPrimitive}"

definition operands_within :: "'d ir_module \<Rightarrow> 'd instruction list \<Rightarrow> 'd instruction \<Rightarrow> bool" where
  "operands_within m qs p \<longleftrightarrow>
     (\<forall>v \<in> set (ins_operands p). \<exists>q. find_producer m v = Some q \<and> (ins_op q = CallPrimitive \<longrightarrow> q \<in> set qs))"

definition topological :: "'d ir_module \<Rightarrow> 'd instruction list \<Rightarrow> bool" where
  "topological m ps \<longleftrightarrow> (\<forall>i < length ps. operands_within m (take i ps) (ps ! i))"

lemma topological_Nil [simp]: "topological m []"
  by (simp add: topological_def)

lemma topological_snoc: "topological m (ps @ [p]) \<longleftrightarrow> topological m ps \<and> operands_within m ps p"
  by (auto simp: topological_def nth_append less_Suc_eq)

lemma topological_closed:
  assumes "topological m ps" "p \<in> set ps" "(p, q) \<in> (prim_edges m)\<^sup>*"
  shows "q \<in> set ps"
  using assms(3)
proof (induction rule: rtrancl_induct)
  case base
  show ?case by fact
next
  case (step y z)
  then obtain i where "i < length ps" "ps ! i = y" by (auto simp: in_set_conv_nth)
  then have "operands_within m (take i ps) y" using assms(1) by (auto simp: topological_def)
  then have "z \<in> set (take i ps)" using step.hyps(2) by (auto simp: operands_within_def prim_edges_def)
  then show ?case by (rule in_set_takeD)
qed

lemma topological_acyclic:
  "topological m ps \<Longrightarrow> p \<in> set ps \<Longrightarrow> (p, p) \<notin> (prim_edges m)\<^sup>+"
proof (induction ps rule: rev_induct)
  case (snoc x ps)
  have ps: "topological m ps" "operands_within m ps x" using snoc.prems(1) by (simp_all add: topological_snoc)
  show ?case
  proof (cases "p \<in> set ps")
    case True
    with snoc.IH ps(1) show ?thesis by blast
  next
    case False
    then have x: "p = x" using snoc.prems(2) by simp
    show ?thesis
    proof
      assume "(p, p) \<in> (prim_edges m)\<^sup>+"
      then obtain q where q: "(p, q) \<in> prim_edges m" "(q, p) \<in> (prim_edges m)\<^sup>*" by (meson tranclD)
      then have "q \<in> set ps" using ps(2) x by (auto simp: operands_within_def prim_edges_def)
      with topological_closed [OF ps(1) _ q(2)] False show False by blast
    qed
  qed
qed simp

section \<open>The invariant of the walk\<close>

definition slots_apart :: "(value_id \<rightharpoonup> u32) \<Rightarrow> u32 set \<Rightarrow> bool" where
  "slots_apart slots R \<longleftrightarrow>
     (\<forall>v a. slots v = Some a \<longrightarrow> aligned4 a \<and> longword a \<subseteq> R) \<and>
     (\<forall>v w a b. slots v = Some a \<longrightarrow> slots w = Some b \<longrightarrow> v \<noteq> w \<longrightarrow> longword a \<inter> longword b = {})"

definition is_node :: "'d ir_module \<Rightarrow> 'd instruction \<Rightarrow> bool" where
  "is_node m p \<longleftrightarrow> find_producer m (ins_id p) = Some p \<and> ins_op p = CallPrimitive"

definition walk_inv :: "'d ir_module \<Rightarrow> ram_allocator \<Rightarrow> 'd walk_state \<Rightarrow> bool" where
  "walk_inv m a st \<longleftrightarrow>
     topological m (wk_order st) \<and>
     wk_visited st = ins_id ` set (wk_order st) \<and> dom (wk_slots st) = wk_visited st \<and>
     (\<forall>p \<in> set (wk_order st). is_node m p \<and> validate_call_primitive p = ok) \<and>
     ram_inv (wk_ram st) \<and> ram_base (wk_ram st) = ram_base a \<and> ram_length (wk_ram st) = ram_length a \<and>
     ram_taken a \<subseteq> ram_taken (wk_ram st) \<and>
     slots_apart (wk_slots st) (ram_bytes (ram_taken (wk_ram st) - ram_taken a))"

definition walk_extends :: "'d ir_module \<Rightarrow> ('d instruction \<Rightarrow> bool) \<Rightarrow> 'd walk_state \<Rightarrow> 'd walk_state \<Rightarrow> bool" where
  "walk_extends m P st st' \<longleftrightarrow> (\<exists>new. wk_order st' = wk_order st @ new \<and> (\<forall>q \<in> set new. P q)) \<and>
     (\<exists>cs. wk_claims st' = wk_claims st @ cs)"

lemma walk_extends_refl [simp]: "walk_extends m P st st"
  by (simp add: walk_extends_def)

lemma walk_extends_trans:
  assumes "walk_extends m P st st1" "walk_extends m P st1 st2"
  shows "walk_extends m P st st2"
proof -
  obtain n1 n2 where "wk_order st1 = wk_order st @ n1" "\<forall>q \<in> set n1. P q"
      "wk_order st2 = wk_order st1 @ n2" "\<forall>q \<in> set n2. P q"
    using assms by (auto simp: walk_extends_def)
  then have "wk_order st2 = wk_order st @ (n1 @ n2) \<and> (\<forall>q \<in> set (n1 @ n2). P q)" by auto
  moreover obtain c1 c2 where "wk_claims st1 = wk_claims st @ c1" "wk_claims st2 = wk_claims st1 @ c2"
    using assms by (auto simp: walk_extends_def)
  then have "wk_claims st2 = wk_claims st @ (c1 @ c2)" by simp
  ultimately show ?thesis unfolding walk_extends_def by blast
qed

lemma walk_extends_mono:
  "walk_extends m P st st' \<Longrightarrow> (\<And>q. P q \<Longrightarrow> Q q) \<Longrightarrow> walk_extends m Q st st'"
  by (auto simp: walk_extends_def)

lemma walk_extends_order: "walk_extends m P st st' \<Longrightarrow> p \<in> set (wk_order st) \<Longrightarrow> p \<in> set (wk_order st')"
  by (auto simp: walk_extends_def)

lemma slots_apart_update:
  assumes "slots_apart slots R" "aligned4 a" "longword a \<inter> R = {}" "longword a \<subseteq> R'" "R \<subseteq> R'"
  shows "slots_apart (slots(v \<mapsto> a)) R'"
  using assms unfolding slots_apart_def by (auto split: if_splits) blast+

lemma walk_finish_inner:
  assumes "walk_finish hook prim False st = Inr st'" "walk_inv m a st" "is_node m prim"
    and "validate_call_primitive prim = ok" "operands_within m (wk_order st) prim" "ram_end a \<le> 2 ^ 32"
  shows "walk_inv m a st' \<and> wk_order st' = wk_order st @ [prim] \<and> (\<exists>cs. wk_claims st' = wk_claims st @ cs)"
proof -
  obtain c ram where c: "ram_alloc_claim (wk_ram st) 4 4 = (Inr c, ram)"
      "st' = st\<lparr>wk_ram := ram, wk_slots := (wk_slots st)(ins_id prim \<mapsto> ucast (rc_address c)),
        wk_claims := wk_claims st @ [c], wk_visited := insert (ins_id prim) (wk_visited st),
        wk_order := wk_order st @ [prim]\<rparr>"
    using assms(1) by (auto simp: walk_finish_def split: prod.splits sum.splits)
  have "ram_inv (wk_ram st)" "ram_end (wk_ram st) \<le> 2 ^ 32"
    using assms(2,6) by (simp_all add: walk_inv_def ram_end_def)
  note C = ram_claim_longword [OF c(1) this]
  have "slots_apart ((wk_slots st)(ins_id prim \<mapsto> ucast (rc_address c))) (ram_bytes (ram_taken ram - ram_taken a))"
  proof (rule slots_apart_update [OF _ C(1)])
    show "slots_apart (wk_slots st) (ram_bytes (ram_taken (wk_ram st) - ram_taken a))"
      using assms(2) by (simp add: walk_inv_def)
    have sub: "ram_taken a \<subseteq> ram_taken (wk_ram st)" using assms(2) by (simp add: walk_inv_def)
    show "longword (ucast (rc_address c)) \<inter> ram_bytes (ram_taken (wk_ram st) - ram_taken a) = {}"
      using C(3) by (auto simp: ram_bytes_def)
    show "longword (ucast (rc_address c)) \<subseteq> ram_bytes (ram_taken ram - ram_taken a)"
      using C(2,3) sub by (auto simp: ram_bytes_def)
    show "ram_bytes (ram_taken (wk_ram st) - ram_taken a) \<subseteq> ram_bytes (ram_taken ram - ram_taken a)"
      using C(4) by (auto simp: ram_bytes_def)
  qed
  with assms c(2) C(4-7) show ?thesis by (auto simp: walk_inv_def topological_snoc)
qed

lemma walk_operands_inv:
  assumes self: "\<And>q st st'. \<lbrakk>self q st = Some (Inr st'); walk_inv m a st; is_node m q\<rbrakk> \<Longrightarrow>
      walk_inv m a st' \<and> q \<in> set (wk_order st') \<and> walk_extends m (\<lambda>x. (q, x) \<in> (prim_edges m)\<^sup>*) st st'"
    and "walk_operands self m vs st = Some (Inr st')" "walk_inv m a st" "set vs \<subseteq> set (ins_operands p)"
  shows "walk_inv m a st' \<and> (\<forall>v \<in> set vs. \<exists>q. find_producer m v = Some q \<and>
      (ins_op q = CallPrimitive \<longrightarrow> q \<in> set (wk_order st'))) \<and>
    walk_extends m (\<lambda>x. (p, x) \<in> (prim_edges m)\<^sup>+) st st'"
  using assms(2-)
proof (induction vs arbitrary: st)
  case (Cons v vs)
  obtain q where q: "find_producer m v = Some q" using Cons.prems(1) by (auto split: option.splits)
  have vs: "set vs \<subseteq> set (ins_operands p)" using Cons.prems(3) by simp
  show ?case
  proof (cases "ins_op q = CallPrimitive")
    case True
    then obtain st1 where st1: "self q st = Some (Inr st1)" "walk_operands self m vs st1 = Some (Inr st')"
      using Cons.prems(1) q by (auto split: option.splits sum.splits)
    have "is_node m q" using q True find_producer_SomeD(2) [OF q] by (simp add: is_node_def)
    from self [OF st1(1) Cons.prems(2) this] have a: "walk_inv m a st1" "q \<in> set (wk_order st1)"
        "walk_extends m (\<lambda>x. (q, x) \<in> (prim_edges m)\<^sup>*) st st1" by blast+
    have e: "(p, q) \<in> prim_edges m" using q True Cons.prems(3) by (auto simp: prim_edges_def)
    have "walk_extends m (\<lambda>x. (p, x) \<in> (prim_edges m)\<^sup>+) st st1"
      using a(3) by (rule walk_extends_mono) (metis e rtrancl_into_trancl2)
    with Cons.IH [OF st1(2) a(1) vs] a(2) q walk_extends_order show ?thesis
      by (auto intro: walk_extends_trans)
  next
    case False
    with q Cons show ?thesis by auto
  qed
qed auto

lemma walk_inner:
  assumes "walk n m hook prim False st = Some (Inr st')" "walk_inv m a st" "is_node m prim" "ram_end a \<le> 2 ^ 32"
  shows "walk_inv m a st' \<and> prim \<in> set (wk_order st') \<and> walk_extends m (\<lambda>x. (prim, x) \<in> (prim_edges m)\<^sup>*) st st'"
  using assms(1-3)
proof (induction n arbitrary: prim st st')
  case (Suc n)
  show ?case
  proof (cases "ins_id prim \<in> wk_visited st")
    case True
    then obtain p where "p \<in> set (wk_order st)" "ins_id p = ins_id prim" "is_node m p"
      using Suc.prems(2) by (auto simp: walk_inv_def)
    then have "prim \<in> set (wk_order st)" using Suc.prems(3) by (auto simp: is_node_def)
    with True Suc.prems show ?thesis by simp
  next
    case False
    then obtain st1 where st1: "validate_call_primitive prim = ok"
        "walk_operands (\<lambda>p. walk n m hook p False) m (ins_operands prim) st = Some (Inr st1)"
        "walk_finish hook prim False st1 = Inr st'"
      using Suc.prems(1) by (auto split: sum.splits option.splits)
    have ops: "walk_inv m a st1" "operands_within m (wk_order st1) prim"
        "walk_extends m (\<lambda>x. (prim, x) \<in> (prim_edges m)\<^sup>+) st st1"
      using walk_operands_inv [OF _ st1(2) Suc.prems(2) subset_refl] Suc.IH
      by (simp_all add: operands_within_def)
    from walk_finish_inner [OF st1(3) ops(1) Suc.prems(3) st1(1) ops(2) assms(4)]
    have fin: "walk_inv m a st'" "wk_order st' = wk_order st1 @ [prim]" "\<exists>cs. wk_claims st' = wk_claims st1 @ cs"
      by blast+
    then have "walk_extends m (\<lambda>x. (prim, x) \<in> (prim_edges m)\<^sup>*) st1 st'" by (simp add: walk_extends_def)
    moreover have "walk_extends m (\<lambda>x. (prim, x) \<in> (prim_edges m)\<^sup>*) st st1"
      using ops(3) by (rule walk_extends_mono) (rule trancl_into_rtrancl)
    ultimately show ?thesis using fin by (auto intro: walk_extends_trans)
  qed
qed simp

text \<open>The walk from the root: an order that ends in the root and nowhere else contains it.\<close>

lemma walk_root:
  assumes "walk n m hook root True st0 = Some (Inr st')" "walk_inv m a st0" "wk_order st0 = []"
    and "is_node m root" "ram_end a \<le> 2 ^ 32"
  obtains st1 where "walk_inv m a st1" "wk_order st' = wk_order st1 @ [root]" "operands_within m (wk_order st1) root"
    "root \<notin> set (wk_order st1)" "validate_call_primitive root = ok" "wk_slots st' = wk_slots st1"
    "wk_ram st' = wk_ram st1" "\<exists>cs. wk_claims st' = wk_claims st0 @ cs"
proof -
  obtain k where k: "n = Suc k" using assms(1) by (cases n) auto
  then obtain st1 where st1: "validate_call_primitive root = ok"
      "walk_operands (\<lambda>p. walk k m hook p False) m (ins_operands root) st0 = Some (Inr st1)"
      "walk_finish hook root True st1 = Inr st'"
    using assms(1) by (auto split: sum.splits option.splits)
  have ops: "walk_inv m a st1" "operands_within m (wk_order st1) root"
      "walk_extends m (\<lambda>x. (root, x) \<in> (prim_edges m)\<^sup>+) st0 st1"
    using walk_operands_inv [OF walk_inner [OF _ _ _ assms(5)] st1(2) assms(2) subset_refl]
    by (simp_all add: operands_within_def)
  have "root \<notin> set (wk_order st1)"
  proof
    assume r: "root \<in> set (wk_order st1)"
    then have "(root, root) \<in> (prim_edges m)\<^sup>+" using ops(3) assms(3) by (auto simp: walk_extends_def)
    moreover have "topological m (wk_order st1)" using ops(1) by (simp add: walk_inv_def)
    ultimately show False using topological_acyclic r by blast
  qed
  with st1 ops show thesis
    by (intro that [of st1]) (auto simp: walk_finish_def walk_extends_def)
qed

end
