(* ===== verification/Codegen_Correct.thy ===== *)
theory Codegen_Correct
  imports Codegen_Walk
begin

text \<open>
  Correctness of the SH-2A backend: the reference semantics \<open>evaluates\<close> of the IR over a memory, and
  the theorem that a compiled hook, placed in memory and called, returns to its caller with the value
  of its first store in that store's RAM slot.
\<close>

section \<open>Reference semantics\<close>

inductive evaluates :: "'d doubles \<Rightarrow> pack_view \<Rightarrow> 'd ir_module \<Rightarrow> fpu \<Rightarrow> memory \<Rightarrow> value_id \<Rightarrow> u32 \<Rightarrow> bool"
  for dbl def m f mem
where
  ev_constant: "find_producer m v = Some p \<Longrightarrow> ins_op p = LoadConstant \<Longrightarrow>
    coerce_constant_to_u32 dbl p = Inr x \<Longrightarrow> evaluates dbl def m f mem v x"
| ev_input: "find_producer m v = Some p \<Longrightarrow> ins_op p = LoadHookInput \<Longrightarrow>
    resolve_hook_input_address def p = Inr a \<Longrightarrow> evaluates dbl def m f mem v (load32 mem a)"
| ev_primitive: "find_producer m v = Some p \<Longrightarrow> ins_op p = CallPrimitive \<Longrightarrow>
    list_all2 (evaluates dbl def m f mem) (ins_operands p) xs \<Longrightarrow>
    primitive_result f (ins_symbol p) xs = Some x \<Longrightarrow> evaluates dbl def m f mem v x"
monos list_all2_mono

lemma evaluates_unique:
  assumes "evaluates dbl def m f mem v x"
  shows "evaluates dbl def m f mem v y \<Longrightarrow> y = x"
  using assms
proof (induction arbitrary: y rule: evaluates.induct)
  case (ev_primitive v p xs x)
  from ev_primitive.prems ev_primitive.hyps(1,2) obtain ys where ys:
      "list_all2 (evaluates dbl def m f mem) (ins_operands p) ys" "primitive_result f (ins_symbol p) ys = Some y"
    by (cases rule: evaluates.cases) auto
  have "ys = xs"
  proof (rule nth_equalityI)
    show "length ys = length xs" using list_all2_lengthD [OF ys(1)] list_all2_lengthD [OF ev_primitive.IH] by simp
    fix i assume "i < length ys"
    then show "ys ! i = xs ! i"
      using ev_primitive.IH ys(1) by (auto simp: list_all2_conv_all_nth)
  qed
  with ys(2) ev_primitive.hyps(3) show ?case by simp
qed (auto elim: evaluates.cases)

section \<open>The memory after the primitives of an order\<close>

text \<open>The addresses of the hook inputs a module reads are longwords outside \<open>R\<close>.\<close>

definition inputs_clear :: "pack_view \<Rightarrow> 'd ir_module \<Rightarrow> u32 set \<Rightarrow> bool" where
  "inputs_clear def m R \<longleftrightarrow> (\<forall>p \<in> set m. \<forall>a. ins_op p = LoadHookInput \<longrightarrow>
     resolve_hook_input_address def p = Inr a \<longrightarrow> aligned4 a \<and> longword a \<inter> R = {})"

definition unchanged_outside :: "u32 set \<Rightarrow> memory \<Rightarrow> memory \<Rightarrow> bool" where
  "unchanged_outside R mem mem' \<longleftrightarrow> (\<forall>x. x \<notin> R \<longrightarrow> mem' x = mem x)"

lemma unchanged_load: "unchanged_outside R mem mem' \<Longrightarrow> longword a \<inter> R = {} \<Longrightarrow> load32 mem' a = load32 mem a"
  by (auto simp: unchanged_outside_def load32_def longword_def)

lemma unchanged_refl [simp]: "unchanged_outside R mem mem"
  by (simp add: unchanged_outside_def)

lemma unchanged_store:
  "unchanged_outside R mem mem' \<Longrightarrow> longword a \<subseteq> R \<Longrightarrow> unchanged_outside R mem (store32 mem' a v)"
  unfolding unchanged_outside_def by (metis store32_other subsetD)

lemma primitive_result_total:
  assumes "primitive_arity x = Some (length vs)"
  shows "\<exists>v. primitive_result f x vs = Some v"
proof -
  consider a where "vs = [a]" | a b where "vs = [a, b]" | a b c where "vs = [a, b, c]"
    using assms by (cases vs; cases "tl vs"; cases "tl (tl vs)"; cases "tl (tl (tl vs))")
       (auto simp: primitive_arity_def split: if_splits)
  then show ?thesis
    using assms by cases (auto simp: primitive_arity_def primitive_result_def split: if_splits)
qed

lemma operand_evaluates:
  assumes "operand_from_producer dbl def m v t slots = Inr op"
    and "unchanged_outside R mem mem'" "inputs_clear def m R"
    and "\<And>p. find_producer m v = Some p \<Longrightarrow> ins_op p = CallPrimitive \<Longrightarrow>
      evaluates dbl def m f mem v (load32 mem' (the (slots v)))"
  shows "evaluates dbl def m f mem v (operand_value mem' op)"
proof -
  obtain p where p: "find_producer m v = Some p"
    using assms(1) by (auto simp: operand_from_producer_def split: option.splits)
  note step = assms(1) [unfolded operand_from_producer_def p, simplified]
  show ?thesis
  proof (cases "ins_op p")
    case LoadConstant
    with step show ?thesis
      by (auto simp: operand_value_def split: if_splits sum.splits intro: ev_constant [OF p])
  next
    case LoadHookInput
    then obtain a where a: "resolve_hook_input_address def p = Inr a" "op = \<lparr>po_kind = HookInputPointer, po_value = a\<rparr>"
      using step by (auto split: if_splits sum.splits)
    have "longword a \<inter> R = {}"
      using assms(3) find_producer_SomeD(1) [OF p] LoadHookInput a(1) by (auto simp: inputs_clear_def)
    then have "operand_value mem' op = load32 mem a"
      using unchanged_load [OF assms(2)] a(2) by (simp add: operand_value_def)
    with ev_input [OF p LoadHookInput a(1)] show ?thesis by simp
  next
    case CallPrimitive
    with step assms(4) [OF p] show ?thesis
      by (auto simp: operand_value_def split: if_splits option.splits)
  next
    case StoreHookOutput
    with step show ?thesis by (auto split: if_splits)
  qed
qed

lemma operand_is_aligned:
  assumes "operand_from_producer dbl def m v t slots = Inr op" "inputs_clear def m R"
    and "\<And>a. slots v = Some a \<Longrightarrow> aligned4 a"
  shows "operand_aligned op"
proof -
  obtain p where p: "find_producer m v = Some p"
    using assms(1) by (auto simp: operand_from_producer_def split: option.splits)
  have "aligned4 a" if "ins_op p = LoadHookInput" "resolve_hook_input_address def p = Inr a" for a
    using assms(2) find_producer_SomeD(1) [OF p] that by (auto simp: inputs_clear_def)
  with assms(1,3) p show ?thesis
    by (auto simp: operand_from_producer_def operand_aligned_def split: if_splits ir_op.splits sum.splits option.splits)
qed

lemma validate_operands:
  assumes "validate_call_primitive p = ok" "primitive_shape (ins_symbol p) = Some sh"
  shows "length (ins_operands p) = ps_arity sh"
  using assms by (auto simp: validate_call_primitive_def split: if_splits)

text \<open>One primitive: if its operands hold their values in \<open>mem'\<close>, the stored value is its value.\<close>

lemma prim_evaluates:
  assumes "prim_operands dbl def m slots p ops" "is_node m p" "validate_call_primitive p = ok"
    and "unchanged_outside R mem mem'" "inputs_clear def m R"
    and "\<And>v q. v \<in> set (ins_operands p) \<Longrightarrow> find_producer m v = Some q \<Longrightarrow> ins_op q = CallPrimitive \<Longrightarrow>
      evaluates dbl def m f mem v (load32 mem' (the (slots v)))"
  shows "evaluates dbl def m f mem (ins_id p) (prim_value (ins_symbol p) ops f mem')"
proof -
  obtain sh where sh: "primitive_shape (ins_symbol p) = Some sh" "length ops = ps_arity sh"
      "\<And>i. i < ps_arity sh \<Longrightarrow> operand_from_producer dbl def m (ins_operands p ! i) (ps_operand_types sh ! i) slots =
           Inr (ops ! i)"
    using assms(1) by (auto simp: prim_operands_def)
  have len: "length (ins_operands p) = ps_arity sh" by (rule validate_operands [OF assms(3) sh(1)])
  have "list_all2 (evaluates dbl def m f mem) (ins_operands p) (map (operand_value mem') ops)"
    unfolding list_all2_conv_all_nth
  proof (intro conjI allI impI)
    fix i assume i: "i < length (ins_operands p)"
    have "evaluates dbl def m f mem (ins_operands p ! i) (operand_value mem' (ops ! i))"
      using operand_evaluates [OF sh(3) assms(4,5)] assms(6) [OF nth_mem [OF i]] i len by simp
    then show "evaluates dbl def m f mem (ins_operands p ! i) (map (operand_value mem') ops ! i)"
      using i len sh(2) by simp
  qed (simp add: len sh(2))
  moreover obtain v where "primitive_result f (ins_symbol p) (map (operand_value mem') ops) = Some v"
    using primitive_result_total [of "ins_symbol p" "map (operand_value mem') ops" f]
      primitive_shape_arity [OF sh(1)] sh(2) by auto
  ultimately show ?thesis
    using assms(2) by (auto simp: is_node_def prim_value_def intro: ev_primitive)
qed

lemma prim_operands_aligned:
  assumes "prim_operands dbl def m slots p ops" "inputs_clear def m R" "\<And>v a. slots v = Some a \<Longrightarrow> aligned4 a"
  shows "list_all operand_aligned ops"
proof -
  obtain sh :: primitive_shape where sh: "length ops = ps_arity sh"
      "\<forall>i < ps_arity sh. operand_from_producer dbl def m (ins_operands p ! i) (ps_operand_types sh ! i) slots =
         Inr (ops ! i)"
    using assms(1) unfolding prim_operands_def by blast
  have "operand_aligned (ops ! i)" if "i < ps_arity sh" for i
    using sh(2) [rule_format, OF that] assms(2) by (rule operand_is_aligned) (rule assms(3))
  with sh(1) show ?thesis by (simp add: list_all_length)
qed

lemma run_order_snoc:
  assumes "length ps = length opss"
  shows "run_order slots root dst (ps @ [p]) (opss @ [ops]) f mem =
    prim_update p ops (dest_of slots root dst p) f (run_order slots root dst ps opss f mem)"
  using assms by (induction ps opss arbitrary: mem rule: list_induct2) auto

lemma order_evaluates:
  assumes "list_all2 (prim_operands dbl def m slots) ps opss" "topological m ps"
    and "\<And>p. p \<in> set ps \<Longrightarrow> is_node m p \<and> validate_call_primitive p = ok \<and> ins_id p \<noteq> root \<and> ins_id p \<in> dom slots"
    and "slots_apart slots R" "inputs_clear def m R"
  shows "unchanged_outside R mem (run_order slots root dst ps opss f mem) \<and>
    (\<forall>p \<in> set ps. evaluates dbl def m f mem (ins_id p)
       (load32 (run_order slots root dst ps opss f mem) (the (slots (ins_id p)))))"
  using assms(1-3)
proof (induction ps arbitrary: opss rule: rev_induct)
  case (snoc p ps)
  from snoc.prems(1) obtain opss' ops where opss: "opss = opss' @ [ops]" "list_all2 (prim_operands dbl def m slots) ps opss'"
      "prim_operands dbl def m slots p ops"
    by (auto simp: list_all2_append1 list_all2_Cons1)
  let ?mem = "run_order slots root dst ps opss' f mem"
  have topo: "topological m ps" "operands_within m ps p" using snoc.prems(2) by (simp_all add: topological_snoc)
  have IH: "unchanged_outside R mem ?mem"
      "\<And>q. q \<in> set ps \<Longrightarrow> evaluates dbl def m f mem (ins_id q) (load32 ?mem (the (slots (ins_id q))))"
    using snoc.IH [OF opss(2) topo(1)] snoc.prems(3) by auto
  obtain a where a: "slots (ins_id p) = Some a" using snoc.prems(3) [of p] by auto
  have al: "aligned4 a" "longword a \<subseteq> R" using assms(4) a unfolding slots_apart_def by blast+
  let ?v = "prim_value (ins_symbol p) ops f ?mem"
  have run: "run_order slots root dst (ps @ [p]) opss f mem = store32 ?mem a ?v"
    using run_order_snoc [OF list_all2_lengthD [OF opss(2)]] opss(1) a snoc.prems(3) [of p]
    by (simp add: prim_update_def dest_of_def)
  have ev: "evaluates dbl def m f mem (ins_id p) ?v"
  proof (rule prim_evaluates [OF opss(3) _ _ IH(1) assms(5)])
    show "is_node m p" "validate_call_primitive p = ok" using snoc.prems(3) [of p] by simp_all
    fix v q assume v: "v \<in> set (ins_operands p)" "find_producer m v = Some q" "ins_op q = CallPrimitive"
    then have "q \<in> set ps" using topo(2) by (auto simp: operands_within_def)
    with IH(2) [of q] find_producer_SomeD(2) [OF v(2)]
    show "evaluates dbl def m f mem v (load32 ?mem (the (slots v)))" by simp
  qed
  have "evaluates dbl def m f mem (ins_id q) (load32 (store32 ?mem a ?v) (the (slots (ins_id q))))"
    if q: "q \<in> set (ps @ [p])" for q
  proof (cases "ins_id q = ins_id p")
    case True
    with ev a show ?thesis by (simp add: load32_store32_same)
  next
    case False
    then have ps: "q \<in> set ps" using q by auto
    obtain b where b: "slots (ins_id q) = Some b" using snoc.prems(3) [OF q] by auto
    then have "longword a \<inter> longword b = {}" using assms(4) a False unfolding slots_apart_def by metis
    with IH(2) [OF ps] b show ?thesis by (simp add: load32_store32_other)
  qed
  with unchanged_store [OF IH(1) al(2)] show ?case unfolding run by blast
qed auto


section \<open>The code of one store\<close>

definition free_longword :: "u32 set \<Rightarrow> u32 \<Rightarrow> bool" where
  "free_longword R a \<longleftrightarrow> aligned4 a \<and> longword a \<subseteq> R"

text \<open>
  \<open>c\<close> is code for the value \<open>v\<close> at \<open>dst\<close>: called in RAM \<open>R\<close> that neither holds the code nor a hook
  input, it returns with a value of \<open>v\<close> at \<open>dst\<close> and changes no memory outside \<open>T\<close>.
\<close>

definition store_correct ::
    "'d doubles \<Rightarrow> pack_view \<Rightarrow> 'd ir_module \<Rightarrow> value_id \<Rightarrow> bytes \<Rightarrow> u32 \<Rightarrow> u32 set \<Rightarrow> u32 set \<Rightarrow> bool" where
  "store_correct dbl def m v c dst T R \<longleftrightarrow>
     (\<forall>f s. runnable c (free_longword R) s \<longrightarrow> inputs_clear def m R \<longrightarrow>
       (\<exists>x s'. evaluates dbl def m f (sh_mem s) v x \<and> reaches f s s' \<and> sh_pc s' = sh_pr s \<and>
          load32 (sh_mem s') dst = x \<and> unchanged_outside T (sh_mem s) (sh_mem s') \<and> keeps s s'))"

lemma store_correctI:
  assumes "program_does c D E" "\<And>d. d \<in> D \<Longrightarrow> free_longword R d"
    and "\<And>f mem. inputs_clear def m R \<Longrightarrow> evaluates dbl def m f mem v (load32 (E f mem) dst) \<and>
      unchanged_outside T mem (E f mem)"
  shows "store_correct dbl def m v c dst T R"
  unfolding store_correct_def
proof (intro allI impI)
  fix f and s :: sh2a
  assume "runnable c (free_longword R) s" "inputs_clear def m R"
  moreover from this(1) obtain s' where "reaches f s s'" "sh_pc s' = sh_pr s" "sh_mem s' = E f (sh_mem s)" "keeps s s'"
    using assms(1,2) unfolding program_does_def by blast
  ultimately show "\<exists>x s'. evaluates dbl def m f (sh_mem s) v x \<and> reaches f s s' \<and> sh_pc s' = sh_pr s \<and>
      load32 (sh_mem s') dst = x \<and> unchanged_outside T (sh_mem s) (sh_mem s') \<and> keeps s s'"
    using assms(3) [of f "sh_mem s"] by metis
qed

lemma store_correct_trivial:
  assumes "\<not> inputs_clear def m R"
  shows "store_correct dbl def m v c dst T R"
  using assms by (simp add: store_correct_def)

lemma inputs_clear_subset: "inputs_clear def m R \<Longrightarrow> R' \<subseteq> R \<Longrightarrow> inputs_clear def m R'"
  unfolding inputs_clear_def by blast

text \<open>What emission adds to the work item of a hook.\<close>

definition work_grows :: "hook_work \<Rightarrow> bytes \<Rightarrow> hook_work \<Rightarrow> bool" where
  "work_grows w c w' \<longleftrightarrow> hw_hook w' = hw_hook w \<and> hw_code w' = hw_code w @ c \<and> c \<noteq> [] \<and>
     hw_pin_slots w' = hw_pin_slots w \<and> (\<exists>cs. hw_claims w' = hw_claims w @ cs) \<and>
     ram_inv (hw_ram w') \<and> ram_base (hw_ram w') = ram_base (hw_ram w) \<and>
     ram_length (hw_ram w') = ram_length (hw_ram w) \<and> ram_taken (hw_ram w) \<subseteq> ram_taken (hw_ram w')"

definition ram_room :: "ram_allocator \<Rightarrow> u32 set" where
  "ram_room a = {x. unat (ram_base a) \<le> unat x \<and> unat x < ram_end a}"

lemma taken_in_room: "ram_inv a \<Longrightarrow> ram_bytes (ram_taken a) \<subseteq> ram_room a"
  by (auto simp: ram_bytes_def ram_taken_def ram_room_def ram_inv_def ram_end_def)

lemma unchanged_mono: "unchanged_outside R mem mem' \<Longrightarrow> R \<subseteq> R' \<Longrightarrow> unchanged_outside R' mem mem'"
  by (auto simp: unchanged_outside_def)

lemma nested_correct:
  assumes "walk_inv m a st" "operands_within m (wk_order st) src" "src \<notin> set (wk_order st)"
    and "is_node m src" "validate_call_primitive src = ok"
    and "list_all2 (prim_operands dbl def m (wk_slots st)) (wk_order st @ [src]) opss"
    and "list_all (list_all operand_aligned) opss \<longrightarrow>
      program_does c (dest_of (wk_slots st) (ins_id src) dst ` set (wk_order st @ [src]))
        (run_order (wk_slots st) (ins_id src) dst (wk_order st @ [src]) opss)"
    and "ram_inv a" "aligned4 dst" "longword dst \<subseteq> ram_bytes (ram_taken a)"
  shows "store_correct dbl def m (ins_id src) c dst (ram_bytes (ram_taken (wk_ram st))) (ram_room a)"
proof (cases "inputs_clear def m (ram_room a)")
  case True
  let ?sl = "wk_slots st" and ?ps = "wk_order st" and ?R = "ram_room a"
  let ?new = "ram_bytes (ram_taken (wk_ram st) - ram_taken a)"
  have inv: "topological m ?ps" "slots_apart ?sl ?new" "dom ?sl = ins_id ` set ?ps" "ram_taken a \<subseteq> ram_taken (wk_ram st)"
      "\<And>p. p \<in> set ?ps \<Longrightarrow> is_node m p \<and> validate_call_primitive p = ok"
    using assms(1) by (auto simp: walk_inv_def)
  have "ram_room (wk_ram st) = ?R" using assms(1) by (simp add: walk_inv_def ram_room_def ram_end_def)
  moreover have "ram_inv (wk_ram st)" using assms(1) by (simp add: walk_inv_def)
  ultimately have room: "ram_bytes (ram_taken (wk_ram st)) \<subseteq> ?R" using taken_in_room by metis
  have new: "?new \<subseteq> ?R" "?new \<subseteq> ram_bytes (ram_taken (wk_ram st))" "ram_bytes (ram_taken a) \<subseteq> ram_bytes (ram_taken (wk_ram st))"
    using room inv(4) by (auto simp: ram_bytes_def)
  have slot: "aligned4 x \<and> longword x \<subseteq> ?new" if "?sl u = Some x" for u x
    using inv(2) that unfolding slots_apart_def by blast
  have other: "ins_id p \<noteq> ins_id src" "ins_id p \<in> dom ?sl" if "p \<in> set ?ps" for p
  proof -
    have "is_node m p" using inv(5) that by blast
    then show "ins_id p \<noteq> ins_id src" using assms(3,4) that unfolding is_node_def by (metis option.inject)
    show "ins_id p \<in> dom ?sl" using inv(3) that by simp
  qed
  obtain opss' ops where opss: "opss = opss' @ [ops]" "list_all2 (prim_operands dbl def m ?sl) ?ps opss'"
      "prim_operands dbl def m ?sl src ops"
    using assms(6) by (auto simp: list_all2_append1 list_all2_Cons1)
  have al: "list_all operand_aligned os" if "prim_operands dbl def m ?sl p os" for p os
    using prim_operands_aligned [OF that True] slot by blast
  have "list_all (list_all operand_aligned) opss"
    unfolding list_all_length [of _ opss]
  proof (intro allI impI)
    fix n assume "n < length opss"
    then have "prim_operands dbl def m ?sl ((?ps @ [src]) ! n) (opss ! n)"
      using assms(6) by (simp only: list_all2_conv_all_nth)
    then show "list_all operand_aligned (opss ! n)" by (rule al)
  qed
  with assms(7) have prog: "program_does c (dest_of ?sl (ins_id src) dst ` set (?ps @ [src]))
      (run_order ?sl (ins_id src) dst (?ps @ [src]) opss)" by blast
  show ?thesis
  proof (rule store_correctI [OF prog])
    fix d assume "d \<in> dest_of ?sl (ins_id src) dst ` set (?ps @ [src])"
    then consider "d = dst" | p where "p \<in> set ?ps" "d = the (?sl (ins_id p))"
      using other(1) by (auto simp: dest_of_def)
    then show "free_longword ?R d"
    proof cases
      case 1
      with assms(9,10) new room show ?thesis by (auto simp: free_longword_def)
    next
      case 2
      then obtain x where "?sl (ins_id p) = Some x" using other(2) by blast
      with 2(2) slot [OF this] new(1) show ?thesis by (auto simp: free_longword_def)
    qed
  next
    fix f mem
    let ?mem = "run_order ?sl (ins_id src) dst ?ps opss' f mem"
    have clear: "inputs_clear def m ?new" using True new(1) by (rule inputs_clear_subset)
    have before: "unchanged_outside ?new mem ?mem"
        "\<And>p. p \<in> set ?ps \<Longrightarrow> evaluates dbl def m f mem (ins_id p) (load32 ?mem (the (?sl (ins_id p))))"
      using order_evaluates [OF opss(2) inv(1) _ inv(2) clear, where root = "ins_id src" and dst = dst and f = f and mem = mem]
        inv(5) other by blast+
    have "evaluates dbl def m f mem (ins_id src) (prim_value (ins_symbol src) ops f ?mem)"
    proof (rule prim_evaluates [OF opss(3) assms(4,5) before(1) clear])
      fix u q assume q: "u \<in> set (ins_operands src)" "find_producer m u = Some q" "ins_op q = CallPrimitive"
      then have "q \<in> set ?ps" using assms(2) by (auto simp: operands_within_def)
      with before(2) [of q] find_producer_SomeD(2) [OF q(2)]
      show "evaluates dbl def m f mem u (load32 ?mem (the (?sl u)))" by simp
    qed
    moreover have "run_order ?sl (ins_id src) dst (?ps @ [src]) opss f mem =
        store32 ?mem dst (prim_value (ins_symbol src) ops f ?mem)"
      using run_order_snoc [OF list_all2_lengthD [OF opss(2)]] opss(1) by (simp add: prim_update_def dest_of_def)
    moreover have "longword dst \<subseteq> ram_bytes (ram_taken (wk_ram st))" using assms(10) new(3) by blast
    ultimately show "evaluates dbl def m f mem (ins_id src)
          (load32 (run_order ?sl (ins_id src) dst (?ps @ [src]) opss f mem) dst) \<and>
        unchanged_outside (ram_bytes (ram_taken (wk_ram st))) mem
          (run_order ?sl (ins_id src) dst (?ps @ [src]) opss f mem)"
      using unchanged_store [OF unchanged_mono [OF before(1) new(2)]] by (simp add: load32_store32_same)
  qed
qed (rule store_correct_trivial)

lemma const_store_segment:
  "segment empty_emitter
     (fe_emit (enc_mov_l_reg_at_reg 0 1) (fe_mov_l_disp_pc 1 dst (fe_mov_l_disp_pc 0 x empty_emitter)))
     True {dst} (\<lambda>f mem. store32 mem dst x)"
  (is "segment _ ?fe _ _ _")
proof -
  have "emits empty_emitter [SLit 0 x, SLit 1 dst, SInstr (enc_mov_l_reg_at_reg 0 1)] ?fe"
    using emits_trans [OF emits_steps(2) emits_trans [OF emits_steps(2) emits_steps(1)]] by simp
  then show ?thesis
    by (rule emits_segment [where val = "\<lambda>f mem. x"]) (simp_all add: computes_def set_defs keeps_def)
qed

lemma hook_store_segment:
  "segment empty_emitter
     (fe_emit (enc_mov_l_reg_at_reg 0 1) (fe_mov_l_disp_pc 1 dst
       (fe_emit (enc_mov_l_at_reg_reg 0 0) (fe_mov_l_disp_pc 0 a empty_emitter))))
     (aligned4 a) {dst} (\<lambda>f mem. store32 mem dst (load32 mem a))"
  (is "segment _ ?fe _ _ _")
proof -
  have "emits empty_emitter [SLit 0 a, SInstr (enc_mov_l_at_reg_reg 0 0), SLit 1 dst,
      SInstr (enc_mov_l_reg_at_reg 0 1)] ?fe"
    using emits_trans [OF emits_steps(2) emits_trans [OF emits_steps(1)
      emits_trans [OF emits_steps(2) emits_steps(1)]]] by simp
  then show ?thesis
    by (rule emits_segment [where val = "\<lambda>f mem. load32 mem a"]) (simp_all add: computes_def set_defs keeps_def)
qed

lemma store_source_correct:
  assumes "emit_store_source dbl def m src dst w = Some (Inr w')" "find_producer m v = Some src"
    and "ins_op src \<noteq> StoreHookOutput" "ram_inv (hw_ram w)" "ram_end (hw_ram w) \<le> 2 ^ 32"
    and "aligned4 dst" "longword dst \<subseteq> ram_bytes (ram_taken (hw_ram w))"
  shows "\<exists>c. work_grows w c w' \<and>
    store_correct dbl def m v c dst (ram_bytes (ram_taken (hw_ram w'))) (ram_room (hw_ram w))"
proof -
  let ?T = "ram_bytes (ram_taken (hw_ram w))" and ?R = "ram_room (hw_ram w)"
  have room: "?T \<subseteq> ?R" using assms(4) by (rule taken_in_room)
  have free: "free_longword ?R dst" using assms(6,7) room by (auto simp: free_longword_def)
  have grows: "work_grows w c (w\<lparr>hw_code := hw_code w @ c\<rparr>)" if "c \<noteq> []" for c
    using assms(4) that by (simp add: work_grows_def)
  have plain: "\<exists>c. work_grows w c w' \<and> store_correct dbl def m v c dst (ram_bytes (ram_taken (hw_ram w'))) ?R"
    if seg: "segment empty_emitter fe A {dst} (\<lambda>f mem. store32 mem dst (val f mem))"
      and fin: "append_finalized fe w = Some (Inr w')"
      and val: "\<And>f mem. inputs_clear def m ?R \<Longrightarrow> evaluates dbl def m f mem v (val f mem)"
      and A: "inputs_clear def m ?R \<Longrightarrow> A" for fe A val
  proof -
    obtain c where c: "finalize fe = Some c" "c \<noteq> []"
        "A \<longrightarrow> program_does c {dst} (\<lambda>f mem. store32 mem dst (val f mem))"
      using finalize_segment [OF seg] .
    have w': "w' = w\<lparr>hw_code := hw_code w @ c\<rparr>" using fin c(1) by (simp add: append_finalized_def)
    have "store_correct dbl def m v c dst ?T ?R"
    proof (cases "inputs_clear def m ?R")
      case True
      show ?thesis
      proof (rule store_correctI [OF c(3) [rule_format, OF A [OF True]]])
        show "free_longword ?R d" if "d \<in> {dst}" for d using that free by simp
        show "evaluates dbl def m f mem v (load32 (store32 mem dst (val f mem)) dst) \<and>
            unchanged_outside ?T mem (store32 mem dst (val f mem))" for f mem
          using val [OF True] unchanged_store [OF unchanged_refl assms(7)] by (simp add: load32_store32_same)
      qed
    qed (rule store_correct_trivial)
    with grows [OF c(2)] show ?thesis unfolding w' by (intro exI [of _ c]) simp
  qed
  show ?thesis
  proof (cases "ins_op src")
    case LoadConstant
    then obtain x where x: "coerce_constant_to_u32 dbl src = Inr x"
        "emit_load_const_store_sequence x dst w = Some (Inr w')"
      using assms(1) by (auto simp: emit_store_source_def split: sum.splits)
    note const_store_segment [of dst x]
    then show ?thesis using x ev_constant [OF assms(2) LoadConstant x(1)]
      by (intro plain) (auto simp: emit_load_const_store_sequence_def)
  next
    case LoadHookInput
    then obtain a where a: "resolve_hook_input_address def src = Inr a"
        "emit_load_hook_store_sequence a dst w = Some (Inr w')"
      using assms(1) by (auto simp: emit_store_source_def split: sum.splits)
    note hook_store_segment [of dst a]
    moreover have "inputs_clear def m ?R \<Longrightarrow> aligned4 a"
      using find_producer_SomeD(1) [OF assms(2)] LoadHookInput a(1) by (auto simp: inputs_clear_def)
    ultimately show ?thesis using a ev_input [OF assms(2) LoadHookInput a(1)]
      by (intro plain [where A = "aligned4 a" and val = "\<lambda>f mem. load32 mem a"])
        (auto simp: emit_load_hook_store_sequence_def)
  next
    case CallPrimitive
    have node: "is_node m src" "ins_id src = v"
      using assms(2) CallPrimitive find_producer_SomeD(2) [OF assms(2)] by (auto simp: is_node_def)
    have valid: "validate_call_primitive src = ok"
      using assms(1) CallPrimitive by (auto simp: emit_store_source_def split: sum.splits)
    show ?thesis
    proof (cases "list_ex (producer_is_primitive m) (ins_operands src)")
      case False
      then obtain fe where fe: "emit_prim dbl def m Map.empty src dst empty_emitter = Inr fe"
          "append_finalized fe w = Some (Inr w')"
        using assms(1) CallPrimitive valid
        by (auto simp: emit_store_source_def emit_single_call_primitive_def split: sum.splits)
      obtain ops where ops: "prim_operands dbl def m Map.empty src ops"
          "segment empty_emitter fe (list_all operand_aligned ops) {dst} (prim_update src ops dst)"
        using emit_prim_segment [OF fe(1)] .
      show ?thesis
      proof (rule plain [OF _ fe(2)])
        show "segment empty_emitter fe (list_all operand_aligned ops) {dst}
            (\<lambda>f mem. store32 mem dst (prim_value (ins_symbol src) ops f mem))"
          using ops(2) by (simp add: prim_update_def [abs_def])
        show "evaluates dbl def m f mem v (prim_value (ins_symbol src) ops f mem)" if "inputs_clear def m ?R" for f mem
        proof -
          have "ins_op q \<noteq> CallPrimitive" if "u \<in> set (ins_operands src)" "find_producer m u = Some q" for u q
            using False that by (auto simp: list_ex_iff producer_is_primitive_def)
          with prim_evaluates [OF ops(1) node(1) valid unchanged_refl that] node(2) show ?thesis by blast
        qed
        show "list_all operand_aligned ops" if "inputs_clear def m ?R"
          using prim_operands_aligned [OF ops(1) that] by simp
      qed
    next
      case True
      let ?st0 = "\<lparr>wk_slots = Map.empty, wk_visited = {}, wk_order = [], wk_ram = hw_ram w, wk_claims = hw_claims w\<rparr>"
      obtain st fe where st: "walk (Suc (length m)) m (hw_hook w) src True ?st0 = Some (Inr st)"
          "emit_order dbl def m (wk_slots st) (ins_id src) dst (wk_order st) empty_emitter = Inr fe"
          "append_finalized fe (w\<lparr>hw_ram := wk_ram st, hw_claims := wk_claims st\<rparr>) = Some (Inr w')"
        using assms(1) CallPrimitive valid True
        by (auto simp: emit_store_source_def emit_nested_call_primitive_def simp del: walk.simps
            split: option.splits sum.splits)
      have inv0: "walk_inv m (hw_ram w) ?st0"
        using assms(4) by (simp add: walk_inv_def slots_apart_def)
      obtain st1 where st1: "walk_inv m (hw_ram w) st1" "wk_order st = wk_order st1 @ [src]"
          "operands_within m (wk_order st1) src" "src \<notin> set (wk_order st1)"
          "wk_slots st = wk_slots st1" "wk_ram st = wk_ram st1" "\<exists>cs. wk_claims st = hw_claims w @ cs"
        by (rule walk_root [OF st(1) inv0 _ node(1) assms(5)]) (simp, rule that, simp_all)
      let ?sl = "wk_slots st1" and ?ps = "wk_order st1"
      obtain opss where opss: "list_all2 (prim_operands dbl def m ?sl) (?ps @ [src]) opss"
          "segment empty_emitter fe (list_all (list_all operand_aligned) opss) (dest_of ?sl v dst ` set (?ps @ [src]))
             (run_order ?sl v dst (?ps @ [src]) opss)"
        using emit_order_segment [OF st(2)] st1(2,5) node(2) by metis
      obtain c where c: "finalize fe = Some c" "c \<noteq> []" "list_all (list_all operand_aligned) opss \<longrightarrow>
          program_does c (dest_of ?sl v dst ` set (?ps @ [src])) (run_order ?sl v dst (?ps @ [src]) opss)"
        using finalize_segment [OF opss(2)] .
      have w': "w' = w\<lparr>hw_ram := wk_ram st1, hw_claims := wk_claims st, hw_code := hw_code w @ c\<rparr>"
        using st(3) c(1) st1(6) by (simp add: append_finalized_def)
      have "work_grows w c w'"
        using st1(1,7) c(2) by (simp add: w' work_grows_def walk_inv_def)
      moreover have "store_correct dbl def m v c dst (ram_bytes (ram_taken (wk_ram st1))) ?R"
        using nested_correct [OF st1(1,3,4) node(1) valid opss(1)] c(3) assms(4,6,7) node(2) by simp
      ultimately show ?thesis by (intro exI [of _ c]) (simp add: w')
    qed
  qed (use assms(3) in simp)
qed

end
