(* ===== verification/Codegen_Compile.thy ===== *)
theory Codegen_Compile
  imports Codegen_Correct
begin

text \<open>
  \<open>Sh2aBackend::compile\<close> as a whole: the invariant of its loop over the stores, what a compiled hook
  does when it is called, termination, and the address gate.
\<close>

section \<open>The invariant of the loop\<close>

definition is_store_of :: "string \<Rightarrow> 'd instruction \<Rightarrow> bool" where
  "is_store_of h ins \<longleftrightarrow> ins_op ins = StoreHookOutput \<and> ins_symbol ins = h"

definition first_store :: "'d ir_module \<Rightarrow> string \<Rightarrow> 'd instruction option" where
  "first_store m h = find (is_store_of h) m"

definition ram_in_range :: "pack_view \<Rightarrow> bool" where
  "ram_in_range def \<longleftrightarrow> (\<forall>h \<in> set (pv_hooks def). \<forall>b n. hk_free_ram_base h = Some b \<longrightarrow>
     hk_free_ram_length h = Some n \<longrightarrow> unat b + unat n \<le> 2 ^ 32)"

definition hook_ram :: "hook \<Rightarrow> ram_allocator" where
  "hook_ram hook = ram_allocator (the (hk_free_ram_base hook)) (the (hk_free_ram_length hook))"

definition free_ram :: "hook \<Rightarrow> u32 set" where
  "free_ram hook = ram_room (hook_ram hook)"

definition work_base :: "hook \<Rightarrow> hook_work \<Rightarrow> bool" where
  "work_base hook w \<longleftrightarrow> hw_hook w = hook \<and> ram_inv (hw_ram w) \<and>
     ram_base (hw_ram w) = ram_base (hook_ram hook) \<and> ram_length (hw_ram w) = ram_length (hook_ram hook) \<and>
     (\<forall>pin a. hw_pin_slots w pin = Some a \<longrightarrow> aligned4 a \<and> longword a \<subseteq> ram_bytes (ram_taken (hw_ram w)) \<and>
        (\<exists>c \<in> set (hw_claims w). a = ucast (rc_address c))) \<and>
     (\<forall>p q a b. hw_pin_slots w p = Some a \<longrightarrow> hw_pin_slots w q = Some b \<longrightarrow> p \<noteq> q \<longrightarrow> longword a \<inter> longword b = {})"

text \<open>The code of the hook starts with the code of its first store, whose footprint is \<open>T\<close>.\<close>

definition work_first ::
    "'d doubles \<Rightarrow> pack_view \<Rightarrow> 'd ir_module \<Rightarrow> 'd instruction \<Rightarrow> hook \<Rightarrow> hook_work \<Rightarrow> bool" where
  "work_first dbl def m ins hook w \<longleftrightarrow>
     (\<exists>c rest T dst. hw_code w = c @ rest \<and> c \<noteq> [] \<and> hw_pin_slots w (ins_pin ins) = Some dst \<and>
        store_correct dbl def m (ins_operands ins ! 0) c dst T (free_ram hook) \<and>
        T \<subseteq> ram_bytes (ram_taken (hw_ram w)) \<and>
        (\<forall>pin a. hw_pin_slots w pin = Some a \<longrightarrow> pin \<noteq> ins_pin ins \<longrightarrow> longword a \<inter> T = {}))"

definition work_ok :: "'d doubles \<Rightarrow> pack_view \<Rightarrow> 'd ir_module \<Rightarrow> 'd instruction list \<Rightarrow> string \<Rightarrow> hook_work \<Rightarrow> bool" where
  "work_ok dbl def m ds h w \<longleftrightarrow>
     (\<exists>hook ins. find_hook def h = Some hook \<and> first_store ds h = Some ins \<and> length (ins_operands ins) = 1 \<and>
        work_base hook w \<and> work_first dbl def m ins hook w) \<and>
     (\<forall>ins \<in> set ds. is_store_of h ins \<longrightarrow> hw_pin_slots w (ins_pin ins) \<noteq> None)"

definition state_ok :: "'d doubles \<Rightarrow> pack_view \<Rightarrow> 'd ir_module \<Rightarrow> 'd instruction list \<Rightarrow> compile_state \<Rightarrow> bool" where
  "state_ok dbl def m ds st \<longleftrightarrow> set (cs_ordered st) = dom (cs_works st) \<and> distinct (cs_ordered st) \<and>
     (\<forall>h w. cs_works st h = Some w \<longrightarrow> work_ok dbl def m ds h w) \<and>
     (\<forall>h. cs_works st h = None \<longrightarrow> first_store ds h = None)"

lemma free_ram_room: "work_base hook w \<Longrightarrow> ram_room (hw_ram w) = free_ram hook"
  by (simp add: work_base_def free_ram_def ram_room_def ram_end_def)

lemma start_work_base: "work_base hook (start_work hook)"
  by (simp add: work_base_def start_work_def hook_ram_def)

lemma pin_slot_ok:
  assumes "pin_slot pin w = Inr (dst, w')" "work_base hook w" "ram_end (hook_ram hook) \<le> 2 ^ 32"
  shows "work_base hook w'" "hw_pin_slots w' pin = Some dst" "hw_code w' = hw_code w"
    "\<And>p. p \<noteq> pin \<Longrightarrow> hw_pin_slots w' p = hw_pin_slots w p"
    "ram_taken (hw_ram w) \<subseteq> ram_taken (hw_ram w')"
    "hw_pin_slots w pin = None \<and> longword dst \<inter> ram_bytes (ram_taken (hw_ram w)) = {} \<or> hw_pin_slots w pin = Some dst"
proof -
  have "work_base hook w' \<and> hw_pin_slots w' pin = Some dst \<and> hw_code w' = hw_code w \<and>
      (\<forall>p. p \<noteq> pin \<longrightarrow> hw_pin_slots w' p = hw_pin_slots w p) \<and> ram_taken (hw_ram w) \<subseteq> ram_taken (hw_ram w') \<and>
      (hw_pin_slots w pin = None \<and> longword dst \<inter> ram_bytes (ram_taken (hw_ram w)) = {} \<or>
       hw_pin_slots w pin = Some dst)"
  proof (cases "hw_pin_slots w pin")
    case (Some a)
    with assms show ?thesis by (simp add: pin_slot_def)
  next
    case None
    then obtain c ram where c: "ram_alloc_claim (hw_ram w) 4 4 = (Inr c, ram)" "dst = ucast (rc_address c)"
        "w' = w\<lparr>hw_ram := ram, hw_claims := hw_claims w @ [c],
           hw_pin_slots := (hw_pin_slots w)(pin \<mapsto> ucast (rc_address c))\<rparr>"
      using assms(1) by (auto simp: pin_slot_def split: prod.splits sum.splits)
    have base: "ram_inv (hw_ram w)" "ram_end (hw_ram w) \<le> 2 ^ 32"
      using assms(2,3) by (simp_all add: work_base_def ram_end_def)
    note C = ram_claim_longword [OF c(1) base, folded c(2)]
    have old: "aligned4 a \<and> longword a \<subseteq> ram_bytes (ram_taken (hw_ram w)) \<and>
        (\<exists>c \<in> set (hw_claims w). a = ucast (rc_address c))" if "hw_pin_slots w p = Some a" for p a
      using assms(2) that by (simp add: work_base_def)
    have apart: "longword a \<inter> longword dst = {}" if "hw_pin_slots w p = Some a" for p a
      using old [OF that] C(3) by blast
    have "ram_bytes (ram_taken (hw_ram w)) \<subseteq> ram_bytes (ram_taken ram)"
      using C(4) by (auto simp: ram_bytes_def)
    then have "work_base hook w'"
      using assms(2) C old apart unfolding work_base_def c(3) c(2) [symmetric]
      by (auto split: if_splits) (use c(2) in blast)+
    with None C(3,4) c(3) show ?thesis by (simp add: c(2))
  qed
  then show "work_base hook w'" "hw_pin_slots w' pin = Some dst" "hw_code w' = hw_code w"
    "\<And>p. p \<noteq> pin \<Longrightarrow> hw_pin_slots w' p = hw_pin_slots w p"
    "ram_taken (hw_ram w) \<subseteq> ram_taken (hw_ram w')"
    "hw_pin_slots w pin = None \<and> longword dst \<inter> ram_bytes (ram_taken (hw_ram w)) = {} \<or> hw_pin_slots w pin = Some dst"
    by blast+
qed

lemma work_grows_base:
  assumes "work_grows w c w'" "work_base hook w"
  shows "work_base hook w'"
proof -
  have "ram_bytes (ram_taken (hw_ram w)) \<subseteq> ram_bytes (ram_taken (hw_ram w'))"
    using assms(1) by (auto simp: work_grows_def ram_bytes_def)
  with assms show ?thesis unfolding work_base_def work_grows_def by fastforce
qed

lemma work_first_later:
  assumes "work_first dbl def m ins hook w" "work_base hook w" "ram_end (hook_ram hook) \<le> 2 ^ 32"
    and "pin_slot pin w = Inr (dst, w1)" "work_grows w1 c w'"
  shows "work_first dbl def m ins hook w'"
proof -
  note P = pin_slot_ok [OF assms(4,2,3)]
  obtain c0 rest T d0 where first: "hw_code w = c0 @ rest" "hw_pin_slots w (ins_pin ins) = Some d0"  "c0 \<noteq> []"
      "store_correct dbl def m (ins_operands ins ! 0) c0 d0 T (free_ram hook)" "T \<subseteq> ram_bytes (ram_taken (hw_ram w))"
      "\<And>p a. hw_pin_slots w p = Some a \<Longrightarrow> p \<noteq> ins_pin ins \<Longrightarrow> longword a \<inter> T = {}"
    using assms(1) by (auto simp: work_first_def)
  have slots: "hw_pin_slots w' = hw_pin_slots w1" using assms(5) by (simp add: work_grows_def)
  have "hw_code w' = c0 @ (rest @ c)" using assms(5) first(1) P(3) by (simp add: work_grows_def)
  moreover have "hw_pin_slots w' (ins_pin ins) = Some d0"
    using slots P(2,4,6) first(2) by (cases "ins_pin ins = pin") auto
  moreover have "T \<subseteq> ram_bytes (ram_taken (hw_ram w'))"
    using first(5) P(5) assms(5) by (auto simp: work_grows_def ram_bytes_def)
  moreover have "longword a \<inter> T = {}" if "hw_pin_slots w' p = Some a" "p \<noteq> ins_pin ins" for p a
  proof (cases "hw_pin_slots w p = Some a")
    case True
    with first(6) that(2) show ?thesis by blast
  next
    case False
    then have "p = pin" using that(1) slots P(4) by metis
    then have "a = dst" using that(1) slots P(2) by simp
    moreover have "hw_pin_slots w pin = None" using False \<open>p = pin\<close> \<open>a = dst\<close> P(6) by blast
    ultimately have "longword a \<inter> ram_bytes (ram_taken (hw_ram w)) = {}" using P(6) by simp
    with first(5) show ?thesis by blast
  qed
  ultimately show ?thesis using first(3,4) unfolding work_first_def by blast
qed

section \<open>One store\<close>

lemma check_store_InrD:
  assumes "check_store def m ins = Inr (src, hook)"
  shows "length (ins_operands ins) = 1" "find_producer m (ins_operands ins ! 0) = Some src"
    "ins_op src \<noteq> StoreHookOutput" "find_hook def (ins_symbol ins) = Some hook" "hk_ecu_address hook \<noteq> None"
    "hk_free_ram_base hook \<noteq> None" "hk_free_ram_length hook \<noteq> None"
  using assms unfolding check_store_def by (auto split: if_splits option.splits)

lemma hook_in_range:
  assumes "ram_in_range def" "find_hook def h = Some hook" "hk_free_ram_base hook \<noteq> None" "hk_free_ram_length hook \<noteq> None"
  shows "ram_end (hook_ram hook) \<le> 2 ^ 32"
proof -
  have "hook \<in> set (pv_hooks def)" using assms(2) by (auto simp: find_hook_def find_Some_iff)
  with assms(1,3,4) show ?thesis
    by (auto simp: ram_in_range_def hook_ram_def ram_end_def ram_allocator_def)
qed

lemma first_store_append:
  "first_store (ds @ [ins]) h =
     (case first_store ds h of Some i \<Rightarrow> Some i | None \<Rightarrow> if is_store_of h ins then Some ins else None)"
  unfolding first_store_def by (induction ds) auto

lemma map_sum_Inr_iff: "map_sum id g z = Inr y \<longleftrightarrow> (\<exists>x. z = Inr x \<and> y = g x)"
  by (cases z) auto

lemma compile_store_step:
  assumes "compile_store dbl def m ins st = Some (Inr st')" "state_ok dbl def m ds st" "ram_in_range def"
    and "ins_op ins = StoreHookOutput"
  shows "state_ok dbl def m (ds @ [ins]) st'"
proof -
  obtain src hook where chk: "check_store def m ins = Inr (src, hook)"
    using assms(1) by (auto simp: compile_store_def split: sum.splits)
  note C = check_store_InrD [OF chk]
  let ?h = "ins_symbol ins"
  have hid: "hk_id hook = ?h" using find_hook_id [OF C(4)] .
  define w where "w = (case cs_works st ?h of None \<Rightarrow> start_work hook | Some w \<Rightarrow> w)"
  define ord where "ord = (if cs_works st ?h = None then cs_ordered st @ [?h] else cs_ordered st)"
  obtain dst w1 w' where w1: "pin_slot (ins_pin ins) w = Inr (dst, w1)"
      "emit_store_source dbl def m src dst w1 = Some (Inr w')"
      "st' = \<lparr>cs_works = (cs_works st)(?h \<mapsto> w'), cs_ordered = ord\<rparr>"
    using assms(1) chk by (auto simp: compile_store_def Let_def hid w_def ord_def map_sum_Inr_iff split: sum.splits)
  have range: "ram_end (hook_ram hook) \<le> 2 ^ 32" using hook_in_range [OF assms(3) C(4,6,7)] .
  have known: "work_ok dbl def m ds h x" if "cs_works st h = Some x" for h x
    using assms(2) that by (simp add: state_ok_def)
  have fresh: "first_store ds h = None" if "cs_works st h = None" for h
    using assms(2) that by (simp add: state_ok_def)
  have base: "work_base hook w"
  proof (cases "cs_works st ?h")
    case None
    then show ?thesis by (simp add: w_def start_work_base)
  next
    case (Some x)
    with known [OF Some] C(4) show ?thesis by (auto simp: w_def work_ok_def)
  qed
  note P = pin_slot_ok [OF w1(1) base range]
  have dst: "aligned4 dst" "longword dst \<subseteq> ram_bytes (ram_taken (hw_ram w1))"
      "ram_inv (hw_ram w1)" "ram_end (hw_ram w1) \<le> 2 ^ 32"
    using P(1,2) range by (auto simp: work_base_def ram_end_def)
  obtain c where c: "work_grows w1 c w'" "store_correct dbl def m (ins_operands ins ! 0) c dst
      (ram_bytes (ram_taken (hw_ram w'))) (free_ram hook)"
    using store_source_correct [OF w1(2) C(2,3) dst(3,4,1,2)] free_ram_room [OF P(1)] by auto
  have slots: "hw_pin_slots w' = hw_pin_slots w1" using c(1) by (simp add: work_grows_def)
  have base': "work_base hook w'" using work_grows_base [OF c(1) P(1)] .
  have ok: "work_ok dbl def m (ds @ [ins]) ?h w'"
  proof (cases "cs_works st ?h")
    case None
    then have w: "w = start_work hook" by (simp add: w_def)
    have fs: "first_store (ds @ [ins]) ?h = Some ins"
      using fresh [OF None] assms(4) by (simp add: first_store_append is_store_of_def)
    have "hw_pin_slots w p = None" for p by (simp add: w start_work_def)
    then have only: "hw_pin_slots w' p \<noteq> Some a" if "p \<noteq> ins_pin ins" for p a
      using slots P(4) [OF that] by simp
    have "hw_code w' = c @ []" using c(1) P(3) by (simp add: work_grows_def w start_work_def)
    moreover have "hw_pin_slots w' (ins_pin ins) = Some dst" using slots P(2) by simp
    ultimately have "work_first dbl def m ins hook w'"
      unfolding work_first_def using c(2) only c(1) unfolding work_grows_def by blast
    moreover have "\<not> is_store_of ?h i" if "i \<in> set ds" for i
      using fresh [OF None] that by (auto simp: first_store_def find_None_iff)
    ultimately show ?thesis using C(1,4) fs base' slots P(2) by (auto simp: work_ok_def)
  next
    case (Some x)
    then have w: "x = w" by (simp add: w_def)
    obtain i where i: "first_store ds ?h = Some i" "length (ins_operands i) = 1" "work_first dbl def m i hook w"
        "\<And>j. j \<in> set ds \<Longrightarrow> is_store_of ?h j \<Longrightarrow> hw_pin_slots w (ins_pin j) \<noteq> None"
      using known [OF Some] C(4) w by (auto simp: work_ok_def)
    have "hw_pin_slots w' (ins_pin j) \<noteq> None" if "j \<in> set (ds @ [ins])" "is_store_of ?h j" for j
      using that i(4) [of j] slots P(2,4) by (cases "ins_pin j = ins_pin ins") auto
    moreover have "first_store (ds @ [ins]) ?h = Some i" using i(1) by (simp add: first_store_append)
    ultimately show ?thesis
      using work_first_later [OF i(3) base range w1(1) c(1)] i(2) C(4) base' by (auto simp: work_ok_def)
  qed
  have other: "work_ok dbl def m (ds @ [ins]) h x" if "cs_works st h = Some x" "h \<noteq> ?h" for h x
    using known [OF that(1)] that(2) by (auto simp: work_ok_def first_store_append is_store_of_def)
  show ?thesis unfolding state_ok_def
  proof (intro conjI allI impI)
    show "set (cs_ordered st') = dom (cs_works st')" "distinct (cs_ordered st')"
      using assms(2) by (auto simp: w1(3) ord_def state_ok_def)
    show "work_ok dbl def m (ds @ [ins]) h x" if "cs_works st' h = Some x" for h x
      using that ok other by (auto simp: w1(3) split: if_splits)
    show "first_store (ds @ [ins]) h = None" if "cs_works st' h = None" for h
      using that fresh [of h] by (auto simp: w1(3) first_store_append is_store_of_def split: if_splits)
  qed
qed

lemma compile_stores_ok:
  assumes "compile_stores dbl def m rest st = Some (Inr st')" "state_ok dbl def m ds st" "ram_in_range def"
  shows "state_ok dbl def m (ds @ rest) st'"
  using assms(1,2)
proof (induction rest arbitrary: ds st)
  case (Cons ins rest)
  have "state_ok dbl def m (ds @ [ins]) st1 \<Longrightarrow> compile_stores dbl def m rest st1 = Some (Inr st') \<Longrightarrow> ?case" for st1
    using Cons.IH [of st1 "ds @ [ins]"] by simp
  moreover have "state_ok dbl def m (ds @ [ins]) st" if "ins_op ins \<noteq> StoreHookOutput"
  proof -
    have none: "\<not> is_store_of h ins" for h using that by (simp add: is_store_of_def)
    then have fs: "first_store (ds @ [ins]) h = first_store ds h" for h
      by (simp add: first_store_append split: option.split)
    have "work_ok dbl def m (ds @ [ins]) h w = work_ok dbl def m ds h w" for h w
      unfolding work_ok_def fs using none by auto
    then show ?thesis using Cons.prems(2) by (simp add: state_ok_def fs)
  qed
  ultimately show ?case
    using Cons.prems compile_store_step [OF _ Cons.prems(2) assms(3)]
    by (auto split: if_splits option.splits sum.splits)
qed simp

section \<open>What a compiled hook does\<close>

text \<open>The slot table of a hook at the end of the compilation (\<open>work.pin_slots\<close>).\<close>

definition pin_slot_of :: "'d doubles \<Rightarrow> 'd ir_module \<Rightarrow> pack_view \<Rightarrow> string \<Rightarrow> string \<Rightarrow> u32 option" where
  "pin_slot_of dbl m def h pin =
     (case compile_stores dbl def m m \<lparr>cs_works = Map.empty, cs_ordered = []\<rparr> of
        Some (Inr st) \<Rightarrow> (case cs_works st h of Some w \<Rightarrow> hw_pin_slots w pin | None \<Rightarrow> None)
      | _ \<Rightarrow> None)"

definition claim_addresses :: "hook_patch \<Rightarrow> u32 set" where
  "claim_addresses hp = (\<lambda>c. ucast (rc_address c)) ` set (hp_ram_claims hp)"

text \<open>
  The machine is about to call the code of the hook: \<open>PC\<close> is at its first byte, on a multiple of
  four; the code fits the reach of an 8-bit literal displacement; the hook's free RAM holds neither
  code nor a hook input that the module reads.
\<close>

definition hook_ready :: "pack_view \<Rightarrow> 'd ir_module \<Rightarrow> hook \<Rightarrow> bytes \<Rightarrow> sh2a \<Rightarrow> bool" where
  "hook_ready def m hook code s \<longleftrightarrow>
     aligned4 (sh_pc s) \<and> loaded (sh_mem s) (sh_pc s) code \<and> length code < 1032 \<and>
     (\<forall>i < length code. sh_pc s + of_nat i \<notin> free_ram hook) \<and> inputs_clear def m (free_ram hook)"

lemma hook_ready_runnable:
  assumes "hook_ready def m hook (c @ rest) s"
  shows "runnable c (free_longword (free_ram hook)) s"
proof -
  have "clear_of a (sh_pc s) (length c)" if "longword a \<subseteq> free_ram hook" for a
    using assms that unfolding clear_of_def longword_def [symmetric] hook_ready_def by auto
  with assms show ?thesis by (auto simp: runnable_def hook_ready_def free_longword_def loaded_append)
qed

lemma compiled_work:
  assumes "compile dbl m def = Some (Inr obj)" "ram_in_range def" "hp \<in> set (po_hooks obj)"
  obtains w where "work_ok dbl def m m (hp_symbol hp) w" "hp = hook_patch_of w"
    "pin_slot_of dbl m def (hp_symbol hp) = hw_pin_slots w"
proof -
  obtain st where st: "compile_stores dbl def m m \<lparr>cs_works = Map.empty, cs_ordered = []\<rparr> = Some (Inr st)"
      "po_hooks obj = map (\<lambda>h. hook_patch_of (the (cs_works st h))) (cs_ordered st)"
    using assms(1) by (auto simp: compile_def Let_def split: option.splits sum.splits)
  have "state_ok dbl def m [] \<lparr>cs_works = Map.empty, cs_ordered = []\<rparr>"
    by (simp add: state_ok_def first_store_def)
  from compile_stores_ok [OF st(1) this assms(2)] have ok: "state_ok dbl def m m st" by simp
  obtain h where h: "h \<in> set (cs_ordered st)" "hp = hook_patch_of (the (cs_works st h))"
    using assms(3) st(2) by auto
  then obtain w where w: "cs_works st h = Some w" using ok by (auto simp: state_ok_def)
  then have wk: "work_ok dbl def m m h w" using ok by (simp add: state_ok_def)
  then have "hk_id (hw_hook w) = h" by (auto simp: work_ok_def work_base_def dest: find_hook_id)
  then have "hp_symbol hp = h" using h(2) w by (simp add: hook_patch_of_def)
  with wk h(2) w st(1) show thesis by (intro that [of w]) (simp_all add: pin_slot_of_def [abs_def])
qed

definition hook_spec ::
    "'d doubles \<Rightarrow> 'd ir_module \<Rightarrow> pack_view \<Rightarrow> hook_patch \<Rightarrow> hook \<Rightarrow> 'd instruction \<Rightarrow> u32 \<Rightarrow> u32 set \<Rightarrow> bool" where
  "hook_spec dbl m def hp hook ins slot T \<longleftrightarrow> find_hook def (hp_symbol hp) = Some hook \<and>
    hp_splice_address hp = the (hk_ecu_address hook) \<and> first_store m (hp_symbol hp) = Some ins \<and>
    pin_slot_of dbl m def (hp_symbol hp) (ins_pin ins) = Some slot \<and> T \<subseteq> free_ram hook \<and> hp_code hp \<noteq> [] \<and>
    (\<forall>pin a. pin_slot_of dbl m def (hp_symbol hp) pin = Some a \<longrightarrow>
       a \<in> claim_addresses hp \<and> longword a \<subseteq> free_ram hook \<and> (pin \<noteq> ins_pin ins \<longrightarrow> longword a \<inter> T = {})) \<and>
    (\<forall>i \<in> set m. is_store_of (hp_symbol hp) i \<longrightarrow> pin_slot_of dbl m def (hp_symbol hp) (ins_pin i) \<noteq> None) \<and>
    (\<forall>f s. hook_ready def m hook (hp_code hp) s \<longrightarrow>
       (\<exists>x s'. evaluates dbl def m f (sh_mem s) (ins_operands ins ! 0) x \<and> reaches f s s' \<and> sh_pc s' = sh_pr s \<and>
         load32 (sh_mem s') slot = x \<and> unchanged_outside T (sh_mem s) (sh_mem s') \<and> keeps s s'))"

lemma compiled_hook:
  assumes "compile dbl m def = Some (Inr obj)" "ram_in_range def" "hp \<in> set (po_hooks obj)"
  obtains hook ins slot T where "hook_spec dbl m def hp hook ins slot T"
proof -
  obtain w where w: "work_ok dbl def m m (hp_symbol hp) w" "hp = hook_patch_of w"
      "pin_slot_of dbl m def (hp_symbol hp) = hw_pin_slots w"
    using compiled_work [OF assms] .
  from w(1) obtain hook ins where h: "find_hook def (hp_symbol hp) = Some hook"
      "first_store m (hp_symbol hp) = Some ins" "work_base hook w" "work_first dbl def m ins hook w"
      "\<And>i. i \<in> set m \<Longrightarrow> is_store_of (hp_symbol hp) i \<Longrightarrow> hw_pin_slots w (ins_pin i) \<noteq> None"
    unfolding work_ok_def by blast
  from h(4) obtain c rest T dst where f: "hw_code w = c @ rest" "c \<noteq> []" "hw_pin_slots w (ins_pin ins) = Some dst"
      "store_correct dbl def m (ins_operands ins ! 0) c dst T (free_ram hook)" "T \<subseteq> ram_bytes (ram_taken (hw_ram w))"
      "\<And>p a. hw_pin_slots w p = Some a \<Longrightarrow> p \<noteq> ins_pin ins \<Longrightarrow> longword a \<inter> T = {}"
    unfolding work_first_def by blast
  have room: "ram_bytes (ram_taken (hw_ram w)) \<subseteq> free_ram hook"
    using taken_in_room [of "hw_ram w"] h(3) free_ram_room [OF h(3)] by (simp add: work_base_def)
  have slots: "a \<in> claim_addresses hp \<and> longword a \<subseteq> free_ram hook" if "hw_pin_slots w pin = Some a" for pin a
  proof -
    from h(3) that obtain cl where "longword a \<subseteq> ram_bytes (ram_taken (hw_ram w))" "cl \<in> set (hw_claims w)"
        "a = ucast (rc_address cl)"
      unfolding work_base_def by blast
    with room w(2) show ?thesis by (auto simp: claim_addresses_def hook_patch_of_def)
  qed
  have run: "\<exists>x s'. evaluates dbl def m f (sh_mem s) (ins_operands ins ! 0) x \<and> reaches f s s' \<and> sh_pc s' = sh_pr s \<and>
      load32 (sh_mem s') dst = x \<and> unchanged_outside T (sh_mem s) (sh_mem s') \<and> keeps s s'"
    if "hook_ready def m hook (hp_code hp) s" for f s
  proof -
    have code: "hook_ready def m hook (c @ rest) s" using that w(2) f(1) by (simp add: hook_patch_of_def)
    then have "inputs_clear def m (free_ram hook)" by (simp add: hook_ready_def)
    with hook_ready_runnable [OF code] f(4) show ?thesis unfolding store_correct_def by blast
  qed
  have "hook_spec dbl m def hp hook ins dst T" unfolding hook_spec_def
  proof (intro conjI allI ballI impI)
    show "hp_splice_address hp = the (hk_ecu_address hook)" "hp_code hp \<noteq> []"
      using w(2) h(3) f(1,2) by (simp_all add: hook_patch_of_def work_base_def)
    show "pin_slot_of dbl m def (hp_symbol hp) (ins_pin ins) = Some dst" using w(3) f(3) by simp
    show "T \<subseteq> free_ram hook" using f(5) room by blast
    show "a \<in> claim_addresses hp" "longword a \<subseteq> free_ram hook"
      if "pin_slot_of dbl m def (hp_symbol hp) pin = Some a" for pin a
      using that slots w(3) by auto
    show "longword a \<inter> T = {}" if "pin_slot_of dbl m def (hp_symbol hp) pin = Some a" "pin \<noteq> ins_pin ins" for pin a
      using f(6) that w(3) by simp
    show "pin_slot_of dbl m def (hp_symbol hp) (ins_pin i) \<noteq> None" if "i \<in> set m" "is_store_of (hp_symbol hp) i" for i
      using h(5) [OF that] w(3) by simp
  qed (fact h(1,2) run)+
  then show thesis by (rule that)
qed

text \<open>C4: A compiled hook computes its feature. For every hook patch that the SH-2A backend returns for a pack whose
  free RAM regions lie in the 32-bit address space, and every machine that is about to call its code (loaded on a multiple of four, shorter than 1032 bytes,
  with the free RAM of the hook apart from the code and from the inputs the module reads), the code
  returns to its caller; the RAM slot of the pin of the hook's first store then holds the value that the
  IR assigns to the operand of that store, evaluated over the memory at the call. Memory outside the
  hook's free RAM and the registers from R3 and FR2 on are unchanged, so firmware and other features
  are not disturbed. This covers every primitive and any nesting and sharing of them.\<close>

theorem sh2a_hook_correct:
  assumes "compile dbl m def = Some (Inr obj)" "ram_in_range def" "hp \<in> set (po_hooks obj)"
  shows "\<exists>hook ins slot. find_hook def (hp_symbol hp) = Some hook \<and>
    hp_splice_address hp = the (hk_ecu_address hook) \<and> first_store m (hp_symbol hp) = Some ins \<and>
    pin_slot_of dbl m def (hp_symbol hp) (ins_pin ins) = Some slot \<and> slot \<in> claim_addresses hp \<and>
    longword slot \<subseteq> free_ram hook \<and>
    (\<forall>f s. hook_ready def m hook (hp_code hp) s \<longrightarrow>
       (\<exists>x s'. evaluates dbl def m f (sh_mem s) (ins_operands ins ! 0) x \<and> reaches f s s' \<and> sh_pc s' = sh_pr s \<and>
          load32 (sh_mem s') slot = x \<and> unchanged_outside (free_ram hook) (sh_mem s) (sh_mem s') \<and> keeps s s'))"
proof -
  obtain hook ins slot T where H: "hook_spec dbl m def hp hook ins slot T"
    using compiled_hook [OF assms] .
  have "\<exists>x s'. evaluates dbl def m f (sh_mem s) (ins_operands ins ! 0) x \<and> reaches f s s' \<and> sh_pc s' = sh_pr s \<and>
      load32 (sh_mem s') slot = x \<and> unchanged_outside (free_ram hook) (sh_mem s) (sh_mem s') \<and> keeps s s'"
    if ready: "hook_ready def m hook (hp_code hp) s" for f s
  proof -
    obtain x s' where "evaluates dbl def m f (sh_mem s) (ins_operands ins ! 0) x" "reaches f s s'" "sh_pc s' = sh_pr s"
        "load32 (sh_mem s') slot = x" "unchanged_outside T (sh_mem s) (sh_mem s')" "keeps s s'" "T \<subseteq> free_ram hook"
      using H ready unfolding hook_spec_def by blast
    then show ?thesis using unchanged_mono by blast
  qed
  moreover have "slot \<in> claim_addresses hp \<and> longword slot \<subseteq> free_ram hook"
    using H unfolding hook_spec_def by blast
  ultimately show ?thesis
    using H unfolding hook_spec_def by (intro exI [of _ hook] exI [of _ ins] exI [of _ slot]) simp
qed

text \<open>Only the first store of a hook ever takes effect. A store of the same hook to another output
  pin has a RAM slot of its own among the claims of the patch, but a call of the hook's code returns
  with that slot unchanged: each store's code ends in its own RTS and they are emitted one after the
  other, so the call returns before it reaches the second.\<close>

theorem sh2a_later_stores_dead:
  assumes "compile dbl m def = Some (Inr obj)" "ram_in_range def" "hp \<in> set (po_hooks obj)"
    and "first_store m (hp_symbol hp) = Some ins" "find_hook def (hp_symbol hp) = Some hook"
    and "later \<in> set m" "is_store_of (hp_symbol hp) later" "ins_pin later \<noteq> ins_pin ins"
  shows "\<exists>a. pin_slot_of dbl m def (hp_symbol hp) (ins_pin later) = Some a \<and> a \<in> claim_addresses hp \<and>
    (\<forall>f s. hook_ready def m hook (hp_code hp) s \<longrightarrow>
       (\<exists>s'. reaches f s s' \<and> sh_pc s' = sh_pr s \<and> load32 (sh_mem s') a = load32 (sh_mem s) a))"
proof -
  obtain hook' ins' slot T where "hook_spec dbl m def hp hook' ins' slot T"
    using compiled_hook [OF assms(1-3)] .
  moreover from this have "hook' = hook" "ins' = ins" using assms(4,5) by (simp_all add: hook_spec_def)
  ultimately have H: "hook_spec dbl m def hp hook ins slot T" by simp
  obtain a where a: "pin_slot_of dbl m def (hp_symbol hp) (ins_pin later) = Some a"
    using H assms(6,7) unfolding hook_spec_def by blast
  then have apart: "a \<in> claim_addresses hp" "longword a \<inter> T = {}"
    using H assms(8) by (simp_all add: hook_spec_def)
  have "\<exists>s'. reaches f s s' \<and> sh_pc s' = sh_pr s \<and> load32 (sh_mem s') a = load32 (sh_mem s) a"
    if ready: "hook_ready def m hook (hp_code hp) s" for f s
  proof -
    obtain s' where "reaches f s s'" "sh_pc s' = sh_pr s" "unchanged_outside T (sh_mem s) (sh_mem s')"
      using H ready unfolding hook_spec_def by blast
    with unchanged_load [OF _ apart(2)] show ?thesis by blast
  qed
  with a apart(1) show ?thesis by blast
qed

end
