(* ===== verification/Codegen_Props.thy ===== *)
theory Codegen_Props
  imports Codegen_Compile
begin

text \<open>
  Further properties of the SH-2A backend: it returns on every module in SSA order, what it returns
  has passed the address gate, and a concrete feature that is compiled, loaded and run.
\<close>

section \<open>Termination\<close>

text \<open>Every operand is the result of an earlier instruction, as \<open>lower\<close> emits them.\<close>

definition ssa_ordered :: "'d ir_module \<Rightarrow> bool" where
  "ssa_ordered m \<longleftrightarrow> (\<forall>i < length m. \<forall>v \<in> set (ins_operands (m ! i)). \<exists>j < i. ins_id (m ! j) = v)"

lemma producer_index:
  assumes "j < length m" "ins_id (m ! j) = v"
  shows "\<exists>k \<le> j. find_producer m v = Some (m ! k)"
  using assms
proof (induction j rule: less_induct)
  case (less j)
  show ?case
  proof (cases "\<exists>k < j. ins_id (m ! k) = v")
    case True
    then obtain k where "k < j" "ins_id (m ! k) = v" by blast
    with less.IH [OF this(1)] less.prems(1) show ?thesis by (meson less_imp_le order.strict_trans order.trans)
  next
    case False
    with less.prems have "find_producer m v = Some (m ! j)"
      unfolding find_producer_def find_Some_iff by (intro exI [of _ j]) auto
    then show ?thesis by blast
  qed
qed

lemma ssa_producer:
  assumes "ssa_ordered m" "i < length m" "v \<in> set (ins_operands (m ! i))"
  obtains j where "j < i" "find_producer m v = Some (m ! j)"
proof -
  obtain k where k: "k < i" "ins_id (m ! k) = v" using assms by (auto simp: ssa_ordered_def)
  with producer_index [of k m v] assms(2) that show thesis by (meson order.strict_trans order.strict_trans1)
qed

lemma walk_operands_returns:
  assumes "\<And>v q st. \<lbrakk>v \<in> set vs; find_producer m v = Some q; ins_op q = CallPrimitive\<rbrakk> \<Longrightarrow> self q st \<noteq> None"
  shows "walk_operands self m vs st \<noteq> None"
  using assms
proof (induction vs arbitrary: st)
  case (Cons v vs)
  have rest: "walk_operands self m vs st1 \<noteq> None" for st1
    by (rule Cons.IH) (use Cons.prems in \<open>meson list.set_intros(2)\<close>)
  show ?case
  proof (cases "find_producer m v")
    case (Some q)
    then have "self q st \<noteq> None" if "ins_op q = CallPrimitive" using Cons.prems [of v q] that by simp
    with rest Some show ?thesis by (auto split: sum.splits)
  qed simp
qed simp

lemma walk_returns:
  assumes "ssa_ordered m" "i < n" "i < length m"
  shows "walk n m hook (m ! i) root st \<noteq> None"
  using assms(2,3)
proof (induction n arbitrary: i root st)
  case (Suc n)
  have "walk_operands (\<lambda>p. walk n m hook p False) m (ins_operands (m ! i)) st1 \<noteq> None" for st1
  proof (rule walk_operands_returns)
    fix v q st2
    assume v: "v \<in> set (ins_operands (m ! i))" "find_producer m v = Some q"
    then obtain j where "j < i" "q = m ! j" using ssa_producer [OF assms(1) Suc.prems(2) v(1)] by auto
    with Suc.IH [of j] Suc.prems show "walk n m hook q False st2 \<noteq> None" by simp
  qed
  then obtain y where "walk_operands (\<lambda>p. walk n m hook p False) m (ins_operands (m ! i)) st = Some y" by blast
  then show ?case by (auto split: sum.splits)
qed simp

lemma append_finalized_returns:
  assumes "segment empty_emitter fe A D E"
  shows "append_finalized fe w \<noteq> None"
  using finalize_segment [OF assms] by (auto simp: append_finalized_def)

lemma emit_store_source_returns:
  assumes "ssa_ordered m" "find_producer m v = Some src"
  shows "emit_store_source dbl def m src dst w \<noteq> None"
proof -
  obtain j where j: "j < length m" "src = m ! j"
    using find_producer_SomeD(1) [OF assms(2)] by (auto simp: in_set_conv_nth)
  have const: "emit_load_const_store_sequence x dst w \<noteq> None" for x
    unfolding emit_load_const_store_sequence_def by (rule append_finalized_returns [OF const_store_segment])
  have input: "emit_load_hook_store_sequence a dst w \<noteq> None" for a
    unfolding emit_load_hook_store_sequence_def by (rule append_finalized_returns [OF hook_store_segment])
  have single: "emit_single_call_primitive dbl def m src dst w \<noteq> None"
  proof (cases "emit_prim dbl def m Map.empty src dst empty_emitter")
    case (Inr fe)
    obtain ops where "segment empty_emitter fe (list_all operand_aligned ops) {dst} (prim_update src ops dst)"
      using emit_prim_segment [OF Inr] by blast
    from append_finalized_returns [OF this] Inr show ?thesis by (simp add: emit_single_call_primitive_def)
  qed (simp add: emit_single_call_primitive_def)
  have order: "append_finalized fe w' \<noteq> None"
    if "emit_order dbl def m slots root dst ps empty_emitter = Inr fe" for slots root ps fe w'
    using emit_order_segment [OF that] append_finalized_returns by metis
  have "walk (Suc (length m)) m (hw_hook w) src True st \<noteq> None" for st
    using walk_returns [OF assms(1), of j "Suc (length m)"] j by (simp del: walk.simps)
  then have "emit_nested_call_primitive dbl def m src dst w \<noteq> None"
    using order by (auto simp: emit_nested_call_primitive_def simp del: walk.simps split: option.splits sum.splits)
  with const input single show ?thesis
    by (auto simp: emit_store_source_def split: ir_op.splits sum.splits)
qed

lemma compile_stores_returns:
  assumes "ssa_ordered m"
  shows "compile_stores dbl def m rest st \<noteq> None"
proof (induction rest arbitrary: st)
  case (Cons ins rest)
  have "compile_store dbl def m ins st \<noteq> None"
    using emit_store_source_returns [OF assms] check_store_InrD(2)
    by (fastforce simp: compile_store_def Let_def split: sum.splits)
  with Cons.IH show ?case by (auto split: option.splits sum.splits)
qed simp

text \<open>The backend returns on every module whose operands refer to earlier instructions, which is the
  order \<open>lower\<close> emits: the recursive operand walk, which has no cycle check, ends, with a depth of at
  most the number of instructions, and no emitted branch has an unplaced label, so \<open>finalize\<close> does not
  throw. The result is a patch object or an error, whatever the pack declares.\<close>

theorem sh2a_compile_returns:
  assumes "ssa_ordered m"
  shows "(\<exists>obj. compile dbl m def = Some (Inr obj)) \<or> (\<exists>e. compile dbl m def = Some (Inl e))"
  using compile_stores_returns [OF assms, of dbl def m "\<lparr>cs_works = Map.empty, cs_ordered = []\<rparr>"]
  by (auto simp: compile_def Let_def split: option.splits sum.splits)


section \<open>The address gate\<close>

text \<open>What the backend returns has passed the address gate. Every hook patch has code, and the code's
  length from the splice point lies inside one single writable region of the pack; a pack without
  writable regions yields no hook patch at all. The sums are those of \<open>std::size_t\<close>, so the claim asks
  that they do not wrap around, which the gate itself does not check.\<close>

theorem sh2a_compile_gated:
  assumes "compile dbl m def = Some (Inr obj)" "ram_in_range def" "hp \<in> set (po_hooks obj)"
    and "unat (hp_splice_address hp) + length (hp_code hp) < 2 ^ 64"
    and "\<forall>r \<in> set (pv_writable_regions def). unat (wr_address r) + unat (wr_length r) < 2 ^ 64"
  shows "hp_code hp \<noteq> [] \<and> (\<exists>r \<in> set (pv_writable_regions def).
    unat (wr_address r) \<le> unat (hp_splice_address hp) \<and>
    unat (hp_splice_address hp) + length (hp_code hp) \<le> unat (wr_address r) + unat (wr_length r))"
proof -
  have gate: "gate_patch obj def = ok"
    using assms(1) by (auto simp: compile_def Let_def split: option.splits sum.splits)
  have code: "hp_code hp \<noteq> []"
    using compiled_hook [OF assms(1-3)] by (auto simp: hook_spec_def)
  have "pv_writable_regions def \<noteq> []"
    using gate assms(3) by (auto simp: gate_patch_def Let_def split: if_splits)
  then have "hp \<notin> set (gate_violations (pv_writable_regions def) (po_hooks obj))"
    using gate by (auto simp: gate_patch_def Let_def split: if_splits)
  then have "hook_fits (pv_writable_regions def) hp"
    using assms(3) code by (auto simp: gate_violations_def)
  then obtain r where r: "r \<in> set (pv_writable_regions def)" "wr_address r \<le> hp_splice_address hp"
      "hp_splice_address hp + of_nat (length (hp_code hp)) \<le> wr_address r + wr_length r"
    by (auto simp: hook_fits_def list_ex_iff)
  have "unat (wr_address r + wr_length r) = unat (wr_address r) + unat (wr_length r)"
    using assms(5) r(1) by (intro unat_add_lem [THEN iffD1]) simp
  moreover have "unat (hp_splice_address hp + of_nat (length (hp_code hp))) =
      unat (hp_splice_address hp) + length (hp_code hp)"
    using assms(4) by (simp add: unat_word_ariths unat_of_nat mod_simps)
  ultimately show ?thesis using code r by (auto simp: word_le_nat_alt)
qed

section \<open>A concrete feature\<close>

text \<open>Constants are integers here; the hook reads the engine speed and has two output pins.\<close>

definition demo_doubles :: "int doubles" where
  "demo_doubles = \<lparr>dbl_out_of_int32 = (\<lambda>d. d < -2147483648 \<or> d > 2147483647), dbl_int32 = word_of_int,
     dbl_float_bits = word_of_int, dbl_above_half = (\<lambda>d. d > 0), dbl_text = (\<lambda>_. [])\<rparr>"

definition demo_hook :: hook where
  "demo_hook = \<lparr>hk_id = ''limit'', hk_display_name = [], hk_description = [],
     hk_inputs = [\<lparr>sg_name = ''rpm'', sg_label = [], sg_type = ''int'', sg_unit = [], sg_address = Some 0xFFFF9000\<rparr>],
     hk_outputs = [], hk_ecu_address = Some 0x1000, hk_free_ram_base = Some 0xFFFF8002,
     hk_free_ram_length = Some 64\<rparr>"

definition demo_pack :: pack_view where
  "demo_pack = \<lparr>pv_platform = ''VA'', pv_hooks = [demo_hook],
     pv_writable_regions = [\<lparr>wr_name = ''code'', wr_kind = ''code'', wr_address = 0x1000, wr_length = 0x400,
       wr_bank = [], wr_description = []\<rparr>]\<rparr>"

definition demo_ins :: "ir_op \<Rightarrow> u32 \<Rightarrow> string \<Rightarrow> string \<Rightarrow> u32 list \<Rightarrow> int option \<Rightarrow> int instruction" where
  "demo_ins op v s pin vs c = \<lparr>ins_op = op, ins_type = PinInt, ins_id = v, ins_symbol = s, ins_pin = pin,
     ins_operands = vs, ins_operand_pins = [], ins_constant = c\<rparr>"

definition demo_module :: "int ir_module" where
  "demo_module =
     [demo_ins LoadHookInput 1 ''limit'' ''rpm'' [] None,
      demo_ins LoadConstant 2 [] [] [] (Some 5),
      demo_ins CallPrimitive 3 ''add_int'' ''out'' [1, 2] None,
      demo_ins CallPrimitive 4 ''multiply_int'' ''out'' [3, 3] None,
      demo_ins StoreHookOutput 0 ''limit'' ''cut'' [4] None,
      demo_ins StoreHookOutput 0 ''limit'' ''fuel'' [2] None]"

lemma demo_compiled:
  "(case compile demo_doubles demo_module demo_pack of
      Some (Inr obj) \<Rightarrow> map (\<lambda>hp. (hp_symbol hp, hp_splice_address hp, length (hp_code hp), map rc_address (hp_ram_claims hp)))
        (po_hooks obj)
    | _ \<Rightarrow> []) = [(''limit'', 0x1000, 76, [0xFFFF8004, 0xFFFF8008, 0xFFFF800C])]"
  by code_simp

lemma demo_slots:
  "pin_slot_of demo_doubles demo_module demo_pack ''limit'' ''cut'' = Some 0xFFFF8004"
  "pin_slot_of demo_doubles demo_module demo_pack ''limit'' ''fuel'' = Some 0xFFFF800C"
  by code_simp+

lemma demo_object:
  obtains obj hp where "compile demo_doubles demo_module demo_pack = Some (Inr obj)" "hp \<in> set (po_hooks obj)"
    "hp_symbol hp = ''limit''" "hp_splice_address hp = 0x1000" "length (hp_code hp) = 76"
proof -
  obtain obj where obj: "compile demo_doubles demo_module demo_pack = Some (Inr obj)"
      "map (\<lambda>hp. (hp_symbol hp, hp_splice_address hp, length (hp_code hp), map rc_address (hp_ram_claims hp))) (po_hooks obj) =
         [(''limit'', 0x1000, 76, [0xFFFF8004, 0xFFFF8008, 0xFFFF800C])]"
    using demo_compiled by (auto split: option.splits sum.splits)
  then show thesis by (cases "po_hooks obj") (auto intro: that)
qed

definition demo_machine :: "bytes \<Rightarrow> sh2a" where
  "demo_machine code = \<lparr>sh_r = (\<lambda>_. 0), sh_fr = (\<lambda>_. 0), sh_t = False, sh_macl = 0, sh_fpul = 0, sh_pc = 0x1000,
     sh_pr = 0x200,
     sh_mem = (\<lambda>a. if 0x1000 \<le> unat a \<and> unat a - 0x1000 < length code then code ! (unat a - 0x1000) else 7)\<rparr>"

lemma demo_in_range: "ram_in_range demo_pack"
  by (simp add: ram_in_range_def demo_pack_def demo_hook_def)

lemma demo_free_ram: "free_ram demo_hook = {x. 0xFFFF8002 \<le> unat x \<and> unat x < 0xFFFF8042}"
  by (simp add: free_ram_def ram_room_def hook_ram_def demo_hook_def ram_end_def ram_allocator_def)

lemma demo_find_hook: "find_hook demo_pack ''limit'' = Some demo_hook"
  by (simp add: find_hook_def demo_pack_def demo_hook_def)

lemma demo_input:
  "resolve_hook_input_address demo_pack (demo_ins LoadHookInput 1 ''limit'' ''rpm'' [] None) = Inr 0xFFFF9000"
  using demo_find_hook
  by (simp add: resolve_hook_input_address_def demo_ins_def find_hook_input_def demo_hook_def)

lemma demo_inputs_clear: "inputs_clear demo_pack demo_module (free_ram demo_hook)"
proof -
  have "a = 0xFFFF9000" if "p \<in> set demo_module" "ins_op p = LoadHookInput"
      "resolve_hook_input_address demo_pack p = Inr a" for p a
    using that demo_input by (auto simp: demo_module_def demo_ins_def)
  moreover have "aligned4 0xFFFF9000" by (simp add: aligned4_def)
  moreover have "longword 0xFFFF9000 \<inter> free_ram demo_hook = {}" by (simp add: longword_def demo_free_ram)
  ultimately show ?thesis unfolding inputs_clear_def by blast
qed

lemma demo_ready:
  assumes "length code = 76"
  shows "hook_ready demo_pack demo_module demo_hook code (demo_machine code)"
proof -
  have u: "unat (0x1000 + of_nat i :: u32) = 0x1000 + i" if "i < 76" for i
  proof -
    have "unat (0x1000 + of_nat i :: u32) = (0x1000 + i) mod 2 ^ 32"
      by (simp add: unat_word_ariths unat_of_nat mod_simps)
    with that show ?thesis by simp
  qed
  show ?thesis using assms demo_inputs_clear
    by (simp add: hook_ready_def demo_machine_def aligned4_def loaded_def u demo_free_ram)
qed

lemma demo_value:
  assumes "length code = 76"
    and "evaluates demo_doubles demo_pack demo_module f (sh_mem (demo_machine code)) 4 x"
  shows "x = 0x0707070C * 0x0707070C"
proof -
  let ?ev = "evaluates demo_doubles demo_pack demo_module f (sh_mem (demo_machine code))"
  have mem: "load32 (sh_mem (demo_machine code)) 0xFFFF9000 = 0x07070707"
    using assms(1) by (simp add: load32_def demo_machine_def)
  note find = find_producer_def demo_module_def demo_ins_def
  have "?ev 1 (load32 (sh_mem (demo_machine code)) 0xFFFF9000)"
    by (rule ev_input [OF _ _ demo_input]) (simp_all add: find)
  then have 1: "?ev 1 0x07070707" unfolding mem .
  have 2: "?ev 2 5"
    by (rule ev_constant [where p = "demo_ins LoadConstant 2 [] [] [] (Some 5)"])
      (simp_all add: find coerce_constant_to_u32_def demo_doubles_def)
  have 3: "?ev 3 0x0707070C"
    by (rule ev_primitive [where p = "demo_ins CallPrimitive 3 ''add_int'' ''out'' [1, 2] None" and xs = "[0x07070707, 5]"])
      (use 1 2 in \<open>simp_all add: find primitive_result_def\<close>)
  have "?ev 4 (0x0707070C * 0x0707070C)"
    by (rule ev_primitive [where p = "demo_ins CallPrimitive 4 ''multiply_int'' ''out'' [3, 3] None"
          and xs = "[0x0707070C, 0x0707070C]"])
      (use 3 in \<open>simp_all add: find primitive_result_def\<close>)
  with assms(2) show ?thesis using evaluates_unique by blast
qed

lemma demo_first_store:
  "first_store demo_module ''limit'' = Some (demo_ins StoreHookOutput 0 ''limit'' ''cut'' [4] None)"
  by (simp add: first_store_def is_store_of_def demo_module_def demo_ins_def)

lemma sh2a_hook_correct_witness:
  "\<forall>f. \<exists>obj hp s'. compile demo_doubles demo_module demo_pack = Some (Inr obj) \<and> hp \<in> set (po_hooks obj) \<and>
     reaches f (demo_machine (hp_code hp)) s' \<and> sh_pc s' = 0x200 \<and>
     load32 (sh_mem s') 0xFFFF8004 = 0x0707070C * 0x0707070C"
proof
  fix f
  obtain obj hp where o: "compile demo_doubles demo_module demo_pack = Some (Inr obj)" "hp \<in> set (po_hooks obj)"
      "hp_symbol hp = ''limit''" "length (hp_code hp) = 76"
    using demo_object by metis
  let ?s = "demo_machine (hp_code hp)"
  have "\<forall>f s. hook_ready demo_pack demo_module demo_hook (hp_code hp) s \<longrightarrow>
      (\<exists>x s'. evaluates demo_doubles demo_pack demo_module f (sh_mem s) 4 x \<and> reaches f s s' \<and> sh_pc s' = sh_pr s \<and>
         load32 (sh_mem s') 0xFFFF8004 = x \<and> unchanged_outside (free_ram demo_hook) (sh_mem s) (sh_mem s') \<and> keeps s s')"
    using sh2a_hook_correct [OF o(1) demo_in_range o(2)] o(3)
    by (auto simp: demo_find_hook demo_first_store demo_slots demo_ins_def)
  with demo_ready [OF o(4)] obtain x s' where s': "evaluates demo_doubles demo_pack demo_module f (sh_mem ?s) 4 x"
      "reaches f ?s s'" "sh_pc s' = sh_pr ?s" "load32 (sh_mem s') 0xFFFF8004 = x"
    by blast
  have "x = 0x0707070C * 0x0707070C" by (rule demo_value [OF o(4) s'(1)])
  with o(1,2) s' show "\<exists>obj hp s'. compile demo_doubles demo_module demo_pack = Some (Inr obj) \<and> hp \<in> set (po_hooks obj) \<and>
      reaches f (demo_machine (hp_code hp)) s' \<and> sh_pc s' = 0x200 \<and>
      load32 (sh_mem s') 0xFFFF8004 = 0x0707070C * 0x0707070C"
    by (intro exI [of _ obj] exI [of _ hp] exI [of _ s']) (simp add: demo_machine_def)
qed

lemma sh2a_later_stores_dead_witness:
  "\<forall>f. \<exists>obj hp s'. compile demo_doubles demo_module demo_pack = Some (Inr obj) \<and> hp \<in> set (po_hooks obj) \<and>
     reaches f (demo_machine (hp_code hp)) s' \<and> sh_pc s' = 0x200 \<and> load32 (sh_mem s') 0xFFFF800C = 0x07070707"
proof
  fix f
  obtain obj hp where o: "compile demo_doubles demo_module demo_pack = Some (Inr obj)" "hp \<in> set (po_hooks obj)"
      "hp_symbol hp = ''limit''" "length (hp_code hp) = 76"
    using demo_object by metis
  let ?s = "demo_machine (hp_code hp)" and ?ins = "demo_ins StoreHookOutput 0 ''limit''"
  have l: "?ins ''fuel'' [2] None \<in> set demo_module" "is_store_of (hp_symbol hp) (?ins ''fuel'' [2] None)"
      "ins_pin (?ins ''fuel'' [2] None) \<noteq> ins_pin (?ins ''cut'' [4] None)"
    using o(3) by (simp_all add: demo_module_def is_store_of_def demo_ins_def)
  have "first_store demo_module (hp_symbol hp) = Some (?ins ''cut'' [4] None)"
      "find_hook demo_pack (hp_symbol hp) = Some demo_hook"
    using o(3) demo_first_store demo_find_hook by simp_all
  from sh2a_later_stores_dead [OF o(1) demo_in_range o(2) this l]
  have "\<forall>f s. hook_ready demo_pack demo_module demo_hook (hp_code hp) s \<longrightarrow>
      (\<exists>s'. reaches f s s' \<and> sh_pc s' = sh_pr s \<and> load32 (sh_mem s') 0xFFFF800C = load32 (sh_mem s) 0xFFFF800C)"
    using o(3) by (auto simp: demo_slots demo_ins_def)
  with demo_ready [OF o(4)] obtain s' where "reaches f ?s s'" "sh_pc s' = sh_pr ?s" "load32 (sh_mem s') 0xFFFF800C = load32 (sh_mem ?s) 0xFFFF800C"
    by blast
  moreover have "load32 (sh_mem ?s) 0xFFFF800C = 0x07070707"
    using o(4) by (simp add: load32_def demo_machine_def)
  ultimately show "\<exists>obj hp s'. compile demo_doubles demo_module demo_pack = Some (Inr obj) \<and> hp \<in> set (po_hooks obj) \<and>
      reaches f (demo_machine (hp_code hp)) s' \<and> sh_pc s' = 0x200 \<and> load32 (sh_mem s') 0xFFFF800C = 0x07070707"
    using o(1,2) by (intro exI [of _ obj] exI [of _ hp] exI [of _ s']) (simp add: demo_machine_def)
qed

lemma sh2a_compile_gated_witness:
  "\<exists>obj hp. compile demo_doubles demo_module demo_pack = Some (Inr obj) \<and> hp \<in> set (po_hooks obj) \<and> hp_code hp \<noteq> [] \<and>
     (\<exists>r \<in> set (pv_writable_regions demo_pack). unat (wr_address r) \<le> unat (hp_splice_address hp) \<and>
        unat (hp_splice_address hp) + length (hp_code hp) \<le> unat (wr_address r) + unat (wr_length r))"
proof -
  obtain obj hp where o: "compile demo_doubles demo_module demo_pack = Some (Inr obj)" "hp \<in> set (po_hooks obj)"
      "hp_splice_address hp = 0x1000" "length (hp_code hp) = 76"
    using demo_object by metis
  have "unat (hp_splice_address hp) + length (hp_code hp) < 2 ^ 64" using o(3,4) by simp
  moreover have "\<forall>r \<in> set (pv_writable_regions demo_pack). unat (wr_address r) + unat (wr_length r) < 2 ^ 64"
    by (simp add: demo_pack_def)
  ultimately show ?thesis
    using sh2a_compile_gated [OF o(1) demo_in_range o(2)] o(1,2) by blast
qed

end
