(* ===== verification/Patch_Splice.thy ===== *)
theory Patch_Splice
  imports Codegen_Run Core_Error "HOL-Library.Signed_Division"
begin

text \<open>
  The jumps that the patch inserter writes over a hook's splice point
  (src/feature_patch/src/splice_sh2a.cpp, splice_rh850.cpp): a short relative branch where the patch is
  in reach, a register jump otherwise. The SH-2A form is executed on the machine of \<open>Sh2a\<close>, the RH850
  form on the four instructions it uses, modelled here.
\<close>

datatype splice_form = Sh2aShortBra | Sh2aLongJmp | Rh850ShortJr | Rh850LongJmp

record splice_bytes =
  sb_bytes :: bytes
  sb_form :: splice_form
  sb_splice_address :: u32
  sb_patch_address :: u32

section \<open>SH-2A\<close>

definition be16_bytes :: "u16 \<Rightarrow> bytes" where
  "be16_bytes v = [ucast (drop_bit 8 v AND 0xFF), ucast (v AND 0xFF)]"

text \<open>The gap is computed in \<open>int64\<close>, where it cannot overflow; \<open>%\<close> and \<open>/\<close> truncate.\<close>

definition sh2a_bra_disp12 :: "u32 \<Rightarrow> u32 \<Rightarrow> int option" where
  "sh2a_bra_disp12 splice_address patch_address =
     (let signed_gap = uint patch_address - uint splice_address - 4 in
      if signed_gap smod 2 \<noteq> 0 then None
      else let halfword_disp = signed_gap sdiv 2 in
        if halfword_disp < -2048 \<or> halfword_disp > 2047 then None else Some halfword_disp)"

definition emit_sh2a_long_splice :: "u32 \<Rightarrow> u32 \<Rightarrow> splice_bytes" where
  "emit_sh2a_long_splice splice_address patch_address =
     \<lparr>sb_bytes = be16_bytes (enc_mov_l_at_pc_r0 1) @ be16_bytes (enc_jmp_at_reg 0) @ be16_bytes enc_nop @
        be16_bytes enc_nop @ be32 patch_address,
      sb_form = Sh2aLongJmp, sb_splice_address = splice_address, sb_patch_address = patch_address\<rparr>"

definition emit_sh2a_splice :: "u32 \<Rightarrow> u32 \<Rightarrow> splice_bytes result" where
  "emit_sh2a_splice splice_address patch_address =
     (if splice_address AND 1 \<noteq> 0 then
        failure InvalidArgument (''emit_sh2a_splice: splice_address must be 2-aligned '' @
          ''(SH-2A is a 16-bit fixed-instruction ISA)'')
      else if patch_address AND 1 \<noteq> 0 then
        failure InvalidArgument ''emit_sh2a_splice: patch_address must be 2-aligned''
      else (case sh2a_bra_disp12 splice_address patch_address of
          Some disp \<Rightarrow>
            Inr \<lparr>sb_bytes = be16_bytes (enc_bra (word_of_int disp)) @ be16_bytes enc_nop,
                 sb_form = Sh2aShortBra, sb_splice_address = splice_address, sb_patch_address = patch_address\<rparr>
        | None \<Rightarrow>
            if splice_address AND 3 \<noteq> 0 then
              failure InvalidArgument (''emit_sh2a_splice: long-form requires 4-aligned splice_address '' @
                ''(got 0x'' @ hex_fixed 8 (unat splice_address) @ '') '' @ em_dash @
                '' short-form BRA is out of range and long-form'' @ [CHR 0x27] @
                ''s literal-pool math requires 4-byte alignment'')
            else Inr (emit_sh2a_long_splice splice_address patch_address)))"

section \<open>RH850\<close>

definition le16_bytes :: "u16 \<Rightarrow> bytes" where
  "le16_bytes v = [ucast (v AND 0xFF), ucast (drop_bit 8 v AND 0xFF)]"

definition enc_jr_hw1 :: "u32 \<Rightarrow> u16" where
  "enc_jr_hw1 disp22 = 0x0780 OR ucast (signed_drop_bit 16 disp22 AND 0x3F)"

definition enc_jr_hw2 :: "u32 \<Rightarrow> u16" where
  "enc_jr_hw2 disp22 = ucast (disp22 AND 0xFFFE)"

definition enc_movhi_hw1 :: "u8 \<Rightarrow> u8 \<Rightarrow> u16" where
  "enc_movhi_hw1 reg1 reg2 = push_bit 11 (ucast reg2) OR push_bit 5 0x31 OR ucast reg1"

definition enc_movea_hw1 :: "u8 \<Rightarrow> u8 \<Rightarrow> u16" where
  "enc_movea_hw1 reg1 reg2 = push_bit 11 (ucast reg2) OR push_bit 5 0x30 OR ucast reg1"

definition enc_jmp_reg :: "u8 \<Rightarrow> u16" where
  "enc_jmp_reg reg = push_bit 5 0x06 OR ucast reg"

definition split_imm32 :: "u32 \<Rightarrow> u16 \<times> u16" where
  "split_imm32 value =
     (let lo = ucast (value AND 0xFFFF) :: u16; hi = ucast (drop_bit 16 value AND 0xFFFF) in
      (if lo AND 0x8000 \<noteq> 0 then hi + 1 else hi, lo))"

definition emit_rh850_long_splice :: "u32 \<Rightarrow> u32 \<Rightarrow> splice_bytes" where
  "emit_rh850_long_splice splice_address patch_address =
     (let (hi, lo) = split_imm32 patch_address in
      \<lparr>sb_bytes = le16_bytes (enc_movhi_hw1 0 1) @ le16_bytes hi @ le16_bytes (enc_movea_hw1 1 1) @
         le16_bytes lo @ le16_bytes (enc_jmp_reg 1),
       sb_form = Rh850LongJmp, sb_splice_address = splice_address, sb_patch_address = patch_address\<rparr>)"

definition rh850_jr_disp22 :: "u32 \<Rightarrow> u32 \<Rightarrow> int option" where
  "rh850_jr_disp22 splice_address patch_address =
     (let signed_gap = uint patch_address - uint splice_address in
      if signed_gap AND 1 \<noteq> 0 then None
      else if signed_gap < -2097152 \<or> signed_gap > 2097150 then None
      else Some signed_gap)"

definition emit_rh850_splice :: "u32 \<Rightarrow> u32 \<Rightarrow> splice_bytes result" where
  "emit_rh850_splice splice_address patch_address =
     (if splice_address AND 1 \<noteq> 0 then
        failure InvalidArgument ''emit_rh850_splice: splice_address must be 2-aligned''
      else if patch_address AND 1 \<noteq> 0 then
        failure InvalidArgument ''emit_rh850_splice: patch_address must be 2-aligned''
      else (case rh850_jr_disp22 splice_address patch_address of
          Some disp \<Rightarrow>
            Inr \<lparr>sb_bytes = le16_bytes (enc_jr_hw1 (word_of_int disp)) @ le16_bytes (enc_jr_hw2 (word_of_int disp)),
                 sb_form = Rh850ShortJr, sb_splice_address = splice_address, sb_patch_address = patch_address\<rparr>
        | None \<Rightarrow> Inr (emit_rh850_long_splice splice_address patch_address)))"

section \<open>The RH850 instructions\<close>

text \<open>
  The instructions the splices need, with the opcodes of the architecture: \<open>MOVHI\<close> 110010, \<open>MOVEA\<close>
  110001 (both as src/feature_codegen/src/rh850.hpp has them), \<open>ADDI\<close> 110000 without its flags,
  \<open>JMP [reg1]\<close> 000011, \<open>ZXH reg1\<close> 000110 and \<open>JR\<close>. Register 0 reads as zero. An instruction is one or
  two little-endian halfwords.
\<close>

record rh850 =
  rh_r :: "nat \<Rightarrow> u32"
  rh_pc :: u32
  rh_mem :: memory

definition rh_read :: "rh850 \<Rightarrow> nat \<Rightarrow> u32" where
  "rh_read s n = (if n = 0 then 0 else rh_r s n)"

definition load_le16 :: "memory \<Rightarrow> u32 \<Rightarrow> u16" where
  "load_le16 mem a = ucast (mem a) OR push_bit 8 (ucast (mem (a + 1)))"

definition field :: "nat \<Rightarrow> nat \<Rightarrow> u16 \<Rightarrow> nat" where
  "field lo n w = unat (take_bit n (drop_bit lo w))"

definition rh_step :: "rh850 \<Rightarrow> rh850 option" where
  "rh_step s =
     (let w = load_le16 (rh_mem s) (rh_pc s); w2 = load_le16 (rh_mem s) (rh_pc s + 2);
          reg1 = field 0 5 w; op = field 5 6 w; reg2 = field 11 5 w in
      if op = 0x32 \<and> reg2 \<noteq> 0 then
        Some (s\<lparr>rh_r := (rh_r s)(reg2 := rh_read s reg1 + push_bit 16 (ucast w2)), rh_pc := rh_pc s + 4\<rparr>)
      else if (op = 0x31 \<or> op = 0x30) \<and> reg2 \<noteq> 0 then
        Some (s\<lparr>rh_r := (rh_r s)(reg2 := rh_read s reg1 + scast w2), rh_pc := rh_pc s + 4\<rparr>)
      else if op = 0x03 \<and> reg2 = 0 then Some (s\<lparr>rh_pc := rh_read s reg1 AND NOT 1\<rparr>)
      else if op = 0x06 \<and> reg1 \<noteq> 0 \<and> reg2 = 0 then
        Some (s\<lparr>rh_r := (rh_r s)(reg1 := rh_read s reg1 AND 0xFFFF), rh_pc := rh_pc s + 2\<rparr>)
      else if field 6 10 w = 0x1E \<and> field 0 1 w2 = 0 then
        Some (s\<lparr>rh_pc := rh_pc s + scast (ucast (push_bit 16 (ucast (take_bit 6 w) :: u32) OR ucast w2) :: 22 word)\<rparr>)
      else None)"

fun rh_run :: "nat \<Rightarrow> rh850 \<Rightarrow> rh850 option" where
  "rh_run 0 s = Some s"
| "rh_run (Suc k) s = (case rh_step s of None \<Rightarrow> None | Some s' \<Rightarrow> rh_run k s')"

section \<open>The SH-2A splice jumps\<close>

lemma be16_bytes_be16w [simp]: "be16_bytes v = be16w v"
proof -
  have m: "(0xFF :: u16) = mask 8" by (simp add: mask_eq_exp_minus_1)
  show ?thesis unfolding be16_bytes_def be16w_bytes m
    by (auto intro!: bit_word_eqI simp: bit_ucast_iff bit_and_iff bit_mask_iff bit_drop_bit_eq)
qed

lemma fetch_be16w:
  assumes "loaded mem a (be16w w @ rest)"
  shows "fetch mem a = decode_instr w" "loaded mem (a + 2) rest"
proof -
  from assms have "loaded mem a (be16w w)" "loaded mem (a + 2) rest" by (simp_all add: loaded_append)
  then show "fetch mem a = decode_instr w" "loaded mem (a + 2) rest" by (simp_all add: fetch_def load16_be16w)
qed

lemma sh2a_bra_disp12_SomeD:
  assumes "sh2a_bra_disp12 site patch = Some d"
  shows "- 2048 \<le> d" "d < 2048" "site + 4 + 2 * word_of_int d = patch"
proof -
  let ?g = "uint patch - uint site - 4"
  from assms have d: "?g smod 2 = 0" "d = ?g sdiv 2" "- 2048 \<le> d" "d \<le> 2047"
    by (auto simp: sh2a_bra_disp12_def Let_def split: if_splits)
  then show "- 2048 \<le> d" "d < 2048" by simp_all
  have "?g = 2 * d" using sdiv_mult_smod_eq [of ?g 2] d(1,2) by simp
  then have "(word_of_int ?g :: u32) = word_of_int (2 * d)" by simp
  then show "site + 4 + 2 * word_of_int d = patch" by (simp add: algebra_simps)
qed

lemma emit_sh2a_splice_cases:
  assumes "emit_sh2a_splice site patch = Inr sb"
  obtains d where "sh2a_bra_disp12 site patch = Some d" "sb_form sb = Sh2aShortBra"
      "sb_bytes sb = be16w (enc_bra (word_of_int d)) @ be16w enc_nop"
  | "sh2a_bra_disp12 site patch = None" "aligned4 site" "sb = emit_sh2a_long_splice site patch"
  using assms by (auto simp: emit_sh2a_splice_def aligned4_def split: if_splits option.splits)

lemma sh2a_short_step:
  assumes "sh2a_bra_disp12 site patch = Some d" "sh_pc s = site"
    and "loaded (sh_mem s) site (be16w (enc_bra (word_of_int d)) @ be16w enc_nop)"
  shows "step f s = Some (s\<lparr>sh_pc := patch\<rparr>)"
proof -
  note b = sh2a_bra_disp12_SomeD [OF assms(1)]
  have "fetch (sh_mem s) site = Some (Bra (word_of_int d AND 0x0FFF))" "fetch (sh_mem s) (site + 2) = Some Nop"
    using fetch_be16w [of "sh_mem s" site "enc_bra (word_of_int d)" "be16w enc_nop"]
      fetch_be16w(1) [of "sh_mem s" "site + 2" enc_nop "[]"] assms(3) by simp_all
  moreover have "bra_target site (word_of_int d AND 0x0FFF) = patch"
    using b scast_word_of_int_12 [of d] by (simp add: bra_target_def)
  ultimately show ?thesis using assms(2) by (simp add: step_def branch_delayed_def)
qed

lemma sh2a_splice_jump:
  assumes "emit_sh2a_splice site patch = Inr sb" "loaded (sh_mem s) site (sb_bytes sb)" "sh_pc s = site"
  shows "reaches f s ((if sb_form sb = Sh2aShortBra then s else set_r 0 patch s)\<lparr>sh_pc := patch\<rparr>)"
  using assms(1)
proof (cases rule: emit_sh2a_splice_cases)
  case (1 d)
  from sh2a_short_step [OF 1(1) assms(3)] assms(2) 1(2,3) show ?thesis by (auto intro: reaches_step)
next
  case 2
  let ?rest = "be16w enc_nop @ be32 patch" and ?mem = "sh_mem s"
  let ?s1 = "(set_r 0 patch s)\<lparr>sh_pc := site + 2\<rparr>"
  have l: "loaded ?mem site (be16w (enc_mov_l_at_pc_r0 1) @ be16w (enc_jmp_at_reg 0) @ be16w enc_nop @ ?rest)"
    using assms(2) 2(3) by (simp add: emit_sh2a_long_splice_def)
  note f1 = fetch_be16w [OF l]
  note f2 = fetch_be16w [OF f1(2)]
  note f3 = fetch_be16w [OF f2(2)]
  note f4 = fetch_be16w [OF f3(2)]
  have lit: "load32 ?mem (site + 8) = patch" using load32_be32 [OF f4(2)] by (simp add: add.assoc)
  have al: "(site + 4) AND NOT 3 = site + 4" using aligned_offset [OF 2(2), of 4] by simp
  have "step f s = Some ?s1"
    using f1(1) assms(3) lit al by (simp add: step_def add.assoc)
  moreover have "step f ?s1 = Some ((set_r 0 patch s)\<lparr>sh_pc := patch\<rparr>)"
    using f2(1) f3(1) by (simp add: step_def branch_delayed_def set_r_def add.assoc)
  moreover have "sb_form sb = Sh2aLongJmp" using 2(3) by (simp add: emit_sh2a_long_splice_def)
  ultimately show ?thesis using reaches_step [of f s ?s1] reaches_step [of f ?s1] by simp
qed

lemma smod_2_eq: "x smod 2 = 0 \<longleftrightarrow> even x" for x :: int
  by (auto simp: signed_modulo_int_def sgn_if even_iff_mod_2_eq_zero [symmetric])

lemma even_uint: "w AND 1 = 0 \<Longrightarrow> even (uint w)" for w :: u32
  using bit_uint_iff [of w 0] by (simp add: and_one_eq bit_0 even_iff_mod_2_eq_zero [where 'a = u32])

lemma sh2a_splice_form:
  assumes "emit_sh2a_splice site patch = Inr sb"
  shows "sb_form sb = Sh2aShortBra \<longleftrightarrow> uint patch - uint site \<in> {-4092..4098}"
proof -
  let ?g = "uint patch - uint site - 4"
  have "even (uint site)" "even (uint patch)"
    using assms even_uint by (auto simp: emit_sh2a_splice_def simp del: and_one_eq even_mod_2_iff split: if_splits)
  then have g: "?g smod 2 = 0" by (simp add: smod_2_eq)
  then have "?g = 2 * (?g sdiv 2)" using sdiv_mult_smod_eq [of ?g 2] by simp
  then have "?g sdiv 2 \<in> {-2048..2047} \<longleftrightarrow> uint patch - uint site \<in> {-4092..4098}" by auto
  moreover have "sb_form sb = Sh2aShortBra \<longleftrightarrow> ?g sdiv 2 \<in> {-2048..2047}"
    using assms g by (auto simp: emit_sh2a_splice_def sh2a_bra_disp12_def emit_sh2a_long_splice_def Let_def
        split: if_splits option.splits)
  ultimately show ?thesis by blast
qed

section \<open>The RH850 splice jumps\<close>

lemma field_nat: "field lo n w = unat w div 2 ^ lo mod 2 ^ n"
  unfolding field_def unsigned_take_bit_eq unat_drop_bit_eq by (simp add: take_bit_eq_mod drop_bit_eq_div)

lemma load_le16_bytes:
  assumes "loaded mem a (le16_bytes w @ rest)"
  shows "load_le16 mem a = w" "loaded mem (a + 2) rest"
proof -
  have m: "(0xFF :: u16) = mask 8" by (simp add: mask_eq_exp_minus_1)
  have "load_le16 mem a = ucast (ucast (w AND 0xFF) :: u8) OR push_bit 8 (ucast (ucast (drop_bit 8 w AND 0xFF) :: u8))"
    using assms by (simp add: load_le16_def le16_bytes_def loaded_cons)
  also have "\<dots> = w" unfolding m
    by (rule bit_word_eqI)
      (auto simp: bit_or_iff bit_push_bit_iff bit_ucast_iff bit_and_iff bit_mask_iff bit_drop_bit_eq)
  finally show "load_le16 mem a = w" .
  have "loaded mem (a + of_nat (length (le16_bytes w))) rest" using assms unfolding loaded_append by (rule conjunct2)
  then show "loaded mem (a + 2) rest" by (simp add: le16_bytes_def)
qed

lemma jr_fields:
  "field 6 10 (enc_jr_hw1 x) = 0x1E" "field 5 6 (enc_jr_hw1 x) \<notin> {0x32, 0x31, 0x30, 0x06, 0x03}"
  "field 0 1 (enc_jr_hw2 x) = 0"
proof -
  have m: "(0x3F :: u32) = mask 6" by (simp add: mask_eq_exp_minus_1)
  have "drop_bit 6 (ucast (y AND mask 6) :: u16) = 0" for y :: u32
    by (rule bit_word_eqI) (simp add: bit_drop_bit_eq bit_ucast_iff bit_and_iff bit_mask_iff)
  then have "drop_bit 6 (enc_jr_hw1 x) = 0x1E" unfolding enc_jr_hw1_def m drop_bit_or by simp
  then have "unat (drop_bit 6 (enc_jr_hw1 x)) = 30" by simp
  then have d: "unat (enc_jr_hw1 x) div 64 = 30" unfolding unat_drop_bit_eq by (simp add: drop_bit_eq_div)
  then show "field 6 10 (enc_jr_hw1 x) = 0x1E" by (simp add: field_nat)
  have "unat (enc_jr_hw1 x) div 32 div 2 = 30" using d by (simp add: div_mult2_eq [symmetric])
  then have "unat (enc_jr_hw1 x) div 32 \<in> {60, 61}" by (simp; arith)
  then show "field 5 6 (enc_jr_hw1 x) \<notin> {0x32, 0x31, 0x30, 0x06, 0x03}" by (auto simp: field_nat)
  have "\<not> bit (enc_jr_hw2 x) 0" by (simp only: enc_jr_hw2_def bit_ucast_iff bit_and_iff) simp
  then have "take_bit 1 (enc_jr_hw2 x) = 0" by (simp add: take_bit_Suc bit_0 even_iff_mod_2_eq_zero)
  then show "field 0 1 (enc_jr_hw2 x) = 0" by (simp add: field_def)
qed

lemma rh850_jr_disp22_SomeD:
  assumes "rh850_jr_disp22 site patch = Some d"
  shows "- 2097152 \<le> d" "d < 2097152" "even d" "site + word_of_int d = patch"
  using assms by (auto simp: rh850_jr_disp22_def Let_def and_one_eq mod_2_eq_odd split: if_splits)

lemma jr_displacement:
  assumes "- 2097152 \<le> d" "d < 2097152" "even d"
  shows "scast (ucast (push_bit 16 (ucast (take_bit 6 (enc_jr_hw1 (word_of_int d))) :: u32) OR
     ucast (enc_jr_hw2 (word_of_int d))) :: 22 word) = (word_of_int d :: u32)"
proof -
  have m: "(0x3F :: u32) = mask 6" "(0xFFFE :: u32) = mask 16 AND NOT 1" by (simp_all add: mask_eq_exp_minus_1)
  have hi: "take_bit 6 (enc_jr_hw1 (word_of_int d)) = ucast (take_bit 6 (signed_drop_bit 16 (word_of_int d :: u32)))"
  proof -
    have "take_bit 6 (0x780 :: u16) = 0" by simp
    then have "take_bit 6 (enc_jr_hw1 (word_of_int d)) = take_bit 6 (ucast (take_bit 6 (signed_drop_bit 16 (word_of_int d :: u32))))"
      unfolding enc_jr_hw1_def m(1) take_bit_or by (simp add: take_bit_eq_mask)
    also have "\<dots> = ucast (take_bit 6 (signed_drop_bit 16 (word_of_int d :: u32)))"
      by (rule bit_word_eqI) (auto simp: bit_take_bit_iff bit_ucast_iff)
    finally show ?thesis .
  qed
  have "(ucast (push_bit 16 (ucast (take_bit 6 (enc_jr_hw1 (word_of_int d))) :: u32) OR
      ucast (enc_jr_hw2 (word_of_int d))) :: 22 word) = word_of_int d"
  proof (rule bit_word_eqI)
    fix n :: nat assume n: "n < LENGTH(22)"
    have "\<not> bit d 0" using assms(3) by (simp add: bit_0)
    with n show "bit (ucast (push_bit 16 (ucast (take_bit 6 (enc_jr_hw1 (word_of_int d))) :: u32) OR
        ucast (enc_jr_hw2 (word_of_int d))) :: 22 word) n = bit (word_of_int d :: 22 word) n"
      unfolding hi enc_jr_hw2_def m(2)
      by (cases "n < 16"; cases "n = 0")
        (auto simp: bit_ucast_iff bit_or_iff bit_push_bit_iff bit_take_bit_iff bit_signed_drop_bit_iff
          bit_word_of_int_iff bit_and_iff bit_mask_iff bit_not_iff bit_1_iff)
  qed
  moreover have "sint (word_of_int d :: 22 word) = d"
    using assms by (simp add: signed_of_int signed_take_bit_int_eq_self)
  ultimately show ?thesis by (metis of_int_sint)
qed

lemma split_imm32_sum:
  assumes "split_imm32 v = (hi, lo)"
  shows "push_bit 16 (ucast hi) + scast lo = v"
proof -
  let ?h = "ucast (drop_bit 16 v) :: u16"
  have m: "(0xFFFF :: u32) = mask 16" "(0x8000 :: u16) = push_bit 15 1" by (simp_all add: mask_eq_exp_minus_1)
  have cut: "(ucast (w AND mask 16) :: u16) = ucast w" for w :: u32
    by (rule bit_word_eqI) (simp add: bit_ucast_iff bit_and_iff bit_mask_iff)
  have top: "lo AND push_bit 15 1 \<noteq> 0 \<longleftrightarrow> bit lo 15" by (simp add: bit_iff_and_push_bit_not_eq_0)
  have lo: "lo = ucast v" and hi: "hi = (if bit lo 15 then ?h + 1 else ?h)"
    using assms unfolding split_imm32_def Let_def m cut by (auto simp flip: top)
  have parts: "push_bit 16 (ucast ?h) + ucast lo = v"
  proof -
    have "push_bit 16 (ucast ?h) AND (ucast lo :: u32) = 0" "push_bit 16 (ucast ?h) OR ucast lo = v" unfolding lo
      by (rule bit_word_eqI, auto simp: bit_and_iff bit_or_iff bit_push_bit_iff bit_ucast_iff bit_drop_bit_eq)+
    then show ?thesis by (simp add: disjunctive_add_eq_or)
  qed
  have wrap: "push_bit 16 (ucast (word_of_int a :: u16) :: u32) = word_of_int a * 2 ^ 16" for a
    unfolding push_bit_eq_mult [symmetric]
    by (rule bit_word_eqI) (auto simp: bit_push_bit_iff bit_ucast_iff bit_word_of_int_iff)
  have carry: "push_bit 16 (ucast (?h + 1) :: u32) = push_bit 16 (ucast ?h) + 2 ^ 16"
    using wrap [of "uint ?h + 1"] wrap [of "uint ?h"] by (simp add: distrib_right)
  have "take_bit 16 (uint lo) = uint lo" by (rule take_bit_int_eq_self) (use uint_lt2p [of lo] in simp_all)
  then have "sint lo = uint lo - 2 ^ 16 * of_bool (bit lo 15)"
    by (simp add: sint_uint signed_take_bit_eq_take_bit_minus bit_unsigned_iff)
  then have "(scast lo :: u32) = word_of_int (uint lo - 2 ^ 16 * of_bool (bit lo 15))" by (metis of_int_sint)
  then have sc: "(scast lo :: u32) = ucast lo - 2 ^ 16 * of_bool (bit lo 15)" by simp
  have "push_bit 16 (ucast hi) = push_bit 16 (ucast ?h) + (2 ^ 16 :: u32) * of_bool (bit lo 15)"
    using carry hi by (cases "bit lo 15") simp_all
  then have "push_bit 16 (ucast hi) + scast lo = push_bit 16 (ucast ?h) + (ucast lo :: u32)"
    unfolding sc by (simp only: algebra_simps)
  then show ?thesis using parts by simp
qed

lemma rh850_short_jump:
  assumes "emit_rh850_splice site patch = Inr sb" "sb_form sb = Rh850ShortJr"
    and "loaded (rh_mem s) site (sb_bytes sb)" "rh_pc s = site"
  shows "rh_step s = Some (s\<lparr>rh_pc := patch\<rparr>)"
proof -
  obtain d where Some: "rh850_jr_disp22 site patch = Some d"
      and sb: "sb_bytes sb = le16_bytes (enc_jr_hw1 (word_of_int d)) @ le16_bytes (enc_jr_hw2 (word_of_int d))"
    using assms(1,2) by (auto simp: emit_rh850_splice_def emit_rh850_long_splice_def split_beta
        split: if_splits option.splits)
  note d = rh850_jr_disp22_SomeD [OF Some]
  note f1 = load_le16_bytes [OF assms(3) [unfolded sb]]
  have f2: "load_le16 (rh_mem s) (site + 2) = enc_jr_hw2 (word_of_int d)"
    using load_le16_bytes(1) [of "rh_mem s" "site + 2" _ "[]"] f1(2) by simp
  show ?thesis
    using jr_fields d jr_displacement [OF d(1-3)] assms(4) f1(1) f2
    unfolding rh_step_def Let_def by simp
qed

text \<open>
  The long form. Its first two words are \<open>MOVEA\<close> and \<open>ADDI\<close>, one opcode below the \<open>MOVHI\<close> and
  \<open>MOVEA\<close> that the source names, and the last is \<open>ZXH r1\<close>.
\<close>

lemma rh850_long_run:
  assumes "loaded (rh_mem s) site (sb_bytes (emit_rh850_long_splice site patch))" "rh_pc s = site"
  shows "\<exists>x. rh_run 3 s = Some (s\<lparr>rh_r := (rh_r s)(1 := x AND 0xFFFF), rh_pc := site + 10\<rparr>)"
proof -
  obtain hi lo where i: "split_imm32 patch = (hi, lo)" by force
  let ?mem = "rh_mem s"
  have w: "enc_movhi_hw1 0 1 = 0x0E20" "enc_movea_hw1 1 1 = 0x0E01" "enc_jmp_reg 1 = 0xC1"
    by (simp_all add: enc_movhi_hw1_def enc_movea_hw1_def enc_jmp_reg_def)
  have l: "loaded ?mem site (le16_bytes 0x0E20 @ le16_bytes hi @ le16_bytes 0x0E01 @ le16_bytes lo @ le16_bytes 0xC1 @ [])"
    using assms(1) i w by (simp add: emit_rh850_long_splice_def)
  note f1 = load_le16_bytes [OF l]
  note f2 = load_le16_bytes [OF f1(2)]
  note f3 = load_le16_bytes [OF f2(2)]
  note f4 = load_le16_bytes [OF f3(2)]
  note f5 = load_le16_bytes [OF f4(2)]
  let ?s1 = "s\<lparr>rh_r := (rh_r s)(1 := scast hi), rh_pc := site + 4\<rparr>"
  let ?s2 = "s\<lparr>rh_r := (rh_r s)(1 := scast hi + scast lo), rh_pc := site + 8\<rparr>"
  let ?s3 = "s\<lparr>rh_r := (rh_r s)(1 := (scast hi + scast lo) AND 0xFFFF), rh_pc := site + 10\<rparr>"
  have "rh_step s = Some ?s1"
    using f1(1) f2(1) assms(2) unfolding rh_step_def Let_def by (simp add: field_nat rh_read_def)
  moreover have "rh_step ?s1 = Some ?s2"
    using f3(1) f4(1) unfolding rh_step_def Let_def by (simp add: field_nat rh_read_def add.assoc)
  moreover have "rh_step ?s2 = Some ?s3"
    using f5(1) unfolding rh_step_def Let_def by (simp add: field_nat rh_read_def add.assoc)
  ultimately have "rh_run 3 s = Some ?s3" by (simp add: numeral_eq_Suc)
  then show ?thesis by blast
qed

section \<open>Properties\<close>

text \<open>An SH-2A splice sends the processor to the patch. When the emitter returns bytes and the machine
  is about to execute them at the splice address, it reaches the patch address with memory and every
  register as they were, R0 excepted in the long form, which holds the patch address. The short form
  covers targets from 4092 bytes below to 4098 above, the long form every other even address from a
  4-aligned splice address.\<close>

theorem sh2a_splice_jumps:
  assumes "emit_sh2a_splice site patch = Inr sb" "loaded (sh_mem s) site (sb_bytes sb)" "sh_pc s = site"
  shows "reaches f s ((if sb_form sb = Sh2aShortBra then s else set_r 0 patch s)\<lparr>sh_pc := patch\<rparr>) \<and>
    (sb_form sb = Sh2aShortBra \<longleftrightarrow> uint patch - uint site \<in> {-4092..4098})"
proof
  show "reaches f s ((if sb_form sb = Sh2aShortBra then s else set_r 0 patch s)\<lparr>sh_pc := patch\<rparr>)"
    using assms by (rule sh2a_splice_jump)
  show "sb_form sb = Sh2aShortBra \<longleftrightarrow> uint patch - uint site \<in> {-4092..4098}"
    using assms(1) by (rule sh2a_splice_form)
qed

text \<open>C39: An RH850 splice sends the processor to the patch only in its short form. The \<open>JR\<close> form jumps to
  the patch in one step with every register and all memory unchanged. The long form never jumps: its
  words are \<open>MOVEA\<close>, \<open>ADDI\<close> and \<open>ZXH\<close> instead of \<open>MOVHI\<close>, \<open>MOVEA\<close> and \<open>JMP\<close>, so that the processor clobbers
  r1 and runs on into the two bytes after the splice, whatever the target.\<close>

theorem rh850_splice_jumps_only_short:
  assumes "emit_rh850_splice site patch = Inr sb" "loaded (rh_mem s) site (sb_bytes sb)" "rh_pc s = site"
  shows "if sb_form sb = Rh850ShortJr then rh_step s = Some (s\<lparr>rh_pc := patch\<rparr>)
    else \<exists>x. rh_run 3 s = Some (s\<lparr>rh_r := (rh_r s)(1 := x AND 0xFFFF), rh_pc := site + 10\<rparr>)"
proof (cases "sb_form sb = Rh850ShortJr")
  case True
  with rh850_short_jump [OF assms(1) True assms(2,3)] show ?thesis by simp
next
  case False
  with assms(1) have "sb = emit_rh850_long_splice site patch"
    by (auto simp: emit_rh850_splice_def split: if_splits option.splits)
  with rh850_long_run assms(2,3) False show ?thesis by simp
qed

end
