(* ===== verification/Patch_Manifest.thy ===== *)
theory Patch_Manifest
  imports Patch_Splice
begin

text \<open>
  The manifest that the patch inserter leaves in the ROM (src/feature_patch/src/manifest.cpp): eight
  bytes per record, big-endian, closed by an all-zero record.
\<close>

record manifest_record =
  mr_target_address :: u32
  mr_type :: u8
  mr_op :: u8
  mr_length_bytes :: u16

datatype manifest_type = NormalPatch | VerifyOnly | TerminatorType

primrec manifest_type_byte :: "manifest_type \<Rightarrow> u8" where
  "manifest_type_byte NormalPatch = 0x10"
| "manifest_type_byte VerifyOnly = 0x30"
| "manifest_type_byte TerminatorType = 0xFF"

definition is_terminator :: "manifest_record \<Rightarrow> bool" where
  "is_terminator r \<longleftrightarrow> mr_target_address r = 0 \<and> mr_type r = 0 \<and> mr_op r = 0 \<and> mr_length_bytes r = 0"

definition kRecordSize :: nat where
  "kRecordSize = 8"

definition manifest_u32_be :: "bytes \<Rightarrow> u32" where
  "manifest_u32_be src = push_bit 24 (ucast (src ! 0)) OR push_bit 16 (ucast (src ! 1)) OR
     push_bit 8 (ucast (src ! 2)) OR ucast (src ! 3)"

definition manifest_u16_be :: "bytes \<Rightarrow> u16" where
  "manifest_u16_be src = push_bit 8 (ucast (src ! 0)) OR ucast (src ! 1)"

definition encode_record :: "manifest_record \<Rightarrow> bytes" where
  "encode_record r = be32 (mr_target_address r) @ [mr_type r, mr_op r] @ be16_bytes (mr_length_bytes r)"

definition decode_record :: "bytes \<Rightarrow> manifest_record" where
  "decode_record src = \<lparr>mr_target_address = manifest_u32_be src, mr_type = src ! 4, mr_op = src ! 5,
     mr_length_bytes = manifest_u16_be (drop 6 src)\<rparr>"

definition encode_manifest :: "manifest_record list \<Rightarrow> bytes" where
  "encode_manifest records = concat (map encode_record records) @ replicate kRecordSize 0"

text \<open>The loop of \<open>decode\<close>; \<open>None\<close> when the input runs out without a terminator.\<close>

function decode_records :: "bytes \<Rightarrow> manifest_record list option" where
  "decode_records bs =
     (if bs = [] then None
      else let r = decode_record bs in
        if is_terminator r then Some []
        else map_option ((#) r) (decode_records (drop kRecordSize bs)))"
  by pat_completeness auto
termination by (relation "measure length") (auto simp: kRecordSize_def)

declare decode_records.simps [simp del]

definition decode_manifest :: "bytes \<Rightarrow> manifest_record list result" where
  "decode_manifest bs =
     (if length bs mod kRecordSize \<noteq> 0 then
        failure ParseError (''feature_patch::decode: byte length '' @ dec_string (length bs) @
          '' is not a multiple of '' @ dec_string kRecordSize)
      else (case decode_records bs of
          Some rs \<Rightarrow> Inr rs
        | None \<Rightarrow> failure ParseError (''feature_patch::decode: ran out of input without finding a '' @
            ''terminator record (a manifest must be self-terminated; the '' @
            ''all-zero sentinel marks the end of scannable records)'')))"

section \<open>Records\<close>

lemma length_encode_record [simp]: "length (encode_record r) = 8"
  by (simp add: encode_record_def)

lemma length_encode_manifest: "length (encode_manifest rs) = (length rs + 1) * kRecordSize"
  by (induction rs) (simp_all add: encode_manifest_def kRecordSize_def)

lemma manifest_u32_be_be32: "manifest_u32_be (be32 v @ rest) = v"
proof -
  let ?m = "\<lambda>a :: u32. (be32 v @ rest) ! unat a"
  have "loaded ?m 0 (be32 v)" by (auto simp: loaded_def nth_append unat_of_nat take_bit_eq_mod)
  from load32_be32 [OF this] show ?thesis by (simp add: load32_def manifest_u32_be_def)
qed

lemma manifest_u16_be_be16w: "manifest_u16_be (be16w v @ rest) = v"
proof -
  let ?m = "\<lambda>a :: u32. (be16w v @ rest) ! unat a"
  have "loaded ?m 0 (be16w v)" by (auto simp: loaded_def nth_append unat_of_nat take_bit_eq_mod)
  from load16_be16w [OF this] show ?thesis by (simp add: load16_def manifest_u16_be_def)
qed

lemma decode_encode_record: "decode_record (encode_record r @ rest) = r"
proof -
  have "length (be32 (mr_target_address r)) = 4" by simp
  then show ?thesis
    by (simp add: decode_record_def encode_record_def manifest_u32_be_be32 manifest_u16_be_be16w nth_append
        numeral_eq_Suc)
qed

lemma decode_terminator: "is_terminator (decode_record (replicate kRecordSize 0 @ rest))"
  by (simp add: is_terminator_def decode_record_def manifest_u32_be_def manifest_u16_be_def kRecordSize_def numeral_eq_Suc)

lemma decode_records_encode:
  "decode_records (concat (map encode_record rs) @ replicate kRecordSize 0 @ rest) =
     Some (takeWhile (\<lambda>r. \<not> is_terminator r) rs)"
proof (induction rs)
  case Nil
  show ?case using decode_terminator by (subst decode_records.simps) (simp add: kRecordSize_def Let_def)
next
  case (Cons r rs)
  have "encode_record r \<noteq> []" by (metis length_encode_record list.size(3) zero_neq_numeral)
  with Cons show ?case
    by (subst decode_records.simps) (simp add: Let_def decode_encode_record kRecordSize_def)
qed

section \<open>Properties\<close>

text \<open>A manifest survives its round trip through the ROM. Decoding what \<open>encode\<close> wrote, followed by
  any padding that keeps the length a multiple of eight, gives back the records, up to the first one
  that is itself all zero; an encoded manifest takes eight bytes per record and eight for the
  terminator.\<close>

theorem manifest_round_trip:
  assumes "length padding mod 8 = 0"
  shows "decode_manifest (encode_manifest rs @ padding) = Inr (takeWhile (\<lambda>r. \<not> is_terminator r) rs) \<and>
    length (encode_manifest rs) = 8 * (length rs + 1)"
proof -
  have "length (encode_manifest rs) = 8 * (length rs + 1)"
    by (simp add: length_encode_manifest kRecordSize_def)
  moreover from this have "length (encode_manifest rs @ padding) mod kRecordSize = 0"
    using assms by (simp add: kRecordSize_def) presburger
  ultimately show ?thesis
    using decode_records_encode [of rs padding] by (simp add: decode_manifest_def encode_manifest_def)
qed

lemma manifest_round_trip_witness:
  "decode_manifest (encode_manifest [\<lparr>mr_target_address = 0x1000, mr_type = 0x10, mr_op = 1, mr_length_bytes = 76\<rparr>] @
     replicate 16 0xFF) = Inr [\<lparr>mr_target_address = 0x1000, mr_type = 0x10, mr_op = 1, mr_length_bytes = 76\<rparr>]"
  using manifest_round_trip [of "replicate 16 0xFF"
      "[\<lparr>mr_target_address = 0x1000, mr_type = 0x10, mr_op = 1, mr_length_bytes = 76\<rparr>]"]
  by (simp add: is_terminator_def)

end
