(* ===== verification/Patch_Insert.thy ===== *)
theory Patch_Insert
  imports Patch_Manifest Codegen_Sh2a
begin

text \<open>
  The patch inserter (src/feature_patch/src/inserter.cpp): it places the code of every hook in the
  writable flash, overwrites each splice point with a jump to it and leaves a manifest of what it wrote.
\<close>

record patched_rom =
  pr_bytes :: bytes
  pr_manifest :: "manifest_record list"
  pr_manifest_address :: u32
  pr_tuner_tag :: string

text \<open>The local variables of \<open>apply\<close>: the output buffer, the allocator and the records.\<close>

record apply_state =
  as_bytes :: bytes
  as_alloc :: rom_allocator
  as_records :: "manifest_record list"

section \<open>apply\<close>

definition put :: "bytes \<Rightarrow> nat \<times> bytes \<Rightarrow> bytes" where
  "put rom w = take (fst w) rom @ snd w @ drop (fst w + length (snd w)) rom"

definition write_bytes :: "bytes \<Rightarrow> u32 \<Rightarrow> bytes \<Rightarrow> bytes result" where
  "write_bytes dst addr src =
     (if unat addr + length src > length dst then
        failure InvalidArgument (''feature_patch::apply: write at 0x'' @ hex_fixed 8 (unat addr) @
          '' length '' @ dec_string (length src) @ '' extends past source_rom size '' @
          dec_string (length dst))
      else Inr (put dst (unat addr, src)))"

definition emit_splice :: "arch \<Rightarrow> u32 \<Rightarrow> u32 \<Rightarrow> splice_bytes result" where
  "emit_splice arch splice_address patch_address =
     (case arch of
        ArchSh2a \<Rightarrow> emit_sh2a_splice splice_address patch_address
      | ArchRh850 \<Rightarrow> emit_rh850_splice splice_address patch_address
      | ArchUnknown \<Rightarrow>
          failure InvalidArgument (''feature_patch::apply: PatchObject.arch is Unknown '' @ em_dash @
            '' the backend that produced it didn'' @ [CHR 0x27] @ ''t set the arch field''))"

definition patch_record :: "u32 \<Rightarrow> nat \<Rightarrow> manifest_record" where
  "patch_record address n = \<lparr>mr_target_address = address, mr_type = manifest_type_byte NormalPatch,
     mr_op = 0x01, mr_length_bytes = of_nat n\<rparr>"

definition apply_hook :: "arch \<Rightarrow> hook_patch \<Rightarrow> apply_state \<Rightarrow> apply_state result" where
  "apply_hook arch hook st =
     (if hp_code hook = [] then Inr st
      else (case rom_alloc_claim (as_alloc st) (of_nat (length (hp_code hook))) 4 of
          (Inl e, _) \<Rightarrow>
            failure OutOfRange (''feature_patch::apply: ROM allocator exhausted for '' @
              ''hook '' @ quoted (hp_symbol hook) @ '' (need '' @ dec_string (length (hp_code hook)) @
              '' bytes) '' @ em_dash @ '' '' @ error_to_string e)
        | (Inr claim, alloc) \<Rightarrow>
            (case write_bytes (as_bytes st) (cl_address claim) (hp_code hook) of
               Inl e \<Rightarrow> Inl e
             | Inr bs \<Rightarrow>
                 (case emit_splice arch (ucast (hp_splice_address hook)) (cl_address claim) of
                    Inl e \<Rightarrow>
                      failure (err_code e) (''feature_patch::apply: splice emit failed for hook '' @
                        quoted (hp_symbol hook) @ '' at splice_address 0x'' @
                        hex_min8 (unat (hp_splice_address hook)) @ '': '' @ error_to_string e)
                  | Inr sp \<Rightarrow>
                      (case write_bytes bs (sb_splice_address sp) (sb_bytes sp) of
                         Inl e \<Rightarrow> Inl e
                       | Inr bs' \<Rightarrow>
                           Inr \<lparr>as_bytes = bs', as_alloc = alloc,
                              as_records = as_records st @
                                [patch_record (cl_address claim) (length (hp_code hook)),
                                 patch_record (sb_splice_address sp) (length (sb_bytes sp))]\<rparr>)))))"

fun apply_hooks :: "arch \<Rightarrow> hook_patch list \<Rightarrow> apply_state \<Rightarrow> apply_state result" where
  "apply_hooks arch [] st = Inr st"
| "apply_hooks arch (hook # hooks) st =
     (case apply_hook arch hook st of
        Inl e \<Rightarrow> Inl e
      | Inr st' \<Rightarrow> apply_hooks arch hooks st')"

definition apply_patch :: "patch_object \<Rightarrow> bytes \<Rightarrow> rom_region list \<Rightarrow> string \<Rightarrow> patched_rom result" where
  "apply_patch patch source_rom regions tuner_tag =
     (if po_arch patch = ArchUnknown then
        failure InvalidArgument ''feature_patch::apply: PatchObject.arch is Unknown''
      else if regions = [] then
        failure InvalidArgument (''feature_patch::apply: at least one writable code region '' @
          ''is required (a pack without [[writable_region]] kind = '' @
          [CHR 0x22] @ ''code'' @ [CHR 0x22] @ '' cannot accept compiled patches)'')
      else (case apply_hooks (po_arch patch) (po_hooks patch)
          \<lparr>as_bytes = source_rom, as_alloc = rom_allocator regions, as_records = []\<rparr> of
          Inl e \<Rightarrow> Inl e
        | Inr st \<Rightarrow>
            let encoded = encode_manifest (as_records st) in
            (case rom_alloc_claim (as_alloc st) (of_nat (length encoded)) 4 of
               (Inl e, _) \<Rightarrow>
                 failure OutOfRange (''feature_patch::apply: ROM allocator exhausted for '' @
                   ''manifest (need '' @ dec_string (length encoded) @ '' bytes) '' @ em_dash @ '' '' @
                   error_to_string e)
             | (Inr claim, _) \<Rightarrow>
                 (case write_bytes (as_bytes st) (cl_address claim) encoded of
                    Inl e \<Rightarrow> Inl e
                  | Inr bs \<Rightarrow>
                      Inr \<lparr>pr_bytes = bs, pr_manifest = as_records st,
                        pr_manifest_address = cl_address claim, pr_tuner_tag = tuner_tag\<rparr>))))"

section \<open>Writing into an image\<close>

definition extent :: "nat \<times> bytes \<Rightarrow> nat set" where
  "extent w = {fst w ..< fst w + length (snd w)}"

definition in_bounds :: "bytes \<Rightarrow> nat \<times> bytes \<Rightarrow> bool" where
  "in_bounds rom w \<longleftrightarrow> fst w + length (snd w) \<le> length rom"

definition holds :: "bytes \<Rightarrow> nat \<times> bytes \<Rightarrow> bool" where
  "holds rom w \<longleftrightarrow> in_bounds rom w \<and> take (length (snd w)) (drop (fst w) rom) = snd w"

lemma length_put [simp]: "in_bounds rom w \<Longrightarrow> length (put rom w) = length rom"
  by (simp add: put_def in_bounds_def)

lemma nth_put:
  assumes "in_bounds rom w"
  shows "put rom w ! i = (if i \<in> extent w then snd w ! (i - fst w) else rom ! i)"
proof -
  have "i - fst w - length (snd w) + (fst w + length (snd w)) = i" if "fst w + length (snd w) \<le> i"
    using that by simp
  with assms show ?thesis
    by (auto simp: put_def extent_def in_bounds_def nth_append)
qed

lemma holds_iff_nth:
  "holds rom w \<longleftrightarrow> in_bounds rom w \<and> (\<forall>i \<in> extent w. rom ! i = snd w ! (i - fst w))"
proof -
  have "take (length (snd w)) (drop (fst w) rom) = snd w \<longleftrightarrow>
      (\<forall>k < length (snd w). rom ! (fst w + k) = snd w ! k)" if "in_bounds rom w"
    using that by (auto simp: list_eq_iff_nth_eq in_bounds_def)
  moreover have "(\<forall>k < length (snd w). rom ! (fst w + k) = snd w ! k) \<longleftrightarrow>
      (\<forall>i \<in> extent w. rom ! i = snd w ! (i - fst w))"
    by (force simp: extent_def dest: le_Suc_ex)
  ultimately show ?thesis by (auto simp: holds_def)
qed

lemma in_bounds_put [simp]: "in_bounds rom w \<Longrightarrow> in_bounds (put rom w) v \<longleftrightarrow> in_bounds rom v"
  by (simp add: in_bounds_def [of _ v])

lemma puts_other:
  assumes "\<forall>w \<in> set ws. in_bounds rom w"
  shows "length (foldl put rom ws) = length rom"
    "i \<notin> (\<Union>w \<in> set ws. extent w) \<Longrightarrow> foldl put rom ws ! i = rom ! i"
  using assms by (induction ws arbitrary: rom) (auto simp: nth_put)

lemma puts_hold:
  assumes "\<forall>w \<in> set ws. in_bounds rom w" "sorted_wrt (\<lambda>v w. extent v \<inter> extent w = {}) ws" "w \<in> set ws"
  shows "holds (foldl put rom ws) w"
  using assms
proof (induction ws arbitrary: rom)
  case (Cons v ws)
  show ?case
  proof (cases "w \<in> set ws")
    case True
    with Cons show ?thesis by simp
  next
    case False
    with Cons.prems have w: "w = v" "\<forall>u \<in> set ws. extent v \<inter> extent u = {}" "in_bounds rom v"
        "\<forall>u \<in> set ws. in_bounds (put rom v) u"
      by auto
    have "foldl put (put rom v) ws ! i = snd v ! (i - fst v)" if "i \<in> extent v" for i
      using puts_other(2) [OF w(4), of i] w(2) that nth_put [OF w(3), of i] by auto
    moreover have "in_bounds (foldl put (put rom v) ws) v"
      using puts_other(1) [OF w(4)] w(3) by (simp add: in_bounds_def)
    ultimately show ?thesis using w(1) by (simp add: holds_iff_nth)
  qed
qed simp

lemma write_bytes_Inr:
  "write_bytes dst addr src = Inr bs \<longleftrightarrow> in_bounds dst (unat addr, src) \<and> bs = put dst (unat addr, src)"
  by (auto simp: write_bytes_def in_bounds_def)

section \<open>The layout of a patch\<close>

text \<open>A placement: a hook, the claim its code was written to and the jump at its splice point.\<close>

type_synonym placement = "hook_patch \<times> rom_claim \<times> splice_bytes"

definition has_code :: "hook_patch \<Rightarrow> bool" where
  "has_code h \<longleftrightarrow> hp_code h \<noteq> []"

definition splice_site :: "hook_patch \<Rightarrow> u32" where
  "splice_site h = ucast (hp_splice_address h)"

definition code_request :: "hook_patch \<Rightarrow> u64 \<times> u64" where
  "code_request h = (of_nat (length (hp_code h)), 4)"

fun placement_writes :: "placement \<Rightarrow> (nat \<times> bytes) list" where
  "placement_writes (h, c, sp) = [(unat (cl_address c), hp_code h), (unat (splice_site h), sb_bytes sp)]"

fun placement_records :: "placement \<Rightarrow> manifest_record list" where
  "placement_records (h, c, sp) = [patch_record (cl_address c) (length (hp_code h)),
     patch_record (splice_site h) (length (sb_bytes sp))]"

definition layout :: "arch \<Rightarrow> hook_patch list \<Rightarrow> apply_state \<Rightarrow> apply_state \<Rightarrow> placement list \<Rightarrow> bool" where
  "layout arch hooks st st' ps \<longleftrightarrow>
     map fst ps = filter has_code hooks \<and>
     (\<forall>(h, c, sp) \<in> set ps. emit_splice arch (splice_site h) (cl_address c) = Inr sp) \<and>
     (\<forall>w \<in> set (concat (map placement_writes ps)). in_bounds (as_bytes st) w) \<and>
     as_bytes st' = foldl put (as_bytes st) (concat (map placement_writes ps)) \<and>
     as_records st' = as_records st @ concat (map placement_records ps) \<and>
     (\<forall>reqs. grants rom_alloc_claim (as_alloc st) (map code_request (filter has_code hooks) @ reqs) =
        map (\<lambda>(h, c, sp). (code_request h, c)) ps @ grants rom_alloc_claim (as_alloc st') reqs)"

lemma emit_splice_fields:
  assumes "emit_splice arch site patch = Inr sp"
  shows "sb_splice_address sp = site" "sb_patch_address sp = patch" "length (sb_bytes sp) \<le> 12"
  using assms
  by (auto simp: emit_splice_def emit_sh2a_splice_def emit_rh850_splice_def emit_sh2a_long_splice_def
      emit_rh850_long_splice_def le16_bytes_def split: arch.splits if_splits option.splits prod.splits)

lemma apply_hook_InrD:
  assumes "apply_hook arch hook st = Inr st'" "has_code hook"
  obtains c alloc sp where
    "rom_alloc_claim (as_alloc st) (of_nat (length (hp_code hook))) 4 = (Inr c, alloc)"
    "emit_splice arch (splice_site hook) (cl_address c) = Inr sp"
    "\<forall>w \<in> set (placement_writes (hook, c, sp)). in_bounds (as_bytes st) w"
    "as_bytes st' = foldl put (as_bytes st) (placement_writes (hook, c, sp))" "as_alloc st' = alloc"
    "as_records st' = as_records st @ placement_records (hook, c, sp)"
proof -
  obtain r alloc where r: "rom_alloc_claim (as_alloc st) (of_nat (length (hp_code hook))) 4 = (r, alloc)" by force
  with assms obtain c where c: "r = Inr c" by (cases r) (auto simp: apply_hook_def has_code_def)
  with r assms obtain bs where bs: "write_bytes (as_bytes st) (cl_address c) (hp_code hook) = Inr bs"
    by (auto simp: apply_hook_def has_code_def split: sum.splits)
  with c r assms obtain sp where sp: "emit_splice arch (splice_site hook) (cl_address c) = Inr sp"
    by (auto simp: apply_hook_def has_code_def splice_site_def split: sum.splits)
  with bs c r assms obtain bs' where bs': "write_bytes bs (sb_splice_address sp) (sb_bytes sp) = Inr bs'"
    by (auto simp: apply_hook_def has_code_def splice_site_def split: sum.splits)
  note site = emit_splice_fields(1) [OF sp]
  have "st' = \<lparr>as_bytes = bs', as_alloc = alloc, as_records = as_records st @ placement_records (hook, c, sp)\<rparr>"
    using assms r c bs sp bs' site by (simp add: apply_hook_def has_code_def splice_site_def)
  with bs bs' r c sp site that show thesis by (auto simp: write_bytes_Inr)
qed

lemma apply_hooks_layout:
  assumes "apply_hooks arch hooks st = Inr st'"
  shows "\<exists>ps. layout arch hooks st st' ps"
  using assms
proof (induction hooks arbitrary: st)
  case Nil
  then show ?case by (intro exI [of _ "[]"]) (simp add: layout_def)
next
  case (Cons hook hooks)
  then obtain st1 where st1: "apply_hook arch hook st = Inr st1" "apply_hooks arch hooks st1 = Inr st'"
    by (auto split: sum.splits)
  from Cons.IH [OF st1(2)] obtain ps where ps: "layout arch hooks st1 st' ps" by blast
  show ?case
  proof (cases "has_code hook")
    case False
    then have "st1 = st" using st1(1) by (simp add: apply_hook_def has_code_def)
    with ps False have "layout arch (hook # hooks) st st' ps" by (simp add: layout_def)
    then show ?thesis by blast
  next
    case True
    obtain c alloc sp where step: "rom_alloc_claim (as_alloc st) (of_nat (length (hp_code hook))) 4 = (Inr c, alloc)"
        "emit_splice arch (splice_site hook) (cl_address c) = Inr sp"
        "\<forall>w \<in> set (placement_writes (hook, c, sp)). in_bounds (as_bytes st) w"
        "as_bytes st1 = foldl put (as_bytes st) (placement_writes (hook, c, sp))" "as_alloc st1 = alloc"
        "as_records st1 = as_records st @ placement_records (hook, c, sp)"
      using apply_hook_InrD [OF st1(1) True] .
    have len: "in_bounds (as_bytes st1) w \<longleftrightarrow> in_bounds (as_bytes st) w" for w
      using puts_other(1) [OF step(3)] step(4) by (simp add: in_bounds_def)
    have "layout arch (hook # hooks) st st' ((hook, c, sp) # ps)"
      using ps step True unfolding layout_def len
      by (simp add: code_request_def del: placement_writes.simps placement_records.simps) auto
    then show ?thesis by blast
  qed
qed

lemma apply_patch_InrD:
  assumes "apply_patch p rom regions tag = Inr out"
  obtains st ps c where
    "layout (po_arch p) (po_hooks p) \<lparr>as_bytes = rom, as_alloc = rom_allocator regions, as_records = []\<rparr> st ps"
    "po_arch p \<noteq> ArchUnknown" "regions \<noteq> []"
    "\<exists>alloc. rom_alloc_claim (as_alloc st) (of_nat (length (encode_manifest (as_records st)))) 4 = (Inr c, alloc)"
    "in_bounds (as_bytes st) (unat (cl_address c), encode_manifest (as_records st))"
    "out = \<lparr>pr_bytes = put (as_bytes st) (unat (cl_address c), encode_manifest (as_records st)),
       pr_manifest = as_records st, pr_manifest_address = cl_address c, pr_tuner_tag = tag\<rparr>"
proof -
  let ?st = "\<lparr>as_bytes = rom, as_alloc = rom_allocator regions, as_records = []\<rparr>"
  from assms obtain st where st: "apply_hooks (po_arch p) (po_hooks p) ?st = Inr st"
      and ok: "po_arch p \<noteq> ArchUnknown" "regions \<noteq> []"
    by (auto simp: apply_patch_def split: if_splits sum.splits)
  let ?e = "encode_manifest (as_records st)"
  obtain r alloc where r: "rom_alloc_claim (as_alloc st) (of_nat (length ?e)) 4 = (r, alloc)" by force
  with assms st ok obtain c where c: "r = Inr c" by (cases r) (auto simp: apply_patch_def Let_def)
  with r assms st ok obtain bs where bs: "write_bytes (as_bytes st) (cl_address c) ?e = Inr bs"
    by (auto simp: apply_patch_def Let_def split: sum.splits)
  obtain ps where "layout (po_arch p) (po_hooks p) ?st st ps" using apply_hooks_layout [OF st] by blast
  then show thesis
  proof (rule that)
    show "\<exists>alloc. rom_alloc_claim (as_alloc st) (of_nat (length ?e)) 4 = (Inr c, alloc)" using r c by blast
    show "in_bounds (as_bytes st) (unat (cl_address c), ?e)" using bs by (simp add: write_bytes_Inr)
    show "out = \<lparr>pr_bytes = put (as_bytes st) (unat (cl_address c), ?e), pr_manifest = as_records st,
        pr_manifest_address = cl_address c, pr_tuner_tag = tag\<rparr>"
      using assms st ok r c bs by (simp add: apply_patch_def Let_def write_bytes_Inr)
  qed (fact ok)+
qed

definition patch_writes :: "placement list \<Rightarrow> patched_rom \<Rightarrow> (nat \<times> bytes) list" where
  "patch_writes ps out = concat (map placement_writes ps) @
     [(unat (pr_manifest_address out), encode_manifest (pr_manifest out))]"

text \<open>Everything that a successful \<open>apply\<close> did.\<close>

definition applied :: "patch_object \<Rightarrow> bytes \<Rightarrow> rom_region list \<Rightarrow> patched_rom \<Rightarrow> placement list \<Rightarrow> rom_claim \<Rightarrow> bool" where
  "applied p rom regions out ps c \<longleftrightarrow>
     map fst ps = filter has_code (po_hooks p) \<and>
     (\<forall>(h, c, sp) \<in> set ps. emit_splice (po_arch p) (splice_site h) (cl_address c) = Inr sp) \<and>
     (\<forall>w \<in> set (patch_writes ps out). in_bounds rom w) \<and>
     pr_bytes out = foldl put rom (patch_writes ps out) \<and>
     pr_manifest out = concat (map placement_records ps) \<and>
     cl_address c = pr_manifest_address out \<and>
     grants rom_alloc_claim (rom_allocator regions)
         (map code_request (filter has_code (po_hooks p)) @ [(of_nat (length (encode_manifest (pr_manifest out))), 4)]) =
       map (\<lambda>(h, c, sp). (code_request h, c)) ps @ [((of_nat (length (encode_manifest (pr_manifest out))), 4), c)]"

lemma apply_patch_applied:
  assumes "apply_patch p rom regions tag = Inr out"
  obtains ps c where "applied p rom regions out ps c"
proof -
  obtain st ps c where st:
    "layout (po_arch p) (po_hooks p) \<lparr>as_bytes = rom, as_alloc = rom_allocator regions, as_records = []\<rparr> st ps"
    "\<exists>alloc. rom_alloc_claim (as_alloc st) (of_nat (length (encode_manifest (as_records st)))) 4 = (Inr c, alloc)"
    "in_bounds (as_bytes st) (unat (cl_address c), encode_manifest (as_records st))"
    "out = \<lparr>pr_bytes = put (as_bytes st) (unat (cl_address c), encode_manifest (as_records st)),
       pr_manifest = as_records st, pr_manifest_address = cl_address c, pr_tuner_tag = tag\<rparr>"
    using apply_patch_InrD [OF assms] .
  let ?ws = "concat (map placement_writes ps)"
  have ws: "\<forall>w \<in> set ?ws. in_bounds rom w" "as_bytes st = foldl put rom ?ws"
    using st(1) by (simp_all add: layout_def)
  have "in_bounds (as_bytes st) w \<longleftrightarrow> in_bounds rom w" for w
    using puts_other(1) [OF ws(1)] ws(2) by (simp add: in_bounds_def)
  then have "\<forall>w \<in> set (patch_writes ps out). in_bounds rom w"
    using ws(1) st(3,4) by (auto simp: patch_writes_def)
  moreover have "pr_bytes out = foldl put rom (patch_writes ps out)"
    using ws(2) st(4) by (simp add: patch_writes_def)
  ultimately have "applied p rom regions out ps c"
    using st(1,2,4) unfolding applied_def layout_def by auto
  then show thesis by (rule that)
qed

lemma sorted_wrt_concat:
  assumes "\<And>x. x \<in> set xs \<Longrightarrow> sorted_wrt R (f x)"
    and "sorted_wrt (\<lambda>x y. \<forall>a \<in> set (f x). \<forall>b \<in> set (f y). R a b) xs"
  shows "sorted_wrt R (concat (map f xs))"
  using assms by (induction xs) (auto simp: sorted_wrt_append)

text \<open>The bytes a jump at the splice point of a hook may overwrite.\<close>

definition splice_window :: "hook_patch \<Rightarrow> nat set" where
  "splice_window h = {unat (splice_site h) ..< unat (splice_site h) + 12}"

text \<open>
  What the caller of \<open>apply\<close> has to see to: the declared regions do not overlap, and the splice points
  lie outside them and apart from each other.
\<close>

definition sites_clear :: "hook_patch list \<Rightarrow> rom_region list \<Rightarrow> bool" where
  "sites_clear hooks regions \<longleftrightarrow>
     sorted_wrt (\<lambda>r s. region_span r \<inter> region_span s = {}) regions \<and>
     sorted_wrt (\<lambda>g h. splice_window g \<inter> splice_window h = {}) hooks \<and>
     (\<forall>h \<in> set hooks. \<forall>r \<in> set regions. splice_window h \<inter> region_span r = {})"

lemma unat_ucast_of_nat: "n < 2 ^ 32 \<Longrightarrow> unat (ucast (of_nat n :: u64) :: u32) = n"
  by (simp add: unsigned_ucast_eq unat_of_nat take_bit_eq_mod)

lemma applied_claims:
  assumes "applied p rom regions out ps c" "length rom < 2 ^ 32"
    and "sorted_wrt (\<lambda>r s. region_span r \<inter> region_span s = {}) regions"
  shows "\<forall>(h, d, sp) \<in> set ps. 4 dvd unat (cl_address d) \<and> rom_span d = extent (unat (cl_address d), hp_code h) \<and>
      (\<exists>r \<in> set regions. rom_span d \<subseteq> region_span r)"
    "rom_span c = extent (unat (pr_manifest_address out), encode_manifest (pr_manifest out)) \<and>
      (\<exists>r \<in> set regions. rom_span c \<subseteq> region_span r)"
    "sorted_wrt (\<lambda>x y. rom_span (fst (snd x)) \<inter> rom_span (fst (snd y)) = {}) ps"
    "\<forall>(h, d, sp) \<in> set ps. rom_span d \<inter> rom_span c = {}"
proof -
  let ?m = "encode_manifest (pr_manifest out)"
  have "rom_inv (rom_allocator regions)" using assms(3) by (simp add: rom_inv_start)
  note apart = rom.grants_apart [OF this, of "map code_request (filter has_code (po_hooks p)) @ [(of_nat (length ?m), 4)]"]
  have g: "grants rom_alloc_claim (rom_allocator regions)
         (map code_request (filter has_code (po_hooks p)) @ [(of_nat (length ?m), 4)]) =
       map (\<lambda>(h, c, sp). (code_request h, c)) ps @ [((of_nat (length ?m), 4), c)]"
    using assms(1) unfolding applied_def by (elim conjE)
  have size: "length (snd w) < 2 ^ 32" if "w \<in> set (patch_writes ps out)" for w
    using that assms(1,2) by (auto simp: applied_def in_bounds_def)
  have fits: "4 dvd unat (cl_address d) \<and> rom_span d = extent (unat (cl_address d), data)"
    if "rom_fits (of_nat (length data)) 4 d" "length data < 2 ^ 32" for d data
  proof -
    have "(2 :: nat) ^ 2 dvd unat (cl_address d)" using that(1) unfolding rom_fits_def by (rule conjE) (erule allE [of _ 2], simp)
    moreover have "unat (cl_size d) = length data"
      using that unat_ucast_of_nat [of "length data"] by (simp add: rom_fits_def)
    ultimately show ?thesis by (simp add: rom_span_def extent_def)
  qed
  show "\<forall>(h, d, sp) \<in> set ps. 4 dvd unat (cl_address d) \<and> rom_span d = extent (unat (cl_address d), hp_code h) \<and>
      (\<exists>r \<in> set regions. rom_span d \<subseteq> region_span r)"
  proof clarify
    fix h d sp assume e: "(h, d, sp) \<in> set ps"
    then have "rom_fits (of_nat (length (hp_code h))) 4 d \<and> (\<exists>r \<in> set regions. rom_span d \<subseteq> region_span r)"
      using apart unfolding g rom_inv_start by (auto simp: code_request_def)
    moreover have "length (hp_code h) < 2 ^ 32"
      using size [of "(unat (cl_address d), hp_code h)"] e by (force simp: patch_writes_def)
    ultimately show "4 dvd unat (cl_address d) \<and> rom_span d = extent (unat (cl_address d), hp_code h) \<and>
        (\<exists>r \<in> set regions. rom_span d \<subseteq> region_span r)"
      using fits by blast
  qed
  have "rom_fits (of_nat (length ?m)) 4 c \<and> (\<exists>r \<in> set regions. rom_span c \<subseteq> region_span r)"
    using apart unfolding g rom_inv_start by auto
  moreover have "length ?m < 2 ^ 32" using size [of "(unat (pr_manifest_address out), ?m)"] by (simp add: patch_writes_def)
  moreover have "cl_address c = pr_manifest_address out" using assms(1) by (simp add: applied_def)
  ultimately show "rom_span c = extent (unat (pr_manifest_address out), ?m) \<and>
      (\<exists>r \<in> set regions. rom_span c \<subseteq> region_span r)"
    using fits by metis
  show "sorted_wrt (\<lambda>x y. rom_span (fst (snd x)) \<inter> rom_span (fst (snd y)) = {}) ps"
    "\<forall>(h, d, sp) \<in> set ps. rom_span d \<inter> rom_span c = {}"
    using apart unfolding g by (auto simp: sorted_wrt_append sorted_wrt_map split_beta)
qed

lemma splice_in_window:
  assumes "applied p rom regions out ps c" "(h, d, sp) \<in> set ps"
  shows "extent (unat (splice_site h), sb_bytes sp) \<subseteq> splice_window h"
proof -
  have "emit_splice (po_arch p) (splice_site h) (cl_address d) = Inr sp"
    using assms by (auto simp: applied_def)
  from emit_splice_fields(3) [OF this] show ?thesis by (auto simp: extent_def splice_window_def)
qed

lemma applied_hook:
  assumes "applied p rom regions out ps c" "(h, d, sp) \<in> set ps"
  shows "h \<in> set (filter has_code (po_hooks p))"
proof -
  have "h \<in> set (map fst ps)" using assms(2) by force
  then show ?thesis using assms(1) unfolding applied_def by (elim conjE) simp
qed

lemma applied_apart:
  assumes "applied p rom regions out ps c" "length rom < 2 ^ 32"
    and "sites_clear (filter has_code (po_hooks p)) regions"
  shows "sorted_wrt (\<lambda>v w. extent v \<inter> extent w = {}) (patch_writes ps out)"
proof -
  let ?R = "\<lambda>v w. extent v \<inter> extent w = {}" and ?m = "encode_manifest (pr_manifest out)"
  have clear: "sorted_wrt (\<lambda>r s. region_span r \<inter> region_span s = {}) regions"
      "sorted_wrt (\<lambda>g h. splice_window g \<inter> splice_window h = {}) (map fst ps)"
      "\<forall>h \<in> set (filter has_code (po_hooks p)). \<forall>r \<in> set regions. splice_window h \<inter> region_span r = {}"
    using assms(1,3) by (auto simp: sites_clear_def applied_def)
  note claims = applied_claims [OF assms(1,2) clear(1)]
  have code: "extent (unat (cl_address d), hp_code h) = rom_span d" "\<exists>r \<in> set regions. rom_span d \<subseteq> region_span r"
      "rom_span d \<inter> rom_span c = {}" if "(h, d, sp) \<in> set ps" for h d sp
    using claims(1,4) that by auto
  have site: "extent (unat (splice_site h), sb_bytes sp) \<inter> region_span r = {}"
    if "(h, d, sp) \<in> set ps" "r \<in> set regions" for h d sp r
    using splice_in_window [OF assms(1) that(1)] clear(3) applied_hook [OF assms(1) that(1)] that(2) by blast
  have cross: "extent (unat (splice_site h), sb_bytes sp) \<inter> rom_span e = {}"
    if "(h, d, sp) \<in> set ps" "(g, e, sq) \<in> set ps" for h d sp g e sq
    using site [OF that(1)] code(2) [OF that(2)] by blast
  have sites: "sorted_wrt (\<lambda>x y. splice_window (fst x) \<inter> splice_window (fst y) = {}) ps"
    using clear(2) by (simp add: sorted_wrt_map)
  have "sorted_wrt (\<lambda>x y. \<forall>v \<in> set (placement_writes x). \<forall>w \<in> set (placement_writes y). ?R v w) ps"
  proof -
    have "sorted_wrt (\<lambda>x y. rom_span (fst (snd x)) \<inter> rom_span (fst (snd y)) = {} \<and>
        splice_window (fst x) \<inter> splice_window (fst y) = {}) ps"
      using claims(3) sites by (simp add: sorted_wrt_iff_nth_less)
    then show ?thesis
    proof (rule sorted_wrt_mono_rel [rotated])
      fix x y assume xy: "x \<in> set ps" "y \<in> set ps"
        "rom_span (fst (snd x)) \<inter> rom_span (fst (snd y)) = {} \<and> splice_window (fst x) \<inter> splice_window (fst y) = {}"
      obtain h d sp where x: "x = (h, d, sp)" by (cases x)
      obtain g e sq where y: "y = (g, e, sq)" by (cases y)
      note in_ps = xy(1) [unfolded x] xy(2) [unfolded y]
      have "rom_span d \<inter> rom_span e = {}" "splice_window h \<inter> splice_window g = {}" using xy(3) x y by simp_all
      with cross [OF in_ps] cross [OF in_ps(2,1)] code(1) [OF in_ps(1)] code(1) [OF in_ps(2)]
        splice_in_window [OF assms(1) in_ps(1)] splice_in_window [OF assms(1) in_ps(2)]
      show "\<forall>v \<in> set (placement_writes x). \<forall>w \<in> set (placement_writes y). ?R v w"
        unfolding x y by auto
    qed
  qed
  moreover have "sorted_wrt ?R (placement_writes x)" if x: "x \<in> set ps" for x
  proof -
    obtain h d sp where d: "x = (h, d, sp)" by (cases x)
    have "extent (unat (cl_address d), hp_code h) = rom_span d"
      "extent (unat (splice_site h), sb_bytes sp) \<inter> rom_span d = {}"
      using code(1) cross x unfolding d by blast+
    then show ?thesis unfolding d by auto
  qed
  ultimately have "sorted_wrt ?R (concat (map placement_writes ps))" by (intro sorted_wrt_concat)
  moreover have "?R v (unat (pr_manifest_address out), ?m)" if "v \<in> set (concat (map placement_writes ps))" for v
  proof -
    from that obtain h d sp where v: "(h, d, sp) \<in> set ps" "v \<in> set (placement_writes (h, d, sp))" by auto
    from claims(2) obtain r where r: "rom_span c = extent (unat (pr_manifest_address out), ?m)" "r \<in> set regions"
        "rom_span c \<subseteq> region_span r" by blast
    from v(2) consider "extent v = rom_span d" | "v = (unat (splice_site h), sb_bytes sp)"
      using code(1) [OF v(1)] by auto
    then show ?thesis using code(3) [OF v(1)] site [OF v(1) r(2)] r by cases auto
  qed
  ultimately show ?thesis by (simp add: patch_writes_def sorted_wrt_append)
qed

end
