(* ===== verification/Patch_Install.thy ===== *)
theory Patch_Install
  imports Patch_Insert Codegen_Compile Flash_Plan
begin

text \<open>
  What the patch inserter achieves: the installed ROM, its manifest, the flash plan built from it
  (src/feature_patch/src/flash_bridge.cpp) and, with the SH-2A backend, the ECU that runs it. The
  selection of the code regions is the one of \<open>feature-flash\<close> in src/cli/main.cpp.
\<close>

section \<open>From the pack to the inserter\<close>

text \<open>\<open>None\<close> is the exit of the command when a region leaves the 32-bit address space.\<close>

fun code_regions :: "writable_region list \<Rightarrow> rom_region list option" where
  "code_regions [] = Some []"
| "code_regions (w # ws) =
     (if wr_kind w = ''code'' then
        if wr_address w > 0xFFFFFFFF \<or> wr_length w > 0xFFFFFFFF then None
        else map_option ((#) \<lparr>rg_name = wr_name w, rg_base = ucast (wr_address w), rg_length = ucast (wr_length w)\<rparr>)
          (code_regions ws)
      else code_regions ws)"

section \<open>From the patched ROM to the flash\<close>

definition sector_data :: "u32 \<Rightarrow> bytes \<Rightarrow> sector \<Rightarrow> bytes" where
  "sector_data base_address img s =
     (let local_off = sec_address s - base_address in
      take (unat (local_off + sec_length s) - unat local_off) (drop (unat local_off) img))"

definition build_flash_plan :: "bytes \<Rightarrow> patched_rom \<Rightarrow> u32 \<Rightarrow> u32 \<Rightarrow> flash_plan result" where
  "build_flash_plan source_rom patched sector_size base_address =
     (if length source_rom \<noteq> length (pr_bytes patched) then
        failure InvalidArgument (''build_flash_plan: source_rom size '' @ dec_string (length source_rom) @
          '' != patched_rom.bytes size '' @ dec_string (length (pr_bytes patched)) @ '' '' @ em_dash @
          '' the two buffers must describe the same flash region'')
      else if sector_size = 0 then
        failure InvalidArgument ''build_flash_plan: sector_size must be > 0''
      else Inr (default_plan\<lparr>fp_writes :=
        map (\<lambda>s. \<lparr>sw_sector = s, sw_data = sector_data base_address (pr_bytes patched) s\<rparr>)
          (compute_delta source_rom (pr_bytes patched) sector_size base_address)\<rparr>))"

text \<open>The flash after the sectors of a plan were written; the image starts at address \<open>base\<close>.\<close>

definition plan_writes :: "u32 \<Rightarrow> flash_plan \<Rightarrow> (nat \<times> bytes) list" where
  "plan_writes base plan = map (\<lambda>w. (unat (sec_address (sw_sector w) - base), sw_data w)) (fp_writes plan)"

definition sector_write_of :: "u32 \<Rightarrow> bytes \<Rightarrow> sector \<Rightarrow> nat \<times> bytes" where
  "sector_write_of base img s = (unat (sec_address s - base), sector_data base img s)"

lemma sector_write_extent:
  assumes "unat (sec_address s - base) + unat (sec_length s) \<le> length img" "length img < 2 ^ 32"
  shows "i \<in> extent (sector_write_of base img s) \<longleftrightarrow> covers_from base s i"
    "in_bounds img (sector_write_of base img s)"
    "covers_from base s i \<Longrightarrow> sector_data base img s ! (i - unat (sec_address s - base)) = img ! i"
proof -
  let ?o = "sec_address s - base"
  have "unat (?o + sec_length s) = unat ?o + unat (sec_length s)"
    using assms by (simp add: unat_word_ariths(1))
  then have d: "sector_data base img s = take (unat (sec_length s)) (drop (unat ?o) img)"
    by (simp add: sector_data_def Let_def)
  with assms(1) have len: "length (sector_data base img s) = unat (sec_length s)" by simp
  show "i \<in> extent (sector_write_of base img s) \<longleftrightarrow> covers_from base s i"
    by (simp add: extent_def sector_write_of_def len covers_from_def)
  show "in_bounds img (sector_write_of base img s)"
    using assms(1) by (simp add: in_bounds_def sector_write_of_def len)
  show "sector_data base img s ! (i - unat ?o) = img ! i" if "covers_from base s i"
    using that assms(1) by (auto simp: covers_from_def d)
qed

lemma puts_sectors:
  assumes "\<forall>s \<in> set secs. unat (sec_address s - base) + unat (sec_length s) \<le> length img"
    and "length rom = length img" "length img < 2 ^ 32" "i < length img"
  shows "foldl put rom (map (sector_write_of base img) secs) ! i =
    (if list_ex (\<lambda>s. covers_from base s i) secs then img ! i else rom ! i)"
  using assms
proof (induction secs arbitrary: rom)
  case (Cons s secs)
  note sec = sector_write_extent [of s base img, OF _ Cons.prems(3)]
  have b: "in_bounds rom (sector_write_of base img s)"
    using sec(2) Cons.prems(1,2) by (simp add: in_bounds_def)
  have "put rom (sector_write_of base img s) ! i = (if covers_from base s i then img ! i else rom ! i)"
    using nth_put [OF b, of i] sec(1,3) Cons.prems(1) by (simp add: sector_write_of_def)
  with Cons b show ?case by simp
qed simp

text \<open>C15: Executing the plan of a patched ROM installs exactly that ROM. For images of equal length below
  4 GiB and any sector size and base address, \<open>build_flash_plan\<close> succeeds and writing the data of its
  sectors over the source img gives the patched img, byte for byte; no sector reaches beyond the
  img and every sector holds a changed byte.\<close>

theorem flash_plan_installs_patch:
  assumes "length source_rom = length (pr_bytes out)" "length source_rom < 2 ^ 32" "sector_size \<noteq> 0"
  shows "\<exists>plan. build_flash_plan source_rom out sector_size base = Inr plan \<and>
    foldl put source_rom (plan_writes base plan) = pr_bytes out \<and>
    (\<forall>w \<in> set (plan_writes base plan). in_bounds source_rom w \<and>
       (\<exists>i \<in> extent w. source_rom ! i \<noteq> pr_bytes out ! i))"
proof -
  let ?img = "pr_bytes out" and ?secs = "compute_delta source_rom (pr_bytes out) sector_size base"
  let ?ws = "map (sector_write_of base ?img) ?secs"
  let ?plan = "default_plan\<lparr>fp_writes :=
        map (\<lambda>s. \<lparr>sw_sector = s, sw_data = sector_data base ?img s\<rparr>) ?secs\<rparr>"
  have n: "min (length source_rom) (length ?img) = length ?img" "length ?img < 2 ^ 32" using assms by simp_all
  have secs: "\<forall>s \<in> set ?secs. unat (sec_address s - base) + unat (sec_length s) \<le> length ?img"
    using compute_delta_sector [OF assms(3), of source_rom ?img] n by simp
  have rew: "rewrite_sectors base ?secs source_rom ?img = ?img"
      "\<forall>s \<in> set ?secs. \<exists>i < length ?img. covers_from base s i \<and> source_rom ! i \<noteq> ?img ! i"
    using compute_delta_rewrites [OF assms(3), of source_rom ?img base] n by simp_all
  have ws: "in_bounds source_rom w \<and> (\<exists>i \<in> extent w. source_rom ! i \<noteq> ?img ! i)" if w: "w \<in> set ?ws" for w
  proof -
    obtain s where s: "s \<in> set ?secs" "w = sector_write_of base ?img s" using w by auto
    note e = sector_write_extent [of s base ?img, OF _ n(2)]
    from s(1) rew(2) obtain i where "covers_from base s i" "source_rom ! i \<noteq> ?img ! i" by blast
    with e(1,2) s secs assms(1) show ?thesis by (auto simp: in_bounds_def)
  qed
  have "foldl put source_rom ?ws = ?img"
  proof (rule nth_equalityI)
    show "length (foldl put source_rom ?ws) = length ?img" using puts_other(1) [of ?ws source_rom] ws assms(1) by simp
    fix i assume "i < length (foldl put source_rom ?ws)"
    then have i: "i < length ?img" using puts_other(1) [of ?ws source_rom] ws assms(1) by simp
    have "rewrite_sectors base ?secs source_rom ?img ! i = ?img ! i" using rew(1) by simp
    with puts_sectors [OF secs assms(1) n(2) i] i assms(1)
    show "foldl put source_rom ?ws ! i = ?img ! i" by (simp add: nth_rewrite_sectors)
  qed
  moreover have "plan_writes base ?plan = ?ws" by (simp add: plan_writes_def sector_write_of_def)
  moreover have "build_flash_plan source_rom out sector_size base = Inr ?plan"
    using assms by (simp add: build_flash_plan_def)
  ultimately show ?thesis using ws by (intro exI [of _ ?plan]) simp
qed

section \<open>The installed ROM\<close>

lemma applied_writes:
  assumes "applied p rom regions out ps c"
  shows "\<forall>w \<in> set (patch_writes ps out). in_bounds rom w" "pr_bytes out = foldl put rom (patch_writes ps out)"
  using assms unfolding applied_def by blast+

lemma applied_decodes:
  assumes "applied p rom regions out ps c"
  shows "decode_manifest (encode_manifest (pr_manifest out)) = Inr (pr_manifest out)"
proof -
  have "\<not> is_terminator r" if "r \<in> set (pr_manifest out)" for r
  proof -
    from that assms obtain x where "r \<in> set (placement_records x)" unfolding applied_def by auto
    then show ?thesis by (cases x) (auto simp: patch_record_def is_terminator_def)
  qed
  then have "takeWhile (\<lambda>r. \<not> is_terminator r) (pr_manifest out) = pr_manifest out"
    by (simp add: takeWhile_eq_all_conv)
  moreover have "length (encode_manifest (pr_manifest out)) mod kRecordSize = 0"
    by (simp only: length_encode_manifest mod_mult_self2_is_0)
  ultimately show ?thesis
    using decode_records_encode [of "pr_manifest out" "[]"] by (simp add: decode_manifest_def encode_manifest_def)
qed

text \<open>C7: A patch is installed as it was compiled. When \<open>apply\<close> succeeds on an image below 4 GiB whose
  code regions do not overlap and whose splice points lie outside them and twelve bytes apart, the
  result has the size of the source; the code of every hook stands in one of the regions on a multiple
  of four, its splice point holds the jump emitted for exactly that address, and decoding the ROM at the
  reported manifest address gives the records. Later writes damage none of them.\<close>

theorem patch_installed:
  assumes "apply_patch p rom regions tag = Inr out" "length rom < 2 ^ 32"
    and "sites_clear (filter has_code (po_hooks p)) regions"
  shows "length (pr_bytes out) = length rom \<and>
    (\<forall>h \<in> set (po_hooks p). hp_code h \<noteq> [] \<longrightarrow> (\<exists>a sp. 4 dvd unat a \<and>
       (\<exists>r \<in> set regions. {unat a ..< unat a + length (hp_code h)} \<subseteq> region_span r) \<and>
       emit_splice (po_arch p) (splice_site h) a = Inr sp \<and>
       holds (pr_bytes out) (unat a, hp_code h) \<and>
       holds (pr_bytes out) (unat (splice_site h), sb_bytes sp))) \<and>
    decode_manifest (take (8 * (length (pr_manifest out) + 1)) (drop (unat (pr_manifest_address out)) (pr_bytes out))) =
      Inr (pr_manifest out)"
proof -
  obtain ps c where A: "applied p rom regions out ps c" using apply_patch_applied [OF assms(1)] .
  note ws = applied_writes [OF A]
  have hold: "holds (pr_bytes out) w" if "w \<in> set (patch_writes ps out)" for w
    unfolding ws(2) using ws(1) applied_apart [OF A assms(2,3)] that by (rule puts_hold)
  have "sorted_wrt (\<lambda>r s. region_span r \<inter> region_span s = {}) regions" using assms(3) by (simp add: sites_clear_def)
  note claims = applied_claims [OF A assms(2) this]
  have "\<exists>a sp. 4 dvd unat a \<and>
       (\<exists>r \<in> set regions. {unat a ..< unat a + length (hp_code h)} \<subseteq> region_span r) \<and>
       emit_splice (po_arch p) (splice_site h) a = Inr sp \<and>
       holds (pr_bytes out) (unat a, hp_code h) \<and>
       holds (pr_bytes out) (unat (splice_site h), sb_bytes sp)"
    if h: "h \<in> set (po_hooks p)" "hp_code h \<noteq> []" for h
  proof -
    have "h \<in> set (map fst ps)" using A h unfolding applied_def by (elim conjE) (simp add: has_code_def)
    then obtain d sp where p: "(h, d, sp) \<in> set ps" by auto
    have "4 dvd unat (cl_address d)" "\<exists>r \<in> set regions. {unat (cl_address d) ..< unat (cl_address d) + length (hp_code h)} \<subseteq> region_span r"
      using bspec [OF claims(1) p] by (auto simp: extent_def)
    moreover have "emit_splice (po_arch p) (splice_site h) (cl_address d) = Inr sp"
      using A p by (auto simp: applied_def)
    moreover have "(unat (cl_address d), hp_code h) \<in> set (patch_writes ps out)"
        "(unat (splice_site h), sb_bytes sp) \<in> set (patch_writes ps out)"
      using p by (force simp: patch_writes_def)+
    ultimately show ?thesis using hold by blast
  qed
  moreover have "length (pr_bytes out) = length rom" unfolding ws(2) by (rule puts_other(1) [OF ws(1)])
  moreover have "holds (pr_bytes out) (unat (pr_manifest_address out), encode_manifest (pr_manifest out))"
    by (rule hold) (simp add: patch_writes_def)
  then have "decode_manifest (take (8 * (length (pr_manifest out) + 1))
      (drop (unat (pr_manifest_address out)) (pr_bytes out))) = decode_manifest (encode_manifest (pr_manifest out))"
    by (simp add: holds_def length_encode_manifest kRecordSize_def algebra_simps)
  ultimately show ?thesis unfolding applied_decodes [OF A] by blast
qed

definition covered :: "manifest_record list \<Rightarrow> nat \<Rightarrow> bool" where
  "covered rs i \<longleftrightarrow> (\<exists>r \<in> set rs. unat (mr_target_address r) \<le> i \<and>
     i < unat (mr_target_address r) + unat (mr_length_bytes r))"

text \<open>C17: The manifest names every byte the inserter changed, so that restoring the ranges it lists from
  a factory image, and the manifest itself, undoes the patch. This needs no assumption on regions or
  splice points, only that the code of each hook is shorter than 64 KiB: the length field of a record
  has 16 bits and the code narrows the length to it without a check.\<close>

theorem manifest_names_changes:
  assumes "apply_patch p rom regions tag = Inr out" "\<forall>h \<in> set (po_hooks p). length (hp_code h) < 2 ^ 16"
    and "i < length rom" "pr_bytes out ! i \<noteq> rom ! i"
  shows "covered (pr_manifest out) i \<or>
    i \<in> {unat (pr_manifest_address out) ..< unat (pr_manifest_address out) + 8 * (length (pr_manifest out) + 1)}"
proof -
  obtain ps c where A: "applied p rom regions out ps c" using apply_patch_applied [OF assms(1)] .
  from puts_other(2) [OF applied_writes(1) [OF A], of i] applied_writes(2) [OF A] assms(4) obtain w
    where w: "w \<in> set (patch_writes ps out)" "i \<in> extent w" by (metis UN_E)
  then consider h d sp where "(h, d, sp) \<in> set ps" "w \<in> set (placement_writes (h, d, sp))"
    | "w = (unat (pr_manifest_address out), encode_manifest (pr_manifest out))"
    by (force simp: patch_writes_def)
  then show ?thesis
  proof cases
    case (1 h d sp)
    have "h \<in> set (po_hooks p)" using applied_hook [OF A 1(1)] by simp
    then have n: "unat (of_nat (length (hp_code h)) :: u16) = length (hp_code h)"
      using assms(2) by (simp add: unat_of_nat take_bit_nat_eq_self)
    have "emit_splice (po_arch p) (splice_site h) (cl_address d) = Inr sp" using A 1(1) by (auto simp: applied_def)
    then have "length (sb_bytes sp) \<le> 12" by (rule emit_splice_fields)
    then have m: "unat (of_nat (length (sb_bytes sp)) :: u16) = length (sb_bytes sp)"
      by (simp add: unat_of_nat take_bit_nat_eq_self)
    have "pr_manifest out = concat (map placement_records ps)" using A by (simp add: applied_def)
    then have "set (placement_records (h, d, sp)) \<subseteq> set (pr_manifest out)"
      using 1(1) by (auto simp del: placement_records.simps)
    moreover have "covered (placement_records (h, d, sp)) i"
      using w(2) 1(2) n m by (auto simp: covered_def patch_record_def extent_def)
    ultimately show ?thesis unfolding covered_def by blast
  next
    case 2
    then show ?thesis using w(2) by (simp add: extent_def length_encode_manifest kRecordSize_def)
  qed
qed

section \<open>The ECU that runs it\<close>

text \<open>The ROM is mapped at address zero.\<close>

definition rom_mapped :: "bytes \<Rightarrow> memory \<Rightarrow> bool" where
  "rom_mapped rom mem \<longleftrightarrow> (\<forall>i < length rom. mem (of_nat i) = rom ! i)"

lemma loaded_mapped:
  assumes "rom_mapped rom mem" "holds rom (unat a, data)"
  shows "loaded mem a data"
  unfolding loaded_def
proof (intro allI impI)
  fix i assume i: "i < length data"
  have "mem (of_nat (unat a + i)) = rom ! (unat a + i)"
    using assms i by (simp add: rom_mapped_def holds_def in_bounds_def del: of_nat_add)
  also have "\<dots> = data ! i" using assms(2) i by (auto simp: holds_iff_nth extent_def)
  finally show "mem (a + of_nat i) = data ! i" by simp
qed

lemma aligned4_dvd: "4 dvd unat a \<Longrightarrow> aligned4 a"
proof -
  assume "4 dvd unat a"
  then have "take_bit 2 a = 0" using take_bit_eq_0_iff_dvd [of 2 a] by simp
  moreover have "(3 :: u32) = mask 2" by (simp add: mask_eq_exp_minus_1)
  ultimately show ?thesis by (simp add: aligned4_def take_bit_eq_mask)
qed

text \<open>An installed feature runs. When the firmware of an SH-2A ECU whose ROM was patched comes to the
  splice point of a hook, the jump there leads to the code of the hook, which computes the operand of its
  first store from the memory at that moment, leaves it in the RAM slot of the pin and returns to the
  caller of the spliced routine, with memory outside the hook's free RAM as it was. The hypotheses are
  those of the inserter (an image below 4 GiB, regions and splice points apart), code short enough for its
  literals and free RAM that is no ROM and no input of the module.\<close>

theorem installed_feature_runs:
  assumes "compile dbl m def = Some (Inr obj)" "ram_in_range def"
    and "apply_patch obj rom regions tag = Inr out" "length rom < 2 ^ 32"
    and "sites_clear (filter has_code (po_hooks obj)) regions"
    and "hp \<in> set (po_hooks obj)" "length (hp_code hp) < 1032" "find_hook def (hp_symbol hp) = Some hook"
    and "\<forall>a \<in> free_ram hook. length rom \<le> unat a" "inputs_clear def m (free_ram hook)"
    and "rom_mapped (pr_bytes out) (sh_mem s)" "sh_pc s = splice_site hp"
  shows "\<exists>ins slot x s'. first_store m (hp_symbol hp) = Some ins \<and>
    pin_slot_of dbl m def (hp_symbol hp) (ins_pin ins) = Some slot \<and>
    evaluates dbl def m f (sh_mem s) (ins_operands ins ! 0) x \<and> reaches f s s' \<and> sh_pc s' = sh_pr s \<and>
    load32 (sh_mem s') slot = x \<and> unchanged_outside (free_ram hook) (sh_mem s) (sh_mem s') \<and> keeps s s'"
proof -
  have arch: "po_arch obj = ArchSh2a"
    using assms(1) by (auto simp: compile_def Let_def split: option.splits sum.splits)
  obtain hook' ins slot T where H: "hook_spec dbl m def hp hook' ins slot T"
    using compiled_hook [OF assms(1,2,6)] .
  then have h: "hook' = hook" "hp_code hp \<noteq> []" using assms(8) by (simp_all add: hook_spec_def)
  obtain ps c where A: "applied obj rom regions out ps c" using apply_patch_applied [OF assms(3)] .
  have "hp \<in> set (map fst ps)" using A h(2) assms(6) unfolding applied_def by (elim conjE) (simp add: has_code_def)
  then obtain d sp where p: "(hp, d, sp) \<in> set ps" by auto
  note ws = applied_writes [OF A]
  have code: "(unat (cl_address d), hp_code hp) \<in> set (patch_writes ps out)"
      "(unat (splice_site hp), sb_bytes sp) \<in> set (patch_writes ps out)"
    using p by (force simp: patch_writes_def)+
  have hold: "holds (pr_bytes out) w" if "w \<in> set (patch_writes ps out)" for w
    unfolding ws(2) using ws(1) applied_apart [OF A assms(4,5)] that by (rule puts_hold)
  have "sorted_wrt (\<lambda>r s. region_span r \<inter> region_span s = {}) regions" using assms(5) by (simp add: sites_clear_def)
  from bspec [OF applied_claims(1) [OF A assms(4) this] p] have al: "aligned4 (cl_address d)"
    by (auto intro: aligned4_dvd)
  let ?s = "(if sb_form sp = Sh2aShortBra then s else set_r 0 (cl_address d) s)\<lparr>sh_pc := cl_address d\<rparr>"
  have "emit_splice (po_arch obj) (splice_site hp) (cl_address d) = Inr sp" using A p by (auto simp: applied_def)
  then have "emit_sh2a_splice (splice_site hp) (cl_address d) = Inr sp" by (simp add: emit_splice_def arch)
  from sh2a_splice_jump [OF this loaded_mapped [OF assms(11) hold [OF code(2)]] assms(12)]
  have jump: "reaches f s ?s" .
  have s: "sh_mem ?s = sh_mem s" "sh_pr ?s = sh_pr s" "keeps s ?s" by (simp_all add: set_r_def keeps_def)
  have "hook_ready def m hook (hp_code hp) ?s"
    unfolding hook_ready_def
  proof (intro conjI allI impI)
    show "loaded (sh_mem ?s) (sh_pc ?s) (hp_code hp)"
      using loaded_mapped [OF assms(11) hold [OF code(1)]] s(1) by simp
    fix i assume i: "i < length (hp_code hp)"
    have b: "unat (cl_address d) + length (hp_code hp) \<le> length rom"
      using ws(1) code(1) by (auto simp: in_bounds_def)
    have "unat (cl_address d + of_nat i) \<le> unat (cl_address d) + i"
      by (simp add: unat_word_ariths unat_of_nat)
    with b i have "unat (cl_address d + of_nat i) < length rom" by simp
    with assms(9) show "sh_pc ?s + of_nat i \<notin> free_ram hook" by auto
  qed (use al assms(7,10) in simp_all)
  with H h(1) obtain x s' where r: "evaluates dbl def m f (sh_mem ?s) (ins_operands ins ! 0) x" "reaches f ?s s'"
      "sh_pc s' = sh_pr ?s" "load32 (sh_mem s') slot = x" "unchanged_outside T (sh_mem ?s) (sh_mem s')" "keeps ?s s'"
      "T \<subseteq> free_ram hook" unfolding hook_spec_def by blast
  have "keeps s s'" using s(3) r(6) by (simp add: keeps_def)
  moreover have "unchanged_outside (free_ram hook) (sh_mem s) (sh_mem s')"
    using r(5,7) unchanged_mono unfolding s(1) by blast
  moreover have "reaches f s s'" using jump r(2) by (rule reaches_trans)
  ultimately show ?thesis
    using H r(1,3,4) unfolding hook_spec_def s(1,2) by blast
qed

section \<open>A splice point inside a code region\<close>

lemma first_region_claim:
  assumes "rom_alloc_claim (rom_allocator (r # rs)) n 4 = (res, a)" "n \<noteq> 0"
    and "region_fit (ucast n) 4 r (rg_base r) = Some x"
  shows "\<exists>c. res = Inr c \<and> cl_address c = x"
proof -
  have "is_power_of_two 4" by (simp add: is_power_of_two_def)
  with assms show ?thesis
    by (auto simp: rom_alloc_claim_def rom_allocator_def Let_def split: if_splits)
qed

lemma region_fit_at_base:
  assumes "aligned4 (rg_base r)" "unat n \<le> unat (rg_length r)" "unat (rg_base r) + unat (rg_length r) < 2 ^ 32"
  shows "region_fit n 4 r (rg_base r) = Some (rg_base r)"
proof -
  let ?b = "rg_base r"
  have up: "round_up ?b 4 = ?b" using aligned_offset [OF assms(1), of 3] by (simp add: round_up_def)
  have "?b AND NOT 3 = ?b" using aligned_offset [OF assms(1), of 0] by simp
  then have "take_bit 2 ?b = 0" unfolding and_not_3 by (simp add: algebra_simps)
  then have "2 ^ 2 dvd unat ?b" by (simp only: take_bit_eq_0_iff_dvd)
  then have "unat ?b mod 4 = 0" by (simp add: dvd_eq_mod_eq_0)
  then obtain q where q: "unat ?b = 4 * q" by (metis mod_0_imp_dvd dvdE)
  then have "q < 2 ^ 30" using assms(3) by simp
  with q have "unat ?b + 3 < 2 ^ 32" by simp
  then have "unat (?b + 3) = unat ?b + 3" by (simp add: unat_word_ariths(1))
  moreover have "unat (?b + n) = unat ?b + unat n" "unat (?b + rg_length r) = unat ?b + unat (rg_length r)"
    using assms(2,3) by (simp_all add: unat_word_ariths(1))
  ultimately show ?thesis using assms(2) up by (simp add: region_fit_def Let_def word_less_nat_alt)
qed

lemma splice_onto_itself:
  assumes "emit_sh2a_splice site site = Inr sp"
  shows "sh2a_bra_disp12 site site = Some (-2)" "sb_bytes sp = be16w (enc_bra (word_of_int (-2))) @ be16w enc_nop"
proof -
  show "sh2a_bra_disp12 site site = Some (-2)"
    by (simp add: sh2a_bra_disp12_def Let_def smod_2_eq signed_divide_int_def)
  with assms show "sb_bytes sp = be16w (enc_bra (word_of_int (-2))) @ be16w enc_nop"
    by (auto simp: emit_sh2a_splice_def split: if_splits)
qed

text \<open>C13: The address gate lets through hooks that hang the ECU. The gate accepts a hook whose splice point
  lies in a declared region, and the inserter places code in the declared code regions without leaving
  the splice point out. Take a patch with a single SH-2A hook, whose splice point is the start of the pack's first declared region, of kind code:
  on a multiple of four, within 32 bits, apart from the other code regions, and holding the hook's code of at
  least four bytes. The gate passes, and in the image of less than 4 GiB that \<open>apply\<close> returns the code was put there
  and its start then overwritten with a jump to itself: from the splice point the processor never gets
  anywhere else, however long it runs.\<close>

theorem gated_patch_hangs:
  assumes "po_hooks p = [h]" "po_arch p = ArchSh2a" "4 \<le> length (hp_code h)"
    and "pv_writable_regions def = w # ws" "wr_kind w = ''code''" "hp_splice_address h = wr_address w"
    and "4 dvd unat (wr_address w)" "length (hp_code h) \<le> unat (wr_length w)"
    and "unat (wr_address w) + unat (wr_length w) < 2 ^ 32"
    and "code_regions (pv_writable_regions def) = Some regions"
    and "sorted_wrt (\<lambda>r s. region_span r \<inter> region_span s = {}) regions"
    and "apply_patch p rom regions tag = Inr out" "length rom < 2 ^ 32"
    and "rom_mapped (pr_bytes out) (sh_mem s)" "sh_pc s = splice_site h"
  shows "gate_patch p def = ok \<and> run f k s = Some s"
proof
  let ?n = "length (hp_code h)"
  have small: "unat (wr_address w) < 2 ^ 32" "unat (wr_length w) < 2 ^ 32" "?n < 2 ^ 32" using assms(8,9) by simp_all
  have sum: "unat (wr_address w + of_nat ?n) = unat (wr_address w) + ?n"
      "unat (wr_address w + wr_length w) = unat (wr_address w) + unat (wr_length w)"
    using assms(8,9) by (simp_all add: unat_word_ariths(1) unat_of_nat take_bit_nat_eq_self)
  then have "hook_fits (w # ws) h" using assms(6,8) by (simp add: hook_fits_def word_le_nat_alt)
  then show "gate_patch p def = ok" using assms(1,4) by (simp add: gate_patch_def gate_violations_def Let_def)
  obtain r rs where r: "regions = r # rs" "rg_base r = ucast (wr_address w)" "rg_length r = ucast (wr_length w)"
    using assms(4,5,10) by (auto split: if_splits)
  have u: "unat (rg_base r) = unat (wr_address w)" "unat (rg_length r) = unat (wr_length w)"
    using small r(2,3) by (simp_all add: unsigned_ucast_eq take_bit_nat_eq_self)
  have site: "splice_site h = rg_base r" using assms(6) r(2) by (simp add: splice_site_def)
  obtain ps c where A: "applied p rom regions out ps c" using apply_patch_applied [OF assms(12)] .
  have "map fst ps = [h]" using A assms(1,3) unfolding applied_def by (elim conjE) (auto simp: has_code_def)
  then obtain d sp where p: "ps = [(h, d, sp)]" by (cases ps) auto
  have base: "cl_address d = rg_base r"
  proof -
    let ?req = "of_nat ?n :: u64" and ?m = "of_nat (length (encode_manifest (pr_manifest out))) :: u64"
    have f: "filter has_code (po_hooks p) = [h]" using assms(1,3) by (auto simp: has_code_def)
    have g: "grants rom_alloc_claim (rom_allocator (r # rs)) ((?req, 4) # [(?m, 4)]) = [((?req, 4), d), ((?m, 4), c)]"
      using A unfolding applied_def r(1) p f by (elim conjE) (simp only: code_request_def list.map append.simps prod.case)
    obtain res a where claim: "rom_alloc_claim (rom_allocator (r # rs)) ?req 4 = (res, a)" by force
    have "unat ?req = ?n" using small(3) by (simp add: unat_of_nat take_bit_nat_eq_self)
    then have "?req \<noteq> 0" using assms(3) by auto
    moreover have "unat (ucast ?req :: u32) = ?n" using small(3) by (rule unat_ucast_of_nat)
    then have "region_fit (ucast ?req) 4 r (rg_base r) = Some (rg_base r)"
      using assms(7,8,9) u by (intro region_fit_at_base aligned4_dvd) simp_all
    ultimately obtain e where "res = Inr e" "cl_address e = rg_base r"
      using first_region_claim [OF claim] by blast
    moreover from this have "e = d" using g claim by (simp only: grants.simps prod.case sum.case) simp
    ultimately show ?thesis by simp
  qed
  have emit: "emit_sh2a_splice (splice_site h) (splice_site h) = Inr sp"
    using A assms(2) p base site by (simp add: applied_def emit_splice_def)
  note self = splice_onto_itself [OF emit]
  let ?w1 = "(unat (splice_site h), hp_code h)" and ?w2 = "(unat (splice_site h), sb_bytes sp)"
  let ?w3 = "(unat (pr_manifest_address out), encode_manifest (pr_manifest out))"
  have writes: "patch_writes ps out = [?w1, ?w2, ?w3]" using p base site by (simp add: patch_writes_def)
  have ws: "in_bounds rom ?w1" "in_bounds rom ?w2" "in_bounds rom ?w3"
      "pr_bytes out = foldl put (put rom ?w1) [?w2, ?w3]"
    using applied_writes [OF A] by (simp_all add: writes)
  note claims = applied_claims [OF A assms(13,11)]
  have "extent ?w2 \<subseteq> extent ?w1" using assms(3) self(2) by (auto simp: extent_def)
  moreover have "extent ?w1 = rom_span d" "extent ?w3 = rom_span c" "rom_span d \<inter> rom_span c = {}"
    using claims(1,2,4) p base site by auto
  ultimately have "extent ?w2 \<inter> extent ?w3 = {}" by blast
  then have "holds (pr_bytes out) ?w2" unfolding ws(4) by (intro puts_hold) (use ws(1-3) in simp_all)
  then have "loaded (sh_mem s) (splice_site h) (be16w (enc_bra (word_of_int (-2))) @ be16w enc_nop)"
    using loaded_mapped [OF assms(14)] self(2) by simp
  from sh2a_short_step [OF self(1) assms(15) this] have "step f s = Some s"
    using assms(15) by simp
  then show "run f k s = Some s" by (induction k) simp_all
qed

end
