(* ===== verification/Patch_Props.thy ===== *)
theory Patch_Props
  imports Patch_Install Codegen_Props
begin

text \<open>
  Concrete patches: the hypotheses of the properties of the patch inserter hold on small images, up to
  a feature that is compiled, inserted and run.
\<close>

section \<open>Images in memory\<close>

definition rom_memory :: "bytes \<Rightarrow> memory" where
  "rom_memory rom a = (if unat a < length rom then rom ! unat a else 7)"

lemma rom_memory_mapped: "length rom < 2 ^ 32 \<Longrightarrow> rom_mapped rom (rom_memory rom)"
  by (simp add: rom_mapped_def rom_memory_def unat_of_nat take_bit_nat_eq_self)

lemma rom_memory_loaded: "length rom < 2 ^ 32 \<Longrightarrow> loaded (rom_memory rom) 0 rom"
  using loaded_mapped [OF rom_memory_mapped, of rom 0 rom] by (simp add: holds_def in_bounds_def)

definition machine_at :: "u32 \<Rightarrow> bytes \<Rightarrow> sh2a" where
  "machine_at pc rom = \<lparr>sh_r = (\<lambda>_. 0), sh_fr = (\<lambda>_. 0), sh_t = False, sh_macl = 0, sh_fpul = 0, sh_pc = pc,
     sh_pr = 0x200, sh_mem = rom_memory rom\<rparr>"

section \<open>Splices\<close>

lemma sh2a_splice_jumps_witness:
  "\<forall>f. \<exists>sb. emit_sh2a_splice 0 0x8000 = Inr sb \<and>
     reaches f (machine_at 0 (sb_bytes sb)) (set_r 0 0x8000 (machine_at 0 (sb_bytes sb))\<lparr>sh_pc := 0x8000\<rparr>)"
proof
  fix f
  let ?sb = "emit_sh2a_long_splice 0 0x8000"
  have e: "emit_sh2a_splice 0 0x8000 = Inr ?sb"
    by (simp add: emit_sh2a_splice_def sh2a_bra_disp12_def Let_def signed_divide_int_def signed_modulo_int_def)
  have "length (sb_bytes ?sb) < 2 ^ 32" by (simp add: emit_sh2a_long_splice_def)
  from rom_memory_loaded [OF this]
  have "reaches f (machine_at 0 (sb_bytes ?sb))
      ((if sb_form ?sb = Sh2aShortBra then machine_at 0 (sb_bytes ?sb)
        else set_r 0 0x8000 (machine_at 0 (sb_bytes ?sb)))\<lparr>sh_pc := 0x8000\<rparr>)"
    by (intro sh2a_splice_jumps [OF e, THEN conjunct1]) (simp_all add: machine_at_def)
  moreover have "sb_form ?sb \<noteq> Sh2aShortBra" by (simp add: emit_sh2a_long_splice_def)
  ultimately show "\<exists>sb. emit_sh2a_splice 0 0x8000 = Inr sb \<and>
      reaches f (machine_at 0 (sb_bytes sb)) (set_r 0 0x8000 (machine_at 0 (sb_bytes sb))\<lparr>sh_pc := 0x8000\<rparr>)"
    using e by auto
qed

lemma rh850_splice_jumps_only_short_witness:
  "\<exists>sb. emit_rh850_splice 0 0x400000 = Inr sb \<and>
     (\<exists>x. rh_run 3 \<lparr>rh_r = (\<lambda>_. 0), rh_pc = 0, rh_mem = rom_memory (sb_bytes sb)\<rparr> =
        Some \<lparr>rh_r = (\<lambda>_. 0)(1 := x AND 0xFFFF), rh_pc = 10, rh_mem = rom_memory (sb_bytes sb)\<rparr>)"
proof -
  let ?sb = "emit_rh850_long_splice 0 0x400000"
  let ?s = "\<lparr>rh_r = (\<lambda>_. 0), rh_pc = 0, rh_mem = rom_memory (sb_bytes ?sb)\<rparr>"
  have e: "emit_rh850_splice 0 0x400000 = Inr ?sb"
    by (simp add: emit_rh850_splice_def rh850_jr_disp22_def Let_def)
  have "length (sb_bytes ?sb) < 2 ^ 32" by (simp add: emit_rh850_long_splice_def le16_bytes_def split_beta)
  from rom_memory_loaded [OF this] have l: "loaded (rh_mem ?s) 0 (sb_bytes ?sb)" by simp
  have "sb_form ?sb = Rh850LongJmp" by (simp add: emit_rh850_long_splice_def split_beta)
  then have "\<exists>x. rh_run 3 ?s = Some (?s\<lparr>rh_r := (rh_r ?s)(1 := x AND 0xFFFF), rh_pc := 0 + 10\<rparr>)"
    using rh850_splice_jumps_only_short [OF e l] by simp
  with e show ?thesis by auto
qed

section \<open>A small patch\<close>

definition toy_hook :: "u64 \<Rightarrow> hook_patch" where
  "toy_hook site = \<lparr>hp_symbol = ''cut'', hp_splice_address = site, hp_code = [0x00, 0x0B, 0x00, 0x09], hp_ram_claims = []\<rparr>"

definition toy_patch :: "u64 \<Rightarrow> patch_object" where
  "toy_patch site = \<lparr>po_arch = ArchSh2a, po_hooks = [toy_hook site]\<rparr>"

definition toy_region :: writable_region where
  "toy_region = \<lparr>wr_name = ''code'', wr_kind = ''code'', wr_address = 0x10, wr_length = 0x30, wr_bank = [],
     wr_description = []\<rparr>"

definition toy_regions :: "rom_region list" where
  "toy_regions = [\<lparr>rg_name = ''code'', rg_base = 0x10, rg_length = 0x30\<rparr>]"

definition toy_rom :: bytes where
  "toy_rom = replicate 0x40 0xFF"

definition toy_out :: "u64 \<Rightarrow> patched_rom" where
  "toy_out site = (case apply_patch (toy_patch site) toy_rom toy_regions ''SUBU'' of Inr out \<Rightarrow> out
     | Inl e \<Rightarrow> \<lparr>pr_bytes = [], pr_manifest = [], pr_manifest_address = 0, pr_tuner_tag = []\<rparr>)"

lemma toy_applied:
  "apply_patch (toy_patch 0) toy_rom toy_regions ''SUBU'' = Inr (toy_out 0)"
  "apply_patch (toy_patch 0x10) toy_rom toy_regions ''SUBU'' = Inr (toy_out 0x10)"
proof -
  have "\<not> isl (apply_patch (toy_patch 0) toy_rom toy_regions ''SUBU'')"
    "\<not> isl (apply_patch (toy_patch 0x10) toy_rom toy_regions ''SUBU'')"
    by code_simp+
  then show "apply_patch (toy_patch 0) toy_rom toy_regions ''SUBU'' = Inr (toy_out 0)"
    "apply_patch (toy_patch 0x10) toy_rom toy_regions ''SUBU'' = Inr (toy_out 0x10)"
    by (auto simp: toy_out_def split: sum.splits)
qed

lemma toy_out_bytes:
  "pr_bytes (toy_out 0) = [0xA0, 0x06, 0x00, 0x09] @ replicate 12 0xFF @ [0x00, 0x0B, 0x00, 0x09] @
     [0, 0, 0, 0x10, 0x10, 1, 0, 4, 0, 0, 0, 0, 0x10, 1, 0, 4, 0, 0, 0, 0, 0, 0, 0, 0] @ replicate 20 0xFF"
  "pr_manifest_address (toy_out 0) = 0x14" "length (pr_manifest (toy_out 0)) = 2"
  by code_simp+

lemma toy_length: "length toy_rom = 0x40"
  by (simp add: toy_rom_def)

lemma patch_installed_witness:
  "holds (pr_bytes (toy_out 0)) (0x10, [0x00, 0x0B, 0x00, 0x09]) \<and>
   decode_manifest (take 24 (drop 0x14 (pr_bytes (toy_out 0)))) = Inr (pr_manifest (toy_out 0))"
proof -
  have "sites_clear (filter has_code (po_hooks (toy_patch 0))) toy_regions"
    by (auto simp: sites_clear_def toy_patch_def toy_hook_def has_code_def toy_regions_def splice_window_def
        splice_site_def region_span_def)
  from patch_installed [OF toy_applied(1) _ this] toy_length
  have "decode_manifest (take 24 (drop 0x14 (pr_bytes (toy_out 0)))) = Inr (pr_manifest (toy_out 0))"
    by (simp add: toy_out_bytes(2,3))
  moreover have "holds (pr_bytes (toy_out 0)) (0x10, [0x00, 0x0B, 0x00, 0x09])"
    by (simp add: toy_out_bytes(1) holds_def in_bounds_def)
  ultimately show ?thesis by (rule conjI [rotated])
qed

lemma manifest_names_changes_witness:
  "covered (pr_manifest (toy_out 0)) 0x11 \<or> 0x11 \<in> {0x14 ..< 0x14 + 24 :: nat}"
proof -
  have "toy_rom ! 0x11 = 0xFF" by (simp add: toy_rom_def)
  moreover have "pr_bytes (toy_out 0) ! 0x11 = 0x0B" by code_simp
  ultimately have "covered (pr_manifest (toy_out 0)) 0x11 \<or> 0x11 \<in> {unat (pr_manifest_address (toy_out 0)) ..<
      unat (pr_manifest_address (toy_out 0)) + 8 * (length (pr_manifest (toy_out 0)) + 1)}"
    by (intro manifest_names_changes [OF toy_applied(1)]) (simp_all add: toy_patch_def toy_hook_def toy_length)
  then show ?thesis by (simp add: toy_out_bytes(2,3))
qed

lemma flash_plan_installs_patch_witness:
  "\<exists>plan. build_flash_plan toy_rom (toy_out 0) 16 0x1000 = Inr plan \<and>
     foldl put toy_rom (plan_writes 0x1000 plan) = pr_bytes (toy_out 0)"
proof -
  have "length toy_rom = length (pr_bytes (toy_out 0))" by (simp add: toy_out_bytes(1) toy_length)
  from flash_plan_installs_patch [OF this, where sector_size = 16 and base = "0x1000"] toy_length
  show ?thesis by auto
qed

definition toy_pack :: pack_view where
  "toy_pack = \<lparr>pv_platform = ''VA'', pv_hooks = [], pv_writable_regions = [toy_region]\<rparr>"

lemma gated_patch_hangs_witness:
  "\<forall>f. gate_patch (toy_patch 0x10) toy_pack = ok \<and>
     run f 1000 (machine_at 0x10 (pr_bytes (toy_out 0x10))) = Some (machine_at 0x10 (pr_bytes (toy_out 0x10)))"
proof
  fix f
  have len: "length (pr_bytes (toy_out 0x10)) = 64" by code_simp
  show "gate_patch (toy_patch 0x10) toy_pack = ok \<and>
     run f 1000 (machine_at 0x10 (pr_bytes (toy_out 0x10))) = Some (machine_at 0x10 (pr_bytes (toy_out 0x10)))"
  proof (rule gated_patch_hangs [OF _ _ _ _ _ _ _ _ _ _ _ toy_applied(2)])
    show "po_hooks (toy_patch 0x10) = [toy_hook 0x10]" "po_arch (toy_patch 0x10) = ArchSh2a"
      by (simp_all add: toy_patch_def)
    show "4 \<le> length (hp_code (toy_hook 0x10))" by (simp add: toy_hook_def)
    show "pv_writable_regions toy_pack = toy_region # []" by (simp add: toy_pack_def)
    show "code_regions (pv_writable_regions toy_pack) = Some toy_regions"
      by (simp add: toy_pack_def toy_region_def toy_regions_def)
    show "rom_mapped (pr_bytes (toy_out 0x10)) (sh_mem (machine_at 0x10 (pr_bytes (toy_out 0x10))))"
      using rom_memory_mapped [of "pr_bytes (toy_out 0x10)"] len by (simp add: machine_at_def)
  qed (simp_all add: toy_region_def toy_hook_def toy_regions_def machine_at_def splice_site_def toy_length)
qed

section \<open>The demo feature, installed\<close>

definition rom_hook :: hook where
  "rom_hook = demo_hook\<lparr>hk_ecu_address := Some 0x20\<rparr>"

definition rom_pack :: pack_view where
  "rom_pack = \<lparr>pv_platform = ''VA'', pv_hooks = [rom_hook],
     pv_writable_regions =
       [\<lparr>wr_name = ''site'', wr_kind = ''site'', wr_address = 0x20, wr_length = 0x60, wr_bank = [], wr_description = []\<rparr>,
        \<lparr>wr_name = ''code'', wr_kind = ''code'', wr_address = 0x80, wr_length = 0x80, wr_bank = [], wr_description = []\<rparr>]\<rparr>"

definition rom_regions :: "rom_region list" where
  "rom_regions = [\<lparr>rg_name = ''code'', rg_base = 0x80, rg_length = 0x80\<rparr>]"

definition rom_source :: bytes where
  "rom_source = replicate 0x100 0xFF"

lemma rom_find_hook: "find_hook rom_pack ''limit'' = Some rom_hook"
  by (simp add: find_hook_def rom_pack_def rom_hook_def demo_hook_def)

lemma rom_free_ram: "free_ram rom_hook = {x. 0xFFFF8002 \<le> unat x \<and> unat x < 0xFFFF8042}"
  by (simp add: free_ram_def ram_room_def hook_ram_def rom_hook_def demo_hook_def ram_end_def ram_allocator_def)

end
