(* ===== verification/Feature_Graph.thy ===== *)
theory Feature_Graph
  imports Feature_Ir
begin

text \<open>
  The dataflow graphs a custom feature is drawn as (src/feature/include/st/feature.hpp, feature.cpp):
  nodes with typed pins, edges from output to input pins, the editing operations, the validation with
  its search for cycles, and the graph linter. Default values are values of the type variable of
  \<open>Feature_Ir\<close>; canvas positions are the bits of a \<open>float\<close>.
\<close>

section \<open>Data\<close>

type_synonym node_id = u32
type_synonym pin_id = u16

datatype pin_direction = PinInput | PinOutput

record 'd pin =
  pn_id :: pin_id
  pn_name :: string
  pn_type :: pin_type
  pn_direction :: pin_direction
  pn_unit :: string
  pn_label :: string
  pn_default :: "'d option"

record 'd node =
  nd_id :: node_id
  nd_kind :: string
  nd_label :: string
  nd_x :: u32
  nd_y :: u32
  nd_pins :: "'d pin list"
  nd_phase_break :: bool

record edge =
  ed_from_node :: node_id
  ed_from_pin :: pin_id
  ed_to_node :: node_id
  ed_to_pin :: pin_id

record 'd graph =
  gr_nodes :: "'d node list"
  gr_edges :: "edge list"
  gr_next_id :: node_id

definition empty_graph :: "'d graph" where
  "empty_graph = \<lparr>gr_nodes = [], gr_edges = [], gr_next_id = 1\<rparr>"

definition parse_pin_type :: "string \<Rightarrow> pin_type option" where
  "parse_pin_type s =
     (if s = ''float'' then Some PinFloat
      else if s = ''int'' then Some PinInt
      else if s = ''bool'' then Some PinBool else None)"

primrec pin_direction_name :: "pin_direction \<Rightarrow> string" where
  "pin_direction_name PinOutput = ''output''"
| "pin_direction_name PinInput = ''input''"

definition parse_pin_direction :: "string \<Rightarrow> pin_direction option" where
  "parse_pin_direction s =
     (if s = ''input'' then Some PinInput else if s = ''output'' then Some PinOutput else None)"

section \<open>Editing\<close>

definition add_node :: "'d node \<Rightarrow> 'd graph \<Rightarrow> node_id \<times> 'd graph" where
  "add_node n g =
     (let i = gr_next_id g in
      (i, g\<lparr>gr_nodes := gr_nodes g @ [n\<lparr>nd_id := i\<rparr>], gr_next_id := i + 1\<rparr>))"

definition find_node :: "'d graph \<Rightarrow> node_id \<Rightarrow> 'd node option" where
  "find_node g i = find (\<lambda>n. nd_id n = i) (gr_nodes g)"

definition find_pin :: "'d graph \<Rightarrow> node_id \<Rightarrow> pin_id \<Rightarrow> 'd pin option" where
  "find_pin g i p =
     (case find_node g i of None \<Rightarrow> None | Some n \<Rightarrow> find (\<lambda>q. pn_id q = p) (nd_pins n))"

definition endpoint :: "node_id \<Rightarrow> pin_id \<Rightarrow> string" where
  "endpoint n p = ''node='' @ dec_string (unat n) @ ''/pin='' @ dec_string (unat p)"

definition drives :: "node_id \<Rightarrow> pin_id \<Rightarrow> edge \<Rightarrow> bool" where
  "drives n p e \<longleftrightarrow> ed_to_node e = n \<and> ed_to_pin e = p"

definition connect :: "node_id \<Rightarrow> pin_id \<Rightarrow> node_id \<Rightarrow> pin_id \<Rightarrow> 'd graph \<Rightarrow> status \<times> 'd graph" where
  "connect from_node from_pin to_node to_pin g =
     (case find_pin g from_node from_pin of
        None \<Rightarrow> (failure InvalidArgument (''connect: source pin not found at '' @ endpoint from_node from_pin), g)
      | Some from_p \<Rightarrow>
        (case find_pin g to_node to_pin of
           None \<Rightarrow> (failure InvalidArgument (''connect: dest pin not found at '' @ endpoint to_node to_pin), g)
         | Some to_p \<Rightarrow>
             if pn_direction from_p \<noteq> PinOutput then
               (failure InvalidArgument (''connect: source pin '' @ quoted (pn_name from_p) @ '' at '' @
                  endpoint from_node from_pin @ '' is not an output''), g)
             else if pn_direction to_p \<noteq> PinInput then
               (failure InvalidArgument (''connect: dest pin '' @ quoted (pn_name to_p) @ '' at '' @
                  endpoint to_node to_pin @ '' is not an input''), g)
             else if pn_type from_p \<noteq> pn_type to_p then
               (failure InvalidArgument (''connect: type mismatch '' @ em_dash @ '' '' @ endpoint from_node from_pin @
                  '' ('' @ pin_type_name (pn_type from_p) @ '') -> '' @ endpoint to_node to_pin @ '' ('' @
                  pin_type_name (pn_type to_p) @ '')''), g)
             else if pn_unit from_p \<noteq> [] \<and> pn_unit to_p \<noteq> [] \<and> pn_unit from_p \<noteq> pn_unit to_p then
               (failure InvalidArgument (''connect: unit mismatch '' @ em_dash @ '' '' @ endpoint from_node from_pin @
                  '' ('' @ pn_unit from_p @ '') -> '' @ endpoint to_node to_pin @ '' ('' @ pn_unit to_p @ '')''), g)
             else (case find (drives to_node to_pin) (gr_edges g) of
                 Some e \<Rightarrow>
                   (failure InvalidArgument (''connect: dest input '' @ endpoint to_node to_pin @
                      '' is already driven from '' @ endpoint (ed_from_node e) (ed_from_pin e)), g)
               | None \<Rightarrow>
                   (ok, g\<lparr>gr_edges := gr_edges g @ [\<lparr>ed_from_node = from_node, ed_from_pin = from_pin,
                      ed_to_node = to_node, ed_to_pin = to_pin\<rparr>]\<rparr>))))"

definition remove_node :: "node_id \<Rightarrow> 'd graph \<Rightarrow> 'd graph" where
  "remove_node i g = g\<lparr>gr_nodes := filter (\<lambda>n. nd_id n \<noteq> i) (gr_nodes g),
     gr_edges := filter (\<lambda>e. \<not> (ed_from_node e = i \<or> ed_to_node e = i)) (gr_edges g)\<rparr>"

text \<open>A loop over elements that changes the first match and returns.\<close>

fun update_first :: "('a \<Rightarrow> bool) \<Rightarrow> ('a \<Rightarrow> 'a) \<Rightarrow> 'a list \<Rightarrow> 'a list" where
  "update_first P f [] = []"
| "update_first P f (x # xs) = (if P x then f x # xs else x # update_first P f xs)"

definition set_node_position :: "node_id \<Rightarrow> u32 \<Rightarrow> u32 \<Rightarrow> 'd graph \<Rightarrow> 'd graph" where
  "set_node_position i x y g =
     g\<lparr>gr_nodes := update_first (\<lambda>n. nd_id n = i) (\<lambda>n. n\<lparr>nd_x := x, nd_y := y\<rparr>) (gr_nodes g)\<rparr>"

definition set_pin_default :: "node_id \<Rightarrow> pin_id \<Rightarrow> 'd option \<Rightarrow> 'd graph \<Rightarrow> 'd graph" where
  "set_pin_default i p v g =
     g\<lparr>gr_nodes := update_first (\<lambda>n. nd_id n = i)
       (\<lambda>n. n\<lparr>nd_pins := update_first (\<lambda>q. pn_id q = p) (\<lambda>q. q\<lparr>pn_default := v\<rparr>) (nd_pins n)\<rparr>) (gr_nodes g)\<rparr>"

definition remove_edge :: "edge \<Rightarrow> 'd graph \<Rightarrow> 'd graph" where
  "remove_edge t g = g\<lparr>gr_edges := filter (\<lambda>e. e \<noteq> t) (gr_edges g)\<rparr>"

section \<open>Validation\<close>

definition arrow :: string where
  "arrow = [CHR 0xE2, CHR 0x86, CHR 0x92]"

definition edge_tag :: "nat \<Rightarrow> edge \<Rightarrow> string" where
  "edge_tag edge_idx e = ''edge #'' @ dec_string edge_idx @ '' ('' @ endpoint (ed_from_node e) (ed_from_pin e) @
     '' '' @ arrow @ '' '' @ endpoint (ed_to_node e) (ed_to_pin e) @ '')''"

definition validate_edge :: "'d graph \<Rightarrow> nat \<Rightarrow> edge \<Rightarrow> status" where
  "validate_edge g edge_idx e =
     (case (find_pin g (ed_from_node e) (ed_from_pin e), find_pin g (ed_to_node e) (ed_to_pin e)) of
        (Some fp, Some tp) \<Rightarrow>
          if pn_direction fp \<noteq> PinOutput \<or> pn_direction tp \<noteq> PinInput then
            failure ParseError (''validate: '' @ edge_tag edge_idx e @ '' direction wrong (source='' @
              (if pn_direction fp = PinOutput then ''out'' else ''in'') @ '', dest='' @
              (if pn_direction tp = PinInput then ''in'' else ''out'') @ '')'')
          else if pn_type fp \<noteq> pn_type tp then
            failure ParseError (''validate: '' @ edge_tag edge_idx e @ '' type mismatch ('' @
              pin_type_name (pn_type fp) @ '' '' @ arrow @ '' '' @ pin_type_name (pn_type tp) @ '')'')
          else ok
      | (fp, tp) \<Rightarrow>
          failure ParseError (''validate: '' @ edge_tag edge_idx e @ '' references missing pin ('' @
            (if fp = None \<and> tp = None then ''both endpoints'' else if fp = None then ''source'' else ''dest'') @
            '')''))"

fun validate_edges :: "'d graph \<Rightarrow> nat \<Rightarrow> edge list \<Rightarrow> status" where
  "validate_edges g edge_idx [] = ok"
| "validate_edges g edge_idx (e # es) =
     (case validate_edge g edge_idx e of Inl err \<Rightarrow> Inl err | Inr _ \<Rightarrow> validate_edges g (edge_idx + 1) es)"

definition index_of :: "'d node list \<Rightarrow> node_id \<Rightarrow> nat" where
  "index_of ns i = length (takeWhile (\<lambda>n. nd_id n \<noteq> i) ns)"

text \<open>
  Every node is two vertices: its input side \<open>2 * i\<close> and its output side \<open>2 * i + 1\<close>, joined unless the
  node is a phase break.
\<close>

definition append_at :: "nat \<Rightarrow> nat \<Rightarrow> nat list list \<Rightarrow> nat list list" where
  "append_at u v adj = adj[u := adj ! u @ [v]]"

definition edge_adjacency :: "'d graph \<Rightarrow> (nat \<Rightarrow> nat) \<Rightarrow> (nat \<Rightarrow> nat) \<Rightarrow> nat list list" where
  "edge_adjacency g input_v output_v =
     foldl (\<lambda>adj e.
        let a = index_of (gr_nodes g) (ed_from_node e); b = index_of (gr_nodes g) (ed_to_node e) in
        if a \<ge> length (gr_nodes g) \<or> b \<ge> length (gr_nodes g) then adj
        else append_at (output_v a) (input_v b) adj)
       (replicate (length (gr_nodes g) * 2) []) (gr_edges g)"

definition side_adjacency :: "'d graph \<Rightarrow> (nat \<Rightarrow> nat) \<Rightarrow> (nat \<Rightarrow> nat) \<Rightarrow> nat list list \<Rightarrow> nat list list" where
  "side_adjacency g input_v output_v adj =
     foldl (\<lambda>adj i. if nd_phase_break (gr_nodes g ! i) then adj else append_at (input_v i) (output_v i) adj)
       adj [0 ..< length (gr_nodes g)]"

definition validate_adjacency :: "'d graph \<Rightarrow> nat list list" where
  "validate_adjacency g =
     side_adjacency g (\<lambda>i. i * 2) (\<lambda>i. i * 2 + 1) (edge_adjacency g (\<lambda>i. i * 2) (\<lambda>i. i * 2 + 1))"

datatype dfs_mark = Unvisited | OnStack | Done

text \<open>
  The loop of \<open>visit\<close> over the successors of a vertex, with the recursive call: the target of the first
  back edge, or \<open>None\<close>, and the marks.
\<close>

function visit_successors :: "nat list list \<Rightarrow> nat list \<Rightarrow> dfs_mark list \<Rightarrow> nat option \<times> dfs_mark list" where
  "visit_successors adj [] mark = (None, mark)"
| "visit_successors adj (v # vs) mark =
     (if mark ! v = OnStack then (Some v, mark)
      else if v < length mark \<and> mark ! v = Unvisited then
        (case visit_successors adj (adj ! v) (mark[v := OnStack]) of
           (Some c, mark') \<Rightarrow> (Some c, mark')
         | (None, mark') \<Rightarrow> visit_successors adj vs (mark'[v := Done]))
      else visit_successors adj vs mark)"
  by pat_completeness auto

definition unvisited :: "dfs_mark list \<Rightarrow> nat set" where
  "unvisited mark = {v. v < length mark \<and> mark ! v = Unvisited}"

lemma finite_unvisited [simp]: "finite (unvisited mark)"
  by (simp add: unvisited_def)

lemma unvisited_update: "k \<noteq> Unvisited \<Longrightarrow> unvisited (mark[v := k]) = unvisited mark - {v}"
  by (cases "v < length mark") (auto simp: unvisited_def nth_list_update)

lemma visit_successors_grows:
  "visit_successors_dom (adj, vs, mark) \<Longrightarrow> visit_successors adj vs mark = (r, mark') \<Longrightarrow>
     length mark' = length mark \<and> unvisited mark' \<subseteq> unvisited mark"
proof (induction adj vs mark arbitrary: r mark' rule: visit_successors.pinduct)
  case (2 adj v vs mark)
  show ?case
  proof (cases "mark ! v \<noteq> OnStack \<and> v < length mark \<and> mark ! v = Unvisited")
    case True
    obtain r1 m1 where m1: "visit_successors adj (adj ! v) (mark[v := OnStack]) = (r1, m1)" by force
    have s: "length m1 = length mark" "unvisited m1 \<subseteq> unvisited (mark[v := OnStack])"
      using "2.IH"(1) [OF _ _ m1] True by auto
    have le: "unvisited (mark[v := OnStack]) \<subseteq> unvisited mark" "unvisited (m1[v := Done]) \<subseteq> unvisited m1"
      by (auto simp: unvisited_update)
    show ?thesis
    proof (cases r1)
      case None
      have "visit_successors adj vs (m1[v := Done]) = (r, mark')"
        using "2.prems" True m1 None by (simp add: visit_successors.psimps(2) [OF "2.hyps"])
      from "2.IH"(2) [OF _ _ m1 [symmetric] None this] True
      have "length mark' = length (m1[v := Done])" "unvisited mark' \<subseteq> unvisited (m1[v := Done])" by auto
      with s le show ?thesis by auto
    next
      case (Some c)
      then have "mark' = m1" using "2.prems" True m1 by (simp add: visit_successors.psimps(2) [OF "2.hyps"])
      with s le show ?thesis by auto
    qed
  next
    case False
    show ?thesis
    proof (cases "mark ! v = OnStack")
      case True
      then show ?thesis using "2.prems" by (simp add: visit_successors.psimps(2) [OF "2.hyps"])
    next
      case no: False
      then have "visit_successors adj vs mark = (r, mark')"
        using "2.prems" False by (simp add: visit_successors.psimps(2) [OF "2.hyps"] split: if_splits)
      with "2.IH"(3) [OF no] False no show ?thesis by blast
    qed
  qed
qed (simp add: visit_successors.psimps)

termination visit_successors
proof (relation "inv_image (finite_psubset <*lex*> less_than) (\<lambda>(adj, vs, mark). (unvisited mark, length vs))")
  show "wf (inv_image (finite_psubset <*lex*> less_than)
      (\<lambda>(adj :: nat list list, vs :: nat list, mark). (unvisited mark, length vs)))" by auto
next
  fix adj :: "nat list list" and v :: nat and vs mark
  assume "mark ! v \<noteq> OnStack" "v < length mark \<and> mark ! v = Unvisited"
  then have "v \<in> unvisited mark" by (simp add: unvisited_def)
  then have "unvisited (mark[v := OnStack]) \<subset> unvisited mark" by (simp add: unvisited_update) blast
  then show "((adj, adj ! v, mark[v := OnStack]), adj, v # vs, mark) \<in>
      inv_image (finite_psubset <*lex*> less_than) (\<lambda>(adj, vs, mark). (unvisited mark, length vs))"
    by (simp add: finite_psubset_def)
next
  fix adj :: "nat list list" and v :: nat and vs mark and r :: "nat option" and mark'
  assume c: "mark ! v \<noteq> OnStack" "v < length mark \<and> mark ! v = Unvisited"
    and x: "(r, mark') = visit_successors adj (adj ! v) (mark[v := OnStack])" "r = None"
    and dom: "visit_successors_dom (adj, adj ! v, mark[v := OnStack])"
  have "unvisited mark' \<subseteq> unvisited (mark[v := OnStack])"
    using visit_successors_grows [OF dom, of r mark'] x by simp
  moreover have "unvisited (mark'[v := Done]) = unvisited mark' - {v}"
      "unvisited (mark[v := OnStack]) = unvisited mark - {v}"
    by (simp_all add: unvisited_update)
  moreover have "v \<in> unvisited mark" using c by (simp add: unvisited_def)
  ultimately have "unvisited (mark'[v := Done]) \<subset> unvisited mark" by blast
  then show "((adj, vs, mark'[v := Done]), adj, v # vs, mark) \<in>
      inv_image (finite_psubset <*lex*> less_than) (\<lambda>(adj, vs, mark). (unvisited mark, length vs))"
    by (simp add: finite_psubset_def)
qed auto

definition visit :: "nat list list \<Rightarrow> nat \<Rightarrow> dfs_mark list \<Rightarrow> nat option \<times> dfs_mark list" where
  "visit adj u mark =
     (case visit_successors adj (adj ! u) (mark[u := OnStack]) of
        (Some c, mark') \<Rightarrow> (Some c, mark')
      | (None, mark') \<Rightarrow> (None, mark'[u := Done]))"

fun find_cycle :: "nat list list \<Rightarrow> nat list \<Rightarrow> dfs_mark list \<Rightarrow> nat option" where
  "find_cycle adj [] mark = None"
| "find_cycle adj (i # is) mark =
     (if mark ! i = Unvisited then
        (case visit adj i mark of
           (Some c, _) \<Rightarrow> Some c
         | (None, mark') \<Rightarrow> find_cycle adj is mark')
      else find_cycle adj is mark)"

definition cycle_text :: "'d node \<Rightarrow> string" where
  "cycle_text n = ''validate: graph has a cycle (back-edge into node id '' @ dec_string (unat (nd_id n)) @
     (if nd_label n \<noteq> [] then '' '' @ quoted (nd_label n)
      else if nd_kind n \<noteq> [] then '' kind='' @ quoted (nd_kind n) else []) @ '')''"

definition validate :: "'d graph \<Rightarrow> status" where
  "validate g =
     (case validate_edges g 0 (gr_edges g) of
        Inl e \<Rightarrow> Inl e
      | Inr _ \<Rightarrow>
          let nv = length (gr_nodes g) * 2 in
          (case find_cycle (validate_adjacency g) [0 ..< nv] (replicate nv Unvisited) of
             None \<Rightarrow> ok
           | Some v \<Rightarrow> failure ParseError (cycle_text (gr_nodes g ! (v div 2)))))"

section \<open>The graph linter\<close>

record graph_finding =
  gf_message :: string
  gf_node :: "node_id option"
  gf_pin :: "pin_id option"

definition node_display :: "'d node \<Rightarrow> string" where
  "node_display n = (if nd_label n \<noteq> [] then nd_label n else nd_kind n)"

definition undriven :: "'d graph \<Rightarrow> 'd node \<Rightarrow> 'd pin \<Rightarrow> bool" where
  "undriven g n p \<longleftrightarrow> pn_direction p = PinInput \<and> \<not> list_ex (drives (nd_id n) (pn_id p)) (gr_edges g) \<and>
     pn_default p = None"

definition lint_node :: "'d graph \<Rightarrow> 'd node \<Rightarrow> graph_finding list" where
  "lint_node g n =
     (if list_ex (\<lambda>p. pn_direction p = PinInput) (nd_pins n) \<and>
         \<not> list_ex (\<lambda>e. ed_from_node e = nd_id n \<or> ed_to_node e = nd_id n) (gr_edges g) then
        [\<lparr>gf_message = ''node '' @ quoted (node_display n) @ '' has no connections'', gf_node = Some (nd_id n),
          gf_pin = None\<rparr>]
      else map (\<lambda>p. \<lparr>gf_message = ''input pin '' @ quoted (pn_name p) @ '' on node '' @ quoted (node_display n) @
            '' is not driven'', gf_node = Some (nd_id n), gf_pin = Some (pn_id p)\<rparr>)
          (filter (undriven g n) (nd_pins n)))"

definition graph_lint :: "'d graph \<Rightarrow> graph_finding list" where
  "graph_lint g = concat (map (lint_node g) (gr_nodes g))"

end
