(* ===== verification/Graph_Valid.thy ===== *)
theory Graph_Valid
  imports Feature_Graph
begin

text \<open>
  What the validation of a graph decides: the depth-first search reports a back edge exactly when the
  graph of node sides has a cycle; and what editing keeps: the endpoints of every edge exist and
  agree, so that a graph built with the editing operations can only be refused for a cycle.
\<close>

section \<open>The search\<close>

definition successor_rel :: "nat list list \<Rightarrow> (nat \<times> nat) set" where
  "successor_rel adj = {(u, v). u < length adj \<and> v \<in> set (adj ! u)}"

definition wf_adjacency :: "nat list list \<Rightarrow> bool" where
  "wf_adjacency adj \<longleftrightarrow> (\<forall>u < length adj. \<forall>v \<in> set (adj ! u). v < length adj)"

definition marked :: "dfs_mark \<Rightarrow> dfs_mark list \<Rightarrow> nat set" where
  "marked k mark = {v. v < length mark \<and> mark ! v = k}"

text \<open>The finished vertices are closed under successors and lie on no cycle.\<close>

definition search_inv :: "nat list list \<Rightarrow> dfs_mark list \<Rightarrow> bool" where
  "search_inv adj mark \<longleftrightarrow> length mark = length adj \<and>
     successor_rel adj `` marked Done mark \<subseteq> marked Done mark \<and>
     acyclic (successor_rel adj \<inter> marked Done mark \<times> UNIV)"

lemma marked_update:
  "v < length mark \<Longrightarrow> marked k (mark[v := j]) = (if k = j then insert v (marked k mark) else marked k mark - {v})"
  by (auto simp: marked_def nth_list_update)

lemma successors_marked:
  "v < length adj \<Longrightarrow> successor_rel adj `` {v} = set (adj ! v)"
  by (auto simp: successor_rel_def)

lemma search_inv_finish:
  assumes "search_inv adj mark" "v < length mark" "v \<notin> marked Done mark" "set (adj ! v) \<subseteq> marked Done mark"
  shows "search_inv adj (mark[v := Done])"
proof -
  let ?D = "marked Done mark" and ?E = "successor_rel adj"
  let ?R = "?E \<inter> insert v ?D \<times> UNIV"
  have len: "length mark = length adj" and closed: "?E `` ?D \<subseteq> ?D" and acyc: "acyclic (?E \<inter> ?D \<times> UNIV)"
    using assms(1) by (simp_all add: search_inv_def)
  have v: "?E `` {v} \<subseteq> ?D" using assms(2,4) len by (simp add: successors_marked)
  have path: "y \<in> ?D \<and> (x \<in> ?D \<longrightarrow> (x, y) \<in> (?E \<inter> ?D \<times> UNIV)\<^sup>+)" if "(x, y) \<in> ?R\<^sup>+" for x y
    using that
  proof (induction rule: trancl_induct)
    case (base y)
    then show ?case using closed v by auto
  next
    case (step y z)
    then have "(y, z) \<in> ?E \<inter> ?D \<times> UNIV" by auto
    with step.IH closed show ?case by (auto intro: trancl_into_trancl)
  qed
  have "acyclic ?R"
  proof (rule acyclicI, intro allI notI)
    fix x assume "(x, x) \<in> ?R\<^sup>+"
    then have "(x, x) \<in> (?E \<inter> ?D \<times> UNIV)\<^sup>+" using path by blast
    with acyc show False by (simp add: acyclic_def)
  qed
  then show ?thesis using closed v assms(2) len by (auto simp: search_inv_def marked_update)
qed

lemma visit_successors_None:
  assumes "visit_successors adj vs mark = (None, mark')" "wf_adjacency adj" "search_inv adj mark"
    and "\<forall>v \<in> set vs. v < length adj"
  shows "search_inv adj mark' \<and> marked Done mark \<subseteq> marked Done mark' \<and> set vs \<subseteq> marked Done mark' \<and>
    marked OnStack mark' = marked OnStack mark"
  using assms
proof (induction adj vs mark arbitrary: mark' rule: visit_successors.induct)
  case (2 adj v vs mark)
  have len: "length mark = length adj" using "2.prems"(3) by (simp add: search_inv_def)
  have v: "v < length adj" using "2.prems"(4) by simp
  have on: "mark ! v \<noteq> OnStack" using "2.prems"(1) by (auto split: if_splits)
  show ?case
  proof (cases "mark ! v = Unvisited")
    case True
    with "2.prems"(1) v len obtain m1 where m1: "visit_successors adj (adj ! v) (mark[v := OnStack]) = (None, m1)"
        "visit_successors adj vs (m1[v := Done]) = (None, mark')"
      by (auto split: prod.splits option.splits)
    have c: "v < length mark \<and> mark ! v = Unvisited" using True v len by simp
    have "marked Done (mark[v := OnStack]) = marked Done mark"
      using c by (auto simp: marked_update) (simp add: marked_def)
    then have inv: "search_inv adj (mark[v := OnStack])" using "2.prems"(3) by (simp add: search_inv_def)
    have "\<forall>u \<in> set (adj ! v). u < length adj" using "2.prems"(2) v by (simp add: wf_adjacency_def)
    note IH1 = "2.IH"(1) [OF on c m1(1) "2.prems"(2) inv this]
    have l1: "length m1 = length adj" "v < length m1" using IH1 v by (simp_all add: search_inv_def)
    have "v \<in> marked OnStack m1" using IH1 c by (auto simp: marked_update)
    then have "v \<notin> marked Done m1" by (simp add: marked_def)
    then have "search_inv adj (m1[v := Done])" using IH1 l1(2) by (intro search_inv_finish) simp_all
    from "2.IH"(2) [OF on c m1(1) [symmetric] refl m1(2) "2.prems"(2) this]
    have IH2: "search_inv adj mark'" "marked Done (m1[v := Done]) \<subseteq> marked Done mark'"
        "set vs \<subseteq> marked Done mark'" "marked OnStack mark' = marked OnStack (m1[v := Done])"
      using "2.prems"(4) by simp_all
    have "v \<notin> marked OnStack mark" using c by (simp add: marked_def)
    then have "marked OnStack (m1[v := Done]) = marked OnStack mark"
      using IH1 l1(2) c by (auto simp: marked_update)
    moreover have "insert v (marked Done mark) \<subseteq> marked Done (m1[v := Done])"
      using IH1 l1(2) \<open>marked Done (mark[v := OnStack]) = marked Done mark\<close> by (auto simp: marked_update)
    ultimately show ?thesis using IH2 by auto
  next
    case False
    then have "visit_successors adj vs mark = (None, mark')" using "2.prems"(1) on by simp
    with "2.IH"(3) [OF on] False "2.prems"
    have "search_inv adj mark' \<and> marked Done mark \<subseteq> marked Done mark' \<and> set vs \<subseteq> marked Done mark' \<and>
        marked OnStack mark' = marked OnStack mark" by simp
    moreover have "v \<in> marked Done mark" using False on v len by (cases "mark ! v") (auto simp: marked_def)
    ultimately show ?thesis by auto
  qed
qed simp

lemma visit_successors_Some:
  assumes "visit_successors adj vs mark = (Some c, mark')" "wf_adjacency adj" "search_inv adj mark"
    and "\<forall>v \<in> set vs. v < length adj \<and> (\<forall>w \<in> marked OnStack mark. (w, v) \<in> (successor_rel adj)\<^sup>+)"
  shows "c < length adj \<and> (c, c) \<in> (successor_rel adj)\<^sup>+"
  using assms
proof (induction adj vs mark arbitrary: mark' rule: visit_successors.induct)
  case (2 adj v vs mark)
  let ?E = "successor_rel adj"
  have len: "length mark = length adj" using "2.prems"(3) by (simp add: search_inv_def)
  have v: "v < length adj" using "2.prems"(4) by simp
  show ?case
  proof (cases "mark ! v = OnStack")
    case True
    then have "c = v" using "2.prems"(1) by simp
    moreover have "v \<in> marked OnStack mark" using True v len by (simp add: marked_def)
    ultimately show ?thesis using v "2.prems"(4) by simp
  next
    case on: False
    show ?thesis
    proof (cases "mark ! v = Unvisited")
      case True
      then have c: "v < length mark \<and> mark ! v = Unvisited" using v len by simp
      have "marked Done (mark[v := OnStack]) = marked Done mark"
        using c by (auto simp: marked_update) (simp add: marked_def)
      then have inv: "search_inv adj (mark[v := OnStack])" using "2.prems"(3) by (simp add: search_inv_def)
      have succ: "\<forall>w \<in> set (adj ! v). w < length adj" using "2.prems"(2) v by (auto simp: wf_adjacency_def)
      have stack: "(w, x) \<in> ?E\<^sup>+" if "w \<in> marked OnStack (mark[v := OnStack])" "x \<in> set (adj ! v)" for w x
      proof -
        have "(v, x) \<in> ?E" using v that(2) by (simp add: successor_rel_def)
        then show ?thesis using that(1) "2.prems"(4) c by (auto simp: marked_update intro: trancl_into_trancl)
      qed
      obtain r m1 where m1: "visit_successors adj (adj ! v) (mark[v := OnStack]) = (r, m1)" by force
      show ?thesis
      proof (cases r)
        case (Some d)
        then have "d = c" using "2.prems"(1) on c m1 by simp
        with "2.IH"(1) [OF on c _ "2.prems"(2) inv] m1 Some succ stack show ?thesis by blast
      next
        case None
        have rest: "visit_successors adj vs (m1[v := Done]) = (Some c, mark')"
          using "2.prems"(1) on c m1 None by simp
        have IH1: "search_inv adj m1" "set (adj ! v) \<subseteq> marked Done m1" "marked OnStack m1 = marked OnStack (mark[v := OnStack])"
          using visit_successors_None [OF m1 [unfolded None] "2.prems"(2) inv] succ by auto
        have l1: "v < length m1" using IH1(1) v by (simp add: search_inv_def)
        have "v \<in> marked OnStack m1" using IH1(3) c by (simp add: marked_update)
        then have "v \<notin> marked Done m1" by (simp add: marked_def)
        then have inv1: "search_inv adj (m1[v := Done])" using IH1 l1 by (intro search_inv_finish)
        have "marked OnStack (m1[v := Done]) \<subseteq> marked OnStack mark"
          using IH1(3) l1 c by (auto simp: marked_update)
        then have "\<forall>x \<in> set vs. x < length adj \<and> (\<forall>w \<in> marked OnStack (m1[v := Done]). (w, x) \<in> ?E\<^sup>+)"
          using "2.prems"(4) by auto
        with "2.IH"(2) [OF on c m1 [symmetric] None rest "2.prems"(2) inv1] show ?thesis by blast
      qed
    next
      case False
      then have "visit_successors adj vs mark = (Some c, mark')" using "2.prems"(1) on by simp
      with "2.IH"(3) [OF on] False "2.prems"(2-4) show ?thesis by simp
    qed
  qed
qed simp

lemma visit_successors_single:
  "i < length mark \<Longrightarrow> mark ! i = Unvisited \<Longrightarrow> visit adj i mark = visit_successors adj [i] mark"
  by (simp add: visit_def split: prod.split option.split)

lemma find_cycle_iff:
  assumes "wf_adjacency adj" "search_inv adj mark" "marked OnStack mark = {}" "\<forall>i \<in> set is. i < length adj"
    and "{..< length adj} \<subseteq> marked Done mark \<union> set is"
  shows "(case find_cycle adj is mark of None \<Rightarrow> acyclic (successor_rel adj)
    | Some c \<Rightarrow> c < length adj \<and> (c, c) \<in> (successor_rel adj)\<^sup>+)"
  using assms(2-)
proof (induction "is" arbitrary: mark)
  case Nil
  then have "successor_rel adj \<inter> marked Done mark \<times> UNIV = successor_rel adj" by (auto simp: successor_rel_def)
  with Nil show ?case by (simp add: search_inv_def)
next
  case (Cons i "is")
  have i: "i < length adj" "i < length mark" using Cons.prems(1,3) by (simp_all add: search_inv_def)
  show ?case
  proof (cases "mark ! i = Unvisited")
    case False
    then have "i \<in> marked Done mark" using Cons.prems(2) i by (cases "mark ! i") (auto simp: marked_def)
    with False Cons show ?thesis by auto
  next
    case True
    obtain r m1 where r: "visit adj i mark = (r, m1)" by force
    then have v: "visit_successors adj [i] mark = (r, m1)" using visit_successors_single [OF i(2) True] by simp
    show ?thesis
    proof (cases r)
      case (Some c)
      have "c < length adj \<and> (c, c) \<in> (successor_rel adj)\<^sup>+"
        using Cons.prems(1,2) i by (intro visit_successors_Some [OF v [unfolded Some] assms(1)]) auto
      with Some r True show ?thesis by simp
    next
      case None
      have "search_inv adj m1 \<and> marked Done mark \<subseteq> marked Done m1 \<and> set [i] \<subseteq> marked Done m1 \<and>
          marked OnStack m1 = marked OnStack mark"
        using Cons.prems(1) i by (intro visit_successors_None [OF v [unfolded None] assms(1)]) auto
      then have "(case find_cycle adj is m1 of None \<Rightarrow> acyclic (successor_rel adj)
          | Some c \<Rightarrow> c < length adj \<and> (c, c) \<in> (successor_rel adj)\<^sup>+)"
        using Cons.prems by (intro Cons.IH) auto
      with None r True show ?thesis by simp
    qed
  qed
qed

corollary find_cycle_correct:
  assumes "wf_adjacency adj"
  shows "find_cycle adj [0 ..< length adj] (replicate (length adj) Unvisited) = None \<longleftrightarrow> acyclic (successor_rel adj)"
proof -
  have "marked k (replicate (length adj) Unvisited) = (if k = Unvisited then {..< length adj} else {})" for k
    by (auto simp: marked_def)
  then have "case find_cycle adj [0 ..< length adj] (replicate (length adj) Unvisited) of
      None \<Rightarrow> acyclic (successor_rel adj) | Some c \<Rightarrow> c < length adj \<and> (c, c) \<in> (successor_rel adj)\<^sup>+"
    by (intro find_cycle_iff [OF assms]) (auto simp: search_inv_def acyclic_def)
  then show ?thesis by (auto simp: acyclic_def split: option.splits)
qed

section \<open>Adjacency lists as links\<close>

text \<open>
  Both passes over a graph (the one here and the scheduling one) build adjacency lists from the same
  pairs of node sides, under their own numbering of input and output sides.
\<close>

definition resolved :: "'d graph \<Rightarrow> edge \<Rightarrow> bool" where
  "resolved g e \<longleftrightarrow> index_of (gr_nodes g) (ed_from_node e) < length (gr_nodes g) \<and>
     index_of (gr_nodes g) (ed_to_node e) < length (gr_nodes g)"

definition edge_links :: "'d graph \<Rightarrow> (nat \<Rightarrow> nat) \<Rightarrow> (nat \<Rightarrow> nat) \<Rightarrow> (nat \<times> nat) list" where
  "edge_links g input_v output_v =
     map (\<lambda>e. (output_v (index_of (gr_nodes g) (ed_from_node e)), input_v (index_of (gr_nodes g) (ed_to_node e))))
       (filter (resolved g) (gr_edges g))"

definition inner_links :: "'d graph \<Rightarrow> (nat \<Rightarrow> nat) \<Rightarrow> (nat \<Rightarrow> nat) \<Rightarrow> (nat \<times> nat) list" where
  "inner_links g input_v output_v =
     map (\<lambda>i. (input_v i, output_v i)) (filter (\<lambda>i. \<not> nd_phase_break (gr_nodes g ! i)) [0 ..< length (gr_nodes g)])"

definition side_links :: "'d graph \<Rightarrow> (nat \<Rightarrow> nat) \<Rightarrow> (nat \<Rightarrow> nat) \<Rightarrow> (nat \<times> nat) list" where
  "side_links g input_v output_v = edge_links g input_v output_v @ inner_links g input_v output_v"

lemma foldl_skip: "foldl (\<lambda>a x. if P x then f a x else a) a xs = foldl f a (filter P xs)"
  by (induction xs arbitrary: a) simp_all

lemma foldl_over_map: "foldl f a (map h xs) = foldl (\<lambda>a x. f a (h x)) a xs"
  by (induction xs arbitrary: a) simp_all


definition add_links :: "nat list list \<Rightarrow> (nat \<times> nat) list \<Rightarrow> nat list list" where
  "add_links adj ps = foldl (\<lambda>adj p. append_at (fst p) (snd p) adj) adj ps"

lemma validate_adjacency_links:
  "validate_adjacency g =
     add_links (replicate (length (gr_nodes g) * 2) []) (side_links g (\<lambda>i. i * 2) (\<lambda>i. i * 2 + 1))"
proof -
  have "edge_adjacency g i out = add_links (replicate (length (gr_nodes g) * 2) []) (edge_links g i out)" for i out
    unfolding edge_adjacency_def add_links_def edge_links_def foldl_over_map foldl_skip [symmetric]
    by (intro arg_cong [where f = "\<lambda>f. foldl f (replicate (length (gr_nodes g) * 2) []) (gr_edges g)"] ext)
      (simp add: resolved_def Let_def not_le)
  moreover have "side_adjacency g i out adj = add_links adj (inner_links g i out)" for i out adj
    unfolding side_adjacency_def add_links_def inner_links_def foldl_over_map foldl_skip [symmetric]
    by (intro arg_cong [where f = "\<lambda>f. foldl f adj [0 ..< length (gr_nodes g)]"] ext) simp
  ultimately show ?thesis by (simp add: validate_adjacency_def side_links_def add_links_def)
qed

lemma length_add_links [simp]: "length (add_links adj ps) = length adj"
  by (induction ps arbitrary: adj) (simp_all add: add_links_def append_at_def)

lemma nth_add_links:
  "u < length adj \<Longrightarrow> add_links adj ps ! u = adj ! u @ map snd (filter (\<lambda>p. fst p = u) ps)"
proof (induction ps arbitrary: adj)
  case (Cons p ps)
  then show ?case
    using Cons.IH [of "append_at (fst p) (snd p) adj"]
    by (auto simp: add_links_def append_at_def nth_list_update)
qed (simp add: add_links_def)

definition links_below :: "nat \<Rightarrow> (nat \<times> nat) list \<Rightarrow> bool" where
  "links_below n ps \<longleftrightarrow> (\<forall>p \<in> set ps. fst p < n \<and> snd p < n)"

lemma links_adjacency:
  assumes "links_below n ps"
  shows "successor_rel (add_links (replicate n []) ps) = set ps" "wf_adjacency (add_links (replicate n []) ps)"
  using assms by (auto simp: successor_rel_def wf_adjacency_def links_below_def nth_add_links image_iff; force)+

lemma side_links_below:
  "links_below (length (gr_nodes g) * 2) (side_links g (\<lambda>i. i * 2) (\<lambda>i. i * 2 + 1))"
  "links_below (length (gr_nodes g) * 2) (side_links g (\<lambda>i. i * 2 + 1) (\<lambda>i. i * 2))"
  by (auto simp: links_below_def side_links_def edge_links_def inner_links_def resolved_def)

section \<open>What validation decides\<close>

text \<open>The sides of the nodes: an edge leads from an output to an input side, a node from its input to its output.\<close>

definition dependencies :: "'d graph \<Rightarrow> (nat \<times> nat) set" where
  "dependencies g = set (side_links g (\<lambda>i. i * 2) (\<lambda>i. i * 2 + 1))"

definition edge_ok :: "'d graph \<Rightarrow> edge \<Rightarrow> bool" where
  "edge_ok g e \<longleftrightarrow> (\<exists>fp tp. find_pin g (ed_from_node e) (ed_from_pin e) = Some fp \<and>
     find_pin g (ed_to_node e) (ed_to_pin e) = Some tp \<and> pn_direction fp = PinOutput \<and>
     pn_direction tp = PinInput \<and> pn_type fp = pn_type tp)"

lemma validate_edge_ok: "validate_edge g i e = ok \<longleftrightarrow> edge_ok g e"
  by (auto simp: validate_edge_def edge_ok_def failure_def split: option.splits)

lemma validate_edges_ok: "validate_edges g i es = ok \<longleftrightarrow> (\<forall>e \<in> set es. edge_ok g e)"
proof (induction es arbitrary: i)
  case (Cons e es)
  then show ?case using validate_edge_ok [of g i e]
    by (cases "validate_edge g i e") auto
qed simp

theorem validate_correct:
  "validate g = ok \<longleftrightarrow> (\<forall>e \<in> set (gr_edges g). edge_ok g e) \<and> acyclic (dependencies g)"
proof -
  let ?n = "length (gr_nodes g) * 2"
  have "find_cycle (validate_adjacency g) [0 ..< ?n] (replicate ?n Unvisited) = None \<longleftrightarrow> acyclic (dependencies g)"
    using find_cycle_correct [OF links_adjacency(2) [OF side_links_below(1) [of g]]]
    unfolding validate_adjacency_links dependencies_def links_adjacency(1) [OF side_links_below(1)] by simp
  then show ?thesis
    using validate_edges_ok [of g 0 "gr_edges g"]
    by (auto simp: validate_def failure_def Let_def split: sum.splits option.splits)
qed

end
