(* ===== verification/Feature_Lower.thy ===== *)
theory Feature_Lower
  imports Feature_Graph
begin

text \<open>
  Lowering a feature graph to the IR (src/feature/src/feature_ir.cpp): the order in which the sides of
  the nodes are visited, the instructions each visit emits, and the cost estimate, linter and dump of
  a module.
\<close>

section \<open>The schedule\<close>

text \<open>Here the output side of node \<open>i\<close> is vertex \<open>2 * i\<close> and its input side \<open>2 * i + 1\<close>.\<close>

definition link :: "nat \<Rightarrow> nat \<Rightarrow> nat list list \<times> nat list \<Rightarrow> nat list list \<times> nat list" where
  "link u v s = (append_at u v (fst s), (snd s)[v := snd s ! v + 1])"

definition link_edge :: "'d graph \<Rightarrow> nat list list \<times> nat list \<Rightarrow> edge \<Rightarrow> nat list list \<times> nat list" where
  "link_edge g s e =
     (let a = index_of (gr_nodes g) (ed_from_node e); b = index_of (gr_nodes g) (ed_to_node e) in
      if a \<ge> length (gr_nodes g) \<or> b \<ge> length (gr_nodes g) then s else link (a * 2) (b * 2 + 1) s)"

definition link_sides :: "'d graph \<Rightarrow> nat list list \<times> nat list \<Rightarrow> nat \<Rightarrow> nat list list \<times> nat list" where
  "link_sides g s i = (if nd_phase_break (gr_nodes g ! i) then s else link (i * 2 + 1) (i * 2) s)"

definition schedule_links :: "'d graph \<Rightarrow> nat list list \<times> nat list" where
  "schedule_links g =
     (let nv = length (gr_nodes g) * 2 in
      foldl (link_sides g) (foldl (link_edge g) (replicate nv [], replicate nv 0) (gr_edges g))
        [0 ..< length (gr_nodes g)])"

text \<open>\<open>--indeg[w]\<close> on a \<open>std::size_t\<close>.\<close>

definition pred_size :: "nat \<Rightarrow> nat" where
  "pred_size n = (if n = 0 then 2 ^ 64 - 1 else n - 1)"

definition release :: "nat list \<times> nat list \<Rightarrow> nat \<Rightarrow> nat list \<times> nat list" where
  "release s w =
     (let d = pred_size (snd s ! w) in (if d = 0 then fst s @ [w] else fst s, (snd s)[w := d]))"

partial_function (option) schedule_loop ::
    "nat list list \<Rightarrow> nat list \<Rightarrow> nat list \<Rightarrow> nat list \<Rightarrow> nat list option" where
  "schedule_loop adj queue indeg order =
     (if queue = [] then Some order
      else let v = last queue; s = foldl release (butlast queue, indeg) (adj ! v) in
        schedule_loop adj (fst s) (snd s) (order @ [v]))"

declare schedule_loop.simps [code]

record sched_slot =
  ss_node_index :: nat
  ss_is_input_side :: bool

definition schedule :: "'d graph \<Rightarrow> sched_slot list option" where
  "schedule g =
     (let (adj, indeg) = schedule_links g in
      map_option (map (\<lambda>v. \<lparr>ss_node_index = v div 2, ss_is_input_side = v mod 2 = 1\<rparr>))
        (schedule_loop adj (filter (\<lambda>v. indeg ! v = 0) [0 ..< length (gr_nodes g) * 2]) indeg []))"

section \<open>lower\<close>

definition strip_kind_prefix :: "string \<Rightarrow> string" where
  "strip_kind_prefix kind =
     (if is_prefix_of ''hook.'' kind then drop 5 kind
      else if is_prefix_of ''primitive.'' kind then drop 10 kind else kind)"

record 'd lower_state =
  ls_module :: "'d ir_module"
  ls_next_id :: value_id
  ls_value_of :: "u64 \<rightharpoonup> value_id"

definition make_key :: "node_id \<Rightarrow> pin_id \<Rightarrow> u64" where
  "make_key nid pid = push_bit 32 (ucast nid) OR ucast pid"

definition find_driver :: "'d graph \<Rightarrow> node_id \<Rightarrow> pin_id \<Rightarrow> (node_id \<times> pin_id) option" where
  "find_driver g nid pid =
     map_option (\<lambda>e. (ed_from_node e, ed_from_pin e)) (find (drives nid pid) (gr_edges g))"

definition blank_instruction :: "'d instruction" where
  "blank_instruction = \<lparr>ins_op = LoadConstant, ins_type = PinFloat, ins_id = 0, ins_symbol = [], ins_pin = [],
     ins_operands = [], ins_operand_pins = [], ins_constant = None\<rparr>"

definition load_constant :: "'d pin \<Rightarrow> 'd \<Rightarrow> value_id \<Rightarrow> 'd instruction" where
  "load_constant p d v = blank_instruction\<lparr>ins_op := LoadConstant, ins_type := pn_type p, ins_id := v,
     ins_constant := Some d\<rparr>"

definition load_hook_input :: "string \<Rightarrow> 'd pin \<Rightarrow> value_id \<Rightarrow> 'd instruction" where
  "load_hook_input symbol p v = blank_instruction\<lparr>ins_op := LoadHookInput, ins_type := pn_type p, ins_id := v,
     ins_symbol := symbol, ins_pin := pn_name p\<rparr>"

definition store_hook_output :: "string \<Rightarrow> 'd pin \<Rightarrow> value_id \<Rightarrow> 'd instruction" where
  "store_hook_output symbol p src = blank_instruction\<lparr>ins_op := StoreHookOutput, ins_symbol := symbol,
     ins_pin := pn_name p, ins_operands := [src]\<rparr>"

definition call_primitive ::
    "string \<Rightarrow> 'd pin \<Rightarrow> value_id list \<Rightarrow> string list \<Rightarrow> value_id \<Rightarrow> 'd instruction" where
  "call_primitive symbol p operands operand_pins v = blank_instruction\<lparr>ins_op := CallPrimitive,
     ins_type := pn_type p, ins_id := v, ins_symbol := symbol, ins_pin := pn_name p,
     ins_operands := operands, ins_operand_pins := operand_pins\<rparr>"

text \<open>Emitting an instruction with a fresh id.\<close>

definition emit_value :: "(value_id \<Rightarrow> 'd instruction) \<Rightarrow> 'd lower_state \<Rightarrow> 'd lower_state" where
  "emit_value ins st = st\<lparr>ls_module := ls_module st @ [ins (ls_next_id st)], ls_next_id := ls_next_id st + 1\<rparr>"

text \<open>The same for an output pin, whose value the id becomes.\<close>

definition emit_pin :: "node_id \<Rightarrow> 'd pin \<Rightarrow> (value_id \<Rightarrow> 'd instruction) \<Rightarrow> 'd lower_state \<Rightarrow> 'd lower_state" where
  "emit_pin nid p ins st =
     emit_value ins (st\<lparr>ls_value_of := (ls_value_of st)(make_key nid (pn_id p) \<mapsto> ls_next_id st)\<rparr>)"

text \<open>The value of an input pin: its driver's, or a constant; the two texts are those of the callers.\<close>

definition pin_source ::
    "'d graph \<Rightarrow> string \<Rightarrow> string \<Rightarrow> 'd node \<Rightarrow> 'd pin \<Rightarrow> 'd lower_state \<Rightarrow> (value_id \<times> 'd lower_state) result" where
  "pin_source g what unscheduled n p st =
     (case find_driver g (nd_id n) (pn_id p) of
        Some (a, b) \<Rightarrow>
          (case ls_value_of st (make_key a b) of
             None \<Rightarrow> failure InvalidArgument (''ir::lower: '' @ what @ '' input pin '' @ quoted (pn_name p) @
               '' driver not yet scheduled'' @ unscheduled)
           | Some v \<Rightarrow> Inr (v, st))
      | None \<Rightarrow>
          (case pn_default p of
             Some d \<Rightarrow> Inr (ls_next_id st, emit_value (load_constant p d) st)
           | None \<Rightarrow> failure InvalidArgument (''ir::lower: '' @ what @ '' input pin '' @ quoted (pn_name p) @
               '' on '' @ quoted (strip_kind_prefix (nd_kind n)) @ '' has no driver and no default_value'')))"

definition pins_of :: "pin_direction \<Rightarrow> 'd node \<Rightarrow> 'd pin list" where
  "pins_of d n = filter (\<lambda>p. pn_direction p = d) (nd_pins n)"

definition lower_hook_loads :: "'d node \<Rightarrow> 'd lower_state \<Rightarrow> 'd lower_state" where
  "lower_hook_loads n st =
     foldl (\<lambda>st p. emit_pin (nd_id n) p (load_hook_input (strip_kind_prefix (nd_kind n)) p) st) st
       (pins_of PinOutput n)"

fun lower_hook_stores :: "'d graph \<Rightarrow> 'd node \<Rightarrow> 'd pin list \<Rightarrow> 'd lower_state \<Rightarrow> 'd lower_state result" where
  "lower_hook_stores g n [] st = Inr st"
| "lower_hook_stores g n (p # ps) st =
     (case pin_source g ''hook'' '' (graph topology bug?)'' n p st of
        Inl e \<Rightarrow> Inl e
      | Inr (src, st') \<Rightarrow>
          lower_hook_stores g n ps
            (st'\<lparr>ls_module := ls_module st' @ [store_hook_output (strip_kind_prefix (nd_kind n)) p src]\<rparr>))"

fun lower_operands ::
    "'d graph \<Rightarrow> 'd node \<Rightarrow> 'd pin list \<Rightarrow> 'd lower_state \<Rightarrow> (value_id list \<times> 'd lower_state) result" where
  "lower_operands g n [] st = Inr ([], st)"
| "lower_operands g n (p # ps) st =
     (case pin_source g ''primitive'' [] n p st of
        Inl e \<Rightarrow> Inl e
      | Inr (src, st') \<Rightarrow>
          (case lower_operands g n ps st' of
             Inl e \<Rightarrow> Inl e
           | Inr (srcs, st'') \<Rightarrow> Inr (src # srcs, st'')))"

definition lower_calls :: "'d node \<Rightarrow> value_id list \<Rightarrow> 'd lower_state \<Rightarrow> 'd lower_state" where
  "lower_calls n operands st =
     foldl (\<lambda>st p. emit_pin (nd_id n) p
         (call_primitive (strip_kind_prefix (nd_kind n)) p operands (map pn_name (pins_of PinInput n))) st) st
       (pins_of PinOutput n)"

definition lower_slot :: "'d graph \<Rightarrow> sched_slot \<Rightarrow> 'd lower_state \<Rightarrow> 'd lower_state result" where
  "lower_slot g slot st =
     (let n = gr_nodes g ! ss_node_index slot; is_in = ss_is_input_side slot; is_hk = nd_phase_break n in
      if is_hk \<and> \<not> is_in then Inr (lower_hook_loads n st)
      else if is_hk \<and> is_in then lower_hook_stores g n (pins_of PinInput n) st
      else if is_in then Inr st
      else (case lower_operands g n (pins_of PinInput n) st of
          Inl e \<Rightarrow> Inl e
        | Inr (operands, st') \<Rightarrow> Inr (lower_calls n operands st')))"

fun lower_slots :: "'d graph \<Rightarrow> sched_slot list \<Rightarrow> 'd lower_state \<Rightarrow> 'd lower_state result" where
  "lower_slots g [] st = Inr st"
| "lower_slots g (slot # slots) st =
     (case lower_slot g slot st of Inl e \<Rightarrow> Inl e | Inr st' \<Rightarrow> lower_slots g slots st')"

text \<open>\<open>None\<close> when the schedule does not end.\<close>

definition lower :: "'d graph \<Rightarrow> 'd ir_module result option" where
  "lower g =
     (case validate g of
        Inl e \<Rightarrow> Some (Inl e)
      | Inr _ \<Rightarrow>
          map_option (\<lambda>slots. map_sum id ls_module
            (lower_slots g slots \<lparr>ls_module = [], ls_next_id = 1, ls_value_of = Map.empty\<rparr>)) (schedule g))"

section \<open>Cost, linter and dump of a module\<close>

definition kPrimitiveCosts :: "(string \<times> nat) list" where
  "kPrimitiveCosts =
     [(''add_int'', 1), (''subtract_int'', 1), (''multiply_int'', 3), (''divide_int'', 18),
      (''compare_lt_int'', 2), (''compare_gt_int'', 2), (''compare_eq_int'', 2),
      (''and_bool'', 1), (''or_bool'', 1), (''not_bool'', 2),
      (''select_int'', 4), (''select_bool'', 4), (''select_float'', 4),
      (''add_float'', 5), (''subtract_float'', 5), (''multiply_float'', 5), (''divide_float'', 18),
      (''sqrt_float'', 15), (''compare_lt_float'', 6), (''compare_gt_float'', 6), (''compare_eq_float'', 6)]"

definition kDefaultPrimitiveCycles :: nat where
  "kDefaultPrimitiveCycles = 3"

definition primitive_cycles :: "string \<Rightarrow> nat" where
  "primitive_cycles symbol = (case map_of kPrimitiveCosts symbol of Some c \<Rightarrow> c | None \<Rightarrow> kDefaultPrimitiveCycles)"

definition instruction_cost :: "'d instruction \<Rightarrow> nat" where
  "instruction_cost i =
     (case ins_op i of
        LoadConstant \<Rightarrow> 1
      | LoadHookInput \<Rightarrow> 2
      | CallPrimitive \<Rightarrow> primitive_cycles (ins_symbol i)
      | StoreHookOutput \<Rightarrow> 2)"

definition estimate_cost :: "'d ir_module \<Rightarrow> nat" where
  "estimate_cost m = sum_list (map instruction_cost m)"

record ir_finding =
  if_message :: string
  if_instruction_index :: "nat option"

text \<open>The scan for duplicate stores; \<open>seen\<close> holds the targets with the index of their first store.\<close>

fun lint_stores :: "'d ir_module \<Rightarrow> nat \<Rightarrow> ((string \<times> string) \<times> nat) list \<Rightarrow> ir_finding list" where
  "lint_stores [] i seen = []"
| "lint_stores (ins # m) i seen =
     (if ins_op ins \<noteq> StoreHookOutput then lint_stores m (i + 1) seen
      else (case map_of seen (ins_symbol ins, ins_pin ins) of
          Some first \<Rightarrow>
            \<lparr>if_message = ''duplicate store to '' @ quoted (ins_symbol ins @ ''.'' @ ins_pin ins) @
               '' (first at instruction '' @ dec_string first @ '')'', if_instruction_index = Some i\<rparr> #
            lint_stores m (i + 1) seen
        | None \<Rightarrow> lint_stores m (i + 1) (seen @ [((ins_symbol ins, ins_pin ins), i)])))"

definition ir_lint :: "nat \<Rightarrow> 'd ir_module \<Rightarrow> ir_finding list" where
  "ir_lint budget_cycles m =
     lint_stores m 0 [] @
     (if budget_cycles > 0 \<and> estimate_cost m > budget_cycles then
        [\<lparr>if_message = ''estimated cost '' @ dec_string (estimate_cost m) @ '' cycles exceeds budget '' @
           dec_string budget_cycles, if_instruction_index = None\<rparr>]
      else [])"

end
