(* ===== verification/Graph_Schedule.thy ===== *)
theory Graph_Schedule
  imports Graph_Valid Feature_Lower
begin

text \<open>
  The scheduling of a graph (\<open>schedule\<close>, src/feature/src/feature_ir.cpp): the loop ends, it visits
  no side twice and each only after what it depends on, and it visits every side of a graph that the
  validation accepts.
\<close>

section \<open>One round of the loop\<close>

text \<open>The links into a side from sides that are not yet in the order.\<close>

definition pending :: "(nat \<times> nat) list \<Rightarrow> nat set \<Rightarrow> nat \<Rightarrow> nat" where
  "pending ps done w = length (filter (\<lambda>p. snd p = w \<and> fst p \<notin> done) ps)"

definition targets :: "(nat \<times> nat) list \<Rightarrow> nat \<Rightarrow> nat list" where
  "targets ps v = map snd (filter (\<lambda>p. fst p = v) ps)"

lemma pending_visit: "v \<notin> S \<Longrightarrow> pending ps S w = pending ps (insert v S) w + count_list (targets ps v) w"
  by (induction ps) (auto simp: pending_def targets_def)

lemma pending_zero: "pending ps S w = 0 \<longleftrightarrow> (\<forall>u. (u, w) \<in> set ps \<longrightarrow> u \<in> S)"
  by (auto simp: pending_def filter_empty_conv)

lemma release_targets:
  assumes "foldl release (queue, indeg) ws = (queue', indeg')"
    and "\<forall>w \<in> set ws. w < length indeg" and "\<forall>w \<in> set ws. count_list ws w \<le> indeg ! w"
  shows "length indeg' = length indeg \<and> (\<forall>w < length indeg. indeg' ! w = indeg ! w - count_list ws w) \<and>
    (\<exists>freed. queue' = queue @ freed \<and> distinct freed \<and> set freed = {w \<in> set ws. indeg ! w = count_list ws w})"
  using assms
proof (induction ws arbitrary: queue indeg)
  case (Cons w ws)
  let ?d = "indeg[w := indeg ! w - 1]"
  let ?q = "if indeg ! w = 1 then queue @ [w] else queue"
  have pos: "0 < indeg ! w" and w: "w < length indeg" using Cons.prems by auto
  have step: "foldl release (?q, ?d) ws = (queue', indeg')"
  proof -
    have "release (queue, indeg) w = (?q, ?d)" using pos by (simp add: release_def pred_size_def Let_def)
    then show ?thesis using Cons.prems(1) by simp
  qed
  have below: "\<forall>x \<in> set ws. count_list ws x \<le> ?d ! x"
  proof
    fix x assume "x \<in> set ws"
    then have "count_list (w # ws) x \<le> indeg ! x" using Cons.prems(3) by simp
    then show "count_list ws x \<le> ?d ! x" using w by (auto simp: nth_list_update split: if_splits)
  qed
  obtain freed where IH: "length indeg' = length indeg" "\<forall>x < length indeg. indeg' ! x = ?d ! x - count_list ws x"
      "queue' = ?q @ freed" "distinct freed" "set freed = {x \<in> set ws. ?d ! x = count_list ws x}"
    using Cons.IH [OF step] below Cons.prems(2) by auto
  let ?f = "(if indeg ! w = 1 then [w] else []) @ freed"
  have one: "w \<notin> set ws" if "indeg ! w = 1"
    using below w that count_list_0_iff [of ws w] by (auto simp: nth_list_update)
  have "queue' = queue @ ?f" using IH(3) by simp
  moreover have "distinct ?f" using IH(4,5) one by auto
  moreover have "set ?f = {x \<in> set (w # ws). indeg ! x = count_list (w # ws) x}"
  proof (rule set_eqI)
    fix x
    have fr: "x \<in> set freed \<longleftrightarrow> x \<in> set ws \<and> ?d ! x = count_list ws x" unfolding IH(5) by simp
    show "x \<in> set ?f \<longleftrightarrow> x \<in> {x \<in> set (w # ws). indeg ! x = count_list (w # ws) x}"
    proof (cases "x = w")
      case True
      have "?d ! w = indeg ! w - 1" using w by simp
      then show ?thesis using fr one pos count_list_0_iff [of ws w] True by auto
    next
      case False
      then have "?d ! x = indeg ! x" by simp
      then show ?thesis using fr False by auto
    qed
  qed
  moreover have "\<forall>x < length indeg. indeg' ! x = indeg ! x - count_list (w # ws) x"
    using IH(2) w by (auto simp: nth_list_update)
  ultimately show ?case using IH(1) by blast
qed simp

section \<open>The loop\<close>

text \<open>Every side comes after the sides with a link into it.\<close>

definition ordered_by :: "(nat \<times> nat) list \<Rightarrow> nat list \<Rightarrow> bool" where
  "ordered_by ps order \<longleftrightarrow>
     (\<forall>k < length order. \<forall>u. (u, order ! k) \<in> set ps \<longrightarrow> u \<in> set (take k order))"

lemma ordered_by_Nil [simp]: "ordered_by ps []"
  by (simp add: ordered_by_def)

lemma ordered_by_snoc:
  "ordered_by ps (order @ [v]) \<longleftrightarrow> ordered_by ps order \<and> (\<forall>u. (u, v) \<in> set ps \<longrightarrow> u \<in> set order)"
  by (auto simp: ordered_by_def nth_append less_Suc_eq)

definition loop_inv :: "nat \<Rightarrow> (nat \<times> nat) list \<Rightarrow> nat list \<Rightarrow> nat list \<Rightarrow> nat list \<Rightarrow> bool" where
  "loop_inv n ps queue indeg order \<longleftrightarrow> length indeg = n \<and> distinct (order @ queue) \<and>
     (\<forall>w < n. indeg ! w = pending ps (set order) w) \<and>
     set (order @ queue) = {w. w < n \<and> indeg ! w = 0} \<and> ordered_by ps order"

lemma loop_inv_step:
  assumes inv: "loop_inv n ps queue indeg order" and below: "links_below n ps" and "queue \<noteq> []"
    and s: "foldl release (butlast queue, indeg) (targets ps (last queue)) = (queue', indeg')"
  shows "loop_inv n ps queue' indeg' (order @ [last queue])"
proof -
  let ?v = "last queue" let ?ws = "targets ps ?v" let ?S = "insert ?v (set order)"
  have queue: "butlast queue @ [?v] = queue" using assms(3) by simp
  then have setq: "set queue = insert ?v (set (butlast queue))" by (metis Un_insert_right append_Nil2 list.simps(15) set_append sup_bot.right_neutral empty_set)
  have I: "length indeg = n" "distinct (order @ queue)" "\<And>w. w < n \<Longrightarrow> indeg ! w = pending ps (set order) w"
      "set (order @ queue) = {w. w < n \<and> indeg ! w = 0}" "ordered_by ps order"
    using inv by (simp_all add: loop_inv_def)
  have v: "?v \<in> set queue" using assms(3) by simp
  then have vn: "?v < n" "indeg ! ?v = 0" "?v \<notin> set order" using I(2,4) by auto
  have ws: "w < n" if "w \<in> set ?ws" for w using that below by (auto simp: targets_def links_below_def)
  have split: "pending ps (set order) w = pending ps ?S w + count_list ?ws w" for w
    by (rule pending_visit [OF vn(3)])
  obtain freed where R: "length indeg' = n" "\<And>w. w < n \<Longrightarrow> indeg' ! w = indeg ! w - count_list ?ws w"
      "queue' = butlast queue @ freed" "distinct freed"
      "set freed = {w \<in> set ?ws. indeg ! w = count_list ?ws w}"
    using release_targets [OF s] ws I(1,3) split by auto
  have d: "indeg' ! w = pending ps ?S w" if "w < n" for w using R(2) I(3) split that by simp
  have fresh: "w \<notin> set (order @ queue)" if "w \<in> set freed" for w
    using that R(5) I(4) count_list_0_iff [of ?ws w] by auto
  have "distinct (order @ butlast queue @ [?v])" using I(2) queue by simp
  then have "distinct ((order @ [?v]) @ queue')" using R(3,4) fresh setq by auto
  moreover have "set ((order @ [?v]) @ queue') = {w. w < n \<and> indeg' ! w = 0}"
  proof -
    have "w \<in> set freed \<longleftrightarrow> indeg ! w \<noteq> 0 \<and> indeg' ! w = 0" if "w < n" for w
    proof -
      have "count_list ?ws w \<le> indeg ! w" using I(3) split that by simp
      moreover have "w \<in> set freed \<longleftrightarrow> count_list ?ws w \<noteq> 0 \<and> indeg ! w = count_list ?ws w"
        unfolding R(5) by (simp add: count_list_0_iff)
      ultimately show ?thesis using R(2) [OF that] by arith
    qed
    moreover have "set freed \<subseteq> {..<n}" using R(5) ws by auto
    moreover have "indeg' ! w = 0" if "w < n" "indeg ! w = 0" for w using R(2) that by simp
    moreover have "set ((order @ [?v]) @ queue') = set (order @ queue) \<union> set freed" using R(3) setq by auto
    ultimately show ?thesis using I(4) by auto
  qed
  moreover have "ordered_by ps (order @ [?v])"
    using I(5) vn I(3) pending_zero [of ps "set order" ?v] by (simp add: ordered_by_snoc)
  ultimately show ?thesis using R(1) d by (simp add: loop_inv_def)
qed

lemma schedule_loop_ends:
  assumes "loop_inv n ps queue indeg order" "links_below n ps"
    and "\<And>v. v < n \<Longrightarrow> adj ! v = targets ps v"
  shows "\<exists>order' indeg'. schedule_loop adj queue indeg order = Some order' \<and> loop_inv n ps [] indeg' order'"
  using assms(1)
proof (induction "n - length order" arbitrary: queue indeg order rule: less_induct)
  case less
  show ?case
  proof (cases "queue = []")
    case True
    with less.prems show ?thesis by (auto simp: schedule_loop.simps [of adj "[]"])
  next
    case False
    obtain queue' indeg' where s: "foldl release (butlast queue, indeg) (targets ps (last queue)) = (queue', indeg')"
      by fastforce
    have inv: "loop_inv n ps queue' indeg' (order @ [last queue])"
      by (rule loop_inv_step [OF less.prems assms(2) False s])
    then have "distinct (order @ [last queue])" "set (order @ [last queue]) \<subseteq> {..<n}"
      by (auto simp: loop_inv_def)
    then have "length (order @ [last queue]) \<le> n" "last queue < n"
      using card_mono [of "{..<n}" "set (order @ [last queue])"] distinct_card [of "order @ [last queue]"] by auto
    then have "n - length (order @ [last queue]) < n - length order" "adj ! last queue = targets ps (last queue)"
      using assms(3) by simp_all
    with less.hyps [OF _ inv] show ?thesis
      by (subst schedule_loop.simps) (simp add: False s Let_def)
  qed
qed

text \<open>With no cycle among the links the order has every side: one left out would have one left out before it.\<close>

lemma loop_inv_complete:
  assumes "loop_inv n ps [] indeg order" "links_below n ps" "acyclic (set ps)"
  shows "set order = {..<n}"
proof (rule ccontr)
  assume "set order \<noteq> {..<n}"
  moreover have I: "set order = {w. w < n \<and> indeg ! w = 0}" "\<And>w. w < n \<Longrightarrow> indeg ! w = pending ps (set order) w"
    using assms(1) by (simp_all add: loop_inv_def)
  moreover from I(1) have "set order \<subseteq> {..<n}" by auto
  ultimately obtain w where w: "w \<in> {..<n} - set order" by blast
  have "wf (set ps)" using assms(3) by (simp add: finite_acyclic_wf)
  then obtain z where z: "z \<in> {..<n} - set order" "\<And>u. (u, z) \<in> set ps \<Longrightarrow> u \<notin> {..<n} - set order"
    using w by (rule wfE_min) blast
  then have "pending ps (set order) z \<noteq> 0" using I by auto
  then obtain u where u: "(u, z) \<in> set ps" "u \<notin> set order" by (auto simp: pending_zero)
  then have "u < n" using assms(2) by (force simp: links_below_def)
  with u z(2) show False by blast
qed

section \<open>The schedule\<close>

definition schedule_pairs :: "'d graph \<Rightarrow> (nat \<times> nat) list" where
  "schedule_pairs g = side_links g (\<lambda>i. i * 2 + 1) (\<lambda>i. i * 2)"

lemma foldl_link:
  "length indeg = n \<Longrightarrow> links_below n ps \<Longrightarrow> foldl (\<lambda>s p. link (fst p) (snd p) s) (adj, indeg) ps = (adj', indeg') \<Longrightarrow>
     adj' = add_links adj ps \<and> length indeg' = n \<and> (\<forall>w < n. indeg' ! w = indeg ! w + pending ps {} w)"
proof (induction ps arbitrary: adj indeg)
  case (Cons p ps)
  have below: "snd p < n" "links_below n ps" using Cons.prems(2) by (simp_all add: links_below_def)
  have s: "foldl (\<lambda>s p. link (fst p) (snd p) s)
      (append_at (fst p) (snd p) adj, indeg[snd p := indeg ! snd p + 1]) ps = (adj', indeg')"
    using Cons.prems(3) by (simp add: link_def)
  note IH = Cons.IH [OF _ below(2) s]
  show ?case using IH Cons.prems(1) below(1)
    by (auto simp: add_links_def pending_def nth_list_update)
qed (simp add: add_links_def pending_def)

lemma schedule_links_pairs:
  "schedule_links g = foldl (\<lambda>s p. link (fst p) (snd p) s)
     (replicate (length (gr_nodes g) * 2) [], replicate (length (gr_nodes g) * 2) 0) (schedule_pairs g)"
proof -
  have "foldl (link_edge g) s (gr_edges g) =
      foldl (\<lambda>s p. link (fst p) (snd p) s) s (edge_links g (\<lambda>i. i * 2 + 1) (\<lambda>i. i * 2))" for s
    unfolding edge_links_def foldl_over_map foldl_skip [symmetric]
    by (intro arg_cong [where f = "\<lambda>f. foldl f s (gr_edges g)"] ext)
      (simp add: link_edge_def resolved_def Let_def not_le)
  moreover have "foldl (link_sides g) s [0 ..< length (gr_nodes g)] =
      foldl (\<lambda>s p. link (fst p) (snd p) s) s (inner_links g (\<lambda>i. i * 2 + 1) (\<lambda>i. i * 2))" for s
    unfolding inner_links_def foldl_over_map foldl_skip [symmetric]
    by (intro arg_cong [where f = "\<lambda>f. foldl f s [0 ..< length (gr_nodes g)]"] ext) (simp add: link_sides_def)
  ultimately show ?thesis by (simp add: schedule_links_def schedule_pairs_def side_links_def Let_def)
qed

text \<open>The two numberings of the sides differ by the side they count first.\<close>

definition other_side :: "nat \<Rightarrow> nat" where
  "other_side v = (if even v then v + 1 else v - 1)"

lemma other_side_simps [simp]: "other_side (i * 2) = i * 2 + 1" "other_side (i * 2 + 1) = i * 2"
  by (simp_all add: other_side_def)

lemma schedule_pairs_acyclic:
  assumes "acyclic (dependencies g)"
  shows "acyclic (set (schedule_pairs g))"
proof -
  have "wf (dependencies g)" using assms by (simp add: finite_acyclic_wf dependencies_def)
  then have "wf (inv_image (dependencies g) other_side)" by (rule wf_inv_image)
  moreover have "set (schedule_pairs g) \<subseteq> inv_image (dependencies g) other_side"
    using other_side_simps
    by (auto simp: schedule_pairs_def dependencies_def side_links_def edge_links_def inner_links_def)
  ultimately have "wf (set (schedule_pairs g))" by (rule wf_subset)
  then show ?thesis by (rule wf_acyclic)
qed

definition slot_of :: "nat \<Rightarrow> sched_slot" where
  "slot_of v = \<lparr>ss_node_index = v div 2, ss_is_input_side = v mod 2 = 1\<rparr>"

lemma schedule_order:
  "\<exists>order. schedule g = Some (map slot_of order) \<and> distinct order \<and> set order \<subseteq> {..< length (gr_nodes g) * 2} \<and>
     ordered_by (schedule_pairs g) order \<and>
     (acyclic (dependencies g) \<longrightarrow> set order = {..< length (gr_nodes g) * 2})"
proof -
  let ?n = "length (gr_nodes g) * 2" and ?ps = "schedule_pairs g"
  have below: "links_below ?n ?ps" using side_links_below(2) by (simp add: schedule_pairs_def)
  obtain adj indeg where links: "schedule_links g = (adj, indeg)" by force
  have A: "adj = add_links (replicate ?n []) ?ps" "length indeg = ?n" "\<And>w. w < ?n \<Longrightarrow> indeg ! w = pending ?ps {} w"
    using foldl_link [OF _ below links [unfolded schedule_links_pairs]] by auto
  let ?q = "filter (\<lambda>v. indeg ! v = 0) [0 ..< ?n]"
  have "loop_inv ?n ?ps ?q indeg []" using A(2,3) by (auto simp: loop_inv_def)
  moreover have "adj ! v = targets ?ps v" if "v < ?n" for v using A(1) that by (simp add: nth_add_links targets_def)
  ultimately obtain order indeg' where order: "schedule_loop adj ?q indeg [] = Some order" "loop_inv ?n ?ps [] indeg' order"
    using schedule_loop_ends [OF _ below] by blast
  have "schedule g = Some (map slot_of order)"
    using order(1) by (simp add: schedule_def links slot_of_def [abs_def])
  moreover have "set order = {..< ?n}" if "acyclic (dependencies g)"
    using loop_inv_complete [OF order(2) below] schedule_pairs_acyclic [OF that] by simp
  ultimately show ?thesis using order(2) by (auto simp: loop_inv_def)
qed

end
