(* ===== verification/Graph_Edit.thy ===== *)
theory Graph_Edit
  imports Graph_Valid
begin

text \<open>
  What the editing operations keep: node ids are distinct, every edge leads from an output pin to an
  input pin of the same type, and no input pin has two drivers. The operations are the steps of an
  inductive set of graphs; a graph that they built can only be refused for a cycle.
\<close>

section \<open>The invariant\<close>

definition pins_distinct :: "'d node \<Rightarrow> bool" where
  "pins_distinct n \<longleftrightarrow> distinct (map pn_id (nd_pins n))"

definition target :: "edge \<Rightarrow> node_id \<times> pin_id" where
  "target e = (ed_to_node e, ed_to_pin e)"

definition graph_inv :: "'d graph \<Rightarrow> bool" where
  "graph_inv g \<longleftrightarrow> distinct (map nd_id (gr_nodes g)) \<and> (\<forall>n \<in> set (gr_nodes g). nd_id n < gr_next_id g) \<and>
     (\<forall>n \<in> set (gr_nodes g). pins_distinct n) \<and> (\<forall>e \<in> set (gr_edges g). edge_ok g e) \<and>
     distinct (map target (gr_edges g))"

text \<open>The part of a node that edges depend on.\<close>

definition pin_shape :: "'d pin \<Rightarrow> pin_id \<times> pin_direction \<times> pin_type" where
  "pin_shape p = (pn_id p, pn_direction p, pn_type p)"

definition node_shape :: "'d node \<Rightarrow> node_id \<times> (pin_id \<times> pin_direction \<times> pin_type) list" where
  "node_shape n = (nd_id n, map pin_shape (nd_pins n))"

lemma find_over_map: "map_option h (find (\<lambda>x. P (h x)) xs) = find P (map h xs)"
  by (induction xs) auto

lemma find_pin_shape:
  fixes g :: "'a graph"
  shows "map_option pin_shape (find_pin g i p) =
     (case find (\<lambda>n. fst n = i) (map node_shape (gr_nodes g)) of
        None \<Rightarrow> None | Some n \<Rightarrow> find (\<lambda>q. fst q = p) (snd n))"
proof -
  have "find (\<lambda>n. fst n = i) (map node_shape (gr_nodes g)) = map_option node_shape (find_node g i)"
    unfolding find_node_def by (subst find_over_map [symmetric]) (simp add: node_shape_def)
  moreover have "find (\<lambda>q. fst q = p) (map pin_shape ps) = map_option pin_shape (find (\<lambda>q. pn_id q = p) ps)"
      for ps :: "'a pin list"
    by (subst find_over_map [symmetric]) (simp add: pin_shape_def)
  ultimately show ?thesis by (simp add: find_pin_def node_shape_def split: option.split)
qed

lemma edge_ok_shape:
  "edge_ok g e \<longleftrightarrow> (\<exists>i j t. map_option pin_shape (find_pin g (ed_from_node e) (ed_from_pin e)) = Some (i, PinOutput, t) \<and>
     map_option pin_shape (find_pin g (ed_to_node e) (ed_to_pin e)) = Some (j, PinInput, t))"
  by (auto simp: edge_ok_def pin_shape_def)

lemma same_shape_inv:
  fixes g g' :: "'a graph"
  assumes "graph_inv g" "map node_shape (gr_nodes g') = map node_shape (gr_nodes g)"
    and "gr_edges g' = gr_edges g" "gr_next_id g' = gr_next_id g"
  shows "graph_inv g'"
proof -
  have fst: "map nd_id ns = map fst (map node_shape ns)" for ns :: "'a node list"
    by (simp add: node_shape_def)
  have ids: "map nd_id (gr_nodes g') = map nd_id (gr_nodes g)" unfolding fst assms(2) ..
  have "edge_ok g' e = edge_ok g e" for e unfolding edge_ok_shape find_pin_shape assms(2) ..
  moreover have "(\<forall>n \<in> set ns. pins_distinct n) \<longleftrightarrow> (\<forall>s \<in> set (map node_shape ns). distinct (map fst (snd s)))"
      for ns :: "'a node list"
    by (simp add: pins_distinct_def node_shape_def pin_shape_def comp_def)
  then have "(\<forall>n \<in> set (gr_nodes g'). pins_distinct n) \<longleftrightarrow> (\<forall>n \<in> set (gr_nodes g). pins_distinct n)"
    using assms(2) by metis
  moreover have "(\<forall>n \<in> set ns. nd_id n < k) \<longleftrightarrow> (\<forall>i \<in> set (map nd_id ns). i < k)" for ns :: "'a node list" and k
    by simp
  ultimately show ?thesis using assms(1,3,4) ids unfolding graph_inv_def by metis
qed

section \<open>The operations keep it\<close>

lemma update_first_shape:
  "(\<And>x. P x \<Longrightarrow> h (f x) = h x) \<Longrightarrow> map h (update_first P f xs) = map h xs"
  by (induction xs) auto

lemma set_node_position_inv: "graph_inv g \<Longrightarrow> graph_inv (set_node_position i x y g)"
  by (erule same_shape_inv) (simp_all add: set_node_position_def update_first_shape node_shape_def)

lemma set_pin_default_inv: "graph_inv g \<Longrightarrow> graph_inv (set_pin_default i p v g)"
  by (erule same_shape_inv) (simp_all add: set_pin_default_def update_first_shape node_shape_def pin_shape_def)

lemma remove_edge_inv: "graph_inv g \<Longrightarrow> graph_inv (remove_edge t g)"
  by (simp add: graph_inv_def remove_edge_def edge_ok_def find_pin_def find_node_def distinct_map_filter)

lemma find_node_kept:
  "j \<noteq> i \<Longrightarrow> find (\<lambda>n. nd_id n = j) (filter (\<lambda>n. nd_id n \<noteq> i) ns) = find (\<lambda>n. nd_id n = j) ns"
  by (induction ns) auto

lemma remove_node_inv:
  assumes "graph_inv g"
  shows "graph_inv (remove_node i g)"
proof -
  have "edge_ok (remove_node i g) e" if "edge_ok g e" "ed_from_node e \<noteq> i" "ed_to_node e \<noteq> i" for e
    using that by (simp add: edge_ok_def find_pin_def find_node_def remove_node_def find_node_kept)
  moreover have "distinct (map nd_id (gr_nodes (remove_node i g)))" "distinct (map target (gr_edges (remove_node i g)))"
    using assms by (simp_all add: remove_node_def graph_inv_def distinct_map_filter)
  ultimately show ?thesis using assms by (simp add: remove_node_def graph_inv_def)
qed

lemma find_appended: "find P (xs @ ys) = (case find P xs of None \<Rightarrow> find P ys | Some x \<Rightarrow> Some x)"
  by (induction xs) auto

lemma add_node_inv:
  assumes "graph_inv g" "pins_distinct n" "gr_next_id g < 0xFFFFFFFF"
  shows "graph_inv (snd (add_node n g))"
proof -
  let ?i = "gr_next_id g" let ?g = "snd (add_node n g)"
  have up: "?i < ?i + 1"   proof -
    have "unat ?i < 2 ^ 32 - 1" using assms(3) by (simp add: word_less_nat_alt)
    then show ?thesis by (simp add: word_less_nat_alt unat_word_ariths)
  qed
  have edges: "edge_ok ?g e" if "edge_ok g e" for e
    using that by (fastforce simp: edge_ok_def find_pin_def find_node_def add_node_def find_appended Let_def
        split: option.splits)
  have "?i \<notin> nd_id ` set (gr_nodes g)" using assms(1) by (auto simp: graph_inv_def)
  moreover have "\<forall>m \<in> set (gr_nodes g). nd_id m < ?i + 1"
    using assms(1) up by (auto simp: graph_inv_def intro: less_trans)
  ultimately show ?thesis using assms(1,2) edges up
    by (simp add: graph_inv_def add_node_def Let_def pins_distinct_def)
qed

lemma connect_ok:
  assumes "connect a p b q g = (ok, g')"
  shows "\<exists>e. g' = g\<lparr>gr_edges := gr_edges g @ [e]\<rparr> \<and> edge_ok g e \<and> target e = (b, q) \<and>
    target e \<notin> set (map target (gr_edges g)) \<and> ed_from_node e = a \<and> ed_from_pin e = p"
proof -
  let ?e = "\<lparr>ed_from_node = a, ed_from_pin = p, ed_to_node = b, ed_to_pin = q\<rparr>"
  have "g' = g\<lparr>gr_edges := gr_edges g @ [?e]\<rparr>"
    using assms by (auto simp: connect_def failure_def split: option.splits if_splits)
  moreover have "edge_ok g ?e"
    using assms by (auto simp: connect_def failure_def edge_ok_def split: option.splits if_splits)
  moreover have "find (drives b q) (gr_edges g) = None"
    using assms by (auto simp: connect_def failure_def split: option.splits if_splits)
  then have "target ?e \<notin> set (map target (gr_edges g))"
    by (auto simp: find_None_iff drives_def target_def)
  ultimately show ?thesis by (intro exI [of _ ?e]) (simp add: target_def)
qed

lemma connect_failed: "connect a p b q g = (Inl e, g') \<Longrightarrow> g' = g"
  by (auto simp: connect_def failure_def split: option.splits if_splits)

lemma connect_inv:
  assumes "graph_inv g" "connect a p b q g = (r, g')"
  shows "graph_inv g'"
proof (cases r)
  case (Inl e)
  with assms connect_failed show ?thesis by fastforce
next
  case (Inr u)
  then obtain e where e: "g' = g\<lparr>gr_edges := gr_edges g @ [e]\<rparr>" "edge_ok g e" "target e \<notin> set (map target (gr_edges g))"
    using connect_ok assms(2) by fastforce
  have "edge_ok g' x = edge_ok g x" for x by (simp add: e(1) edge_ok_def find_pin_def find_node_def)
  with e assms(1) show ?thesis by (simp add: graph_inv_def)
qed

section \<open>Graphs built by editing\<close>

text \<open>Nodes are added with distinct pin ids, and fewer than $2^{32} - 1$ of them.\<close>

inductive edited :: "'d graph \<Rightarrow> bool" where
  edited_empty: "edited empty_graph"
| edited_add_node: "edited g \<Longrightarrow> pins_distinct n \<Longrightarrow> gr_next_id g < 0xFFFFFFFF \<Longrightarrow> edited (snd (add_node n g))"
| edited_connect: "edited g \<Longrightarrow> edited (snd (connect a p b q g))"
| edited_remove_node: "edited g \<Longrightarrow> edited (remove_node i g)"
| edited_remove_edge: "edited g \<Longrightarrow> edited (remove_edge e g)"
| edited_position: "edited g \<Longrightarrow> edited (set_node_position i x y g)"
| edited_default: "edited g \<Longrightarrow> edited (set_pin_default i p v g)"

lemma edited_inv: "edited g \<Longrightarrow> graph_inv g"
proof (induction rule: edited.induct)
  case edited_empty
  show ?case by (simp add: graph_inv_def empty_graph_def)
next
  case (edited_connect g a p b q)
  then show ?case using connect_inv [of g a p b q] by (metis prod.collapse)
qed (simp_all add: add_node_inv remove_node_inv remove_edge_inv set_node_position_inv set_pin_default_inv)

theorem edited_graph_valid:
  assumes "edited g"
  shows "graph_inv g \<and> (validate g = ok \<longleftrightarrow> acyclic (dependencies g))"
  using edited_inv [OF assms] validate_correct [of g] by (auto simp: graph_inv_def)

end
