(* ===== verification/Lower_Correct.thy ===== *)
theory Lower_Correct
  imports Graph_Schedule Graph_Edit Codegen_Props
begin

text \<open>
  Correctness of the lowering: a meaning of feature graphs over a memory, and that the module a graph
  is lowered to stores, for every input pin of every hook node, a value that evaluates to what the
  graph assigns to that pin; the module is in SSA order, and the lowering of a graph that passes
  validation and leaves no pin undriven succeeds.
\<close>

section \<open>The meaning of a graph\<close>

text \<open>
  \<open>pin_value\<close> is the value at an output pin, \<open>source_value\<close> the one an input pin receives. The output
  pins of a hook node read the firmware's memory; those of a primitive node compute.
\<close>

inductive pin_value source_value ::
    "'d doubles \<Rightarrow> pack_view \<Rightarrow> fpu \<Rightarrow> memory \<Rightarrow> 'd graph \<Rightarrow> 'd node \<Rightarrow> 'd pin \<Rightarrow> u32 \<Rightarrow> bool"
  for dbl def f mem g
where
  pv_hook: "n \<in> set (gr_nodes g) \<Longrightarrow> p \<in> set (pins_of PinOutput n) \<Longrightarrow> nd_phase_break n \<Longrightarrow>
    resolve_hook_input_address def (load_hook_input (strip_kind_prefix (nd_kind n)) p 0) = Inr a \<Longrightarrow>
    pin_value dbl def f mem g n p (load32 mem a)"
| pv_primitive: "n \<in> set (gr_nodes g) \<Longrightarrow> p \<in> set (pins_of PinOutput n) \<Longrightarrow> \<not> nd_phase_break n \<Longrightarrow>
    list_all2 (source_value dbl def f mem g n) (pins_of PinInput n) xs \<Longrightarrow>
    primitive_result f (strip_kind_prefix (nd_kind n)) xs = Some x \<Longrightarrow> pin_value dbl def f mem g n p x"
| sv_driven: "find_driver g (nd_id n) (pn_id q) = Some (a, b) \<Longrightarrow> n' \<in> set (gr_nodes g) \<Longrightarrow> nd_id n' = a \<Longrightarrow>
    p \<in> set (pins_of PinOutput n') \<Longrightarrow> pn_id p = b \<Longrightarrow> pin_value dbl def f mem g n' p x \<Longrightarrow>
    source_value dbl def f mem g n q x"
| sv_default: "find_driver g (nd_id n) (pn_id q) = None \<Longrightarrow> pn_default q = Some d \<Longrightarrow>
    coerce_constant_to_u32 dbl (load_constant q d 0) = Inr x \<Longrightarrow> source_value dbl def f mem g n q x"
monos list_all2_mono

section \<open>Values a module holds for pins\<close>

text \<open>The instructions of \<open>m\<close> that compute the value \<open>v\<close> are those the pin asks for.\<close>

inductive value_ok source_ok :: "'d graph \<Rightarrow> 'd ir_module \<Rightarrow> 'd node \<Rightarrow> 'd pin \<Rightarrow> value_id \<Rightarrow> bool"
  for g m
where
  vo_hook: "n \<in> set (gr_nodes g) \<Longrightarrow> p \<in> set (pins_of PinOutput n) \<Longrightarrow> nd_phase_break n \<Longrightarrow>
    find_producer m v = Some (load_hook_input (strip_kind_prefix (nd_kind n)) p v) \<Longrightarrow> value_ok g m n p v"
| vo_primitive: "n \<in> set (gr_nodes g) \<Longrightarrow> p \<in> set (pins_of PinOutput n) \<Longrightarrow> \<not> nd_phase_break n \<Longrightarrow>
    find_producer m v = Some (call_primitive (strip_kind_prefix (nd_kind n)) p vs (map pn_name (pins_of PinInput n)) v) \<Longrightarrow>
    list_all2 (source_ok g m n) (pins_of PinInput n) vs \<Longrightarrow> value_ok g m n p v"
| so_driven: "find_driver g (nd_id n) (pn_id q) = Some (a, b) \<Longrightarrow> n' \<in> set (gr_nodes g) \<Longrightarrow> nd_id n' = a \<Longrightarrow>
    p \<in> set (pins_of PinOutput n') \<Longrightarrow> pn_id p = b \<Longrightarrow> value_ok g m n' p v \<Longrightarrow> source_ok g m n q v"
| so_default: "find_driver g (nd_id n) (pn_id q) = None \<Longrightarrow> pn_default q = Some d \<Longrightarrow>
    find_producer m v = Some (load_constant q d v) \<Longrightarrow> source_ok g m n q v"
monos list_all2_mono

lemma instruction_fields [simp]:
  "ins_op (load_constant q d v) = LoadConstant" "ins_op (load_hook_input s q v) = LoadHookInput"
  "ins_op (call_primitive s q vs ns v) = CallPrimitive" "ins_op (store_hook_output s q v) = StoreHookOutput"
  "ins_id (load_constant q d v) = v" "ins_id (load_hook_input s q v) = v" "ins_id (call_primitive s q vs ns v) = v"
  "ins_id (store_hook_output s q v) = 0" "ins_operands (load_constant q d v) = []"
  "ins_operands (load_hook_input s q v) = []" "ins_operands (call_primitive s q vs ns v) = vs"
  "ins_operands (store_hook_output s q v) = [v]" "ins_symbol (call_primitive s q vs ns v) = s"
  "ins_symbol (store_hook_output s q v) = s" "ins_pin (store_hook_output s q v) = pn_name q"
  by (simp_all add: load_constant_def load_hook_input_def call_primitive_def store_hook_output_def blank_instruction_def)

lemma resolve_any_id: "resolve_hook_input_address def (load_hook_input s p v) = resolve_hook_input_address def (load_hook_input s p w)"
  by (simp add: resolve_hook_input_address_def load_hook_input_def split: option.split)

lemma coerce_any_id: "coerce_constant_to_u32 dbl (load_constant q d v) = coerce_constant_to_u32 dbl (load_constant q d w)"
  by (simp add: coerce_constant_to_u32_def load_constant_def split: option.split pin_type.split)

lemma evaluates_load_constant:
  assumes "find_producer m v = Some (load_constant q d w)" "evaluates dbl def m f mem v x"
  shows "coerce_constant_to_u32 dbl (load_constant q d 0) = Inr x"
  using assms(2,1) coerce_any_id [of dbl q d w 0] by cases simp_all

lemma evaluates_load_hook_input:
  assumes "find_producer m v = Some (load_hook_input s p w)" "evaluates dbl def m f mem v x"
  obtains a where "resolve_hook_input_address def (load_hook_input s p 0) = Inr a" "x = load32 mem a"
  using assms(2,1) resolve_any_id [of def s p w 0] by cases simp_all

lemma evaluates_call_primitive:
  assumes "find_producer m v = Some (call_primitive s p vs ns w)" "evaluates dbl def m f mem v x"
  obtains xs where "list_all2 (evaluates dbl def m f mem) vs xs" "primitive_result f s xs = Some x"
  using assms(2,1) by cases simp_all

lemma list_all2_imp:
  "list_all2 (\<lambda>q v. R q v \<and> (\<forall>x. E v x \<longrightarrow> S q x)) qs vs \<Longrightarrow> list_all2 E vs xs \<Longrightarrow> list_all2 S qs xs"
  by (auto simp: list_all2_conv_all_nth)

text \<open>The IR evaluates such a value to what the graph assigns to the pin.\<close>

lemma value_ok_sound:
  "value_ok g m n p v \<Longrightarrow> evaluates dbl def m f mem v x \<Longrightarrow> pin_value dbl def f mem g n p x"
  "source_ok g m n q v \<Longrightarrow> evaluates dbl def m f mem v x \<Longrightarrow> source_value dbl def f mem g n q x"
proof (induct arbitrary: x and x rule: value_ok_source_ok.inducts)
  case (vo_hook n p v)
  obtain a where "resolve_hook_input_address def (load_hook_input (strip_kind_prefix (nd_kind n)) p 0) = Inr a"
      "x = load32 mem a"
    using evaluates_load_hook_input [OF vo_hook.hyps(4) vo_hook.prems] .
  with vo_hook.hyps show ?case by (auto intro: pin_value_source_value.pv_hook)
next
  case (vo_primitive n p v vs)
  obtain xs where xs: "list_all2 (evaluates dbl def m f mem) vs xs"
      "primitive_result f (strip_kind_prefix (nd_kind n)) xs = Some x"
    using evaluates_call_primitive [OF vo_primitive.hyps(4) vo_primitive.prems] .
  have "list_all2 (source_value dbl def f mem g n) (pins_of PinInput n) xs"
    using vo_primitive.hyps(5) xs(1) by (rule list_all2_imp)
  with vo_primitive.hyps xs(2) show ?case by (auto intro: pin_value_source_value.pv_primitive)
next
  case (so_driven n q a b n' p v)
  then show ?case by (auto intro: pin_value_source_value.sv_driven)
next
  case (so_default n q d v)
  have "coerce_constant_to_u32 dbl (load_constant q d 0) = Inr x"
    using evaluates_load_constant [OF so_default.hyps(3) so_default.prems] .
  with so_default.hyps show ?case by (auto intro: pin_value_source_value.sv_default)
qed

section \<open>Growing modules\<close>

lemma find_producer_append: "find_producer m v = Some i \<Longrightarrow> find_producer (m @ ms) v = Some i"
  by (simp add: find_producer_def find_appended)

lemma find_producer_snoc: "\<forall>i \<in> set m. ins_id i \<noteq> ins_id j \<Longrightarrow> find_producer (m @ [j]) (ins_id j) = Some j"
  by (auto simp: find_producer_def find_appended find_Some_iff split: option.split)

lemma value_ok_append:
  "value_ok g m n p v \<Longrightarrow> value_ok g (m @ ms) n p v"
  "source_ok g m n q v \<Longrightarrow> source_ok g (m @ ms) n q v"
proof (induct rule: value_ok_source_ok.inducts)
  case (vo_primitive n p v vs)
  have "list_all2 (source_ok g (m @ ms) n) (pins_of PinInput n) vs"
    using vo_primitive.hyps(5) by (rule list_all2_mono) simp
  with vo_primitive.hyps show ?case by (auto intro: value_ok_source_ok.vo_primitive find_producer_append)
qed (auto intro: value_ok_source_ok.intros find_producer_append)

lemma value_ok_produced:
  "value_ok g m n p v \<Longrightarrow> \<exists>i \<in> set m. ins_id i = v"
  "source_ok g m n q v \<Longrightarrow> \<exists>i \<in> set m. ins_id i = v"
  by (induct rule: value_ok_source_ok.inducts) (auto dest: find_producer_SomeD)

lemma ssa_ordered_snoc:
  assumes "ssa_ordered m" "\<forall>v \<in> set (ins_operands i). \<exists>j \<in> set m. ins_id j = v"
  shows "ssa_ordered (m @ [i])"
proof -
  have "\<exists>j < length m. ins_id (m ! j) = v" if "v \<in> set (ins_operands i)" for v
    using assms(2) that by (metis in_set_conv_nth)
  with assms(1) show ?thesis unfolding ssa_ordered_def
    by (auto simp: nth_append less_Suc_eq) (metis less_trans, metis)
qed

section \<open>The invariant of the lowering\<close>

lemma bit_make_key: "bit (make_key n p) k \<longleftrightarrow> (32 \<le> k \<and> bit n (k - 32)) \<or> bit p k"
  using bit_imp_le_length [of n "k - 32"] bit_imp_le_length [of p k]
  by (auto simp: make_key_def bit_or_iff bit_push_bit_iff bit_ucast_iff)

lemma make_key_inj [simp]: "make_key n p = make_key n' p' \<longleftrightarrow> n = n' \<and> p = p'"
proof
  assume eq: "make_key n p = make_key n' p'"
  have short: "\<not> bit (x :: pin_id) k" if "16 \<le> k" for x k using bit_imp_le_length [of x k] that by auto
  have "bit n k = bit n' k" for k
    using arg_cong [OF eq, of "\<lambda>w. bit w (k + 32)"] by (simp add: bit_make_key short)
  moreover have "bit p k = bit p' k" for k
    using arg_cong [OF eq, of "\<lambda>w. bit w k"] short [of k] by (cases "k < 16") (auto simp: bit_make_key)
  ultimately show "n = n' \<and> p = p'" by (auto intro: bit_eqI)
qed simp

text \<open>Fewer instructions than value ids: then no id is given twice.\<close>

definition small :: "'d ir_module \<Rightarrow> bool" where
  "small m \<longleftrightarrow> length m < 2 ^ 32 - 1"

definition fresh_ids :: "'d lower_state \<Rightarrow> bool" where
  "fresh_ids st \<longleftrightarrow> (\<forall>i \<in> set (ls_module st). ins_id i < ls_next_id st) \<and> 0 < ls_next_id st \<and>
     unat (ls_next_id st) \<le> length (ls_module st) + 1"

definition stores_ok :: "'d graph \<Rightarrow> 'd ir_module \<Rightarrow> bool" where
  "stores_ok g m \<longleftrightarrow> (\<forall>i \<in> set m. ins_op i = StoreHookOutput \<longrightarrow>
     (\<exists>n \<in> set (gr_nodes g). \<exists>p \<in> set (pins_of PinInput n). \<exists>v. nd_phase_break n \<and>
        i = store_hook_output (strip_kind_prefix (nd_kind n)) p v \<and> source_ok g m n p v))"

definition lower_inv :: "'d graph \<Rightarrow> 'd lower_state \<Rightarrow> bool" where
  "lower_inv g st \<longleftrightarrow> fresh_ids st \<and> ssa_ordered (ls_module st) \<and> stores_ok g (ls_module st) \<and>
     (\<forall>n \<in> set (gr_nodes g). \<forall>p \<in> set (pins_of PinOutput n). \<forall>v.
        ls_value_of st (make_key (nd_id n) (pn_id p)) = Some v \<longrightarrow> value_ok g (ls_module st) n p v)"

definition grows :: "'d lower_state \<Rightarrow> 'd lower_state \<Rightarrow> bool" where
  "grows st st' \<longleftrightarrow> (\<exists>ms. ls_module st' = ls_module st @ ms) \<and> dom (ls_value_of st) \<subseteq> dom (ls_value_of st')"

lemma grows_refl [simp]: "grows st st"
  by (simp add: grows_def)

lemma grows_trans: "grows st st' \<Longrightarrow> grows st' st'' \<Longrightarrow> grows st st''"
  by (force simp: grows_def)

lemma grows_small: "grows st st' \<Longrightarrow> small (ls_module st') \<Longrightarrow> small (ls_module st)"
  by (auto simp: grows_def small_def)

lemma grows_emit_value [simp]: "grows st (emit_value ins st)"
  by (simp add: grows_def emit_value_def)

lemma grows_emit_pin [simp]: "grows st (emit_pin i p ins st)"
  by (auto simp: grows_def emit_pin_def emit_value_def)

lemma grows_source_ok: "grows st st' \<Longrightarrow> source_ok g (ls_module st) n q v \<Longrightarrow> source_ok g (ls_module st') n q v"
  by (auto simp: grows_def intro: value_ok_append(2))

lemma stores_ok_snoc:
  "stores_ok g m \<Longrightarrow> ins_op i \<noteq> StoreHookOutput \<Longrightarrow> stores_ok g (m @ [i])"
  unfolding stores_ok_def by (auto dest: value_ok_append(2)) (metis value_ok_append(2))

lemma emit_value_fresh:
  assumes "fresh_ids st" "small (ls_module (emit_value ins st))" "\<And>v. ins_id (ins v) = v"
  shows "fresh_ids (emit_value ins st)"
    "find_producer (ls_module (emit_value ins st)) (ls_next_id st) = Some (ins (ls_next_id st))"
proof -
  let ?v = "ls_next_id st"
  have "unat ?v < 2 ^ 32 - 1" using assms(1,2) by (simp add: fresh_ids_def small_def emit_value_def)
  then have v: "?v < ?v + 1" "unat (?v + 1) = unat ?v + 1" by (simp_all add: word_less_nat_alt unat_word_ariths)
  show "fresh_ids (emit_value ins st)"
    using assms(1,3) v by (auto simp: fresh_ids_def emit_value_def intro: less_trans)
  have "\<forall>i \<in> set (ls_module st). ins_id i \<noteq> ins_id (ins ?v)" using assms(1,3) by (auto simp: fresh_ids_def)
  from find_producer_snoc [OF this]
  show "find_producer (ls_module (emit_value ins st)) ?v = Some (ins ?v)"
    using assms(3) by (simp add: emit_value_def)
qed

lemma emit_value_inv:
  assumes inv: "lower_inv g st" and sm: "small (ls_module (emit_value ins st))" and id: "\<And>v. ins_id (ins v) = v"
    and op: "ins_op (ins (ls_next_id st)) \<noteq> StoreHookOutput"
    and ops: "\<forall>w \<in> set (ins_operands (ins (ls_next_id st))). \<exists>i \<in> set (ls_module st). ins_id i = w"
  shows "lower_inv g (emit_value ins st)"
proof -
  have "fresh_ids (emit_value ins st)" using emit_value_fresh(1) [OF _ sm id] inv by (simp add: lower_inv_def)
  moreover have "ssa_ordered (ls_module (emit_value ins st))" "stores_ok g (ls_module (emit_value ins st))"
    using inv op ops by (auto simp: emit_value_def lower_inv_def intro: ssa_ordered_snoc stores_ok_snoc)
  ultimately show ?thesis using inv by (auto simp: lower_inv_def emit_value_def intro: value_ok_append(1))
qed

section \<open>The steps keep it\<close>

lemma same_node: "graph_inv g \<Longrightarrow> n \<in> set (gr_nodes g) \<Longrightarrow> n' \<in> set (gr_nodes g) \<Longrightarrow> nd_id n = nd_id n' \<Longrightarrow> n = n'"
  by (auto simp: graph_inv_def distinct_map inj_on_def)

lemma same_pin:
  "graph_inv g \<Longrightarrow> n \<in> set (gr_nodes g) \<Longrightarrow> p \<in> set (nd_pins n) \<Longrightarrow> p' \<in> set (nd_pins n) \<Longrightarrow> pn_id p = pn_id p' \<Longrightarrow> p = p'"
  by (auto simp: graph_inv_def pins_distinct_def distinct_map inj_on_def)

lemma pins_of_pins: "p \<in> set (pins_of d n) \<longleftrightarrow> p \<in> set (nd_pins n) \<and> pn_direction p = d"
  by (auto simp: pins_of_def)

lemma emit_pin_inv:
  assumes g: "graph_inv g" "n \<in> set (gr_nodes g)" "p \<in> set (pins_of PinOutput n)"
    and inv: "lower_inv g st" and sm: "small (ls_module (emit_pin (nd_id n) p ins st))"
    and id: "\<And>v. ins_id (ins v) = v" and op: "ins_op (ins (ls_next_id st)) \<noteq> StoreHookOutput"
    and ops: "\<forall>w \<in> set (ins_operands (ins (ls_next_id st))). \<exists>i \<in> set (ls_module st). ins_id i = w"
    and val: "find_producer (ls_module st @ [ins (ls_next_id st)]) (ls_next_id st) = Some (ins (ls_next_id st)) \<Longrightarrow>
      value_ok g (ls_module st @ [ins (ls_next_id st)]) n p (ls_next_id st)"
  shows "lower_inv g (emit_pin (nd_id n) p ins st)"
proof -
  let ?e = "emit_value ins st" and ?p = "emit_pin (nd_id n) p ins st"
  have same: "ls_module ?p = ls_module ?e" "ls_next_id ?p = ls_next_id ?e" "ls_module ?e = ls_module st @ [ins (ls_next_id st)]"
      "ls_value_of ?p = (ls_value_of st)(make_key (nd_id n) (pn_id p) \<mapsto> ls_next_id st)" "ls_value_of ?e = ls_value_of st"
    by (simp_all add: emit_pin_def emit_value_def)
  have sm': "small (ls_module ?e)" using sm same(1) by simp
  have e: "lower_inv g ?e" by (rule emit_value_inv [OF inv sm' id op ops])
  have "find_producer (ls_module ?e) (ls_next_id st) = Some (ins (ls_next_id st))"
    using emit_value_fresh(2) [OF _ sm' id] inv by (simp add: lower_inv_def)
  then have new: "value_ok g (ls_module ?p) n p (ls_next_id st)" using val same(1,3) by simp
  have "value_ok g (ls_module ?p) n' p' v"
    if "n' \<in> set (gr_nodes g)" "p' \<in> set (pins_of PinOutput n')"
      "ls_value_of ?p (make_key (nd_id n') (pn_id p')) = Some v" for n' p' v
  proof (cases "nd_id n' = nd_id n \<and> pn_id p' = pn_id p")
    case True
    then have "n' = n" using same_node [OF g(1) that(1) g(2)] by simp
    moreover from this have "p' = p" using same_pin [OF g(1,2)] that(2) g(3) True by (simp add: pins_of_pins)
    ultimately show ?thesis using new that(3) same(4) by simp
  next
    case False
    then have "ls_value_of ?e (make_key (nd_id n') (pn_id p')) = Some v" using that(3) same(4,5) by auto
    with e that(1,2) show ?thesis by (simp add: lower_inv_def same(1))
  qed
  moreover have "fresh_ids ?p" using e same by (simp add: lower_inv_def fresh_ids_def)
  ultimately show ?thesis using e unfolding lower_inv_def same(1) by blast
qed

lemma store_inv:
  assumes "n \<in> set (gr_nodes g)" "nd_phase_break n" "q \<in> set (pins_of PinInput n)"
    and "lower_inv g st" "source_ok g (ls_module st) n q v"
  shows "lower_inv g (st\<lparr>ls_module := ls_module st @ [store_hook_output (strip_kind_prefix (nd_kind n)) q v]\<rparr>)"
proof -
  let ?i = "store_hook_output (strip_kind_prefix (nd_kind n)) q v"
  have "stores_ok g (ls_module st @ [?i])"
    unfolding stores_ok_def
  proof (intro ballI impI)
    fix i assume i: "i \<in> set (ls_module st @ [?i])" "ins_op i = StoreHookOutput"
    show "\<exists>n \<in> set (gr_nodes g). \<exists>p \<in> set (pins_of PinInput n). \<exists>v. nd_phase_break n \<and>
        i = store_hook_output (strip_kind_prefix (nd_kind n)) p v \<and> source_ok g (ls_module st @ [?i]) n p v"
    proof (cases "i = ?i")
      case True
      with assms show ?thesis by (auto intro: value_ok_append(2))
    next
      case False
      with i assms(4) have "\<exists>n \<in> set (gr_nodes g). \<exists>p \<in> set (pins_of PinInput n). \<exists>v. nd_phase_break n \<and>
          i = store_hook_output (strip_kind_prefix (nd_kind n)) p v \<and> source_ok g (ls_module st) n p v"
        by (auto simp: lower_inv_def stores_ok_def)
      then show ?thesis by (meson value_ok_append(2))
    qed
  qed
  moreover have "ssa_ordered (ls_module st @ [?i])"
    using assms(4,5) value_ok_produced(2) by (auto simp: lower_inv_def intro!: ssa_ordered_snoc)
  moreover have "fresh_ids (st\<lparr>ls_module := ls_module st @ [?i]\<rparr>)"
    using assms(4) by (auto simp: lower_inv_def fresh_ids_def)
  ultimately show ?thesis
    using assms(4) by (auto simp: lower_inv_def intro: value_ok_append(1))
qed

lemma find_driver_edge:
  assumes "graph_inv g" "find_driver g i q = Some (a, b)"
  obtains e n p where "e \<in> set (gr_edges g)" "ed_to_node e = i" "ed_to_pin e = q" "ed_from_node e = a" "ed_from_pin e = b"
    "n \<in> set (gr_nodes g)" "nd_id n = a" "p \<in> set (pins_of PinOutput n)" "pn_id p = b"
proof -
  obtain e where e: "e \<in> set (gr_edges g)" "ed_to_node e = i" "ed_to_pin e = q" "ed_from_node e = a" "ed_from_pin e = b"
    using assms(2) by (auto simp: find_driver_def find_Some_iff drives_def intro: nth_mem)
  then have "edge_ok g e" using assms(1) by (simp add: graph_inv_def)
  then obtain n p where "find_node g a = Some n" "find (\<lambda>q. pn_id q = b) (nd_pins n) = Some p" "pn_direction p = PinOutput"
    using e by (auto simp: edge_ok_def find_pin_def split: option.splits)
  with e show thesis by (intro that [of e n p]) (auto simp: find_node_def find_Some_iff pins_of_pins)
qed

lemma pin_source_grows: "pin_source g what un n q st = Inr (v, st') \<Longrightarrow> grows st st'"
  by (auto simp: pin_source_def failure_def split: option.splits prod.splits)

lemma pin_source_inv:
  assumes "graph_inv g" "n \<in> set (gr_nodes g)" "lower_inv g st"
    and "pin_source g what un n q st = Inr (v, st')" "small (ls_module st')"
  shows "lower_inv g st' \<and> source_ok g (ls_module st') n q v"
proof (cases "find_driver g (nd_id n) (pn_id q)")
  case (Some ab)
  obtain a b where ab: "ab = (a, b)" by force
  have v: "ls_value_of st (make_key a b) = Some v" "st' = st"
    using assms(4) Some ab by (auto simp: pin_source_def failure_def split: option.splits)
  obtain e n' p where p: "n' \<in> set (gr_nodes g)" "nd_id n' = a" "p \<in> set (pins_of PinOutput n')" "pn_id p = b"
    using find_driver_edge [OF assms(1) Some [unfolded ab]] by metis
  then have "value_ok g (ls_module st) n' p v" using assms(3) v(1) by (auto simp: lower_inv_def)
  with Some ab p v(2) assms(3) show ?thesis by (auto intro: value_ok_source_ok.so_driven)
next
  case None
  then obtain d where d: "pn_default q = Some d" "v = ls_next_id st" "st' = emit_value (load_constant q d) st"
    using assms(4) by (auto simp: pin_source_def failure_def split: option.splits)
  have "lower_inv g st'" unfolding d(3) by (rule emit_value_inv) (use assms(3,5) d(3) in simp_all)
  moreover have "find_producer (ls_module st') v = Some (load_constant q d v)"
    using emit_value_fresh(2) [of st "load_constant q d"] assms(3,5) d by (simp add: lower_inv_def)
  ultimately show ?thesis using None d(1) by (auto intro: value_ok_source_ok.so_default)
qed

lemma lower_operands_grows: "lower_operands g n qs st = Inr (vs, st') \<Longrightarrow> grows st st'"
  by (induction qs arbitrary: st vs)
    (auto split: sum.splits prod.splits intro: grows_trans dest!: pin_source_grows)

lemma lower_operands_inv:
  assumes "graph_inv g" "n \<in> set (gr_nodes g)" "lower_inv g st"
    and "lower_operands g n qs st = Inr (vs, st')" "small (ls_module st')"
  shows "lower_inv g st' \<and> list_all2 (source_ok g (ls_module st') n) qs vs"
  using assms(3-)
proof (induction qs arbitrary: st vs)
  case (Cons q qs)
  then obtain v st1 vs' where s: "pin_source g ''primitive'' [] n q st = Inr (v, st1)"
      "lower_operands g n qs st1 = Inr (vs', st')" "vs = v # vs'"
    by (auto split: sum.splits)
  have gr: "grows st1 st'" using lower_operands_grows [OF s(2)] .
  have one: "lower_inv g st1 \<and> source_ok g (ls_module st1) n q v"
    using pin_source_inv [OF assms(1,2) Cons.prems(1) s(1) grows_small [OF gr Cons.prems(3)]] .
  then show ?case using Cons.IH [OF _ s(2) Cons.prems(3)] s(3) grows_source_ok [OF gr] by simp
qed simp

lemma lower_hook_stores_grows: "lower_hook_stores g n qs st = Inr st' \<Longrightarrow> grows st st'"
proof (induction qs arbitrary: st)
  case (Cons q qs)
  then obtain v st1 where s: "pin_source g ''hook'' '' (graph topology bug?)'' n q st = Inr (v, st1)"
      "lower_hook_stores g n qs (st1\<lparr>ls_module := ls_module st1 @ [store_hook_output (strip_kind_prefix (nd_kind n)) q v]\<rparr>) = Inr st'"
    by (auto split: sum.splits)
  then have "grows st st1" by (intro pin_source_grows)
  moreover have "grows st1 (st1\<lparr>ls_module := ls_module st1 @ [store_hook_output (strip_kind_prefix (nd_kind n)) q v]\<rparr>)"
    by (simp add: grows_def)
  ultimately show ?case using Cons.IH [OF s(2)] by (blast intro: grows_trans)
qed simp

lemma lower_hook_stores_inv:
  assumes "graph_inv g" "n \<in> set (gr_nodes g)" "nd_phase_break n" "set qs \<subseteq> set (pins_of PinInput n)" "lower_inv g st"
    and "lower_hook_stores g n qs st = Inr st'" "small (ls_module st')"
  shows "lower_inv g st'"
  using assms(4-)
proof (induction qs arbitrary: st)
  case (Cons q qs)
  let ?store = "\<lambda>v st1. st1\<lparr>ls_module := ls_module st1 @ [store_hook_output (strip_kind_prefix (nd_kind n)) q v]\<rparr>"
  from Cons.prems(3) obtain v st1 where s: "pin_source g ''hook'' '' (graph topology bug?)'' n q st = Inr (v, st1)"
      "lower_hook_stores g n qs (?store v st1) = Inr st'"
    by (auto split: sum.splits)
  have "grows (?store v st1) st'" using lower_hook_stores_grows [OF s(2)] .
  moreover have "grows st1 (?store v st1)" by (simp add: grows_def)
  ultimately have "small (ls_module st1)" using Cons.prems(4) by (blast intro: grows_trans grows_small)
  then have one: "lower_inv g st1 \<and> source_ok g (ls_module st1) n q v"
    by (rule pin_source_inv [OF assms(1,2) Cons.prems(2) s(1)])
  then have "lower_inv g (?store v st1)" using assms(2,3) Cons.prems(1) by (intro store_inv) simp_all
  with Cons.IH [OF _ _ s(2) Cons.prems(4)] Cons.prems(1) show ?case by simp
qed simp

text \<open>A pass that emits one instruction for each output pin of a node.\<close>

lemma emit_pins_grows: "grows st (foldl (\<lambda>st p. emit_pin i p (f p) st) st ps)"
  by (induction ps arbitrary: st) (auto intro: grows_trans [OF grows_emit_pin])

lemmas emit_pins_small = grows_small [OF emit_pins_grows]

lemma emit_pins_inv:
  assumes g: "graph_inv g" "n \<in> set (gr_nodes g)" and "set ps \<subseteq> set (pins_of PinOutput n)"
    and "lower_inv g st" and "small (ls_module (foldl (\<lambda>st p. emit_pin (nd_id n) p (f p) st) st ps))"
    and f: "\<And>p v. ins_id (f p v) = v" "\<And>p v. ins_op (f p v) \<noteq> StoreHookOutput"
    and ops: "\<And>p v w. w \<in> set (ins_operands (f p v)) \<Longrightarrow> \<exists>i \<in> set (ls_module st). ins_id i = w"
    and val: "\<And>m p v. p \<in> set (pins_of PinOutput n) \<Longrightarrow> find_producer m v = Some (f p v) \<Longrightarrow>
      (\<exists>ms. m = ls_module st @ ms) \<Longrightarrow> value_ok g m n p v"
  shows "lower_inv g (foldl (\<lambda>st p. emit_pin (nd_id n) p (f p) st) st ps)"
  using assms(3-5) ops val
proof (induction ps arbitrary: st)
  case (Cons p ps)
  let ?st = "emit_pin (nd_id n) p (f p) st"
  have "small (ls_module ?st)" using Cons.prems(3) by (simp add: emit_pins_small)
  then have "lower_inv g ?st"
    using Cons.prems(1,2,4,5) by (intro emit_pin_inv [OF g] f) auto
  moreover have "\<exists>i \<in> set (ls_module ?st). ins_id i = w" if "w \<in> set (ins_operands (f p' v))" for p' v w
    using Cons.prems(4) [OF that] by (auto simp: emit_pin_def emit_value_def)
  moreover have "\<exists>ms. m = ls_module st @ ms" if "\<exists>ms. m = ls_module ?st @ ms" for m
    using that by (auto simp: emit_pin_def emit_value_def)
  ultimately show ?case using Cons.IH [of ?st] Cons.prems(1,3,5) by auto
qed simp

lemma lower_slot_inv:
  assumes "graph_inv g" "ss_node_index slot < length (gr_nodes g)" "lower_inv g st"
    and "lower_slot g slot st = Inr st'" "small (ls_module st')"
  shows "lower_inv g st'"
proof -
  let ?n = "gr_nodes g ! ss_node_index slot"
  have n: "?n \<in> set (gr_nodes g)" using assms(2) by simp
  show ?thesis
  proof (cases "nd_phase_break ?n")
    case hook: True
    show ?thesis
    proof (cases "ss_is_input_side slot")
      case True
      then have "lower_hook_stores g ?n (pins_of PinInput ?n) st = Inr st'" using assms(4) hook by (simp add: lower_slot_def Let_def)
      from lower_hook_stores_inv [OF assms(1) n hook subset_refl assms(3) this assms(5)] show ?thesis .
    next
      case False
      then have st': "st' = lower_hook_loads ?n st" using assms(4) hook by (simp add: lower_slot_def Let_def)
      show ?thesis unfolding st' lower_hook_loads_def
        by (rule emit_pins_inv [OF assms(1) n subset_refl assms(3)])
          (use assms(5) st' n hook in \<open>auto simp: lower_hook_loads_def intro: value_ok_source_ok.vo_hook\<close>)
    qed
  next
    case prim: False
    show ?thesis
    proof (cases "ss_is_input_side slot")
      case True
      with assms(3,4) prim show ?thesis by (simp add: lower_slot_def Let_def)
    next
      case False
      then obtain vs st1 where s: "lower_operands g ?n (pins_of PinInput ?n) st = Inr (vs, st1)" "st' = lower_calls ?n vs st1"
        using assms(4) prim by (auto simp: lower_slot_def Let_def split: sum.splits)
      have sm: "small (ls_module st1)" using assms(5) s(2) by (simp add: lower_calls_def emit_pins_small)
      have I: "lower_inv g st1" "list_all2 (source_ok g (ls_module st1) ?n) (pins_of PinInput ?n) vs"
        using lower_operands_inv [OF assms(1) n assms(3) s(1) sm] by simp_all
      have ops: "\<exists>i \<in> set (ls_module st1). ins_id i = w" if w: "w \<in> set vs" for w
      proof -
        obtain k where "k < length vs" "w = vs ! k" using w by (auto simp: in_set_conv_nth)
        then have "source_ok g (ls_module st1) ?n (pins_of PinInput ?n ! k) w" using list_all2_nthD2 [OF I(2)] by simp
        then show ?thesis by (rule value_ok_produced(2))
      qed
      have mono: "list_all2 (source_ok g m ?n) (pins_of PinInput ?n) vs" if "\<exists>ms. m = ls_module st1 @ ms" for m
        using I(2) that by (auto elim!: list_all2_mono intro: value_ok_append(2))
      show ?thesis unfolding s(2) lower_calls_def
      proof (rule emit_pins_inv [OF assms(1) n subset_refl I(1) assms(5) [unfolded s(2) lower_calls_def]])
        fix m p v
        assume p: "p \<in> set (pins_of PinOutput ?n)" and m: "\<exists>ms. m = ls_module st1 @ ms"
          and "find_producer m v = Some (call_primitive (strip_kind_prefix (nd_kind ?n)) p vs
            (map pn_name (pins_of PinInput ?n)) v)"
        then show "value_ok g m ?n p v" using mono [OF m] by (intro value_ok_source_ok.vo_primitive [OF n p prim])
      qed (use ops in simp_all)
    qed
  qed
qed

lemma lower_slot_grows: "lower_slot g slot st = Inr st' \<Longrightarrow> grows st st'"
  using lower_operands_grows [THEN grows_trans, OF _ emit_pins_grows]
  by (auto simp: lower_slot_def lower_hook_loads_def lower_calls_def Let_def emit_pins_grows lower_hook_stores_grows
      split: if_splits sum.splits)

lemma lower_slots_grows: "lower_slots g slots st = Inr st' \<Longrightarrow> grows st st'"
  by (induction slots arbitrary: st) (auto split: sum.splits intro: grows_trans dest!: lower_slot_grows)

lemma lower_slots_inv:
  assumes "graph_inv g" "\<forall>slot \<in> set slots. ss_node_index slot < length (gr_nodes g)" "lower_inv g st"
    and "lower_slots g slots st = Inr st'" "small (ls_module st')"
  shows "lower_inv g st'"
  using assms(2-4)
proof (induction slots arbitrary: st)
  case (Cons slot slots)
  then obtain st1 where s: "lower_slot g slot st = Inr st1" "lower_slots g slots st1 = Inr st'"
    by (auto split: sum.splits)
  have "small (ls_module st1)" using lower_slots_grows [OF s(2)] assms(5) by (rule grows_small)
  then have "lower_inv g st1" using lower_slot_inv [OF assms(1) _ Cons.prems(2) s(1)] Cons.prems(1) by simp
  with Cons.IH s(2) Cons.prems(1) show ?case by simp
qed simp

definition lower_start :: "'d lower_state" where
  "lower_start = \<lparr>ls_module = [], ls_next_id = 1, ls_value_of = Map.empty\<rparr>"

lemma lower_start_inv: "lower_inv g lower_start"
  by (simp add: lower_inv_def lower_start_def fresh_ids_def ssa_ordered_def stores_ok_def)

lemma lowered:
  assumes "lower g = Some (Inr m)"
  obtains order st where "validate g = ok" "schedule g = Some (map slot_of order)" "distinct order"
    "set order = {..< length (gr_nodes g) * 2}" "ordered_by (schedule_pairs g) order"
    "lower_slots g (map slot_of order) lower_start = Inr st" "ls_module st = m"
proof -
  obtain order where o: "schedule g = Some (map slot_of order)" "distinct order" "ordered_by (schedule_pairs g) order"
      "acyclic (dependencies g) \<longrightarrow> set order = {..< length (gr_nodes g) * 2}"
    using schedule_order by blast
  have v: "validate g = ok" using assms by (auto simp: lower_def split: sum.splits)
  then have all: "set order = {..< length (gr_nodes g) * 2}" using o(4) validate_correct by blast
  obtain st where st: "lower_slots g (map slot_of order) lower_start = Inr st" "ls_module st = m"
    using assms v o(1) by (auto simp: lower_def lower_start_def map_sum_Inr_iff)
  show thesis by (rule that [OF v o(1,2) all o(3) st])
qed

text \<open>The module of a well-formed graph is in SSA order, and its stores store what the graph asks for.\<close>

lemma lowered_module:
  assumes "lower g = Some (Inr m)" "graph_inv g" "small m"
  shows "ssa_ordered m \<and> stores_ok g m"
proof -
  obtain order st where o: "set order = {..< length (gr_nodes g) * 2}"
      "lower_slots g (map slot_of order) lower_start = Inr st" "ls_module st = m"
    using lowered [OF assms(1)] by metis
  have "\<forall>slot \<in> set (map slot_of order). ss_node_index slot < length (gr_nodes g)"
    by (simp add: slot_of_def o(1) less_mult_imp_div_less)
  from lower_slots_inv [OF assms(2) this lower_start_inv o(2)] assms(3) o(3) show ?thesis
    by (simp add: lower_inv_def)
qed

end
