(* ===== verification/Lower_Total.thy ===== *)
theory Lower_Total
  imports Lower_Correct Patch_Install
begin

text \<open>
  The lowering of a graph that passes validation and the linter succeeds and stores a value for every
  input pin of every hook node; with the code generator, the inserter and the processor model: the
  feature that was drawn is what the patched ECU computes.
\<close>

section \<open>Progress\<close>

definition available :: "'d graph \<Rightarrow> 'd lower_state \<Rightarrow> 'd node \<Rightarrow> 'd pin \<Rightarrow> bool" where
  "available g st n q \<longleftrightarrow>
     (case find_driver g (nd_id n) (pn_id q) of
        Some (a, b) \<Rightarrow> make_key a b \<in> dom (ls_value_of st)
      | None \<Rightarrow> pn_default q \<noteq> None)"

lemma available_grows: "available g st n q \<Longrightarrow> grows st st' \<Longrightarrow> available g st' n q"
  by (auto simp: available_def grows_def split: option.splits)

lemma pin_source_available:
  assumes "available g st n q"
  obtains v st' where "pin_source g what un n q st = Inr (v, st')"
  using assms that by (auto simp: available_def pin_source_def split: option.splits)

lemma lower_operands_total: "\<forall>q \<in> set qs. available g st n q \<Longrightarrow> \<exists>r. lower_operands g n qs st = Inr r"
proof (induction qs arbitrary: st)
  case (Cons q qs)
  then obtain v st1 where s: "pin_source g ''primitive'' [] n q st = Inr (v, st1)"
    using pin_source_available by (metis list.set_intros(1))
  have "\<forall>q \<in> set qs. available g st1 n q"
    using Cons.prems by (auto intro: available_grows [OF _ pin_source_grows [OF s]])
  from Cons.IH [OF this] s show ?case by auto
qed simp

lemma grows_module: "grows st st' \<Longrightarrow> set (ls_module st) \<subseteq> set (ls_module st')"
  by (auto simp: grows_def)

lemma lower_hook_stores_total: "\<forall>q \<in> set qs. available g st n q \<Longrightarrow> \<exists>st'. lower_hook_stores g n qs st = Inr st'"
proof (induction qs arbitrary: st)
  case (Cons q qs)
  then obtain v st1 where s: "pin_source g ''hook'' '' (graph topology bug?)'' n q st = Inr (v, st1)"
    using pin_source_available by (metis list.set_intros(1))
  let ?st = "st1\<lparr>ls_module := ls_module st1 @ [store_hook_output (strip_kind_prefix (nd_kind n)) q v]\<rparr>"
  have "grows st ?st" using pin_source_grows [OF s] by (auto simp: grows_def)
  then have "\<forall>q \<in> set qs. available g ?st n q" using Cons.prems by (auto intro: available_grows)
  from Cons.IH [OF this] s show ?case by simp
qed simp

lemma lower_hook_stores_all:
  assumes "lower_hook_stores g n qs st = Inr st'" "q \<in> set qs"
  shows "\<exists>v. store_hook_output (strip_kind_prefix (nd_kind n)) q v \<in> set (ls_module st')"
  using assms
proof (induction qs arbitrary: st)
  case (Cons p qs)
  let ?store = "\<lambda>v st1. st1\<lparr>ls_module := ls_module st1 @ [store_hook_output (strip_kind_prefix (nd_kind n)) p v]\<rparr>"
  from Cons.prems(1) obtain v st1 where s: "lower_hook_stores g n qs (?store v st1) = Inr st'"
    by (auto split: sum.splits)
  show ?case
  proof (cases "q = p")
    case True
    have "store_hook_output (strip_kind_prefix (nd_kind n)) p v \<in> set (ls_module (?store v st1))" by simp
    with True grows_module [OF lower_hook_stores_grows [OF s]] show ?thesis by blast
  next
    case False
    with Cons s show ?thesis by simp
  qed
qed simp

lemma emit_pins_dom:
  "p \<in> set ps \<Longrightarrow> make_key i (pn_id p) \<in> dom (ls_value_of (foldl (\<lambda>st p. emit_pin i p (f p) st) st ps))"
proof (induction ps arbitrary: st)
  case (Cons p' ps)
  have "make_key i (pn_id p') \<in> dom (ls_value_of (emit_pin i p' (f p') st))" by (simp add: emit_pin_def emit_value_def)
  then have "make_key i (pn_id p') \<in> dom (ls_value_of (foldl (\<lambda>st p. emit_pin i p (f p) st) (emit_pin i p' (f p') st) ps))"
    using emit_pins_grows [of "emit_pin i p' (f p') st" i f ps] unfolding grows_def by blast
  with Cons show ?case by auto
qed simp

text \<open>What the visits to the sides \<open>S\<close> have left in the state.\<close>

definition emitted :: "'d graph \<Rightarrow> 'd lower_state \<Rightarrow> nat set \<Rightarrow> bool" where
  "emitted g st S \<longleftrightarrow> (\<forall>i < length (gr_nodes g).
     (i * 2 \<in> S \<longrightarrow> (\<forall>p \<in> set (pins_of PinOutput (gr_nodes g ! i)).
        make_key (nd_id (gr_nodes g ! i)) (pn_id p) \<in> dom (ls_value_of st))) \<and>
     (i * 2 + 1 \<in> S \<longrightarrow> nd_phase_break (gr_nodes g ! i) \<longrightarrow> (\<forall>q \<in> set (pins_of PinInput (gr_nodes g ! i)).
        \<exists>v. store_hook_output (strip_kind_prefix (nd_kind (gr_nodes g ! i))) q v \<in> set (ls_module st))))"

lemma emitted_grows: "emitted g st S \<Longrightarrow> grows st st' \<Longrightarrow> emitted g st' S"
  unfolding emitted_def grows_def by fastforce

lemma slot_of_sides [simp]: "slot_of (i * 2) = \<lparr>ss_node_index = i, ss_is_input_side = False\<rparr>"
    "slot_of (Suc (i * 2)) = \<lparr>ss_node_index = i, ss_is_input_side = True\<rparr>"
  by (simp_all add: slot_of_def) presburger

lemma side_cases:
  fixes v :: nat
  obtains i where "v = i * 2" | i where "v = Suc (i * 2)"
  by (metis add.commute mult.commute oddE evenE plus_1_eq_Suc)

lemma lower_slot_dom:
  assumes "lower_slot g \<lparr>ss_node_index = i, ss_is_input_side = False\<rparr> st = Inr st'"
    and "p \<in> set (pins_of PinOutput (gr_nodes g ! i))"
  shows "make_key (nd_id (gr_nodes g ! i)) (pn_id p) \<in> dom (ls_value_of st')"
proof -
  let ?n = "gr_nodes g ! i"
  obtain f st1 where "st' = foldl (\<lambda>st p. emit_pin (nd_id ?n) p (f p) st) st1 (pins_of PinOutput ?n)"
  proof (cases "nd_phase_break ?n")
    case True
    then show thesis using assms(1) that by (auto simp: lower_slot_def lower_hook_loads_def Let_def)
  next
    case False
    then show thesis using assms(1) that by (auto simp: lower_slot_def lower_calls_def Let_def split: sum.splits)
  qed
  then show ?thesis using emit_pins_dom [OF assms(2)] by simp
qed

lemma emitted_step:
  assumes "emitted g st S" "lower_slot g (slot_of v) st = Inr st'"
  shows "emitted g st' (insert v S)"
proof -
  have old: "emitted g st' S" using emitted_grows [OF assms(1) lower_slot_grows [OF assms(2)]] .
  show ?thesis
  proof (cases v rule: side_cases)
    case (1 i)
    have "\<forall>p \<in> set (pins_of PinOutput (gr_nodes g ! i)).
        make_key (nd_id (gr_nodes g ! i)) (pn_id p) \<in> dom (ls_value_of st')"
      using lower_slot_dom [OF assms(2) [unfolded 1 slot_of_sides]] by blast
    moreover have "Suc (j * 2) \<noteq> i * 2" for j by presburger
    ultimately show ?thesis using old 1 unfolding emitted_def by auto
  next
    case (2 i)
    with assms(2) have "nd_phase_break (gr_nodes g ! i) \<Longrightarrow>
        lower_hook_stores g (gr_nodes g ! i) (pins_of PinInput (gr_nodes g ! i)) st = Inr st'"
      by (simp add: lower_slot_def Let_def)
    then have "nd_phase_break (gr_nodes g ! i) \<Longrightarrow> \<forall>q \<in> set (pins_of PinInput (gr_nodes g ! i)).
        \<exists>v. store_hook_output (strip_kind_prefix (nd_kind (gr_nodes g ! i))) q v \<in> set (ls_module st')"
      by (auto dest: lower_hook_stores_all)
    moreover have "j * 2 \<noteq> Suc (i * 2)" for j by presburger
    ultimately show ?thesis using old 2 unfolding emitted_def by auto
  qed
qed

lemma lower_slots_emitted:
  "emitted g st S \<Longrightarrow> lower_slots g (map slot_of vs) st = Inr st' \<Longrightarrow> emitted g st' (S \<union> set vs)"
proof (induction vs arbitrary: st S)
  case (Cons v vs)
  then obtain st1 where s: "lower_slot g (slot_of v) st = Inr st1" "lower_slots g (map slot_of vs) st1 = Inr st'"
    by (auto split: sum.splits)
  from Cons.IH [OF emitted_step [OF Cons.prems(1) s(1)] s(2)] show ?case by simp
qed simp

section \<open>Success\<close>

lemma index_of_nth: "distinct (map nd_id ns) \<Longrightarrow> i < length ns \<Longrightarrow> index_of ns (nd_id (ns ! i)) = i"
proof (induction ns arbitrary: i)
  case (Cons n ns)
  then show ?case by (cases i) (auto simp: index_of_def)
qed simp

definition sourced :: "'d graph \<Rightarrow> bool" where
  "sourced g \<longleftrightarrow> (\<forall>n \<in> set (gr_nodes g). \<forall>p \<in> set (nd_pins n). \<not> undriven g n p)"

lemma available_ready:
  assumes g: "graph_inv g" "sourced g" and i: "i < length (gr_nodes g)" and q: "q \<in> set (pins_of PinInput (gr_nodes g ! i))"
    and S: "emitted g st S" "\<And>u. (u, i * 2 + 1) \<in> set (schedule_pairs g) \<Longrightarrow> u \<in> S"
  shows "available g st (gr_nodes g ! i) q"
proof (cases "find_driver g (nd_id (gr_nodes g ! i)) (pn_id q)")
  case None
  then have "find (drives (nd_id (gr_nodes g ! i)) (pn_id q)) (gr_edges g) = None" by (simp add: find_driver_def)
  then have "\<not> list_ex (drives (nd_id (gr_nodes g ! i)) (pn_id q)) (gr_edges g)"
    by (auto simp: find_None_iff list_ex_iff)
  then have "pn_default q \<noteq> None"
    using g(2) i q by (auto simp: sourced_def undriven_def pins_of_pins)
  with None show ?thesis by (simp add: available_def)
next
  case (Some ab)
  obtain a b where ab: "ab = (a, b)" by force
  obtain e n p where e: "e \<in> set (gr_edges g)" "ed_to_node e = nd_id (gr_nodes g ! i)" "ed_from_node e = a"
      "n \<in> set (gr_nodes g)" "nd_id n = a" "p \<in> set (pins_of PinOutput n)" "pn_id p = b"
    using find_driver_edge [OF g(1) Some [unfolded ab]] by metis
  obtain k where k: "k < length (gr_nodes g)" "gr_nodes g ! k = n" using e(4) by (auto simp: in_set_conv_nth)
  have d: "distinct (map nd_id (gr_nodes g))" using g(1) by (simp add: graph_inv_def)
  have "index_of (gr_nodes g) (ed_from_node e) = k" "index_of (gr_nodes g) (ed_to_node e) = i"
    using index_of_nth [OF d k(1)] index_of_nth [OF d i] e k(2) by simp_all
  then have "(k * 2, i * 2 + 1) \<in> set (schedule_pairs g)"
    using e(1) k(1) i by (force simp: schedule_pairs_def side_links_def edge_links_def resolved_def)
  then have "k * 2 \<in> S" by (rule S(2))
  then have "make_key a b \<in> dom (ls_value_of st)" using S(1) k e(5-7) by (auto simp: emitted_def)
  with Some ab show ?thesis by (simp add: available_def)
qed

lemma ordered_by_closed:
  assumes "ordered_by ps (pre @ v # vs)" "(u, v) \<in> set ps"
  shows "u \<in> set pre"
proof -
  have "length pre < length (pre @ v # vs)" "(pre @ v # vs) ! length pre = v" "take (length pre) (pre @ v # vs) = pre"
    by simp_all
  with assms show ?thesis unfolding ordered_by_def by metis
qed

lemma ordered_by_earlier:
  assumes "ordered_by ps (pre @ vs)" "v \<in> set pre" "(u, v) \<in> set ps"
  shows "u \<in> set pre"
proof -
  obtain k where "k < length pre" "pre ! k = v" using assms(2) by (auto simp: in_set_conv_nth)
  then have "k < length (pre @ vs)" "(pre @ vs) ! k = v" "take k (pre @ vs) = take k pre"
    by (simp_all add: nth_append)
  with assms(1,3) have "u \<in> set (take k pre)" unfolding ordered_by_def by metis
  then show ?thesis by (rule in_set_takeD)
qed

lemma lower_slot_total:
  assumes g: "graph_inv g" "sourced g" and order: "ordered_by (schedule_pairs g) (pre @ v # vs)"
    and v: "v < length (gr_nodes g) * 2" and st: "emitted g st (set pre)"
  shows "\<exists>st'. lower_slot g (slot_of v) st = Inr st'"
proof -
  let ?ps = "schedule_pairs g"
  show ?thesis
  proof (cases v rule: side_cases)
    case (1 i)
    show ?thesis
    proof (cases "nd_phase_break (gr_nodes g ! i)")
      case True
      with 1 show ?thesis by (simp add: lower_slot_def Let_def)
    next
      case False
      have i: "i < length (gr_nodes g)" using v 1 by simp
      have "(i * 2 + 1, i * 2) \<in> set ?ps"
        using False i by (auto simp: schedule_pairs_def side_links_def inner_links_def)
      then have "i * 2 + 1 \<in> set pre" using ordered_by_closed [OF order] 1 by simp
      then have "\<forall>q \<in> set (pins_of PinInput (gr_nodes g ! i)). available g st (gr_nodes g ! i) q"
        using available_ready [OF g i _ st] ordered_by_earlier [OF order] by blast
      from lower_operands_total [OF this] 1 False show ?thesis by (auto simp: lower_slot_def Let_def)
    qed
  next
    case (2 i)
    show ?thesis
    proof (cases "nd_phase_break (gr_nodes g ! i)")
      case False
      with 2 show ?thesis by (simp add: lower_slot_def Let_def)
    next
      case True
      have i: "i < length (gr_nodes g)" using v 2 by simp
      have "\<forall>q \<in> set (pins_of PinInput (gr_nodes g ! i)). available g st (gr_nodes g ! i) q"
        using available_ready [OF g i _ st] ordered_by_closed [OF order] 2 by simp
      from lower_hook_stores_total [OF this] 2 True show ?thesis by (auto simp: lower_slot_def Let_def)
    qed
  qed
qed

lemma lower_slots_total:
  assumes "graph_inv g" "sourced g" "ordered_by (schedule_pairs g) (pre @ vs)"
    and "\<forall>v \<in> set vs. v < length (gr_nodes g) * 2" "emitted g st (set pre)"
  shows "\<exists>st'. lower_slots g (map slot_of vs) st = Inr st'"
  using assms(3-)
proof (induction vs arbitrary: pre st)
  case (Cons v vs)
  then obtain st1 where s: "lower_slot g (slot_of v) st = Inr st1"
    using lower_slot_total [OF assms(1,2) Cons.prems(1) _ Cons.prems(3)] by auto
  have "emitted g st1 (set (pre @ [v]))" using emitted_step [OF Cons.prems(3) s] by simp
  with Cons.IH [of "pre @ [v]" st1] Cons.prems(1,2) s show ?case by simp
qed simp

theorem lower_total:
  assumes "graph_inv g" "validate g = ok" "sourced g"
  shows "\<exists>m. lower g = Some (Inr m)"
proof -
  obtain order where o: "schedule g = Some (map slot_of order)" "set order \<subseteq> {..< length (gr_nodes g) * 2}"
      "ordered_by (schedule_pairs g) order"
    using schedule_order by blast
  have "emitted g lower_start (set [])" by (simp add: emitted_def)
  then obtain st where "lower_slots g (map slot_of order) lower_start = Inr st"
    using lower_slots_total [OF assms(1,3), of "[]" order lower_start] o(2,3) by auto
  with assms(2) o(1) show ?thesis by (simp add: lower_def lower_start_def)
qed

text \<open>Every input pin of a hook node is stored.\<close>

lemma lowered_stores:
  assumes "lower g = Some (Inr m)" "n \<in> set (gr_nodes g)" "q \<in> set (pins_of PinInput n)" "nd_phase_break n"
  shows "\<exists>v. store_hook_output (strip_kind_prefix (nd_kind n)) q v \<in> set m"
proof -
  obtain order st where o: "set order = {..< length (gr_nodes g) * 2}"
      "lower_slots g (map slot_of order) lower_start = Inr st" "ls_module st = m"
    using lowered [OF assms(1)] by metis
  have "emitted g lower_start {}" by (simp add: emitted_def)
  from lower_slots_emitted [OF this o(2)] have e: "emitted g st (set order)" by simp
  obtain i where i: "i < length (gr_nodes g)" "gr_nodes g ! i = n" using assms(2) by (auto simp: in_set_conv_nth)
  then have "i * 2 + 1 \<in> set order" using o(1) by simp
  with e i assms(3,4) o(3) show ?thesis unfolding emitted_def by blast
qed

lemma lint_sourced:
  assumes "graph_lint g = []"
  shows "sourced g"
proof -
  have "\<not> undriven g n p" if n: "n \<in> set (gr_nodes g)" "p \<in> set (nd_pins n)" for n p
  proof -
    have "lint_node g n = []" using assms n(1) by (simp add: graph_lint_def)
    then have "filter (undriven g n) (nd_pins n) = []" by (auto simp: lint_node_def split: if_splits)
    with n(2) show ?thesis by (auto simp: filter_empty_conv)
  qed
  then show ?thesis by (simp add: sourced_def)
qed

end
