(* ===== verification/Graph_Props.thy ===== *)
theory Graph_Props
  imports Lower_Total Patch_Props
begin

text \<open>
  The properties of feature graphs, from editing to the patched ECU, with a demo graph: a hook whose
  \<open>cut\<close> output is its \<open>rpm\<close> input plus a constant.
\<close>

section \<open>The demo graph\<close>

definition demo_pin :: "pin_id \<Rightarrow> string \<Rightarrow> pin_direction \<Rightarrow> int option \<Rightarrow> int pin" where
  "demo_pin i name d v = \<lparr>pn_id = i, pn_name = name, pn_type = PinInt, pn_direction = d, pn_unit = [], pn_label = [],
     pn_default = v\<rparr>"

definition demo_node :: "string \<Rightarrow> int pin list \<Rightarrow> bool \<Rightarrow> int node" where
  "demo_node kind pins b =
     \<lparr>nd_id = 0, nd_kind = kind, nd_label = [], nd_x = 0, nd_y = 0, nd_pins = pins, nd_phase_break = b\<rparr>"

definition demo_graph :: "int graph" where
  "demo_graph =
     snd (connect 2 3 1 2 (snd (connect 1 1 2 1
       (snd (add_node (demo_node ''primitive.add_int''
            [demo_pin 1 ''a'' PinInput None, demo_pin 2 ''b'' PinInput (Some 5), demo_pin 3 ''out'' PinOutput None] False)
         (snd (add_node (demo_node ''hook.limit''
            [demo_pin 1 ''rpm'' PinOutput None, demo_pin 2 ''cut'' PinInput None, demo_pin 3 ''fuel'' PinInput (Some 5)] True)
            empty_graph)))))))"

definition demo_lowered :: "int ir_module" where
  "demo_lowered = (case lower demo_graph of Some (Inr m) \<Rightarrow> m | _ \<Rightarrow> [])"

lemma demo_edited: "edited demo_graph"
  unfolding demo_graph_def
  by (intro edited.intros)
    (simp_all add: pins_distinct_def demo_node_def demo_pin_def empty_graph_def add_node_def Let_def)

lemma demo_lowers: "lower demo_graph = Some (Inr demo_lowered)" "length demo_lowered = 6"
proof -
  have "case lower demo_graph of Some (Inr m) \<Rightarrow> length m = 6 | _ \<Rightarrow> False" by code_simp
  then show "lower demo_graph = Some (Inr demo_lowered)" "length demo_lowered = 6"
    by (auto simp: demo_lowered_def split: option.splits sum.splits)
qed

section \<open>Editing and validation\<close>



text \<open>C18: Validation decides whether a graph can be computed. \<open>validate\<close> accepts a graph exactly when the
  endpoints of every edge exist and agree and no output depends on itself, where the two sides of a hook
  node are apart: its depth-first search reports a back edge exactly when there is a cycle.\<close>

theorem validate_decides:
  "validate g = ok \<longleftrightarrow> list_all (edge_ok g) (gr_edges g) \<and> acyclic (dependencies g)"
  by (simp add: validate_correct list_all_iff)

section \<open>Lowering\<close>

text \<open>C16: A linted graph lowers. The lowering of a graph that was built by editing, that \<open>validate\<close>
  accepts and in which the linter finds nothing never fails: the schedule visits every driver before
  what it drives, so that no input is ``not yet scheduled''.\<close>

theorem linted_graph_lowers:
  assumes "edited g" "validate g = ok" "graph_lint g = []"
  shows "\<exists>m. lower g = Some (Inr m)"
  using assms by (intro lower_total edited_inv lint_sourced)

lemma linted_graph_lowers_witness: "\<exists>m. lower demo_graph = Some (Inr m)"
proof (rule linted_graph_lowers [OF demo_edited])
  show "validate demo_graph = ok" by code_simp
  show "graph_lint demo_graph = []" by code_simp
qed

text \<open>The schedule always ends, whatever the graph: every round of its loop adds a side that was not
  yet in the order, the order has no side twice, and each side in it follows those with a link into it.\<close>

theorem schedule_terminates:
  "\<exists>order. schedule g = Some (map slot_of order) \<and> distinct order \<and> set order \<subseteq> {..< length (gr_nodes g) * 2} \<and>
     ordered_by (schedule_pairs g) order"
  using schedule_order [of g] by blast

text \<open>C5: The lowering keeps the meaning of a graph. The module is in SSA order, so that the SH-2A
  backend returns on it; for every input pin of every hook node it stores a value whose evaluation,
  over any memory and floating-point unit, is what the graph assigns to the pin, and it stores nothing
  else. The module must have fewer instructions than there are value ids.\<close>

theorem lower_correct:
  assumes "edited g" "lower g = Some (Inr m)" "length m < 2 ^ 32 - 1"
  shows "ssa_ordered m \<and> compile dbl m def \<noteq> None \<and>
    (\<forall>n \<in> set (gr_nodes g). \<forall>q \<in> set (pins_of PinInput n). nd_phase_break n \<longrightarrow>
       (\<exists>v. store_hook_output (strip_kind_prefix (nd_kind n)) q v \<in> set m)) \<and>
    (\<forall>i \<in> set m. ins_op i = StoreHookOutput \<longrightarrow>
       (\<exists>n \<in> set (gr_nodes g). \<exists>q \<in> set (pins_of PinInput n). \<exists>v. nd_phase_break n \<and>
          i = store_hook_output (strip_kind_prefix (nd_kind n)) q v \<and>
          (\<forall>dbl def f mem x. evaluates dbl def m f mem v x \<longrightarrow> source_value dbl def f mem g n q x)))"
proof (intro conjI ballI impI)
  have m: "ssa_ordered m \<and> stores_ok g m"
    using lowered_module [OF assms(2) edited_inv [OF assms(1)]] assms(3) by (simp add: small_def)
  then show "ssa_ordered m" by blast
  then show "compile dbl m def \<noteq> None" using sh2a_compile_returns [of m dbl def] by auto
  show "\<exists>n \<in> set (gr_nodes g). \<exists>q \<in> set (pins_of PinInput n). \<exists>v. nd_phase_break n \<and>
      i = store_hook_output (strip_kind_prefix (nd_kind n)) q v \<and>
      (\<forall>dbl def f mem x. evaluates dbl def m f mem v x \<longrightarrow> source_value dbl def f mem g n q x)"
    if "i \<in> set m" "ins_op i = StoreHookOutput" for i
    using m that value_ok_sound(2) unfolding stores_ok_def by metis
  show "\<exists>v. store_hook_output (strip_kind_prefix (nd_kind n)) q v \<in> set m"
    if "n \<in> set (gr_nodes g)" "q \<in> set (pins_of PinInput n)" "nd_phase_break n" for n q
    using lowered_stores [OF assms(2) that] .
qed

lemma lower_correct_witness:
  "ssa_ordered demo_lowered \<and> compile demo_doubles demo_lowered rom_pack \<noteq> None"
  using lower_correct [OF demo_edited demo_lowers(1), of demo_doubles rom_pack] demo_lowers(2) by simp

section \<open>From the drawing to the ECU\<close>

text \<open>C1: A drawn feature runs on the ECU. A graph built by editing is lowered, compiled for the SH-2A
  and inserted in a ROM; when the firmware comes to the splice point of a hook, the machine returns to the
  caller of the spliced routine with the value that the graph assigns to an input pin of a node of that
  hook, over the memory at that moment, in the RAM slot of the pin, and with memory outside the hook's free
  RAM as it was. The hypotheses on the image are those of the inserter and the code generator.\<close>

theorem drawn_feature_runs:
  assumes "edited g" "lower g = Some (Inr m)" "length m < 2 ^ 32 - 1"
    and "compile dbl m def = Some (Inr obj)" "ram_in_range def"
    and "apply_patch obj rom regions tag = Inr out" "length rom < 2 ^ 32"
    and "sites_clear (filter has_code (po_hooks obj)) regions"
    and "hp \<in> set (po_hooks obj)" "length (hp_code hp) < 1032" "find_hook def (hp_symbol hp) = Some hook"
    and "\<forall>a \<in> free_ram hook. length rom \<le> unat a" "inputs_clear def m (free_ram hook)"
    and "rom_mapped (pr_bytes out) (sh_mem s)" "sh_pc s = splice_site hp"
  shows "\<exists>n \<in> set (gr_nodes g). \<exists>q \<in> set (pins_of PinInput n). \<exists>slot x s'. nd_phase_break n \<and>
    strip_kind_prefix (nd_kind n) = hp_symbol hp \<and> pin_slot_of dbl m def (hp_symbol hp) (pn_name q) = Some slot \<and>
    source_value dbl def f (sh_mem s) g n q x \<and> reaches f s s' \<and> sh_pc s' = sh_pr s \<and>
    load32 (sh_mem s') slot = x \<and> unchanged_outside (free_ram hook) (sh_mem s) (sh_mem s') \<and> keeps s s'"
proof -
  obtain ins slot x s' where I: "first_store m (hp_symbol hp) = Some ins"
      "pin_slot_of dbl m def (hp_symbol hp) (ins_pin ins) = Some slot"
      "evaluates dbl def m f (sh_mem s) (ins_operands ins ! 0) x" "reaches f s s'" "sh_pc s' = sh_pr s"
      "load32 (sh_mem s') slot = x" "unchanged_outside (free_ram hook) (sh_mem s) (sh_mem s')" "keeps s s'"
    using installed_feature_runs [OF assms(4-15)] by blast
  have "ins \<in> set m" "ins_op ins = StoreHookOutput" "ins_symbol ins = hp_symbol hp"
    using I(1) by (auto simp: first_store_def is_store_of_def find_Some_iff)
  moreover have "stores_ok g m"
    using lowered_module [OF assms(2) edited_inv [OF assms(1)]] assms(3) by (simp add: small_def)
  ultimately obtain n q v where n: "n \<in> set (gr_nodes g)" "q \<in> set (pins_of PinInput n)" "nd_phase_break n"
      "ins = store_hook_output (strip_kind_prefix (nd_kind n)) q v" "source_ok g m n q v"
    unfolding stores_ok_def by blast
  then have "source_value dbl def f (sh_mem s) g n q x" using I(3) by (auto intro: value_ok_sound(2))
  with n I \<open>ins_symbol ins = hp_symbol hp\<close> show ?thesis by fastforce
qed

lemma drawn_installs:
  "(case compile demo_doubles demo_lowered rom_pack of
      Some (Inr obj) \<Rightarrow> map (\<lambda>hp. (hp_symbol hp, hp_splice_address hp, length (hp_code hp))) (po_hooks obj) =
          [(''limit'', 0x20, 48)] \<and>
        (case apply_patch obj rom_source rom_regions ''SUBU'' of
           Inr out \<Rightarrow> length (pr_bytes out) = 0x100
         | Inl _ \<Rightarrow> False)
    | _ \<Rightarrow> False)"
  by code_simp

lemma drawn_object:
  obtains obj hp out where "compile demo_doubles demo_lowered rom_pack = Some (Inr obj)" "po_hooks obj = [hp]"
    "hp_symbol hp = ''limit''" "hp_splice_address hp = 0x20" "length (hp_code hp) = 48"
    "apply_patch obj rom_source rom_regions ''SUBU'' = Inr out" "length (pr_bytes out) = 0x100"
proof -
  obtain obj where obj: "compile demo_doubles demo_lowered rom_pack = Some (Inr obj)"
      "map (\<lambda>hp. (hp_symbol hp, hp_splice_address hp, length (hp_code hp))) (po_hooks obj) = [(''limit'', 0x20, 48)]"
      "case apply_patch obj rom_source rom_regions ''SUBU'' of Inr out \<Rightarrow> length (pr_bytes out) = 0x100 | Inl _ \<Rightarrow> False"
    using drawn_installs by (auto split: option.splits sum.splits)
  from obj(2) obtain hp where "po_hooks obj = [hp]" "hp_symbol hp = ''limit''" "hp_splice_address hp = 0x20"
      "length (hp_code hp) = 48"
    by (cases "po_hooks obj") auto
  moreover from obj(3) obtain out where "apply_patch obj rom_source rom_regions ''SUBU'' = Inr out"
      "length (pr_bytes out) = 0x100"
    by (auto split: sum.splits)
  ultimately show thesis using obj(1) that by blast
qed

lemma drawn_inputs_clear: "inputs_clear rom_pack demo_lowered (free_ram rom_hook)"
proof -
  have "list_all (\<lambda>i. ins_op i = LoadHookInput \<longrightarrow> resolve_hook_input_address rom_pack i = Inr 0xFFFF9000) demo_lowered"
    by code_simp
  then have "a = 0xFFFF9000" if "p \<in> set demo_lowered" "ins_op p = LoadHookInput"
      "resolve_hook_input_address rom_pack p = Inr a" for p a
    using that by (auto simp: list_all_iff)
  moreover have "aligned4 0xFFFF9000" by (simp add: aligned4_def)
  moreover have "longword 0xFFFF9000 \<inter> free_ram rom_hook = {}" by (simp add: longword_def rom_free_ram)
  ultimately show ?thesis unfolding inputs_clear_def by blast
qed

lemma drawn_feature_runs_witness:
  "\<forall>f. \<exists>obj out. compile demo_doubles demo_lowered rom_pack = Some (Inr obj) \<and>
     apply_patch obj rom_source rom_regions ''SUBU'' = Inr out \<and>
     (\<exists>n \<in> set (gr_nodes demo_graph). \<exists>q \<in> set (pins_of PinInput n). \<exists>slot x s'.
        pin_slot_of demo_doubles demo_lowered rom_pack ''limit'' (pn_name q) = Some slot \<and>
        source_value demo_doubles rom_pack f (rom_memory (pr_bytes out)) demo_graph n q x \<and>
        reaches f (machine_at 0x20 (pr_bytes out)) s' \<and> sh_pc s' = 0x200 \<and> load32 (sh_mem s') slot = x)"
proof
  fix f
  obtain obj hp out where o: "compile demo_doubles demo_lowered rom_pack = Some (Inr obj)" "po_hooks obj = [hp]"
      "hp_symbol hp = ''limit''" "hp_splice_address hp = 0x20" "length (hp_code hp) = 48"
      "apply_patch obj rom_source rom_regions ''SUBU'' = Inr out" "length (pr_bytes out) = 0x100"
    using drawn_object .
  let ?s = "machine_at 0x20 (pr_bytes out)"
  have "\<exists>n \<in> set (gr_nodes demo_graph). \<exists>q \<in> set (pins_of PinInput n). \<exists>slot x s'. nd_phase_break n \<and>
      strip_kind_prefix (nd_kind n) = hp_symbol hp \<and>
      pin_slot_of demo_doubles demo_lowered rom_pack (hp_symbol hp) (pn_name q) = Some slot \<and>
      source_value demo_doubles rom_pack f (sh_mem ?s) demo_graph n q x \<and> reaches f ?s s' \<and> sh_pc s' = sh_pr ?s \<and>
      load32 (sh_mem s') slot = x \<and> unchanged_outside (free_ram rom_hook) (sh_mem ?s) (sh_mem s') \<and> keeps ?s s'"
  proof (rule drawn_feature_runs [OF demo_edited demo_lowers(1) _ o(1) _ o(6)])
    show "ram_in_range rom_pack" by (simp add: ram_in_range_def rom_pack_def rom_hook_def demo_hook_def)
    show "sites_clear (filter has_code (po_hooks obj)) rom_regions"
      using o(2,4) by (auto simp: sites_clear_def rom_regions_def splice_window_def splice_site_def region_span_def)
    show "find_hook rom_pack (hp_symbol hp) = Some rom_hook" using rom_find_hook o(3) by simp
    show "inputs_clear rom_pack demo_lowered (free_ram rom_hook)" by (rule drawn_inputs_clear)
    show "\<forall>a \<in> free_ram rom_hook. length rom_source \<le> unat a" by (simp add: rom_free_ram rom_source_def)
    show "rom_mapped (pr_bytes out) (sh_mem ?s)"
      using rom_memory_mapped [of "pr_bytes out"] o(7) by (simp add: machine_at_def)
  qed (use o in \<open>simp_all add: demo_lowers(2) rom_source_def machine_at_def splice_site_def\<close>)
  then show "\<exists>obj out. compile demo_doubles demo_lowered rom_pack = Some (Inr obj) \<and>
      apply_patch obj rom_source rom_regions ''SUBU'' = Inr out \<and>
      (\<exists>n \<in> set (gr_nodes demo_graph). \<exists>q \<in> set (pins_of PinInput n). \<exists>slot x s'.
        pin_slot_of demo_doubles demo_lowered rom_pack ''limit'' (pn_name q) = Some slot \<and>
        source_value demo_doubles rom_pack f (rom_memory (pr_bytes out)) demo_graph n q x \<and>
        reaches f (machine_at 0x20 (pr_bytes out)) s' \<and> sh_pc s' = 0x200 \<and> load32 (sh_mem s') slot = x)"
    using o(1,3,6) by (intro exI [of _ obj] exI [of _ out]) (fastforce simp: machine_at_def)
qed

end
