(* ===== verification/Rom_Image.thy ===== *)
theory Rom_Image
  imports Core_Error
begin

text \<open>
  ROM images (src/rom/src/rom.cpp, \<open>rom.hpp\<close>): bounds-checked reads and writes of bytes and of 16 and
  32 bit values in both byte orders, and the scan for embedded strings. An image is the list of its
  bytes; offsets are \<open>std::size_t\<close> and the checks do not add, so they are natural numbers.
\<close>

unbundle bit_operations_syntax

section \<open>Reads\<close>

definition format_oob :: "string \<Rightarrow> nat \<Rightarrow> nat \<Rightarrow> nat \<Rightarrow> string" where
  "format_oob op offset len rom_size =
     ''Rom::'' @ op @ '': offset='' @ dec_string offset @
     (if len > 1 then '' length='' @ dec_string len else []) @
     '' exceeds rom size '' @ dec_string rom_size"

definition rom_slice :: "bytes \<Rightarrow> nat \<Rightarrow> nat \<Rightarrow> bytes result" where
  "rom_slice rom offset len =
     (if offset > length rom \<or> len > length rom - offset then
        failure OutOfRange (format_oob ''slice'' offset len (length rom))
      else Inr (take len (drop offset rom)))"

definition read_u8 :: "bytes \<Rightarrow> nat \<Rightarrow> u8 result" where
  "read_u8 rom offset =
     (if offset \<ge> length rom then failure OutOfRange (format_oob ''read_u8'' offset 1 (length rom))
      else Inr (rom ! offset))"

definition read_u16_be :: "bytes \<Rightarrow> nat \<Rightarrow> u16 result" where
  "read_u16_be rom offset =
     (if offset > length rom \<or> length rom - offset < 2 then
        failure OutOfRange (format_oob ''read_u16_be'' offset 2 (length rom))
      else Inr (push_bit 8 (ucast (rom ! offset)) OR ucast (rom ! (offset + 1))))"

definition rom_read_u32_be :: "bytes \<Rightarrow> nat \<Rightarrow> u32 result" where
  "rom_read_u32_be rom offset =
     (if offset > length rom \<or> length rom - offset < 4 then
        failure OutOfRange (format_oob ''read_u32_be'' offset 4 (length rom))
      else Inr (push_bit 24 (ucast (rom ! offset)) OR push_bit 16 (ucast (rom ! (offset + 1))) OR
        push_bit 8 (ucast (rom ! (offset + 2))) OR ucast (rom ! (offset + 3))))"

definition read_u16_le :: "bytes \<Rightarrow> nat \<Rightarrow> u16 result" where
  "read_u16_le rom offset =
     (if offset > length rom \<or> length rom - offset < 2 then
        failure OutOfRange (format_oob ''read_u16_le'' offset 2 (length rom))
      else Inr (push_bit 8 (ucast (rom ! (offset + 1))) OR ucast (rom ! offset)))"

definition read_u32_le :: "bytes \<Rightarrow> nat \<Rightarrow> u32 result" where
  "read_u32_le rom offset =
     (if offset > length rom \<or> length rom - offset < 4 then
        failure OutOfRange (format_oob ''read_u32_le'' offset 4 (length rom))
      else Inr (push_bit 24 (ucast (rom ! (offset + 3))) OR push_bit 16 (ucast (rom ! (offset + 2))) OR
        push_bit 8 (ucast (rom ! (offset + 1))) OR ucast (rom ! offset)))"

section \<open>Writes\<close>

definition write_u8 :: "nat \<Rightarrow> u8 \<Rightarrow> bytes \<Rightarrow> status \<times> bytes" where
  "write_u8 offset v rom =
     (if offset \<ge> length rom then (failure OutOfRange (format_oob ''write_u8'' offset 1 (length rom)), rom)
      else (ok, rom[offset := v]))"

definition write_u16_be :: "nat \<Rightarrow> u16 \<Rightarrow> bytes \<Rightarrow> status \<times> bytes" where
  "write_u16_be offset v rom =
     (if offset > length rom \<or> length rom - offset < 2 then
        (failure OutOfRange (format_oob ''write_u16_be'' offset 2 (length rom)), rom)
      else (ok, rom[offset := ucast (drop_bit 8 v AND 0xFF), offset + 1 := ucast (v AND 0xFF)]))"

definition write_u16_le :: "nat \<Rightarrow> u16 \<Rightarrow> bytes \<Rightarrow> status \<times> bytes" where
  "write_u16_le offset v rom =
     (if offset > length rom \<or> length rom - offset < 2 then
        (failure OutOfRange (format_oob ''write_u16_le'' offset 2 (length rom)), rom)
      else (ok, rom[offset := ucast (v AND 0xFF), offset + 1 := ucast (drop_bit 8 v AND 0xFF)]))"

definition write_u32_be :: "nat \<Rightarrow> u32 \<Rightarrow> bytes \<Rightarrow> status \<times> bytes" where
  "write_u32_be offset v rom =
     (if offset > length rom \<or> length rom - offset < 4 then
        (failure OutOfRange (format_oob ''write_u32_be'' offset 4 (length rom)), rom)
      else (ok, rom[offset := ucast (drop_bit 24 v AND 0xFF), offset + 1 := ucast (drop_bit 16 v AND 0xFF),
        offset + 2 := ucast (drop_bit 8 v AND 0xFF), offset + 3 := ucast (v AND 0xFF)]))"

definition write_u32_le :: "nat \<Rightarrow> u32 \<Rightarrow> bytes \<Rightarrow> status \<times> bytes" where
  "write_u32_le offset v rom =
     (if offset > length rom \<or> length rom - offset < 4 then
        (failure OutOfRange (format_oob ''write_u32_le'' offset 4 (length rom)), rom)
      else (ok, rom[offset := ucast (v AND 0xFF), offset + 1 := ucast (drop_bit 8 v AND 0xFF),
        offset + 2 := ucast (drop_bit 16 v AND 0xFF), offset + 3 := ucast (drop_bit 24 v AND 0xFF)]))"

section \<open>Strings\<close>

definition is_printable_ascii :: "u8 \<Rightarrow> bool" where
  "is_printable_ascii b \<longleftrightarrow> b \<ge> 0x20 \<and> b \<le> 0x7E"

definition ascii_char :: "u8 \<Rightarrow> char" where
  "ascii_char b = char_of (unat b)"

text \<open>The loop of \<open>read_ascii\<close> over the bytes within the limit; \<open>pos\<close> is the offset of the next byte.\<close>

fun read_ascii_from :: "nat \<Rightarrow> bytes \<Rightarrow> string result" where
  "read_ascii_from pos [] = Inr []"
| "read_ascii_from pos (b # bs) =
     (if b = 0 then Inr []
      else if \<not> is_printable_ascii b then
        failure ParseError (''non-printable byte at offset '' @ dec_string pos)
      else (case read_ascii_from (pos + 1) bs of Inl e \<Rightarrow> Inl e | Inr s \<Rightarrow> Inr (ascii_char b # s)))"

definition read_ascii :: "bytes \<Rightarrow> nat \<Rightarrow> nat \<Rightarrow> string result" where
  "read_ascii rom offset max_length =
     (if offset > length rom then failure OutOfRange (format_oob ''read_ascii'' offset max_length (length rom))
      else read_ascii_from offset (take (min max_length (length rom - offset)) (drop offset rom)))"

definition flush_run :: "bytes \<Rightarrow> nat \<Rightarrow> nat \<Rightarrow> nat \<Rightarrow> (nat \<times> string) list" where
  "flush_run rom min_length run_start run_len =
     (if run_len \<ge> min_length then [(run_start, map ascii_char (take run_len (drop run_start rom)))] else [])"

text \<open>The loop of \<open>scan_ascii\<close> from position \<open>i\<close> on, over the rest of the image.\<close>

fun scan_loop :: "bytes \<Rightarrow> nat \<Rightarrow> nat \<Rightarrow> nat \<Rightarrow> nat \<Rightarrow> bytes \<Rightarrow> (nat \<times> string) list" where
  "scan_loop rom min_length i run_start run_len [] = flush_run rom min_length run_start run_len"
| "scan_loop rom min_length i run_start run_len (b # bs) =
     (if is_printable_ascii b then
        scan_loop rom min_length (i + 1) (if run_len = 0 then i else run_start) (run_len + 1) bs
      else flush_run rom min_length run_start run_len @ scan_loop rom min_length (i + 1) run_start 0 bs)"

definition scan_ascii :: "nat \<Rightarrow> bytes \<Rightarrow> (nat \<times> string) list" where
  "scan_ascii min_length rom = scan_loop rom min_length 0 0 0 rom"

section \<open>Fields of an image\<close>

text \<open>
  What the callers of the accessors rely on: a write of a field succeeds exactly when the field lies
  in the image; then the field reads back, and no byte outside it has changed; a write that fails
  changes nothing; a read depends on the bytes of the field only and fails exactly when a write does.
\<close>

locale rom_field =
  fixes width :: nat
    and rd :: "bytes \<Rightarrow> nat \<Rightarrow> 'a result"
    and wr :: "nat \<Rightarrow> 'a \<Rightarrow> bytes \<Rightarrow> status \<times> bytes"
  assumes width_pos: "0 < width"
    and wr_ok: "offset + width \<le> length rom \<Longrightarrow> \<exists>rom'. wr offset v rom = (ok, rom')"
    and wr_length: "wr offset v rom = (r, rom') \<Longrightarrow> length rom' = length rom"
    and wr_other: "wr offset v rom = (r, rom') \<Longrightarrow> i < offset \<or> offset + width \<le> i \<Longrightarrow> rom' ! i = rom ! i"
    and wr_out: "length rom < offset + width \<Longrightarrow> \<exists>m. wr offset v rom = (failure OutOfRange m, rom)"
    and rd_wr: "wr offset v rom = (ok, rom') \<Longrightarrow> rd rom' offset = Inr v"
    and rd_out: "length rom < offset + width \<Longrightarrow> \<exists>m. rd rom offset = failure OutOfRange m"
    and rd_ok: "offset + width \<le> length rom \<Longrightarrow> \<exists>v. rd rom offset = Inr v"
    and rd_local: "length rom' = length rom \<Longrightarrow> (\<And>i. offset \<le> i \<Longrightarrow> i < offset + width \<Longrightarrow> rom' ! i = rom ! i) \<Longrightarrow>
      rd rom' offset = rd rom offset"
begin

lemma rd_after_other_wr:
  assumes "wr offset v rom = (r, rom')" "a + width \<le> offset \<or> offset + width \<le> a"
  shows "rd rom' a = rd rom a"
proof (rule rd_local)
  show "length rom' = length rom" using assms(1) by (rule wr_length)
  fix i assume "a \<le> i" "i < a + width"
  with assms show "rom' ! i = rom ! i" by (intro wr_other) auto
qed

lemma accessors:
  "if offset + width \<le> length rom
   then (\<exists>rom'. wr offset v rom = (ok, rom') \<and> length rom' = length rom \<and> rd rom' offset = Inr v \<and>
     (\<forall>i. i < offset \<or> offset + width \<le> i \<longrightarrow> rom' ! i = rom ! i))
   else (\<exists>m n. wr offset v rom = (failure OutOfRange m, rom) \<and> rd rom offset = failure OutOfRange n)"
proof (cases "offset + width \<le> length rom")
  case True
  then obtain rom' where "wr offset v rom = (ok, rom')" using wr_ok by blast
  with True rd_wr wr_length wr_other show ?thesis by fastforce
next
  case False
  with wr_out [of rom offset v] rd_out [of rom offset] show ?thesis by auto
qed

text \<open>A sequence of writes to fields apart from each other: each reads back at the end.\<close>

fun write_all :: "(nat \<times> 'a) list \<Rightarrow> bytes \<Rightarrow> status \<times> bytes" where
  "write_all [] rom = (ok, rom)"
| "write_all ((offset, v) # ws) rom =
     (case wr offset v rom of (Inl e, rom') \<Rightarrow> (Inl e, rom') | (Inr _, rom') \<Rightarrow> write_all ws rom')"

lemma write_all_keeps:
  "write_all ws rom = (ok, rom') \<Longrightarrow> \<forall>w \<in> set ws. a + width \<le> fst w \<or> fst w + width \<le> a \<Longrightarrow> rd rom' a = rd rom a"
proof (induction ws arbitrary: rom)
  case (Cons w ws)
  obtain offset v where w: "w = (offset, v)" by force
  with Cons.prems(1) obtain rom1 where s: "wr offset v rom = (ok, rom1)" "write_all ws rom1 = (ok, rom')"
    by (auto split: prod.splits sum.splits)
  have "rd rom1 a = rd rom a" using s(1) Cons.prems(2) w by (intro rd_after_other_wr) auto
  with Cons.IH [OF s(2)] Cons.prems(2) show ?case by simp
qed simp

lemma write_all_reads:
  assumes "write_all ws rom = (ok, rom')"
    and "sorted_wrt (\<lambda>v w. fst v + width \<le> fst w \<or> fst w + width \<le> fst v) ws" "(offset, v) \<in> set ws"
  shows "rd rom' offset = Inr v"
  using assms
proof (induction ws arbitrary: rom)
  case (Cons w ws)
  obtain a x where w: "w = (a, x)" by force
  with Cons.prems(1) obtain rom1 where s: "wr a x rom = (ok, rom1)" "write_all ws rom1 = (ok, rom')"
    by (auto split: prod.splits sum.splits)
  show ?case
  proof (cases "(offset, v) \<in> set ws")
    case True
    with Cons.IH [OF s(2)] Cons.prems(2) show ?thesis by simp
  next
    case False
    then have "offset = a" "v = x" using Cons.prems(3) w by auto
    moreover have "rd rom' a = rd rom1 a"
      using Cons.prems(2) w by (intro write_all_keeps [OF s(2)]) auto
    ultimately show ?thesis using rd_wr [OF s(1)] by simp
  qed
qed simp

end

lemma low_byte [simp]: "(ucast (v AND 0xFF) :: u8) = ucast (v :: u16)" "(ucast (w AND 0xFF) :: u8) = ucast (w :: u32)"
  by (auto intro!: bit_word_eqI simp: bit_and_iff bit_ucast_iff simp del: bit_numeral_word_iff)

lemma join16: "push_bit 8 (ucast (ucast (drop_bit 8 v) :: u8)) OR ucast (ucast v :: u8) = (v :: u16)"
  by (rule bit_word_eqI) (auto simp: bit_or_iff bit_push_bit_iff bit_ucast_iff bit_drop_bit_eq)

lemma join32:
  "push_bit 24 (ucast (ucast (drop_bit 24 v) :: u8)) OR push_bit 16 (ucast (ucast (drop_bit 16 v) :: u8)) OR
   push_bit 8 (ucast (ucast (drop_bit 8 v) :: u8)) OR ucast (ucast v :: u8) = (v :: u32)"
proof (rule bit_word_eqI)
  fix k assume k: "k < LENGTH(32)"
  consider "k < 8" | "8 \<le> k" "k < 16" | "16 \<le> k" "k < 24" | "24 \<le> k" by linarith
  then show "bit (push_bit 24 (ucast (ucast (drop_bit 24 v) :: u8)) OR push_bit 16 (ucast (ucast (drop_bit 16 v) :: u8)) OR
      push_bit 8 (ucast (ucast (drop_bit 8 v) :: u8)) OR ucast (ucast v :: u8) :: u32) k = bit v k"
    by cases (use k in \<open>simp_all add: bit_or_iff bit_push_bit_iff bit_ucast_iff bit_drop_bit_eq less_diff_conv2\<close>)
qed

interpretation u8_field: rom_field 1 read_u8 write_u8
  by unfold_locales (auto simp: read_u8_def write_u8_def split: if_splits)

interpretation u16_be_field: rom_field 2 read_u16_be write_u16_be
  by unfold_locales
    (auto simp: read_u16_be_def write_u16_be_def join16 nth_list_update split: if_splits)

interpretation u16_le_field: rom_field 2 read_u16_le write_u16_le
  by unfold_locales
    (auto simp: read_u16_le_def write_u16_le_def join16 nth_list_update split: if_splits)

interpretation u32_be_field: rom_field 4 rom_read_u32_be write_u32_be
  by unfold_locales
    (auto simp: rom_read_u32_be_def write_u32_be_def join32 nth_list_update split: if_splits)

interpretation u32_le_field: rom_field 4 read_u32_le write_u32_le
  by unfold_locales
    (auto simp: read_u32_le_def write_u32_le_def join32 nth_list_update split: if_splits)

section \<open>Runs of printable bytes\<close>

text \<open>A maximal run of printable bytes of the image.\<close>

definition printable_run :: "bytes \<Rightarrow> nat \<Rightarrow> nat \<Rightarrow> bool" where
  "printable_run rom a len \<longleftrightarrow> 0 < len \<and> a + len \<le> length rom \<and>
     (\<forall>k < len. is_printable_ascii (rom ! (a + k))) \<and> (0 < a \<longrightarrow> \<not> is_printable_ascii (rom ! (a - 1))) \<and>
     (a + len < length rom \<longrightarrow> \<not> is_printable_ascii (rom ! (a + len)))"

definition run_text :: "bytes \<Rightarrow> nat \<Rightarrow> nat \<Rightarrow> string" where
  "run_text rom a len = map ascii_char (take len (drop a rom))"

text \<open>The runs whose end satisfies \<open>P\<close>.\<close>

definition runs_at :: "bytes \<Rightarrow> nat \<Rightarrow> (nat \<Rightarrow> bool) \<Rightarrow> (nat \<times> string) set" where
  "runs_at rom min_length P =
     {(a, run_text rom a l) |a l. (printable_run rom a l \<and> P (a + l)) \<and> min_length \<le> l}"

lemma runs_at_cong:
  "(\<And>a l. printable_run rom a l \<Longrightarrow> P (a + l) \<longleftrightarrow> Q (a + l)) \<Longrightarrow> runs_at rom min_length P = runs_at rom min_length Q"
  unfolding runs_at_def by metis

lemma runs_at_Un: "runs_at rom min_length (\<lambda>e. P e \<or> Q e) = runs_at rom min_length P \<union> runs_at rom min_length Q"
  unfolding runs_at_def by blast

text \<open>The state of the loop at position \<open>i\<close>: the current run ends there and cannot be extended to the left.\<close>

definition scan_state :: "bytes \<Rightarrow> nat \<Rightarrow> nat \<Rightarrow> nat \<Rightarrow> bool" where
  "scan_state rom i start len \<longleftrightarrow> (0 < len \<longrightarrow> start + len = i) \<and>
     (\<forall>k < len. is_printable_ascii (rom ! (start + k))) \<and>
     (if 0 < len then 0 < start \<longrightarrow> \<not> is_printable_ascii (rom ! (start - 1))
      else 0 < i \<longrightarrow> \<not> is_printable_ascii (rom ! (i - 1)))"

lemma flush_run_set:
  assumes "scan_state rom i start len" "i \<le> length rom" "i < length rom \<longrightarrow> \<not> is_printable_ascii (rom ! i)" "0 < min_length"
  shows "set (flush_run rom min_length start len) =
    runs_at rom min_length (\<lambda>e. e = i)"
proof (cases "0 < len")
  case True
  have run: "printable_run rom start len" "start + len = i"
    using assms True by (auto simp: scan_state_def printable_run_def)
  have same: "a = start" if a: "printable_run rom a l" "a + l = i" for a l
  proof (rule ccontr)
    assume "a \<noteq> start"
    then consider "a < start" | "start < a" by linarith
    then show False
    proof cases
      case 1
      then have "start - 1 - a < l" "a + (start - 1 - a) = start - 1" using a(2) run(2) by linarith+
      then have "is_printable_ascii (rom ! (start - 1))" using a(1) unfolding printable_run_def by metis
      then show False using 1 run(1) by (simp add: printable_run_def)
    next
      case 2
      then have "a - 1 - start < len" "start + (a - 1 - start) = a - 1" using a run by (auto simp: printable_run_def)
      then have "is_printable_ascii (rom ! (a - 1))" using run(1) unfolding printable_run_def by metis
      then show False using 2 a(1) by (simp add: printable_run_def)
    qed
  qed
  have "printable_run rom a l \<and> a + l = i \<longleftrightarrow> a = start \<and> l = len" for a l
  proof
    assume a: "printable_run rom a l \<and> a + l = i"
    then have "a = start" using same by blast
    with a run(2) show "a = start \<and> l = len" by simp
  qed (use run in simp)
  then have "runs_at rom min_length (\<lambda>e. e = i) = (if min_length \<le> len then {(start, run_text rom start len)} else {})"
    by (simp add: runs_at_def)
  then show ?thesis by (simp add: flush_run_def run_text_def)
next
  case False
  have "\<not> printable_run rom a l" if "a + l = i" for a l
  proof
    assume a: "printable_run rom a l"
    then have "l - 1 < l" by (simp add: printable_run_def)
    with a have "is_printable_ascii (rom ! (a + (l - 1)))" unfolding printable_run_def by blast
    moreover have "a + (l - 1) = i - 1" "0 < i" using that a by (auto simp: printable_run_def)
    ultimately show False using assms(1) False by (simp add: scan_state_def)
  qed
  then show ?thesis using False assms(4) by (auto simp: flush_run_def runs_at_def)
qed

lemma scan_loop_set:
  assumes "scan_state rom i start len" "bs = drop i rom" "i \<le> length rom" "0 < min_length"
  shows "set (scan_loop rom min_length i start len bs) = runs_at rom min_length (\<lambda>e. i \<le> e)"
  using assms(1-3)
proof (induction bs arbitrary: i start len)
  case Nil
  then have i: "i = length rom" by simp
  have "runs_at rom min_length (\<lambda>e. i \<le> e) = runs_at rom min_length (\<lambda>e. e = i)"
    using i by (intro runs_at_cong) (auto simp: printable_run_def)
  with flush_run_set [OF Nil.prems(1,3) _ assms(4)] i show ?case by simp
next
  case (Cons b bs)
  have "drop i rom = b # bs" using Cons.prems(2) by simp
  then have i: "i < length rom" "rom ! i = b" "bs = drop (i + 1) rom"
    by (auto simp: nth_via_drop drop_Suc tl_drop [symmetric] not_le [symmetric])
  show ?case
  proof (cases "is_printable_ascii b")
    case True
    have st: "scan_state rom (i + 1) (if len = 0 then i else start) (len + 1)"
      using Cons.prems(1) True i(2) by (auto simp: scan_state_def less_Suc_eq)
    have "a + l \<noteq> i" if "printable_run rom a l" for a l
      using True i that by (auto simp: printable_run_def)
    then have "runs_at rom min_length (\<lambda>e. i \<le> e) = runs_at rom min_length (\<lambda>e. i + 1 \<le> e)"
      by (intro runs_at_cong) (metis Suc_eq_plus1 not_less_eq_eq le_antisym le_SucI)
    with Cons.IH [OF st i(3)] True i(1) show ?thesis by simp
  next
    case False
    have st: "scan_state rom (i + 1) start 0" using False i(2) by (simp add: scan_state_def)
    have "runs_at rom min_length (\<lambda>e. i \<le> e) = runs_at rom min_length (\<lambda>e. e = i \<or> i + 1 \<le> e)"
      by (intro runs_at_cong) auto
    moreover have "i < length rom \<longrightarrow> \<not> is_printable_ascii (rom ! i)" using False i(2) by simp
    ultimately show ?thesis
      using Cons.IH [OF st i(3)] flush_run_set [OF Cons.prems(1,3) _ assms(4)] False i(1) by (simp add: runs_at_Un)
  qed
qed

section \<open>Properties\<close>

text \<open>A field of \<open>width\<close> bytes and its accessors.\<close>

definition field_ok :: "nat \<Rightarrow> (bytes \<Rightarrow> nat \<Rightarrow> 'a result) \<Rightarrow> (nat \<Rightarrow> 'a \<Rightarrow> bytes \<Rightarrow> status \<times> bytes) \<Rightarrow> bool" where
  "field_ok width rd wr \<longleftrightarrow> (\<forall>rom offset v.
     if offset + width \<le> length rom
     then (\<exists>rom'. wr offset v rom = (ok, rom') \<and> length rom' = length rom \<and> rd rom' offset = Inr v \<and>
       (\<forall>i. i < offset \<or> offset + width \<le> i \<longrightarrow> rom' ! i = rom ! i))
     else (\<exists>m n. wr offset v rom = (failure OutOfRange m, rom) \<and> rd rom offset = failure OutOfRange n))"

text \<open>C40: The accessors of an image stay inside it. For each of the five (bytes, and 16 and 32 bit values in
  both byte orders): a write of a field that lies in the image succeeds, the field then reads back and
  no other byte has changed; a field that does not lie in it is refused with \<open>OutOfRange\<close> by the write,
  which changes nothing, and by the read.\<close>

theorem rom_accessors:
  "field_ok 1 read_u8 write_u8 \<and> field_ok 2 read_u16_be write_u16_be \<and> field_ok 2 read_u16_le write_u16_le \<and>
   field_ok 4 rom_read_u32_be write_u32_be \<and> field_ok 4 read_u32_le write_u32_le"
  unfolding field_ok_def
  by (intro conjI allI u8_field.accessors u16_be_field.accessors u16_le_field.accessors u32_be_field.accessors
      u32_le_field.accessors)

text \<open>The string scan reports exactly the maximal runs of printable bytes of at least the given length.\<close>

theorem scan_ascii_runs:
  "0 < min_length \<Longrightarrow> set (scan_ascii min_length rom) =
     {(a, run_text rom a l) |a l. printable_run rom a l \<and> min_length \<le> l}"
  unfolding scan_ascii_def by (subst scan_loop_set) (simp_all add: scan_state_def runs_at_def)

end
