(* ===== verification/Checksum.thy ===== *)
theory Checksum
  imports Rom_Image Flash_Plan Crc32
begin

text \<open>
  Checksum repair (src/flash/src/checksum.cpp): the kinds of a pack's \<open>checksum_type\<close>, the repair of the
  16-bit word sum with its complement, and that of the table of block CRCs an aftermarket installer
  leaves. A repair works on the span of the whole image; \<open>None\<close> stands for an access outside the span,
  which the code does not check (undefined behaviour), and for a loop that does not end.
\<close>

section \<open>Kinds\<close>

datatype checksum_kind = NoChecksum | SubaruStd | SubaruAlt | SubaruAlt2 | PerInstallBlockCrc32

primrec checksum_kind_name :: "checksum_kind \<Rightarrow> string" where
  "checksum_kind_name NoChecksum = ''none''"
| "checksum_kind_name SubaruStd = ''subaru_std''"
| "checksum_kind_name SubaruAlt = ''subaru_alt''"
| "checksum_kind_name SubaruAlt2 = ''subaru_alt2''"
| "checksum_kind_name PerInstallBlockCrc32 = ''per_install_block_crc32''"

definition parse_checksum_kind :: "string \<Rightarrow> checksum_kind option" where
  "parse_checksum_kind s =
     (if s = ''none'' then Some NoChecksum
      else if s = ''subaru_std'' then Some SubaruStd
      else if s = ''subaru_alt'' then Some SubaruAlt
      else if s = ''subaru_alt2'' then Some SubaruAlt2
      else if s = ''per_install_block_crc32'' then Some PerInstallBlockCrc32
      else if s = ''cobb_per_block_crc32'' then Some PerInstallBlockCrc32
      else None)"

definition checksum_kind_from_pack :: "string \<Rightarrow> checksum_kind" where
  "checksum_kind_from_pack s =
     (if s = [] then NoChecksum else (case parse_checksum_kind s of Some k \<Rightarrow> k | None \<Rightarrow> NoChecksum))"

lemma parse_checksum_kind_name: "parse_checksum_kind (checksum_kind_name k) = Some k"
  by (cases k) (simp_all add: parse_checksum_kind_def)

section \<open>The word sum\<close>

record subaru_std_config =
  cal_start :: u32
  cal_end :: u32
  sum_slot :: u32
  complement_slot :: u32

definition default_subaru_std :: subaru_std_config where
  "default_subaru_std = \<lparr>cal_start = 0x10000, cal_end = 0x200000, sum_slot = 0x100, complement_slot = 0x104\<rparr>"

definition overlaps_partial :: "subaru_std_config \<Rightarrow> u32 \<Rightarrow> bool" where
  "overlaps_partial cfg off \<longleftrightarrow>
     (off \<ge> cal_start cfg \<and> off < cal_end cfg) \<noteq> (off + 4 > cal_start cfg \<and> off + 4 \<le> cal_end cfg)"

definition subaru_std_validate :: "subaru_std_config \<Rightarrow> string" where
  "subaru_std_validate cfg =
     (if cal_end cfg \<le> cal_start cfg then ''cal_end must exceed cal_start''
      else if sum_slot cfg AND 3 \<noteq> 0 then ''sum_slot must be 4-byte aligned''
      else if complement_slot cfg AND 3 \<noteq> 0 then ''complement_slot must be 4-byte aligned''
      else if sum_slot cfg = complement_slot cfg then ''sum_slot and complement_slot must differ''
      else if overlaps_partial cfg (sum_slot cfg) then ''sum_slot partially overlaps the cal region''
      else if overlaps_partial cfg (complement_slot cfg) then ''complement_slot partially overlaps the cal region''
      else [])"

definition in_slot :: "u32 \<Rightarrow> u32 \<Rightarrow> bool" where
  "in_slot slot off \<longleftrightarrow> off \<ge> slot \<and> off < slot + 4"

definition cal_word :: "bytes \<Rightarrow> u32 \<Rightarrow> u32" where
  "cal_word rom off = push_bit 8 (ucast (rom ! unat off)) OR ucast (rom ! unat (off + 1))"

partial_function (option) sum_words :: "subaru_std_config \<Rightarrow> bytes \<Rightarrow> u32 \<Rightarrow> u32 \<Rightarrow> u32 option" where
  "sum_words cfg rom off acc =
     (if off + 2 \<le> cal_end cfg then
        if in_slot (sum_slot cfg) off \<or> in_slot (complement_slot cfg) off then sum_words cfg rom (off + 2) acc
        else if unat off \<ge> length rom \<or> unat (off + 1) \<ge> length rom then None
        else sum_words cfg rom (off + 2) (acc + cal_word rom off)
      else Some acc)"

declare sum_words.simps [code]

text \<open>The four assignments to \<open>rom[slot + 0]\<close> \dots \<open>rom[slot + 3]\<close>.\<close>

definition put_slot :: "u32 \<Rightarrow> u32 \<Rightarrow> bytes \<Rightarrow> bytes option" where
  "put_slot slot v rom =
     (if unat slot \<ge> length rom \<or> unat (slot + 1) \<ge> length rom \<or> unat (slot + 2) \<ge> length rom \<or>
         unat (slot + 3) \<ge> length rom then None
      else Some (rom[unat slot := ucast (drop_bit 24 v AND 0xFF), unat (slot + 1) := ucast (drop_bit 16 v AND 0xFF),
        unat (slot + 2) := ucast (drop_bit 8 v AND 0xFF), unat (slot + 3) := ucast (v AND 0xFF)]))"

definition repair_subaru_std :: "subaru_std_config \<Rightarrow> bytes \<Rightarrow> (status \<times> bytes) option" where
  "repair_subaru_std cfg rom =
     (let v = subaru_std_validate cfg in
      if v \<noteq> [] then Some (failure InvalidArgument (''flash::subaru_std::repair: '' @ v), rom)
      else if length rom < unat (cal_end cfg) then
        Some (failure InvalidArgument ''flash::subaru_std::repair: ROM is too small for the configured cal region'', rom)
      else if cal_start cfg AND 1 \<noteq> 0 \<or> cal_end cfg AND 1 \<noteq> 0 then
        Some (failure InvalidArgument
          ''flash::subaru_std::repair: cal region bounds must be 2-byte aligned'', rom)
      else
        (case sum_words cfg rom (cal_start cfg) 0 of
           None \<Rightarrow> None
         | Some s \<Rightarrow>
             (case put_slot (sum_slot cfg) s rom of
                None \<Rightarrow> None
              | Some rom1 \<Rightarrow> map_option (Pair ok) (put_slot (complement_slot cfg) (NOT s) rom1))))"

section \<open>The table of block CRCs\<close>

definition kTableBase :: nat where "kTableBase = 0x1FFF3C"
definition kRepairedBlockCount :: nat where "kRepairedBlockCount = 24"
definition kRomSizeRequired :: nat where "kRomSizeRequired = 0x200000"

definition block_view :: "bytes \<Rightarrow> nat \<Rightarrow> bytes" where
  "block_view rom i =
     (let b = kFaDitSh2a2Mb ! i in take (unat (sec_length b)) (drop (unat (sec_address b)) rom))"

definition repair_block :: "nat \<Rightarrow> bytes \<Rightarrow> bytes" where
  "repair_block i rom =
     (let crc = crc32 (block_view rom i); slot_off = kTableBase + i * 4 in
      rom[slot_off := ucast (drop_bit 24 crc AND 0xFF), slot_off + 1 := ucast (drop_bit 16 crc AND 0xFF),
        slot_off + 2 := ucast (drop_bit 8 crc AND 0xFF), slot_off + 3 := ucast (crc AND 0xFF)])"

definition repair_install_blocks :: "bytes \<Rightarrow> status \<times> bytes" where
  "repair_install_blocks rom =
     (if length rom < kRomSizeRequired then
        (failure InvalidArgument
           ''flash::per_install_block_crc32::repair: ROM is too small (need 2 MB FA-DIT layout)'', rom)
      else (ok, foldl (\<lambda>rom i. repair_block i rom) rom [0 ..< kRepairedBlockCount]))"

section \<open>Dispatch\<close>

definition kAltCitation :: string where
  "kAltCitation = ''the older 16-bit Subaru `subaru_alt` checksum variant documented in the community XML schema''"

definition kAlt2Citation :: string where
  "kAlt2Citation = ''the `subaru_alt2` checksum variant documented in the community XML schema (some 32-bit Subaru ROMs, including SH-2A platforms)''"

definition repair_stub :: "checksum_kind \<Rightarrow> string \<Rightarrow> bytes \<Rightarrow> status \<times> bytes" where
  "repair_stub k citation rom =
     (failure NotImplemented (''flash::'' @ checksum_kind_name k @ ''::repair: algorithm not yet implemented. See '' @
        citation @ '' for the reference + bench-validate against a known-good stock ROM before enabling.''), rom)"

primrec make_checksum_repair :: "checksum_kind \<Rightarrow> bytes \<Rightarrow> (status \<times> bytes) option" where
  "make_checksum_repair NoChecksum = (\<lambda>rom. Some (ok, rom))"
| "make_checksum_repair SubaruStd = repair_subaru_std default_subaru_std"
| "make_checksum_repair SubaruAlt = (\<lambda>rom. Some (repair_stub SubaruAlt kAltCitation rom))"
| "make_checksum_repair SubaruAlt2 = (\<lambda>rom. Some (repair_stub SubaruAlt2 kAlt2Citation rom))"
| "make_checksum_repair PerInstallBlockCrc32 = (\<lambda>rom. Some (repair_install_blocks rom))"

definition apply_checksum_repair :: "string \<Rightarrow> bytes \<Rightarrow> (status \<times> bytes) option" where
  "apply_checksum_repair checksum_type rom = make_checksum_repair (checksum_kind_from_pack checksum_type) rom"

section \<open>Storing four bytes\<close>

definition store_at :: "nat \<Rightarrow> u32 \<Rightarrow> bytes \<Rightarrow> bytes" where
  "store_at a v rom = rom[a := ucast (drop_bit 24 v AND 0xFF), a + 1 := ucast (drop_bit 16 v AND 0xFF),
     a + 2 := ucast (drop_bit 8 v AND 0xFF), a + 3 := ucast (v AND 0xFF)]"

lemma length_store_at [simp]: "length (store_at a v rom) = length rom"
  by (simp add: store_at_def)

lemma store_at_write: "a + 4 \<le> length rom \<Longrightarrow> write_u32_be a v rom = (ok, store_at a v rom)"
  by (simp add: write_u32_be_def store_at_def)

lemma store_at_reads: "a + 4 \<le> length rom \<Longrightarrow> rom_read_u32_be (store_at a v rom) a = Inr v"
  using u32_be_field.rd_wr [OF store_at_write] .

lemma store_at_nth:
  "i < length rom \<Longrightarrow> store_at a v rom ! i =
     (if a \<le> i \<and> i < a + 4 then ucast (drop_bit (24 - 8 * (i - a)) v) else rom ! i)"
proof (cases "a \<le> i \<and> i < a + 4")
  case True
  then consider "i = a" | "i = a + 1" | "i = a + 2" | "i = a + 3" by linarith
  then show "i < length rom \<Longrightarrow> ?thesis" by cases (simp_all add: store_at_def)
qed (auto simp: store_at_def)

lemma store_at_other: "i < a \<or> a + 4 \<le> i \<Longrightarrow> store_at a v rom ! i = rom ! i"
  by (auto simp: store_at_def)

lemma store_at_twice: "store_at a v (store_at a w rom) = store_at a v rom"
  by (simp add: store_at_def list_update_swap)

lemma store_at_swap: "a + 4 \<le> b \<or> b + 4 \<le> a \<Longrightarrow> store_at a v (store_at b w rom) = store_at b w (store_at a v rom)"
  by (rule nth_equalityI) (auto simp: store_at_nth)

lemma store_at_read_back:
  assumes "a + 4 \<le> length rom" "rom_read_u32_be rom a = Inr v"
  shows "store_at a v rom = rom"
proof -
  let ?b = "\<lambda>k. rom ! (a + k)"
  have v: "v = push_bit 24 (ucast (?b 0)) OR push_bit 16 (ucast (?b 1)) OR push_bit 8 (ucast (?b 2)) OR ucast (?b 3)"
    using assms by (simp add: rom_read_u32_be_def split: if_splits)
  have "ucast (drop_bit 24 v) = ?b 0" "ucast (drop_bit 16 v) = ?b 1" "ucast (drop_bit 8 v) = ?b 2" "ucast v = ?b 3"
    unfolding v by (rule bit_word_eqI; force simp: bit_or_iff bit_push_bit_iff bit_ucast_iff bit_drop_bit_eq dest: bit_imp_le_length)+
  then show ?thesis by (simp add: store_at_def add.commute [of a])
qed

lemma store_at_reads_other:
  "a + 4 \<le> length rom \<Longrightarrow> a + 4 \<le> b \<or> b + 4 \<le> a \<Longrightarrow> rom_read_u32_be (store_at a v rom) b = rom_read_u32_be rom b"
  by (rule u32_be_field.rd_after_other_wr [OF store_at_write]) auto


section \<open>What the word sum computes\<close>

text \<open>The words the sum covers: the even offsets of the region outside both slots.\<close>

definition summed :: "subaru_std_config \<Rightarrow> nat \<Rightarrow> bool" where
  "summed cfg k \<longleftrightarrow> even k \<and> (\<forall>slot \<in> {unat (sum_slot cfg), unat (complement_slot cfg)}. k < slot \<or> slot + 4 \<le> k)"

definition cal_sum :: "subaru_std_config \<Rightarrow> bytes \<Rightarrow> u32" where
  "cal_sum cfg rom =
     (\<Sum>k \<leftarrow> filter (summed cfg) [unat (cal_start cfg) ..< unat (cal_end cfg)].
        of_nat (256 * unat (rom ! k) + unat (rom ! (k + 1))))"

lemma and_mask_dvd: "take_bit n (w :: u32) = 0 \<longleftrightarrow> 2 ^ n dvd unat w"
proof -
  have "take_bit n w = 0 \<longleftrightarrow> unat (take_bit n w) = 0" by (simp only: unat_eq_0)
  also have "unat (take_bit n w) = take_bit n (unat w)" by (rule unsigned_take_bit_eq)
  finally show ?thesis by (simp add: take_bit_eq_mod dvd_eq_mod_eq_0)
qed

lemma and1_even: "w AND 1 = 0 \<longleftrightarrow> even (unat (w :: u32))"
proof -
  have "w AND 1 = take_bit 1 w" by (simp add: take_bit_eq_mask mask_eq_exp_minus_1)
  then show ?thesis using and_mask_dvd [of 1 w] by simp
qed

lemma and3_dvd: "(w :: u32) AND 3 = 0 \<longleftrightarrow> 4 dvd unat w"
proof -
  have "w AND 3 = take_bit 2 w" by (simp add: take_bit_eq_mask mask_eq_exp_minus_1)
  then show ?thesis using and_mask_dvd [of 2 w] by simp
qed

lemma unat_add_small: "unat (w :: u32) + n < 2 ^ 32 \<Longrightarrow> unat (w + of_nat n) = unat w + n"
  by (subst unat_word_ariths) (simp add: take_bit_nat_eq_self unat_of_nat)


text \<open>A configuration the repair accepts for an image of \<open>n\<close> bytes that holds both slots.\<close>

definition std_fits :: "subaru_std_config \<Rightarrow> nat \<Rightarrow> bool" where
  "std_fits cfg n \<longleftrightarrow> subaru_std_validate cfg = [] \<and> cal_start cfg AND 1 = 0 \<and> cal_end cfg AND 1 = 0 \<and>
     unat (cal_end cfg) \<le> n \<and> unat (sum_slot cfg) + 4 \<le> n \<and> unat (complement_slot cfg) + 4 \<le> n \<and> n + 4 < 2 ^ 32"

lemma std_fitsD:
  assumes "std_fits cfg n"
  shows "even (unat (cal_start cfg))" "even (unat (cal_end cfg))" "unat (cal_start cfg) < unat (cal_end cfg)"
    "4 dvd unat (sum_slot cfg)" "4 dvd unat (complement_slot cfg)" "unat (sum_slot cfg) \<noteq> unat (complement_slot cfg)"
    "unat (cal_end cfg) \<le> n" "unat (sum_slot cfg) + 4 \<le> n" "unat (complement_slot cfg) + 4 \<le> n" "n + 4 < 2 ^ 32"
    "subaru_std_validate cfg = []"
  using assms
  by (auto simp: std_fits_def subaru_std_validate_def and1_even and3_dvd word_less_nat_alt word_le_nat_alt not_le
      word_unat_eq_iff [of "sum_slot cfg" "complement_slot cfg"] split: if_splits)

lemma slots_apart:
  assumes "std_fits cfg n"
  shows "unat (sum_slot cfg) + 4 \<le> unat (complement_slot cfg) \<or> unat (complement_slot cfg) + 4 \<le> unat (sum_slot cfg)"
proof -
  obtain a b where "unat (sum_slot cfg) = 4 * a" "unat (complement_slot cfg) = 4 * b"
    using std_fitsD(4,5) [OF assms] by (auto elim!: dvdE)
  with std_fitsD(6) [OF assms] show ?thesis by arith
qed

lemma in_slot_unat: "unat slot + 4 < 2 ^ 32 \<Longrightarrow> in_slot slot off \<longleftrightarrow> unat slot \<le> unat off \<and> unat off < unat slot + 4"
  using unat_add_small [of slot 4] by (simp add: in_slot_def word_le_nat_alt word_less_nat_alt)

lemma cal_word_nat:
  assumes "unat off + 1 < 2 ^ 32"
  shows "cal_word rom off = of_nat (256 * unat (rom ! unat off) + unat (rom ! (unat off + 1)))"
proof -
  have u: "unat (off + 1) = unat off + 1" using unat_add_small [of off 1] assms by simp
  have "push_bit 8 (ucast a) OR ucast b = (push_bit 8 (ucast a) + ucast b :: u32)" for a b :: u8
  proof (rule disjunctive_add [symmetric])
    show "\<not> bit (push_bit 8 (ucast a) :: u32) k \<or> \<not> bit (ucast b :: u32) k" for k
      using bit_imp_le_length [of b k] by (cases "k < 8") (simp_all add: bit_push_bit_iff bit_ucast_iff)
  qed
  moreover have "push_bit 8 x = 256 * x" for x :: u32 by (simp add: push_bit_eq_mult mult.commute)
  moreover have "(of_nat (256 * unat a + unat b) :: u32) = 256 * ucast a + ucast b" for a b :: u8
    by (simp only: of_nat_add of_nat_mult of_nat_numeral of_nat_unat)
  ultimately show ?thesis by (simp only: cal_word_def u)
qed

lemma sum_words_eq:
  assumes "std_fits cfg (length rom)" "even (unat off)" "unat off \<le> unat (cal_end cfg)"
  shows "sum_words cfg rom off acc =
    Some (acc + (\<Sum>k \<leftarrow> filter (summed cfg) [unat off ..< unat (cal_end cfg)].
      of_nat (256 * unat (rom ! k) + unat (rom ! (k + 1)))))"
  using assms(2,3)
proof (induction "unat (cal_end cfg) - unat off" arbitrary: off acc rule: less_induct)
  case less
  note fits = std_fitsD [OF assms(1)]
  let ?e = "unat (cal_end cfg)"
  have next_off: "unat (off + 2) = unat off + 2" using unat_add_small [of off 2] less.prems fits(7,10) by simp
  show ?case
  proof (cases "unat off = ?e")
    case True
    then have "\<not> off + 2 \<le> cal_end cfg" by (simp add: word_le_nat_alt next_off)
    with True show ?thesis by (simp add: sum_words.simps)
  next
    case False
    then have "unat off + 2 \<le> ?e" using less.prems fits(2) by (auto elim!: evenE)
    then obtain m where m: "?e = unat off + 2 + m" using le_Suc_ex by blast
    have go: "off + 2 \<le> cal_end cfg" by (simp add: word_le_nat_alt next_off m)
    have split: "[unat off ..< ?e] = unat off # Suc (unat off) # [unat off + 2 ..< ?e]"
      by (simp add: m upt_rec)
    have odd: "\<not> summed cfg (Suc (unat off))" using less.prems(1) by (simp add: summed_def)
    have here: "summed cfg (unat off) \<longleftrightarrow> \<not> in_slot (sum_slot cfg) off \<and> \<not> in_slot (complement_slot cfg) off"
      using less.prems(1) fits(8,9,10) by (auto simp: summed_def in_slot_unat)
    have IH: "sum_words cfg rom (off + 2) acc' = Some (acc' + (\<Sum>k \<leftarrow> filter (summed cfg) [unat off + 2 ..< ?e].
        of_nat (256 * unat (rom ! k) + unat (rom ! (k + 1)))))" for acc'
      using less.hyps [of "off + 2" acc'] less.prems(1) by (simp add: next_off m)
    have u1: "unat (off + 1) = unat off + 1" using unat_add_small [of off 1] less.prems fits(7,10) by simp
    have inside: "unat off < length rom" "unat (off + 1) < length rom" using m fits(7) by (simp_all add: u1)
    have w: "cal_word rom off = of_nat (256 * unat (rom ! unat off) + unat (rom ! (unat off + 1)))"
      using m fits(7,10) by (intro cal_word_nat) simp
    show ?thesis
      using go here odd inside
      by (subst sum_words.simps) (auto simp: split IH w simp del: upt_Suc)
  qed
qed


lemma put_slot_store:
  assumes "unat slot + 4 \<le> length rom" "length rom + 4 < 2 ^ 32"
  shows "put_slot slot v rom = Some (store_at (unat slot) v rom)"
proof -
  have "unat (slot + 1) = unat slot + 1" "unat (slot + 2) = unat slot + 2" "unat (slot + 3) = unat slot + 3"
    using unat_add_small [of slot 1] unat_add_small [of slot 2] unat_add_small [of slot 3] assms by simp_all
  then show ?thesis using assms by (simp add: put_slot_def store_at_def)
qed

lemma cal_sum_cong:
  assumes "std_fits cfg n" "\<And>i. (\<forall>slot \<in> {unat (sum_slot cfg), unat (complement_slot cfg)}. i < slot \<or> slot + 4 \<le> i) \<Longrightarrow> rom' ! i = rom ! i"
  shows "cal_sum cfg rom' = cal_sum cfg rom"
proof -
  have "rom' ! k = rom ! k \<and> rom' ! (k + 1) = rom ! (k + 1)" if k: "summed cfg k" for k
  proof -
    obtain a b c where "k = 2 * a" "unat (sum_slot cfg) = 4 * b" "unat (complement_slot cfg) = 4 * c"
      using std_fitsD(4,5) [OF assms(1)] k by (auto simp: summed_def elim!: dvdE)
    then have "\<forall>slot \<in> {unat (sum_slot cfg), unat (complement_slot cfg)}. k < slot \<or> slot + 4 \<le> k"
      "\<forall>slot \<in> {unat (sum_slot cfg), unat (complement_slot cfg)}. k + 1 < slot \<or> slot + 4 \<le> k + 1"
      using k by (auto simp: summed_def)
    then show ?thesis using assms(2) by blast
  qed
  then show ?thesis unfolding cal_sum_def by (intro arg_cong [where f = sum_list] map_cong refl) simp
qed

definition std_image :: "subaru_std_config \<Rightarrow> bytes \<Rightarrow> bytes" where
  "std_image cfg rom = store_at (unat (complement_slot cfg)) (NOT (cal_sum cfg rom))
     (store_at (unat (sum_slot cfg)) (cal_sum cfg rom) rom)"

lemma repair_subaru_std_image:
  assumes "std_fits cfg (length rom)"
  shows "repair_subaru_std cfg rom = Some (ok, std_image cfg rom)"
proof -
  note fits = std_fitsD [OF assms]
  have "sum_words cfg rom (cal_start cfg) 0 = Some (cal_sum cfg rom)"
    using sum_words_eq [OF assms fits(1)] fits(3) by (simp add: cal_sum_def)
  then show ?thesis
    using fits assms by (simp add: repair_subaru_std_def std_image_def std_fits_def put_slot_store)
qed

lemma std_image_other:
  assumes "\<forall>slot \<in> {unat (sum_slot cfg), unat (complement_slot cfg)}. i < slot \<or> slot + 4 \<le> i"
  shows "std_image cfg rom ! i = rom ! i"
  using assms by (simp add: std_image_def store_at_other)

lemma std_image_sum: "std_fits cfg n \<Longrightarrow> cal_sum cfg (std_image cfg rom) = cal_sum cfg rom"
  by (rule cal_sum_cong) (auto intro: std_image_other)

lemma std_image_again:
  assumes "std_fits cfg (length rom)"
  shows "std_image cfg (std_image cfg rom) = std_image cfg rom"
proof -
  have "std_image cfg (std_image cfg rom) = store_at (unat (complement_slot cfg)) (NOT (cal_sum cfg rom))
      (store_at (unat (sum_slot cfg)) (cal_sum cfg rom) (std_image cfg rom))"
    using std_image_sum [OF assms] by (simp add: std_image_def [of cfg "std_image cfg rom"])
  also have "\<dots> = std_image cfg rom"
    by (simp add: std_image_def store_at_swap [OF slots_apart [OF assms]] store_at_twice)
  finally show ?thesis .
qed

section \<open>Properties of the word sum\<close>

text \<open>C19: The repair of the word sum is right for every configuration it accepts whose calibration region (even
  bounds) and slots lie in the image, of less than 4 GiB (four bytes less): it returns success, the image keeps its length, the first slot then holds the sum of the calibration
  region's 16-bit words (without the slots) of the repaired image itself, the second its complement, no
  byte outside the two slots has changed, and a second repair changes nothing.\<close>

theorem subaru_std_repaired:
  assumes "std_fits cfg (length rom)"
  shows "\<exists>rom'. repair_subaru_std cfg rom = Some (ok, rom') \<and> length rom' = length rom \<and>
    rom_read_u32_be rom' (unat (sum_slot cfg)) = Inr (cal_sum cfg rom') \<and>
    rom_read_u32_be rom' (unat (complement_slot cfg)) = Inr (NOT (cal_sum cfg rom')) \<and>
    (\<forall>i. i \<notin> {unat (sum_slot cfg) ..< unat (sum_slot cfg) + 4} \<union>
      {unat (complement_slot cfg) ..< unat (complement_slot cfg) + 4} \<longrightarrow> rom' ! i = rom ! i) \<and>
    repair_subaru_std cfg rom' = Some (ok, rom')"
proof (intro exI conjI)
  let ?r = "std_image cfg rom"
  note fits = std_fitsD [OF assms]
  show len: "length ?r = length rom" by (simp add: std_image_def)
  show "repair_subaru_std cfg rom = Some (ok, ?r)" by (rule repair_subaru_std_image [OF assms])
  show "rom_read_u32_be ?r (unat (sum_slot cfg)) = Inr (cal_sum cfg ?r)"
    unfolding std_image_sum [OF assms] unfolding std_image_def
    using fits(8,9) slots_apart [OF assms] by (subst store_at_reads_other) (auto intro: store_at_reads)
  show "rom_read_u32_be ?r (unat (complement_slot cfg)) = Inr (NOT (cal_sum cfg ?r))"
    unfolding std_image_sum [OF assms] using fits(9) by (simp add: std_image_def store_at_reads)
  show "\<forall>i. i \<notin> {unat (sum_slot cfg) ..< unat (sum_slot cfg) + 4} \<union>
      {unat (complement_slot cfg) ..< unat (complement_slot cfg) + 4} \<longrightarrow> ?r ! i = rom ! i"
    by (auto intro!: std_image_other)
  show "repair_subaru_std cfg ?r = Some (ok, ?r)"
    using repair_subaru_std_image [of cfg ?r] assms std_image_again [OF assms] by (simp add: len)
qed

text \<open>A small configuration and image of sixteen bytes.\<close>

definition demo_std :: subaru_std_config where
  "demo_std = \<lparr>cal_start = 8, cal_end = 16, sum_slot = 0, complement_slot = 12\<rparr>"

lemma subaru_std_repaired_witness:
  "(let rom = [9, 9, 9, 9, 8, 8, 8, 8, 0x12, 0x34, 0xF0, 0x01, 7, 7, 7, 7] in
    std_fits demo_std (length rom) \<and>
    (\<exists>rom'. repair_subaru_std demo_std rom = Some (ok, rom') \<and>
      rom_read_u32_be rom' 0 = Inr (cal_sum demo_std rom') \<and> repair_subaru_std demo_std rom' = Some (ok, rom')) \<and>
    repair_subaru_std demo_std rom =
      Some (ok, [0, 1, 2, 0x35, 8, 8, 8, 8, 0x12, 0x34, 0xF0, 0x01, 0xFF, 0xFE, 0xFD, 0xCA]))"
proof -
  let ?rom = "[9, 9, 9, 9, 8, 8, 8, 8, 0x12, 0x34, 0xF0, 0x01, 7, 7, 7, 7] :: bytes"
  have fits: "std_fits demo_std (length ?rom)"
    by (simp add: std_fits_def subaru_std_validate_def demo_std_def overlaps_partial_def)
  have run: "repair_subaru_std demo_std ?rom =
      Some (ok, [0, 1, 2, 0x35, 8, 8, 8, 8, 0x12, 0x34, 0xF0, 0x01, 0xFF, 0xFE, 0xFD, 0xCA])" by code_simp
  have "unat (sum_slot demo_std) = 0" by (simp add: demo_std_def)
  with subaru_std_repaired [OF fits] fits run show ?thesis by (auto simp: Let_def)
qed

text \<open>C26: The repair of the word sum does not check its slots: with a configuration that passes its validation but
  has a slot beyond the end of the image, it writes outside the buffer it was given.\<close>

theorem subaru_std_overruns:
  assumes "subaru_std_validate cfg = []" "unat (cal_end cfg) \<le> length rom" "cal_start cfg AND 1 = 0" "cal_end cfg AND 1 = 0"
    and "length rom \<le> unat (sum_slot cfg) \<or> length rom \<le> unat (complement_slot cfg)"
  shows "repair_subaru_std cfg rom = None"
proof -
  have len: "length rom' = length rom" if "put_slot slot v rom = Some rom'" for slot v rom'
    using that by (simp add: put_slot_def split: if_splits) (metis length_list_update)
  have no: "put_slot slot v rom' = None" if "length rom' \<le> unat slot" for slot v rom'
    using that by (simp add: put_slot_def)
  have "map_option (Pair ok) (put_slot (complement_slot cfg) (NOT v) rom') = None"
    if "put_slot (sum_slot cfg) v rom = Some rom'" for v rom'
  proof -
    have "\<not> length rom \<le> unat (sum_slot cfg)" using that no [of rom] by fastforce
    then show ?thesis using assms(5) len [OF that] no by simp
  qed
  then show ?thesis
    using assms(1-4) by (simp add: repair_subaru_std_def split: option.splits)
qed

lemma subaru_std_overruns_witness:
  "subaru_std_validate \<lparr>cal_start = 0, cal_end = 4, sum_slot = 8, complement_slot = 0\<rparr> = [] \<and>
   repair_subaru_std \<lparr>cal_start = 0, cal_end = 4, sum_slot = 8, complement_slot = 0\<rparr> [1, 2, 3, 4] = None"
proof -
  let ?cfg = "\<lparr>cal_start = 0, cal_end = 4, sum_slot = 8, complement_slot = 0\<rparr>"
  have "subaru_std_validate ?cfg = []" by (simp add: subaru_std_validate_def overlaps_partial_def)
  then show ?thesis using subaru_std_overruns [of ?cfg "[1, 2, 3, 4]"] by simp
qed


text \<open>The standard configuration fits every image of the two-megabyte layout.\<close>

lemma std_fits_default: "0x200000 \<le> n \<Longrightarrow> n + 4 < 2 ^ 32 \<Longrightarrow> std_fits default_subaru_std n"
  by (simp add: std_fits_def subaru_std_validate_def default_subaru_std_def overlaps_partial_def)

text \<open>A pack whose \<open>checksum_type\<close> the parser does not know repairs nothing and reports success.\<close>

lemma unknown_checksum_type: "parse_checksum_kind s = None \<Longrightarrow> apply_checksum_repair s rom = Some (ok, rom)"
  by (simp add: apply_checksum_repair_def checksum_kind_from_pack_def)

section \<open>What the block table holds\<close>

lemma blocks_below_table:
  "list_all (\<lambda>i. unat (sec_address (kFaDitSh2a2Mb ! i)) + unat (sec_length (kFaDitSh2a2Mb ! i)) \<le> kTableBase)
     [0 ..< kRepairedBlockCount]"
  by (simp add: kRepairedBlockCount_def kTableBase_def kFaDitSh2a2Mb_def upt_rec)

lemma repair_block_store: "repair_block i rom = store_at (kTableBase + i * 4) (crc32 (block_view rom i)) rom"
  by (simp add: repair_block_def store_at_def Let_def)

lemma block_view_cong:
  assumes "i < kRepairedBlockCount" "length rom' = length rom" "\<And>k. k < kTableBase \<Longrightarrow> rom' ! k = rom ! k"
  shows "block_view rom' i = block_view rom i"
proof -
  have "unat (sec_address (kFaDitSh2a2Mb ! i)) + unat (sec_length (kFaDitSh2a2Mb ! i)) \<le> kTableBase"
    using blocks_below_table assms(1) by (auto simp: list_all_iff)
  then show ?thesis
    unfolding block_view_def Let_def using assms(2,3) by (intro nth_equalityI) auto
qed

definition block_image :: "nat \<Rightarrow> bytes \<Rightarrow> bytes" where
  "block_image n rom = foldl (\<lambda>rom i. repair_block i rom) rom [0 ..< n]"

lemma block_image_Suc: "block_image (Suc n) rom = repair_block n (block_image n rom)"
  by (simp add: block_image_def)

lemma block_image_length [simp]: "length (block_image n rom) = length rom"
  by (induction n) (simp_all add: block_image_def repair_block_store)

lemma block_image_other:
  "i < kTableBase \<or> kTableBase + 4 * n \<le> i \<Longrightarrow> block_image n rom ! i = rom ! i"
proof (induction n)
  case (Suc n)
  then show ?case by (auto simp: block_image_Suc repair_block_store store_at_other)
qed (simp add: block_image_def)

lemma block_image_view: "i < kRepairedBlockCount \<Longrightarrow> block_view (block_image n rom) i = block_view rom i"
  by (rule block_view_cong) (simp_all add: block_image_other)

lemma block_image_slot:
  assumes "n \<le> kRepairedBlockCount" "kRomSizeRequired \<le> length rom" "k < n"
  shows "rom_read_u32_be (block_image n rom) (kTableBase + 4 * k) = Inr (crc32 (block_view rom k))"
  using assms(1,3)
proof (induction n)
  case (Suc n)
  have fit: "kTableBase + 4 * n + 4 \<le> length (block_image n rom)"
    using Suc.prems(1) assms(2) by (simp add: kTableBase_def kRepairedBlockCount_def kRomSizeRequired_def)
  show ?case
  proof (cases "k = n")
    case True
    then show ?thesis
      using Suc.prems(1) fit
      by (simp add: block_image_Suc repair_block_store block_image_view mult.commute store_at_reads)
  next
    case False
    then have "kTableBase + 4 * n + 4 \<le> kTableBase + 4 * k \<or> kTableBase + 4 * k + 4 \<le> kTableBase + 4 * n" "k < n"
      using Suc.prems(2) by auto
    then show ?thesis
      using Suc fit store_at_reads_other [OF fit] by (simp add: block_image_Suc repair_block_store mult.commute)
  qed
qed simp

lemma repair_block_noop:
  assumes "kTableBase + 4 * k + 4 \<le> length rom" "rom_read_u32_be rom (kTableBase + 4 * k) = Inr (crc32 (block_view rom k))"
  shows "repair_block k rom = rom"
  using assms by (simp add: repair_block_store mult.commute store_at_read_back)


lemma block_image_again:
  assumes "kRomSizeRequired \<le> length rom" "n \<le> kRepairedBlockCount"
  shows "block_image n (block_image kRepairedBlockCount rom) = block_image kRepairedBlockCount rom"
  using assms(2)
proof (induction n)
  case (Suc n)
  let ?r = "block_image kRepairedBlockCount rom"
  have "repair_block n ?r = ?r"
  proof (rule repair_block_noop)
    show "kTableBase + 4 * n + 4 \<le> length ?r"
      using Suc.prems assms(1) by (simp add: kTableBase_def kRepairedBlockCount_def kRomSizeRequired_def)
    show "rom_read_u32_be ?r (kTableBase + 4 * n) = Inr (crc32 (block_view ?r n))"
      using block_image_slot [OF order_refl assms(1), of n] Suc.prems by (simp add: block_image_view)
  qed
  then show ?case using Suc by (simp add: block_image_Suc)
qed (simp add: block_image_def)

text \<open>C12: The repair of an installer's CRC table is right for every image of at least two megabytes: it returns
  success, each of the first 24 slots then holds the CRC-32 of its block of the repaired image, no byte
  outside those 96 has changed, and a second repair changes nothing. A shorter image is refused and left
  alone.\<close>

theorem block_crc_repaired:
  "case repair_install_blocks rom of (st, rom') \<Rightarrow>
     length rom' = length rom \<and>
     (if length rom < kRomSizeRequired then (\<exists>m. st = failure InvalidArgument m) \<and> rom' = rom
      else st = ok \<and> take kTableBase rom' = take kTableBase rom \<and>
        drop (kTableBase + 4 * kRepairedBlockCount) rom' = drop (kTableBase + 4 * kRepairedBlockCount) rom \<and>
        list_all (\<lambda>k. rom_read_u32_be rom' (kTableBase + 4 * k) = Inr (crc32 (block_view rom' k))) [0 ..< kRepairedBlockCount] \<and>
        repair_install_blocks rom' = (ok, rom'))"
proof (cases "length rom < kRomSizeRequired")
  case True
  then show ?thesis by (auto simp: repair_install_blocks_def)
next
  case False
  let ?r = "block_image kRepairedBlockCount rom"
  have run: "repair_install_blocks x = (ok, block_image kRepairedBlockCount x)" if "length x = length rom" for x
    using False that by (simp add: repair_install_blocks_def block_image_def)
  have "rom_read_u32_be ?r (kTableBase + 4 * k) = Inr (crc32 (block_view ?r k))" if "k < kRepairedBlockCount" for k
    using block_image_slot [OF order_refl _ that] False that by (simp add: block_image_view)
  moreover have "take kTableBase ?r = take kTableBase rom"
    "drop (kTableBase + 4 * kRepairedBlockCount) ?r = drop (kTableBase + 4 * kRepairedBlockCount) rom"
    by (auto intro!: nth_equalityI simp: block_image_other)
  ultimately show ?thesis
    using False run block_image_again [of rom kRepairedBlockCount] by (simp add: list_all_iff)
qed

end
