(* ===== verification/Cal_Values.thy ===== *)
theory Cal_Values
  imports Complex_Main Rom_Image
begin

text \<open>
  Calibration values (src/defs/src/defs.cpp, \<open>defs.hpp\<close>): the data types of raw values, the scalings
  between raw values and engineering units, and the typed reads and writes of an image. The double
  arithmetic of the hardware is a parameter, a record of operations; \<open>None\<close> stands for a conversion
  to an integer type that C++ leaves undefined.
\<close>

section \<open>Double arithmetic\<close>

text \<open>
  The operations of \<open>double\<close> the code uses: conversion from an integer, \<open>0.5\<close>, arithmetic, the
  comparisons, truncation towards zero (\<open>None\<close> for a NaN or an infinity), and the conversions from and
  to the bits of a \<open>float\<close>.
\<close>

record 'd doubles =
  d_of_int :: "int \<Rightarrow> 'd"
  d_half :: 'd
  d_add :: "'d \<Rightarrow> 'd \<Rightarrow> 'd"
  d_sub :: "'d \<Rightarrow> 'd \<Rightarrow> 'd"
  d_mul :: "'d \<Rightarrow> 'd \<Rightarrow> 'd"
  d_div :: "'d \<Rightarrow> 'd \<Rightarrow> 'd"
  d_less :: "'d \<Rightarrow> 'd \<Rightarrow> bool"
  d_le :: "'d \<Rightarrow> 'd \<Rightarrow> bool"
  d_eq :: "'d \<Rightarrow> 'd \<Rightarrow> bool"
  d_trunc :: "'d \<Rightarrow> int option"
  d_of_bits :: "u32 \<Rightarrow> 'd"
  d_to_bits :: "'d \<Rightarrow> u32"

section \<open>Data types\<close>

datatype data_type = Uint8 | Int8 | Uint16Be | Uint16Le | Int16Be | Int16Le
  | Uint32Be | Uint32Le | Int32Be | Int32Le | Float32Be | Float32Le

primrec data_type_text :: "data_type \<Rightarrow> string" where
  "data_type_text Uint8 = ''uint8''"
| "data_type_text Int8 = ''int8''"
| "data_type_text Uint16Be = ''uint16_be''"
| "data_type_text Uint16Le = ''uint16_le''"
| "data_type_text Int16Be = ''int16_be''"
| "data_type_text Int16Le = ''int16_le''"
| "data_type_text Uint32Be = ''uint32_be''"
| "data_type_text Uint32Le = ''uint32_le''"
| "data_type_text Int32Be = ''int32_be''"
| "data_type_text Int32Le = ''int32_le''"
| "data_type_text Float32Be = ''float32_be''"
| "data_type_text Float32Le = ''float32_le''"

definition parse_data_type :: "string \<Rightarrow> data_type result" where
  "parse_data_type s =
     (if s = ''uint8'' then Inr Uint8
      else if s = ''int8'' then Inr Int8
      else if s = ''uint16_be'' then Inr Uint16Be
      else if s = ''uint16_le'' then Inr Uint16Le
      else if s = ''int16_be'' then Inr Int16Be
      else if s = ''int16_le'' then Inr Int16Le
      else if s = ''uint32_be'' then Inr Uint32Be
      else if s = ''uint32_le'' then Inr Uint32Le
      else if s = ''int32_be'' then Inr Int32Be
      else if s = ''int32_le'' then Inr Int32Le
      else if s = ''float32_be'' then Inr Float32Be
      else if s = ''float32_le'' then Inr Float32Le
      else failure ParseError (''unknown data_type: '' @ s))"

lemma parse_data_type_text: "parse_data_type (data_type_text dt) = Inr dt"
  by (cases dt) (simp_all add: parse_data_type_def)

primrec byte_size :: "data_type \<Rightarrow> nat" where
  "byte_size Uint8 = 1"
| "byte_size Int8 = 1"
| "byte_size Uint16Be = 2"
| "byte_size Uint16Le = 2"
| "byte_size Int16Be = 2"
| "byte_size Int16Le = 2"
| "byte_size Uint32Be = 4"
| "byte_size Uint32Le = 4"
| "byte_size Int32Be = 4"
| "byte_size Int32Le = 4"
| "byte_size Float32Be = 4"
| "byte_size Float32Le = 4"

section \<open>Typed reads and writes\<close>

primrec read_typed :: "'d doubles \<Rightarrow> bytes \<Rightarrow> nat \<Rightarrow> data_type \<Rightarrow> 'd result" where
  "read_typed D rom offset Uint8 = map_sum id (\<lambda>v. d_of_int D (uint v)) (read_u8 rom offset)"
| "read_typed D rom offset Int8 = map_sum id (\<lambda>v. d_of_int D (sint v)) (read_u8 rom offset)"
| "read_typed D rom offset Uint16Be = map_sum id (\<lambda>v. d_of_int D (uint v)) (read_u16_be rom offset)"
| "read_typed D rom offset Uint16Le = map_sum id (\<lambda>v. d_of_int D (uint v)) (read_u16_le rom offset)"
| "read_typed D rom offset Int16Be = map_sum id (\<lambda>v. d_of_int D (sint v)) (read_u16_be rom offset)"
| "read_typed D rom offset Int16Le = map_sum id (\<lambda>v. d_of_int D (sint v)) (read_u16_le rom offset)"
| "read_typed D rom offset Uint32Be = map_sum id (\<lambda>v. d_of_int D (uint v)) (rom_read_u32_be rom offset)"
| "read_typed D rom offset Uint32Le = map_sum id (\<lambda>v. d_of_int D (uint v)) (read_u32_le rom offset)"
| "read_typed D rom offset Int32Be = map_sum id (\<lambda>v. d_of_int D (sint v)) (rom_read_u32_be rom offset)"
| "read_typed D rom offset Int32Le = map_sum id (\<lambda>v. d_of_int D (sint v)) (read_u32_le rom offset)"
| "read_typed D rom offset Float32Be = map_sum id (d_of_bits D) (rom_read_u32_be rom offset)"
| "read_typed D rom offset Float32Le = map_sum id (d_of_bits D) (read_u32_le rom offset)"

text \<open>
  \<open>clamp_round<T>(value, lo, hi)\<close>; \<open>lo\<close> and \<open>hi\<close> are the bounds of \<open>T\<close> at every call. The final cast is
  undefined when the truncated value is not one of \<open>T\<close>.
\<close>

definition clamp_round :: "'d doubles \<Rightarrow> int \<Rightarrow> int \<Rightarrow> 'd \<Rightarrow> int option" where
  "clamp_round D lo hi value =
     (let v1 = (if d_less D value (d_of_int D lo) then d_of_int D lo else value);
          v2 = (if d_less D (d_of_int D hi) v1 then d_of_int D hi else v1);
          rounded = (if d_le D (d_of_int D 0) v2 then d_add D v2 (d_half D) else d_sub D v2 (d_half D))
      in case d_trunc D rounded of
           None \<Rightarrow> None
         | Some n \<Rightarrow> if lo \<le> n \<and> n \<le> hi then Some n else None)"

primrec write_typed :: "'d doubles \<Rightarrow> nat \<Rightarrow> data_type \<Rightarrow> 'd \<Rightarrow> bytes \<Rightarrow> (status \<times> bytes) option" where
  "write_typed D offset Uint8 value =
     (\<lambda>rom. map_option (\<lambda>n. write_u8 offset (word_of_int n) rom) (clamp_round D 0 255 value))"
| "write_typed D offset Int8 value =
     (\<lambda>rom. map_option (\<lambda>n. write_u8 offset (word_of_int n) rom) (clamp_round D (-128) 127 value))"
| "write_typed D offset Uint16Be value =
     (\<lambda>rom. map_option (\<lambda>n. write_u16_be offset (word_of_int n) rom) (clamp_round D 0 65535 value))"
| "write_typed D offset Uint16Le value =
     (\<lambda>rom. map_option (\<lambda>n. write_u16_le offset (word_of_int n) rom) (clamp_round D 0 65535 value))"
| "write_typed D offset Int16Be value =
     (\<lambda>rom. map_option (\<lambda>n. write_u16_be offset (word_of_int n) rom) (clamp_round D (-32768) 32767 value))"
| "write_typed D offset Int16Le value =
     (\<lambda>rom. map_option (\<lambda>n. write_u16_le offset (word_of_int n) rom) (clamp_round D (-32768) 32767 value))"
| "write_typed D offset Uint32Be value =
     (\<lambda>rom. map_option (\<lambda>n. write_u32_be offset (word_of_int n) rom) (clamp_round D 0 4294967295 value))"
| "write_typed D offset Uint32Le value =
     (\<lambda>rom. map_option (\<lambda>n. write_u32_le offset (word_of_int n) rom) (clamp_round D 0 4294967295 value))"
| "write_typed D offset Int32Be value =
     (\<lambda>rom. map_option (\<lambda>n. write_u32_be offset (word_of_int n) rom) (clamp_round D (-2147483648) 2147483647 value))"
| "write_typed D offset Int32Le value =
     (\<lambda>rom. map_option (\<lambda>n. write_u32_le offset (word_of_int n) rom) (clamp_round D (-2147483648) 2147483647 value))"
| "write_typed D offset Float32Be value = (\<lambda>rom. Some (write_u32_be offset (d_to_bits D value) rom))"
| "write_typed D offset Float32Le value = (\<lambda>rom. Some (write_u32_le offset (d_to_bits D value) rom))"

section \<open>Scalings\<close>

datatype 'd scaling_formula =
  LinearScaling (lin_factor: 'd) (lin_offset: 'd)
| PiecewiseScaling (breakpoints: "'d list") (pw_values: "'d list")
| SubaruAfrEnrichment (afr_numerator: 'd) (afr_k: 'd)
| InverseDivideScaling (inv_numerator: 'd)

record 'd scaling =
  scaling_id :: string
  formula :: "'d scaling_formula"
  scaling_unit :: string
  scaling_min :: 'd
  scaling_max :: 'd
  precision :: int
  scaling_data_type :: data_type

text \<open>
  The loops over the segments of a piecewise scaling. The loader refuses breakpoints and values of
  different lengths and empty ones, so the two lists run in parallel; \<open>dflt\<close> is the value after the loop.
\<close>

fun pw_segment :: "'d doubles \<Rightarrow> 'd \<Rightarrow> 'd \<Rightarrow> 'd list \<Rightarrow> 'd list \<Rightarrow> 'd" where
  "pw_segment D raw dflt (b0 # b1 # bs) (v0 # v1 # vs) =
     (if d_le D raw b1 then d_add D v0 (d_mul D (d_div D (d_sub D raw b0) (d_sub D b1 b0)) (d_sub D v1 v0))
      else pw_segment D raw dflt (b1 # bs) (v1 # vs))"
| "pw_segment D raw dflt _ _ = dflt"

definition apply_scaling :: "'d doubles \<Rightarrow> 'd scaling \<Rightarrow> 'd \<Rightarrow> 'd" where
  "apply_scaling D s raw = (case formula s of
     LinearScaling f b \<Rightarrow> d_add D (d_mul D raw f) b
   | SubaruAfrEnrichment num k \<Rightarrow>
       (let denom = d_add D (d_of_int D 1) (d_mul D raw k) in
        if d_eq D denom (d_of_int D 0) then d_of_int D 0 else d_div D num denom)
   | InverseDivideScaling num \<Rightarrow> if d_eq D raw (d_of_int D 0) then d_of_int D 0 else d_div D num raw
   | PiecewiseScaling bp v \<Rightarrow>
       if bp = [] then raw
       else if d_le D raw (hd bp) then hd v
       else if d_le D (last bp) raw then last v
       else pw_segment D raw (last v) bp v)"

text \<open>The inverse; \<open>up\<close> tells the loop over ascending values from the one over descending values.\<close>

fun pw_invert :: "'d doubles \<Rightarrow> bool \<Rightarrow> 'd \<Rightarrow> 'd \<Rightarrow> 'd list \<Rightarrow> 'd list \<Rightarrow> 'd" where
  "pw_invert D up eng dflt (b0 # b1 # bs) (v0 # v1 # vs) =
     (if (if up then d_le D eng v1 else d_le D v1 eng) then
        let span = d_sub D v1 v0 in
        if d_eq D span (d_of_int D 0) then b0
        else d_add D b0 (d_mul D (d_div D (d_sub D eng v0) span) (d_sub D b1 b0))
      else pw_invert D up eng dflt (b1 # bs) (v1 # vs))"
| "pw_invert D up eng dflt _ _ = dflt"

definition in_quotes :: "string \<Rightarrow> string" where
  "in_quotes s = CHR 0x27 # s @ [CHR 0x27]"

text \<open>The bytes of the plus-minus and infinity signs in UTF-8, which a message contains.\<close>

definition plus_minus_infinity :: string where
  "plus_minus_infinity = [CHR 0xC2, CHR 0xB1, CHR 0xE2, CHR 0x88, CHR 0x9E]"

definition invert_scaling :: "'d doubles \<Rightarrow> 'd scaling \<Rightarrow> 'd \<Rightarrow> 'd result" where
  "invert_scaling D s eng = (case formula s of
     LinearScaling f b \<Rightarrow>
       if d_eq D f (d_of_int D 0) then
         failure InvalidArgument (''scaling '' @ in_quotes (scaling_id s) @ '' has factor=0; not invertible'')
       else Inr (d_div D (d_sub D eng b) f)
   | SubaruAfrEnrichment num k \<Rightarrow>
       if d_eq D k (d_of_int D 0) then
         failure InvalidArgument (''scaling '' @ in_quotes (scaling_id s) @ '' has k=0; not invertible'')
       else if d_eq D eng (d_of_int D 0) then
         failure InvalidArgument (''scaling '' @ in_quotes (scaling_id s) @ '' value=0 maps to raw='' @
           plus_minus_infinity @ ''; not invertible'')
       else Inr (d_div D (d_sub D (d_div D num eng) (d_of_int D 1)) k)
   | InverseDivideScaling num \<Rightarrow>
       if d_eq D eng (d_of_int D 0) then
         failure InvalidArgument (''scaling '' @ in_quotes (scaling_id s) @ '' value=0 maps to raw='' @
           plus_minus_infinity @ ''; not invertible'')
       else Inr (d_div D num eng)
   | PiecewiseScaling bp v \<Rightarrow>
       if length v < 2 then
         failure InvalidArgument (''scaling '' @ in_quotes (scaling_id s) @ '' is degenerate; not invertible'')
       else if d_le D (hd v) (last v) then
         Inr (if d_le D eng (hd v) then hd bp else if d_le D (last v) eng then last bp
              else pw_invert D True eng (last bp) bp v)
       else
         Inr (if d_le D (hd v) eng then hd bp else if d_le D eng (last v) then last bp
              else pw_invert D False eng (last bp) bp v))"


section \<open>The bytes of a value\<close>

text \<open>Bytes stored from an offset on.\<close>

fun put_at :: "nat \<Rightarrow> bytes \<Rightarrow> bytes \<Rightarrow> bytes" where
  "put_at off [] rom = rom"
| "put_at off (b # bs) rom = put_at (Suc off) bs (rom[off := b])"

lemma length_put_at [simp]: "length (put_at off bs rom) = length rom"
  by (induction off bs rom rule: put_at.induct) simp_all

lemma put_at_append: "put_at off (xs @ ys) rom = put_at (off + length xs) ys (put_at off xs rom)"
  by (induction off xs rom rule: put_at.induct) simp_all

lemma put_at_nth:
  "i < length rom \<Longrightarrow> put_at off bs rom ! i = (if off \<le> i \<and> i < off + length bs then bs ! (i - off) else rom ! i)"
proof (induction off bs rom rule: put_at.induct)
  case (2 off b bs rom)
  then show ?case by (auto simp: nth_Cons' nth_list_update Suc_le_eq)
qed auto

lemma put_at_same:
  assumes "length bs = length cs"
  shows "put_at off bs (put_at off cs rom) = put_at off bs rom"
  by (rule nth_equalityI) (use assms in \<open>simp_all add: put_at_nth\<close>)

text \<open>What a write of a value stores, \<open>None\<close> where the conversion is undefined.\<close>

definition cell_bytes :: "'d doubles \<Rightarrow> data_type \<Rightarrow> 'd \<Rightarrow> bytes option" where
  "cell_bytes D dt v = map_option snd (write_typed D 0 dt v (replicate (byte_size dt) 0))"

text \<open>What a read of these bytes returns.\<close>

definition bytes_value :: "'d doubles \<Rightarrow> data_type \<Rightarrow> bytes \<Rightarrow> 'd" where
  "bytes_value D dt bs = projr (read_typed D bs 0 dt)"

lemmas rom_accessor_defs =
  read_u8_def read_u16_be_def read_u16_le_def rom_read_u32_be_def read_u32_le_def
  write_u8_def write_u16_be_def write_u16_le_def write_u32_be_def write_u32_le_def

lemma byte_size_pos: "0 < byte_size dt"
  by (cases dt) simp_all

lemma write_typed_fits:
  assumes "off + byte_size dt \<le> length rom"
  shows "write_typed D off dt v rom = map_option (\<lambda>bs. (ok, put_at off bs rom)) (cell_bytes D dt v)"
  using assms
  by (cases dt) (auto simp: cell_bytes_def rom_accessor_defs option.map_comp comp_def numeral_eq_Suc
      intro!: option.map_cong)

lemma write_typed_outside:
  assumes "length rom < off + byte_size dt" "cell_bytes D dt v \<noteq> None"
  shows "\<exists>m. write_typed D off dt v rom = Some (failure OutOfRange m, rom)"
proof -
  have c: "length rom < off \<or> length rom - off < byte_size dt" using assms(1) by linarith
  with assms show ?thesis
    by (cases dt) (simp_all add: cell_bytes_def rom_accessor_defs, blast+)
qed

lemma cell_bytes_length: "cell_bytes D dt v = Some bs \<Longrightarrow> length bs = byte_size dt"
  by (cases dt) (auto simp: cell_bytes_def rom_accessor_defs)

lemma read_typed_fits:
  assumes "off + byte_size dt \<le> length rom"
  shows "read_typed D rom off dt = Inr (bytes_value D dt (take (byte_size dt) (drop off rom)))"
  using assms
  by (cases dt) (auto simp: bytes_value_def rom_accessor_defs numeral_eq_Suc)

lemma read_typed_outside:
  assumes "length rom < off + byte_size dt"
  shows "\<exists>m. read_typed D rom off dt = failure OutOfRange m"
  using assms by (cases dt) (auto simp: rom_accessor_defs failure_def)

section \<open>Integers through doubles\<close>

text \<open>The bounds of the integer types.\<close>

primrec int_bounds :: "data_type \<Rightarrow> (int \<times> int) option" where
  "int_bounds Uint8 = Some (0, 255)"
| "int_bounds Int8 = Some (-128, 127)"
| "int_bounds Uint16Be = Some (0, 65535)"
| "int_bounds Uint16Le = Some (0, 65535)"
| "int_bounds Int16Be = Some (-32768, 32767)"
| "int_bounds Int16Le = Some (-32768, 32767)"
| "int_bounds Uint32Be = Some (0, 4294967295)"
| "int_bounds Uint32Le = Some (0, 4294967295)"
| "int_bounds Int32Be = Some (-2147483648, 2147483647)"
| "int_bounds Int32Le = Some (-2147483648, 2147483647)"
| "int_bounds Float32Be = None"
| "int_bounds Float32Le = None"

lemma sint_in_range:
  "- 128 \<le> k \<Longrightarrow> k < 128 \<Longrightarrow> sint (word_of_int k :: u8) = k"
  "- 32768 \<le> k \<Longrightarrow> k < 32768 \<Longrightarrow> sint (word_of_int k :: u16) = k"
  "- 2147483648 \<le> k \<Longrightarrow> k < 2147483648 \<Longrightarrow> sint (word_of_int k :: u32) = k"
  by (simp_all add: signed_of_int signed_take_bit_int_eq_self)

text \<open>
  What IEEE doubles guarantee on integers of at most 33 bits, far inside the 53 bits they hold exactly:
  they are ordered as the integers are, and adding (subtracting) one half and truncating gives back a
  non-negative (negative) integer.
\<close>

locale integer_doubles =
  fixes D :: "'d doubles"
  assumes less_int: "\<bar>a\<bar> \<le> 2 ^ 33 \<Longrightarrow> \<bar>b\<bar> \<le> 2 ^ 33 \<Longrightarrow> d_less D (d_of_int D a) (d_of_int D b) \<longleftrightarrow> a < b"
    and le_int: "\<bar>a\<bar> \<le> 2 ^ 33 \<Longrightarrow> \<bar>b\<bar> \<le> 2 ^ 33 \<Longrightarrow> d_le D (d_of_int D a) (d_of_int D b) \<longleftrightarrow> a \<le> b"
    and round_up: "0 \<le> n \<Longrightarrow> n \<le> 2 ^ 33 \<Longrightarrow> d_trunc D (d_add D (d_of_int D n) (d_half D)) = Some n"
    and round_down: "n < 0 \<Longrightarrow> - (2 ^ 33) \<le> n \<Longrightarrow> d_trunc D (d_sub D (d_of_int D n) (d_half D)) = Some n"
begin

lemma clamp_round_int:
  assumes "- (2 ^ 33) \<le> lo" "lo \<le> 0" "0 \<le> hi" "hi \<le> 2 ^ 33" "\<bar>n\<bar> \<le> 2 ^ 33"
  shows "clamp_round D lo hi (d_of_int D n) = Some (max lo (min hi n))"
proof -
  let ?m = "max lo (min hi n)"
  have v: "(if d_less D (d_of_int D hi) (if d_less D (d_of_int D n) (d_of_int D lo) then d_of_int D lo else d_of_int D n)
      then d_of_int D hi else if d_less D (d_of_int D n) (d_of_int D lo) then d_of_int D lo else d_of_int D n) = d_of_int D ?m"
    using assms by (auto simp: less_int)
  have m: "- (2 ^ 33) \<le> ?m" "?m \<le> 2 ^ 33" "lo \<le> ?m" "?m \<le> hi" using assms by auto
  have "d_trunc D (if d_le D (d_of_int D 0) (d_of_int D ?m) then d_add D (d_of_int D ?m) (d_half D)
      else d_sub D (d_of_int D ?m) (d_half D)) = Some ?m"
    using m round_down [of ?m] by (cases "0 \<le> ?m") (simp_all add: le_int round_up not_le)
  with m(3,4) show ?thesis unfolding clamp_round_def Let_def v by (simp split del: if_split)
qed

lemma write_read_int:
  assumes "int_bounds dt = Some (lo, hi)" "\<bar>n\<bar> \<le> 2 ^ 33"
  shows "\<exists>bs. cell_bytes D dt (d_of_int D n) = Some bs \<and> bytes_value D dt bs = d_of_int D (max lo (min hi n))"
proof -
  let ?m = "max lo (min hi n)"
  have c: "clamp_round D lo hi (d_of_int D n) = Some ?m"
    using assms by (intro clamp_round_int) (cases dt; auto)+
  have m: "lo \<le> ?m" "?m \<le> hi" using assms(1) by (cases dt; auto)+
  have "cell_bytes D dt (d_of_int D n) \<noteq> None"
    using assms(1) c by (cases dt) (auto simp: cell_bytes_def)
  then obtain bs where bs: "cell_bytes D dt (d_of_int D n) = Some bs" by blast
  have "bytes_value D dt bs = d_of_int D ?m"
    using assms(1) c m bs
    by (cases dt)
      (auto simp: cell_bytes_def bytes_value_def rom_accessor_defs join16 join32 take_bit_int_eq_self
        uint_word_of_int sint_in_range simp del: push_bit_numeral)
  with bs show ?thesis by blast
qed

end


text \<open>A value that is not a number passes both comparisons of the clamp, and its cast is undefined.\<close>

lemma clamp_round_nan:
  assumes "\<And>x. \<not> d_less D v x" "\<And>x. \<not> d_less D x v" "d_trunc D (d_add D v (d_half D)) = None" "d_trunc D (d_sub D v (d_half D)) = None"
  shows "clamp_round D lo hi v = None"
  using assms by (simp add: clamp_round_def)

lemma write_typed_nan:
  assumes "\<And>x. \<not> d_less D v x" "\<And>x. \<not> d_less D x v" "d_trunc D (d_add D v (d_half D)) = None" "d_trunc D (d_sub D v (d_half D)) = None"
    "int_bounds dt \<noteq> None"
  shows "write_typed D off dt v rom = None"
  using assms(5) clamp_round_nan [OF assms(1-4)] by (cases dt) simp_all

section \<open>Exact arithmetic\<close>

text \<open>
  Rational numbers as an instance of the operations: exact on integers, as doubles are in the range
  the code uses. The conversions from and to \<open>float\<close> bits, on which the laws say nothing, are those of
  integers.
\<close>

definition exact_doubles :: "rat doubles" where
  "exact_doubles =
     \<lparr>d_of_int = of_int, d_half = 1 / 2, d_add = (+), d_sub = (-), d_mul = (*), d_div = (/), d_less = (<),
      d_le = (\<le>), d_eq = (=), d_trunc = (\<lambda>q. Some (if 0 \<le> q then \<lfloor>q\<rfloor> else - \<lfloor>- q\<rfloor>)),
      d_of_bits = (\<lambda>w. of_int (uint w)), d_to_bits = (\<lambda>q. word_of_int \<lfloor>q\<rfloor>)\<rparr>"

lemma floor_half: "\<lfloor>of_int n + 1 / 2 :: rat\<rfloor> = n" "\<lfloor>1 / 2 - of_int n :: rat\<rfloor> = - n"
  by linarith+

interpretation exact: integer_doubles exact_doubles
proof
  fix n :: int
  show "0 \<le> n \<Longrightarrow> d_trunc exact_doubles (d_add exact_doubles (d_of_int exact_doubles n) (d_half exact_doubles)) = Some n"
    using floor_half(1) [of n] by (simp add: exact_doubles_def)
  show "n < 0 \<Longrightarrow> d_trunc exact_doubles (d_sub exact_doubles (d_of_int exact_doubles n) (d_half exact_doubles)) = Some n"
    using floor_half(2) [of n] by (auto simp: exact_doubles_def)
qed (simp_all add: exact_doubles_def)

section \<open>Properties\<close>

text \<open>A value written to a field of an integer type reads back. For each of the ten integer types and every
  integer of up to 33 bits: the write succeeds on a field inside the image, the field then reads the
  integer itself where the type holds it and the nearest bound of the type where it does not, and no
  other byte has changed.\<close>

theorem typed_write_read:
  assumes "integer_doubles D" "int_bounds dt = Some (lo, hi)" "\<bar>n\<bar> \<le> 2 ^ 33" "off + byte_size dt \<le> length rom"
  shows "\<exists>rom'. write_typed D off dt (d_of_int D n) rom = Some (ok, rom') \<and> length rom' = length rom \<and>
    read_typed D rom' off dt = Inr (d_of_int D (max lo (min hi n))) \<and>
    (\<forall>i. i < off \<or> off + byte_size dt \<le> i \<longrightarrow> i < length rom \<longrightarrow> rom' ! i = rom ! i)"
proof -
  obtain bs where bs: "cell_bytes D dt (d_of_int D n) = Some bs" "bytes_value D dt bs = d_of_int D (max lo (min hi n))"
    using integer_doubles.write_read_int [OF assms(1-3)] by blast
  let ?r = "put_at off bs rom"
  have len: "length bs = byte_size dt" by (rule cell_bytes_length [OF bs(1)])
  have "take (byte_size dt) (drop off ?r) = bs"
    by (rule nth_equalityI) (use assms(4) len in \<open>simp_all add: put_at_nth\<close>)
  then have "read_typed D ?r off dt = Inr (d_of_int D (max lo (min hi n)))"
    using read_typed_fits [of off dt ?r D] assms(4) bs(2) by simp
  moreover have "write_typed D off dt (d_of_int D n) rom = Some (ok, ?r)"
    by (simp add: write_typed_fits [OF assms(4)] bs(1))
  moreover have "?r ! i = rom ! i" if "i < off \<or> off + byte_size dt \<le> i" "i < length rom" for i
    using that len by (auto simp: put_at_nth)
  ultimately show ?thesis by (intro exI [of _ ?r]) simp
qed

lemma typed_write_read_witness:
  "\<exists>rom'. write_typed exact_doubles 1 Int16Be (-40000) [1, 2, 3, 4] = Some (ok, rom') \<and>
     read_typed exact_doubles rom' 1 Int16Be = Inr (-32768)"
  using typed_write_read [OF exact.integer_doubles_axioms, of Int16Be "-32768" 32767 "-40000" 1 "[1, 2, 3, 4]"]
  by (auto simp: exact_doubles_def)

end
