(* ===== verification/Cal_Tables.thy ===== *)
theory Cal_Tables
  imports Cal_Values
begin

text \<open>
  Calibration tables (src/defs/src/defs.cpp, \<open>defs.hpp\<close>): the axes, scalings and tables of a definition,
  their lookups, the reads of axes and of whole tables in engineering units, the write of a table, and
  the comparison of a table between two images. Offsets are \<open>std::size_t\<close>: computed ones wrap at 64 bits.
\<close>

section \<open>The records of a definition\<close>

record cal_axis =
  axis_id :: string
  axis_name :: string
  axis_unit :: string
  axis_type :: string
  axis_address :: nat
  axis_length :: nat
  axis_data_type :: data_type
  axis_scaling :: string

record cal_table =
  table_id :: string
  table_name :: string
  table_category :: string
  dimensions :: int
  table_address :: nat
  table_data_type :: data_type
  table_scaling :: string
  table_axis_x :: "string option"
  table_axis_y :: "string option"
  table_axis_z :: "string option"
  table_notes :: "string option"
  table_emissions_relevant :: bool
  engine_safety_critical :: bool
  table_role :: "string option"

text \<open>The part of a definition the tables rest on.\<close>

record 'd cal_definition =
  def_axes :: "cal_axis list"
  def_scalings :: "'d scaling list"
  def_tables :: "cal_table list"

definition find_axis :: "'d cal_definition \<Rightarrow> string \<Rightarrow> cal_axis option" where
  "find_axis def i = find (\<lambda>a. axis_id a = i) (def_axes def)"

definition find_scaling :: "'d cal_definition \<Rightarrow> string \<Rightarrow> 'd scaling option" where
  "find_scaling def i = find (\<lambda>s. scaling_id s = i) (def_scalings def)"

definition find_table :: "'d cal_definition \<Rightarrow> string \<Rightarrow> cal_table option" where
  "find_table def i = find (\<lambda>t. table_id t = i) (def_tables def)"

definition find_table_by_role :: "'d cal_definition \<Rightarrow> string \<Rightarrow> cal_table option" where
  "find_table_by_role def role = (if role = [] then None else find (\<lambda>t. table_role t = Some role) (def_tables def))"

section \<open>Reading\<close>

definition size_t :: "nat \<Rightarrow> nat" where
  "size_t n = unat (of_nat n :: u64)"

text \<open>A loop that reads one value after the other and returns at the first error.\<close>

fun read_each :: "('a \<Rightarrow> 'b result) \<Rightarrow> 'a list \<Rightarrow> 'b list result" where
  "read_each f [] = Inr []"
| "read_each f (x # xs) =
     (case f x of
        Inl e \<Rightarrow> Inl e
      | Inr y \<Rightarrow> (case read_each f xs of Inl e \<Rightarrow> Inl e | Inr ys \<Rightarrow> Inr (y # ys)))"

definition scale_raw :: "'d doubles \<Rightarrow> 'd scaling option \<Rightarrow> 'd \<Rightarrow> 'd" where
  "scale_raw D sc raw = (case sc of None \<Rightarrow> raw | Some s \<Rightarrow> apply_scaling D s raw)"

definition read_cell :: "'d doubles \<Rightarrow> bytes \<Rightarrow> data_type \<Rightarrow> 'd scaling option \<Rightarrow> nat \<Rightarrow> 'd result" where
  "read_cell D rom dt sc off = map_sum id (scale_raw D sc) (read_typed D rom off dt)"

definition read_axis_values :: "'d doubles \<Rightarrow> 'd cal_definition \<Rightarrow> bytes \<Rightarrow> cal_axis \<Rightarrow> 'd list result" where
  "read_axis_values D def rom a =
     read_each (\<lambda>i. read_cell D rom (axis_data_type a) (find_scaling def (axis_scaling a))
         (size_t (axis_address a + i * byte_size (axis_data_type a))))
       [0 ..< axis_length a]"

record 'd table_data =
  td_axis_x :: "'d list"
  td_axis_y :: "'d list"
  td_axis_z :: "'d list"
  td_values :: "'d list list"
  td_slices :: "'d list list list"

text \<open>The axis a table names, the cause of the error when the definition does not have it.\<close>

definition axis_missing :: "cal_table \<Rightarrow> char \<Rightarrow> string \<Rightarrow> 'a result" where
  "axis_missing t ch name =
     failure ParseError (''table '' @ in_quotes (table_id t) @ '' references unknown axis_'' @ [ch, CHR 0x20] @ in_quotes name)"

definition resolve_axis :: "'d cal_definition \<Rightarrow> cal_table \<Rightarrow> string option \<Rightarrow> char \<Rightarrow> cal_axis option result" where
  "resolve_axis def t name ch =
     (case name of
        None \<Rightarrow> Inr None
      | Some n \<Rightarrow>
          if n = [] then Inr None
          else (case find_axis def n of None \<Rightarrow> axis_missing t ch n | Some a \<Rightarrow> Inr (Some a)))"

text \<open>The axis in use, for a table of at least \<open>n\<close> dimensions.\<close>

definition used_axis :: "'d cal_definition \<Rightarrow> cal_table \<Rightarrow> int \<Rightarrow> string option \<Rightarrow> char \<Rightarrow> cal_axis option result" where
  "used_axis def t n name ch = (if dimensions t \<ge> n then resolve_axis def t name ch else Inr None)"

definition used_axis_values ::
  "'d doubles \<Rightarrow> 'd cal_definition \<Rightarrow> bytes \<Rightarrow> cal_table \<Rightarrow> int \<Rightarrow> string option \<Rightarrow> char \<Rightarrow> 'd list result" where
  "used_axis_values D def rom t n name ch =
     (case used_axis def t n name ch of
        Inl e \<Rightarrow> Inl e
      | Inr None \<Rightarrow> Inr []
      | Inr (Some a) \<Rightarrow> read_axis_values D def rom a)"

definition read_grid ::
  "'d doubles \<Rightarrow> 'd cal_definition \<Rightarrow> bytes \<Rightarrow> cal_table \<Rightarrow> nat \<Rightarrow> nat \<Rightarrow> nat \<Rightarrow> 'd list list result" where
  "read_grid D def rom t first rows cols =
     read_each (\<lambda>r. read_each (\<lambda>c. read_cell D rom (table_data_type t) (find_scaling def (table_scaling t))
           (size_t (table_address t + ((first + r) * cols + c) * byte_size (table_data_type t))))
         [0 ..< cols])
       [0 ..< rows]"

definition size_or_one :: "'a list \<Rightarrow> nat" where
  "size_or_one xs = (if xs = [] then 1 else length xs)"

definition read_table_values :: "'d doubles \<Rightarrow> 'd cal_definition \<Rightarrow> bytes \<Rightarrow> cal_table \<Rightarrow> 'd table_data result" where
  "read_table_values D def rom t =
     (case used_axis_values D def rom t 1 (table_axis_x t) (CHR ''x'') of
        Inl e \<Rightarrow> Inl e
      | Inr xs \<Rightarrow>
     (case used_axis_values D def rom t 2 (table_axis_y t) (CHR ''y'') of
        Inl e \<Rightarrow> Inl e
      | Inr ys \<Rightarrow>
     (case used_axis_values D def rom t 3 (table_axis_z t) (CHR ''z'') of
        Inl e \<Rightarrow> Inl e
      | Inr zs \<Rightarrow>
          let cols = size_or_one xs; rows = size_or_one ys in
          if dimensions t = 3 then
            map_sum id (\<lambda>sl. \<lparr>td_axis_x = xs, td_axis_y = ys, td_axis_z = zs, td_values = [], td_slices = sl\<rparr>)
              (read_each (\<lambda>z. read_grid D def rom t (z * rows) rows cols) [0 ..< size_or_one zs])
          else
            map_sum id (\<lambda>vs. \<lparr>td_axis_x = xs, td_axis_y = ys, td_axis_z = zs, td_values = vs, td_slices = []\<rparr>)
              (read_grid D def rom t 0 rows cols))))"

section \<open>Writing\<close>

definition write_cell ::
  "'d doubles \<Rightarrow> data_type \<Rightarrow> 'd scaling option \<Rightarrow> nat \<Rightarrow> 'd \<Rightarrow> bytes \<Rightarrow> (status \<times> bytes) option" where
  "write_cell D dt sc off eng rom =
     (case (case sc of None \<Rightarrow> Inr eng | Some s \<Rightarrow> invert_scaling D s eng) of
        Inl e \<Rightarrow> Some (Inl e, rom)
      | Inr raw \<Rightarrow> write_typed D off dt raw rom)"

text \<open>A loop of steps that stops at the first error; \<open>i\<close> is the index of the next element.\<close>

fun write_each :: "(nat \<Rightarrow> 'a \<Rightarrow> bytes \<Rightarrow> (status \<times> bytes) option) \<Rightarrow> nat \<Rightarrow> 'a list \<Rightarrow> bytes \<Rightarrow> (status \<times> bytes) option" where
  "write_each f i [] rom = Some (ok, rom)"
| "write_each f i (x # xs) rom =
     (case f i x rom of
        None \<Rightarrow> None
      | Some (Inl e, rom') \<Rightarrow> Some (Inl e, rom')
      | Some (Inr _, rom') \<Rightarrow> write_each f (i + 1) xs rom')"

definition write_row ::
  "'d doubles \<Rightarrow> 'd cal_definition \<Rightarrow> cal_table \<Rightarrow> nat \<Rightarrow> nat \<Rightarrow> 'd list \<Rightarrow> bytes \<Rightarrow> (status \<times> bytes) option" where
  "write_row D def t cols row vs =
     write_each (\<lambda>c. write_cell D (table_data_type t) (find_scaling def (table_scaling t))
         (size_t (table_address t + (row * cols + c) * byte_size (table_data_type t)))) 0 vs"

text \<open>The two row checks differ in their text only; \<open>msg r n\<close> is the message for row \<open>r\<close> of \<open>n\<close> cells.\<close>

definition write_grid ::
  "'d doubles \<Rightarrow> 'd cal_definition \<Rightarrow> cal_table \<Rightarrow> (nat \<Rightarrow> nat \<Rightarrow> string) \<Rightarrow> nat \<Rightarrow> nat \<Rightarrow> 'd list list \<Rightarrow> bytes \<Rightarrow>
    (status \<times> bytes) option" where
  "write_grid D def t msg first cols vs =
     write_each (\<lambda>r row rom.
         if length row \<noteq> cols then Some (failure InvalidArgument (msg r (length row)), rom)
         else write_row D def t cols (first + r) row rom) 0 vs"

definition axis_len :: "cal_axis option \<Rightarrow> nat" where
  "axis_len a = (case a of None \<Rightarrow> 1 | Some a \<Rightarrow> axis_length a)"

definition shape_msg :: "string \<Rightarrow> nat \<Rightarrow> string \<Rightarrow> nat \<Rightarrow> string" where
  "shape_msg what n unit expected =
     ''TableData '' @ what @ ''has '' @ dec_string n @ unit @ '' but table expects '' @ dec_string expected"

definition write_slices ::
  "'d doubles \<Rightarrow> 'd cal_definition \<Rightarrow> cal_table \<Rightarrow> nat \<Rightarrow> nat \<Rightarrow> 'd list list list \<Rightarrow> bytes \<Rightarrow> (status \<times> bytes) option" where
  "write_slices D def t rows cols slices =
     write_each (\<lambda>z sl rom.
         if length sl \<noteq> rows then
           Some (failure InvalidArgument
             (shape_msg (''slice '' @ dec_string z @ '' '') (length sl) '' rows'' rows), rom)
         else write_grid D def t
           (\<lambda>r n. shape_msg (''slice '' @ dec_string z @ '' row '' @ dec_string r @ '' '') n '' cols'' cols)
           (z * rows) cols sl rom) 0 slices"

definition write_table_values ::
  "'d doubles \<Rightarrow> 'd cal_definition \<Rightarrow> cal_table \<Rightarrow> 'd table_data \<Rightarrow> bytes \<Rightarrow> (status \<times> bytes) option" where
  "write_table_values D def t td rom =
     (case used_axis def t 1 (table_axis_x t) (CHR ''x'') of
        Inl e \<Rightarrow> Some (Inl e, rom)
      | Inr ax \<Rightarrow>
     (case used_axis def t 2 (table_axis_y t) (CHR ''y'') of
        Inl e \<Rightarrow> Some (Inl e, rom)
      | Inr ay \<Rightarrow>
     (case used_axis def t 3 (table_axis_z t) (CHR ''z'') of
        Inl e \<Rightarrow> Some (Inl e, rom)
      | Inr az \<Rightarrow>
          let cols = axis_len ax; rows = axis_len ay; depth = axis_len az in
          if dimensions t = 3 then
            if length (td_slices td) \<noteq> depth then
              Some (failure InvalidArgument (shape_msg [] (length (td_slices td)) '' slices'' depth), rom)
            else write_slices D def t rows cols (td_slices td) rom
          else if length (td_values td) \<noteq> rows then
            Some (failure InvalidArgument (shape_msg [] (length (td_values td)) '' rows'' rows), rom)
          else write_grid D def t (\<lambda>r n. shape_msg (''row '' @ dec_string r @ '' '') n '' cols'' cols) 0 cols
            (td_values td) rom)))"

section \<open>Comparing a table between two images\<close>

record 'd table_diff =
  total_cells :: nat
  cells_changed :: nat
  max_abs_delta :: 'd
  mean_abs_delta :: 'd

text \<open>The inner loop: the running totals and the sum of the absolute differences.\<close>

fun diff_cells :: "'d doubles \<Rightarrow> 'd list \<Rightarrow> 'd list \<Rightarrow> 'd table_diff \<times> 'd \<Rightarrow> 'd table_diff \<times> 'd" where
  "diff_cells D (x # xs) (y # ys) (df, acc) =
     (let df = df\<lparr>total_cells := total_cells df + 1\<rparr>; d = d_sub D y x in
      if d_eq D d (d_of_int D 0) then diff_cells D xs ys (df, acc)
      else
        (let ad = (if d_less D d (d_of_int D 0) then d_sub D (d_of_int D 0) d else d);
             df = df\<lparr>cells_changed := cells_changed df + 1\<rparr>;
             df = (if d_less D (max_abs_delta df) ad then df\<lparr>max_abs_delta := ad\<rparr> else df)
         in diff_cells D xs ys (df, d_add D acc ad)))"
| "diff_cells D _ _ st = st"

fun diff_rows :: "'d doubles \<Rightarrow> string \<Rightarrow> nat \<Rightarrow> 'd list list \<Rightarrow> 'd list list \<Rightarrow> 'd table_diff \<times> 'd \<Rightarrow> ('d table_diff \<times> 'd) result" where
  "diff_rows D i r (x # xs) (y # ys) st =
     (if length x \<noteq> length y then
        failure Unknown (''table '' @ in_quotes i @ '': column count mismatch on row '' @ dec_string r)
      else diff_rows D i (r + 1) xs ys (diff_cells D x y st))"
| "diff_rows D i r _ _ st = Inr st"

definition diff_table :: "'d doubles \<Rightarrow> 'd cal_definition \<Rightarrow> bytes \<Rightarrow> bytes \<Rightarrow> cal_table \<Rightarrow> 'd table_diff result" where
  "diff_table D def a b t =
     (case read_table_values D def a t of
        Inl e \<Rightarrow> Inl e
      | Inr ta \<Rightarrow>
     (case read_table_values D def b t of
        Inl e \<Rightarrow> Inl e
      | Inr tb \<Rightarrow>
          if length (td_values ta) \<noteq> length (td_values tb) then
            failure Unknown (''table '' @ in_quotes (table_id t) @ '': row count mismatch'')
          else
            (case diff_rows D (table_id t) 0 (td_values ta) (td_values tb)
                (\<lparr>total_cells = 0, cells_changed = 0, max_abs_delta = d_of_int D 0, mean_abs_delta = d_of_int D 0\<rparr>,
                 d_of_int D 0) of
               Inl e \<Rightarrow> Inl e
             | Inr (df, acc) \<Rightarrow>
                 Inr (if cells_changed df > 0 then
                        df\<lparr>mean_abs_delta := d_div D acc (d_of_int D (int (cells_changed df)))\<rparr>
                      else df))))"


section \<open>A table as a region of the image\<close>

text \<open>The bytes a cell is stored as, \<open>None\<close> where the write does not succeed, and the value they read as.\<close>

definition cell_blob :: "'d doubles \<Rightarrow> data_type \<Rightarrow> 'd scaling option \<Rightarrow> 'd \<Rightarrow> bytes option" where
  "cell_blob D dt sc v =
     (case (case sc of None \<Rightarrow> Inr v | Some s \<Rightarrow> invert_scaling D s v) of Inl e \<Rightarrow> None | Inr raw \<Rightarrow> cell_bytes D dt raw)"

definition cell_value :: "'d doubles \<Rightarrow> data_type \<Rightarrow> 'd scaling option \<Rightarrow> bytes \<Rightarrow> 'd" where
  "cell_value D dt sc bs = scale_raw D sc (bytes_value D dt bs)"

text \<open>The concatenation of the stored elements of a list, when all can be stored.\<close>

fun blobs :: "('a \<Rightarrow> bytes option) \<Rightarrow> 'a list \<Rightarrow> bytes option" where
  "blobs g [] = Some []"
| "blobs g (x # xs) = (case g x of None \<Rightarrow> None | Some bs \<Rightarrow> map_option ((@) bs) (blobs g xs))"

definition grid_blob :: "'d doubles \<Rightarrow> data_type \<Rightarrow> 'd scaling option \<Rightarrow> 'd list list \<Rightarrow> bytes option" where
  "grid_blob D dt sc = blobs (blobs (cell_blob D dt sc))"

lemma cell_blob_length: "cell_blob D dt sc v = Some bs \<Longrightarrow> length bs = byte_size dt"
  by (auto simp: cell_blob_def dest: cell_bytes_length split: sum.splits option.splits)

lemma blobs_length:
  "blobs g xs = Some b \<Longrightarrow> \<forall>x \<in> set xs. \<forall>bs. g x = Some bs \<longrightarrow> length bs = m \<Longrightarrow> length b = length xs * m"
  by (induction xs arbitrary: b) (auto split: option.splits)

lemma blobs_nth:
  assumes "blobs g xs = Some b" "\<forall>x \<in> set xs. \<forall>bs. g x = Some bs \<longrightarrow> length bs = m" "i < length xs"
  shows "g (xs ! i) = Some (take m (drop (i * m) b))"
  using assms
proof (induction xs arbitrary: b i)
  case (Cons x xs)
  then obtain bs c where s: "g x = Some bs" "blobs g xs = Some c" "b = bs @ c" by (auto split: option.splits)
  moreover have "length bs = m" using Cons.prems(2) s(1) by simp
  ultimately show ?case using Cons.IH [OF s(2)] Cons.prems(2,3) by (cases i) simp_all
qed simp

lemma blobs_cong: "(\<And>x. x \<in> set xs \<Longrightarrow> g x = h x) \<Longrightarrow> blobs g xs = blobs h xs"
  by (induction xs) (auto split: option.splits)

lemma blobs_cong2:
  "length xs = length ys \<Longrightarrow> (\<And>i. i < length xs \<Longrightarrow> g (xs ! i) = g (ys ! i)) \<Longrightarrow> blobs g xs = blobs g ys"
  by (induction xs ys rule: list_induct2) (force split: option.splits simp: All_less_Suc2)+

lemma write_cell_ok:
  assumes "off + byte_size dt \<le> length rom"
  shows "write_cell D dt sc off v rom = Some (ok, rom') \<longleftrightarrow> (\<exists>bs. cell_blob D dt sc v = Some bs \<and> rom' = put_at off bs rom)"
  by (auto simp: write_cell_def cell_blob_def write_typed_fits [OF assms] split: sum.splits option.splits)

text \<open>A loop of steps that each store one element of \<open>m\<close> bytes stores the concatenation.\<close>

lemma write_each_ok:
  assumes "\<And>j x rom rom'. j < i + length xs \<Longrightarrow> x \<in> set xs \<Longrightarrow> length rom = n \<Longrightarrow>
      f j x rom = Some (ok, rom') \<longleftrightarrow> (\<exists>bs. g x = Some bs \<and> rom' = put_at (a + j * m) bs rom)"
    and "\<forall>x \<in> set xs. \<forall>bs. g x = Some bs \<longrightarrow> length bs = m" and "length rom = n"
  shows "write_each f i xs rom = Some (ok, rom') \<longleftrightarrow> (\<exists>b. blobs g xs = Some b \<and> rom' = put_at (a + i * m) b rom)"
  using assms
proof (induction xs arbitrary: i rom)
  case (Cons x xs)
  have first: "f i x rom = Some (ok, r) \<longleftrightarrow> (\<exists>bs. g x = Some bs \<and> r = put_at (a + i * m) bs rom)" for r
    using Cons.prems(1,3) by simp
  have rest: "write_each f (i + 1) xs r = Some (ok, rom') \<longleftrightarrow> (\<exists>b. blobs g xs = Some b \<and> rom' = put_at (a + (i + 1) * m) b r)"
    if "length r = n" for r
    using Cons.prems that by (intro Cons.IH) auto
  show ?case
  proof (cases "g x")
    case None
    then have "f i x rom \<noteq> Some (ok, r)" for r using first by simp
    then show ?thesis using None by (auto split: option.splits sum.splits)
  next
    case (Some bs)
    then have "f i x rom = Some (ok, put_at (a + i * m) bs rom)" "length bs = m" using first Cons.prems(2) by auto
    then show ?thesis
      using rest Some Cons.prems(3) by (auto simp: put_at_append algebra_simps)
  qed
qed auto

lemma write_each_length:
  "write_each f i xs rom = Some (r, rom') \<Longrightarrow> (\<And>j x rom r rom'. f j x rom = Some (r, rom') \<Longrightarrow> length rom' = length rom) \<Longrightarrow>
    length rom' = length rom"
  by (induction xs arbitrary: i rom) (fastforce split: option.splits sum.splits prod.splits)+

lemma read_each_ok: "(\<And>x. x \<in> set xs \<Longrightarrow> f x = Inr (h x)) \<Longrightarrow> read_each f xs = Inr (map h xs)"
  by (induction xs) simp_all

lemma read_each_cong: "(\<And>x. x \<in> set xs \<Longrightarrow> f x = g x) \<Longrightarrow> read_each f xs = read_each g xs"
  by (induction xs) (auto split: sum.splits)

lemma read_each_length: "read_each f xs = Inr ys \<Longrightarrow> length ys = length xs"
  by (induction xs arbitrary: ys) (auto split: sum.splits)

lemma read_cell_ok:
  assumes "off + byte_size dt \<le> length rom"
  shows "read_cell D rom dt sc off = Inr (cell_value D dt sc (take (byte_size dt) (drop off rom)))"
  by (simp add: read_cell_def cell_value_def read_typed_fits [OF assms])


text \<open>
  A table of one or two dimensions with \<open>rows\<close> times \<open>cols\<close> cells: its axes exist, are not empty and lie
  outside the table's own bytes.
\<close>

definition table_bytes :: "cal_table \<Rightarrow> nat \<Rightarrow> nat \<Rightarrow> nat" where
  "table_bytes t rows cols = rows * cols * byte_size (table_data_type t)"

definition axis_apart :: "cal_table \<Rightarrow> nat \<Rightarrow> nat \<Rightarrow> cal_axis option \<Rightarrow> bool" where
  "axis_apart t rows cols ax = (case ax of
     None \<Rightarrow> True
   | Some a \<Rightarrow> axis_address a + axis_length a * byte_size (axis_data_type a) < 2 ^ 64 \<and>
       (axis_address a + axis_length a * byte_size (axis_data_type a) \<le> table_address t \<or>
        table_address t + table_bytes t rows cols \<le> axis_address a))"

definition table_shape :: "'d cal_definition \<Rightarrow> cal_table \<Rightarrow> nat \<Rightarrow> nat \<Rightarrow> bool" where
  "table_shape def t rows cols \<longleftrightarrow> dimensions t \<noteq> 3 \<and> 0 < rows \<and> 0 < cols \<and>
     (case (used_axis def t 1 (table_axis_x t) (CHR ''x''), used_axis def t 2 (table_axis_y t) (CHR ''y''),
         used_axis def t 3 (table_axis_z t) (CHR ''z'')) of
        (Inr ax, Inr ay, Inr az) \<Rightarrow> axis_len ax = cols \<and> axis_len ay = rows \<and>
          list_all (axis_apart t rows cols) [ax, ay, az]
      | _ \<Rightarrow> False)"

text \<open>The table's bytes lie in an image of less than \<open>2 ^ 64\<close> bytes.\<close>

definition table_fits :: "cal_table \<Rightarrow> nat \<Rightarrow> nat \<Rightarrow> nat \<Rightarrow> bool" where
  "table_fits t rows cols n \<longleftrightarrow> table_address t + table_bytes t rows cols \<le> n \<and> n < 2 ^ 64"

abbreviation (input) table_scale :: "'d cal_definition \<Rightarrow> cal_table \<Rightarrow> 'd scaling option" where
  "table_scale def t \<equiv> find_scaling def (table_scaling t)"

definition table_blob :: "'d doubles \<Rightarrow> 'd cal_definition \<Rightarrow> cal_table \<Rightarrow> 'd list list \<Rightarrow> bytes option" where
  "table_blob D def t = grid_blob D (table_data_type t) (find_scaling def (table_scaling t))"

definition is_grid :: "nat \<Rightarrow> nat \<Rightarrow> 'a list list \<Rightarrow> bool" where
  "is_grid rows cols vs \<longleftrightarrow> length vs = rows \<and> (\<forall>row \<in> set vs. length row = cols)"

lemma size_t_small [simp]: "n < 2 ^ 64 \<Longrightarrow> size_t n = n"
  by (simp add: size_t_def unat_of_nat take_bit_nat_eq_self)

lemma cell_inside:
  assumes "r < rows" "c < (cols :: nat)"
  shows "(r * cols + c) * k + k \<le> rows * cols * k"
proof -
  have "r * cols + c + 1 \<le> (r + 1) * cols" using assms(2) by simp
  also have "\<dots> \<le> rows * cols" using assms(1) by (intro mult_le_mono1) simp
  finally have "(r * cols + c + 1) * k \<le> rows * cols * k" by (rule mult_le_mono1)
  then show ?thesis by (simp add: algebra_simps)
qed

lemma write_row_ok:
  assumes "table_fits t rows cols (length rom)" "r < rows" "length vs \<le> cols"
  shows "write_row D def t cols r vs rom = Some (ok, rom') \<longleftrightarrow>
    (\<exists>b. blobs (cell_blob D (table_data_type t) (table_scale def t)) vs = Some b \<and>
      rom' = put_at (table_address t + r * (cols * byte_size (table_data_type t))) b rom)"
proof -
  let ?k = "byte_size (table_data_type t)"
  let ?a = "table_address t + r * (cols * ?k)"
  have "write_row D def t cols r vs rom = Some (ok, rom') \<longleftrightarrow>
    (\<exists>b. blobs (cell_blob D (table_data_type t) (table_scale def t)) vs = Some b \<and> rom' = put_at (?a + 0 * ?k) b rom)"
    unfolding write_row_def
  proof (rule write_each_ok)
    fix j x and rom1 rom' :: bytes assume j: "j < 0 + length vs" and len: "length rom1 = length rom"
    have in1: "(r * cols + j) * ?k + ?k \<le> rows * cols * ?k" using cell_inside [of r rows j cols] assms(2,3) j by simp
    then have "table_address t + (r * cols + j) * ?k + ?k \<le> length rom1"
      using assms(1) len by (simp add: table_fits_def table_bytes_def)
    moreover have "size_t (table_address t + (r * cols + j) * ?k) = ?a + j * ?k"
      using in1 assms(1) by (subst size_t_small) (simp_all add: table_fits_def table_bytes_def algebra_simps)
    ultimately show "write_cell D (table_data_type t) (table_scale def t)
        (size_t (table_address t + (r * cols + j) * ?k)) x rom1 = Some (ok, rom') \<longleftrightarrow>
      (\<exists>bs. cell_blob D (table_data_type t) (table_scale def t) x = Some bs \<and> rom' = put_at (?a + j * ?k) bs rom1)"
      by (simp add: write_cell_ok algebra_simps)
  qed (auto dest: cell_blob_length)
  then show ?thesis by simp
qed

lemma write_each_steps:
  "write_each f i xs rom = Some (ok, rom') \<Longrightarrow> x \<in> set xs \<Longrightarrow> \<exists>j r r'. f j x r = Some (ok, r')"
  by (induction xs arbitrary: i rom) (fastforce split: option.splits sum.splits prod.splits)+

text \<open>The first rows of a grid.\<close>

lemma write_grid_rows:
  assumes "table_fits t rows cols (length rom)" "length vs \<le> rows" "is_grid (length vs) cols vs"
  shows "write_grid D def t msg 0 cols vs rom = Some (ok, rom') \<longleftrightarrow>
    (\<exists>b. table_blob D def t vs = Some b \<and> rom' = put_at (table_address t) b rom)"
proof -
  let ?k = "byte_size (table_data_type t)"
  have "write_grid D def t msg 0 cols vs rom = Some (ok, rom') \<longleftrightarrow>
    (\<exists>b. table_blob D def t vs = Some b \<and> rom' = put_at (table_address t + 0 * (cols * ?k)) b rom)"
    unfolding write_grid_def table_blob_def grid_blob_def
  proof (rule write_each_ok)
    fix j x and rom1 rom' :: bytes assume j: "j < 0 + length vs" and x: "x \<in> set vs" and len: "length rom1 = length rom"
    have "length x = cols" using assms(3) x by (simp add: is_grid_def)
    then show "(if length x \<noteq> cols then Some (failure InvalidArgument (msg j (length x)), rom1)
        else write_row D def t cols (0 + j) x rom1) = Some (ok, rom') \<longleftrightarrow>
      (\<exists>bs. blobs (cell_blob D (table_data_type t) (table_scale def t)) x = Some bs \<and>
        rom' = put_at (table_address t + j * (cols * ?k)) bs rom1)"
      using write_row_ok [of t rows cols rom1 j x] assms j len by simp
  next
    show "\<forall>x \<in> set vs. \<forall>bs. blobs (cell_blob D (table_data_type t) (table_scale def t)) x = Some bs \<longrightarrow> length bs = cols * ?k"
      using assms(3) by (auto simp: is_grid_def dest!: blobs_length [where m = ?k] dest: cell_blob_length)
  qed simp
  then show ?thesis by simp
qed

lemma write_grid_ok:
  assumes "table_fits t rows cols (length rom)" "length vs = rows"
  shows "write_grid D def t msg 0 cols vs rom = Some (ok, rom') \<longleftrightarrow> is_grid rows cols vs \<and>
    (\<exists>b. table_blob D def t vs = Some b \<and> rom' = put_at (table_address t) b rom)"
proof (cases "is_grid rows cols vs")
  case True
  then have "is_grid (length vs) cols vs" "length vs \<le> rows" using assms(2) by simp_all
  with True show ?thesis using write_grid_rows [OF assms(1)] by simp
next
  case False
  then obtain row where "row \<in> set vs" "length row \<noteq> cols" using assms(2) by (auto simp: is_grid_def)
  then show ?thesis using False write_each_steps [of _ 0 vs rom rom' row] by (fastforce simp: write_grid_def)
qed

text \<open>A write that fails at a cell has stored the cells before it, row by row.\<close>

lemma write_each_append:
  "write_each f i xs rom = Some (ok, rom') \<Longrightarrow> write_each f i (xs @ ys) rom = write_each f (i + length xs) ys rom'"
  by (induction xs arbitrary: i rom) (auto split: option.splits sum.splits prod.splits)

lemma blobs_append: "blobs g (xs @ ys) = (case blobs g xs of None \<Rightarrow> None | Some b \<Rightarrow> map_option ((@) b) (blobs g ys))"
  by (induction xs; cases "blobs g ys") (auto split: option.splits)

lemma blobs_concat: "blobs (blobs g) xss = blobs g (concat xss)"
  by (induction xss) (auto simp: blobs_append split: option.splits)

lemma write_grid_fails:
  assumes fits: "table_fits t rows cols (length rom)" and grid: "is_grid rows cols ws" and ij: "i < rows" "j < cols"
    and bad: "table_scale def t = Some sc" "invert_scaling D sc (ws ! i ! j) = Inl e"
    and good: "blobs (cell_blob D (table_data_type t) (table_scale def t)) (concat (take i ws) @ take j (ws ! i)) = Some b"
  shows "write_grid D def t msg 0 cols ws rom = Some (Inl e, put_at (table_address t) b rom)"
proof -
  let ?g = "cell_blob D (table_data_type t) (table_scale def t)" and ?k = "byte_size (table_data_type t)"
  have len: "length ws = rows" "length (ws ! i) = cols" "is_grid i cols (take i ws)"
    using grid ij by (auto simp: is_grid_def dest: in_set_takeD)
  obtain b1 b2 where b: "blobs ?g (concat (take i ws)) = Some b1" "blobs ?g (take j (ws ! i)) = Some b2" "b = b1 @ b2"
    using good by (auto simp: blobs_append split: option.splits)
  have "length (concat (take i ws)) = i * cols" using len(3) by (simp add: length_concat is_grid_def sum_list_triv cong: map_cong)
  then have b1: "length b1 = i * (cols * ?k)"
    using blobs_length [OF b(1), of ?k] by (auto dest: cell_blob_length simp: mult.assoc)
  let ?rom1 = "put_at (table_address t) b1 rom" and ?rom2 = "put_at (table_address t) b rom"
  have "write_grid D def t msg 0 cols (take i ws) rom = Some (ok, ?rom1)"
    using write_grid_rows [OF fits, of "take i ws"] len ij b(1) by (simp add: table_blob_def grid_blob_def blobs_concat)
  moreover have "write_row D def t cols i (take j (ws ! i)) ?rom1 = Some (ok, ?rom2)"
    using write_row_ok [of t rows cols ?rom1 i "take j (ws ! i)"] fits ij b(2,3) by (simp add: put_at_append b1)
  then have "write_row D def t cols i (take j (ws ! i) @ ws ! i ! j # drop (Suc j) (ws ! i)) ?rom1 = Some (Inl e, ?rom2)"
    unfolding write_row_def by (subst write_each_append, assumption) (simp add: write_cell_def bad)
  then have "write_row D def t cols i (ws ! i) ?rom1 = Some (Inl e, ?rom2)"
    using len(2) ij by (simp flip: id_take_nth_drop)
  ultimately have "write_grid D def t msg 0 cols (take i ws @ ws ! i # drop (Suc i) ws) rom = Some (Inl e, ?rom2)"
    unfolding write_grid_def using ij len by (simp add: write_each_append)
  then show ?thesis using ij len(1) by (simp flip: id_take_nth_drop)
qed

lemma write_table_fails:
  assumes "table_shape def t rows cols" "table_fits t rows cols (length rom)" "is_grid rows cols (td_values td)" "i < rows" "j < cols"
    and "table_scale def t = Some sc" "invert_scaling D sc (td_values td ! i ! j) = Inl e"
    and "blobs (cell_blob D (table_data_type t) (table_scale def t)) (concat (take i (td_values td)) @ take j (td_values td ! i)) = Some b"
  shows "write_table_values D def t td rom = Some (Inl e, put_at (table_address t) b rom)"
proof -
  obtain ax ay az where a: "used_axis def t 1 (table_axis_x t) (CHR ''x'') = Inr ax"
      "used_axis def t 2 (table_axis_y t) (CHR ''y'') = Inr ay" "used_axis def t 3 (table_axis_z t) (CHR ''z'') = Inr az"
      "axis_len ax = cols" "axis_len ay = rows" "dimensions t \<noteq> 3"
    using assms(1) by (auto simp: table_shape_def split: sum.splits)
  have "length (td_values td) = rows" using assms(3) by (simp add: is_grid_def)
  then show ?thesis
    by (simp add: write_table_values_def a write_grid_fails [OF assms(2-8)])
qed

lemma write_table_ok:
  assumes "table_shape def t rows cols" "table_fits t rows cols (length rom)"
  shows "write_table_values D def t td rom = Some (ok, rom') \<longleftrightarrow> is_grid rows cols (td_values td) \<and>
    (\<exists>b. table_blob D def t (td_values td) = Some b \<and> rom' = put_at (table_address t) b rom)"
proof -
  obtain ax ay az where a: "used_axis def t 1 (table_axis_x t) (CHR ''x'') = Inr ax"
      "used_axis def t 2 (table_axis_y t) (CHR ''y'') = Inr ay" "used_axis def t 3 (table_axis_z t) (CHR ''z'') = Inr az"
      "axis_len ax = cols" "axis_len ay = rows" "dimensions t \<noteq> 3"
    using assms(1) by (auto simp: table_shape_def split: sum.splits)
  show ?thesis
  proof (cases "length (td_values td) = rows")
    case True
    then show ?thesis by (simp add: write_table_values_def a write_grid_ok [OF assms(2)])
  next
    case False
    then show ?thesis by (simp add: write_table_values_def a is_grid_def)
  qed
qed


text \<open>The grid a table reads as.\<close>

definition grid_of :: "'d doubles \<Rightarrow> 'd cal_definition \<Rightarrow> cal_table \<Rightarrow> nat \<Rightarrow> nat \<Rightarrow> bytes \<Rightarrow> 'd list list" where
  "grid_of D def t rows cols rom =
     map (\<lambda>r. map (\<lambda>c. cell_value D (table_data_type t) (find_scaling def (table_scaling t))
           (take (byte_size (table_data_type t)) (drop (table_address t + (r * cols + c) * byte_size (table_data_type t)) rom)))
         [0 ..< cols]) [0 ..< rows]"

lemma is_grid_of: "is_grid rows cols (grid_of D def t rows cols rom)"
  by (auto simp: is_grid_def grid_of_def)

lemma read_grid_ok:
  assumes "table_fits t rows cols (length rom)"
  shows "read_grid D def rom t 0 rows cols = Inr (grid_of D def t rows cols rom)"
  unfolding read_grid_def grid_of_def
proof (intro read_each_ok)
  fix r c assume "r \<in> set [0 ..< rows]" "c \<in> set [0 ..< cols]"
  then have in1: "(r * cols + c) * byte_size (table_data_type t) + byte_size (table_data_type t) \<le> table_bytes t rows cols"
    using cell_inside by (simp add: table_bytes_def)
  then show "read_cell D rom (table_data_type t) (table_scale def t)
      (size_t (table_address t + ((0 + r) * cols + c) * byte_size (table_data_type t))) =
    Inr (cell_value D (table_data_type t) (table_scale def t)
      (take (byte_size (table_data_type t)) (drop (table_address t + (r * cols + c) * byte_size (table_data_type t)) rom)))"
    using assms by (simp add: table_fits_def read_cell_ok)
qed

lemma used_axis_values_length:
  "used_axis_values D def rom t n name ch = Inr xs \<Longrightarrow> used_axis def t n name ch = Inr ax \<Longrightarrow> 0 < axis_len ax \<Longrightarrow>
    size_or_one xs = axis_len ax"
  by (auto simp: used_axis_values_def size_or_one_def axis_len_def read_axis_values_def
      dest!: read_each_length split: option.splits)

text \<open>The axes of a table in an image.\<close>

definition axes_read :: "'d doubles \<Rightarrow> 'd cal_definition \<Rightarrow> bytes \<Rightarrow> cal_table \<Rightarrow> 'd list \<times> 'd list \<times> 'd list \<Rightarrow> bool" where
  "axes_read D def rom t axs \<longleftrightarrow>
     used_axis_values D def rom t 1 (table_axis_x t) (CHR ''x'') = Inr (fst axs) \<and>
     used_axis_values D def rom t 2 (table_axis_y t) (CHR ''y'') = Inr (fst (snd axs)) \<and>
     used_axis_values D def rom t 3 (table_axis_z t) (CHR ''z'') = Inr (snd (snd axs))"

definition table_view :: "'d list \<times> 'd list \<times> 'd list \<Rightarrow> 'd list list \<Rightarrow> 'd table_data" where
  "table_view axs vs = \<lparr>td_axis_x = fst axs, td_axis_y = fst (snd axs), td_axis_z = snd (snd axs), td_values = vs, td_slices = []\<rparr>"

lemma read_table_ok:
  assumes "table_shape def t rows cols" "table_fits t rows cols (length rom)"
  shows "read_table_values D def rom t = Inr td \<longleftrightarrow>
    (\<exists>axs. axes_read D def rom t axs \<and> td = table_view axs (grid_of D def t rows cols rom))"
proof -
  obtain ax ay az where a: "used_axis def t 1 (table_axis_x t) (CHR ''x'') = Inr ax"
      "used_axis def t 2 (table_axis_y t) (CHR ''y'') = Inr ay" "used_axis def t 3 (table_axis_z t) (CHR ''z'') = Inr az"
      "axis_len ax = cols" "axis_len ay = rows" "dimensions t \<noteq> 3" "0 < rows" "0 < cols"
    using assms(1) by (auto simp: table_shape_def split: sum.splits)
  have sizes: "size_or_one xs = cols" "size_or_one ys = rows"
    if "used_axis_values D def rom t 1 (table_axis_x t) (CHR ''x'') = Inr xs"
      "used_axis_values D def rom t 2 (table_axis_y t) (CHR ''y'') = Inr ys" for xs ys
    using used_axis_values_length [OF that(1) a(1)] used_axis_values_length [OF that(2) a(2)] a by simp_all
  show ?thesis
    using a(6) by (auto simp: read_table_values_def axes_read_def table_view_def sizes read_grid_ok [OF assms(2)] Let_def
        split: sum.splits)
qed

lemma read_cell_cong:
  assumes "length rom' = length rom" "\<And>i. off \<le> i \<Longrightarrow> i < off + byte_size dt \<Longrightarrow> i < length rom \<Longrightarrow> rom' ! i = rom ! i"
  shows "read_cell D rom' dt sc off = read_cell D rom dt sc off"
proof (cases "off + byte_size dt \<le> length rom")
  case True
  have "take (byte_size dt) (drop off rom') = take (byte_size dt) (drop off rom)"
    by (rule nth_equalityI) (use assms True in auto)
  with True assms(1) show ?thesis by (simp add: read_cell_ok)
next
  case False
  then have "length rom < off \<or> length rom - off < byte_size dt" by linarith
  with False show ?thesis using assms(1) by (cases dt) (simp_all add: read_cell_def rom_accessor_defs)
qed

lemma axis_values_cong:
  assumes "axis_apart t rows cols (Some a)" "length rom' = length rom"
    and "\<And>i. i < table_address t \<or> table_address t + table_bytes t rows cols \<le> i \<Longrightarrow> i < length rom \<Longrightarrow> rom' ! i = rom ! i"
  shows "read_axis_values D def rom' a = read_axis_values D def rom a"
  unfolding read_axis_values_def
proof (rule read_each_cong, rule read_cell_cong)
  let ?k = "byte_size (axis_data_type a)"
  fix j i assume "j \<in> set [0 ..< axis_length a]"
    and i: "size_t (axis_address a + j * ?k) \<le> i" "i < size_t (axis_address a + j * ?k) + ?k" "i < length rom"
  then have "(j + 1) * ?k \<le> axis_length a * ?k" by (intro mult_le_mono1) simp
  then have j: "j * ?k + ?k \<le> axis_length a * ?k" by simp
  then have s: "size_t (axis_address a + j * ?k) = axis_address a + j * ?k"
    using assms(1) by (intro size_t_small) (simp add: axis_apart_def)
  show "rom' ! i = rom ! i"
    using assms(1) i j by (intro assms(3)) (auto simp: axis_apart_def s)
qed (rule assms(2))

lemma axes_read_cong:
  assumes "table_shape def t rows cols" "length rom' = length rom"
    and "\<And>i. i < table_address t \<or> table_address t + table_bytes t rows cols \<le> i \<Longrightarrow> i < length rom \<Longrightarrow> rom' ! i = rom ! i"
  shows "axes_read D def rom' t axs = axes_read D def rom t axs"
proof -
  have one: "used_axis_values D def rom' t n name ch = used_axis_values D def rom t n name ch"
    if "used_axis def t n name ch = Inr ax" "axis_apart t rows cols ax" for n name ch ax
    using that axis_values_cong [OF _ assms(2,3)] by (auto simp: used_axis_values_def split: option.splits)
  show ?thesis
    using assms(1) one by (auto simp: axes_read_def table_shape_def split: sum.splits)
qed


lemma table_blob_cell:
  assumes "is_grid rows cols vs" "table_blob D def t vs = Some b" "r < rows" "c < cols"
  shows "cell_blob D (table_data_type t) (table_scale def t) (vs ! r ! c) =
    Some (take (byte_size (table_data_type t)) (drop ((r * cols + c) * byte_size (table_data_type t)) b))"
proof -
  let ?k = "byte_size (table_data_type t)" and ?g = "cell_blob D (table_data_type t) (table_scale def t)"
  have cells: "\<forall>x \<in> set row. \<forall>bs. ?g x = Some bs \<longrightarrow> length bs = ?k" for row
    by (auto dest: cell_blob_length)
  have rows: "\<forall>row \<in> set vs. \<forall>bs. blobs ?g row = Some bs \<longrightarrow> length bs = cols * ?k"
    using assms(1) by (auto simp: is_grid_def dest!: blobs_length [OF _ cells])
  have row: "blobs ?g (vs ! r) = Some (take (cols * ?k) (drop (r * (cols * ?k)) b))"
    using blobs_nth [OF _ rows] assms(1-3) by (simp add: table_blob_def grid_blob_def is_grid_def)
  have "c < length (vs ! r)" using assms(1,3,4) by (simp add: is_grid_def)
  with blobs_nth [OF row cells] have
    "?g (vs ! r ! c) = Some (take ?k (drop (c * ?k) (take (cols * ?k) (drop (r * (cols * ?k)) b))))" by simp
  moreover have "c * ?k + ?k \<le> cols * ?k" using cell_inside [of 0 1 c cols ?k] assms(4) by simp
  ultimately show ?thesis by (simp add: drop_take min_def algebra_simps)
qed

lemma table_blob_length:
  assumes "is_grid rows cols vs" "table_blob D def t vs = Some b"
  shows "length b = table_bytes t rows cols"
proof -
  let ?k = "byte_size (table_data_type t)" and ?g = "cell_blob D (table_data_type t) (table_scale def t)"
  have cells: "\<forall>x \<in> set row. \<forall>bs. ?g x = Some bs \<longrightarrow> length bs = ?k" for row
    by (auto dest: cell_blob_length)
  have rows: "\<forall>row \<in> set vs. \<forall>bs. blobs ?g row = Some bs \<longrightarrow> length bs = cols * ?k"
    using assms(1) by (auto simp: is_grid_def dest!: blobs_length [OF _ cells])
  show ?thesis
    using blobs_length [OF _ rows] assms by (simp add: table_blob_def grid_blob_def table_bytes_def is_grid_def)
qed

lemma table_blob_cong:
  assumes "is_grid rows cols vs" "is_grid rows cols ws"
    and "\<And>r c. r < rows \<Longrightarrow> c < cols \<Longrightarrow> cell_blob D (table_data_type t) (table_scale def t) (vs ! r ! c) =
      cell_blob D (table_data_type t) (table_scale def t) (ws ! r ! c)"
  shows "table_blob D def t vs = table_blob D def t ws"
  unfolding table_blob_def grid_blob_def
  by (intro blobs_cong2) (use assms in \<open>auto simp: is_grid_def\<close>)

lemma put_at_slice:
  "off + length b \<le> length rom \<Longrightarrow> j + k \<le> length b \<Longrightarrow> take k (drop (off + j) (put_at off b rom)) = take k (drop j b)"
  by (rule nth_equalityI) (auto simp: put_at_nth)

definition requantised :: "'d doubles \<Rightarrow> 'd cal_definition \<Rightarrow> cal_table \<Rightarrow> 'd \<Rightarrow> 'd" where
  "requantised D def t v = cell_value D (table_data_type t) (find_scaling def (table_scaling t))
     (the (cell_blob D (table_data_type t) (find_scaling def (table_scaling t)) v))"

lemma grid_of_put:
  assumes "is_grid rows cols vs" "table_blob D def t vs = Some b" "table_fits t rows cols (length rom)"
  shows "grid_of D def t rows cols (put_at (table_address t) b rom) = map (map (requantised D def t)) vs"
proof (rule nth_equalityI)
  fix r assume "r < length (grid_of D def t rows cols (put_at (table_address t) b rom))"
  then have r: "r < rows" by (simp add: grid_of_def)
  show "grid_of D def t rows cols (put_at (table_address t) b rom) ! r = map (map (requantised D def t)) vs ! r"
  proof (rule nth_equalityI)
    fix c assume "c < length (grid_of D def t rows cols (put_at (table_address t) b rom) ! r)"
    then have c: "c < cols" using r by (simp add: grid_of_def)
    have len: "length b = table_bytes t rows cols" by (rule table_blob_length [OF assms(1,2)])
    have "take (byte_size (table_data_type t))
        (drop (table_address t + (r * cols + c) * byte_size (table_data_type t)) (put_at (table_address t) b rom)) =
      take (byte_size (table_data_type t)) (drop ((r * cols + c) * byte_size (table_data_type t)) b)"
      using cell_inside [OF r c] assms(3) len by (intro put_at_slice) (simp_all add: table_fits_def table_bytes_def)
    then show "grid_of D def t rows cols (put_at (table_address t) b rom) ! r ! c = map (map (requantised D def t)) vs ! r ! c"
      using r c assms(1) table_blob_cell [OF assms(1,2) r c] by (simp add: grid_of_def is_grid_def requantised_def)
  qed (use r assms(1) in \<open>simp add: grid_of_def is_grid_def\<close>)
qed (use assms(1) in \<open>simp add: grid_of_def is_grid_def\<close>)

section \<open>Properties\<close>

text \<open>C8: A table that was written reads back. Take a table of one or two dimensions in an image of less than
  \<open>2 ^ 64\<close> bytes: its axes exist, are not empty and lie in the address space apart from the table's own bytes, the table's
  bytes lie in the image, and the image reads as the table. When a write of it succeeds, every byte outside the table is as it was and a read of the table returns the axes of before and, cell by
  cell, the value written as the cell's data type and scaling can hold it (inverted, clamped, rounded,
  stored, loaded and scaled).\<close>

theorem table_write_read:
  assumes "table_shape def t rows cols" "table_fits t rows cols (length rom)"
    and "read_table_values D def rom t = Inr td0" "write_table_values D def t td rom = Some (ok, rom')"
  shows "length rom' = length rom \<and>
    (\<forall>i < length rom. i < table_address t \<or> table_address t + table_bytes t rows cols \<le> i \<longrightarrow> rom' ! i = rom ! i) \<and>
    read_table_values D def rom' t = Inr (td0\<lparr>td_values := map (map (requantised D def t)) (td_values td)\<rparr>)"
proof -
  obtain b where g: "is_grid rows cols (td_values td)" and b: "table_blob D def t (td_values td) = Some b"
    and r: "rom' = put_at (table_address t) b rom"
    using assms(4) write_table_ok [OF assms(1,2)] by blast
  have outside: "rom' ! i = rom ! i"
    if "i < table_address t \<or> table_address t + table_bytes t rows cols \<le> i" "i < length rom" for i
    using that table_blob_length [OF g b] by (auto simp: r put_at_nth)
  obtain axs where axs: "axes_read D def rom t axs" "td0 = table_view axs (grid_of D def t rows cols rom)"
    using assms(3) read_table_ok [OF assms(1,2)] by blast
  have fits': "table_fits t rows cols (length rom')" using assms(2) by (simp add: r)
  have "axes_read D def rom' t axs"
    using axs(1) axes_read_cong [of def t rows cols rom' rom D axs] assms(1) outside r by simp
  then have "read_table_values D def rom' t = Inr (table_view axs (grid_of D def t rows cols rom'))"
    using read_table_ok [OF assms(1) fits'] by blast
  also have "grid_of D def t rows cols rom' = map (map (requantised D def t)) (td_values td)"
    unfolding r by (rule grid_of_put [OF g b assms(2)])
  finally show ?thesis using outside by (simp add: axs(2) table_view_def r)
qed

text \<open>A table of two rows of two bytes under a linear scaling, after its two axes.\<close>

definition demo_scaling :: "rat scaling" where
  "demo_scaling = \<lparr>scaling_id = ''half'', formula = LinearScaling (1 / 2) 10, scaling_unit = [], scaling_min = 0,
     scaling_max = 100, precision = 1, scaling_data_type = Uint8\<rparr>"

definition demo_axis :: "string \<Rightarrow> nat \<Rightarrow> cal_axis" where
  "demo_axis i a = \<lparr>axis_id = i, axis_name = i, axis_unit = [], axis_type = ''static'', axis_address = a, axis_length = 2,
     axis_data_type = Uint8, axis_scaling = []\<rparr>"

definition demo_table :: cal_table where
  "demo_table = \<lparr>table_id = ''map'', table_name = [], table_category = [], dimensions = 2, table_address = 4,
     table_data_type = Uint8, table_scaling = ''half'', table_axis_x = Some ''x'', table_axis_y = Some ''y'',
     table_axis_z = None, table_notes = None, table_emissions_relevant = False, engine_safety_critical = False,
     table_role = None\<rparr>"

definition demo_definition :: "rat cal_definition" where
  "demo_definition = \<lparr>def_axes = [demo_axis ''x'' 0, demo_axis ''y'' 2], def_scalings = [demo_scaling], def_tables = [demo_table]\<rparr>"

lemmas demo_defs = demo_definition_def demo_table_def demo_axis_def demo_scaling_def

lemma demo_shape: "table_shape demo_definition demo_table 2 2"
  by (simp add: table_shape_def demo_defs used_axis_def resolve_axis_def find_axis_def axis_len_def axis_apart_def
      table_bytes_def)

definition demo_rom :: bytes where
  "demo_rom = [0, 1, 2, 3, 10, 20, 30, 40, 99]"

definition demo_data :: "rat list list \<Rightarrow> rat table_data" where
  "demo_data vs = \<lparr>td_axis_x = [0, 1], td_axis_y = [2, 3], td_axis_z = [], td_values = vs, td_slices = []\<rparr>"

lemma demo_fits: "table_fits demo_table 2 2 (length demo_rom)"
  by (simp add: table_fits_def table_bytes_def demo_table_def demo_rom_def)

lemma demo_read: "read_table_values exact_doubles demo_definition demo_rom demo_table = Inr (demo_data [[15, 20], [25, 30]])"
  by code_simp

lemma demo_write:
  "write_table_values exact_doubles demo_definition demo_table (demo_data [[15, 81 / 5], [25, 900]]) demo_rom =
     Some (ok, [0, 1, 2, 3, 10, 12, 30, 255, 99])"
  by code_simp

lemma table_write_read_witness:
  "\<exists>rom'. write_table_values exact_doubles demo_definition demo_table (demo_data [[15, 81 / 5], [25, 900]]) demo_rom = Some (ok, rom') \<and>
     read_table_values exact_doubles demo_definition rom' demo_table =
       Inr (demo_data (map (map (requantised exact_doubles demo_definition demo_table)) [[15, 81 / 5], [25, 900]]))"
  using table_write_read [OF demo_shape demo_fits demo_read demo_write] demo_write by (simp add: demo_data_def)

text \<open>C27: The comparison of a table between two images does not see tables of three dimensions: it compares the
  plain grid, which such a table does not have, so it reports no changed cell, whatever the two images
  hold.\<close>

theorem diff_table_blind_3d:
  assumes "dimensions t = 3" "read_table_values D def a t = Inr ta" "read_table_values D def b t = Inr tb"
  shows "diff_table D def a b t =
    Inr \<lparr>total_cells = 0, cells_changed = 0, max_abs_delta = d_of_int D 0, mean_abs_delta = d_of_int D 0\<rparr>"
proof -
  have "td_values td = []" if "read_table_values D def rom t = Inr td" for rom td
    using that assms(1)
    by (auto simp: read_table_values_def Let_def split: sum.splits) (auto simp: map_sum_def split: sum.splits)
  then show ?thesis using assms(2,3) by (simp add: diff_table_def)
qed

definition demo_table_3d :: cal_table where
  "demo_table_3d = demo_table\<lparr>dimensions := 3\<rparr>"

lemma diff_table_blind_3d_witness:
  "diff_table exact_doubles demo_definition demo_rom (demo_rom[4 := 0, 5 := 0]) demo_table_3d =
     Inr \<lparr>total_cells = 0, cells_changed = 0, max_abs_delta = d_of_int exact_doubles 0, mean_abs_delta = d_of_int exact_doubles 0\<rparr> \<and>
   td_slices (projr (read_table_values exact_doubles demo_definition demo_rom demo_table_3d)) \<noteq>
   td_slices (projr (read_table_values exact_doubles demo_definition (demo_rom[4 := 0, 5 := 0]) demo_table_3d))"
proof -
  let ?td = "\<lambda>sl. \<lparr>td_axis_x = [0, 1], td_axis_y = [2, 3], td_axis_z = [], td_values = [], td_slices = [sl]\<rparr> :: rat table_data"
  have r: "read_table_values exact_doubles demo_definition demo_rom demo_table_3d = Inr (?td [[15, 20], [25, 30]])"
    "read_table_values exact_doubles demo_definition (demo_rom[4 := 0, 5 := 0]) demo_table_3d = Inr (?td [[10, 10], [25, 30]])"
    by code_simp+
  have "dimensions demo_table_3d = 3" by (simp add: demo_table_3d_def)
  from diff_table_blind_3d [OF this r] r show ?thesis by simp
qed

end
