(* ===== verification/Edit_Ops.thy ===== *)
theory Edit_Ops
  imports Cal_Tables
begin

text \<open>
  Editing a table's grid (src/edit/src/edit.cpp, \<open>edit.hpp\<close>): the operations on a rectangle of cells in
  engineering units, and the snapshots undo and redo rest on. They touch the \<open>values\<close> of the table data
  only. The bounds check looks at the first row; \<open>None\<close> stands for the access outside a shorter row that
  this admits on a ragged grid.
\<close>

type_synonym 'd grid = "'d list list"

section \<open>Rectangles\<close>

record rect =
  r_start :: nat
  r_end :: nat
  c_start :: nat
  c_end :: nat

definition rect_rows :: "rect \<Rightarrow> nat" where
  "rect_rows r = (if r_end r \<ge> r_start r then r_end r - r_start r + 1 else 0)"

definition rect_cols :: "rect \<Rightarrow> nat" where
  "rect_cols r = (if c_end r \<ge> c_start r then c_end r - c_start r + 1 else 0)"

definition whole_table :: "'d grid \<Rightarrow> rect" where
  "whole_table vs =
     (if vs = [] \<or> vs ! 0 = [] then \<lparr>r_start = 1, r_end = 0, c_start = 1, c_end = 0\<rparr>
      else \<lparr>r_start = 0, r_end = length vs - 1, c_start = 0, c_end = length (vs ! 0) - 1\<rparr>)"

definition rect_text :: "string \<Rightarrow> rect \<Rightarrow> string" where
  "rect_text intro r = intro @ dec_string (r_start r) @ ''..'' @ dec_string (r_end r) @ '', cols '' @
     dec_string (c_start r) @ ''..'' @ dec_string (c_end r)"

definition validate_rect :: "'d grid \<Rightarrow> rect \<Rightarrow> status" where
  "validate_rect vs r =
     (if vs = [] \<or> vs ! 0 = [] then failure OutOfRange ''edit: table has no cells''
      else if r_start r > r_end r \<or> c_start r > c_end r then
        failure InvalidArgument (rect_text ''edit: rect start exceeds end (rows '' r @ '')'')
      else if r_end r \<ge> length vs \<or> c_end r \<ge> length (vs ! 0) then
        failure OutOfRange (rect_text ''edit: rect extends past table (rect rows '' r @ ''; table is '' @
          dec_string (length vs) @ ''x'' @ dec_string (length (vs ! 0)) @ '')'')
      else ok)"

text \<open>The rows of the rectangle are long enough.\<close>

definition rows_reach :: "'d grid \<Rightarrow> rect \<Rightarrow> bool" where
  "rows_reach vs r = list_all (\<lambda>i. c_end r < length (vs ! i)) [r_start r ..< r_end r + 1]"

definition inside :: "rect \<Rightarrow> nat \<Rightarrow> nat \<Rightarrow> bool" where
  "inside r i j \<longleftrightarrow> r_start r \<le> i \<and> i \<le> r_end r \<and> c_start r \<le> j \<and> j \<le> c_end r"

text \<open>The two nested loops over the rectangle: the cell at \<open>i\<close>, \<open>j\<close> becomes \<open>f i j\<close> of its value.\<close>

definition update_rect :: "rect \<Rightarrow> (nat \<Rightarrow> nat \<Rightarrow> 'd \<Rightarrow> 'd) \<Rightarrow> 'd grid \<Rightarrow> 'd grid" where
  "update_rect r f vs =
     map (\<lambda>i. map (\<lambda>j. if inside r i j then f i j (vs ! i ! j) else vs ! i ! j) [0 ..< length (vs ! i)]) [0 ..< length vs]"

definition over_rect :: "rect \<Rightarrow> ('d grid \<Rightarrow> nat \<Rightarrow> nat \<Rightarrow> 'd \<Rightarrow> 'd) \<Rightarrow> 'd grid \<Rightarrow> (status \<times> 'd grid) option" where
  "over_rect r f vs =
     (case validate_rect vs r of
        Inl e \<Rightarrow> Some (Inl e, vs)
      | Inr _ \<Rightarrow> if rows_reach vs r then Some (ok, update_rect r (f vs) vs) else None)"

section \<open>Operations\<close>

definition set_cells :: "'d \<Rightarrow> rect \<Rightarrow> 'd grid \<Rightarrow> (status \<times> 'd grid) option" where
  "set_cells value r = over_rect r (\<lambda>vs i j v. value)"

definition add_cells :: "'d doubles \<Rightarrow> 'd \<Rightarrow> rect \<Rightarrow> 'd grid \<Rightarrow> (status \<times> 'd grid) option" where
  "add_cells D delta r = over_rect r (\<lambda>vs i j v. d_add D v delta)"

definition multiply_cells :: "'d doubles \<Rightarrow> 'd \<Rightarrow> rect \<Rightarrow> 'd grid \<Rightarrow> (status \<times> 'd grid) option" where
  "multiply_cells D factor r = over_rect r (\<lambda>vs i j v. d_mul D v factor)"

definition percent_scale_cells :: "'d doubles \<Rightarrow> 'd \<Rightarrow> rect \<Rightarrow> 'd grid \<Rightarrow> (status \<times> 'd grid) option" where
  "percent_scale_cells D pct r = multiply_cells D (d_add D (d_of_int D 1) (d_div D pct (d_of_int D 100))) r"

text \<open>
  One round of smoothing: the mean of the cell and its neighbours inside the rectangle, read from the
  grid as it was before the round; the sum runs row by row from zero.
\<close>

definition neighbours :: "nat \<Rightarrow> nat \<Rightarrow> nat list" where
  "neighbours i n = [(if i = 0 then 0 else i - 1) ..< (if i + 1 < n then i + 1 else i) + 1]"

definition smoothed :: "'d doubles \<Rightarrow> rect \<Rightarrow> 'd grid \<Rightarrow> nat \<Rightarrow> nat \<Rightarrow> 'd" where
  "smoothed D r vs row col =
     (let cells = concat (map (\<lambda>ii. map (\<lambda>jj. vs ! (r_start r + ii) ! (c_start r + jj))
           (neighbours (col - c_start r) (rect_cols r))) (neighbours (row - r_start r) (rect_rows r)))
      in d_div D (foldl (d_add D) (d_of_int D 0) cells) (d_of_int D (int (length cells))))"

definition smooth_round :: "'d doubles \<Rightarrow> rect \<Rightarrow> 'd grid \<Rightarrow> 'd grid" where
  "smooth_round D r vs = update_rect r (\<lambda>i j v. smoothed D r vs i j) vs"

definition smooth_cells :: "'d doubles \<Rightarrow> int \<Rightarrow> rect \<Rightarrow> 'd grid \<Rightarrow> (status \<times> 'd grid) option" where
  "smooth_cells D iterations r vs =
     (case validate_rect vs r of
        Inl e \<Rightarrow> Some (Inl e, vs)
      | Inr _ \<Rightarrow>
          if iterations \<le> 0 then Some (ok, vs)
          else if rows_reach vs r then Some (ok, (smooth_round D r ^^ nat iterations) vs) else None)"

definition interpolated :: "'d doubles \<Rightarrow> rect \<Rightarrow> 'd grid \<Rightarrow> nat \<Rightarrow> nat \<Rightarrow> 'd" where
  "interpolated D r vs row col =
     (let v00 = vs ! r_start r ! c_start r; v01 = vs ! r_start r ! c_end r;
          v10 = vs ! r_end r ! c_start r; v11 = vs ! r_end r ! c_end r;
          share = (\<lambda>i n. if n > 1 then d_div D (d_of_int D (int i)) (d_of_int D (int (n - 1))) else d_of_int D 0);
          ty = share (row - r_start r) (rect_rows r);
          tx = share (col - c_start r) (rect_cols r);
          top = d_add D v00 (d_mul D tx (d_sub D v01 v00));
          bottom = d_add D v10 (d_mul D tx (d_sub D v11 v10))
      in d_add D top (d_mul D ty (d_sub D bottom top)))"

definition interpolate_cells :: "'d doubles \<Rightarrow> rect \<Rightarrow> 'd grid \<Rightarrow> (status \<times> 'd grid) option" where
  "interpolate_cells D r vs =
     (if validate_rect vs r = ok \<and> rect_rows r = 1 \<and> rect_cols r = 1 then Some (ok, vs)
      else over_rect r (\<lambda>vs i j v. interpolated D r vs i j) vs)"

section \<open>Snapshots\<close>

record 'd snapshot =
  snap_rect :: rect
  snap_values :: "'d grid"

definition take_snapshot :: "'d grid \<Rightarrow> rect \<Rightarrow> 'd snapshot result option" where
  "take_snapshot vs r =
     (case validate_rect vs r of
        Inl e \<Rightarrow> Some (Inl e)
      | Inr _ \<Rightarrow>
          if rows_reach vs r then
            Some (Inr \<lparr>snap_rect = r, snap_values =
              map (\<lambda>i. map (\<lambda>j. vs ! (r_start r + i) ! (c_start r + j)) [0 ..< rect_cols r]) [0 ..< rect_rows r]\<rparr>)
          else None)"

text \<open>The rows of the snapshot one after the other, each checked before it is copied.\<close>

fun restore_rows :: "rect \<Rightarrow> nat \<Rightarrow> 'd list list \<Rightarrow> 'd grid \<Rightarrow> (status \<times> 'd grid) option" where
  "restore_rows r i [] vs = Some (ok, vs)"
| "restore_rows r i (row # rows) vs =
     (if length row \<noteq> rect_cols r then
        Some (failure InvalidArgument (''edit: snapshot row '' @ dec_string i @ '' column count '' @ dec_string (length row) @
          '' does not match its rect ('' @ dec_string (rect_cols r) @ '' cols expected)''), vs)
      else if length (vs ! (r_start r + i)) \<le> c_end r then None
      else restore_rows r (i + 1) rows
        (vs[r_start r + i := take (c_start r) (vs ! (r_start r + i)) @ row @ drop (c_end r + 1) (vs ! (r_start r + i))]))"

definition restore :: "'d snapshot \<Rightarrow> 'd grid \<Rightarrow> (status \<times> 'd grid) option" where
  "restore s vs =
     (case validate_rect vs (snap_rect s) of
        Inl e \<Rightarrow> Some (Inl e, vs)
      | Inr _ \<Rightarrow>
          if length (snap_values s) \<noteq> rect_rows (snap_rect s) then
            Some (failure InvalidArgument (''edit: snapshot row count '' @ dec_string (length (snap_values s)) @
              '' does not match its rect ('' @ dec_string (rect_rows (snap_rect s)) @ '' rows expected)''), vs)
          else restore_rows (snap_rect s) 0 (snap_values s) vs)"


section \<open>What an operation changes\<close>

text \<open>
  The contract every caller of an operation relies on: on a rectangular grid with the rectangle inside it
  succeeds, and changes no cell outside the rectangle; otherwise it changes nothing.
\<close>

locale cell_edit =
  fixes edit_op :: "rect \<Rightarrow> 'd grid \<Rightarrow> (status \<times> 'd grid) option"
  assumes refused: "validate_rect vs r = Inl e \<Longrightarrow> edit_op r vs = Some (Inl e, vs)"
    and performed: "is_grid rows cols vs \<Longrightarrow> validate_rect vs r = ok \<Longrightarrow>
      \<exists>ws. edit_op r vs = Some (ok, ws) \<and> is_grid rows cols ws \<and>
        (\<forall>i j. i < rows \<longrightarrow> j < cols \<longrightarrow> \<not> inside r i j \<longrightarrow> ws ! i ! j = vs ! i ! j)"

lemma validate_ok_iff:
  assumes "is_grid rows cols vs" "0 < rows" "0 < cols"
  shows "validate_rect vs r = ok \<longleftrightarrow> r_start r \<le> r_end r \<and> c_start r \<le> c_end r \<and> r_end r < rows \<and> c_end r < cols"
proof -
  have "length vs = rows" "vs ! 0 \<in> set vs" "length (vs ! 0) = cols" using assms by (auto simp: is_grid_def)
  with assms(2,3) show ?thesis by (auto simp: validate_rect_def)
qed

lemma validate_okD:
  assumes "validate_rect vs r = ok" "is_grid rows cols vs"
  shows "r_start r \<le> r_end r" "c_start r \<le> c_end r" "r_end r < rows" "c_end r < cols" "0 < rows" "0 < cols"
proof -
  have "vs \<noteq> []" "vs ! 0 \<noteq> []" using assms(1) by (auto simp: validate_rect_def split: if_splits)
  then have p: "0 < rows" "0 < cols" using assms(2) by (auto simp: is_grid_def dest: nth_mem [of 0 vs])
  then show "0 < rows" "0 < cols" by auto
  show "r_start r \<le> r_end r" "c_start r \<le> c_end r" "r_end r < rows" "c_end r < cols"
    using validate_ok_iff [OF assms(2) p] assms(1) by auto
qed

lemma rows_reach_ok: "validate_rect vs r = ok \<Longrightarrow> is_grid rows cols vs \<Longrightarrow> rows_reach vs r"
  using validate_okD [of vs r rows cols] by (auto simp: rows_reach_def list_all_iff is_grid_def)

lemma update_rect_nth:
  "is_grid rows cols vs \<Longrightarrow> i < rows \<Longrightarrow> j < cols \<Longrightarrow>
    update_rect r f vs ! i ! j = (if inside r i j then f i j (vs ! i ! j) else vs ! i ! j)"
  by (simp add: update_rect_def is_grid_def)

lemma update_rect_grid: "is_grid rows cols vs \<Longrightarrow> is_grid rows cols (update_rect r f vs)"
  by (auto simp: update_rect_def is_grid_def)

lemma over_rect_edit: "cell_edit (\<lambda>r. over_rect r (f r))"
  by unfold_locales
    (auto simp: over_rect_def rows_reach_ok update_rect_grid update_rect_nth intro: update_rect_grid split: sum.splits)

interpretation set_edit: cell_edit "set_cells value"
  unfolding set_cells_def by (rule over_rect_edit)

interpretation add_edit: cell_edit "add_cells D delta"
  unfolding add_cells_def by (rule over_rect_edit)

interpretation multiply_edit: cell_edit "multiply_cells D x"
  unfolding multiply_cells_def by (rule over_rect_edit)

interpretation percent_edit: cell_edit "percent_scale_cells D pct"
  unfolding percent_scale_cells_def multiply_cells_def by (rule over_rect_edit)

lemma smooth_one:
  "is_grid rows cols ws \<Longrightarrow> is_grid rows cols (smooth_round D r ws)"
  "is_grid rows cols ws \<Longrightarrow> i < rows \<Longrightarrow> j < cols \<Longrightarrow> \<not> inside r i j \<Longrightarrow> smooth_round D r ws ! i ! j = ws ! i ! j"
  by (simp_all add: smooth_round_def update_rect_grid update_rect_nth)

lemma smooth_rounds:
  "is_grid rows cols vs \<Longrightarrow> is_grid rows cols ((smooth_round D r ^^ n) vs) \<and>
    (\<forall>i j. i < rows \<longrightarrow> j < cols \<longrightarrow> \<not> inside r i j \<longrightarrow> (smooth_round D r ^^ n) vs ! i ! j = vs ! i ! j)"
  by (induction n) (auto simp: smooth_one)

interpretation smooth_edit: cell_edit "smooth_cells D iterations"
  by unfold_locales (auto simp: smooth_cells_def rows_reach_ok smooth_rounds)

interpretation interpolate_edit: cell_edit "interpolate_cells (D :: 'd doubles)"
proof
  fix vs :: "'d grid" and r e
  assume "validate_rect vs r = Inl e"
  then show "interpolate_cells D r vs = Some (Inl e, vs)" by (simp add: interpolate_cells_def over_rect_def)
next
  fix vs :: "'d grid" and r rows cols
  assume g: "is_grid rows cols vs" and ok: "validate_rect vs r = ok"
  show "\<exists>ws. interpolate_cells D r vs = Some (ok, ws) \<and> is_grid rows cols ws \<and>
      (\<forall>i j. i < rows \<longrightarrow> j < cols \<longrightarrow> \<not> inside r i j \<longrightarrow> ws ! i ! j = vs ! i ! j)"
    using g ok cell_edit.performed [OF over_rect_edit g ok, of "\<lambda>r vs i j v. interpolated D r vs i j"] by (auto simp: interpolate_cells_def)
qed

section \<open>Restoring a snapshot\<close>

lemma restore_rows_nth:
  assumes "is_grid rows cols vs" "r_start r + k + length ws \<le> rows" "c_start r \<le> c_end r" "c_end r < cols"
    and "\<forall>row \<in> set ws. length row = rect_cols r"
  shows "\<exists>us. restore_rows r k ws vs = Some (ok, us) \<and> is_grid rows cols us \<and>
    (\<forall>i j. i < rows \<longrightarrow> j < cols \<longrightarrow> us ! i ! j =
      (if r_start r + k \<le> i \<and> i < r_start r + k + length ws \<and> c_start r \<le> j \<and> j \<le> c_end r
       then ws ! (i - r_start r - k) ! (j - c_start r) else vs ! i ! j))"
  using assms(1,2,5)
proof (induction ws arbitrary: k vs)
  case (Cons w ws)
  let ?i = "r_start r + k"
  let ?row = "take (c_start r) (vs ! ?i) @ w @ drop (c_end r + 1) (vs ! ?i)"
  let ?vs = "vs[?i := ?row]"
  have i: "?i < rows" "length vs = rows" and w: "length w = c_end r - c_start r + 1" and vi: "length (vs ! ?i) = cols"
    using Cons.prems assms(3) by (auto simp: is_grid_def rect_cols_def)
  have row: "length ?row = cols" "j < cols \<Longrightarrow> ?row ! j = (if c_start r \<le> j \<and> j \<le> c_end r then w ! (j - c_start r) else vs ! ?i ! j)" for j
    using w vi assms(3,4) by (auto simp: nth_append)
  have g: "is_grid rows cols ?vs"
    using Cons.prems(1) row(1) i by (auto simp: is_grid_def dest!: set_update_subset_insert [THEN subsetD])
  have "r_start r + Suc k + length ws \<le> rows" using Cons.prems(2) by simp
  from Cons.IH [OF g this] Cons.prems(3) obtain us where us: "restore_rows r (Suc k) ws ?vs = Some (ok, us)" "is_grid rows cols us"
    "\<forall>a j. a < rows \<longrightarrow> j < cols \<longrightarrow> us ! a ! j =
      (if r_start r + Suc k \<le> a \<and> a < r_start r + Suc k + length ws \<and> c_start r \<le> j \<and> j \<le> c_end r
       then ws ! (a - r_start r - Suc k) ! (j - c_start r) else ?vs ! a ! j)" by auto
  have "restore_rows r k (w # ws) vs = Some (ok, us)"
    using us(1) Cons.prems(3) vi assms(4) by simp
  moreover have "us ! a ! j =
      (if ?i \<le> a \<and> a < ?i + length (w # ws) \<and> c_start r \<le> j \<and> j \<le> c_end r
       then (w # ws) ! (a - r_start r - k) ! (j - c_start r) else vs ! a ! j)" if "a < rows" "j < cols" for a j
  proof -
    consider "a < ?i" | "a = ?i" | "a > ?i" by linarith
    then show ?thesis
    proof cases
      case 2
      then show ?thesis using us(3) that i row(2) [OF that(2)] by simp
    next
      case 3
      then have "a - r_start r - k = Suc (a - r_start r - Suc k)" by simp
      with 3 show ?thesis using us(3) that by simp
    qed (use us(3) that in simp)
  qed
  ultimately show ?case using us(2) by blast
qed auto


text \<open>The grid \<open>ws\<close> with the rectangle of \<open>vs\<close>.\<close>

definition patch_rect :: "rect \<Rightarrow> 'd grid \<Rightarrow> 'd grid \<Rightarrow> 'd grid" where
  "patch_rect r vs ws = update_rect r (\<lambda>i j v. vs ! i ! j) ws"

lemma grid_eqI:
  assumes "is_grid rows cols vs" "is_grid rows cols ws" "\<And>i j. i < rows \<Longrightarrow> j < cols \<Longrightarrow> vs ! i ! j = ws ! i ! j"
  shows "vs = ws"
  by (intro nth_equalityI) (use assms in \<open>auto simp: is_grid_def\<close>)

lemma validate_rect_grid:
  "is_grid rows cols vs \<Longrightarrow> is_grid rows cols ws \<Longrightarrow> validate_rect ws r = validate_rect vs r"
proof -
  assume g: "is_grid rows cols vs" "is_grid rows cols ws"
  then have l: "length vs = rows" "length ws = rows" by (auto simp: is_grid_def)
  then have "rows = 0 \<or> length (ws ! 0) = length (vs ! 0)" using g by (cases rows) (auto simp: is_grid_def)
  then show ?thesis using l by (auto simp: validate_rect_def)
qed

lemma snapshot_restore:
  assumes "is_grid rows cols vs" "is_grid rows cols ws" "validate_rect vs r = ok"
  shows "\<exists>s. take_snapshot vs r = Some (Inr s) \<and> restore s ws = Some (ok, patch_rect r vs ws)"
proof -
  note v = validate_okD [OF assms(3,1)]
  let ?vals = "map (\<lambda>i. map (\<lambda>j. vs ! (r_start r + i) ! (c_start r + j)) [0 ..< rect_cols r]) [0 ..< rect_rows r]"
  have len: "length ?vals = rect_rows r" "r_start r + rect_rows r = r_end r + 1" "c_start r + rect_cols r = c_end r + 1"
    using v by (auto simp: rect_rows_def rect_cols_def)
  have fit: "r_start r + 0 + length ?vals \<le> rows" using v len by simp
  obtain us where us: "restore_rows r 0 ?vals ws = Some (ok, us)" "is_grid rows cols us"
    "\<forall>i j. i < rows \<longrightarrow> j < cols \<longrightarrow> us ! i ! j =
      (if r_start r + 0 \<le> i \<and> i < r_start r + 0 + length ?vals \<and> c_start r \<le> j \<and> j \<le> c_end r
       then ?vals ! (i - r_start r - 0) ! (j - c_start r) else ws ! i ! j)"
    using restore_rows_nth [OF assms(2) fit v(2,4)] by auto
  have "us = patch_rect r vs ws"
  proof (rule grid_eqI [OF us(2)])
    show "is_grid rows cols (patch_rect r vs ws)" unfolding patch_rect_def by (rule update_rect_grid [OF assms(2)])
    fix i j assume ij: "i < rows" "j < cols"
    show "us ! i ! j = patch_rect r vs ws ! i ! j"
    proof (cases "inside r i j")
      case True
      then have "r_start r \<le> i" "i - r_start r < rect_rows r" "c_start r \<le> j" "j \<le> c_end r" "j - c_start r < rect_cols r"
        "i < Suc (r_end r)"
        using len by (auto simp: inside_def)
      then show ?thesis
        using us(3) ij True len by (simp add: patch_rect_def update_rect_nth [OF assms(2)])
    next
      case False
      then have "us ! i ! j = ws ! i ! j" using us(3) ij len by (auto simp: inside_def)
      then show ?thesis using False ij by (simp add: patch_rect_def update_rect_nth [OF assms(2)])
    qed
  qed
  moreover have "validate_rect ws r = ok" using validate_rect_grid [OF assms(1,2)] assms(3) by simp
  ultimately show ?thesis
    using us(1) assms(3) rows_reach_ok [OF assms(3,1)] len(1) by (simp add: take_snapshot_def restore_def)
qed

context cell_edit
begin

lemma undone:
  assumes "is_grid rows cols vs" "edit_op r vs = Some (ok, ws)"
  shows "is_grid rows cols ws \<and> (\<exists>s t. take_snapshot vs r = Some (Inr s) \<and> take_snapshot ws r = Some (Inr t) \<and>
    restore s ws = Some (ok, vs) \<and> restore t vs = Some (ok, ws))"
proof -
  have val: "validate_rect vs r = ok"
    using assms(2) refused [of vs r] by (cases "validate_rect vs r") auto
  have ws: "is_grid rows cols ws" and out: "\<And>i j. i < rows \<Longrightarrow> j < cols \<Longrightarrow> \<not> inside r i j \<Longrightarrow> ws ! i ! j = vs ! i ! j"
    using performed [OF assms(1) val] assms(2) by auto
  have "patch_rect r vs ws = vs"
    using assms(1) ws out
    by (intro grid_eqI [of rows cols]) (auto simp: patch_rect_def update_rect_nth update_rect_grid)
  moreover have "patch_rect r ws vs = ws"
    using assms(1) ws out
    by (intro grid_eqI [of rows cols]) (auto simp: patch_rect_def update_rect_nth update_rect_grid)
  ultimately show ?thesis
    using snapshot_restore [OF assms(1) ws val] snapshot_restore [OF ws assms(1), of r] val
      validate_rect_grid [OF assms(1) ws] ws by auto
qed

end

end
