(* ===== verification/Edit_History.thy ===== *)
theory Edit_History
  imports Edit_Ops
begin

text \<open>
  The edit history (src/edit/src/edit.cpp) and the editor actions that feed and replay it
  (src/ui/src/actions.hpp, src/ui/src/actions.cpp, the revert buttons of the two workflow modals): the
  record of edits with its cursor, an edit of the selection or of a whole table, undo and redo. The
  state is what these actions read and change of the application; the audit entries and the toasts they
  also emit are left out. \<open>None\<close> stands for undefined behaviour of the grid or value code.
\<close>

section \<open>The history\<close>

record byte_change =
  bc_address :: nat
  bc_before :: u8
  bc_after :: u8

datatype 'd edit_payload =
  TableEdit (te_table: string) (te_before: "'d snapshot") (te_after: "'d snapshot")
| ByteEdit (be_changes: "byte_change list")

record 'd edit =
  ed_description :: string
  ed_tag :: string
  ed_payload :: "'d edit_payload"

record 'd history =
  h_edits :: "'d edit list"
  h_cursor :: nat

definition history_record :: "'d edit \<Rightarrow> 'd history \<Rightarrow> 'd history" where
  "history_record e h =
     (let es = (if h_cursor h < length (h_edits h) then take (h_cursor h) (h_edits h) else h_edits h) @ [e]
      in \<lparr>h_edits = es, h_cursor = length es\<rparr>)"

definition history_undo :: "'d history \<Rightarrow> 'd edit option \<times> 'd history" where
  "history_undo h =
     (if h_cursor h > 0 then (Some (h_edits h ! (h_cursor h - 1)), h\<lparr>h_cursor := h_cursor h - 1\<rparr>) else (None, h))"

definition history_redo :: "'d history \<Rightarrow> 'd edit option \<times> 'd history" where
  "history_redo h =
     (if h_cursor h < length (h_edits h) then (Some (h_edits h ! h_cursor h), h\<lparr>h_cursor := h_cursor h + 1\<rparr>) else (None, h))"

text \<open>The loop of \<open>undo_while_tag\<close> over the cursor: the edits in undo order and the new cursor.\<close>

fun undo_tagged :: "string \<Rightarrow> 'd edit list \<Rightarrow> nat \<Rightarrow> 'd edit list \<times> nat" where
  "undo_tagged tag es 0 = ([], 0)"
| "undo_tagged tag es (Suc n) =
     (if ed_tag (es ! n) = tag then (case undo_tagged tag es n of (out, c) \<Rightarrow> (es ! n # out, c)) else ([], Suc n))"

definition undo_while_tag :: "string \<Rightarrow> 'd history \<Rightarrow> 'd edit list \<times> 'd history" where
  "undo_while_tag tag h =
     (if tag = [] then ([], h)
      else (case undo_tagged tag (h_edits h) (h_cursor h) of (out, c) \<Rightarrow> (out, h\<lparr>h_cursor := c\<rparr>)))"

definition history_clear :: "'d history \<Rightarrow> 'd history" where
  "history_clear h = \<lparr>h_edits = [], h_cursor = 0\<rparr>"

definition history_load :: "'d edit list \<Rightarrow> nat \<Rightarrow> 'd history" where
  "history_load es c = \<lparr>h_edits = es, h_cursor = (if c > length es then length es else c)\<rparr>"

definition table_edit :: "string \<Rightarrow> 'd snapshot \<Rightarrow> 'd snapshot \<Rightarrow> string \<Rightarrow> 'd edit" where
  "table_edit i before after desc = \<lparr>ed_description = desc, ed_tag = [], ed_payload = TableEdit i before after\<rparr>"

definition byte_edit :: "byte_change list \<Rightarrow> string \<Rightarrow> 'd edit" where
  "byte_edit changes desc = \<lparr>ed_description = desc, ed_tag = [], ed_payload = ByteEdit changes\<rparr>"

section \<open>The editor\<close>

text \<open>
  The state of an open project the actions work on: the bytes of the active image and whether it may be
  edited, its history, the selected table, its data as shown and the selected rectangle.
\<close>

record 'd editor =
  ed_rom :: bytes
  ed_writable :: bool
  ed_history :: "'d history"
  ed_selected :: string
  ed_current :: "'d table_data option"
  ed_selection :: "rect option"
  ed_dirty :: bool
  ed_status :: string

fun hex_plain :: "nat \<Rightarrow> string" where
  "hex_plain n = (if n < 16 then [hex_digit_upper n] else hex_plain (n div 16) @ [hex_digit_upper (n mod 16)])"

declare hex_plain.simps [simp del]

text \<open>The byte loop of a history step: the values of one side, written in the order of the changes.\<close>

fun replay_bytes :: "bool \<Rightarrow> byte_change list \<Rightarrow> bytes \<Rightarrow> (unit + string) \<times> bytes" where
  "replay_bytes forward [] rom = (Inl (), rom)"
| "replay_bytes forward (c # cs) rom =
     (case write_u8 (bc_address c) (if forward then bc_after c else bc_before c) rom of
        (Inl e, rom') \<Rightarrow> (Inr (''history byte writeback @0x'' @ hex_plain (bc_address c) @ '': '' @ error_to_string e), rom')
      | (Inr _, rom') \<Rightarrow> replay_bytes forward cs rom')"

definition rollback_cursor :: "bool \<Rightarrow> 'd editor \<Rightarrow> 'd editor" where
  "rollback_cursor forward s =
     s\<lparr>ed_history := snd ((if forward then history_undo else history_redo) (ed_history s))\<rparr>"

definition apply_history_step :: "'d doubles \<Rightarrow> 'd cal_definition \<Rightarrow> 'd edit \<Rightarrow> bool \<Rightarrow> 'd editor \<Rightarrow> 'd editor option" where
  "apply_history_step D def e forward s =
     (if \<not> ed_writable s then Some (rollback_cursor forward (s\<lparr>ed_status := ''history: active ROM is read-only''\<rparr>))
      else (case ed_payload e of
        TableEdit i before after \<Rightarrow>
          (case find_table def i of
             None \<Rightarrow> Some (rollback_cursor forward (s\<lparr>ed_status := ''history: table not in pack: '' @ i\<rparr>))
           | Some t \<Rightarrow>
          (case read_table_values D def (ed_rom s) t of
             Inl err \<Rightarrow> Some (rollback_cursor forward (s\<lparr>ed_status := ''history re-read: '' @ error_to_string err\<rparr>))
           | Inr td \<Rightarrow>
          (case restore (if forward then after else before) (td_values td) of
             None \<Rightarrow> None
           | Some (Inl err, _) \<Rightarrow>
               Some (rollback_cursor forward (s\<lparr>ed_status := ''history restore: '' @ error_to_string err\<rparr>))
           | Some (Inr _, vs) \<Rightarrow>
               (let td' = td\<lparr>td_values := vs\<rparr> in
                case write_table_values D def t td' (ed_rom s) of
                  None \<Rightarrow> None
                | Some (Inl err, rom') \<Rightarrow>
                    Some (rollback_cursor forward (s\<lparr>ed_rom := rom', ed_status := ''history writeback: '' @ error_to_string err\<rparr>))
                | Some (Inr _, rom') \<Rightarrow>
                    Some (s\<lparr>ed_rom := rom', ed_current := (if i = ed_selected s then Some td' else ed_current s),
                      ed_status := [], ed_dirty := True\<rparr>)))))
      | ByteEdit changes \<Rightarrow>
          (case replay_bytes forward changes (ed_rom s) of
             (Inr m, rom') \<Rightarrow> Some (rollback_cursor forward (s\<lparr>ed_rom := rom', ed_status := m\<rparr>))
           | (Inl _, rom') \<Rightarrow> Some (s\<lparr>ed_rom := rom', ed_status := [], ed_dirty := True\<rparr>))))"

definition do_undo :: "'d doubles \<Rightarrow> 'd cal_definition \<Rightarrow> 'd editor \<Rightarrow> 'd editor option" where
  "do_undo D def s =
     (if \<not> ed_writable s then Some (s\<lparr>ed_status := ''Undo: this ROM is read-only.''\<rparr>)
      else (case history_undo (ed_history s) of
        (None, h) \<Rightarrow> Some (s\<lparr>ed_history := h\<rparr>)
      | (Some e, h) \<Rightarrow> apply_history_step D def e False (s\<lparr>ed_history := h\<rparr>)))"

definition do_redo :: "'d doubles \<Rightarrow> 'd cal_definition \<Rightarrow> 'd editor \<Rightarrow> 'd editor option" where
  "do_redo D def s =
     (if \<not> ed_writable s then Some (s\<lparr>ed_status := ''Redo: this ROM is read-only.''\<rparr>)
      else (case history_redo (ed_history s) of
        (None, h) \<Rightarrow> Some (s\<lparr>ed_history := h\<rparr>)
      | (Some e, h) \<Rightarrow> apply_history_step D def e True (s\<lparr>ed_history := h\<rparr>)))"

section \<open>Editing tables\<close>

definition read_only_text :: string where
  "read_only_text = '': this ROM is read-only (switch View '' @ [CHR 0xE2, CHR 0x86, CHR 0x92] @ '' Active ROM to an editable slot).''"

text \<open>
  An edit of the selection. The data shown are edited in place; when a later step fails they are put
  back from the snapshot.
\<close>

definition apply_op ::
  "'d doubles \<Rightarrow> 'd cal_definition \<Rightarrow> string \<Rightarrow> (rect \<Rightarrow> 'd grid \<Rightarrow> (status \<times> 'd grid) option) \<Rightarrow> 'd editor \<Rightarrow> 'd editor option" where
  "apply_op D def label edit_op s =
     (case (ed_current s, ed_selection s) of
        (Some td, Some r) \<Rightarrow>
          if \<not> ed_writable s then Some (s\<lparr>ed_status := label @ read_only_text\<rparr>)
          else (case take_snapshot (td_values td) r of
            None \<Rightarrow> None
          | Some (Inl err) \<Rightarrow> Some (s\<lparr>ed_status := label @ '': snapshot: '' @ error_to_string err\<rparr>)
          | Some (Inr before) \<Rightarrow>
          (case edit_op r (td_values td) of
            None \<Rightarrow> None
          | Some (Inl err, vs) \<Rightarrow>
              Some (s\<lparr>ed_current := Some (td\<lparr>td_values := vs\<rparr>), ed_status := label @ '': '' @ error_to_string err\<rparr>)
          | Some (Inr _, vs) \<Rightarrow>
              (let td' = td\<lparr>td_values := vs\<rparr>;
                   undo_with = (\<lambda>s msg. map_option (\<lambda>us. s\<lparr>ed_current := Some (td\<lparr>td_values := snd us\<rparr>), ed_status := label @ msg\<rparr>)
                     (restore before vs))
               in case take_snapshot vs r of
                    None \<Rightarrow> None
                  | Some (Inl err) \<Rightarrow> undo_with s ('': snapshot: '' @ error_to_string err)
                  | Some (Inr after) \<Rightarrow>
                  (case find_table def (ed_selected s) of
                    None \<Rightarrow> undo_with s '': table missing from pack''
                  | Some t \<Rightarrow>
                  (case write_table_values D def t td' (ed_rom s) of
                    None \<Rightarrow> None
                  | Some (Inl err, rom') \<Rightarrow> undo_with (s\<lparr>ed_rom := rom'\<rparr>) ('': writeback: '' @ error_to_string err)
                  | Some (Inr _, rom') \<Rightarrow>
                      Some (s\<lparr>ed_rom := rom', ed_current := Some td',
                        ed_history := history_record (table_edit (ed_selected s) before after label) (ed_history s),
                        ed_status := [], ed_dirty := True\<rparr>))))))
      | _ \<Rightarrow> Some s)"

text \<open>An edit of a whole table by name, for the workflow modals, with the tag of the workflow.\<close>

definition apply_op_table ::
  "'d doubles \<Rightarrow> 'd cal_definition \<Rightarrow> string \<Rightarrow> string \<Rightarrow> string \<Rightarrow> (rect \<Rightarrow> 'd grid \<Rightarrow> (status \<times> 'd grid) option) \<Rightarrow>
    'd editor \<Rightarrow> 'd editor option" where
  "apply_op_table D def label tag i edit_op s =
     (if \<not> ed_writable s then Some (s\<lparr>ed_status := label @ read_only_text\<rparr>)
      else (case find_table def i of
        None \<Rightarrow> Some (s\<lparr>ed_status := label @ '': table '' @ in_quotes i @ '' not in pack''\<rparr>)
      | Some t \<Rightarrow>
      (case read_table_values D def (ed_rom s) t of
        Inl err \<Rightarrow> Some (s\<lparr>ed_status := label @ '': read: '' @ error_to_string err\<rparr>)
      | Inr td \<Rightarrow>
          (let r = whole_table (td_values td) in
           case take_snapshot (td_values td) r of
             None \<Rightarrow> None
           | Some (Inl err) \<Rightarrow> Some (s\<lparr>ed_status := label @ '': snapshot: '' @ error_to_string err\<rparr>)
           | Some (Inr before) \<Rightarrow>
           (case edit_op r (td_values td) of
             None \<Rightarrow> None
           | Some (Inl err, _) \<Rightarrow> Some (s\<lparr>ed_status := label @ '': '' @ error_to_string err\<rparr>)
           | Some (Inr _, vs) \<Rightarrow>
           (case take_snapshot vs r of
             None \<Rightarrow> None
           | Some (Inl err) \<Rightarrow> Some (s\<lparr>ed_status := label @ '': snapshot: '' @ error_to_string err\<rparr>)
           | Some (Inr after) \<Rightarrow>
           (case write_table_values D def t (td\<lparr>td_values := vs\<rparr>) (ed_rom s) of
             None \<Rightarrow> None
           | Some (Inl err, rom') \<Rightarrow> Some (s\<lparr>ed_rom := rom', ed_status := label @ '': writeback: '' @ error_to_string err\<rparr>)
           | Some (Inr _, rom') \<Rightarrow>
               Some (s\<lparr>ed_rom := rom',
                 ed_history := history_record ((table_edit i before after label)\<lparr>ed_tag := tag\<rparr>) (ed_history s),
                 ed_status := [], ed_dirty := True\<rparr>))))))))"

section \<open>Reverting a workflow\<close>

text \<open>The loop of \<open>revert_fa24_swap\<close>: a step that fails is skipped, and so is a byte edit.\<close>

fun restore_all :: "'d doubles \<Rightarrow> 'd cal_definition \<Rightarrow> 'd edit list \<Rightarrow> bytes \<Rightarrow> bytes option" where
  "restore_all D def [] rom = Some rom"
| "restore_all D def (e # es) rom =
     (case ed_payload e of
        ByteEdit _ \<Rightarrow> restore_all D def es rom
      | TableEdit i before after \<Rightarrow>
          (case find_table def i of
             None \<Rightarrow> restore_all D def es rom
           | Some t \<Rightarrow>
          (case read_table_values D def rom t of
             Inl _ \<Rightarrow> restore_all D def es rom
           | Inr td \<Rightarrow>
          (case restore before (td_values td) of
             None \<Rightarrow> None
           | Some (Inl _, _) \<Rightarrow> restore_all D def es rom
           | Some (Inr _, vs) \<Rightarrow>
          (case write_table_values D def t (td\<lparr>td_values := vs\<rparr>) rom of
             None \<Rightarrow> None
           | Some (_, rom') \<Rightarrow> restore_all D def es rom')))))"

definition revert_fa24_swap :: "'d doubles \<Rightarrow> 'd cal_definition \<Rightarrow> 'd editor \<Rightarrow> 'd editor option" where
  "revert_fa24_swap D def s =
     (case undo_while_tag ''fa24_swap'' (ed_history s) of (reverted, h) \<Rightarrow>
        let s1 = s\<lparr>ed_history := h\<rparr> in
        if reverted = [] then Some s1
        else if \<not> ed_writable s then Some s1
        else map_option (\<lambda>rom'. s1\<lparr>ed_rom := rom', ed_dirty := True\<rparr>) (restore_all D def reverted (ed_rom s)))"

definition revert_tgv_egr_delete :: "'d editor \<Rightarrow> 'd editor" where
  "revert_tgv_egr_delete s = s\<lparr>ed_history := snd (undo_while_tag ''tgv_egr_delete'' (ed_history s))\<rparr>"

end
