(* ===== verification/Edit_Session.thy ===== *)
theory Edit_Session
  imports Edit_History
begin

text \<open>
  What undo and redo guarantee. An edit is reversible between two images when its undo step takes the
  second back to the first and its redo step the first to the second; recorded table edits are, as long
  as the scaling gives a stored value back the bytes it came from, and so are byte edits that change no
  address twice. In a session of such edits, undos and redos the image is always the version the cursor
  of the history points at.
\<close>

section \<open>Reversible edits\<close>

definition reversible :: "'d doubles \<Rightarrow> 'd cal_definition \<Rightarrow> 'd edit \<Rightarrow> bytes \<Rightarrow> bytes \<Rightarrow> bool" where
  "reversible D def e rom rom' \<longleftrightarrow> (\<forall>s. ed_writable s \<longrightarrow>
     (ed_rom s = rom' \<longrightarrow> (\<exists>s'. apply_history_step D def e False s = Some s' \<and> ed_rom s' = rom \<and>
        ed_history s' = ed_history s \<and> ed_writable s')) \<and>
     (ed_rom s = rom \<longrightarrow> (\<exists>s'. apply_history_step D def e True s = Some s' \<and> ed_rom s' = rom' \<and>
        ed_history s' = ed_history s \<and> ed_writable s')))"

lemma reversible_undo:
  "reversible D def e rom rom' \<Longrightarrow> ed_writable s \<Longrightarrow> ed_rom s = rom' \<Longrightarrow>
    \<exists>s'. apply_history_step D def e False s = Some s' \<and> ed_rom s' = rom \<and> ed_history s' = ed_history s \<and> ed_writable s'"
  by (simp add: reversible_def)

lemma reversible_redo:
  "reversible D def e rom rom' \<Longrightarrow> ed_writable s \<Longrightarrow> ed_rom s = rom \<Longrightarrow>
    \<exists>s'. apply_history_step D def e True s = Some s' \<and> ed_rom s' = rom' \<and> ed_history s' = ed_history s \<and> ed_writable s'"
  by (simp add: reversible_def)

text \<open>The stored form of a stored value is the value's: loading and storing again keeps the bytes.\<close>

definition settles :: "'d doubles \<Rightarrow> 'd cal_definition \<Rightarrow> cal_table \<Rightarrow> bool" where
  "settles D def t \<longleftrightarrow> (\<forall>v bs. cell_blob D (table_data_type t) (find_scaling def (table_scaling t)) v = Some bs \<longrightarrow>
     cell_blob D (table_data_type t) (find_scaling def (table_scaling t)) (requantised D def t v) = Some bs)"

text \<open>The image holds the grid.\<close>

definition holds_grid :: "'d doubles \<Rightarrow> 'd cal_definition \<Rightarrow> cal_table \<Rightarrow> 'd grid \<Rightarrow> bytes \<Rightarrow> bool" where
  "holds_grid D def t vs rom \<longleftrightarrow> (\<exists>b. table_blob D def t vs = Some b \<and> put_at (table_address t) b rom = rom)"

lemma settled_patch:
  assumes "settles D def t" "is_grid rows cols vs" "is_grid rows cols ws" "table_blob D def t vs = Some b"
    and "\<And>i j. i < rows \<Longrightarrow> j < cols \<Longrightarrow> \<not> inside r i j \<Longrightarrow> ws ! i ! j = vs ! i ! j"
  shows "table_blob D def t (patch_rect r vs (map (map (requantised D def t)) ws)) = Some b"
proof -
  let ?q = "requantised D def t" and ?g = "cell_blob D (table_data_type t) (table_scale def t)"
  let ?us = "map (map ?q) ws"
  have us: "is_grid rows cols ?us" using assms(3) by (auto simp: is_grid_def)
  have p: "is_grid rows cols (patch_rect r vs ?us)" unfolding patch_rect_def by (rule update_rect_grid [OF us])
  have "table_blob D def t (patch_rect r vs ?us) = table_blob D def t vs"
  proof (rule table_blob_cong [OF p assms(2)])
    fix i j assume ij: "i < rows" "j < cols"
    have "length ws = rows" "length (ws ! i) = cols" using assms(3) ij by (auto simp: is_grid_def)
    then have cell: "?us ! i ! j = ?q (ws ! i ! j)" using ij by simp
    have "?g (?q (vs ! i ! j)) = ?g (vs ! i ! j)"
      using table_blob_cell [OF assms(2,4) ij] assms(1) by (simp add: settles_def)
    then show "?g (patch_rect r vs ?us ! i ! j) = ?g (vs ! i ! j)"
      using assms(5) [OF ij] ij cell by (simp add: patch_rect_def update_rect_nth [OF us])
  qed
  with assms(4) show ?thesis by simp
qed

text \<open>The step of a table edit whose snapshot was taken of \<open>vs\<close>, on an image that holds \<open>ws\<close>.\<close>

lemma table_step:
  assumes shape: "table_shape def t rows cols" and fits: "table_fits t rows cols (length rom)"
    and find: "find_table def i = Some t" and settles: "settles D def t"
    and grids: "is_grid rows cols vs" "is_grid rows cols ws"
    and blobs: "table_blob D def t vs = Some b" "table_blob D def t ws = Some c"
    and outside: "\<And>i j. i < rows \<Longrightarrow> j < cols \<Longrightarrow> \<not> inside r i j \<Longrightarrow> ws ! i ! j = vs ! i ! j"
    and val: "validate_rect vs r = ok" and snap: "take_snapshot vs r = Some (Inr sn)"
    and axes: "axes_read D def rom t axs" and rom: "put_at (table_address t) c rom = rom"
    and e: "ed_payload e = TableEdit i before after" "(if forward then after else before) = sn"
    and s: "ed_writable s" "ed_rom s = rom"
  shows "\<exists>s'. apply_history_step D def e forward s = Some s' \<and> ed_rom s' = put_at (table_address t) b rom \<and>
    ed_history s' = ed_history s \<and> ed_writable s'"
proof -
  let ?us = "map (map (requantised D def t)) ws"
  let ?td = "table_view axs ?us"
  have "grid_of D def t rows cols rom = ?us"
    using grid_of_put [OF grids(2) blobs(2) fits] by (simp add: rom)
  then have read: "read_table_values D def rom t = Inr ?td"
    using axes by (subst read_table_ok [OF shape fits]) (intro exI [of _ axs], simp)
  have us: "is_grid rows cols ?us" using grids(2) by (auto simp: is_grid_def)
  have "restore sn ?us = Some (ok, patch_rect r vs ?us)"
    using snapshot_restore [OF grids(1) us val] snap by auto
  moreover have "td_values ?td = ?us" by (simp add: table_view_def)
  moreover have "write_table_values D def t (?td\<lparr>td_values := patch_rect r vs ?us\<rparr>) rom = Some (ok, put_at (table_address t) b rom)"
  proof -
    have "is_grid rows cols (patch_rect r vs ?us)" unfolding patch_rect_def by (rule update_rect_grid [OF us])
    then show ?thesis
      using settled_patch [OF settles grids blobs(1) outside] by (simp add: write_table_ok [OF shape fits])
  qed
  ultimately show ?thesis
    using s e by (simp add: apply_history_step_def find read)
qed

lemma table_edit_reversible:
  assumes shape: "table_shape def t rows cols" and fits: "table_fits t rows cols (length rom)"
    and find: "find_table def i = Some t" and settles: "settles D def t" and "cell_edit edit_op"
    and vs: "is_grid rows cols vs" "holds_grid D def t vs rom" and edit: "edit_op r vs = Some (ok, ws)"
    and blob: "table_blob D def t ws = Some b'"
    and snaps: "take_snapshot vs r = Some (Inr before)" "take_snapshot ws r = Some (Inr after)"
    and axes: "axes_read D def rom t axs" and e: "ed_payload e = TableEdit i before after"
  shows "reversible D def e rom (put_at (table_address t) b' rom)"
proof -
  let ?rom' = "put_at (table_address t) b' rom"
  have val: "validate_rect vs r = ok"
    using edit cell_edit.refused [OF assms(5), of vs r] by (cases "validate_rect vs r") auto
  have ws: "is_grid rows cols ws" and out: "\<And>i j. i < rows \<Longrightarrow> j < cols \<Longrightarrow> \<not> inside r i j \<Longrightarrow> ws ! i ! j = vs ! i ! j"
    using cell_edit.performed [OF assms(5) vs(1) val] edit by auto
  have val': "validate_rect ws r = ok" using validate_rect_grid [OF vs(1) ws] val by simp
  obtain b where b: "table_blob D def t vs = Some b" "put_at (table_address t) b rom = rom"
    using vs(2) by (auto simp: holds_grid_def)
  have len: "length b = length b'" using table_blob_length [OF vs(1) b(1)] table_blob_length [OF ws blob] by simp
  then have prev: "put_at (table_address t) b ?rom' = rom" using b(2) by (simp add: put_at_same)
  have again: "put_at (table_address t) b' ?rom' = ?rom'" by (simp add: put_at_same)
  have fits': "table_fits t rows cols (length ?rom')" using fits by simp
  have "?rom' ! k = rom ! k"
    if "k < table_address t \<or> table_address t + table_bytes t rows cols \<le> k" "k < length rom" for k
    using that table_blob_length [OF ws blob] by (auto simp: put_at_nth)
  then have axes': "axes_read D def ?rom' t axs"
    using axes axes_read_cong [OF shape, of ?rom' rom D axs] by simp
  have sym_out: "\<And>i j. i < rows \<Longrightarrow> j < cols \<Longrightarrow> \<not> inside r i j \<Longrightarrow> vs ! i ! j = ws ! i ! j" using out by simp
  show ?thesis
    unfolding reversible_def
    using table_step [OF shape fits' find settles vs(1) ws b(1) blob out val snaps(1) axes' again e, of False]
      table_step [OF shape fits find settles ws vs(1) blob b(1) sym_out val' snaps(2) axes b(2) e, of True]
    by (auto simp: prev)
qed

section \<open>Byte edits\<close>

definition side :: "bool \<Rightarrow> byte_change \<Rightarrow> u8" where
  "side forward c = (if forward then bc_after c else bc_before c)"

definition put_side :: "bool \<Rightarrow> byte_change list \<Rightarrow> bytes \<Rightarrow> bytes" where
  "put_side forward cs rom = foldl (\<lambda>r c. r[bc_address c := side forward c]) rom cs"

lemma put_side_simps [simp]:
  "put_side forward [] rom = rom"
  "put_side forward (c # cs) rom = put_side forward cs (rom[bc_address c := side forward c])"
  "put_side forward (cs @ [c]) rom = (put_side forward cs rom)[bc_address c := side forward c]"
  by (simp_all add: put_side_def)

lemma put_side_append: "put_side forward (cs @ ds) rom = put_side forward ds (put_side forward cs rom)"
  by (simp add: put_side_def)

lemma length_put_side [simp]: "length (put_side forward cs rom) = length rom"
  by (induction cs arbitrary: rom) simp_all

lemma put_side_other: "i \<notin> bc_address ` set cs \<Longrightarrow> put_side forward cs rom ! i = rom ! i"
  by (induction cs arbitrary: rom) auto

lemma put_side_last:
  "bc_address c < length rom \<Longrightarrow> bc_address c \<notin> bc_address ` set ds \<Longrightarrow>
    put_side forward (cs @ c # ds) rom ! bc_address c = side forward c"
  by (simp add: put_side_append put_side_other)

lemma replay_bytes_ok:
  "\<forall>c \<in> set cs. bc_address c < length rom \<Longrightarrow> replay_bytes forward cs rom = (Inl (), put_side forward cs rom)"
  by (induction cs arbitrary: rom) (simp_all add: write_u8_def side_def)

text \<open>A byte edit that takes \<open>rom\<close> to \<open>rom'\<close>.\<close>

definition changes_between :: "byte_change list \<Rightarrow> bytes \<Rightarrow> bytes \<Rightarrow> bool" where
  "changes_between cs rom rom' \<longleftrightarrow> length rom' = length rom \<and> distinct (map bc_address cs) \<and>
     (\<forall>c \<in> set cs. bc_address c < length rom \<and> bc_before c = rom ! bc_address c \<and> bc_after c = rom' ! bc_address c) \<and>
     (\<forall>i < length rom. i \<notin> bc_address ` set cs \<longrightarrow> rom' ! i = rom ! i)"

lemma changes_put:
  assumes "changes_between cs rom rom'"
  shows "put_side False cs rom' = rom" "put_side True cs rom = rom'"
proof -
  have l: "length rom' = length rom" using assms by (simp add: changes_between_def)
  have last: "\<exists>ds es. cs = ds @ c # es \<and> bc_address c \<notin> bc_address ` set es" if "c \<in> set cs" for c
    using split_list [OF that] assms by (force simp: changes_between_def)
  show "put_side False cs rom' = rom"
  proof (rule nth_equalityI)
    fix i assume i: "i < length (put_side False cs rom')"
    show "put_side False cs rom' ! i = rom ! i"
    proof (cases "i \<in> bc_address ` set cs")
      case True
      then obtain c where "c \<in> set cs" "i = bc_address c" by blast
      with last [of c] assms i l show ?thesis by (auto simp: put_side_last side_def changes_between_def)
    qed (use i l assms in \<open>auto simp: put_side_other changes_between_def\<close>)
  qed (simp add: l)
  show "put_side True cs rom = rom'"
  proof (rule nth_equalityI)
    fix i assume i: "i < length (put_side True cs rom)"
    show "put_side True cs rom ! i = rom' ! i"
    proof (cases "i \<in> bc_address ` set cs")
      case True
      then obtain c where "c \<in> set cs" "i = bc_address c" by blast
      with last [of c] assms i l show ?thesis by (auto simp: put_side_last side_def changes_between_def)
    qed (use i l assms in \<open>auto simp: put_side_other changes_between_def\<close>)
  qed (simp add: l)
qed

lemma byte_edit_reversible:
  assumes "changes_between cs rom rom'" "ed_payload e = ByteEdit cs"
  shows "reversible D def e rom rom'"
proof -
  have "\<forall>c \<in> set cs. bc_address c < length rom" "\<forall>c \<in> set cs. bc_address c < length rom'"
    using assms(1) by (auto simp: changes_between_def)
  then show ?thesis
    using assms(2) changes_put [OF assms(1)] by (auto simp: reversible_def apply_history_step_def replay_bytes_ok)
qed


section \<open>Sessions\<close>

text \<open>
  Editing from an image with an empty history: edits recorded in the history that are reversible between
  the image before and the image after, undos and redos in any order.
\<close>

inductive session :: "'d doubles \<Rightarrow> 'd cal_definition \<Rightarrow> bytes \<Rightarrow> 'd editor \<Rightarrow> bool" for D def rom where
  session_start: "ed_rom s = rom \<Longrightarrow> ed_writable s \<Longrightarrow> ed_history s = \<lparr>h_edits = [], h_cursor = 0\<rparr> \<Longrightarrow> session D def rom s"
| session_edit: "session D def rom s \<Longrightarrow> reversible D def e (ed_rom s) (ed_rom s') \<Longrightarrow>
    ed_history s' = history_record e (ed_history s) \<Longrightarrow> ed_writable s' \<Longrightarrow> session D def rom s'"
| session_undo: "session D def rom s \<Longrightarrow> do_undo D def s = Some s' \<Longrightarrow> session D def rom s'"
| session_redo: "session D def rom s \<Longrightarrow> do_redo D def s = Some s' \<Longrightarrow> session D def rom s'"

text \<open>The versions of the image, one before each edit and one after the last.\<close>

definition timeline :: "'d doubles \<Rightarrow> 'd cal_definition \<Rightarrow> bytes list \<Rightarrow> 'd editor \<Rightarrow> bool" where
  "timeline D def vs s \<longleftrightarrow> ed_writable s \<and> length vs = Suc (length (h_edits (ed_history s))) \<and>
     h_cursor (ed_history s) \<le> length (h_edits (ed_history s)) \<and> ed_rom s = vs ! h_cursor (ed_history s) \<and>
     (\<forall>i < length (h_edits (ed_history s)). reversible D def (h_edits (ed_history s) ! i) (vs ! i) (vs ! Suc i))"

lemma timeline_undo:
  assumes "timeline D def vs s" "0 < h_cursor (ed_history s)"
  shows "\<exists>s'. do_undo D def s = Some s' \<and> timeline D def vs s' \<and> h_edits (ed_history s') = h_edits (ed_history s) \<and>
    Suc (h_cursor (ed_history s')) = h_cursor (ed_history s)"
proof -
  let ?h = "ed_history s"
  let ?s = "s\<lparr>ed_history := ?h\<lparr>h_cursor := h_cursor ?h - 1\<rparr>\<rparr>"
  have i: "h_cursor ?h - 1 < length (h_edits ?h)" "Suc (h_cursor ?h - 1) = h_cursor ?h"
    using assms by (auto simp: timeline_def)
  have "reversible D def (h_edits ?h ! (h_cursor ?h - 1)) (vs ! (h_cursor ?h - 1)) (vs ! Suc (h_cursor ?h - 1))"
    using assms(1) i(1) unfolding timeline_def by blast
  then have rev: "reversible D def (h_edits ?h ! (h_cursor ?h - 1)) (vs ! (h_cursor ?h - 1)) (vs ! h_cursor ?h)"
    by (simp only: i(2))
  obtain s' where "apply_history_step D def (h_edits ?h ! (h_cursor ?h - 1)) False ?s = Some s'"
      "ed_rom s' = vs ! (h_cursor ?h - 1)" "ed_history s' = ed_history ?s" "ed_writable s'"
    using reversible_undo [OF rev, of ?s] assms(1) by (auto simp: timeline_def)
  with assms i show ?thesis by (auto simp: do_undo_def history_undo_def timeline_def)
qed

lemma timeline_redo:
  assumes "timeline D def vs s" "h_cursor (ed_history s) < length (h_edits (ed_history s))"
  shows "\<exists>s'. do_redo D def s = Some s' \<and> timeline D def vs s' \<and> h_edits (ed_history s') = h_edits (ed_history s) \<and>
    h_cursor (ed_history s') = Suc (h_cursor (ed_history s))"
proof -
  let ?h = "ed_history s"
  let ?s = "s\<lparr>ed_history := ?h\<lparr>h_cursor := h_cursor ?h + 1\<rparr>\<rparr>"
  have rev: "reversible D def (h_edits ?h ! h_cursor ?h) (vs ! h_cursor ?h) (vs ! Suc (h_cursor ?h))"
    using assms by (auto simp: timeline_def)
  obtain s' where "apply_history_step D def (h_edits ?h ! h_cursor ?h) True ?s = Some s'"
      "ed_rom s' = vs ! Suc (h_cursor ?h)" "ed_history s' = ed_history ?s" "ed_writable s'"
    using reversible_redo [OF rev, of ?s] assms(1) by (auto simp: timeline_def)
  with assms show ?thesis by (auto simp: do_redo_def history_redo_def timeline_def)
qed

lemma timeline_stuck:
  "timeline D def vs s \<Longrightarrow> h_cursor (ed_history s) = 0 \<Longrightarrow> do_undo D def s = Some s"
  "timeline D def vs s \<Longrightarrow> \<not> h_cursor (ed_history s) < length (h_edits (ed_history s)) \<Longrightarrow> do_redo D def s = Some s"
  by (simp_all add: timeline_def do_undo_def do_redo_def history_undo_def history_redo_def)

lemma timeline_record:
  assumes "timeline D def vs s" "reversible D def e (ed_rom s) (ed_rom s')"
    and "ed_history s' = history_record e (ed_history s)" "ed_writable s'"
  shows "timeline D def (take (Suc (h_cursor (ed_history s))) vs @ [ed_rom s']) s'"
proof -
  let ?h = "ed_history s" and ?c = "h_cursor (ed_history s)"
  have c: "?c \<le> length (h_edits ?h)" "length vs = Suc (length (h_edits ?h))" "ed_rom s = vs ! ?c"
    using assms(1) by (auto simp: timeline_def)
  have h: "h_edits (ed_history s') = take ?c (h_edits ?h) @ [e]" "h_cursor (ed_history s') = Suc ?c"
    using c(1) by (auto simp: assms(3) history_record_def Let_def)
  have "reversible D def (h_edits (ed_history s') ! i) ((take (Suc ?c) vs @ [ed_rom s']) ! i) ((take (Suc ?c) vs @ [ed_rom s']) ! Suc i)"
    if "i \<le> ?c" for i
  proof (cases "i = ?c")
    case True
    then show ?thesis using assms(2) c h by (simp add: nth_append)
  next
    case False
    then show ?thesis using that assms(1) c h by (simp add: timeline_def nth_append)
  qed
  with c h assms(4) show ?thesis by (simp add: timeline_def nth_append less_Suc_eq_le)
qed

lemma session_timeline: "session D def rom s \<Longrightarrow> \<exists>vs. timeline D def vs s \<and> vs ! 0 = rom"
proof (induction rule: session.induct)
  case (session_start s)
  then show ?case by (intro exI [of _ "[rom]"]) (simp add: timeline_def)
next
  case (session_edit s e s')
  then obtain vs where vs: "timeline D def vs s" "vs ! 0 = rom" by blast
  then have "(take (Suc (h_cursor (ed_history s))) vs @ [ed_rom s']) ! 0 = rom"
    by (cases vs) (simp_all add: timeline_def)
  with timeline_record [OF vs(1) session_edit.hyps(2-4)] show ?case by blast
next
  case (session_undo s s')
  then obtain vs where vs: "timeline D def vs s" "vs ! 0 = rom" by blast
  show ?case
  proof (cases "0 < h_cursor (ed_history s)")
    case True
    with timeline_undo [OF vs(1)] vs(2) session_undo.hyps(2) show ?thesis by auto
  next
    case False
    then have "s' = s" using timeline_stuck(1) [OF vs(1)] session_undo.hyps(2) by simp
    with vs show ?thesis by blast
  qed
next
  case (session_redo s s')
  then obtain vs where vs: "timeline D def vs s" "vs ! 0 = rom" by blast
  show ?case
  proof (cases "h_cursor (ed_history s) < length (h_edits (ed_history s))")
    case True
    with timeline_redo [OF vs(1)] vs(2) session_redo.hyps(2) show ?thesis by auto
  next
    case False
    then have "s' = s" using timeline_stuck(2) [OF vs(1)] session_redo.hyps(2) by simp
    with vs show ?thesis by blast
  qed
qed

text \<open>A step taken \<open>n\<close> times.\<close>

fun repeated :: "('s \<Rightarrow> 's option) \<Rightarrow> nat \<Rightarrow> 's \<Rightarrow> 's option" where
  "repeated f 0 s = Some s"
| "repeated f (Suc n) s = (case f s of None \<Rightarrow> None | Some s' \<Rightarrow> repeated f n s')"

lemma timeline_undos:
  "timeline D def vs s \<Longrightarrow> n \<le> h_cursor (ed_history s) \<Longrightarrow>
    \<exists>s'. repeated (do_undo D def) n s = Some s' \<and> timeline D def vs s' \<and> h_edits (ed_history s') = h_edits (ed_history s) \<and>
      h_cursor (ed_history s') + n = h_cursor (ed_history s)"
proof (induction n arbitrary: s)
  case (Suc n)
  then have "0 < h_cursor (ed_history s)" by simp
  from timeline_undo [OF Suc.prems(1) this] obtain s1 where s1: "do_undo D def s = Some s1" "timeline D def vs s1"
    "h_edits (ed_history s1) = h_edits (ed_history s)" "Suc (h_cursor (ed_history s1)) = h_cursor (ed_history s)" by blast
  then show ?case using Suc.IH [OF s1(2)] Suc.prems(2) by auto
qed auto

lemma timeline_redos:
  "timeline D def vs s \<Longrightarrow> h_cursor (ed_history s) + n \<le> length (h_edits (ed_history s)) \<Longrightarrow>
    \<exists>s'. repeated (do_redo D def) n s = Some s' \<and> timeline D def vs s' \<and> h_edits (ed_history s') = h_edits (ed_history s) \<and>
      h_cursor (ed_history s') = h_cursor (ed_history s) + n"
proof (induction n arbitrary: s)
  case (Suc n)
  then have "h_cursor (ed_history s) < length (h_edits (ed_history s))" by simp
  from timeline_redo [OF Suc.prems(1) this] obtain s1 where s1: "do_redo D def s = Some s1" "timeline D def vs s1"
    "h_edits (ed_history s1) = h_edits (ed_history s)" "h_cursor (ed_history s1) = Suc (h_cursor (ed_history s))" by blast
  then show ?case using Suc.IH [OF s1(2)] Suc.prems(2) by auto
qed auto

end
