(* ===== verification/Edit_Props.thy ===== *)
theory Edit_Props
  imports Edit_Session
begin

text \<open>
  Properties of editing: an edit of the selection can be undone and redone exactly, a whole session can
  be walked back and forth, the revert of a workflow, and two ways an edit goes wrong, an edit that fails
  half-way and an edit made from data that are out of date.
\<close>

section \<open>Edits of the selection\<close>

text \<open>
  The state the editor is in while it shows a table: the image holds the grid shown, and its scaling
  gives a stored value back the bytes it came from.
\<close>

definition shows_table :: "'d doubles \<Rightarrow> 'd cal_definition \<Rightarrow> cal_table \<Rightarrow> nat \<Rightarrow> nat \<Rightarrow> 'd editor \<Rightarrow> bool" where
  "shows_table D def t rows cols s \<longleftrightarrow> find_table def (ed_selected s) = Some t \<and> table_shape def t rows cols \<and>
     table_fits t rows cols (length (ed_rom s)) \<and> (\<exists>axs. axes_read D def (ed_rom s) t axs) \<and> settles D def t \<and> ed_writable s \<and>
     (\<exists>td. ed_current s = Some td \<and> is_grid rows cols (td_values td) \<and> holds_grid D def t (td_values td) (ed_rom s))"

text \<open>What an edit that was recorded has done.\<close>

lemma apply_op_recorded:
  assumes "apply_op D def label edit_op s = Some s'" "ed_history s' \<noteq> ed_history s"
  shows "\<exists>td r before ws after t rom'. ed_current s = Some td \<and> ed_selection s = Some r \<and> ed_writable s \<and>
    take_snapshot (td_values td) r = Some (Inr before) \<and> edit_op r (td_values td) = Some (ok, ws) \<and>
    take_snapshot ws r = Some (Inr after) \<and> find_table def (ed_selected s) = Some t \<and>
    write_table_values D def t (td\<lparr>td_values := ws\<rparr>) (ed_rom s) = Some (ok, rom') \<and>
    s' = s\<lparr>ed_rom := rom', ed_current := Some (td\<lparr>td_values := ws\<rparr>),
      ed_history := history_record (table_edit (ed_selected s) before after label) (ed_history s),
      ed_status := [], ed_dirty := True\<rparr>"
  using assms
  by (auto simp: apply_op_def Let_def split: option.splits sum.splits prod.splits if_splits)

lemma apply_op_reversible:
  assumes "cell_edit edit_op" "shows_table D def t rows cols s" "apply_op D def label edit_op s = Some s'"
    "ed_history s' \<noteq> ed_history s"
  shows "\<exists>e before after. reversible D def e (ed_rom s) (ed_rom s') \<and> ed_history s' = history_record e (ed_history s) \<and>
    ed_payload e = TableEdit (ed_selected s') before after \<and> shows_table D def t rows cols s'"
proof -
  obtain axs where st: "find_table def (ed_selected s) = Some t" "table_shape def t rows cols"
      "table_fits t rows cols (length (ed_rom s))" "axes_read D def (ed_rom s) t axs" "settles D def t" "ed_writable s"
    using assms(2) by (auto simp: shows_table_def)
  obtain td r before ws after rom' where c: "ed_current s = Some td"
      "take_snapshot (td_values td) r = Some (Inr before)" "edit_op r (td_values td) = Some (ok, ws)"
      "take_snapshot ws r = Some (Inr after)"
      "write_table_values D def t (td\<lparr>td_values := ws\<rparr>) (ed_rom s) = Some (ok, rom')"
    and s': "s' = s\<lparr>ed_rom := rom', ed_current := Some (td\<lparr>td_values := ws\<rparr>),
      ed_history := history_record (table_edit (ed_selected s) before after label) (ed_history s),
      ed_status := [], ed_dirty := True\<rparr>"
    using apply_op_recorded [OF assms(3,4)] st(1) by auto
  have vs: "is_grid rows cols (td_values td)" "holds_grid D def t (td_values td) (ed_rom s)"
    using assms(2) c(1) by (auto simp: shows_table_def)
  obtain b where b: "is_grid rows cols ws" "table_blob D def t ws = Some b" "rom' = put_at (table_address t) b (ed_rom s)"
    using c(5) by (auto simp: write_table_ok [OF st(2,3)])
  have "reversible D def (table_edit (ed_selected s) before after label) (ed_rom s) rom'"
    unfolding b(3)
    by (rule table_edit_reversible [OF st(2,3,1,5) assms(1) vs c(3) b(2) c(2,4) st(4)]) (simp add: table_edit_def)
  moreover have "shows_table D def t rows cols s'"
  proof -
    have "rom' ! k = ed_rom s ! k"
      if "k < table_address t \<or> table_address t + table_bytes t rows cols \<le> k" "k < length (ed_rom s)" for k
      using that table_blob_length [OF b(1,2)] by (auto simp: b(3) put_at_nth)
    then have "axes_read D def rom' t axs"
      using axes_read_cong [OF st(2), of rom' "ed_rom s" D axs] st(4) b(3) by simp
    then have "\<exists>axs. axes_read D def rom' t axs" by blast
    moreover have "holds_grid D def t ws rom'" using b(2) by (simp add: holds_grid_def b(3) put_at_same)
    moreover have "table_fits t rows cols (length rom')" using st(3) by (simp add: b(3))
    ultimately show ?thesis using st b(1) by (simp add: shows_table_def s')
  qed
  ultimately show ?thesis by (auto simp: s' table_edit_def)
qed

lemma undo_recorded:
  assumes "reversible D def e rom (ed_rom s')" "ed_history s' = history_record e h" "ed_writable s'" "h_cursor h \<le> length (h_edits h)"
  shows "\<exists>u v. do_undo D def s' = Some u \<and> ed_rom u = rom \<and> h_cursor (ed_history u) = h_cursor h \<and>
    do_redo D def u = Some v \<and> ed_rom v = ed_rom s' \<and> ed_history v = ed_history s' \<and> ed_writable u \<and> ed_writable v \<and>
    ed_history u = (ed_history s')\<lparr>h_cursor := h_cursor h\<rparr> \<and>
    apply_history_step D def e False (s'\<lparr>ed_history := ed_history u\<rparr>) = Some u \<and>
    apply_history_step D def e True (u\<lparr>ed_history := ed_history s'\<rparr>) = Some v"
proof -
  let ?h = "history_record e h"
  have h: "h_cursor ?h = Suc (h_cursor h)" "h_edits ?h ! h_cursor h = e" "length (h_edits ?h) = Suc (h_cursor h)"
    using assms(4) by (auto simp: history_record_def Let_def nth_append)
  let ?s = "s'\<lparr>ed_history := ?h\<lparr>h_cursor := h_cursor h\<rparr>\<rparr>"
  obtain u where u: "apply_history_step D def e False ?s = Some u" "ed_rom u = rom" "ed_history u = ed_history ?s" "ed_writable u"
    using reversible_undo [OF assms(1), of ?s] assms(3) by auto
  let ?u = "u\<lparr>ed_history := ?h\<rparr>"
  obtain v where v: "apply_history_step D def e True ?u = Some v" "ed_rom v = ed_rom s'" "ed_history v = ?h" "ed_writable v"
    using reversible_redo [OF assms(1), of ?u] u(2,4) by auto
  have same: "?h\<lparr>h_cursor := Suc (h_cursor h)\<rparr> = ?h" using h(1) by (cases ?h) simp
  have "do_undo D def s' = Some u" using u(1) assms(2,3) h by (simp add: do_undo_def history_undo_def)
  moreover have "do_redo D def u = Some v" using v(1) u(3,4) h by (simp add: do_redo_def history_redo_def same)
  ultimately show ?thesis using u v assms(2) by auto
qed

text \<open>A step on the selected table that was not rolled back shows what it stored.\<close>

lemma step_shows:
  assumes "apply_history_step D def e forward s = Some u" "ed_history u = ed_history s"
    and "ed_payload e = TableEdit (ed_selected s) before after" "ed_writable s"
    and "if forward then 0 < h_cursor (ed_history s) else h_cursor (ed_history s) < length (h_edits (ed_history s))"
    and w: "shows_table D def t rows cols w" "ed_selected w = ed_selected s" "ed_rom u = ed_rom w"
    and fits: "table_fits t rows cols (length (ed_rom s))"
  shows "shows_table D def t rows cols u \<and> ed_selected u = ed_selected s"
proof -
  have st: "find_table def (ed_selected s) = Some t" "table_shape def t rows cols" using w by (auto simp: shows_table_def)
  have rolled: "ed_history (rollback_cursor forward s') \<noteq> ed_history s" if "ed_history s' = ed_history s" for s' :: "'a editor"
  proof
    assume "ed_history (rollback_cursor forward s') = ed_history s"
    then have "h_cursor (ed_history (rollback_cursor forward s')) = h_cursor (ed_history s)" by simp
    with that assms(5) show False by (auto simp: rollback_cursor_def history_undo_def history_redo_def split: if_splits)
  qed
  obtain td vs rom' where "write_table_values D def t (td\<lparr>td_values := vs\<rparr>) (ed_rom s) = Some (ok, rom')"
    and u: "u = s\<lparr>ed_rom := rom', ed_current := Some (td\<lparr>td_values := vs\<rparr>), ed_status := [], ed_dirty := True\<rparr>"
    using assms(1-4) st(1) rolled
    by (fastforce simp: apply_history_step_def Let_def split: option.splits sum.splits prod.splits)
  then obtain b where b: "is_grid rows cols vs" "table_blob D def t vs = Some b" "rom' = put_at (table_address t) b (ed_rom s)"
    by (auto simp: write_table_ok [OF st(2) fits])
  then have "holds_grid D def t vs rom'" by (simp add: holds_grid_def put_at_same)
  then show ?thesis using w b(1) assms(4) by (auto simp: shows_table_def u)
qed

text \<open>C10: An edit of the selection can be undone and redone exactly. Take a writable editor that shows a table of one or
  two dimensions which lies in the image apart from its axes, whose grid on screen is the one the image holds, and whose
  scaling settles: a stored value read back and stored again gives the same bytes. Whatever operation
  is applied to the selected rectangle, when the edit succeeds and is recorded in the history (a cursor inside it) then undo gives back every
  byte of the image and the cursor, redo then gives every byte of the edited image and the history of before the undo, and
  after the edit, after the undo and after the redo the editor again shows the grid that the image holds.\<close>

theorem edit_undo_redo:
  assumes "cell_edit edit_op" "shows_table D def t rows cols s" "h_cursor (ed_history s) \<le> length (h_edits (ed_history s))"
    and "apply_op D def label edit_op s = Some s'" "ed_history s' \<noteq> ed_history s"
  shows "\<exists>u v. do_undo D def s' = Some u \<and> ed_rom u = ed_rom s \<and> h_cursor (ed_history u) = h_cursor (ed_history s) \<and>
    do_redo D def u = Some v \<and> ed_rom v = ed_rom s' \<and> ed_history v = ed_history s' \<and>
    shows_table D def t rows cols s' \<and> shows_table D def t rows cols u \<and> shows_table D def t rows cols v"
proof -
  obtain e before after where e: "reversible D def e (ed_rom s) (ed_rom s')" "ed_history s' = history_record e (ed_history s)"
      "ed_payload e = TableEdit (ed_selected s') before after" "shows_table D def t rows cols s'"
    using apply_op_reversible [OF assms(1,2,4,5)] by blast
  have same: "ed_selected s' = ed_selected s" using apply_op_recorded [OF assms(4,5)] by auto
  have w: "ed_writable s'" using e(4) by (simp add: shows_table_def)
  have fits: "table_fits t rows cols (length (ed_rom s))" "table_fits t rows cols (length (ed_rom s'))"
    using assms(2) e(4) by (auto simp: shows_table_def)
  have h: "h_cursor (ed_history s') = Suc (h_cursor (ed_history s))" "h_cursor (ed_history s) < length (h_edits (ed_history s'))"
    using assms(3) by (auto simp: e(2) history_record_def Let_def)
  obtain u v where uv: "do_undo D def s' = Some u" "ed_rom u = ed_rom s" "h_cursor (ed_history u) = h_cursor (ed_history s)"
      "do_redo D def u = Some v" "ed_rom v = ed_rom s'" "ed_history v = ed_history s'" "ed_writable u"
      "ed_history u = (ed_history s')\<lparr>h_cursor := h_cursor (ed_history s)\<rparr>"
      "apply_history_step D def e False (s'\<lparr>ed_history := ed_history u\<rparr>) = Some u"
      "apply_history_step D def e True (u\<lparr>ed_history := ed_history s'\<rparr>) = Some v"
    using undo_recorded [OF e(1,2) w assms(3)] by blast
  have len: "h_cursor (ed_history u) < length (h_edits (ed_history u))" using uv(8) h(2) by simp
  have u: "shows_table D def t rows cols u \<and> ed_selected u = ed_selected (s'\<lparr>ed_history := ed_history u\<rparr>)"
    by (rule step_shows [OF uv(9) _ _ _ _ assms(2) _ uv(2)]) (simp_all add: e(3) w same fits len)
  have "shows_table D def t rows cols v \<and> ed_selected v = ed_selected (u\<lparr>ed_history := ed_history s'\<rparr>)"
    by (rule step_shows [OF uv(10) _ _ _ _ e(4) _ uv(5)]) (use u in \<open>simp_all add: e(3) uv(2,6,7) h(1) fits\<close>)
  with u e(4) uv show ?thesis by auto
qed

text \<open>The two-by-two table of before in an editor, with its upper row selected.\<close>

definition demo_editor :: "rat editor" where
  "demo_editor = \<lparr>ed_rom = demo_rom, ed_writable = True, ed_history = \<lparr>h_edits = [], h_cursor = 0\<rparr>, ed_selected = ''map'',
     ed_current = Some (demo_data [[15, 20], [25, 30]]), ed_selection = Some \<lparr>r_start = 0, r_end = 0, c_start = 0, c_end = 1\<rparr>,
     ed_dirty = False, ed_status = []\<rparr>"

lemma demo_settles: "settles exact_doubles demo_definition demo_table"
proof -
  have cell: "cell_blob exact_doubles Uint8 (Some demo_scaling) v = map_option (\<lambda>n. [word_of_int n]) (clamp_round exact_doubles 0 255 (2 * (v - 10)))" for v
    by (simp add: cell_blob_def invert_scaling_def demo_scaling_def cell_bytes_def write_u8_def option.map_comp comp_def)
      (simp add: exact_doubles_def mult.commute)
  have "cell_blob exact_doubles Uint8 (Some demo_scaling) (cell_value exact_doubles Uint8 (Some demo_scaling) [word_of_int n]) = Some [word_of_int n]"
    if "0 \<le> n" "n \<le> 255" for n
  proof -
    have "uint (word_of_int n :: u8) = n" using that by (simp add: uint_word_of_int)
    then have "cell_value exact_doubles Uint8 (Some demo_scaling) [word_of_int n] = of_int n / 2 + 10"
      by (simp add: cell_value_def scale_raw_def apply_scaling_def demo_scaling_def bytes_value_def read_u8_def
          exact_doubles_def del: of_int_uint)
    moreover have "clamp_round exact_doubles 0 255 (of_int n) = Some n"
      using exact.clamp_round_int [of 0 255 n] that by (simp add: exact_doubles_def)
    ultimately show ?thesis by (simp add: cell)
  qed
  moreover have "\<exists>n. bs = [word_of_int n] \<and> 0 \<le> n \<and> n \<le> 255" if "cell_blob exact_doubles Uint8 (Some demo_scaling) v = Some bs" for v bs
    using that by (auto simp: cell clamp_round_def Let_def split: option.splits if_splits)
  moreover have "find_scaling demo_definition (table_scaling demo_table) = Some demo_scaling" "table_data_type demo_table = Uint8"
    by (simp_all add: find_scaling_def demo_definition_def demo_table_def demo_scaling_def)
  ultimately show ?thesis unfolding settles_def requantised_def by (metis option.sel)
qed

lemma demo_shows: "shows_table exact_doubles demo_definition demo_table 2 2 demo_editor"
proof -
  have "axes_read exact_doubles demo_definition demo_rom demo_table ([0, 1], [2, 3], [])"
    using demo_read read_table_ok [OF demo_shape demo_fits, of exact_doubles "demo_data [[15, 20], [25, 30]]"]
    by (auto simp: demo_data_def table_view_def)
  moreover have "table_blob exact_doubles demo_definition demo_table [[15, 20], [25, 30]] = Some [10, 20, 30, 40]" by code_simp
  then have "holds_grid exact_doubles demo_definition demo_table [[15, 20], [25, 30]] demo_rom"
    by (simp add: holds_grid_def demo_rom_def demo_table_def)
  moreover have "find_table demo_definition ''map'' = Some demo_table"
    by (simp add: find_table_def demo_definition_def demo_table_def)
  ultimately show ?thesis
    using demo_shape demo_fits demo_settles
    by (auto simp: shows_table_def demo_editor_def demo_data_def is_grid_def)
qed

lemma edit_undo_redo_witness:
  "\<exists>s' u v. apply_op exact_doubles demo_definition ''set'' (set_cells 12) demo_editor = Some s' \<and>
     ed_rom s' = [0, 1, 2, 3, 4, 4, 30, 40, 99] \<and>
     do_undo exact_doubles demo_definition s' = Some u \<and> ed_rom u = demo_rom \<and>
     do_redo exact_doubles demo_definition u = Some v \<and> ed_rom v = ed_rom s'"
proof -
  let ?run = "apply_op exact_doubles demo_definition ''set'' (set_cells 12) demo_editor"
  have "map_option ed_rom ?run = Some [0, 1, 2, 3, 4, 4, 30, 40, 99]" by code_simp
  then obtain s' where s': "?run = Some s'" "ed_rom s' = [0, 1, 2, 3, 4, 4, 30, 40, 99]" by blast
  have "map_option (\<lambda>s. h_cursor (ed_history s)) ?run = Some 1" by code_simp
  then have "ed_history s' \<noteq> ed_history demo_editor" using s'(1) by (auto simp: demo_editor_def)
  from edit_undo_redo [OF set_edit.cell_edit_axioms demo_shows _ s'(1) this] s' show ?thesis
    by (auto simp: demo_editor_def)
qed


section \<open>Sessions\<close>

text \<open>C6: A session can be walked back and forth. After any sequence of recorded edits that are reversible, undos and
  redos from an image with an empty history, undoing as often as the history has applied edits succeeds
  and gives the image the session started from, and redoing as often from there gives back the image and
  the history of before.\<close>

theorem session_undo_redo:
  assumes "session D def rom s"
  shows "\<exists>s0 s1. repeated (do_undo D def) (h_cursor (ed_history s)) s = Some s0 \<and> ed_rom s0 = rom \<and>
    repeated (do_redo D def) (h_cursor (ed_history s)) s0 = Some s1 \<and> ed_rom s1 = ed_rom s \<and> ed_history s1 = ed_history s"
proof -
  let ?n = "h_cursor (ed_history s)"
  obtain vs where vs: "timeline D def vs s" "vs ! 0 = rom" using session_timeline [OF assms] by blast
  obtain s0 where s0: "repeated (do_undo D def) ?n s = Some s0" "timeline D def vs s0"
      "h_edits (ed_history s0) = h_edits (ed_history s)" "h_cursor (ed_history s0) = 0"
    using timeline_undos [OF vs(1), of ?n] by auto
  have "?n \<le> length (h_edits (ed_history s))" using vs(1) by (simp add: timeline_def)
  then obtain s1 where s1: "repeated (do_redo D def) ?n s0 = Some s1" "timeline D def vs s1"
      "h_edits (ed_history s1) = h_edits (ed_history s)" "h_cursor (ed_history s1) = ?n"
    using timeline_redos [OF s0(2), of ?n] s0(3,4) by auto
  have "ed_history s1 = ed_history s" using s1(3,4) by simp
  moreover have "ed_rom s0 = rom" "ed_rom s1 = ed_rom s" using s0(2,4) s1(2,4) vs by (auto simp: timeline_def)
  ultimately show ?thesis using s0(1) s1(1) by blast
qed

text \<open>A session: an edit, a byte edit beside it, an undo and a redo.\<close>

lemma session_undo_redo_witness:
  "\<exists>s s0. session exact_doubles demo_definition demo_rom s \<and> h_cursor (ed_history s) = 2 \<and> ed_rom s = [0, 1, 2, 3, 4, 4, 30, 40, 7] \<and>
     repeated (do_undo exact_doubles demo_definition) 2 s = Some s0 \<and> ed_rom s0 = demo_rom"
proof -
  let ?D = exact_doubles and ?def = demo_definition
  let ?b = "byte_edit [\<lparr>bc_address = 8, bc_before = 99, bc_after = 7\<rparr>] ''byte'' :: rat edit"
  have start: "session ?D ?def demo_rom demo_editor"
    by (rule session_start) (simp_all add: demo_editor_def)
  have "map_option (\<lambda>s. (h_cursor (ed_history s), length (h_edits (ed_history s)), ed_rom s))
      (apply_op ?D ?def ''set'' (set_cells 12) demo_editor) = Some (1, 1, [0, 1, 2, 3, 4, 4, 30, 40, 99])" by code_simp
  then obtain s1 where s1: "apply_op ?D ?def ''set'' (set_cells 12) demo_editor = Some s1" "h_cursor (ed_history s1) = 1"
    "length (h_edits (ed_history s1)) = 1" "ed_rom s1 = [0, 1, 2, 3, 4, 4, 30, 40, 99]" by auto
  then have "ed_history s1 \<noteq> ed_history demo_editor" by (auto simp: demo_editor_def)
  from apply_op_reversible [OF set_edit.cell_edit_axioms demo_shows s1(1) this]
  have ses1: "session ?D ?def demo_rom s1" and w: "ed_writable s1"
    using session_edit [OF start] by (auto simp: shows_table_def)
  let ?s = "s1\<lparr>ed_rom := [0, 1, 2, 3, 4, 4, 30, 40, 7], ed_history := history_record ?b (ed_history s1)\<rparr>"
  have "changes_between [\<lparr>bc_address = 8, bc_before = 99, bc_after = 7\<rparr>] (ed_rom s1) (ed_rom ?s)"
    by (auto simp: changes_between_def s1(4) less_Suc_eq numeral_eq_Suc)
  then have "reversible ?D ?def ?b (ed_rom s1) (ed_rom ?s)" by (rule byte_edit_reversible) (simp add: byte_edit_def)
  then have ses: "session ?D ?def demo_rom ?s" using session_edit [OF ses1, of ?b ?s] w by simp
  have "h_cursor (ed_history ?s) = 2" using s1(2,3) by (simp add: history_record_def)
  then obtain s0 where "repeated (do_undo ?D ?def) 2 ?s = Some s0" "ed_rom s0 = demo_rom"
    using session_undo_redo [OF ses] by auto
  moreover have "ed_rom ?s = [0, 1, 2, 3, 4, 4, 30, 40, 7]" by simp
  ultimately show ?thesis using ses \<open>h_cursor (ed_history ?s) = 2\<close> by blast
qed

section \<open>Where an edit goes wrong\<close>

text \<open>C23: An edit made from data that are out of date loses what was edited in between. After an edit of the whole
  table by a workflow, which leaves the data shown as they were, the next edit of the selection writes
  the whole grid shown: the image is the one this edit alone would have given, and nothing of the
  workflow's edit is left, though its record is in the history.\<close>

theorem stale_edit_lost:
  assumes "shows_table D def t rows cols s"
    and "apply_op_table D def label tag (ed_selected s) workflow_op s = Some s1" "ed_history s1 \<noteq> ed_history s"
    and "apply_op D def label' edit_op s1 = Some s2" "ed_history s2 \<noteq> ed_history s1"
  shows "\<exists>s3. apply_op D def label' edit_op s = Some s3 \<and> ed_rom s2 = ed_rom s3"
proof -
  have st: "find_table def (ed_selected s) = Some t" "table_shape def t rows cols" "table_fits t rows cols (length (ed_rom s))"
      "ed_writable s" using assms(1) by (auto simp: shows_table_def)
  obtain td1 rom1 e where w: "write_table_values D def t td1 (ed_rom s) = Some (ok, rom1)"
    and s1: "s1 = s\<lparr>ed_rom := rom1, ed_history := history_record e (ed_history s), ed_status := [], ed_dirty := True\<rparr>"
    using assms(2,3) st(1,4)
    by (auto simp: apply_op_table_def Let_def split: option.splits sum.splits prod.splits if_splits)
  obtain b1 where b1: "is_grid rows cols (td_values td1)" "table_blob D def t (td_values td1) = Some b1"
      "rom1 = put_at (table_address t) b1 (ed_rom s)"
    using w by (auto simp: write_table_ok [OF st(2,3)])
  have fits1: "table_fits t rows cols (length rom1)" using st(3) by (simp add: b1(3))
  obtain td r before ws after rom2 where c: "ed_current s = Some td" "ed_selection s = Some r"
      "take_snapshot (td_values td) r = Some (Inr before)" "edit_op r (td_values td) = Some (ok, ws)"
      "take_snapshot ws r = Some (Inr after)" "write_table_values D def t (td\<lparr>td_values := ws\<rparr>) rom1 = Some (ok, rom2)"
      "ed_rom s2 = rom2"
    using apply_op_recorded [OF assms(4,5)] st(1) by (auto simp: s1)
  obtain b2 where b2: "is_grid rows cols ws" "table_blob D def t ws = Some b2" "rom2 = put_at (table_address t) b2 rom1"
    using c(6) by (auto simp: write_table_ok [OF st(2) fits1])
  have rom2: "rom2 = put_at (table_address t) b2 (ed_rom s)"
    using table_blob_length [OF b1(1,2)] table_blob_length [OF b2(1,2)] by (simp add: b2(3) b1(3) put_at_same)
  have "write_table_values D def t (td\<lparr>td_values := ws\<rparr>) (ed_rom s) = Some (ok, rom2)"
    using b2(1,2) rom2 by (simp add: write_table_ok [OF st(2,3)])
  then have "apply_op D def label' edit_op s = Some (s\<lparr>ed_rom := rom2, ed_current := Some (td\<lparr>td_values := ws\<rparr>),
      ed_history := history_record (table_edit (ed_selected s) before after label') (ed_history s),
      ed_status := [], ed_dirty := True\<rparr>)"
    using c(1-5) st(1,4) by (simp add: apply_op_def)
  then show ?thesis using c(7) by auto
qed


lemma stale_edit_lost_witness:
  "\<exists>s1 s2. apply_op_table exact_doubles demo_definition ''swap'' ''fa24_swap'' ''map'' (set_cells 40) demo_editor = Some s1 \<and>
     ed_rom s1 = [0, 1, 2, 3, 60, 60, 60, 60, 99] \<and>
     apply_op exact_doubles demo_definition ''set'' (set_cells 12) s1 = Some s2 \<and> ed_rom s2 = [0, 1, 2, 3, 4, 4, 30, 40, 99] \<and>
     h_cursor (ed_history s2) = 2"
proof -
  let ?D = exact_doubles and ?def = demo_definition
  let ?swap = "apply_op_table ?D ?def ''swap'' ''fa24_swap'' ''map'' (set_cells 40) demo_editor"
  have "map_option (\<lambda>s. (h_cursor (ed_history s), ed_rom s)) ?swap = Some (1, [0, 1, 2, 3, 60, 60, 60, 60, 99])" by code_simp
  then obtain s1 where s1: "?swap = Some s1" "h_cursor (ed_history s1) = 1" "ed_rom s1 = [0, 1, 2, 3, 60, 60, 60, 60, 99]" by auto
  have "(case ?swap of None \<Rightarrow> None | Some s \<Rightarrow>
      map_option (\<lambda>s. h_cursor (ed_history s)) (apply_op ?D ?def ''set'' (set_cells 12) s)) = Some 2" by code_simp
  then obtain s2 where s2: "apply_op ?D ?def ''set'' (set_cells 12) s1 = Some s2" "h_cursor (ed_history s2) = 2"
    by (auto simp: s1(1))
  have sel: "ed_selected demo_editor = ''map''" by (simp add: demo_editor_def)
  have "ed_history s1 \<noteq> ed_history demo_editor" "ed_history s2 \<noteq> ed_history s1" using s1(2) s2(2) by (auto simp: demo_editor_def)
  moreover have "apply_op_table ?D ?def ''swap'' ''fa24_swap'' (ed_selected demo_editor) (set_cells 40) demo_editor = Some s1"
    using s1(1) by (simp only: sel)
  ultimately obtain s3 where
    s3: "apply_op ?D ?def ''set'' (set_cells 12) demo_editor = Some s3" "ed_rom s2 = ed_rom s3"
    using stale_edit_lost [OF demo_shows _ _ s2(1)] by blast
  have "map_option ed_rom (apply_op ?D ?def ''set'' (set_cells 12) demo_editor) = Some [0, 1, 2, 3, 4, 4, 30, 40, 99]" by code_simp
  with s1 s2 s3 show ?thesis by auto
qed

text \<open>A table under an inverse scaling with a zero in its second cell.\<close>

definition inverse_definition :: "rat cal_definition" where
  "inverse_definition = \<lparr>def_axes = [demo_axis ''x'' 0], def_scalings = [demo_scaling\<lparr>scaling_id := ''inv'', formula := InverseDivideScaling 100\<rparr>],
     def_tables = [demo_table\<lparr>table_scaling := ''inv'', dimensions := 1, table_address := 2, table_axis_y := None\<rparr>]\<rparr>"

definition inverse_editor :: "rat editor" where
  "inverse_editor = demo_editor\<lparr>ed_rom := [0, 1, 5, 0], ed_current := Some \<lparr>td_axis_x = [0, 1], td_axis_y = [], td_axis_z = [],
     td_values = [[20, 0]], td_slices = []\<rparr>, ed_selection := Some \<lparr>r_start = 0, r_end = 0, c_start = 0, c_end = 0\<rparr>\<rparr>"

text \<open>C25: An edit that fails is not undone in the image. Take a writable editor whose selected table has one or two
  dimensions, lies in the image and matches the shape of the grid shown. When the operation on the selected rectangle gives a grid
  with a cell whose value the table's scaling cannot invert, and all cells before it (in the order of rows) can be stored,
  the edit reports the error of that cell, shows the old grid again, records nothing and does not mark the
  image as modified, but the bytes of the cells before it, also those outside the selection, are in the image as they were written.\<close>

theorem failed_edit_changes_image:
  assumes "cell_edit edit_op" "find_table def (ed_selected s) = Some t" "table_shape def t rows cols"
    and "table_fits t rows cols (length (ed_rom s))" "ed_writable s" "ed_current s = Some td" "is_grid rows cols (td_values td)"
    and "ed_selection s = Some r" "edit_op r (td_values td) = Some (ok, ws)"
    and "i < rows" "j < cols" "find_scaling def (table_scaling t) = Some sc" "invert_scaling D sc (ws ! i ! j) = Inl e"
    and "blobs (cell_blob D (table_data_type t) (Some sc)) (concat (take i ws) @ take j (ws ! i)) = Some b"
  shows "\<exists>s'. apply_op D def label edit_op s = Some s' \<and> ed_rom s' = put_at (table_address t) b (ed_rom s) \<and>
    ed_current s' = ed_current s \<and> ed_history s' = ed_history s \<and> ed_dirty s' = ed_dirty s \<and>
    ed_status s' = label @ '': writeback: '' @ error_to_string e"
proof -
  obtain before after where snaps: "is_grid rows cols ws" "take_snapshot (td_values td) r = Some (Inr before)"
      "take_snapshot ws r = Some (Inr after)" "restore before ws = Some (ok, td_values td)"
    using cell_edit.undone [OF assms(1,7,9)] by blast
  have "write_table_values D def t (td\<lparr>td_values := ws\<rparr>) (ed_rom s) = Some (Inl e, put_at (table_address t) b (ed_rom s))"
    by (rule write_table_fails [OF assms(3,4) _ assms(10,11,12)]) (use assms(12-14) snaps(1) in simp_all)
  then show ?thesis using assms(2,5,6,8,9) snaps by (simp add: apply_op_def)
qed

text \<open>In the example the first cell is set, the second, which is not selected, cannot be inverted.\<close>

lemma failed_edit_changes_image_witness:
  "\<exists>s'. apply_op exact_doubles inverse_definition ''set'' (set_cells 50) inverse_editor = Some s' \<and>
     ed_rom inverse_editor = [0, 1, 5, 0] \<and> ed_rom s' = [0, 1, 2, 0] \<and>
     ed_current s' = ed_current inverse_editor \<and> ed_history s' = ed_history inverse_editor \<and> \<not> ed_dirty s'"
proof -
  let ?t = "hd (def_tables inverse_definition)" and ?sc = "demo_scaling\<lparr>scaling_id := ''inv'', formula := InverseDivideScaling 100\<rparr>"
  have table: "find_table inverse_definition (ed_selected inverse_editor) = Some ?t" "table_shape inverse_definition ?t 1 2"
    "table_fits ?t 1 2 (length (ed_rom inverse_editor))"
    by (simp_all add: inverse_definition_def inverse_editor_def demo_editor_def demo_defs find_table_def table_fits_def table_shape_def
        table_bytes_def used_axis_def resolve_axis_def find_axis_def axis_len_def axis_apart_def)
  have scaling: "find_scaling inverse_definition (table_scaling ?t) = Some ?sc" by code_simp
  obtain e where bad: "invert_scaling exact_doubles ?sc ([[50, 0]] ! 0 ! 1) = Inl e"
    by (simp add: invert_scaling_def exact_doubles_def failure_def)
  have good: "blobs (cell_blob exact_doubles (table_data_type ?t) (Some ?sc)) (concat (take 0 [[50, 0]]) @ take 1 ([[50, 0]] ! 0)) = Some [2]"
    by code_simp
  let ?td = "\<lparr>td_axis_x = [0, 1], td_axis_y = [], td_axis_z = [], td_values = [[20, 0]], td_slices = []\<rparr> :: rat table_data"
  have state: "ed_writable inverse_editor" "ed_current inverse_editor = Some ?td" "is_grid 1 2 (td_values ?td)"
    "ed_selection inverse_editor = Some \<lparr>r_start = 0, r_end = 0, c_start = 0, c_end = 0\<rparr>"
    by (simp_all add: inverse_editor_def demo_editor_def is_grid_def)
  have edit: "set_cells 50 \<lparr>r_start = 0, r_end = 0, c_start = 0, c_end = 0\<rparr> (td_values ?td) = Some (ok, [[50, 0 :: rat]])"
    by code_simp
  have "put_at (table_address ?t) [2] (ed_rom inverse_editor) = [0, 1, 2, 0]" "\<not> ed_dirty inverse_editor"
    "ed_rom inverse_editor = [0, 1, 5, 0]"
    by (simp_all add: inverse_definition_def inverse_editor_def demo_editor_def demo_table_def)
  then show ?thesis
    using failed_edit_changes_image [OF set_edit.cell_edit_axioms table state edit _ _ scaling bad good, of "''set''"] by auto
qed

section \<open>Reverting a workflow\<close>

lemma restore_all_reversible:
  assumes "reversible D def e rom rom'" "ed_payload e = TableEdit i before after"
  shows "restore_all D def (e # es) rom' = restore_all D def es rom"
proof -
  let ?s = "\<lparr>ed_rom = rom', ed_writable = True, ed_history = \<lparr>h_edits = [e], h_cursor = 0\<rparr>, ed_selected = [],
    ed_current = None, ed_selection = None, ed_dirty = False, ed_status = []\<rparr>"
  have "\<exists>s'. apply_history_step D def e False ?s = Some s' \<and> ed_rom s' = rom \<and> ed_history s' = ed_history ?s"
    using reversible_undo [OF assms(1), of ?s] by auto
  then show ?thesis
    using assms(2)
    by (auto simp: apply_history_step_def rollback_cursor_def history_redo_def Let_def
        split: option.splits sum.splits prod.splits)
qed

lemma restore_tagged:
  assumes "timeline D def vs s" "n \<le> length (h_edits (ed_history s))" "undo_tagged tag (h_edits (ed_history s)) n = (out, c)"
    and "\<forall>e \<in> set out. \<exists>i before after. ed_payload e = TableEdit i before after"
  shows "restore_all D def out (vs ! n) = Some (vs ! c) \<and> c \<le> n"
  using assms(2-4)
proof (induction n arbitrary: out)
  case (Suc n)
  let ?e = "h_edits (ed_history s) ! n"
  show ?case
  proof (cases "ed_tag ?e = tag")
    case True
    then obtain o' where o: "undo_tagged tag (h_edits (ed_history s)) n = (o', c)" "out = ?e # o'"
      using Suc.prems(2) by (auto split: prod.splits)
    have "reversible D def ?e (vs ! n) (vs ! Suc n)" using assms(1) Suc.prems(1) by (simp add: timeline_def)
    moreover obtain i before after where "ed_payload ?e = TableEdit i before after" using Suc.prems(3) o(2) by auto
    ultimately have "restore_all D def out (vs ! Suc n) = restore_all D def o' (vs ! n)"
      unfolding o(2) by (rule restore_all_reversible)
    then show ?thesis using Suc.IH [OF _ o(1)] Suc.prems(1,3) o(2) by auto
  next
    case False
    then show ?thesis using Suc.prems(2) by auto
  qed
qed simp

lemma undo_tagged_cursor: "undo_tagged tag es n = (out, c) \<Longrightarrow> c = n - length out"
  by (induction n arbitrary: out) (auto split: if_splits prod.splits)

text \<open>C24: Reverting a workflow. In a session's state whose latest edits carry the tag of a workflow, the revert of
  the engine swap takes the image back to the version before those edits, as long as all of them are
  edits of tables; the revert of the other workflow moves the cursor back in the same way but leaves the
  image with all of the workflow's changes in it.\<close>

theorem workflow_reverts:
  assumes "timeline D def vs s" "undo_while_tag ''fa24_swap'' (ed_history s) = (out, h)" "out \<noteq> []"
    and "\<forall>e \<in> set out. \<exists>i before after. ed_payload e = TableEdit i before after"
    and "undo_while_tag ''tgv_egr_delete'' (ed_history s2) = (out2, h2)" "out2 \<noteq> []"
  shows "(\<exists>s'. revert_fa24_swap D def s = Some s' \<and> timeline D def vs s' \<and> h_cursor (ed_history s') = h_cursor (ed_history s) - length out) \<and>
    ed_rom (revert_tgv_egr_delete s2) = ed_rom s2 \<and>
    h_cursor (ed_history (revert_tgv_egr_delete s2)) = h_cursor (ed_history s2) - length out2"
proof -
  have fa: "undo_tagged ''fa24_swap'' (h_edits (ed_history s)) (h_cursor (ed_history s)) = (out, h_cursor h)"
      "h = (ed_history s)\<lparr>h_cursor := h_cursor h\<rparr>"
    using assms(2) by (auto simp: undo_while_tag_def split: prod.splits)
  have tgv: "undo_tagged ''tgv_egr_delete'' (h_edits (ed_history s2)) (h_cursor (ed_history s2)) = (out2, h_cursor h2)"
    using assms(5) by (auto simp: undo_while_tag_def split: prod.splits)
  have t: "h_cursor (ed_history s) \<le> length (h_edits (ed_history s))" "ed_rom s = vs ! h_cursor (ed_history s)" "ed_writable s"
    using assms(1) by (auto simp: timeline_def)
  have r: "restore_all D def out (ed_rom s) = Some (vs ! h_cursor h)" "h_cursor h \<le> h_cursor (ed_history s)"
    using restore_tagged [OF assms(1) t(1) fa(1) assms(4)] t(2) by auto
  let ?s = "s\<lparr>ed_history := h, ed_rom := vs ! h_cursor h, ed_dirty := True\<rparr>"
  have "revert_fa24_swap D def s = Some ?s"
    using assms(2,3) t(3) r(1) by (simp add: revert_fa24_swap_def)
  moreover have "h_edits h = h_edits (ed_history s)" by (subst fa(2)) simp
  then have "timeline D def vs ?s" using assms(1) r(2) by (auto simp: timeline_def)
  ultimately show ?thesis
    using undo_tagged_cursor [OF fa(1)] undo_tagged_cursor [OF tgv] assms(5) by (auto simp: revert_tgv_egr_delete_def)
qed


text \<open>The example editor after a workflow's edit of its table, under either workflow.\<close>

definition demo_workflow :: "string \<Rightarrow> rat editor" where
  "demo_workflow tag = demo_editor\<lparr>ed_rom := [0, 1, 2, 3, 60, 60, 60, 60, 99], ed_history :=
     \<lparr>h_edits = [\<lparr>ed_description = ''swap'', ed_tag = tag, ed_payload = TableEdit ''map''
        \<lparr>snap_rect = \<lparr>r_start = 0, r_end = 1, c_start = 0, c_end = 1\<rparr>, snap_values = [[15, 20], [25, 30]]\<rparr>
        \<lparr>snap_rect = \<lparr>r_start = 0, r_end = 1, c_start = 0, c_end = 1\<rparr>, snap_values = [[40, 40], [40, 40]]\<rparr>\<rparr>], h_cursor = 1\<rparr>\<rparr>"

lemma demo_workflow_timeline:
  "timeline exact_doubles demo_definition [demo_rom, [0, 1, 2, 3, 60, 60, 60, 60, 99]] (demo_workflow tag)"
proof -
  let ?vs = "[[15, 20], [25, 30]] :: rat grid" and ?ws = "[[40, 40], [40, 40]] :: rat grid"
  let ?r = "\<lparr>r_start = 0, r_end = 1, c_start = 0, c_end = 1\<rparr>"
  let ?e = "h_edits (ed_history (demo_workflow tag)) ! 0"
  obtain axs where axs: "axes_read exact_doubles demo_definition demo_rom demo_table axs"
    using demo_shows by (auto simp: shows_table_def demo_editor_def)
  have blob: "table_blob exact_doubles demo_definition demo_table ?ws = Some [60, 60, 60, 60]" by code_simp
  have find: "find_table demo_definition ''map'' = Some demo_table"
    by (simp add: find_table_def demo_definition_def demo_table_def)
  have "holds_grid exact_doubles demo_definition demo_table ?vs demo_rom" "is_grid 2 2 ?vs"
    using demo_shows by (auto simp: shows_table_def demo_editor_def demo_data_def)
  moreover have "set_cells 40 ?r ?vs = Some (ok, ?ws)" by code_simp
  moreover have "take_snapshot ?vs ?r = Some (Inr \<lparr>snap_rect = ?r, snap_values = ?vs\<rparr>)"
      "take_snapshot ?ws ?r = Some (Inr \<lparr>snap_rect = ?r, snap_values = ?ws\<rparr>)" by code_simp+
  moreover have "ed_payload ?e = TableEdit ''map'' \<lparr>snap_rect = ?r, snap_values = ?vs\<rparr> \<lparr>snap_rect = ?r, snap_values = ?ws\<rparr>"
    by (simp add: demo_workflow_def)
  ultimately have "reversible exact_doubles demo_definition ?e demo_rom (put_at (table_address demo_table) [60, 60, 60, 60] demo_rom)"
    by (intro table_edit_reversible [OF demo_shape demo_fits find demo_settles set_edit.cell_edit_axioms _ _ _ blob _ _ axs])
  then show ?thesis by (simp add: timeline_def demo_workflow_def demo_editor_def demo_rom_def demo_table_def)
qed

lemma workflow_reverts_witness:
  "\<exists>s'. revert_fa24_swap exact_doubles demo_definition (demo_workflow ''fa24_swap'') = Some s' \<and>
     h_cursor (ed_history s') = 0 \<and> ed_rom s' = demo_rom \<and>
     h_cursor (ed_history (revert_tgv_egr_delete (demo_workflow ''tgv_egr_delete''))) = 0 \<and>
     ed_rom (revert_tgv_egr_delete (demo_workflow ''tgv_egr_delete'')) = [0, 1, 2, 3, 60, 60, 60, 60, 99]"
proof -
  let ?h = "\<lambda>tag. (ed_history (demo_workflow tag))\<lparr>h_cursor := 0\<rparr>" and ?es = "\<lambda>tag. h_edits (ed_history (demo_workflow tag))"
  have u: "undo_while_tag tag (ed_history (demo_workflow tag)) = (?es tag, ?h tag)" if "tag \<noteq> []" for tag
    using that by (simp add: undo_while_tag_def demo_workflow_def)
  have len: "length (?es tag) = 1" "h_cursor (ed_history (demo_workflow tag)) = 1" "?es tag \<noteq> []" for tag
    by (simp_all add: demo_workflow_def)
  have tables: "\<forall>e \<in> set (?es tag). \<exists>i before after. ed_payload e = TableEdit i before after" for tag
    by (simp add: demo_workflow_def)
  from workflow_reverts [OF demo_workflow_timeline u len(3) tables u len(3)] len
  obtain s' where s': "revert_fa24_swap exact_doubles demo_definition (demo_workflow ''fa24_swap'') = Some s'"
      "timeline exact_doubles demo_definition [demo_rom, [0, 1, 2, 3, 60, 60, 60, 60, 99]] s'" "h_cursor (ed_history s') = 0"
      "ed_rom (revert_tgv_egr_delete (demo_workflow ''tgv_egr_delete'')) = ed_rom (demo_workflow ''tgv_egr_delete'')"
      "h_cursor (ed_history (revert_tgv_egr_delete (demo_workflow ''tgv_egr_delete''))) = 0" by auto
  then have "ed_rom s' = demo_rom" by (simp add: timeline_def)
  with s' show ?thesis by (simp add: demo_workflow_def)
qed

end
