(* ===== verification/Dtc_Toggle.thy ===== *)
theory Dtc_Toggle
  imports Edit_Session
begin

text \<open>
  Trouble-code switches (src/defs/src/defs.cpp): a code's enable bit in its bitmap, and the three ways
  the program toggles it: the checkbox and the bulk buttons of the panel (src/ui/src/panels/dtcs.cpp) and
  the command line's list of codes (src/cli/main.cpp). Each records a byte edit in the history. Audit
  entries, toasts, printing and the saving of the file are left out.
\<close>

section \<open>Codes and bitmaps\<close>

record dtc_bitmap =
  bm_id :: string
  bm_name :: string
  bm_address :: nat
  bm_length :: nat
  bm_endianness :: string

text \<open>The loader admits bits 0 to 7 only.\<close>

record dtc =
  dtc_code :: string
  dtc_name :: string
  dtc_bitmap_id :: string
  dtc_byte :: nat
  dtc_bit :: nat
  dtc_emissions :: bool

record dtc_definition =
  dtc_bitmaps :: "dtc_bitmap list"
  dtc_list :: "dtc list"

definition find_dtc_bitmap :: "dtc_definition \<Rightarrow> string \<Rightarrow> dtc_bitmap option" where
  "find_dtc_bitmap dd i = find (\<lambda>b. bm_id b = i) (dtc_bitmaps dd)"

definition find_dtc :: "dtc_definition \<Rightarrow> string \<Rightarrow> dtc option" where
  "find_dtc dd code = find (\<lambda>d. dtc_code d = code) (dtc_list dd)"

definition dtc_byte_offset :: "bytes \<Rightarrow> dtc_bitmap \<Rightarrow> dtc \<Rightarrow> nat result" where
  "dtc_byte_offset rom bm d =
     (if dtc_byte d \<ge> bm_length bm then
        failure OutOfRange (''dtc '' @ in_quotes (dtc_code d) @ '' byte_offset is outside its bitmap'')
      else
        (let offset = size_t (bm_address bm + dtc_byte d) in
         if offset \<ge> length rom then
           failure OutOfRange (''dtc '' @ in_quotes (dtc_code d) @ '' bitmap byte is past end of ROM'')
         else Inr offset))"

definition dtc_bit_set :: "nat \<Rightarrow> u8 \<Rightarrow> bool" where
  "dtc_bit_set k b \<longleftrightarrow> drop_bit k b AND 1 \<noteq> 0"

definition is_dtc_enabled :: "bytes \<Rightarrow> dtc_bitmap \<Rightarrow> dtc \<Rightarrow> bool result" where
  "is_dtc_enabled rom bm d =
     (case dtc_byte_offset rom bm d of
        Inl e \<Rightarrow> Inl e
      | Inr off \<Rightarrow> map_sum id (dtc_bit_set (dtc_bit d)) (read_u8 rom off))"

definition with_bit :: "bool \<Rightarrow> nat \<Rightarrow> u8 \<Rightarrow> u8" where
  "with_bit enabled k b =
     (let m = ucast (push_bit k (1 :: u32)) in if enabled then b OR m else b AND NOT m)"

definition set_dtc_enabled :: "dtc_bitmap \<Rightarrow> dtc \<Rightarrow> bool \<Rightarrow> bytes \<Rightarrow> byte_change result \<times> bytes" where
  "set_dtc_enabled bm d enabled rom =
     (case dtc_byte_offset rom bm d of
        Inl e \<Rightarrow> (Inl e, rom)
      | Inr off \<Rightarrow>
     (case read_u8 rom off of
        Inl e \<Rightarrow> (Inl e, rom)
      | Inr cur \<Rightarrow>
          (let ch = \<lparr>bc_address = off, bc_before = cur, bc_after = with_bit enabled (dtc_bit d) cur\<rparr> in
           case write_u8 off (bc_after ch) rom of
             (Inl e, rom') \<Rightarrow> (Inl e, rom')
           | (Inr _, rom') \<Rightarrow> (Inr ch, rom'))))"

section \<open>The panel\<close>

text \<open>One round of the loop of the bulk buttons: the image, the changes and the codes so far.\<close>

definition bulk_step :: "dtc_definition \<Rightarrow> bool \<Rightarrow> bool \<Rightarrow> dtc \<Rightarrow> bytes \<times> byte_change list \<times> string list \<Rightarrow>
    bytes \<times> byte_change list \<times> string list" where
  "bulk_step dd emissions_only enable d st =
     (case st of (rom, changes, codes) \<Rightarrow>
        if emissions_only \<and> \<not> dtc_emissions d then st
        else (case find_dtc_bitmap dd (dtc_bitmap_id d) of
          None \<Rightarrow> st
        | Some bm \<Rightarrow>
            (case is_dtc_enabled rom bm d of
               Inl _ \<Rightarrow> st
             | Inr cur \<Rightarrow>
                 if cur = enable then st
                 else (case set_dtc_enabled bm d enable rom of
                   (Inl _, rom') \<Rightarrow> (rom', changes, codes)
                 | (Inr ch, rom') \<Rightarrow>
                     if bc_before ch \<noteq> bc_after ch then (rom', changes @ [ch], codes @ [dtc_code d])
                     else (rom', changes, codes)))))"

definition bulk_loop :: "dtc_definition \<Rightarrow> bool \<Rightarrow> bool \<Rightarrow> bytes \<Rightarrow> bytes \<times> byte_change list \<times> string list" where
  "bulk_loop dd emissions_only enable rom =
     foldl (\<lambda>st d. bulk_step dd emissions_only enable d st) (rom, [], []) (dtc_list dd)"

definition count_text :: "nat \<Rightarrow> string" where
  "count_text n = '' ('' @ dec_string n @ '' DTC'' @ (if n \<noteq> 1 then ''s'' else []) @ '')''"

definition bulk_toggle :: "dtc_definition \<Rightarrow> string \<Rightarrow> bool \<Rightarrow> bool \<Rightarrow> string \<Rightarrow> 'd editor \<Rightarrow> 'd editor" where
  "bulk_toggle dd label emissions_only enable desc_prefix s =
     (if \<not> ed_writable s then s
      else (case bulk_loop dd emissions_only enable (ed_rom s) of (rom', changes, codes) \<Rightarrow>
        if changes = [] then s\<lparr>ed_rom := rom'\<rparr>
        else s\<lparr>ed_rom := rom',
          ed_history := history_record (byte_edit changes (desc_prefix @ count_text (length codes))) (ed_history s),
          ed_dirty := True,
          ed_status := label @ '': '' @ dec_string (length codes) @ '' DTC(s) toggled.''\<rparr>))"

text \<open>The checkbox of one code.\<close>

definition toggle_checkbox :: "dtc_bitmap \<Rightarrow> dtc \<Rightarrow> bool \<Rightarrow> 'd editor \<Rightarrow> 'd editor" where
  "toggle_checkbox bm d toggled s =
     (if \<not> ed_writable s then s\<lparr>ed_status := ''DTC toggle: active ROM is read-only.''\<rparr>
      else (case set_dtc_enabled bm d toggled (ed_rom s) of
        (Inl e, rom') \<Rightarrow> s\<lparr>ed_rom := rom', ed_status := ''DTC toggle failed: '' @ error_to_string e\<rparr>
      | (Inr ch, rom') \<Rightarrow>
          if bc_before ch \<noteq> bc_after ch then
            s\<lparr>ed_rom := rom',
              ed_history := history_record (byte_edit [ch] ((if toggled then ''enable DTC '' else ''disable DTC '') @ dtc_code d))
                (ed_history s),
              ed_dirty := True, ed_status := (if toggled then ''Enabled '' else ''Disabled '') @ dtc_code d\<rparr>
          else s\<lparr>ed_rom := rom'\<rparr>))"

section \<open>The command line\<close>

text \<open>A change of a byte that was changed before updates the earlier entry.\<close>

fun coalesce :: "byte_change \<Rightarrow> byte_change list \<Rightarrow> byte_change list" where
  "coalesce ch [] = [ch]"
| "coalesce ch (c # cs) = (if bc_address c = bc_address ch then c\<lparr>bc_after := bc_after ch\<rparr> # cs else c # coalesce ch cs)"

text \<open>The loop over the list of codes; the first code that cannot be toggled ends the command.\<close>

fun cli_toggles :: "dtc_definition \<Rightarrow> bool \<Rightarrow> string list \<Rightarrow> bytes \<times> byte_change list \<times> string list \<Rightarrow>
    (bytes \<times> byte_change list \<times> string list) option" where
  "cli_toggles dd enable [] st = Some st"
| "cli_toggles dd enable (code # codes) (rom, changes, touched) =
     (case find_dtc dd code of
        None \<Rightarrow> None
      | Some d \<Rightarrow>
     (case find_dtc_bitmap dd (dtc_bitmap_id d) of
        None \<Rightarrow> None
      | Some bm \<Rightarrow>
     (case set_dtc_enabled bm d enable rom of
        (Inl _, _) \<Rightarrow> None
      | (Inr ch, rom') \<Rightarrow>
          if bc_before ch \<noteq> bc_after ch then
            cli_toggles dd enable codes (rom', coalesce ch changes, touched @ [dtc_code d])
          else cli_toggles dd enable codes (rom', changes, touched))))"

fun comma_list :: "string list \<Rightarrow> string" where
  "comma_list [] = []"
| "comma_list [x] = x"
| "comma_list (x # xs) = x @ '', '' @ comma_list xs"

text \<open>The command on an open project; \<open>None\<close> is exit status 1, with nothing saved.\<close>

definition cli_toggle :: "dtc_definition \<Rightarrow> bool \<Rightarrow> string list \<Rightarrow> 'd history \<Rightarrow> bytes \<Rightarrow> ('d history \<times> bytes) option" where
  "cli_toggle dd enable codes h rom =
     (case cli_toggles dd enable codes (rom, [], []) of
        None \<Rightarrow> None
      | Some (rom', changes, touched) \<Rightarrow>
          Some ((if changes \<noteq> [] then
             history_record (byte_edit changes ((if enable then ''enable DTC '' else ''disable DTC '') @ comma_list touched)) h
           else h), rom'))"


section \<open>One switch\<close>

lemma set_dtc_enabledD:
  assumes "set_dtc_enabled bm d enabled rom = (Inr ch, rom')"
  shows "dtc_byte_offset rom bm d = Inr (bc_address ch)" "bc_address ch < length rom" "bc_before ch = rom ! bc_address ch"
    "bc_after ch = with_bit enabled (dtc_bit d) (bc_before ch)" "rom' = rom[bc_address ch := bc_after ch]"
  using assms
  by (auto simp: set_dtc_enabled_def read_u8_def write_u8_def Let_def split: sum.splits if_splits)

lemma set_dtc_enabled_length: "set_dtc_enabled bm d enabled rom = (r, rom') \<Longrightarrow> length rom' = length rom"
  by (auto simp: set_dtc_enabled_def write_u8_def Let_def split: sum.splits if_splits)

lemma set_dtc_enabled_err: "set_dtc_enabled bm d enabled rom = (Inl e, rom') \<Longrightarrow> rom' = rom"
  by (auto simp: set_dtc_enabled_def write_u8_def Let_def split: sum.splits if_splits)

lemma dtc_bit_set_bit: "dtc_bit_set k b \<longleftrightarrow> bit b k"
proof -
  have "drop_bit k b AND 1 = of_bool (odd (drop_bit k b))" by (simp only: and_one_eq mod_2_eq_odd)
  also have "odd (drop_bit k b) = bit b k" by (rule bit_iff_odd_drop_bit [symmetric])
  finally show ?thesis by (cases "bit b k") (simp_all add: dtc_bit_set_def)
qed

lemma with_bit_bit:
  assumes "k < 8" "j < 8"
  shows "bit (with_bit enabled k b) j = (if j = k then enabled else bit b j)"
proof -
  have m: "bit (ucast (2 ^ k :: u32) :: u8) i \<longleftrightarrow> i = k" if "i < 8" for i
    using assms that by (auto simp: bit_ucast_iff bit_exp_iff)
  show ?thesis using assms by (auto simp: with_bit_def Let_def bit_or_iff bit_and_iff bit_not_iff m)
qed

text \<open>Switching on can only raise the byte, switching off only lower it.\<close>

definition moved :: "bool \<Rightarrow> u8 \<Rightarrow> u8 \<Rightarrow> bool" where
  "moved enable a b \<longleftrightarrow> (if enable then a < b else b < a)"

lemma moved_trans: "moved enable a b \<Longrightarrow> moved enable b c \<Longrightarrow> moved enable a c"
  by (auto simp: moved_def split: if_splits)

lemma moved_irrefl: "\<not> moved enable a a"
  by (simp add: moved_def)

lemma with_bit_moved: "with_bit enable k b \<noteq> b \<Longrightarrow> moved enable b (with_bit enable k b)"
  by (cases enable) (simp_all add: moved_def with_bit_def Let_def less_le le_word_or2 word_and_le2)

section \<open>A batch of changes\<close>

text \<open>Changes made one after the other, each from the byte it finds, all in one direction.\<close>

definition chained :: "bool \<Rightarrow> bytes \<Rightarrow> byte_change list \<Rightarrow> bool" where
  "chained enable rom cs \<longleftrightarrow> (\<forall>xs c ys. cs = xs @ c # ys \<longrightarrow> bc_address c < length rom \<and>
     bc_before c = put_side True xs rom ! bc_address c \<and> moved enable (bc_before c) (bc_after c))"

lemma chained_Nil: "chained enable rom []"
  by (simp add: chained_def)

lemma chained_snoc:
  "chained enable rom (cs @ [c]) \<longleftrightarrow> chained enable rom cs \<and> bc_address c < length rom \<and>
    bc_before c = put_side True cs rom ! bc_address c \<and> moved enable (bc_before c) (bc_after c)"
proof
  assume "chained enable rom (cs @ [c])"
  then show "chained enable rom cs \<and> bc_address c < length rom \<and>
      bc_before c = put_side True cs rom ! bc_address c \<and> moved enable (bc_before c) (bc_after c)"
    unfolding chained_def by (metis append.assoc append_Cons)
next
  assume *: "chained enable rom cs \<and> bc_address c < length rom \<and>
      bc_before c = put_side True cs rom ! bc_address c \<and> moved enable (bc_before c) (bc_after c)"
  show "chained enable rom (cs @ [c])"
    unfolding chained_def
  proof (intro allI impI)
    fix xs d ys assume "cs @ [c] = xs @ d # ys"
    then consider "ys = []" "xs = cs" "d = c" | zs where "ys = zs @ [c]" "cs = xs @ d # zs"
      by (cases ys rule: rev_cases) auto
    then show "bc_address d < length rom \<and> bc_before d = put_side True xs rom ! bc_address d \<and> moved enable (bc_before d) (bc_after d)"
      using * by cases (auto simp: chained_def)
  qed
qed

lemma chained_prefix: "chained enable rom (xs @ ys) \<Longrightarrow> chained enable rom xs"
  by (induction ys rule: rev_induct) (simp_all add: chained_snoc flip: append_assoc)

lemma chained_moved:
  "chained enable rom cs \<Longrightarrow> a \<in> bc_address ` set cs \<Longrightarrow> moved enable (rom ! a) (put_side True cs rom ! a)"
proof (induction cs rule: rev_induct)
  case (snoc c cs)
  then have c: "chained enable rom cs" "bc_address c < length rom" "bc_before c = put_side True cs rom ! bc_address c"
    "moved enable (bc_before c) (bc_after c)" by (auto simp: chained_snoc)
  show ?case
  proof (cases "a = bc_address c")
    case True
    show ?thesis
    proof (cases "a \<in> bc_address ` set cs")
      case True
      with snoc.IH [OF c(1)] c \<open>a = bc_address c\<close> show ?thesis by (auto simp: side_def intro: moved_trans)
    next
      case False
      with c True show ?thesis by (simp add: side_def put_side_other)
    qed
  next
    case False
    with snoc.IH [OF c(1)] snoc.prems(2) show ?thesis by auto
  qed
qed simp

lemma last_repeated:
  "\<not> distinct (map f cs) \<Longrightarrow> \<exists>xs c ys. cs = xs @ c # ys \<and> f c \<in> f ` set xs \<and> f c \<notin> f ` set ys"
proof (induction cs rule: rev_induct)
  case (snoc x cs)
  show ?case
  proof (cases "f x \<in> f ` set cs")
    case True
    then show ?thesis by (intro exI [of _ cs] exI [of _ x] exI [of _ "[]"]) simp
  next
    case False
    with snoc obtain xs c ys where "cs = xs @ c # ys" "f c \<in> f ` set xs" "f c \<notin> f ` set ys" by auto
    with False show ?thesis by (intro exI [of _ xs] exI [of _ c] exI [of _ "ys @ [x]"]) auto
  qed
qed simp

lemma chained_distinct:
  assumes "chained enable rom cs" "distinct (map bc_address cs)"
  shows "changes_between cs rom (put_side True cs rom)"
  unfolding changes_between_def
proof (intro conjI ballI allI impI)
  fix c assume "c \<in> set cs"
  then obtain xs ys where s: "cs = xs @ c # ys" by (meson split_list)
  then have "bc_address c \<notin> bc_address ` set xs" "bc_address c \<notin> bc_address ` set ys" using assms(2) by auto
  moreover have c: "bc_address c < length rom" "bc_before c = put_side True xs rom ! bc_address c"
    using assms(1) s by (auto simp: chained_def)
  ultimately show "bc_before c = rom ! bc_address c" "bc_after c = put_side True cs rom ! bc_address c" "bc_address c < length rom"
    using put_side_last [OF c(1), of ys True xs] by (simp_all add: s put_side_other side_def del: put_side_simps)
qed (use assms(2) in \<open>auto simp: put_side_other\<close>)

text \<open>Putting the old values back in the order of the changes restores the image exactly when no byte was
  changed twice.\<close>

lemma chained_undo:
  assumes "chained enable rom cs"
  shows "put_side False cs (put_side True cs rom) = rom \<longleftrightarrow> distinct (map bc_address cs)"
proof
  assume "distinct (map bc_address cs)"
  then show "put_side False cs (put_side True cs rom) = rom" using changes_put(1) chained_distinct assms by blast
next
  assume eq: "put_side False cs (put_side True cs rom) = rom"
  show "distinct (map bc_address cs)"
  proof (rule ccontr)
    assume "\<not> distinct (map bc_address cs)"
    then obtain xs c ys where c: "cs = xs @ c # ys" "bc_address c \<in> bc_address ` set xs" "bc_address c \<notin> bc_address ` set ys"
      using last_repeated by blast
    then have ch: "chained enable rom (xs @ c # ys)" using assms by simp
    then have b: "bc_before c = put_side True xs rom ! bc_address c" "bc_address c < length rom" "chained enable rom xs"
      using chained_prefix [OF ch] unfolding chained_def by blast+
    have "rom ! bc_address c = bc_before c"
      using put_side_last [of c "put_side True cs rom" ys False xs] c(1,3) b(2) eq by (simp add: side_def)
    with chained_moved [OF b(3) c(2)] b(1) moved_irrefl show False by metis
  qed
qed


section \<open>The bulk buttons\<close>

text \<open>What the loop has done after some codes: its changes are chained and make up the image.\<close>

lemma bulk_step_chained:
  assumes "bulk_step dd em en d (r, cs, codes) = (r', cs', codes')"
    and "chained en rom cs" "r = put_side True cs rom"
  shows "chained en rom cs' \<and> r' = put_side True cs' rom"
proof -
  have "chained en rom (cs @ [ch]) \<and> r1 = put_side True (cs @ [ch]) rom"
    if "set_dtc_enabled bm d en r = (Inr ch, r1)" "bc_before ch \<noteq> bc_after ch" for bm ch r1
  proof -
    note D = set_dtc_enabledD [OF that(1)]
    have "moved en (bc_before ch) (bc_after ch)" unfolding D(4) using that(2) D(4) by (intro with_bit_moved) simp
    moreover have "bc_address ch < length rom" "bc_before ch = put_side True cs rom ! bc_address ch"
      using D(2,3) by (simp_all add: assms(3))
    moreover have "r1 = put_side True (cs @ [ch]) rom" using D(5) by (simp add: side_def assms(3))
    ultimately show ?thesis using assms(2) by (simp add: chained_snoc)
  qed
  moreover have "r1 = r" if "set_dtc_enabled bm d en r = (Inr ch, r1)" "bc_before ch = bc_after ch" for bm ch r1
    unfolding set_dtc_enabledD(5) [OF that(1)] that(2) [symmetric] set_dtc_enabledD(3) [OF that(1)] by simp
  moreover have "r1 = r" if "set_dtc_enabled bm d en r = (Inl e, r1)" for bm e r1
    using set_dtc_enabled_err [OF that] .
  ultimately show ?thesis
    using assms by (auto simp: bulk_step_def split: if_splits option.splits sum.splits prod.splits)
qed

lemma bulk_loop_chained:
  assumes "bulk_loop dd em en rom = (rom', cs, codes)"
  shows "chained en rom cs \<and> rom' = put_side True cs rom"
proof -
  have "chained en rom (fst (snd st')) \<and> fst st' = put_side True (fst (snd st')) rom"
    if "foldl (\<lambda>st d. bulk_step dd em en d st) st ds = st'" "chained en rom (fst (snd st))"
      "fst st = put_side True (fst (snd st)) rom" for ds st st'
    using that
  proof (induction ds arbitrary: st)
    case (Cons d ds)
    obtain r cs codes r1 cs1 codes1 where st: "st = (r, cs, codes)" "bulk_step dd em en d st = (r1, cs1, codes1)"
      by (metis prod_cases3)
    with bulk_step_chained [of dd em en d r cs codes r1 cs1 codes1 rom] Cons.prems Cons.IH [of "(r1, cs1, codes1)"]
    show ?case by simp
  qed simp
  from this [of "(rom, [], [])" "dtc_list dd"] assms show ?thesis by (simp add: bulk_loop_def chained_Nil)
qed

text \<open>The bit of the image a code's switch is, for the codes the button covers.\<close>

definition switch_at :: "dtc_definition \<Rightarrow> bool \<Rightarrow> bytes \<Rightarrow> nat \<Rightarrow> nat \<Rightarrow> dtc \<Rightarrow> bool" where
  "switch_at dd em rom i k d \<longleftrightarrow> \<not> (em \<and> \<not> dtc_emissions d) \<and> dtc_bit d = k \<and>
     (case find_dtc_bitmap dd (dtc_bitmap_id d) of None \<Rightarrow> False | Some bm \<Rightarrow> dtc_byte_offset rom bm d = Inr i)"

lemma dtc_byte_offset_inside: "dtc_byte_offset rom bm d = Inr off \<Longrightarrow> off < length rom"
  by (auto simp: dtc_byte_offset_def Let_def split: if_splits)

lemma switch_at_cong: "length rom' = length rom \<Longrightarrow> switch_at dd em rom' i k d = switch_at dd em rom i k d"
  by (simp add: switch_at_def dtc_byte_offset_def split: option.splits)

lemma bulk_step_effect:
  assumes "bulk_step dd em en d (r, cs, codes) = (r', st)" "dtc_bit d < 8" "i < length r" "k < 8"
  shows "length r' = length r \<and> bit (r' ! i) k = (if switch_at dd em r i k d then en else bit (r ! i) k)"
proof (cases "\<not> (em \<and> \<not> dtc_emissions d) \<and> (\<exists>bm off. find_dtc_bitmap dd (dtc_bitmap_id d) = Some bm \<and> dtc_byte_offset r bm d = Inr off)")
  case False
  then have "r' = r" using assms(1)
    by (auto simp: bulk_step_def is_dtc_enabled_def split: if_splits option.splits sum.splits)
  with False show ?thesis by (auto simp: switch_at_def split: option.splits)
next
  case True
  then obtain bm off where bm: "\<not> (em \<and> \<not> dtc_emissions d)" "find_dtc_bitmap dd (dtc_bitmap_id d) = Some bm" "dtc_byte_offset r bm d = Inr off"
    by blast
  have off: "off < length r" by (rule dtc_byte_offset_inside [OF bm(3)])
  have at: "switch_at dd em r i k d \<longleftrightarrow> k = dtc_bit d \<and> i = off" using bm by (auto simp: switch_at_def)
  have cur: "is_dtc_enabled r bm d = Inr (bit (r ! off) (dtc_bit d))"
    using bm(3) off by (simp add: is_dtc_enabled_def read_u8_def dtc_bit_set_bit)
  have set: "set_dtc_enabled bm d en r = (Inr \<lparr>bc_address = off, bc_before = r ! off, bc_after = with_bit en (dtc_bit d) (r ! off)\<rparr>,
      r[off := with_bit en (dtc_bit d) (r ! off)])"
    using bm(3) off by (simp add: set_dtc_enabled_def read_u8_def write_u8_def Let_def)
  show ?thesis
  proof (cases "bit (r ! off) (dtc_bit d) = en")
    case True
    then have "r' = r" using assms(1) bm cur by (simp add: bulk_step_def)
    with True show ?thesis by (auto simp: at)
  next
    case False
    then have "r' = r[off := with_bit en (dtc_bit d) (r ! off)]"
      using assms(1) bm cur set by (auto simp: bulk_step_def split: if_splits)
    then show ?thesis
      using off with_bit_bit [OF assms(2,4), of en "r ! off"] by (auto simp: at nth_list_update)
  qed
qed

text \<open>C20: What a bulk button does to the image. Of all bits of the image, those that are the switch of a code the
  button covers have the value asked for afterwards, and every other bit is as it was.\<close>

theorem bulk_toggle_effect:
  assumes "list_all (\<lambda>d. dtc_bit d < 8) (dtc_list dd)" "bulk_loop dd em en rom = (rom', changes, codes)" "i < length rom" "k < 8"
  shows "length rom' = length rom \<and>
    bit (rom' ! i) k = (if list_ex (switch_at dd em rom i k) (dtc_list dd) then en else bit (rom ! i) k)"
proof -
  have "length (fst (foldl (\<lambda>st d. bulk_step dd em en d st) st ds)) = length (fst st) \<and>
      bit (fst (foldl (\<lambda>st d. bulk_step dd em en d st) st ds) ! i) k =
      (if list_ex (switch_at dd em (fst st) i k) ds then en else bit (fst st ! i) k)"
    if "list_all (\<lambda>d. dtc_bit d < 8) ds" "i < length (fst st)" for ds st
    using that
  proof (induction ds arbitrary: st)
    case (Cons d ds)
    obtain r cs codes r1 st1 where st: "st = (r, cs, codes)" "bulk_step dd em en d st = (r1, st1)" by (metis prod_cases3 surj_pair)
    then have one: "length r1 = length r" "bit (r1 ! i) k = (if switch_at dd em r i k d then en else bit (r ! i) k)"
      using bulk_step_effect [of dd em en d r cs codes r1 st1 i k] Cons.prems assms(4) by simp_all
    have "switch_at dd em r1 i k = switch_at dd em r i k" using switch_at_cong [OF one(1)] by (intro ext) simp
    then show ?case using Cons.IH [of "(r1, st1)"] Cons.prems st one by auto
  qed simp
  from this [OF assms(1), of "(rom, [], [])"] assms(2,3) show ?thesis by (simp add: bulk_loop_def)
qed

text \<open>C14: Undo after a bulk button. The button toggles its codes in one edit of the history, but undo after it gives
  back the image of before exactly when no two of the toggled codes share a byte of a bitmap; when two
  do, undo leaves codes toggled.\<close>

theorem bulk_toggle_undo:
  assumes "ed_writable s" "h_cursor (ed_history s) \<le> length (h_edits (ed_history s))"
    and "bulk_loop dd em en (ed_rom s) = (rom', changes, codes)" "changes \<noteq> []"
  shows "\<exists>u. do_undo D def (bulk_toggle dd label em en desc s) = Some u \<and>
    (ed_rom u = ed_rom s \<longleftrightarrow> distinct (map bc_address changes))"
proof -
  let ?s = "bulk_toggle dd label em en desc s"
  have ch: "chained en (ed_rom s) changes" "rom' = put_side True changes (ed_rom s)" using bulk_loop_chained [OF assms(3)] by auto
  have s: "ed_rom ?s = rom'" "ed_writable ?s" "\<exists>t. ed_history ?s = history_record (byte_edit changes t) (ed_history s)"
    using assms(1,3,4) by (auto simp: bulk_toggle_def)
  then obtain t where t: "ed_history ?s = history_record (byte_edit changes t) (ed_history s)" by blast
  have "\<forall>c \<in> set changes. bc_address c < length rom'"
  proof
    fix c assume "c \<in> set changes"
    then obtain xs ys where "changes = xs @ c # ys" by (meson split_list)
    then have "bc_address c < length (ed_rom s)" using ch(1) unfolding chained_def by blast
    then show "bc_address c < length rom'" by (simp add: ch(2))
  qed
  then have replay: "replay_bytes False changes rom' = (Inl (), put_side False changes rom')" by (rule replay_bytes_ok)
  have "\<exists>u. do_undo D def ?s = Some u \<and> ed_rom u = put_side False changes rom'"
    using s(1,2) t assms(2) replay
    by (auto simp: do_undo_def history_undo_def history_record_def Let_def nth_append apply_history_step_def byte_edit_def)
  then show ?thesis using chained_undo [OF ch(1)] ch(2) by auto
qed

text \<open>Two codes in one byte, both enabled, and one in another.\<close>

definition demo_dtcs :: dtc_definition where
  "demo_dtcs = \<lparr>dtc_bitmaps = [\<lparr>bm_id = ''b'', bm_name = [], bm_address = 1, bm_length = 2, bm_endianness = ''big''\<rparr>],
     dtc_list = [\<lparr>dtc_code = ''P0401'', dtc_name = [], dtc_bitmap_id = ''b'', dtc_byte = 0, dtc_bit = 1, dtc_emissions = True\<rparr>,
       \<lparr>dtc_code = ''P0420'', dtc_name = [], dtc_bitmap_id = ''b'', dtc_byte = 0, dtc_bit = 4, dtc_emissions = True\<rparr>,
       \<lparr>dtc_code = ''P0500'', dtc_name = [], dtc_bitmap_id = ''b'', dtc_byte = 1, dtc_bit = 0, dtc_emissions = False\<rparr>]\<rparr>"

definition dtc_editor :: "bytes \<Rightarrow> rat editor" where
  "dtc_editor rom = \<lparr>ed_rom = rom, ed_writable = True, ed_history = \<lparr>h_edits = [], h_cursor = 0\<rparr>, ed_selected = [],
     ed_current = None, ed_selection = None, ed_dirty = False, ed_status = []\<rparr>"

lemma bulk_toggle_undo_witness:
  "ed_rom (bulk_toggle demo_dtcs ''Disable all'' False False ''disable all DTCs'' (dtc_editor [7, 0xFF, 0xFF])) = [7, 0xED, 0xFE] \<and>
   (\<exists>u. do_undo exact_doubles demo_definition (bulk_toggle demo_dtcs ''Disable all'' False False ''disable all DTCs'' (dtc_editor [7, 0xFF, 0xFF])) = Some u \<and>
     ed_rom u \<noteq> [7, 0xFF, 0xFF]) \<and>
   (\<exists>u. do_undo exact_doubles demo_definition (bulk_toggle demo_dtcs ''Disable all'' False False ''disable all DTCs'' (dtc_editor [7, 0xEF, 0xFF])) = Some u \<and>
     ed_rom u = [7, 0xEF, 0xFF])"
proof -
  have b: "bulk_loop demo_dtcs False False [7, 0xFF, 0xFF] =
      ([7, 0xED, 0xFE], [\<lparr>bc_address = 1, bc_before = 0xFF, bc_after = 0xFD\<rparr>, \<lparr>bc_address = 1, bc_before = 0xFD, bc_after = 0xED\<rparr>,
        \<lparr>bc_address = 2, bc_before = 0xFF, bc_after = 0xFE\<rparr>], [''P0401'', ''P0420'', ''P0500''])" by code_simp
  have c: "bulk_loop demo_dtcs False False [7, 0xEF, 0xFF] =
      ([7, 0xED, 0xFE], [\<lparr>bc_address = 1, bc_before = 0xEF, bc_after = 0xED\<rparr>,
        \<lparr>bc_address = 2, bc_before = 0xFF, bc_after = 0xFE\<rparr>], [''P0401'', ''P0500''])" by code_simp
  have ed: "ed_rom (dtc_editor x) = x" "ed_writable (dtc_editor x)" "ed_history (dtc_editor x) = \<lparr>h_edits = [], h_cursor = 0\<rparr>" for x
    by (simp_all add: dtc_editor_def)
  show ?thesis
    using bulk_toggle_undo [of "dtc_editor [7, 0xFF, 0xFF]" demo_dtcs False False _ _ _ exact_doubles demo_definition "''Disable all''" "''disable all DTCs''"]
      bulk_toggle_undo [of "dtc_editor [7, 0xEF, 0xFF]" demo_dtcs False False _ _ _ exact_doubles demo_definition "''Disable all''" "''disable all DTCs''"] b c
    by (simp add: ed) (simp add: bulk_toggle_def ed)
qed

lemma bulk_toggle_effect_witness:
  "\<not> bit (fst (bulk_loop demo_dtcs True False [7, 0xFF, 0xFF]) ! 1) 4 \<and> bit (fst (bulk_loop demo_dtcs True False [7, 0xFF, 0xFF]) ! 2) 0"
proof -
  have all: "list_all (\<lambda>d. dtc_bit d < 8) (dtc_list demo_dtcs)" by (simp add: demo_dtcs_def)
  have "list_ex (switch_at demo_dtcs True [7, 0xFF, 0xFF] 1 4) (dtc_list demo_dtcs)"
    "\<not> list_ex (switch_at demo_dtcs True [7, 0xFF, 0xFF] 2 0) (dtc_list demo_dtcs)" by code_simp+
  then show ?thesis
    using bulk_toggle_effect [OF all, of True False "[7, 0xFF, 0xFF]" _ _ _ 1 4]
      bulk_toggle_effect [OF all, of True False "[7, 0xFF, 0xFF]" _ _ _ 2 0]
    by (cases "bulk_loop demo_dtcs True False [7, 0xFF, 0xFF]") simp
qed

section \<open>The command line\<close>

lemma coalesce_between:
  assumes "changes_between cs rom0 rom" "bc_address ch < length rom" "bc_before ch = rom ! bc_address ch"
  shows "changes_between (coalesce ch cs) rom0 (rom[bc_address ch := bc_after ch])"
proof -
  have addr: "bc_address ` set (coalesce ch cs) = insert (bc_address ch) (bc_address ` set cs)" for cs
    by (induction cs) auto
  have dist: "distinct (map bc_address cs) \<Longrightarrow> distinct (map bc_address (coalesce ch cs))" for cs
  proof (induction cs)
    case (Cons c cs)
    then show ?case using addr [of cs] by auto
  qed simp
  have elem: "c \<in> set (coalesce ch cs) \<Longrightarrow> distinct (map bc_address cs) \<Longrightarrow>
      (c \<in> set cs \<and> bc_address c \<noteq> bc_address ch) \<or> (c = ch \<and> bc_address ch \<notin> bc_address ` set cs) \<or>
      (\<exists>c' \<in> set cs. bc_address c' = bc_address ch \<and> c = c'\<lparr>bc_after := bc_after ch\<rparr>)" for c cs
    by (induction cs) (force split: if_splits simp: image_iff)+
  have len: "length rom = length rom0" using assms(1) by (simp add: changes_between_def)
  show ?thesis
    unfolding changes_between_def
  proof (intro conjI ballI allI impI)
    show "distinct (map bc_address (coalesce ch cs))" using dist assms(1) by (simp add: changes_between_def)
    fix c assume "c \<in> set (coalesce ch cs)"
    then show "bc_address c < length rom0" "bc_before c = rom0 ! bc_address c" "bc_after c = rom[bc_address ch := bc_after ch] ! bc_address c"
      using elem [of c cs] assms len by (auto simp: changes_between_def)
  next
    fix i assume "i < length rom0" "i \<notin> bc_address ` set (coalesce ch cs)"
    then show "rom[bc_address ch := bc_after ch] ! i = rom0 ! i" using assms(1) addr [of cs] by (auto simp: changes_between_def)
  qed (use len in simp)
qed

lemma cli_toggles_between:
  "cli_toggles dd en codes (rom, cs, touched) = Some (rom', cs', touched') \<Longrightarrow> changes_between cs rom0 rom \<Longrightarrow>
    changes_between cs' rom0 rom'"
proof (induction codes arbitrary: rom cs touched)
  case (Cons code codes)
  obtain d bm ch r where s: "set_dtc_enabled bm d en rom = (Inr ch, r)"
    and go: "if bc_before ch \<noteq> bc_after ch then cli_toggles dd en codes (r, coalesce ch cs, touched @ [dtc_code d]) = Some (rom', cs', touched')
      else cli_toggles dd en codes (r, cs, touched) = Some (rom', cs', touched')"
    using Cons.prems(1) by (auto split: option.splits sum.splits prod.splits if_splits)
  note ch = set_dtc_enabledD [OF s]
  show ?case
  proof (cases "bc_before ch = bc_after ch")
    case True
    then have "r = rom" using ch by simp
    with Cons.IH Cons.prems(2) go True show ?thesis by auto
  next
    case False
    with Cons.IH coalesce_between [OF Cons.prems(2) ch(2,3)] go ch(5) show ?thesis by auto
  qed
qed simp

text \<open>C22: The command line's toggle of a list of codes can be undone. When the command succeeds, either no bit had to
  change and the image is as it was, or one edit was recorded whose undo step takes the new image back
  to the old one and whose redo step does the converse, however many of the codes share a byte.\<close>

theorem cli_toggle_reversible:
  assumes "cli_toggle dd en codes h rom = Some (h', rom')"
  shows "(h' = h \<and> rom' = rom) \<or> (\<exists>e. h' = history_record e h \<and> reversible D def e rom rom')"
proof -
  obtain cs touched where c: "cli_toggles dd en codes (rom, [], []) = Some (rom', cs, touched)"
    and h: "h' = (if cs \<noteq> [] then history_record (byte_edit cs ((if en then ''enable DTC '' else ''disable DTC '') @ comma_list touched)) h else h)"
    using assms by (auto simp: cli_toggle_def split: option.splits)
  have b: "changes_between cs rom rom'"
    by (rule cli_toggles_between [OF c]) (simp add: changes_between_def)
  show ?thesis
  proof (cases "cs = []")
    case True
    then show ?thesis using h b changes_put(2) [OF b] by simp
  next
    case False
    have "reversible D def (byte_edit cs t) rom rom'" for t
      by (rule byte_edit_reversible [OF b]) (simp add: byte_edit_def)
    with False h show ?thesis by auto
  qed
qed

lemma cli_toggle_reversible_witness:
  "\<exists>h' e. cli_toggle demo_dtcs False [''P0420'', ''P0401''] \<lparr>h_edits = [], h_cursor = 0\<rparr> [7, 0xFF, 0xFF] = Some (h', [7, 0xED, 0xFF]) \<and>
     h' = history_record e \<lparr>h_edits = [], h_cursor = 0\<rparr> \<and> reversible exact_doubles demo_definition e [7, 0xFF, 0xFF] [7, 0xED, 0xFF]"
proof -
  let ?h = "\<lparr>h_edits = [], h_cursor = 0\<rparr> :: rat history"
  have "map_option (\<lambda>(h, r). (h_cursor h, r)) (cli_toggle demo_dtcs False [''P0420'', ''P0401''] ?h [7, 0xFF, 0xFF]) = Some (1, [7, 0xED, 0xFF])"
    by code_simp
  then obtain h' where h': "cli_toggle demo_dtcs False [''P0420'', ''P0401''] ?h [7, 0xFF, 0xFF] = Some (h', [7, 0xED, 0xFF])" "h_cursor h' = 1"
    by auto
  from cli_toggle_reversible [OF h'(1), of exact_doubles demo_definition] h' show ?thesis by auto
qed

end
