(* ===== verification/Spec2Isabelle.thy ===== *)
theory Spec2Isabelle
  imports Core_Error Crc32 Transport Uds_Props Uds_Client Flash_Read Flash_Plan Flash_Manifest
    Flash_Execute Flash_Safety Flash_Report Subaru_Security Bulk_Cipher Ssm_Read Audit_Log
    Codegen_Props Patch_Props Graph_Props Rom_Image Checksum Edit_Props Dtc_Toggle
begin

text \<open>
  A model of the protocol and flashing core of SubuwuTuner, a tuner for Subaru ECUs, of its
  compiler for custom features and of the editing of calibrations, with the theorems that make them
  correct.

  \<^bold>\<open>The program.\<close> A \<^emph>\<open>transport\<close> (\<open>src/transport\<close>) carries request and response frames to an ECU.
  Two protocol clients sit on it: UDS (\<open>src/ecu/src/uds.cpp\<close>) and Subaru Select Monitor
  (\<open>src/ecu/src/ssm.cpp\<close>), each a set of request builders and response parsers and a client that
  sends one and parses the other. SecurityAccess keys come from \<open>subaru_security.cpp\<close>, the
  encrypted bulk transfer from \<open>bulk_reflash_cipher.cpp\<close>. The \<open>Flasher\<close> (\<open>src/flash/src/flash.cpp\<close>)
  reads ROMs in chunks, computes which sectors differ, and executes a reflash plan, journalling
  each sector in a manifest that a resumed flash reads back. What happened is recorded in an
  append-only audit log (\<open>src/audit\<close>), one checksummed JSON line per entry. Custom features are
  dataflow graphs; \<open>src/feature_codegen\<close> compiles their IR to machine code for hooks of the ECU's
  firmware, and \<open>src/feature_patch\<close> inserts that code into a ROM image, diverts the firmware to it and
  makes a flash plan of the result. A calibration is edited as tables in engineering units: \<open>src/rom\<close>
  reads and writes the bytes of an image, \<open>src/defs\<close> gives them types, scalings and the shape of tables,
  \<open>src/edit\<close> changes the cells and keeps a history, the user interface (\<open>src/ui\<close>) joins them, and
  \<open>src/flash/src/checksum.cpp\<close> repairs the checksums of the edited image before it is flashed.

  \<^bold>\<open>The theories.\<close>
  \<^item> \<open>ST_Prelude\<close>: words, number formatting, big-endian bytes. \<open>Core_Error\<close>: error codes, errors and
    results (\<open>error.hpp\<close>, \<open>error.cpp\<close>). \<open>Crc32\<close>: \<open>crc32.hpp\<close>; the table loop is the serial shift
    register, and one changed byte changes the sum.
  \<^item> \<open>Transport\<close>: the interface as a record of functions over the transport's state,
    \<open>MockTransport\<close> (\<open>mock.cpp\<close>), a recording wrapper, and the locale \<open>logged_transport\<close> of what a
    client may assume of a transport, interpreted on both.
  \<^item> \<open>Uds_Codec\<close>, \<open>Uds_Client\<close>: all of \<open>uds.cpp\<close>, one definition per builder, parser and client
    operation. \<open>Uds_Props\<close>: which responses are accepted, and what the ECU reads back from the
    memory requests.
  \<^item> \<open>Ssm\<close>, \<open>Ssm_Props\<close>: \<open>ssm.cpp\<close> in both framings; \<open>Ssm_Read\<close>: the dump over SSM and both run
    against an ECU that decodes the requests and serves a memory.
  \<^item> \<open>Feistel\<close>: a locale for Feistel networks over 16-bit halves. \<open>Subaru_Security\<close>: the tables and
    key derivations, \<open>Bulk_Cipher\<close>: the 0xB6 cipher; both interpret the locale on their own round
    functions, which gives inversion and bijectivity.
  \<^item> \<open>Flash_Read\<close>: \<open>probe_max_chunk\<close> and \<open>read_full_rom\<close>. \<open>Flash_Plan\<close>: plans, reports,
    \<open>compute_delta\<close>, \<open>compute_delta_layout\<close>, payload text. \<open>Flash_Manifest\<close>: \<open>build_manifest\<close>,
    \<open>plan_resume\<close>.
  \<^item> \<open>Effects\<close>: imperative code with early returns as functions to an optional outcome and state,
    weakest preconditions and invariants. \<open>Flash_Execute\<close>: \<open>Flasher::execute\<close> in it, stage by
    stage. \<open>Flash_Safety\<close>: the run terminates and every frame it sends is allowed by the plan
    (locale \<open>bus_invariant\<close>, with \<open>logged_transport\<close> as a sublocale). \<open>Flash_Trace\<close>: exchanges recorded with
    their answers, what the exchanges of one sector amount to (\<open>told\<close>), and the weakest preconditions of the
    flasher's building blocks on a recorded transport. \<open>Flash_Report\<close>: the report of a run says what the
    exchanges say, flag by flag and byte by byte, on success and on every early return.
  \<^item> \<open>Audit_Codec\<close>, \<open>Audit_Props\<close>, \<open>Audit_Log\<close>: the line format with its parser, its round trip,
    and the log on a disk with failures.
  \<^item> \<open>Allocators\<close>: \<open>RomAllocator\<close> and \<open>RamAllocator\<close> with the locale \<open>allocator\<close> of what their callers
    rely on, interpreted on both.
  \<^item> \<open>Sh2a\<close>: the SH-2A encoders (\<open>sh2a.hpp\<close>) and the machine they are proved against.
    \<open>Codegen_Emit\<close>, \<open>Codegen_Run\<close>: \<open>FragmentEmitter\<close>, read as a list of symbolic instructions, and
    what the machine does at each. \<open>Codegen_Prims\<close>: one fragment per primitive, each proved to
    compute \<open>primitive_result\<close>.
  \<^item> \<open>Feature_Ir\<close>: the IR of custom features and the hooks and regions of a pack. \<open>Codegen_Sh2a\<close>:
    \<open>Sh2aBackend::compile\<close>, \<open>gate_patch\<close>, \<open>select_backend\<close>. \<open>Codegen_Exec\<close>, \<open>Codegen_Walk\<close>,
    \<open>Codegen_Correct\<close>, \<open>Codegen_Compile\<close>, \<open>Codegen_Props\<close>: composition of code segments, the operand
    walk (topological order, separate slots), the reference semantics \<open>evaluates\<close> of the IR, and the
    compiler theorem: a called hook returns with the value of its first store in that store's slot.
  \<^item> \<open>Patch_Splice\<close>: the jumps of \<open>splice_sh2a.cpp\<close> and \<open>splice_rh850.cpp\<close>, run on the SH-2A machine and on
    a model of the RH850 instructions they use. \<open>Patch_Manifest\<close>: \<open>manifest.cpp\<close>. \<open>Patch_Insert\<close>:
    \<open>inserter.cpp\<close>, with the list of writes that a successful run comes to; the claims are those of the
    interpretation \<open>rom\<close> of \<open>allocator\<close>. \<open>Patch_Install\<close>: \<open>flash_bridge.cpp\<close>, what the installed image
    holds, and compiler, inserter and machine together: an installed feature runs. \<open>Patch_Props\<close>: concrete
    images.
  \<^item> \<open>Feature_Graph\<close>: \<open>feature.cpp\<close>, the graphs with their editing operations, validation and linter.
    \<open>Graph_Valid\<close>: the search for cycles decides whether the dependencies are acyclic. \<open>Graph_Edit\<close>: the
    invariant that editing keeps, over an inductive set of edited graphs. \<open>Feature_Lower\<close>:
    \<open>feature_ir.cpp\<close>, scheduling and lowering. \<open>Graph_Schedule\<close>: the loop of the schedule ends with a
    topological order. \<open>Lower_Correct\<close>, \<open>Lower_Total\<close>: a meaning of graphs (\<open>pin_value\<close>, \<open>source_value\<close>),
    which the emitted module has, and success for linted graphs. \<open>Graph_Props\<close>: the properties, up to the
    patched ECU that computes what was drawn.
  \<^item> \<open>Rom_Image\<close>: the accessors of \<open>rom.cpp\<close>, interpretations of the locale \<open>rom_field\<close> (a read returns
    what was written, and a write elsewhere does not change it). \<open>Checksum\<close>: \<open>checksum.cpp\<close>.
  \<^item> \<open>Cal_Values\<close>: the typed values and scalings of \<open>defs.cpp\<close> over a record \<open>doubles\<close>, whose laws are the
    locale \<open>integer_doubles\<close>, with exact rationals as an instance. \<open>Cal_Tables\<close>: axes and tables, read,
    written and compared; a table that was written reads back.
  \<^item> \<open>Edit_Ops\<close>: the cell operations and snapshots of \<open>edit.cpp\<close>; the locale \<open>cell_edit\<close> (an operation that
    stays in its rectangle is undone by the snapshot) is interpreted on all six. \<open>Edit_History\<close>: the history and
    the editor's operations on it (\<open>actions.hpp\<close>, \<open>actions.cpp\<close>, the workflow modals). \<open>Edit_Session\<close>: the
    sessions of an editor as an inductive set, with the invariant that the history is a timeline of images.
    \<open>Edit_Props\<close>: the properties. \<open>Dtc_Toggle\<close>: the switches of trouble codes and the three ways to toggle them.

  \<^bold>\<open>State and effects.\<close> A client operation takes the transport's state and returns the new one.
  Cancellation is a function from the number of the poll to the flag's value, the clock an
  argument of the journal, the audit log of the clients a list of calls (none for a null
  pointer). Errors are values of a sum, with the messages of the code, because the flasher
  inspects them.

  \<^bold>\<open>Loops.\<close> Loops with an obvious measure are functions with a termination proof. The dump loops
  and the transfer loop can spin on a zero chunk, so they are partial functions in the option
  type, and that they return for every input their callers admit is proved
  (\<open>read_full_rom_terminates\<close>, \<open>read_full_rom_ssm_correct\<close>, \<open>execute_terminates\<close>); so is the loop of the
  schedule, which returns for every graph (\<open>schedule_terminates\<close>). The one function with
  fuel is the recursive operand walk of the code generator: \<open>compile\<close> gives it one more than the
  module has instructions, and a module in SSA order never needs more (\<open>sh2a_compile_returns\<close>); a
  deeper recursion has met an instruction twice and does not end in the code either.

  \<^bold>\<open>Assumptions.\<close> A transport is arbitrary except where a theorem says otherwise; the key function
  of the flasher and the arming flag of the bulk cipher are inputs. Signed overflow in the audit
  log's number parser is modelled as wrap-around. The arithmetic of the SH-2A floating-point unit and
  the conversions of \<open>double\<close> constants are records of functions. A hook's code is assumed to be
  called on a multiple of four with its free RAM apart from code and inputs (\<open>hook_ready\<close>). Calibration values are doubles of which only what a theorem names is assumed (that
  conversions of integers are exact and ordered, or that a table's values settle after one write); the
  rational instance shows that this can hold.

  \<^bold>\<open>Not modelled.\<close> The TOML front ends of plans and manifests and everything else that rests on a
  third-party parser (definition packs, projects, graphs on disk), the adapter backends' I/O, the user
  interface and command line beyond the operations named above, the floating-point analyses (autotune,
  knock, cold start) and the RH850 backend.
\<close>

end
